(* ===== verification/Orna_Prelude.thy ===== *)
theory Orna_Prelude
  imports Main "HOL-Library.Word" "HOL-Library.Product_Lexorder" "HOL-Library.List_Lexorder"
    "HOL-Library.Char_ord" "HOL-Library.Option_ord"
begin

text \<open>
  Shared vocabulary of the OrnaDB development.

  \<^item> Results: Rust's \<open>Result<T, E>\<close> is the sum type \<open>'e + 'a\<close>; \<open>Err\<close> and \<open>Ok\<close> abbreviate
    its injections. A method with a \<open>&mut self\<close> receiver takes the state and returns the pair
    of its result and the state it leaves behind, on every path, errors included.
  \<^item> Machine integers: \<open>u64\<close> is \<open>64 word\<close>. Addition wraps, as it does in the release
    profile; saturating operations are written out below.
  \<^item> Ordered containers: a \<open>BTreeMap\<close> is its sequence of entries in strictly ascending key
    order (the order its iterators observe) and a \<open>BTreeSet\<close> its ascending sequence of
    elements. \<open>bm_wf\<close> and \<open>bs_wf\<close> are their representation invariants. The operations are
    executable; their laws are collected in \<open>bmap\<close> and \<open>wf_intros\<close>.
  \<^item> Event machines: the locale \<open>stable_step\<close> states that a property is kept by every step;
    a component that interprets it has the property along every sequence of events.
\<close>

named_theorems bmap "laws of the ordered-map model, for component proofs"
named_theorems wf_intros "operations that keep the representation invariants"

section \<open>Results and machine integers\<close>

type_synonym ('e, 'a) result = "'e + 'a"

abbreviation Ok :: "'a \<Rightarrow> ('e, 'a) result" where
  "Ok \<equiv> Inr"

abbreviation Err :: "'e \<Rightarrow> ('e, 'a) result" where
  "Err \<equiv> Inl"

definition is_ok :: "('e, 'a) result \<Rightarrow> bool" where
  "is_ok r = (case r of Inl _ \<Rightarrow> False | Inr _ \<Rightarrow> True)"

text \<open>
  A loop whose body uses \<open>?\<close> and pushes to a vector: the first failure ends it, otherwise the pushes
  of all iterations follow one another.
\<close>

fun try_concat :: "('a \<Rightarrow> ('e, 'b list) result) \<Rightarrow> 'a list \<Rightarrow> ('e, 'b list) result" where
  "try_concat f [] = Ok []"
| "try_concat f (x # xs) =
     (case f x of Inl e \<Rightarrow> Err e
      | Inr ys \<Rightarrow> (case try_concat f xs of Inl e \<Rightarrow> Err e | Inr zs \<Rightarrow> Ok (ys @ zs)))"

definition pushes :: "('e, 'b list) result \<Rightarrow> 'b list" where
  "pushes r = (case r of Inl _ \<Rightarrow> [] | Inr ys \<Rightarrow> ys)"

lemma pushes_Ok [simp]: "pushes (Ok ys) = ys"
  by (simp add: pushes_def)

lemma try_concat_Ok:
  "try_concat f xs = Ok ys \<Longrightarrow> (\<forall>x \<in> set xs. f x = Ok (pushes (f x))) \<and> ys = concat (map (\<lambda>x. pushes (f x)) xs)"
  by (induction xs arbitrary: ys) (auto simp: pushes_def split: sum.splits)

lemma try_concat_Err:
  "try_concat f xs = Err e \<Longrightarrow> \<exists>x \<in> set xs. f x = Err e"
  by (induction xs) (auto split: sum.splits)

type_synonym u8 = "8 word"
type_synonym u16 = "16 word"
type_synonym u32 = "32 word"
type_synonym u64 = "64 word"

text \<open>A byte-string literal \<open>b"..."\<close>.\<close>

definition byte_string :: "string \<Rightarrow> u8 list" where
  "byte_string s = map (\<lambda>c. of_nat (of_char c)) s"

definition saturating_sub :: "u64 \<Rightarrow> u64 \<Rightarrow> u64" where
  "saturating_sub a b = (if b \<le> a then a - b else 0)"

definition saturating_add :: "u64 \<Rightarrow> u64 \<Rightarrow> u64" where
  "saturating_add a b = (if uint a + uint b < 2 ^ 64 then a + b else - 1)"

section \<open>Ordered maps and sets\<close>

type_synonym ('k, 'v) btree_map = "('k \<times> 'v) list"
type_synonym 'k btree_set = "'k list"

definition bm_wf :: "('k::linorder, 'v) btree_map \<Rightarrow> bool" where
  "bm_wf m \<longleftrightarrow> sorted_wrt (<) (map fst m)"

definition bm_get :: "('k, 'v) btree_map \<Rightarrow> 'k \<Rightarrow> 'v option" where
  "bm_get m k = map_of m k"

definition bm_contains :: "('k, 'v) btree_map \<Rightarrow> 'k \<Rightarrow> bool" where
  "bm_contains m k = (case map_of m k of None \<Rightarrow> False | Some _ \<Rightarrow> True)"

fun bm_insert :: "'k::linorder \<Rightarrow> 'v \<Rightarrow> ('k, 'v) btree_map \<Rightarrow> ('k, 'v) btree_map" where
  "bm_insert k v [] = [(k, v)]"
| "bm_insert k v ((l, w) # m) =
     (if k < l then (k, v) # (l, w) # m
      else if k = l then (k, v) # m
      else (l, w) # bm_insert k v m)"

fun bm_remove :: "'k \<Rightarrow> ('k, 'v) btree_map \<Rightarrow> ('k, 'v) btree_map" where
  "bm_remove k [] = []"
| "bm_remove k ((l, w) # m) = (if k = l then m else (l, w) # bm_remove k m)"

definition bm_extend :: "('k::linorder, 'v) btree_map \<Rightarrow> ('k, 'v) btree_map \<Rightarrow> ('k, 'v) btree_map" where
  "bm_extend m n = fold (\<lambda>(k, v). bm_insert k v) n m"

definition bm_retain :: "('k \<Rightarrow> 'v \<Rightarrow> bool) \<Rightarrow> ('k, 'v) btree_map \<Rightarrow> ('k, 'v) btree_map" where
  "bm_retain p m = filter (\<lambda>(k, v). p k v) m"

definition bm_collect :: "('k::linorder \<times> 'v) list \<Rightarrow> ('k, 'v) btree_map" where
  "bm_collect kvs = bm_extend [] kvs"

definition bs_wf :: "'k::linorder btree_set \<Rightarrow> bool" where
  "bs_wf s \<longleftrightarrow> sorted_wrt (<) s"

fun bs_insert :: "'k::linorder \<Rightarrow> 'k btree_set \<Rightarrow> 'k btree_set" where
  "bs_insert x [] = [x]"
| "bs_insert x (y # s) =
     (if x < y then x # y # s else if x = y then y # s else y # bs_insert x s)"

definition bs_contains :: "'k btree_set \<Rightarrow> 'k \<Rightarrow> bool" where
  "bs_contains s x = List.member s x"

fun bs_remove :: "'k \<Rightarrow> 'k btree_set \<Rightarrow> 'k btree_set" where
  "bs_remove x [] = []"
| "bs_remove x (y # s) = (if x = y then s else y # bs_remove x s)"

definition bs_collect :: "'k::linorder list \<Rightarrow> 'k btree_set" where
  "bs_collect xs = fold bs_insert xs []"

text \<open>Key ranges: the bounds a \<open>RangeBounds\<close> argument carries.\<close>

datatype 'k bound = Included 'k | Excluded 'k | Unbounded

fun key_above :: "'k::linorder bound \<Rightarrow> 'k \<Rightarrow> bool" where
  "key_above (Included l) k = (l \<le> k)"
| "key_above (Excluded l) k = (l < k)"
| "key_above Unbounded k = True"

fun key_below :: "'k::linorder bound \<Rightarrow> 'k \<Rightarrow> bool" where
  "key_below (Included h) k = (k \<le> h)"
| "key_below (Excluded h) k = (k < h)"
| "key_below Unbounded k = True"

definition bm_range :: "'k::linorder bound \<Rightarrow> 'k bound \<Rightarrow> ('k, 'v) btree_map \<Rightarrow> ('k, 'v) btree_map" where
  "bm_range lo hi m = filter (\<lambda>(k, _). key_above lo k \<and> key_below hi k) m"

text \<open>
  \<open>BTreeMap::range\<close> panics when the start bound lies above the end bound, or when both
  bounds exclude the same key; \<open>range_ok\<close> is the condition under which it returns.
\<close>

fun range_ok :: "'k::linorder bound \<Rightarrow> 'k bound \<Rightarrow> bool" where
  "range_ok (Included l) (Included h) = (l \<le> h)"
| "range_ok (Included l) (Excluded h) = (l \<le> h)"
| "range_ok (Excluded l) (Included h) = (l \<le> h)"
| "range_ok (Excluded l) (Excluded h) = (l < h)"
| "range_ok _ _ = True"

section \<open>Laws of the ordered maps\<close>

lemma bm_wf_Nil [simp, wf_intros]: "bm_wf []"
  by (simp add: bm_wf_def)

lemma bm_wf_Cons: "bm_wf ((k, v) # m) \<longleftrightarrow> (\<forall>l \<in> set (map fst m). k < l) \<and> bm_wf m"
  by (simp add: bm_wf_def)

lemma bm_get_Nil [simp]: "bm_get [] k = None"
  by (simp add: bm_get_def)

lemma bm_contains_get [bmap]: "bm_contains m k \<longleftrightarrow> bm_get m k \<noteq> None"
  by (simp add: bm_contains_def bm_get_def split: option.splits)

lemma bm_get_insert [bmap]: "bm_get (bm_insert k v m) = (bm_get m)(k \<mapsto> v)"
  unfolding bm_get_def
  by (induction k v m rule: bm_insert.induct) (auto simp: fun_eq_iff)

lemma fst_set_insert: "fst ` set (bm_insert k v m) = insert k (fst ` set m)"
  by (induction k v m rule: bm_insert.induct) auto

lemma bm_wf_insert [wf_intros]: "bm_wf m \<Longrightarrow> bm_wf (bm_insert k v m)"
  by (induction k v m rule: bm_insert.induct)
    (auto simp: bm_wf_Cons fst_set_insert)

lemma fst_set_remove: "fst ` set (bm_remove k m) \<subseteq> fst ` set m"
  by (induction k m rule: bm_remove.induct) auto

lemma bm_wf_remove [wf_intros]: "bm_wf m \<Longrightarrow> bm_wf (bm_remove k m)"
  using fst_set_remove by (induction k m rule: bm_remove.induct) (fastforce simp: bm_wf_Cons)+

lemma bm_get_None_notin: "bm_get m k = None \<longleftrightarrow> k \<notin> fst ` set m"
  by (simp add: bm_get_def map_of_eq_None_iff)

lemma bm_get_remove [bmap]: "bm_wf m \<Longrightarrow> bm_get (bm_remove k m) = (bm_get m)(k := None)"
proof (induction k m rule: bm_remove.induct)
  case (2 k l w m)
  then show ?case
    by (force simp: bm_wf_Cons bm_get_def fun_eq_iff map_of_eq_None_iff)
qed (simp add: fun_eq_iff)

lemma bm_get_extend [bmap]:
  "bm_wf n \<Longrightarrow> bm_get (bm_extend m n) = (\<lambda>k. case bm_get n k of None \<Rightarrow> bm_get m k | Some v \<Rightarrow> Some v)"
proof (induction n arbitrary: m)
  case Nil
  then show ?case by (simp add: bm_extend_def)
next
  case (Cons kv n)
  obtain k v where kv: "kv = (k, v)" by (cases kv)
  from Cons.prems kv have wf: "bm_wf n" and lt: "\<forall>l \<in> fst ` set n. k < l"
    by (auto simp: bm_wf_Cons)
  then have "bm_get n k = None" by (auto simp: bm_get_None_notin)
  moreover have "bm_get (bm_extend m (kv # n)) = bm_get (bm_extend (bm_insert k v m) n)"
    by (simp add: bm_extend_def kv)
  ultimately show ?case
    using Cons.IH [OF wf] kv
    by (auto simp: fun_eq_iff bm_get_insert bm_get_def split: option.splits)
qed

lemma bm_wf_extend [wf_intros]: "bm_wf m \<Longrightarrow> bm_wf (bm_extend m n)"
  unfolding bm_extend_def
  by (induction n arbitrary: m) (auto intro: bm_wf_insert)

lemma bm_wf_filter [wf_intros]: "bm_wf m \<Longrightarrow> bm_wf (filter P m)"
  by (induction m) (auto simp: bm_wf_def)

lemma bm_get_filter:
  "bm_wf m \<Longrightarrow> bm_get (filter P m) k = (case bm_get m k of None \<Rightarrow> None | Some v \<Rightarrow> if P (k, v) then Some v else None)"
proof (induction m)
  case (Cons kv m)
  obtain l w where kv: "kv = (l, w)" by (cases kv)
  with Cons.prems have wf: "bm_wf m" and lt: "\<forall>x \<in> fst ` set m. l < x"
    by (auto simp: bm_wf_Cons)
  from lt have "bm_get m l = None" by (auto simp: bm_get_None_notin)
  with Cons.IH [OF wf] kv show ?case
    by (auto simp: bm_get_def split: option.splits)
qed simp

lemma bm_wf_retain [wf_intros]: "bm_wf m \<Longrightarrow> bm_wf (bm_retain p m)"
  by (simp add: bm_retain_def bm_wf_filter)

lemma bm_get_retain [bmap]:
  "bm_wf m \<Longrightarrow> bm_get (bm_retain p m) k = (case bm_get m k of None \<Rightarrow> None | Some v \<Rightarrow> if p k v then Some v else None)"
  by (simp add: bm_retain_def bm_get_filter split: option.splits)

lemma bm_wf_range [wf_intros]: "bm_wf m \<Longrightarrow> bm_wf (bm_range lo hi m)"
  by (simp add: bm_range_def bm_wf_filter)

lemma bm_get_range [bmap]:
  "bm_wf m \<Longrightarrow> bm_get (bm_range lo hi m) k = (if key_above lo k \<and> key_below hi k then bm_get m k else None)"
  by (simp add: bm_range_def bm_get_filter split: option.splits)

lemma bm_get_mem: "bm_wf m \<Longrightarrow> (k, v) \<in> set m \<longleftrightarrow> bm_get m k = Some v"
proof -
  assume "bm_wf m"
  then have "distinct (map fst m)"
    unfolding bm_wf_def by (induction m) auto
  then show ?thesis by (simp add: bm_get_def)
qed

text \<open>Two ordered maps with the same lookups are the same sequence of entries.\<close>

lemma bm_ext:
  assumes "bm_wf m" and "bm_wf n" and "bm_get m = bm_get n"
  shows "m = n"
proof -
  have d: "distinct (map fst m)" "distinct (map fst n)" and s: "sorted (map fst m)" "sorted (map fst n)"
    using assms(1,2) by (auto simp: bm_wf_def strict_sorted_iff)
  have "set m = set n"
    using assms by (auto simp: bm_get_mem)
  moreover have "inj_on fst (set m)"
    using d by (simp add: distinct_map)
  ultimately show ?thesis
    using d s by (intro map_sorted_distinct_set_unique [where f = fst]) auto
qed

lemma bm_wf_collect [wf_intros]: "bm_wf (bm_collect kvs)"
  by (simp add: bm_collect_def bm_wf_extend)

section \<open>Laws of the ordered sets\<close>

lemma set_bs_insert [simp, bmap]: "set (bs_insert x s) = insert x (set s)"
  by (induction x s rule: bs_insert.induct) auto

lemma bs_wf_insert [wf_intros]: "bs_wf s \<Longrightarrow> bs_wf (bs_insert x s)"
  by (induction x s rule: bs_insert.induct) (auto simp: bs_wf_def)

lemma bs_wf_Nil [simp, wf_intros]: "bs_wf []"
  by (simp add: bs_wf_def)

lemma bs_contains_iff [simp, bmap]: "bs_contains s x \<longleftrightarrow> x \<in> set s"
  by (simp add: bs_contains_def)

lemma set_bs_remove [bmap]: "bs_wf s \<Longrightarrow> set (bs_remove x s) = set s - {x}"
  by (induction x s rule: bs_remove.induct) (auto simp: bs_wf_def)

lemma bs_wf_remove [wf_intros]: "bs_wf s \<Longrightarrow> bs_wf (bs_remove x s)"
proof (induction x s rule: bs_remove.induct)
  case (2 x y s)
  then have "set (bs_remove x s) \<subseteq> set s"
    by (auto simp: set_bs_remove bs_wf_def)
  with 2 show ?case by (auto simp: bs_wf_def)
qed simp

lemma set_bs_collect_aux: "set (fold bs_insert xs s) = set xs \<union> set s"
  by (induction xs arbitrary: s) auto

lemma set_bs_collect [simp, bmap]: "set (bs_collect xs) = set xs"
  by (simp add: bs_collect_def set_bs_collect_aux)

lemma bs_wf_collect [wf_intros]: "bs_wf (bs_collect xs)"
proof -
  have "bs_wf s \<Longrightarrow> bs_wf (fold bs_insert xs s)" for s :: "'a list"
    by (induction xs arbitrary: s) (auto intro: bs_wf_insert)
  then show ?thesis by (simp add: bs_collect_def)
qed

section \<open>Event machines\<close>

locale stable_step =
  fixes step :: "'e \<Rightarrow> 's \<Rightarrow> 's"
    and keeps :: "'s \<Rightarrow> 's \<Rightarrow> bool"
  assumes keeps_refl: "keeps s s"
    and keeps_trans: "keeps s t \<Longrightarrow> keeps t u \<Longrightarrow> keeps s u"
    and keeps_step: "keeps s (step e s)"
begin

lemma keeps_run: "keeps s (fold step events s)"
proof (induction events arbitrary: s)
  case Nil
  show ?case by (simp add: keeps_refl)
next
  case (Cons e events)
  from keeps_trans [OF keeps_step Cons.IH] show ?case by simp
qed

end

end
