(* ===== verification/Orna_Relation.thy ===== *)
theory Orna_Relation
  imports Orna_Prelude
begin

text \<open>
  The lazy ordered relation values of \<open>crates/orna-table/src/lib.rs\<close> (\<open>Relation\<close>) and the
  merging iterator behind every candidate read (\<open>CandidateScan\<close>).

  A relation is a finite iterator, modelled by the list of items it still yields. Adapters that
  keep state between two \<open>next\<close> calls (the positional window and the candidate scan) are
  modelled by their state and one \<open>next\<close> function, and draining the iterator is a recursive
  function over \<open>next\<close>, so the theorems below relate the pull-based code to closed forms.
\<close>

section \<open>Relation operators\<close>

datatype cardinality_error = CardEmpty | CardMultiple
datatype window_error = ZeroSize | ZeroStep
datatype relation_count_error = ResourceLimitExceeded

fun count_from :: "nat \<Rightarrow> int \<Rightarrow> nat \<Rightarrow> 'a list \<Rightarrow> (relation_count_error, int) result" where
  "count_from observed count maximum_items [] = Ok count"
| "count_from observed count maximum_items (_ # source) =
     (if observed = maximum_items then Err ResourceLimitExceeded
      else count_from (Suc observed) (count + 1) maximum_items source)"

definition rel_count_with_limit :: "'a list \<Rightarrow> nat \<Rightarrow> (relation_count_error, int) result" where
  "rel_count_with_limit source maximum_items = count_from 0 0 maximum_items source"

definition rel_filter :: "('a \<Rightarrow> bool) \<Rightarrow> 'a list \<Rightarrow> 'a list" where
  "rel_filter predicate source = filter predicate source"

definition rel_map :: "('a \<Rightarrow> 'b) \<Rightarrow> 'a list \<Rightarrow> 'b list" where
  "rel_map mapper source = map mapper source"

definition rel_flat_map :: "('a \<Rightarrow> 'b list) \<Rightarrow> 'a list \<Rightarrow> 'b list" where
  "rel_flat_map mapper source = concat (map mapper source)"

definition rel_union :: "'a list \<Rightarrow> 'a list \<Rightarrow> 'a list" where
  "rel_union left right = left @ right"

definition rel_zip :: "'a list \<Rightarrow> 'b list \<Rightarrow> ('a \<times> 'b) list" where
  "rel_zip left right = zip left right"

text \<open>\<open>pairs\<close> takes the next item and peeks at the one after it; it ends when either is missing.\<close>

fun rel_pairs :: "'a list \<Rightarrow> ('a \<times> 'a) list" where
  "rel_pairs [] = []"
| "rel_pairs (left # source) =
     (case source of [] \<Rightarrow> [] | right # _ \<Rightarrow> (left, right) # rel_pairs source)"

definition rel_first :: "'a list \<Rightarrow> 'a option" where
  "rel_first source = (case source of [] \<Rightarrow> None | x # _ \<Rightarrow> Some x)"

definition rel_one :: "'a list \<Rightarrow> (cardinality_error, 'a) result" where
  "rel_one source =
     (case source of
        [] \<Rightarrow> Err CardEmpty
      | x # rest \<Rightarrow> (case rest of [] \<Rightarrow> Ok x | _ # _ \<Rightarrow> Err CardMultiple))"

definition rel_count :: "'a list \<Rightarrow> int" where
  "rel_count source = fold (\<lambda>_ count. count + 1) source 0"

definition rel_min :: "'a::linorder list \<Rightarrow> 'a option" where
  "rel_min source = (case source of [] \<Rightarrow> None | x # xs \<Rightarrow> Some (fold (\<lambda>y m. if y < m then y else m) xs x))"

definition rel_max :: "'a::linorder list \<Rightarrow> 'a option" where
  "rel_max source = (case source of [] \<Rightarrow> None | x # xs \<Rightarrow> Some (fold (\<lambda>y m. if m \<le> y then y else m) xs x))"

definition rel_sum :: "'a::monoid_add list \<Rightarrow> 'a" where
  "rel_sum source = foldl (+) 0 source"

fun rel_every :: "('a \<Rightarrow> bool) \<Rightarrow> 'a list \<Rightarrow> bool" where
  "rel_every predicate [] = True"
| "rel_every predicate (x # source) = (if predicate x then rel_every predicate source else False)"

fun rel_exists :: "('a \<Rightarrow> bool) \<Rightarrow> 'a list \<Rightarrow> bool" where
  "rel_exists predicate [] = False"
| "rel_exists predicate (x # source) = (if predicate x then True else rel_exists predicate source)"

definition rel_take :: "nat \<Rightarrow> 'a list \<Rightarrow> 'a list" where
  "rel_take limit source = take limit source"

definition rel_drop :: "nat \<Rightarrow> 'a list \<Rightarrow> 'a list" where
  "rel_drop count source = drop count source"

section \<open>Positional windows\<close>

record 'a window_state =
  win_source :: "'a list"
  win_buffer :: "'a list"
  win_first :: bool
  win_exhausted :: bool

fun pop_front_to :: "nat \<Rightarrow> 'a list \<Rightarrow> 'a list" where
  "pop_front_to retained [] = []"
| "pop_front_to retained (x # buffer) =
     (if retained < length (x # buffer) then pop_front_to retained buffer else x # buffer)"

fun skip_items :: "nat \<Rightarrow> 'a list \<Rightarrow> 'a list option" where
  "skip_items 0 source = Some source"
| "skip_items (Suc n) source = (case source of [] \<Rightarrow> None | _ # rest \<Rightarrow> skip_items n rest)"

fun fill_buffer :: "nat \<Rightarrow> 'a list \<Rightarrow> 'a list \<Rightarrow> ('a list \<times> 'a list) option" where
  "fill_buffer width buffer source =
     (if length buffer < width
      then (case source of
              [] \<Rightarrow> None
            | item # rest \<Rightarrow> fill_buffer width (buffer @ [item]) rest)
      else Some (buffer, source))"

declare fill_buffer.simps [simp del]

definition window_next :: "nat \<Rightarrow> nat \<Rightarrow> 'a window_state \<Rightarrow> 'a list option \<times> 'a window_state" where
  "window_next width step w =
     (if win_exhausted w then (None, w)
      else
        let prepared =
          (if win_first w then Some (win_buffer w, win_source w)
           else map_option (\<lambda>source. (pop_front_to (width - step) (win_buffer w), source))
                  (skip_items (step - width) (win_source w)))
        in case Option.bind prepared (\<lambda>(buffer, source). fill_buffer width buffer source) of
             None \<Rightarrow> (None, w\<lparr>win_source := [], win_first := False, win_exhausted := True\<rparr>)
           | Some (buffer, source) \<Rightarrow>
               (Some buffer, w\<lparr>win_source := source, win_buffer := buffer, win_first := False\<rparr>))"

text \<open>
  A failed refill leaves the iterator exhausted; the buffer it leaves behind is never read again,
  so the model keeps the previous one.

  Draining the window iterator. Every window after the first consumes at least one item of the
  source when \<open>step\<close> is positive, so the fuel \<open>Suc (length source)\<close> reaches the final \<open>None\<close>;
  the closed form proved below shows that no window is cut off by it.
\<close>

fun window_drain :: "nat \<Rightarrow> nat \<Rightarrow> nat \<Rightarrow> 'a window_state \<Rightarrow> 'a list list" where
  "window_drain 0 width step w = []"
| "window_drain (Suc fuel) width step w =
     (case window_next width step w of
        (None, _) \<Rightarrow> []
      | (Some window, w') \<Rightarrow> window # window_drain fuel width step w')"

definition rel_window :: "nat \<Rightarrow> nat \<Rightarrow> 'a list \<Rightarrow> (window_error, 'a list list) result" where
  "rel_window width step source =
     (if width = 0 then Err ZeroSize
      else if step = 0 then Err ZeroStep
      else Ok (window_drain (Suc (length source)) width step
             \<lparr>win_source = source, win_buffer = [], win_first = True, win_exhausted = False\<rparr>))"

section \<open>Sorting, distinct values, groups and joins\<close>

definition rel_sort_by_key :: "('a \<Rightarrow> 'k::linorder) \<Rightarrow> 'a list \<Rightarrow> 'a list" where
  "rel_sort_by_key key source = sort_key key source"

fun distinct_from :: "'a::linorder btree_set \<Rightarrow> 'a list \<Rightarrow> 'a list" where
  "distinct_from seen [] = []"
| "distinct_from seen (item # source) =
     (if bs_contains seen item then distinct_from seen source
      else item # distinct_from (bs_insert item seen) source)"

definition rel_distinct :: "'a::linorder list \<Rightarrow> 'a list" where
  "rel_distinct source = distinct_from [] source"

definition push_group :: "'k::linorder \<Rightarrow> 'a \<Rightarrow> ('k, 'a list) btree_map \<Rightarrow> ('k, 'a list) btree_map" where
  "push_group k item groups =
     bm_insert k ((case bm_get groups k of None \<Rightarrow> [] | Some items \<Rightarrow> items) @ [item]) groups"

definition rel_group_by :: "('a \<Rightarrow> 'k::linorder) \<Rightarrow> 'a list \<Rightarrow> ('k \<times> 'a list) list" where
  "rel_group_by key source = fold (\<lambda>item groups. push_group (key item) item groups) source []"

definition rel_join :: "('a \<Rightarrow> 'k::linorder) \<Rightarrow> ('b \<Rightarrow> 'k) \<Rightarrow> 'a list \<Rightarrow> 'b list \<Rightarrow> ('a \<times> 'b) list" where
  "rel_join left_key right_key source right =
     (let right_groups = fold (\<lambda>item groups. push_group (right_key item) item groups) right []
      in concat (map (\<lambda>left. map (\<lambda>r. (left, r))
           (case bm_get right_groups (left_key left) of None \<Rightarrow> [] | Some items \<Rightarrow> items)) source))"

section \<open>The candidate scan\<close>

type_synonym ('k, 'r) scan_state = "('k, 'r) btree_map \<times> ('k, 'r option) btree_map"

fun candidate_scan_next :: "('k::linorder, 'r) scan_state \<Rightarrow> ('k \<times> 'r) option \<times> ('k, 'r) scan_state" where
  "candidate_scan_next ([], []) = (None, ([], []))"
| "candidate_scan_next ((key, row) # committed, []) = (Some (key, row), (committed, []))"
| "candidate_scan_next ([], (key, mutation) # overlay) =
     (case mutation of
        Some row \<Rightarrow> (Some (key, row), ([], overlay))
      | None \<Rightarrow> candidate_scan_next ([], overlay))"
| "candidate_scan_next ((committed_key, committed_row) # committed, (overlay_key, mutation) # overlay) =
     (if committed_key < overlay_key then
        (Some (committed_key, committed_row), (committed, (overlay_key, mutation) # overlay))
      else if committed_key = overlay_key then
        (case mutation of
           Some row \<Rightarrow> (Some (overlay_key, row), (committed, overlay))
         | None \<Rightarrow> candidate_scan_next (committed, overlay))
      else
        (case mutation of
           Some row \<Rightarrow> (Some (overlay_key, row), ((committed_key, committed_row) # committed, overlay))
         | None \<Rightarrow> candidate_scan_next ((committed_key, committed_row) # committed, overlay)))"

lemma candidate_scan_next_shrinks:
  "candidate_scan_next s = (Some kr, s') \<Longrightarrow> length (fst s') + length (snd s') < length (fst s) + length (snd s)"
  by (induction s arbitrary: kr s' rule: candidate_scan_next.induct)
    (auto split: option.splits if_splits)

function candidate_scan :: "('k::linorder, 'r) scan_state \<Rightarrow> ('k \<times> 'r) list" where
  "candidate_scan s =
     (case candidate_scan_next s of
        (None, _) \<Rightarrow> []
      | (Some kr, s') \<Rightarrow> kr # candidate_scan s')"
  by pat_completeness auto
termination
  by (relation "measure (\<lambda>s. length (fst s) + length (snd s))")
    (auto dest: candidate_scan_next_shrinks [OF sym])

declare candidate_scan.simps [simp del]


section \<open>Laws of the relation operators\<close>

lemma count_from_spec:
  assumes "observed \<le> maximum_items"
  shows "count_from observed count maximum_items source =
    (if observed + length source \<le> maximum_items then Ok (count + int (length source))
     else Err ResourceLimitExceeded)"
  using assms by (induction observed count maximum_items source rule: count_from.induct) auto

text \<open>
  A bounded count is exact or refused: it returns the exact number of items when the relation has
  at most \<open>maximum_items\<close> of them, and otherwise reports the limit instead of a truncated count.
\<close>

lemma rel_count_with_limit_exact:
  "rel_count_with_limit source maximum_items =
     (if length source \<le> maximum_items then Ok (int (length source)) else Err ResourceLimitExceeded)"
  by (simp add: rel_count_with_limit_def count_from_spec)

lemma rel_pairs_zip: "rel_pairs source = zip source (tl source)"
  by (induction source rule: rel_pairs.induct) (auto split: list.splits)

lemma rel_every_list_all: "rel_every p source \<longleftrightarrow> (\<forall>x \<in> set source. p x)"
  by (induction source) auto

lemma rel_exists_list_ex: "rel_exists p source \<longleftrightarrow> (\<exists>x \<in> set source. p x)"
  by (induction source) auto

lemma remdups_snoc: "remdups (ys @ [x]) = filter (\<lambda>y. y \<noteq> x) (remdups ys) @ [x]"
  by (induction ys) auto

lemma distinct_from_spec:
  "distinct_from seen source = filter (\<lambda>x. x \<notin> set seen) (rev (remdups (rev source)))"
proof (induction source arbitrary: seen)
  case (Cons item source)
  then show ?case
    by (auto simp: remdups_snoc rev_filter [symmetric] intro: filter_cong)
qed simp

text \<open>\<open>distinct\<close> keeps exactly the first occurrence of every value, in input order.\<close>

lemma rel_distinct_first_occurrences: "rel_distinct source = rev (remdups (rev source))"
  by (simp add: rel_distinct_def distinct_from_spec)

section \<open>Windows\<close>

lemma pop_front_to_drop: "pop_front_to retained buffer = drop (length buffer - retained) buffer"
  by (induction retained buffer rule: pop_front_to.induct) (auto simp: Suc_diff_le)

lemma skip_items_drop: "skip_items n source = (if n \<le> length source then Some (drop n source) else None)"
  by (induction n source rule: skip_items.induct) (auto split: list.splits)

lemma fill_buffer_spec:
  "length buffer \<le> width \<Longrightarrow>
   fill_buffer width buffer source =
     (if width \<le> length buffer + length source
      then Some (buffer @ take (width - length buffer) source, drop (width - length buffer) source)
      else None)"
proof (induction width buffer source rule: fill_buffer.induct)
  case (1 width buffer source)
  show ?case
  proof (cases "length buffer < width \<and> source \<noteq> []")
    case True
    then obtain item rest where s: "source = item # rest" by (cases source) auto
    from True have "Suc (width - Suc (length buffer)) = width - length buffer" by linarith
    with True s "1.IH" show ?thesis
      by (subst fill_buffer.simps) (auto simp: drop_Cons' take_Cons' split: nat.splits)
  next
    case False
    with "1.prems" show ?thesis
      by (subst fill_buffer.simps) (auto split: list.splits)
  qed
qed

lemma window_next_first:
  "window_next width step \<lparr>win_source = source, win_buffer = [], win_first = True, win_exhausted = False\<rparr> =
     (if width \<le> length source
      then (Some (take width source),
            \<lparr>win_source = drop width source, win_buffer = take width source, win_first = False,
              win_exhausted = False\<rparr>)
      else (None, \<lparr>win_source = [], win_buffer = [], win_first = False, win_exhausted = True\<rparr>))"
  by (simp add: window_next_def fill_buffer_spec)

lemma window_next_later:
  assumes "length buffer = width" and "0 < step" and "ys = buffer @ source"
  shows "window_next width step
      \<lparr>win_source = source, win_buffer = buffer, win_first = False, win_exhausted = False\<rparr> =
     (if step + width \<le> length ys
      then (Some (take width (drop step ys)),
            \<lparr>win_source = drop width (drop step ys), win_buffer = take width (drop step ys),
              win_first = False, win_exhausted = False\<rparr>)
      else (None, \<lparr>win_source = [], win_buffer = buffer, win_first = False, win_exhausted = True\<rparr>))"
proof (cases "step \<le> width")
  case True
  with assms show ?thesis
    by (auto simp: window_next_def fill_buffer_spec pop_front_to_drop skip_items_drop)
next
  case False
  with assms show ?thesis
    by (auto simp: window_next_def fill_buffer_spec pop_front_to_drop skip_items_drop add.commute)
qed

lemma window_drain_later:
  assumes "length buffer = width" and "0 < step" and "ys = buffer @ source"
    and "(length ys - width) div step < fuel"
  shows "window_drain fuel width step
      \<lparr>win_source = source, win_buffer = buffer, win_first = False, win_exhausted = False\<rparr> =
     map (\<lambda>i. take width (drop (Suc i * step) ys)) [0..<(length ys - width) div step]"
  using assms
proof (induction fuel arbitrary: buffer source ys)
  case (Suc fuel)
  let ?zs = "drop step ys"
  show ?case
  proof (cases "step + width \<le> length ys")
    case True
    then have n: "(length ys - width) div step = Suc ((length ?zs - width) div step)"
      using Suc.prems(2) by (simp add: le_div_geq add.commute)
    have "window_drain fuel width step
        \<lparr>win_source = drop width ?zs, win_buffer = take width ?zs, win_first = False, win_exhausted = False\<rparr> =
        map (\<lambda>i. take width (drop (Suc i * step) ?zs)) [0..<(length ?zs - width) div step]"
      using True n Suc.prems(2,4) by (intro Suc.IH) (auto simp del: drop_drop)
    then show ?thesis
      using True n Suc.prems(2)
      by (simp add: window_next_later [OF Suc.prems(1-3)] upt_conv_Cons map_Suc_upt [symmetric]
          add.commute add.left_commute del: upt_Suc)
  next
    case False
    then have "(length ys - width) div step = 0"
      using Suc.prems(2) by simp
    with False show ?thesis
      by (simp add: window_next_later [OF Suc.prems(1-3)])
  qed
qed simp

text \<open>
  The pull-based window iterator yields exactly the complete windows of the source, in order: the
  window at index \<open>i\<close> is the \<open>width\<close> items from position \<open>i * step\<close>.
\<close>

theorem rel_window_closed_form:
  assumes "0 < width" and "0 < step"
  shows "rel_window width step source =
    Ok (map (\<lambda>i. take width (drop (i * step) source))
      [0..<(if length source < width then 0 else Suc ((length source - width) div step))])"
proof (cases "length source < width")
  case True
  with assms show ?thesis
    by (simp add: rel_window_def window_next_first)
next
  case False
  have "(length source - width) div step < length source"
    using False assms by (meson div_le_dividend diff_less le_less_trans order_less_le_trans not_less)
  then have "window_drain (length source) width step
      \<lparr>win_source = drop width source, win_buffer = take width source, win_first = False, win_exhausted = False\<rparr> =
     map (\<lambda>i. take width (drop (Suc i * step) source)) [0..<(length source - width) div step]"
    using False assms by (intro window_drain_later) auto
  with False assms show ?thesis
    by (simp add: rel_window_def window_next_first upt_conv_Cons map_Suc_upt [symmetric] del: upt_Suc)
qed

theorem rel_window_closed_form_witness: "rel_window 2 3 [1::nat, 2, 3, 4, 5, 6] = Ok [[1, 2], [4, 5]]"
proof -
  have "(6 - 2) div 3 = (1::nat)" by simp
  with rel_window_closed_form [of 2 3 "[1::nat, 2, 3, 4, 5, 6]"] show ?thesis by (simp add: upt_conv_Cons)
qed

section \<open>Groups and joins\<close>

lemma bm_wf_groups: "bm_wf groups \<Longrightarrow> bm_wf (fold (\<lambda>item. push_group (key item) item) source groups)"
  by (induction source arbitrary: groups) (auto simp: push_group_def intro: bm_wf_insert)

lemma bm_get_groups:
  "bm_get (fold (\<lambda>item. push_group (key item) item) source groups) k =
     (case bm_get groups k of
        None \<Rightarrow> if filter (\<lambda>x. key x = k) source = [] then None else Some (filter (\<lambda>x. key x = k) source)
      | Some items \<Rightarrow> Some (items @ filter (\<lambda>x. key x = k) source))"
proof (induction source arbitrary: groups)
  case Nil
  then show ?case by (simp split: option.splits)
next
  case (Cons item source)
  then show ?case
    by (auto simp: push_group_def bm_get_insert split: option.splits)
qed

text \<open>
  Grouping: the groups come in strictly ascending key order, and the group of a key is the
  sub-sequence of items with that key, in input order; a key without items has no group.
\<close>

theorem rel_group_by_spec:
  "bm_wf (rel_group_by key source) \<and>
   bm_get (rel_group_by key source) k =
     (let items = filter (\<lambda>x. key x = k) source in if items = [] then None else Some items)"
  using bm_wf_groups [of "[]" key source] bm_get_groups [of key source "[]" k]
  by (auto simp: rel_group_by_def Let_def)

text \<open>
  The indexed join equals the nested-loop join, with the order of both inputs kept.
\<close>

theorem rel_join_nested_loop:
  "rel_join left_key right_key source right =
     concat (map (\<lambda>left. map (Pair left) (filter (\<lambda>r. right_key r = left_key left) right)) source)"
proof -
  have "(case bm_get (fold (\<lambda>item. push_group (right_key item) item) right []) k of
          None \<Rightarrow> [] | Some items \<Rightarrow> items) = filter (\<lambda>r. right_key r = k) right" for k
    using bm_get_groups [of right_key right "[]" k] by auto
  then show ?thesis
    by (simp add: rel_join_def Let_def)
qed

section \<open>Laws of the candidate scan\<close>

definition overlaid :: "('k \<Rightarrow> 'r option) \<Rightarrow> ('k \<Rightarrow> 'r option option) \<Rightarrow> 'k \<Rightarrow> 'r option" where
  "overlaid committed overlay k = (case overlay k of None \<Rightarrow> committed k | Some mutation \<Rightarrow> mutation)"

definition scan_get :: "('k, 'r) scan_state \<Rightarrow> 'k \<Rightarrow> 'r option" where
  "scan_get s = overlaid (bm_get (fst s)) (bm_get (snd s))"

definition scan_wf :: "('k::linorder, 'r) scan_state \<Rightarrow> bool" where
  "scan_wf s \<longleftrightarrow> bm_wf (fst s) \<and> bm_wf (snd s)"

lemma bm_get_Cons: "bm_get ((k, v) # m) l = (if l = k then Some v else bm_get m l)"
  by (simp add: bm_get_def)

lemma bm_wf_head_get: "bm_wf ((k, v) # m) \<Longrightarrow> l \<le> k \<Longrightarrow> bm_get m l = None"
  by (auto simp: bm_wf_Cons bm_get_None_notin)

text \<open>A deletion marker that hides nothing, or hides the head of the committed rows, can be dropped.\<close>

lemma scan_get_drop_marker:
  "bm_wf ((key, None) # ov) \<Longrightarrow> scan_get ([], (key, None) # ov) = scan_get ([], ov)"
  "bm_wf ((key, row) # c) \<Longrightarrow> bm_wf ((key, None) # ov) \<Longrightarrow>
     scan_get ((key, row) # c, (key, None) # ov) = scan_get (c, ov)"
  "bm_wf ((ck, row) # c) \<Longrightarrow> bm_wf ((key, None) # ov) \<Longrightarrow> key < ck \<Longrightarrow>
     scan_get ((ck, row) # c, (key, None) # ov) = scan_get ((ck, row) # c, ov)"
  by (auto simp: fun_eq_iff scan_get_def overlaid_def bm_get_Cons bm_wf_head_get split: option.splits)

lemma scan_wf_ConsD:
  "scan_wf (kv # c, ov) \<Longrightarrow> scan_wf (c, ov)"
  "scan_wf (c, km # ov) \<Longrightarrow> scan_wf (c, ov)"
  by (auto simp: scan_wf_def bm_wf_def)

text \<open>What one \<open>next\<close> call observes: the least key of the candidate relation, or its end.\<close>

definition scan_step_ok :: "('k::linorder, 'r) scan_state \<Rightarrow> ('k \<times> 'r) option \<Rightarrow> ('k, 'r) scan_state \<Rightarrow> bool" where
  "scan_step_ok s item s' \<longleftrightarrow>
     (case item of
        None \<Rightarrow> \<forall>l. scan_get s l = None
      | Some (k, r) \<Rightarrow>
          scan_wf s' \<and> (\<forall>l \<le> k. scan_get s' l = None) \<and>
          scan_get s = (scan_get s')(k \<mapsto> r))"

lemma scan_step_ok_cong: "scan_get s = scan_get t \<Longrightarrow> scan_step_ok t item s' \<Longrightarrow> scan_step_ok s item s'"
  by (simp add: scan_step_ok_def split: option.splits prod.splits)

lemma candidate_scan_next_ok:
  "scan_wf s \<Longrightarrow> scan_step_ok s (fst (candidate_scan_next s)) (snd (candidate_scan_next s))"
proof (induction s rule: candidate_scan_next.induct)
  case 1
  then show ?case by (simp add: scan_step_ok_def scan_get_def overlaid_def)
next
  case (2 key row committed)
  then have wf: "bm_wf ((key, row) # committed)" "bm_wf committed" by (auto simp: scan_wf_def bm_wf_def)
  with bm_wf_head_get [OF wf(1)] show ?case
    by (simp add: scan_step_ok_def scan_wf_def scan_get_def overlaid_def bm_get_Cons fun_eq_iff)
next
  case (3 key mutation overlay)
  then have wf: "bm_wf ((key, mutation) # overlay)" by (simp add: scan_wf_def)
  show ?case
  proof (cases mutation)
    case None
    with wf 3 scan_wf_ConsD(2) [OF "3.prems"] show ?thesis
      by (auto intro: scan_step_ok_cong [OF scan_get_drop_marker(1)])
  next
    case (Some row)
    from wf have "bm_wf overlay" by (simp add: bm_wf_def)
    with Some bm_wf_head_get [OF wf] show ?thesis
      by (simp add: scan_step_ok_def scan_wf_def scan_get_def overlaid_def bm_get_Cons fun_eq_iff)
  qed
next
  case (4 ck cr c ok mutation ov)
  then have wc: "bm_wf ((ck, cr) # c)" and wo: "bm_wf ((ok, mutation) # ov)"
    by (auto simp: scan_wf_def)
  then have wf: "bm_wf c" "bm_wf ov" by (simp_all add: bm_wf_def)
  note heads = bm_wf_head_get [OF wc] bm_wf_head_get [OF wo]
  note unfolds = scan_step_ok_def scan_wf_def scan_get_def overlaid_def bm_get_Cons fun_eq_iff
  consider (Less) "ck < ok" | (Equal) "ck = ok" | (Greater) "ok < ck" by fastforce
  then show ?case
  proof cases
    case Less
    with wf wo heads show ?thesis
      by (auto simp add: unfolds split: option.splits)
  next
    case Equal
    show ?thesis
    proof (cases mutation)
      case None
      with "4.IH"(1) Equal wc wo wf show ?thesis
        by (auto simp: scan_wf_def intro: scan_step_ok_cong [OF scan_get_drop_marker(2)])
    next
      case (Some row)
      with Equal wf heads show ?thesis
        by (auto simp add: unfolds split: option.splits)
    qed
  next
    case Greater
    show ?thesis
    proof (cases mutation)
      case None
      with "4.IH"(2) Greater wc wo wf show ?thesis
        by (auto simp: scan_wf_def intro: scan_step_ok_cong [OF scan_get_drop_marker(3)])
    next
      case (Some row)
      with Greater wf wc heads show ?thesis
        by (auto simp add: unfolds split: option.splits)
    qed
  qed
qed

lemma candidate_scan_get:
  "scan_wf s \<Longrightarrow> bm_wf (candidate_scan s) \<and> bm_get (candidate_scan s) = scan_get s"
proof (induction s rule: candidate_scan.induct)
  case (1 s)
  show ?case
  proof (cases "fst (candidate_scan_next s)")
    case None
    then have nx: "candidate_scan_next s = (None, snd (candidate_scan_next s))"
      by (simp add: prod_eq_iff)
    then show ?thesis
      using candidate_scan_next_ok [OF "1.prems"] None
      by (subst (1 2) candidate_scan.simps) (auto simp: scan_step_ok_def fun_eq_iff split: prod.splits option.splits)
  next
    case (Some kr)
    obtain k r s' where kr: "kr = (k, r)" and nx: "candidate_scan_next s = (Some (k, r), s')"
      using Some by (metis prod.exhaust_sel)
    have step: "scan_wf s'" "\<forall>l \<le> k. scan_get s' l = None" "scan_get s = (scan_get s')(k \<mapsto> r)"
      using candidate_scan_next_ok [OF "1.prems"] nx by (auto simp: scan_step_ok_def)
    then have rest: "bm_wf (candidate_scan s')" "bm_get (candidate_scan s') = scan_get s'"
      using "1.IH" [OF nx [symmetric]] by auto
    have "k < l" if "l \<in> fst ` set (candidate_scan s')" for l
    proof (rule ccontr)
      assume "\<not> k < l"
      with step have "scan_get s' l = None" by auto
      with rest(2) that show False by (metis bm_get_None_notin)
    qed
    with rest have "bm_wf ((k, r) # candidate_scan s')"
      by (auto simp: bm_wf_Cons)
    moreover have "bm_get ((k, r) # candidate_scan s') = scan_get s"
      using step rest(2) by (auto simp: fun_eq_iff bm_get_Cons)
    moreover have "candidate_scan s = (k, r) # candidate_scan s'"
      by (subst candidate_scan.simps) (simp add: nx)
    ultimately show ?thesis by simp
  qed
qed

text \<open>Any ordered map with the overlaid lookups is what the scan yields.\<close>

lemma candidate_scan_eqI:
  assumes "bm_wf c" and "bm_wf ov" and "bm_wf m"
    and "\<And>k. bm_get m k = overlaid (bm_get c) (bm_get ov) k"
  shows "candidate_scan (c, ov) = m"
proof (rule bm_ext)
  have wf: "scan_wf (c, ov)" using assms by (simp add: scan_wf_def)
  show "bm_wf (candidate_scan (c, ov))" using candidate_scan_get [OF wf] by simp
  show "bm_wf m" by fact
  show "bm_get (candidate_scan (c, ov)) = bm_get m"
    using candidate_scan_get [OF wf] assms(4) by (auto simp: scan_get_def fun_eq_iff)
qed

end
