(* ===== verification/Orna_Txn.thy ===== *)
theory Orna_Txn
  imports Orna_Relation
begin

text \<open>
  The transaction contract shared by the two activation roots of
  \<open>crates/orna-table/src/lib.rs\<close>: the single-table \<open>Activation\<close> and the multi-relation
  \<open>DatabaseActivation\<close>.

  The errors and lifecycle states are the source's enums. The abstract transaction \<open>txn\<close> keeps
  every map as a partial function; \<open>tx_apply\<close> and its companions say what each mutation, the
  publication and the savepoint operations promise. The locale \<open>txn_store\<close> is the interface:
  a store that simulates the abstract transaction. Its lemmas (isolation before publication,
  all-or-nothing publication, referential integrity of everything published, statement recovery)
  are proved once and reach both implementations by interpretation.

  Closures passed to \<open>activate\<close> are modelled by \<open>act_prog\<close>: any finite interaction with the
  activation's API, in which each answer may determine the next call. The API's own call type \<open>'o\<close>
  is given its meaning as an abstract call by the function \<open>sem\<close>.
\<close>

section \<open>Errors, lifecycle and calls\<close>

datatype table_error =
    DuplicateKey
  | MissingRow
  | ChildCannotCommit
  | HelperManagedCommit
  | DoubleCommit
  | UseAfterClose
  | ForeignSavepoint
  | ReferencedRow

datatype 'e activation_error = OperationError 'e | CommitError table_error

datatype activation_state = Open | Committed | RolledBack

datatype ('k, 'r) act_op =
    OpInsert 'k 'r
  | OpInsertRefs 'k 'r "'k list"
  | OpUpdate 'k 'r
  | OpUpdateRefs 'k 'r "'k list"
  | OpSetRefs 'k "'k list"
  | OpDelete 'k
  | OpRekey 'k 'k
  | OpRollback
  | OpCommit

datatype ('o, 'k, 'r, 'e, 't) act_prog =
    Finish "('e, 't) result"
  | Panic
  | Call 'o "(table_error, unit) result \<Rightarrow> ('o, 'k, 'r, 'e, 't) act_prog"
  | ReadKey 'k "(table_error, 'r option) result \<Rightarrow> ('o, 'k, 'r, 'e, 't) act_prog"
  | Save "(table_error, nat) result \<Rightarrow> ('o, 'k, 'r, 'e, 't) act_prog"
  | Back nat "(table_error, unit) result \<Rightarrow> ('o, 'k, 'r, 'e, 't) act_prog"

text \<open>
  Running a closure against a store: \<open>held\<close> are the savepoint values it owns, in the order it
  obtained them. A panic stops the closure; no result is returned.
\<close>

primrec run_prog ::
  "('o \<Rightarrow> 's \<Rightarrow> (table_error, unit) result \<times> 's) \<Rightarrow>
   ('s \<Rightarrow> 'k \<Rightarrow> (table_error, 'r option) result) \<Rightarrow>
   ('s \<Rightarrow> (table_error, 'sp) result) \<Rightarrow>
   ('sp \<Rightarrow> 's \<Rightarrow> (table_error, unit) result \<times> 's) \<Rightarrow>
   ('o, 'k, 'r, 'e, 't) act_prog \<Rightarrow> 'sp list \<Rightarrow> 's \<Rightarrow> ('e, 't) result option \<times> 's" where
  "run_prog ap rd sv bk (Finish result) held s = (Some result, s)"
| "run_prog ap rd sv bk Panic held s = (None, s)"
| "run_prog ap rd sv bk (Call op cont) held s =
     (case ap op s of (answer, s') \<Rightarrow> run_prog ap rd sv bk (cont answer) held s')"
| "run_prog ap rd sv bk (ReadKey k cont) held s = run_prog ap rd sv bk (cont (rd s k)) held s"
| "run_prog ap rd sv bk (Save cont) held s =
     (case sv s of
        Inl e \<Rightarrow> run_prog ap rd sv bk (cont (Err e)) held s
      | Inr sp \<Rightarrow> run_prog ap rd sv bk (cont (Ok (length held))) (held @ [sp]) s)"
| "run_prog ap rd sv bk (Back n cont) held s =
     (if n < length held
      then (case bk (held ! n) s of (answer, s') \<Rightarrow> run_prog ap rd sv bk (cont answer) held s')
      else run_prog ap rd sv bk (cont (Err ForeignSavepoint)) held s)"

section \<open>The abstract transaction\<close>

record ('k, 'r) txn =
  tx_committed :: "'k \<rightharpoonup> 'r"
  tx_refs :: "'k \<rightharpoonup> 'k set"
  tx_overlay :: "'k \<rightharpoonup> 'r option"
  tx_ref_overlay :: "'k \<rightharpoonup> 'k set"
  tx_rekeys :: "('k \<times> 'k) list"
  tx_state :: activation_state
  tx_id :: u64
  tx_managed :: bool

record ('k, 'r) tx_savepoint =
  sp_overlay :: "'k \<rightharpoonup> 'r option"
  sp_rekeys :: "('k \<times> 'k) list"
  sp_ref_overlay :: "'k \<rightharpoonup> 'k set"
  sp_id :: u64

definition tx_candidate :: "('k, 'r) txn \<Rightarrow> 'k \<Rightarrow> 'r option" where
  "tx_candidate t = overlaid (tx_committed t) (tx_overlay t)"

definition tx_candidate_refs :: "('k, 'r) txn \<Rightarrow> 'k \<Rightarrow> 'k set option" where
  "tx_candidate_refs t k = (case tx_ref_overlay t k of None \<Rightarrow> tx_refs t k | Some ts \<Rightarrow> Some ts)"

definition tx_insert :: "'k \<Rightarrow> 'r \<Rightarrow> ('k, 'r) txn \<Rightarrow> (table_error, unit) result \<times> ('k, 'r) txn" where
  "tx_insert k r t =
     (if tx_state t \<noteq> Open then (Err UseAfterClose, t)
      else if tx_candidate t k \<noteq> None then (Err DuplicateKey, t)
      else (Ok (), t\<lparr>tx_overlay := (tx_overlay t)(k \<mapsto> Some r),
                     tx_ref_overlay := (tx_ref_overlay t)(k \<mapsto> {})\<rparr>))"

definition tx_update :: "'k \<Rightarrow> 'r \<Rightarrow> ('k, 'r) txn \<Rightarrow> (table_error, unit) result \<times> ('k, 'r) txn" where
  "tx_update k r t =
     (if tx_state t \<noteq> Open then (Err UseAfterClose, t)
      else if tx_candidate t k = None then (Err MissingRow, t)
      else (Ok (), t\<lparr>tx_overlay := (tx_overlay t)(k \<mapsto> Some r)\<rparr>))"

definition tx_set_refs :: "'k \<Rightarrow> 'k list \<Rightarrow> ('k, 'r) txn \<Rightarrow> (table_error, unit) result \<times> ('k, 'r) txn" where
  "tx_set_refs k targets t =
     (if tx_state t \<noteq> Open then (Err UseAfterClose, t)
      else if tx_candidate t k = None then (Err MissingRow, t)
      else (Ok (), t\<lparr>tx_ref_overlay := (tx_ref_overlay t)(k \<mapsto> set targets)\<rparr>))"

definition tx_delete :: "'k \<Rightarrow> ('k, 'r) txn \<Rightarrow> (table_error, unit) result \<times> ('k, 'r) txn" where
  "tx_delete k t =
     (if tx_state t \<noteq> Open then (Err UseAfterClose, t)
      else if tx_candidate t k = None then (Err MissingRow, t)
      else (Ok (), t\<lparr>tx_overlay := (tx_overlay t)(k \<mapsto> None),
                     tx_ref_overlay := (tx_ref_overlay t)(k \<mapsto> {})\<rparr>))"

definition tx_rekey :: "'k \<Rightarrow> 'k \<Rightarrow> ('k, 'r) txn \<Rightarrow> (table_error, unit) result \<times> ('k, 'r) txn" where
  "tx_rekey old new t =
     (if tx_state t \<noteq> Open then (Err UseAfterClose, t)
      else case tx_candidate t old of
        None \<Rightarrow> (Err MissingRow, t)
      | Some row \<Rightarrow>
          if tx_candidate t new \<noteq> None then (Err DuplicateKey, t)
          else (Ok (), t\<lparr>tx_overlay := (tx_overlay t)(old \<mapsto> None, new \<mapsto> Some row),
                         tx_ref_overlay := (tx_ref_overlay t)
                           (old \<mapsto> {}, new \<mapsto> (case tx_candidate_refs t old of None \<Rightarrow> {} | Some ts \<Rightarrow> ts)),
                         tx_rekeys := tx_rekeys t @ [(old, new)]\<rparr>))"

definition tx_and_then ::
  "(table_error, unit) result \<times> ('k, 'r) txn \<Rightarrow>
   (('k, 'r) txn \<Rightarrow> (table_error, unit) result \<times> ('k, 'r) txn) \<Rightarrow>
   (table_error, unit) result \<times> ('k, 'r) txn" where
  "tx_and_then p f = (case p of (Inl e, t) \<Rightarrow> (Err e, t) | (Inr _, t) \<Rightarrow> f t)"

definition tx_rollback :: "('k, 'r) txn \<Rightarrow> ('k, 'r) txn" where
  "tx_rollback t =
     (if tx_state t = Open
      then t\<lparr>tx_overlay := Map.empty, tx_rekeys := [], tx_ref_overlay := Map.empty, tx_state := RolledBack\<rparr>
      else t)"

text \<open>The references that survive publication: those of the rows the candidate relation has.\<close>

definition tx_published_refs :: "('k, 'r) txn \<Rightarrow> 'k \<Rightarrow> 'k set option" where
  "tx_published_refs t k = (if tx_candidate t k = None then None else tx_candidate_refs t k)"

definition tx_dangling :: "('k, 'r) txn \<Rightarrow> bool" where
  "tx_dangling t \<longleftrightarrow> (\<exists>s ts x. tx_published_refs t s = Some ts \<and> x \<in> ts \<and> tx_candidate t x = None)"

definition tx_publish :: "('k, 'r) txn \<Rightarrow> (table_error, unit) result \<times> ('k, 'r) txn" where
  "tx_publish t =
     (case tx_state t of
        Committed \<Rightarrow> (Err DoubleCommit, t)
      | RolledBack \<Rightarrow> (Err UseAfterClose, t)
      | Open \<Rightarrow>
          if tx_dangling t
          then (Err ReferencedRow, t)
          else (Ok (), t\<lparr>tx_committed := tx_candidate t, tx_refs := tx_published_refs t,
                         tx_state := Committed\<rparr>))"

definition tx_commit :: "('k, 'r) txn \<Rightarrow> (table_error, unit) result \<times> ('k, 'r) txn" where
  "tx_commit t = (if tx_managed t then (Err HelperManagedCommit, t) else tx_publish t)"

fun tx_apply :: "('k, 'r) act_op \<Rightarrow> ('k, 'r) txn \<Rightarrow> (table_error, unit) result \<times> ('k, 'r) txn" where
  "tx_apply (OpInsert k r) t = tx_insert k r t"
| "tx_apply (OpInsertRefs k r ts) t = tx_and_then (tx_insert k r t) (tx_set_refs k ts)"
| "tx_apply (OpUpdate k r) t = tx_update k r t"
| "tx_apply (OpUpdateRefs k r ts) t = tx_and_then (tx_update k r t) (tx_set_refs k ts)"
| "tx_apply (OpSetRefs k ts) t = tx_set_refs k ts t"
| "tx_apply (OpDelete k) t = tx_delete k t"
| "tx_apply (OpRekey old new) t = tx_rekey old new t"
| "tx_apply OpRollback t = (Ok (), tx_rollback t)"
| "tx_apply OpCommit t = tx_commit t"

definition tx_save :: "('k, 'r) txn \<Rightarrow> (table_error, ('k, 'r) tx_savepoint) result" where
  "tx_save t =
     (if tx_state t \<noteq> Open then Err UseAfterClose
      else Ok \<lparr>sp_overlay = tx_overlay t, sp_rekeys = tx_rekeys t, sp_ref_overlay = tx_ref_overlay t,
               sp_id = tx_id t\<rparr>)"

definition tx_back :: "('k, 'r) tx_savepoint \<Rightarrow> ('k, 'r) txn \<Rightarrow> (table_error, unit) result \<times> ('k, 'r) txn" where
  "tx_back sp t =
     (if tx_state t \<noteq> Open then (Err UseAfterClose, t)
      else if sp_id sp \<noteq> tx_id t then (Err ForeignSavepoint, t)
      else (Ok (), t\<lparr>tx_overlay := sp_overlay sp, tx_rekeys := sp_rekeys sp,
                     tx_ref_overlay := sp_ref_overlay sp\<rparr>))"

text \<open>Referential integrity of a published relation: no recorded reference dangles.\<close>

definition refs_ok :: "('k \<rightharpoonup> 'r) \<Rightarrow> ('k \<rightharpoonup> 'k set) \<Rightarrow> bool" where
  "refs_ok rows refs \<longleftrightarrow> (\<forall>s ts. refs s = Some ts \<longrightarrow> rows s \<noteq> None \<and> (\<forall>x \<in> ts. rows x \<noteq> None))"

lemmas tx_defs = tx_insert_def tx_update_def tx_set_refs_def tx_delete_def tx_rekey_def tx_rollback_def
  tx_publish_def tx_commit_def tx_and_then_def

section \<open>Laws of the abstract transaction\<close>

lemma tx_publish_ok:
  assumes "fst (tx_publish t) = Ok ()"
  shows "tx_state t = Open" and "tx_committed (snd (tx_publish t)) = tx_candidate t"
    and "refs_ok (tx_committed (snd (tx_publish t))) (tx_refs (snd (tx_publish t)))"
    and "tx_state (snd (tx_publish t)) = Committed"
proof -
  from assms have open_t: "tx_state t = Open" and nd: "\<not> tx_dangling t"
    by (auto simp: tx_publish_def split: activation_state.splits if_splits)
  then have eq: "snd (tx_publish t) =
      t\<lparr>tx_committed := tx_candidate t, tx_refs := tx_published_refs t, tx_state := Committed\<rparr>"
    by (simp add: tx_publish_def)
  have "tx_published_refs t s = Some ts \<Longrightarrow> tx_candidate t s \<noteq> None" for s ts
    by (auto simp: tx_published_refs_def split: if_splits)
  with nd have "refs_ok (tx_candidate t) (tx_published_refs t)"
    by (fastforce simp: refs_ok_def tx_dangling_def)
  with eq open_t show "tx_state t = Open" and "tx_committed (snd (tx_publish t)) = tx_candidate t"
    and "refs_ok (tx_committed (snd (tx_publish t))) (tx_refs (snd (tx_publish t)))"
    and "tx_state (snd (tx_publish t)) = Committed"
    by simp_all
qed

lemma tx_publish_err: "fst (tx_publish t) \<noteq> Ok () \<Longrightarrow> snd (tx_publish t) = t"
  by (auto simp: tx_publish_def split: activation_state.splits if_splits)

text \<open>
  Every call either leaves the published rows and references untouched, or is the publication
  that closes the activation.
\<close>

definition tx_same_base :: "('k, 'r) txn \<Rightarrow> ('k, 'r) txn \<Rightarrow> bool" where
  "tx_same_base t t' \<longleftrightarrow> tx_committed t' = tx_committed t \<and> tx_refs t' = tx_refs t"

lemma tx_apply_base:
  "tx_same_base t (snd (tx_apply op t)) \<or>
   (op = OpCommit \<and> \<not> tx_managed t \<and> fst (tx_publish t) = Ok () \<and> snd (tx_apply op t) = snd (tx_publish t))"
proof (cases op)
  case OpCommit
  then show ?thesis
    using tx_publish_err [of t]
    by (cases "fst (tx_publish t) = Ok ()") (auto simp: tx_commit_def tx_same_base_def)
qed (auto simp: tx_same_base_def tx_defs split: option.splits sum.splits)

lemma tx_apply_fields:
  "tx_id (snd (tx_apply op t)) = tx_id t" "tx_managed (snd (tx_apply op t)) = tx_managed t"
  by (cases op; simp add: tx_defs split: option.splits activation_state.splits sum.splits)+

lemma tx_apply_state:
  "tx_state (snd (tx_apply op t)) = Open \<Longrightarrow> tx_state t = Open \<and> tx_same_base t (snd (tx_apply op t))"
  by (cases op)
    (auto simp: tx_same_base_def tx_defs split: option.splits activation_state.splits sum.splits if_splits)

lemma tx_apply_refs_ok:
  "refs_ok (tx_committed t) (tx_refs t) \<Longrightarrow>
   refs_ok (tx_committed (snd (tx_apply op t))) (tx_refs (snd (tx_apply op t)))"
  using tx_apply_base [of t op] tx_publish_ok [of t] by (auto simp: tx_same_base_def)

definition tx_read :: "('k, 'r) txn \<Rightarrow> 'k \<Rightarrow> (table_error, 'r option) result" where
  "tx_read t k = (if tx_state t \<noteq> Open then Err UseAfterClose else Ok (tx_candidate t k))"

lemma tx_back_base:
  "tx_same_base t (snd (tx_back sp t))" "tx_managed (snd (tx_back sp t)) = tx_managed t"
  "tx_state (snd (tx_back sp t)) = tx_state t" "tx_id (snd (tx_back sp t)) = tx_id t"
  by (simp_all add: tx_back_def tx_same_base_def)

lemma tx_same_base_refl [simp]: "tx_same_base t t"
  by (simp add: tx_same_base_def)

lemma tx_same_base_trans: "tx_same_base t u \<Longrightarrow> tx_same_base u v \<Longrightarrow> tx_same_base t v"
  by (simp add: tx_same_base_def)

lemma tx_same_base_refs_ok:
  "tx_same_base t u \<Longrightarrow> refs_ok (tx_committed u) (tx_refs u) \<longleftrightarrow> refs_ok (tx_committed t) (tx_refs t)"
  by (simp add: tx_same_base_def)

text \<open>A helper-managed activation cannot publish, so a closure run inside it leaves the base alone.\<close>

lemma tx_run_managed:
  "tx_managed t \<Longrightarrow> tx_same_base t (snd (run_prog (\<lambda>c. tx_apply (sem c)) tx_read tx_save tx_back prog held t))
     \<and> tx_managed (snd (run_prog (\<lambda>c. tx_apply (sem c)) tx_read tx_save tx_back prog held t))"
proof (induction prog arbitrary: held t)
  case (Call op cont)
  have "tx_same_base t (snd (tx_apply (sem op) t))" "tx_managed (snd (tx_apply (sem op) t))"
    using Call.prems tx_apply_base [of t "sem op"] tx_apply_fields [of "sem op" t] by auto
  with Call.IH [OF rangeI, of "snd (tx_apply (sem op) t)"] show ?case
    by (auto simp: split_beta intro: tx_same_base_trans)
next
  case (Back n cont)
  have "tx_managed (snd (tx_back (held ! n) t))"
    using Back.prems by (simp add: tx_back_base)
  with Back.IH [OF rangeI, of "snd (tx_back (held ! n) t)"] Back.IH [OF rangeI] Back.prems show ?case
    by (auto simp: split_beta intro: tx_same_base_trans [OF tx_back_base(1)])
qed (auto split: sum.splits)

text \<open>Whatever a closure does, published rows keep referential integrity.\<close>

lemma tx_run_refs_ok:
  "refs_ok (tx_committed t) (tx_refs t) \<Longrightarrow>
   refs_ok (tx_committed (snd (run_prog (\<lambda>c. tx_apply (sem c)) tx_read tx_save tx_back prog held t)))
     (tx_refs (snd (run_prog (\<lambda>c. tx_apply (sem c)) tx_read tx_save tx_back prog held t)))"
proof (induction prog arbitrary: held t)
  case (Call op cont)
  then show ?case
    using tx_apply_refs_ok [OF Call.prems, of "sem op"] by (auto simp: split_beta)
next
  case (Back n cont)
  then show ?case
    using tx_same_base_refs_ok [OF tx_back_base(1) [where sp = "held ! n" and t = t]] by (auto simp: split_beta)
qed (auto split: sum.splits)

text \<open>While an activation is still open after a closure, nothing was published.\<close>

definition tx_unpublished :: "('k, 'r) txn \<Rightarrow> ('k, 'r) txn \<Rightarrow> bool" where
  "tx_unpublished t u \<longleftrightarrow>
     (tx_state u = Open \<longrightarrow> tx_state t = Open \<and> tx_same_base t u \<and> tx_id u = tx_id t \<and> tx_managed u = tx_managed t)"

lemma tx_unpublished_refl: "tx_unpublished t t"
  by (simp add: tx_unpublished_def)

lemma tx_unpublished_trans: "tx_unpublished t u \<Longrightarrow> tx_unpublished u v \<Longrightarrow> tx_unpublished t v"
  by (auto simp: tx_unpublished_def intro: tx_same_base_trans)

lemma tx_unpublished_steps:
  "tx_unpublished t (snd (tx_apply op t))" "tx_unpublished t (snd (tx_back sp t))"
  using tx_apply_state [of op t] tx_apply_fields [of op t] tx_back_base [where sp = sp and t = t]
  by (auto simp: tx_unpublished_def)

lemma tx_run_open: "tx_unpublished t (snd (run_prog (\<lambda>c. tx_apply (sem c)) tx_read tx_save tx_back prog held t))"
proof (induction prog arbitrary: held t)
  case (Call op cont)
  then show ?case
    by (auto simp: split_beta intro: tx_unpublished_trans [OF tx_unpublished_steps(1) [where op = "sem op"]])
next
  case (Back n cont)
  then show ?case
    by (auto simp: split_beta intro: tx_unpublished_trans [OF tx_unpublished_steps(2) [where sp = "held ! n"]])
qed (auto simp: tx_unpublished_refl split: sum.splits)

section \<open>The store interface\<close>

locale txn_store =
  fixes abs :: "'s \<Rightarrow> ('k, 'r) txn"
    and wf :: "'s \<Rightarrow> bool"
    and sem :: "'o \<Rightarrow> ('k, 'r) act_op"
    and ap :: "'o \<Rightarrow> 's \<Rightarrow> (table_error, unit) result \<times> 's"
    and rd :: "'s \<Rightarrow> 'k \<Rightarrow> (table_error, 'r option) result"
    and sv :: "'s \<Rightarrow> (table_error, 'sp) result"
    and bk :: "'sp \<Rightarrow> 's \<Rightarrow> (table_error, unit) result \<times> 's"
    and sp_abs :: "'sp \<Rightarrow> ('k, 'r) tx_savepoint"
    and sp_wf :: "'sp \<Rightarrow> bool"
    and base :: "'s \<Rightarrow> 'b"
  assumes ap_wf: "wf s \<Longrightarrow> wf (snd (ap op s))"
    and ap_sim: "wf s \<Longrightarrow> map_prod id abs (ap op s) = tx_apply (sem op) (abs s)"
    and rd_sim: "wf s \<Longrightarrow> rd s k = tx_read (abs s) k"
    and sv_sim: "wf s \<Longrightarrow> map_sum id sp_abs (sv s) = tx_save (abs s)"
    and sv_wf: "wf s \<Longrightarrow> sv s = Ok sp \<Longrightarrow> sp_wf sp"
    and bk_wf: "wf s \<Longrightarrow> sp_wf sp \<Longrightarrow> wf (snd (bk sp s))"
    and bk_sim: "wf s \<Longrightarrow> sp_wf sp \<Longrightarrow> map_prod id abs (bk sp s) = tx_back (sp_abs sp) (abs s)"
    and ap_base: "tx_managed (abs s) \<or> sem op \<noteq> OpCommit \<Longrightarrow> base (snd (ap op s)) = base s"
    and bk_base: "base (snd (bk sp s)) = base s"
begin

lemma ap_eq: "wf s \<Longrightarrow> ap op s = (answer, s') \<Longrightarrow> tx_apply (sem op) (abs s) = (answer, abs s') \<and> wf s'"
  using ap_sim [of s op] ap_wf [of s op] by simp

lemma bk_eq:
  "wf s \<Longrightarrow> sp_wf sp \<Longrightarrow> bk sp s = (answer, s') \<Longrightarrow>
   tx_back (sp_abs sp) (abs s) = (answer, abs s') \<and> wf s'"
  using bk_sim [of s sp] bk_wf [of s sp] by simp

text \<open>Every closure observes the same answers from the store as from the abstract transaction.\<close>

lemma run_refines:
  "wf s \<Longrightarrow> list_all sp_wf held \<Longrightarrow>
   wf (snd (run_prog ap rd sv bk prog held s)) \<and>
   map_prod id abs (run_prog ap rd sv bk prog held s) =
     run_prog (\<lambda>c. tx_apply (sem c)) tx_read tx_save tx_back prog (map sp_abs held) (abs s)"
proof (induction prog arbitrary: held s)
  case (Call op cont)
  obtain answer s' where ap: "ap op s = (answer, s')" by fastforce
  with Call ap_eq [OF Call.prems(1) ap] show ?case by simp
next
  case (Save cont)
  show ?case
  proof (cases "sv s")
    case (Inl e)
    with Save sv_sim [OF Save.prems(1)] show ?thesis by (cases "tx_save (abs s)") auto
  next
    case (Inr sp)
    with Save sv_sim [OF Save.prems(1)] sv_wf [OF Save.prems(1)] show ?thesis
      by (cases "tx_save (abs s)") auto
  qed
next
  case (Back n cont)
  show ?case
  proof (cases "n < length held")
    case True
    then have w: "sp_wf (held ! n)" using Back.prems(2) by (simp add: list_all_length)
    obtain answer s' where bk: "bk (held ! n) s = (answer, s')" by fastforce
    with Back bk_eq [OF Back.prems(1) w bk] True show ?thesis by simp
  next
    case False
    with Back show ?thesis by simp
  qed
qed (simp_all add: rd_sim)

lemma run_snd:
  assumes "wf s" and "list_all sp_wf held"
  shows "abs (snd (run_prog ap rd sv bk prog held s)) =
    snd (run_prog (\<lambda>c. tx_apply (sem c)) tx_read tx_save tx_back prog (map sp_abs held) (abs s))"
  using run_refines [OF assms, of prog] by (metis snd_map_prod)

lemma run_managed_base:
  assumes "wf s" and "list_all sp_wf held" and "tx_managed (abs s)"
  shows "tx_same_base (abs s) (abs (snd (run_prog ap rd sv bk prog held s)))"
  using tx_run_managed [OF assms(3), of sem prog "map sp_abs held"] by (simp add: run_snd [OF assms(1,2)])

text \<open>Inside a helper-managed activation the borrowed runtime itself stays as it was.\<close>

lemma run_managed_runtime:
  "wf s \<Longrightarrow> list_all sp_wf held \<Longrightarrow> tx_managed (abs s) \<Longrightarrow>
   base (snd (run_prog ap rd sv bk prog held s)) = base s"
proof (induction prog arbitrary: held s)
  case (Call op cont)
  obtain answer s' where ap: "ap op s = (answer, s')" by fastforce
  note step = ap_eq [OF Call.prems(1) ap]
  then have "tx_managed (abs s')"
    using Call.prems(3) tx_apply_fields(2) [of "sem op" "abs s"] by simp
  with Call step ap ap_base [of s op] show ?case by simp
next
  case (Save cont)
  then show ?case using sv_wf [OF Save.prems(1)] by (auto split: sum.splits)
next
  case (Back n cont)
  show ?case
  proof (cases "n < length held")
    case True
    then have w: "sp_wf (held ! n)" using Back.prems(2) by (simp add: list_all_length)
    obtain answer s' where bk: "bk (held ! n) s = (answer, s')" by fastforce
    note step = bk_eq [OF Back.prems(1) w bk]
    then have "tx_managed (abs s')"
      using Back.prems(3) tx_back_base(2) [of "sp_abs (held ! n)" "abs s"] by simp
    with Back step bk bk_base [of "held ! n" s] True show ?thesis by simp
  qed (use Back in simp)
qed simp_all

lemma run_keeps_integrity:
  assumes "wf s" and "list_all sp_wf held" and "refs_ok (tx_committed (abs s)) (tx_refs (abs s))"
  shows "refs_ok (tx_committed (abs (snd (run_prog ap rd sv bk prog held s))))
    (tx_refs (abs (snd (run_prog ap rd sv bk prog held s))))"
  using tx_run_refs_ok [OF assms(3), of sem prog "map sp_abs held"] by (simp add: run_snd [OF assms(1,2)])

text \<open>
  Statement recovery: after any closure that leaves the activation open, going back to an earlier
  savepoint of the same activation restores the abstract transaction at the savepoint.
\<close>

lemma savepoint_recovers:
  assumes "wf s" and "list_all sp_wf held" and "sv s = Ok sp"
    and "s' = snd (run_prog ap rd sv bk prog held s)" and "tx_state (abs s') = Open"
  shows "fst (bk sp s') = Ok () \<and> abs (snd (bk sp s')) = abs s"
proof -
  have w': "wf s'" and spw: "sp_wf sp"
    using run_refines [OF assms(1,2), of prog] assms(4) sv_wf [OF assms(1,3)] by auto
  have "Inr (sp_abs sp) = tx_save (abs s)"
    using sv_sim [OF assms(1)] assms(3) by simp
  then have st: "tx_state (abs s) = Open" and sp: "sp_abs sp = \<lparr>sp_overlay = tx_overlay (abs s), sp_rekeys = tx_rekeys (abs s),
      sp_ref_overlay = tx_ref_overlay (abs s), sp_id = tx_id (abs s)\<rparr>"
    by (auto simp: tx_save_def split: if_splits)
  have "tx_same_base (abs s) (abs s')" "tx_id (abs s') = tx_id (abs s)"
    "tx_managed (abs s') = tx_managed (abs s)"
    using tx_run_open [of "abs s" sem prog "map sp_abs held"] assms(4,5)
    by (auto simp: run_snd [OF assms(1,2)] tx_unpublished_def)
  with assms(5) st have "tx_back (sp_abs sp) (abs s') = (Ok (), abs s)"
    by (cases "abs s"; cases "abs s'") (simp add: tx_back_def sp tx_same_base_def)
  with bk_sim [OF w' spw] show ?thesis by (cases "bk sp s'") simp
qed

end

text \<open>
  A transaction root also publishes: \<open>pub\<close> is the publication step, and a refused publication leaves
  the activation alone. The facts about what a publication makes visible follow for every root.
\<close>

locale txn_root = txn_store +
  fixes pub :: "'a \<Rightarrow> (table_error, unit) result \<times> 'a"
  assumes pub_wf: "wf s \<Longrightarrow> wf (snd (pub s))"
    and pub_sim: "wf s \<Longrightarrow> map_prod id abs (pub s) = tx_publish (abs s)"
    and pub_err: "fst (pub s) \<noteq> Ok () \<Longrightarrow> snd (pub s) = s"
begin

lemma pub_parts:
  assumes "wf s"
  shows "fst (pub s) = fst (tx_publish (abs s))" and "abs (snd (pub s)) = snd (tx_publish (abs s))"
  using pub_sim [OF assms] by (metis fst_map_prod id_apply, metis snd_map_prod)

lemma pub_ok:
  assumes "wf s" and "fst (pub s) = Ok ()"
  shows "tx_state (abs s) = Open" and "tx_committed (abs (snd (pub s))) = tx_candidate (abs s)"
    and "refs_ok (tx_committed (abs (snd (pub s)))) (tx_refs (abs (snd (pub s))))"
    and "tx_state (abs (snd (pub s))) = Committed"
  using tx_publish_ok [of "abs s"] assms(2) by (simp_all add: pub_parts [OF assms(1)])

lemma pub_keeps_integrity:
  assumes "wf s" and "refs_ok (tx_committed (abs s)) (tx_refs (abs s))"
  shows "refs_ok (tx_committed (abs (snd (pub s)))) (tx_refs (abs (snd (pub s))))"
  using pub_ok(3) [OF assms(1)] pub_err [of s] assms(2) by (cases "fst (pub s) = Ok ()") auto

end

end
