(* ===== verification/Orna_Table.thy ===== *)
theory Orna_Table
  imports Orna_Txn
begin

text \<open>
  The single-table transaction primitive of \<open>crates/orna-table/src/lib.rs\<close>: \<open>TableRuntime\<close>,
  \<open>TableSnapshot\<close>, \<open>Activation\<close>, \<open>Savepoint\<close> and \<open>ChildScope\<close>.

  An activation mutably borrows its runtime, so the model keeps the runtime inside the activation
  record and reads it back when the activation ends. The process-wide identifier counter is the
  explicit argument \<open>counter\<close>. \<open>act_abs\<close> is the abstraction to the transaction contract; the
  interpretation \<open>table_store\<close> discharges that contract for these definitions.
\<close>

section \<open>State\<close>

record ('k, 'r) table_runtime =
  tr_committed :: "('k, 'r) btree_map"
  tr_required_references :: "('k, 'k btree_set) btree_map"

record ('k, 'r) activation =
  a_runtime :: "('k, 'r) table_runtime"
  a_overlay :: "('k, 'r option) btree_map"
  a_rekey_changes :: "('k \<times> 'k) list"
  a_required_reference_overlay :: "('k, 'k btree_set) btree_map"
  a_state :: activation_state
  a_activation_id :: u64
  a_helper_managed :: bool

record ('k, 'r) savepoint =
  s_overlay :: "('k, 'r option) btree_map"
  s_rekey_changes :: "('k \<times> 'k) list"
  s_required_reference_overlay :: "('k, 'k btree_set) btree_map"
  s_activation_id :: u64

section \<open>The runtime and its snapshots\<close>

definition next_activation_id :: "u64 \<Rightarrow> u64 option \<times> u64" where
  "next_activation_id counter = (if counter = 0 then None else Some counter, counter + 1)"

definition table_default :: "('k, 'r) table_runtime" where
  "table_default = \<lparr>tr_committed = [], tr_required_references = []\<rparr>"

definition table_snapshot :: "('k, 'r) table_runtime \<Rightarrow> ('k, 'r) btree_map" where
  "table_snapshot rt = tr_committed rt"

definition table_begin :: "u64 \<Rightarrow> ('k, 'r) table_runtime \<Rightarrow> ('k, 'r) activation" where
  "table_begin ident rt =
     \<lparr>a_runtime = rt, a_overlay = [], a_rekey_changes = [], a_required_reference_overlay = [],
      a_state = Open, a_activation_id = ident, a_helper_managed = False\<rparr>"

definition table_committed :: "('k, 'r) table_runtime \<Rightarrow> 'k \<Rightarrow> 'r option" where
  "table_committed rt k = bm_get (tr_committed rt) k"

definition table_scan :: "('k, 'r) table_runtime \<Rightarrow> ('k \<times> 'r) list" where
  "table_scan rt = tr_committed rt"

definition table_scan_window :: "nat \<Rightarrow> ('k, 'r) table_runtime \<Rightarrow> ('k \<times> 'r) list" where
  "table_scan_window limit rt = take limit (table_scan rt)"

definition table_scan_range :: "'k::linorder bound \<Rightarrow> 'k bound \<Rightarrow> ('k, 'r) table_runtime \<Rightarrow> ('k \<times> 'r) list option" where
  "table_scan_range lo hi rt = (if range_ok lo hi then Some (bm_range lo hi (tr_committed rt)) else None)"

section \<open>The activation\<close>

definition act_require_open :: "('k, 'r) activation \<Rightarrow> (table_error, unit) result" where
  "act_require_open a = (if a_state a = Open then Ok () else Err UseAfterClose)"

definition act_candidate :: "('k, 'r) activation \<Rightarrow> 'k \<Rightarrow> 'r option" where
  "act_candidate a key =
     (case Option.bind (bm_get (a_overlay a) key) id of
        Some row \<Rightarrow> Some row
      | None \<Rightarrow>
          if bm_contains (a_overlay a) key then None
          else bm_get (tr_committed (a_runtime a)) key)"

definition act_required_references_candidate :: "('k, 'r) activation \<Rightarrow> 'k \<Rightarrow> 'k btree_set option" where
  "act_required_references_candidate a key =
     (case bm_get (a_required_reference_overlay a) key of
        Some targets \<Rightarrow> Some targets
      | None \<Rightarrow> bm_get (tr_required_references (a_runtime a)) key)"

definition act_insert :: "'k::linorder \<Rightarrow> 'r \<Rightarrow> ('k, 'r) activation \<Rightarrow> (table_error, unit) result \<times> ('k, 'r) activation" where
  "act_insert key row a =
     (case act_require_open a of
        Inl e \<Rightarrow> (Err e, a)
      | Inr _ \<Rightarrow>
          if act_candidate a key \<noteq> None then (Err DuplicateKey, a)
          else (Ok (), a\<lparr>a_overlay := bm_insert key (Some row) (a_overlay a),
                         a_required_reference_overlay :=
                           bm_insert key [] (a_required_reference_overlay a)\<rparr>))"

definition act_set_required_references ::
  "'k::linorder \<Rightarrow> 'k list \<Rightarrow> ('k, 'r) activation \<Rightarrow> (table_error, unit) result \<times> ('k, 'r) activation" where
  "act_set_required_references source_key references a =
     (case act_require_open a of
        Inl e \<Rightarrow> (Err e, a)
      | Inr _ \<Rightarrow>
          if act_candidate a source_key = None then (Err MissingRow, a)
          else (Ok (), a\<lparr>a_required_reference_overlay :=
                           bm_insert source_key (bs_collect references) (a_required_reference_overlay a)\<rparr>))"

definition act_insert_with_required_references ::
  "'k::linorder \<Rightarrow> 'r \<Rightarrow> 'k list \<Rightarrow> ('k, 'r) activation \<Rightarrow> (table_error, unit) result \<times> ('k, 'r) activation" where
  "act_insert_with_required_references key row references a =
     (case act_insert key row a of
        (Inl e, a') \<Rightarrow> (Err e, a')
      | (Inr _, a') \<Rightarrow> act_set_required_references key references a')"

definition act_update :: "'k::linorder \<Rightarrow> 'r \<Rightarrow> ('k, 'r) activation \<Rightarrow> (table_error, unit) result \<times> ('k, 'r) activation" where
  "act_update key row a =
     (case act_require_open a of
        Inl e \<Rightarrow> (Err e, a)
      | Inr _ \<Rightarrow>
          if act_candidate a key = None then (Err MissingRow, a)
          else (Ok (), a\<lparr>a_overlay := bm_insert key (Some row) (a_overlay a)\<rparr>))"

definition act_update_with_required_references ::
  "'k::linorder \<Rightarrow> 'r \<Rightarrow> 'k list \<Rightarrow> ('k, 'r) activation \<Rightarrow> (table_error, unit) result \<times> ('k, 'r) activation" where
  "act_update_with_required_references key row references a =
     (case act_update key row a of
        (Inl e, a') \<Rightarrow> (Err e, a')
      | (Inr _, a') \<Rightarrow> act_set_required_references key references a')"

definition act_delete :: "'k::linorder \<Rightarrow> ('k, 'r) activation \<Rightarrow> (table_error, unit) result \<times> ('k, 'r) activation" where
  "act_delete key a =
     (case act_require_open a of
        Inl e \<Rightarrow> (Err e, a)
      | Inr _ \<Rightarrow>
          if act_candidate a key = None then (Err MissingRow, a)
          else (Ok (), a\<lparr>a_overlay := bm_insert key None (a_overlay a),
                         a_required_reference_overlay :=
                           bm_insert key [] (a_required_reference_overlay a)\<rparr>))"

definition act_rekey :: "'k::linorder \<Rightarrow> 'k \<Rightarrow> ('k, 'r) activation \<Rightarrow> (table_error, unit) result \<times> ('k, 'r) activation" where
  "act_rekey old_key new_key a =
     (case act_require_open a of
        Inl e \<Rightarrow> (Err e, a)
      | Inr _ \<Rightarrow>
          (case act_candidate a old_key of
             None \<Rightarrow> (Err MissingRow, a)
           | Some row \<Rightarrow>
               let references = (case act_required_references_candidate a old_key of
                                   None \<Rightarrow> [] | Some targets \<Rightarrow> targets)
               in if act_candidate a new_key \<noteq> None then (Err DuplicateKey, a)
                  else (Ok (), a\<lparr>a_rekey_changes := a_rekey_changes a @ [(old_key, new_key)],
                         a_overlay := bm_insert new_key (Some row) (bm_insert old_key None (a_overlay a)),
                         a_required_reference_overlay :=
                           bm_insert new_key references
                             (bm_insert old_key [] (a_required_reference_overlay a))\<rparr>)))"

definition act_read :: "('k, 'r) activation \<Rightarrow> 'k \<Rightarrow> (table_error, 'r option) result" where
  "act_read a key =
     (case act_require_open a of Inl e \<Rightarrow> Err e | Inr _ \<Rightarrow> Ok (act_candidate a key))"

definition apply_mutation :: "'k::linorder \<times> 'r option \<Rightarrow> ('k, 'r) btree_map \<Rightarrow> ('k, 'r) btree_map" where
  "apply_mutation km rows =
     (case km of (key, mutation) \<Rightarrow>
        (case mutation of Some row \<Rightarrow> bm_insert key row rows | None \<Rightarrow> bm_remove key rows))"

definition apply_overlay :: "('k::linorder, 'r option) btree_map \<Rightarrow> ('k, 'r) btree_map \<Rightarrow> ('k, 'r) btree_map" where
  "apply_overlay overlay rows = fold apply_mutation overlay rows"

definition act_candidate_rows :: "('k::linorder, 'r) activation \<Rightarrow> (table_error, ('k, 'r) btree_map) result" where
  "act_candidate_rows a =
     (case act_require_open a of
        Inl e \<Rightarrow> Err e
      | Inr _ \<Rightarrow> Ok (apply_overlay (a_overlay a) (tr_committed (a_runtime a))))"

definition act_candidate_relation :: "('k::linorder, 'r) activation \<Rightarrow> (table_error, ('k \<times> 'r) list) result" where
  "act_candidate_relation a =
     (case act_require_open a of
        Inl e \<Rightarrow> Err e
      | Inr _ \<Rightarrow> Ok (candidate_scan (tr_committed (a_runtime a), a_overlay a)))"

definition act_candidate_scan_window :: "nat \<Rightarrow> ('k::linorder, 'r) activation \<Rightarrow> (table_error, ('k \<times> 'r) list) result" where
  "act_candidate_scan_window limit a =
     (case act_require_open a of
        Inl e \<Rightarrow> Err e
      | Inr _ \<Rightarrow> Ok (take limit (candidate_scan (tr_committed (a_runtime a), a_overlay a))))"

text \<open>The outer option is \<open>None\<close> where \<open>BTreeMap::range\<close> panics on inverted bounds.\<close>

definition act_candidate_scan_range ::
  "'k::linorder bound \<Rightarrow> 'k bound \<Rightarrow> ('k, 'r) activation \<Rightarrow> (table_error, ('k \<times> 'r) list) result option" where
  "act_candidate_scan_range lo hi a =
     (case act_require_open a of
        Inl e \<Rightarrow> Some (Err e)
      | Inr _ \<Rightarrow>
          if range_ok lo hi
          then Some (Ok (candidate_scan (bm_range lo hi (tr_committed (a_runtime a)), bm_range lo hi (a_overlay a))))
          else None)"

definition act_savepoint :: "('k, 'r) activation \<Rightarrow> (table_error, ('k, 'r) savepoint) result" where
  "act_savepoint a =
     (case act_require_open a of
        Inl e \<Rightarrow> Err e
      | Inr _ \<Rightarrow> Ok \<lparr>s_overlay = a_overlay a, s_rekey_changes = a_rekey_changes a,
                     s_required_reference_overlay = a_required_reference_overlay a,
                     s_activation_id = a_activation_id a\<rparr>)"

definition act_rollback_to ::
  "('k, 'r) savepoint \<Rightarrow> ('k, 'r) activation \<Rightarrow> (table_error, unit) result \<times> ('k, 'r) activation" where
  "act_rollback_to sp a =
     (case act_require_open a of
        Inl e \<Rightarrow> (Err e, a)
      | Inr _ \<Rightarrow>
          if s_activation_id sp \<noteq> a_activation_id a then (Err ForeignSavepoint, a)
          else (Ok (), a\<lparr>a_overlay := s_overlay sp, a_rekey_changes := s_rekey_changes sp,
                         a_required_reference_overlay := s_required_reference_overlay sp\<rparr>))"

definition act_publish :: "('k::linorder, 'r) activation \<Rightarrow> (table_error, unit) result \<times> ('k, 'r) activation" where
  "act_publish a =
     (case a_state a of
        Committed \<Rightarrow> (Err DoubleCommit, a)
      | RolledBack \<Rightarrow> (Err UseAfterClose, a)
      | Open \<Rightarrow>
          let committed = apply_overlay (a_overlay a) (tr_committed (a_runtime a));
              references =
                bm_retain (\<lambda>source _. bm_contains committed source)
                  (bm_extend (tr_required_references (a_runtime a)) (a_required_reference_overlay a))
          in if list_ex (\<lambda>(_, targets). list_ex (\<lambda>target. \<not> bm_contains committed target) targets) references
             then (Err ReferencedRow, a)
             else (Ok (), a\<lparr>a_runtime := \<lparr>tr_committed = committed, tr_required_references = references\<rparr>,
                            a_state := Committed\<rparr>))"

definition act_commit :: "('k::linorder, 'r) activation \<Rightarrow> (table_error, unit) result \<times> ('k, 'r) activation" where
  "act_commit a = (if a_helper_managed a then (Err HelperManagedCommit, a) else act_publish a)"

definition act_rollback :: "('k, 'r) activation \<Rightarrow> ('k, 'r) activation" where
  "act_rollback a =
     (if a_state a = Open
      then a\<lparr>a_overlay := [], a_rekey_changes := [], a_required_reference_overlay := [], a_state := RolledBack\<rparr>
      else a)"

fun act_apply :: "('k::linorder, 'r) act_op \<Rightarrow> ('k, 'r) activation \<Rightarrow> (table_error, unit) result \<times> ('k, 'r) activation" where
  "act_apply (OpInsert k r) a = act_insert k r a"
| "act_apply (OpInsertRefs k r ts) a = act_insert_with_required_references k r ts a"
| "act_apply (OpUpdate k r) a = act_update k r a"
| "act_apply (OpUpdateRefs k r ts) a = act_update_with_required_references k r ts a"
| "act_apply (OpSetRefs k ts) a = act_set_required_references k ts a"
| "act_apply (OpDelete k) a = act_delete k a"
| "act_apply (OpRekey old new) a = act_rekey old new a"
| "act_apply OpRollback a = (Ok (), act_rollback a)"
| "act_apply OpCommit a = act_commit a"

type_synonym ('k, 'r, 'e, 't) table_prog = "(('k, 'r) act_op, 'k, 'r, 'e, 't) act_prog"

abbreviation act_run ::
  "('k::linorder, 'r, 'e, 't) table_prog \<Rightarrow> ('k, 'r) savepoint list \<Rightarrow> ('k, 'r) activation \<Rightarrow>
   ('e, 't) result option \<times> ('k, 'r) activation" where
  "act_run \<equiv> run_prog act_apply act_read act_savepoint act_rollback_to"

text \<open>
  \<open>activate\<close>: the closure runs against a helper-managed activation, publication happens last,
  an error rolls back. The result is \<open>None\<close> when the closure, or the exhausted identifier
  space, panics; unwinding drops the activation, so the runtime is what the activation borrowed.
\<close>

definition table_activate ::
  "('k::linorder, 'r, 'e, 't) table_prog \<Rightarrow> ('k, 'r) savepoint list \<Rightarrow> u64 \<Rightarrow> ('k, 'r) table_runtime \<Rightarrow>
   ('e activation_error, 't) result option \<times> ('k, 'r) table_runtime \<times> u64" where
  "table_activate operation held counter rt =
     (case next_activation_id counter of
        (None, counter') \<Rightarrow> (None, rt, counter')
      | (Some ident, counter') \<Rightarrow>
          (case act_run operation held ((table_begin ident rt)\<lparr>a_helper_managed := True\<rparr>) of
             (None, a) \<Rightarrow> (None, a_runtime a, counter')
           | (Some (Inr value), a) \<Rightarrow>
               (case act_publish a of
                  (Inr _, a') \<Rightarrow> (Some (Ok value), a_runtime a', counter')
                | (Inl e, a') \<Rightarrow> (Some (Err (CommitError e)), a_runtime a', counter'))
           | (Some (Inl e), a) \<Rightarrow>
               (Some (Err (OperationError e)), a_runtime (act_rollback a), counter')))"

section \<open>Nested scopes\<close>

datatype ('k, 'r) child_op =
    ChildInsert 'k 'r
  | ChildInsertRefs 'k 'r "'k list"
  | ChildUpdate 'k 'r
  | ChildUpdateRefs 'k 'r "'k list"
  | ChildSetRefs 'k "'k list"
  | ChildDelete 'k
  | ChildRekey 'k 'k
  | ChildRollbackTo "('k, 'r) savepoint"
  | ChildCommit

definition act_child :: "('k, 'r) activation \<Rightarrow> (table_error, ('k, 'r) activation) result" where
  "act_child a = (case act_require_open a of Inl e \<Rightarrow> Err e | Inr _ \<Rightarrow> Ok a)"

fun child_apply :: "('k::linorder, 'r) child_op \<Rightarrow> ('k, 'r) activation \<Rightarrow> (table_error, unit) result \<times> ('k, 'r) activation" where
  "child_apply (ChildInsert k r) a = act_insert k r a"
| "child_apply (ChildInsertRefs k r ts) a = act_insert_with_required_references k r ts a"
| "child_apply (ChildUpdate k r) a = act_update k r a"
| "child_apply (ChildUpdateRefs k r ts) a = act_update_with_required_references k r ts a"
| "child_apply (ChildSetRefs k ts) a = act_set_required_references k ts a"
| "child_apply (ChildDelete k) a = act_delete k a"
| "child_apply (ChildRekey old new) a = act_rekey old new a"
| "child_apply (ChildRollbackTo sp) a = act_rollback_to sp a"
| "child_apply ChildCommit a = (Err ChildCannotCommit, a)"

fun child_run :: "('k::linorder, 'r) child_op list \<Rightarrow> ('k, 'r) activation \<Rightarrow> ('k, 'r) activation" where
  "child_run [] a = a"
| "child_run (op # ops) a = child_run ops (snd (child_apply op a))"

section \<open>Refinement of the transaction contract\<close>

definition ref_sets :: "('k, 'v btree_set) btree_map \<Rightarrow> 'k \<rightharpoonup> 'v set" where
  "ref_sets m k = map_option set (bm_get m k)"

definition act_abs :: "('k, 'r) activation \<Rightarrow> ('k, 'r) txn" where
  "act_abs a = \<lparr>tx_committed = bm_get (tr_committed (a_runtime a)),
     tx_refs = ref_sets (tr_required_references (a_runtime a)),
     tx_overlay = bm_get (a_overlay a),
     tx_ref_overlay = ref_sets (a_required_reference_overlay a),
     tx_rekeys = a_rekey_changes a, tx_state = a_state a, tx_id = a_activation_id a,
     tx_managed = a_helper_managed a\<rparr>"

definition runtime_wf :: "('k::linorder, 'r) table_runtime \<Rightarrow> bool" where
  "runtime_wf rt \<longleftrightarrow> bm_wf (tr_committed rt) \<and> bm_wf (tr_required_references rt)"

definition act_wf :: "('k::linorder, 'r) activation \<Rightarrow> bool" where
  "act_wf a \<longleftrightarrow> runtime_wf (a_runtime a) \<and> bm_wf (a_overlay a) \<and> bm_wf (a_required_reference_overlay a)"

definition savepoint_abs :: "('k, 'r) savepoint \<Rightarrow> ('k, 'r) tx_savepoint" where
  "savepoint_abs sp = \<lparr>sp_overlay = bm_get (s_overlay sp), sp_rekeys = s_rekey_changes sp,
     sp_ref_overlay = ref_sets (s_required_reference_overlay sp), sp_id = s_activation_id sp\<rparr>"

definition savepoint_wf :: "('k::linorder, 'r) savepoint \<Rightarrow> bool" where
  "savepoint_wf sp \<longleftrightarrow> bm_wf (s_overlay sp) \<and> bm_wf (s_required_reference_overlay sp)"

lemma act_abs_simps [simp]:
  "tx_committed (act_abs a) = bm_get (tr_committed (a_runtime a))"
  "tx_refs (act_abs a) = ref_sets (tr_required_references (a_runtime a))"
  "tx_overlay (act_abs a) = bm_get (a_overlay a)"
  "tx_ref_overlay (act_abs a) = ref_sets (a_required_reference_overlay a)"
  "tx_rekeys (act_abs a) = a_rekey_changes a"
  "tx_state (act_abs a) = a_state a"
  "tx_id (act_abs a) = a_activation_id a"
  "tx_managed (act_abs a) = a_helper_managed a"
  by (simp_all add: act_abs_def)

lemma act_abs_updates [simp]:
  "act_abs (a\<lparr>a_runtime := rt\<rparr>) =
     (act_abs a)\<lparr>tx_committed := bm_get (tr_committed rt), tx_refs := ref_sets (tr_required_references rt)\<rparr>"
  "act_abs (a\<lparr>a_overlay := ov\<rparr>) = (act_abs a)\<lparr>tx_overlay := bm_get ov\<rparr>"
  "act_abs (a\<lparr>a_required_reference_overlay := rs\<rparr>) = (act_abs a)\<lparr>tx_ref_overlay := ref_sets rs\<rparr>"
  "act_abs (a\<lparr>a_rekey_changes := cs\<rparr>) = (act_abs a)\<lparr>tx_rekeys := cs\<rparr>"
  "act_abs (a\<lparr>a_state := st\<rparr>) = (act_abs a)\<lparr>tx_state := st\<rparr>"
  by (simp_all add: act_abs_def)

lemma act_wf_updates [simp]:
  "act_wf (a\<lparr>a_state := st\<rparr>) = act_wf a"
  "act_wf (a\<lparr>a_rekey_changes := cs\<rparr>) = act_wf a"
  "act_wf a \<Longrightarrow> bm_wf ov \<Longrightarrow> act_wf (a\<lparr>a_overlay := ov\<rparr>)"
  "act_wf a \<Longrightarrow> bm_wf rs \<Longrightarrow> act_wf (a\<lparr>a_required_reference_overlay := rs\<rparr>)"
  "act_wf a \<Longrightarrow> runtime_wf rt \<Longrightarrow> act_wf (a\<lparr>a_runtime := rt\<rparr>)"
  by (simp_all add: act_wf_def)

lemma ref_sets_insert [simp]: "ref_sets (bm_insert k ts m) = (ref_sets m)(k \<mapsto> set ts)"
  by (auto simp: ref_sets_def bm_get_insert fun_eq_iff)

lemma ref_sets_Nil [simp]: "ref_sets [] = Map.empty"
  by (simp add: ref_sets_def fun_eq_iff)

lemma bm_get_empty [simp]: "bm_get [] = Map.empty"
  by (simp add: fun_eq_iff)

lemma act_candidate_abs: "act_candidate a k = tx_candidate (act_abs a) k"
  by (auto simp: act_candidate_def tx_candidate_def overlaid_def bm_contains_get split: option.splits)

lemma act_refs_abs: "map_option set (act_required_references_candidate a k) = tx_candidate_refs (act_abs a) k"
  by (auto simp: act_required_references_candidate_def tx_candidate_refs_def ref_sets_def split: option.splits)

lemma bm_wf_apply_mutation [wf_intros]: "bm_wf rows \<Longrightarrow> bm_wf (apply_mutation km rows)"
  by (auto simp: apply_mutation_def intro: bm_wf_insert bm_wf_remove split: prod.splits option.splits)

lemma bm_wf_apply_overlay [wf_intros]: "bm_wf rows \<Longrightarrow> bm_wf (apply_overlay overlay rows)"
  unfolding apply_overlay_def
  by (induction overlay arbitrary: rows) (simp_all add: bm_wf_apply_mutation)

text \<open>Applying an overlay entry by entry gives the overlaid lookups.\<close>

lemma bm_get_apply_overlay [bmap]:
  "bm_wf overlay \<Longrightarrow> bm_wf rows \<Longrightarrow>
   bm_get (apply_overlay overlay rows) = overlaid (bm_get rows) (bm_get overlay)"
proof (induction overlay arbitrary: rows)
  case Nil
  then show ?case by (simp add: apply_overlay_def overlaid_def fun_eq_iff)
next
  case (Cons km overlay)
  obtain k m where km: "km = (k, m)" by (cases km)
  have wf: "bm_wf overlay" "bm_wf (apply_mutation km rows)" and k: "bm_get overlay k = None"
    using Cons.prems bm_wf_head_get [of k m overlay k]
    by (auto simp: km apply_mutation_def bm_wf_Cons intro: bm_wf_insert bm_wf_remove split: option.splits)
  have "bm_get (apply_overlay (km # overlay) rows) = overlaid (bm_get (apply_mutation km rows)) (bm_get overlay)"
    using Cons.IH [OF wf] by (simp add: apply_overlay_def)
  with k Cons.prems(2) show ?case
    by (auto simp: km fun_eq_iff overlaid_def bm_get_Cons apply_mutation_def bm_get_insert bm_get_remove
        split: option.splits)
qed

lemma act_wf_runtime: "act_wf a \<Longrightarrow> bm_wf (tr_committed (a_runtime a))"
  "act_wf a \<Longrightarrow> bm_wf (tr_required_references (a_runtime a))"
  "act_wf a \<Longrightarrow> bm_wf (a_overlay a)" "act_wf a \<Longrightarrow> bm_wf (a_required_reference_overlay a)"
  by (simp_all add: act_wf_def runtime_wf_def)

definition published_rows :: "('k::linorder, 'r) activation \<Rightarrow> ('k, 'r) btree_map" where
  "published_rows a = apply_overlay (a_overlay a) (tr_committed (a_runtime a))"

definition published_refs :: "('k::linorder, 'r) activation \<Rightarrow> ('k, 'k btree_set) btree_map" where
  "published_refs a =
     bm_retain (\<lambda>source _. bm_contains (published_rows a) source)
       (bm_extend (tr_required_references (a_runtime a)) (a_required_reference_overlay a))"

lemma published_rows_get: "act_wf a \<Longrightarrow> bm_get (published_rows a) = tx_candidate (act_abs a)"
  by (simp add: published_rows_def bm_get_apply_overlay tx_candidate_def act_wf_runtime)

lemma published_refs_wf: "act_wf a \<Longrightarrow> bm_wf (published_refs a)"
  by (simp add: published_refs_def bm_wf_retain bm_wf_extend act_wf_runtime)

lemma published_refs_get: "act_wf a \<Longrightarrow> ref_sets (published_refs a) = tx_published_refs (act_abs a)"
  by (auto simp: published_refs_def ref_sets_def bm_get_retain bm_wf_extend bm_get_extend bm_contains_get
      published_rows_get tx_published_refs_def tx_candidate_refs_def fun_eq_iff act_wf_runtime split: option.splits)

lemma published_dangling:
  assumes "act_wf a"
  shows "list_ex (\<lambda>(_, targets). list_ex (\<lambda>target. \<not> bm_contains (published_rows a) target) targets) (published_refs a)
    \<longleftrightarrow> tx_dangling (act_abs a)"
proof -
  have "list_ex (\<lambda>(_, targets). list_ex (\<lambda>target. \<not> bm_contains (published_rows a) target) targets) (published_refs a)
      \<longleftrightarrow> (\<exists>s ts. bm_get (published_refs a) s = Some ts \<and> (\<exists>x \<in> set ts. tx_candidate (act_abs a) x = None))"
    using published_refs_wf [OF assms]
    by (auto simp: list_ex_iff bm_contains_get published_rows_get [OF assms] bm_get_mem [symmetric])
  also have "\<dots> \<longleftrightarrow> tx_dangling (act_abs a)"
    by (auto simp: tx_dangling_def published_refs_get [OF assms, symmetric] ref_sets_def)
  finally show ?thesis .
qed

lemma act_publish_unfold:
  "act_publish a =
     (case a_state a of
        Committed \<Rightarrow> (Err DoubleCommit, a)
      | RolledBack \<Rightarrow> (Err UseAfterClose, a)
      | Open \<Rightarrow>
          if list_ex (\<lambda>(_, targets). list_ex (\<lambda>target. \<not> bm_contains (published_rows a) target) targets) (published_refs a)
          then (Err ReferencedRow, a)
          else (Ok (), a\<lparr>a_runtime := \<lparr>tr_committed = published_rows a, tr_required_references = published_refs a\<rparr>,
                         a_state := Committed\<rparr>))"
  by (simp add: act_publish_def published_rows_def published_refs_def Let_def split: activation_state.splits)

lemma act_publish_sim:
  assumes "act_wf a"
  shows "act_wf (snd (act_publish a)) \<and> map_prod id act_abs (act_publish a) = tx_publish (act_abs a)"
proof (cases "a_state a = Open \<and> \<not> tx_dangling (act_abs a)")
  case True
  have "bm_wf (published_rows a)"
    using assms by (simp add: published_rows_def bm_wf_apply_overlay act_wf_runtime)
  with True assms show ?thesis
    by (simp add: act_publish_unfold published_dangling tx_publish_def published_refs_wf runtime_wf_def
        published_refs_get published_rows_get)
next
  case False
  with assms show ?thesis
    by (auto simp: act_publish_unfold published_dangling tx_publish_def split: activation_state.splits)
qed

lemma act_apply_sim:
  assumes "act_wf a"
  shows "act_wf (snd (act_apply op a)) \<and> map_prod id act_abs (act_apply op a) = tx_apply op (act_abs a)"
proof (cases op)
  case (OpRekey old new)
  have "set (case act_required_references_candidate a old of None \<Rightarrow> [] | Some ts \<Rightarrow> ts) =
      (case tx_candidate_refs (act_abs a) old of None \<Rightarrow> {} | Some ts \<Rightarrow> ts)"
    using act_refs_abs [of a old] by (auto split: option.splits)
  with OpRekey assms show ?thesis
    by (simp add: act_rekey_def tx_rekey_def act_require_open_def act_candidate_abs Let_def
        bm_wf_insert bm_get_insert act_wf_runtime split: option.splits)
next
  case OpCommit
  with assms act_publish_sim [OF assms] show ?thesis
    by (auto simp: act_commit_def tx_commit_def)
qed (insert assms, simp_all add: act_insert_def act_update_def act_delete_def act_set_required_references_def
    act_insert_with_required_references_def act_update_with_required_references_def act_rollback_def tx_defs
    act_require_open_def act_candidate_abs bm_wf_insert bm_wf_collect bm_get_insert act_wf_runtime)

lemma act_apply_runtime:
  "a_helper_managed a \<or> op \<noteq> OpCommit \<Longrightarrow> a_runtime (snd (act_apply op a)) = a_runtime a"
  by (cases op)
    (auto simp: act_insert_def act_update_def act_delete_def act_set_required_references_def act_rekey_def
      act_insert_with_required_references_def act_update_with_required_references_def act_rollback_def
      act_commit_def act_require_open_def Let_def split: option.splits)

interpretation table_store: txn_store act_abs act_wf id act_apply act_read act_savepoint act_rollback_to
  savepoint_abs savepoint_wf a_runtime
proof unfold_locales
  fix a :: "('k::linorder, 'r) activation" and op k and sp :: "('k, 'r) savepoint"
  show "tx_managed (act_abs a) \<or> id op \<noteq> OpCommit \<Longrightarrow> a_runtime (snd (act_apply op a)) = a_runtime a"
    by (rule act_apply_runtime) simp
  show "a_runtime (snd (act_rollback_to sp a)) = a_runtime a"
    by (simp add: act_rollback_to_def act_require_open_def)
  assume wf: "act_wf a"
  show "act_wf (snd (act_apply op a))" and "map_prod id act_abs (act_apply op a) = tx_apply (id op) (act_abs a)"
    using act_apply_sim [OF wf] by auto
  show "act_read a k = tx_read (act_abs a) k"
    by (simp add: act_read_def tx_read_def act_require_open_def act_candidate_abs)
  show "map_sum id savepoint_abs (act_savepoint a) = tx_save (act_abs a)"
    by (simp add: act_savepoint_def tx_save_def act_require_open_def savepoint_abs_def)
  show "act_savepoint a = Ok sp \<Longrightarrow> savepoint_wf sp"
    using wf by (auto simp: act_savepoint_def act_require_open_def savepoint_wf_def act_wf_runtime split: if_splits)
  assume "savepoint_wf sp"
  with wf show "act_wf (snd (act_rollback_to sp a))"
    and "map_prod id act_abs (act_rollback_to sp a) = tx_back (savepoint_abs sp) (act_abs a)"
    by (simp_all add: act_rollback_to_def tx_back_def act_require_open_def savepoint_abs_def savepoint_wf_def)
qed

lemma act_publish_err_runtime: "fst (act_publish a) \<noteq> Ok () \<Longrightarrow> snd (act_publish a) = a"
  by (auto simp: act_publish_def Let_def split: activation_state.splits if_splits)

interpretation table_root: txn_root act_abs act_wf id act_apply act_read act_savepoint act_rollback_to
  savepoint_abs savepoint_wf a_runtime act_publish
  using act_publish_sim act_publish_err_runtime by unfold_locales blast+

section \<open>Reachable runtimes\<close>

definition runtime_integrity :: "('k, 'r) table_runtime \<Rightarrow> bool" where
  "runtime_integrity rt \<longleftrightarrow> refs_ok (bm_get (tr_committed rt)) (ref_sets (tr_required_references rt))"

text \<open>
  The runtimes a process can hold: the default one, what a session on an explicitly begun
  activation leaves behind (with or without a commit), and what \<open>activate\<close> leaves behind.
\<close>

inductive table_reachable :: "('k::linorder, 'r) table_runtime \<Rightarrow> bool" where
  reach_default: "table_reachable table_default"
| reach_session: "table_reachable rt \<Longrightarrow> list_all savepoint_wf held \<Longrightarrow>
    table_reachable (a_runtime (snd (act_run (operation :: ('k, 'r, table_error, 'r option) table_prog)
      held (table_begin ident rt))))"
| reach_activate: "table_reachable rt \<Longrightarrow> list_all savepoint_wf held \<Longrightarrow>
    table_reachable (fst (snd (table_activate (operation :: ('k, 'r, table_error, 'r option) table_prog)
      held counter rt)))"

lemma table_begin_wf [simp]: "act_wf (table_begin ident rt) \<longleftrightarrow> runtime_wf rt"
  by (simp add: table_begin_def act_wf_def)

lemma act_wf_managed [simp]: "act_wf (a\<lparr>a_helper_managed := b\<rparr>) = act_wf a"
  by (simp add: act_wf_def)

lemma act_wf_runtime_wf: "act_wf a \<Longrightarrow> runtime_wf (a_runtime a)"
  by (simp add: act_wf_def)

lemma table_begin_simps [simp]:
  "a_runtime (table_begin ident rt) = rt" "a_state (table_begin ident rt) = Open"
  "a_helper_managed (table_begin ident rt) = False"
  by (simp_all add: table_begin_def)

lemma act_publish_runtime:
  assumes "act_wf a" and "runtime_integrity (a_runtime a)"
  shows "runtime_wf (a_runtime (snd (act_publish a))) \<and> runtime_integrity (a_runtime (snd (act_publish a)))"
  using table_root.pub_wf [OF assms(1)] table_root.pub_keeps_integrity [OF assms(1)] assms(2)
  by (simp add: runtime_integrity_def act_wf_def)

text \<open>The activation \<open>activate\<close> hands to its closure, after the closure ran.\<close>

definition after_closure ::
  "('k::linorder, 'r, 'e, 't) table_prog \<Rightarrow> ('k, 'r) savepoint list \<Rightarrow> u64 \<Rightarrow> ('k, 'r) table_runtime \<Rightarrow>
   ('e, 't) result option \<times> ('k, 'r) activation" where
  "after_closure operation held ident rt =
     act_run operation held ((table_begin ident rt)\<lparr>a_helper_managed := True\<rparr>)"

lemma after_closure_props:
  assumes "runtime_wf rt" and "list_all savepoint_wf held"
  shows "act_wf (snd (after_closure operation held ident rt))"
    and "a_runtime (snd (after_closure operation held ident rt)) = rt"
  unfolding after_closure_def
  using table_store.run_refines [of "(table_begin ident rt)\<lparr>a_helper_managed := True\<rparr>" held operation]
    table_store.run_managed_runtime [of "(table_begin ident rt)\<lparr>a_helper_managed := True\<rparr>" held operation] assms
  by simp_all

lemma table_activate_cases:
  assumes "runtime_wf rt" and "list_all savepoint_wf held"
    and "table_activate operation held counter rt = (res, rt', counter')"
  shows "(\<exists>v. res = Some (Ok v) \<and> fst (after_closure operation held counter rt) = Some (Ok v) \<and>
            fst (act_publish (snd (after_closure operation held counter rt))) = Ok () \<and>
            rt' = a_runtime (snd (act_publish (snd (after_closure operation held counter rt))))) \<or>
         ((\<forall>v. res \<noteq> Some (Ok v)) \<and> rt' = rt)"
proof (cases "counter = 0")
  case True
  with assms(3) show ?thesis by (simp add: table_activate_def next_activation_id_def)
next
  case False
  obtain out a where cl: "after_closure operation held counter rt = (out, a)" by fastforce
  have a: "a_runtime a = rt" using after_closure_props(2) [OF assms(1,2), of operation counter] cl by simp
  obtain ans b where pub: "act_publish a = (ans, b)" by fastforce
  have b: "ans \<noteq> Ok () \<Longrightarrow> a_runtime b = rt" using act_publish_err_runtime [of a] pub a by auto
  show ?thesis
    using assms(3) cl a pub b False
    by (auto simp: table_activate_def next_activation_id_def after_closure_def act_rollback_def
        split: option.splits sum.splits if_splits)
qed

lemma table_reachable_inv: "table_reachable rt \<Longrightarrow> runtime_wf rt \<and> runtime_integrity rt"
proof (induction rule: table_reachable.induct)
  case reach_default
  show ?case
    by (simp add: table_default_def runtime_wf_def runtime_integrity_def refs_ok_def)
next
  case (reach_session rt held operation ident)
  let ?a = "table_begin ident rt"
  have "act_wf (snd (act_run operation held ?a))"
    using reach_session table_store.run_refines [of ?a held operation] by simp
  with reach_session table_store.run_keeps_integrity [of ?a held operation] show ?case
    by (simp add: act_wf_runtime_wf runtime_integrity_def)
next
  case (reach_activate rt held operation counter)
  obtain res rt' c where act: "table_activate operation held counter rt = (res, rt', c)"
    by (cases "table_activate operation held counter rt") auto
  let ?a = "snd (after_closure operation held counter rt)"
  have a: "act_wf ?a" "a_runtime ?a = rt"
    using after_closure_props reach_activate by blast+
  with reach_activate act_publish_runtime [of ?a]
    table_activate_cases [OF _ reach_activate.hyps(2) act]
  show ?case by (auto simp: act)
qed

lemma act_publish_ok:
  assumes "act_wf a" and "fst (act_publish a) = Ok ()"
  shows "bm_get (tr_committed (a_runtime (snd (act_publish a)))) = act_candidate a"
    and "runtime_integrity (a_runtime (snd (act_publish a)))"
  using table_root.pub_ok(2,3) [OF assms] by (simp_all add: fun_eq_iff act_candidate_abs runtime_integrity_def)

section \<open>Properties\<close>

text \<open>
  C1. \<open>TableRuntime::activate\<close> is all or nothing. When it returns a value, the committed relation is
  exactly the candidate relation the closure built, and it has no dangling required reference. In
  every other outcome (the closure fails, the closure panics, the publication is refused, the
  identifier space is exhausted) the runtime is unchanged.
\<close>

theorem table_activate_all_or_nothing:
  assumes "runtime_wf rt" and "list_all savepoint_wf held"
    and "table_activate operation held counter rt = (res, rt', counter')"
  shows "if \<exists>v. res = Some (Ok v)
    then table_committed rt' = act_candidate (snd (after_closure operation held counter rt)) \<and> runtime_integrity rt'
    else rt' = rt"
  using table_activate_cases [OF assms]
    act_publish_ok(1,2) [OF after_closure_props(1) [OF assms(1,2), where operation = operation and ident = counter]]
  by (auto simp: table_committed_def fun_eq_iff)

definition sample_closure :: "(nat, nat, table_error, nat option) table_prog" where
  "sample_closure = Call (OpInsertRefs 1 10 [2]) (\<lambda>_. Call (OpInsert 2 20) (\<lambda>_.
     Save (\<lambda>_. Call (OpDelete 2) (\<lambda>_. Back 0 (\<lambda>_. ReadKey 2 Finish)))))"

theorem table_activate_all_or_nothing_witness:
  "\<exists>rt'. table_activate sample_closure [] 1 table_default = (Some (Ok (Some 20)), rt', 2) \<and>
     table_committed rt' 1 = Some 10 \<and> table_committed rt' 2 = Some 20 \<and> runtime_integrity rt'"
proof -
  let ?rt = "\<lparr>tr_committed = [(1, 10), (2, 20)], tr_required_references = [(1, [2]), (2, [])]\<rparr>"
  have run: "table_activate sample_closure [] 1 table_default = (Some (Ok (Some 20)), ?rt, 2)"
    by code_simp
  have wf: "runtime_wf (table_default :: (nat, nat) table_runtime)"
    by (simp add: table_default_def runtime_wf_def)
  have "act_candidate (snd (after_closure sample_closure [] 1 table_default)) 1 = Some 10"
    "act_candidate (snd (after_closure sample_closure [] 1 table_default)) 2 = Some 20"
    by code_simp+
  then show ?thesis
    using table_activate_all_or_nothing [OF wf _ run] run by auto
qed

text \<open>
  C3. Referential integrity is an invariant of the table runtime: in every runtime a process can
  reach, through any sequence of sessions and \<open>activate\<close> calls with any closures, every row that
  declares required references exists and so does every row it refers to.
\<close>

theorem table_reachable_integrity:
  assumes "table_reachable rt" and "bm_get (tr_required_references rt) source = Some targets"
    and "target \<in> set targets"
  shows "table_committed rt source \<noteq> None \<and> table_committed rt target \<noteq> None"
proof -
  have "runtime_integrity rt" using table_reachable_inv [OF assms(1)] by simp
  then show ?thesis
    using assms(2,3) by (auto simp: runtime_integrity_def refs_ok_def ref_sets_def table_committed_def)
qed

theorem table_reachable_integrity_witness:
  "table_committed \<lparr>tr_committed = [(1, 10), (2, 20)], tr_required_references = [(1, [2]), (2, [])]\<rparr> (2::nat)
     \<noteq> (None :: nat option)"
proof -
  let ?rt = "\<lparr>tr_committed = [(1, 10), (2, 20)], tr_required_references = [(1, [2]), (2, [])]\<rparr>
    :: (nat, nat) table_runtime"
  have "table_activate sample_closure [] 1 table_default = (Some (Ok (Some 20)), ?rt, 2)"
    by code_simp
  with reach_activate [OF reach_default, of "[]" sample_closure 1] have "table_reachable ?rt" by simp
  moreover have "bm_get (tr_required_references ?rt) 1 = Some [2]" by code_simp
  ultimately show ?thesis
    using table_reachable_integrity [of ?rt 1 "[2]" 2] by simp
qed

text \<open>
  C33. The single-table activation refines the transaction contract: for every closure, the answers
  the closure receives and the result it returns are those of the abstract transaction, and the
  activation it leaves behind represents the abstract transaction's final state.
\<close>

theorem table_closure_refines:
  assumes "act_wf a" and "list_all savepoint_wf held"
  shows "map_prod id act_abs (act_run operation held a) =
    run_prog tx_apply tx_read tx_save tx_back operation (map savepoint_abs held) (act_abs a)"
  using table_store.run_refines [OF assms, of operation] by simp

theorem table_closure_refines_witness:
  "map_prod id act_abs (act_run sample_closure [] (table_begin 1 table_default)) =
    run_prog tx_apply tx_read tx_save tx_back sample_closure [] (act_abs (table_begin 1 table_default))"
  using table_closure_refines [of "table_begin 1 table_default" "[]" sample_closure]
  by (simp add: table_default_def runtime_wf_def)

text \<open>
  All candidate reads agree. On an open activation the streaming candidate scan yields exactly
  the entries of the materialised candidate relation, in ascending key order; a window is its prefix,
  a range scan is its restriction to the range, and a point read is its lookup.
\<close>

theorem candidate_reads_agree:
  assumes "act_wf a" and "a_state a = Open"
  shows "\<exists>rows. act_candidate_rows a = Ok rows \<and> bm_wf rows \<and>
    act_candidate_relation a = Ok rows \<and>
    act_candidate_scan_window limit a = Ok (take limit rows) \<and>
    (range_ok lo hi \<longrightarrow> act_candidate_scan_range lo hi a = Some (Ok (bm_range lo hi rows))) \<and>
    act_read a key = Ok (bm_get rows key)"
proof -
  let ?rows = "apply_overlay (a_overlay a) (tr_committed (a_runtime a))"
  have wf: "bm_wf ?rows" "bm_wf (a_overlay a)" "bm_wf (tr_committed (a_runtime a))"
    using assms(1) by (auto simp: act_wf_runtime intro: bm_wf_apply_overlay)
  have get: "bm_get ?rows = overlaid (bm_get (tr_committed (a_runtime a))) (bm_get (a_overlay a))"
    using wf by (simp add: bm_get_apply_overlay)
  have scan: "candidate_scan (tr_committed (a_runtime a), a_overlay a) = ?rows"
    using wf get by (intro candidate_scan_eqI) auto
  have range: "candidate_scan (bm_range lo hi (tr_committed (a_runtime a)), bm_range lo hi (a_overlay a))
      = bm_range lo hi ?rows"
    using wf get by (intro candidate_scan_eqI) (auto simp: bm_wf_range bm_get_range overlaid_def split: option.splits)
  have "act_candidate a key = bm_get ?rows key"
    using get by (simp add: act_candidate_abs tx_candidate_def)
  with assms(2) wf scan range show ?thesis
    by (simp add: act_candidate_rows_def act_candidate_relation_def act_candidate_scan_window_def
        act_candidate_scan_range_def act_read_def act_require_open_def)
qed

definition sample_activation :: "(nat, nat) activation" where
  "sample_activation = snd (act_run sample_closure [] (table_begin 1
     \<lparr>tr_committed = [(0, 5), (2, 7), (9, 9)], tr_required_references = []\<rparr>))"

lemma sample_activation_eval:
  "sample_activation = \<lparr>a_runtime = \<lparr>tr_committed = [(0, 5), (2, 7), (9, 9)], tr_required_references = []\<rparr>,
     a_overlay = [(1, Some 10)], a_rekey_changes = [], a_required_reference_overlay = [(1, [2])],
     a_state = Open, a_activation_id = 1, a_helper_managed = False\<rparr>"
  by code_simp

lemma sample_activation_wf: "act_wf sample_activation" "a_state sample_activation = Open"
  by (simp_all add: sample_activation_eval act_wf_def runtime_wf_def bm_wf_def)

theorem candidate_reads_agree_witness:
  "act_candidate_scan_range (Included 1) (Excluded 9) sample_activation = Some (Ok [(1, 10), (2, 7)])"
proof -
  have rows: "act_candidate_rows sample_activation = Ok [(0, 5), (1, 10), (2, 7), (9, 9)]" by code_simp
  have range: "bm_range (Included 1) (Excluded 9) [(0::nat, 5::nat), (1, 10), (2, 7), (9, 9)] = [(1, 10), (2, 7)]"
    by code_simp
  from candidate_reads_agree [OF sample_activation_wf, of 0 "Included 1" "Excluded 9" 0] rows range
  show ?thesis by simp
qed

text \<open>
  Statement recovery: going back to a savepoint after any closure that leaves the activation
  open restores every lookup, every staged reference set and the re-key log at the savepoint, and
  the committed relation was not touched in between.
\<close>

theorem rollback_to_restores:
  assumes "act_wf a" and "list_all savepoint_wf held" and "act_savepoint a = Ok sp"
    and "b = snd (act_run operation held a)" and "a_state b = Open"
  shows "fst (act_rollback_to sp b) = Ok () \<and> act_abs (snd (act_rollback_to sp b)) = act_abs a"
  using table_store.savepoint_recovers [OF assms(1-4)] assms(5) by simp

theorem rollback_to_restores_witness:
  "\<exists>sp. act_savepoint sample_activation = Ok sp \<and>
     act_abs (snd (act_rollback_to sp (snd (act_run
       (Call (OpRekey 9 3) (\<lambda>_. Finish (Ok ())) :: (nat, nat, unit, unit) table_prog) [] sample_activation)))) = act_abs sample_activation"
proof -
  let ?op = "Call (OpRekey 9 3) (\<lambda>_. Finish (Ok ())) :: (nat, nat, unit, unit) table_prog"
  have "a_state (snd (act_run ?op [] sample_activation)) = Open" by code_simp
  moreover obtain sp where "act_savepoint sample_activation = Ok sp"
    using sample_activation_wf(2) by (simp add: act_savepoint_def act_require_open_def)
  ultimately show ?thesis
    using rollback_to_restores [OF sample_activation_wf(1) _ _ refl, of "[]" sp ?op] by auto
qed

lemma child_apply_frame:
  "a_runtime (snd (child_apply op a)) = a_runtime a \<and> a_state (snd (child_apply op a)) = a_state a \<and>
   a_activation_id (snd (child_apply op a)) = a_activation_id a \<and>
   a_helper_managed (snd (child_apply op a)) = a_helper_managed a"
  by (cases op)
    (auto simp: act_insert_def act_update_def act_delete_def act_set_required_references_def act_rekey_def
      act_insert_with_required_references_def act_update_with_required_references_def act_rollback_to_def
      act_require_open_def Let_def split: option.splits)

text \<open>
  A nested scope cannot publish. Whatever sequence of calls a child scope makes, the runtime, the
  lifecycle state, the identifier and the ownership flag of the root activation stay as they were,
  and its \<open>commit\<close> is always refused.
\<close>

theorem child_scope_cannot_publish:
  "a_runtime (child_run ops a) = a_runtime a \<and> a_state (child_run ops a) = a_state a \<and>
   a_activation_id (child_run ops a) = a_activation_id a \<and>
   a_helper_managed (child_run ops a) = a_helper_managed a \<and>
   fst (child_apply ChildCommit (child_run ops a)) = Err ChildCannotCommit"
proof (induction ops arbitrary: a)
  case (Cons op ops)
  then show ?case using child_apply_frame [of op a] by simp
qed simp

text \<open>
  Re-keying on an open activation: it fails with \<open>MissingRow\<close> when the old key has no candidate
  row and with \<open>DuplicateKey\<close> when the new key is occupied, leaving the activation unchanged; otherwise
  the row and its required references move from the old key to the new key, every other key reads as
  before, and exactly one change is logged.
\<close>

theorem rekey_moves_row:
  assumes "act_wf a" and "a_state a = Open"
  shows "(act_candidate a old = None \<longrightarrow> act_rekey old new a = (Err MissingRow, a)) \<and>
    (act_candidate a old \<noteq> None \<and> act_candidate a new \<noteq> None \<longrightarrow> act_rekey old new a = (Err DuplicateKey, a)) \<and>
    (act_candidate a old \<noteq> None \<and> act_candidate a new = None \<longrightarrow>
        fst (act_rekey old new a) = Ok () \<and>
        act_candidate (snd (act_rekey old new a)) = (act_candidate a)(old := None, new := act_candidate a old) \<and>
        tx_candidate_refs (act_abs (snd (act_rekey old new a))) =
          (tx_candidate_refs (act_abs a))(old \<mapsto> {},
            new \<mapsto> (case tx_candidate_refs (act_abs a) old of None \<Rightarrow> {} | Some ts \<Rightarrow> ts)) \<and>
        a_rekey_changes (snd (act_rekey old new a)) = a_rekey_changes a @ [(old, new)])"
proof -
  have sim: "map_prod id act_abs (act_rekey old new a) = tx_rekey old new (act_abs a)"
    using act_apply_sim [OF assms(1), of "OpRekey old new"] by simp
  have abs: "act_abs (snd (act_rekey old new a)) = snd (tx_rekey old new (act_abs a))"
    "fst (act_rekey old new a) = fst (tx_rekey old new (act_abs a))"
    using sim by (metis snd_map_prod, metis fst_map_prod id_apply)
  have rekeys: "a_rekey_changes (snd (act_rekey old new a)) = tx_rekeys (act_abs (snd (act_rekey old new a)))"
    by simp
  have "act_candidate a old \<noteq> None \<and> act_candidate a new = None \<longrightarrow>
      fst (tx_rekey old new (act_abs a)) = Ok () \<and>
      tx_candidate (snd (tx_rekey old new (act_abs a))) =
        (tx_candidate (act_abs a))(old := None, new := tx_candidate (act_abs a) old) \<and>
      tx_candidate_refs (snd (tx_rekey old new (act_abs a))) = (tx_candidate_refs (act_abs a))(old \<mapsto> {},
            new \<mapsto> (case tx_candidate_refs (act_abs a) old of None \<Rightarrow> {} | Some ts \<Rightarrow> ts)) \<and>
      tx_rekeys (snd (tx_rekey old new (act_abs a))) = a_rekey_changes a @ [(old, new)]"
    using assms(2)
    by (auto simp: tx_rekey_def act_candidate_abs tx_candidate_refs_def tx_candidate_def overlaid_def
        fun_eq_iff split: option.splits if_splits)
  moreover have "act_candidate a old = None \<longrightarrow> act_rekey old new a = (Err MissingRow, a)"
    "act_candidate a old \<noteq> None \<and> act_candidate a new \<noteq> None \<longrightarrow> act_rekey old new a = (Err DuplicateKey, a)"
    using assms(2) by (auto simp: act_rekey_def act_require_open_def Let_def)
  moreover have "act_candidate a = tx_candidate (act_abs a)"
    "act_candidate (snd (act_rekey old new a)) = tx_candidate (snd (tx_rekey old new (act_abs a)))"
    by (simp_all add: fun_eq_iff act_candidate_abs abs)
  ultimately show ?thesis
    unfolding rekeys abs by simp
qed

theorem rekey_moves_row_witness:
  "act_candidate (snd (act_rekey 9 3 sample_activation)) 3 = Some 9 \<and>
   act_candidate (snd (act_rekey 9 3 sample_activation)) 9 = None \<and>
   act_candidate (snd (act_rekey 9 3 sample_activation)) 1 = Some 10"
proof -
  have "act_candidate sample_activation 9 = Some 9" "act_candidate sample_activation 3 = None"
    "act_candidate sample_activation 1 = Some 10"
    by code_simp+
  with rekey_moves_row [OF sample_activation_wf, of 9 3] show ?thesis by simp
qed

end
