(* ===== verification/Orna_Database.thy ===== *)
theory Orna_Database
  imports Orna_Table
begin

text \<open>
  The multi-relation transaction root of \<open>crates/orna-table/src/lib.rs\<close>: \<open>DatabaseRuntime\<close>,
  \<open>DatabaseSnapshot\<close>, \<open>DatabaseActivation\<close>, \<open>DatabaseSavepoint\<close> and \<open>DatabaseChildScope\<close>.

  Rows live in nested maps, first by table and then by key. The abstraction \<open>db_abs\<close> flattens
  them to the pair of table and key, so the same transaction contract (\<open>txn_store\<close>, interpreted
  here as \<open>db_store\<close>) covers both roots.
\<close>

section \<open>Nested maps\<close>

type_synonym ('t, 'k, 'v) nested_map = "('t, ('k, 'v) btree_map) btree_map"

definition nested_get :: "('t, 'k, 'v) nested_map \<Rightarrow> 't \<times> 'k \<Rightarrow> 'v option" where
  "nested_get m tk = (case bm_get m (fst tk) of None \<Rightarrow> None | Some relation \<Rightarrow> bm_get relation (snd tk))"

definition or_default :: "('t, ('k, 'v) btree_map) btree_map \<Rightarrow> 't \<Rightarrow> ('k, 'v) btree_map" where
  "or_default m t = (case bm_get m t of None \<Rightarrow> [] | Some relation \<Rightarrow> relation)"

definition nested_insert :: "'t::linorder \<Rightarrow> 'k::linorder \<Rightarrow> 'v \<Rightarrow> ('t, 'k, 'v) nested_map \<Rightarrow> ('t, 'k, 'v) nested_map" where
  "nested_insert t k v m = bm_insert t (bm_insert k v (or_default m t)) m"

definition nested_wf :: "('t::linorder, 'k::linorder, 'v) nested_map \<Rightarrow> bool" where
  "nested_wf m \<longleftrightarrow> bm_wf m \<and> (\<forall>t relation. bm_get m t = Some relation \<longrightarrow> bm_wf relation)"

section \<open>State\<close>

record ('t, 'k, 'r) db_runtime =
  dr_committed :: "('t, 'k, 'r) nested_map"
  dr_required_references :: "('t \<times> 'k, ('t \<times> 'k) btree_set) btree_map"

record ('t, 'k, 'r) db_activation =
  d_runtime :: "('t, 'k, 'r) db_runtime"
  d_overlay :: "('t, 'k, 'r option) nested_map"
  d_rekey_changes :: "(('t \<times> 'k) \<times> ('t \<times> 'k)) list"
  d_required_reference_overlay :: "('t \<times> 'k, ('t \<times> 'k) btree_set) btree_map"
  d_state :: activation_state
  d_activation_id :: u64
  d_helper_managed :: bool

record ('t, 'k, 'r) database_savepoint =
  ds_overlay :: "('t, 'k, 'r option) nested_map"
  ds_rekey_changes :: "(('t \<times> 'k) \<times> ('t \<times> 'k)) list"
  ds_required_reference_overlay :: "('t \<times> 'k, ('t \<times> 'k) btree_set) btree_map"
  ds_activation_id :: u64

text \<open>
  A \<open>DatabaseRekeyChange\<close> holds the table once; the model logs it as the pair of the two flat keys,
  which share the table.
\<close>

section \<open>The runtime and its snapshots\<close>

definition db_default :: "('t, 'k, 'r) db_runtime" where
  "db_default = \<lparr>dr_committed = [], dr_required_references = []\<rparr>"

definition db_snapshot :: "('t, 'k, 'r) db_runtime \<Rightarrow> ('t, 'k, 'r) nested_map" where
  "db_snapshot rt = dr_committed rt"

definition db_begin :: "u64 \<Rightarrow> ('t, 'k, 'r) db_runtime \<Rightarrow> ('t, 'k, 'r) db_activation" where
  "db_begin ident rt =
     \<lparr>d_runtime = rt, d_overlay = [], d_rekey_changes = [], d_required_reference_overlay = [],
      d_state = Open, d_activation_id = ident, d_helper_managed = False\<rparr>"

definition db_committed :: "('t, 'k, 'r) db_runtime \<Rightarrow> 't \<Rightarrow> 'k \<Rightarrow> 'r option" where
  "db_committed rt t k = (case bm_get (dr_committed rt) t of None \<Rightarrow> None | Some rows \<Rightarrow> bm_get rows k)"

definition db_scan :: "'t \<Rightarrow> ('t, 'k, 'r) db_runtime \<Rightarrow> ('k \<times> 'r) list" where
  "db_scan t rt = or_default (dr_committed rt) t"

definition db_scan_window :: "'t \<Rightarrow> nat \<Rightarrow> ('t, 'k, 'r) db_runtime \<Rightarrow> ('k \<times> 'r) list" where
  "db_scan_window t limit rt = take limit (db_scan t rt)"

definition snapshot_committed :: "('t, 'k, 'r) nested_map \<Rightarrow> 't \<Rightarrow> 'k \<Rightarrow> 'r option" where
  "snapshot_committed snap t k = (case bm_get snap t of None \<Rightarrow> None | Some rows \<Rightarrow> bm_get rows k)"

section \<open>The activation\<close>

definition db_require_open :: "('t, 'k, 'r) db_activation \<Rightarrow> (table_error, unit) result" where
  "db_require_open a = (if d_state a = Open then Ok () else Err UseAfterClose)"

definition db_candidate :: "('t, 'k, 'r) db_activation \<Rightarrow> 't \<Rightarrow> 'k \<Rightarrow> 'r option" where
  "db_candidate a t k =
     (case Option.bind (bm_get (d_overlay a) t) (\<lambda>relation. bm_get relation k) of
        Some (Some row) \<Rightarrow> Some row
      | Some None \<Rightarrow> None
      | None \<Rightarrow>
          (case bm_get (dr_committed (d_runtime a)) t of None \<Rightarrow> None | Some rows \<Rightarrow> bm_get rows k))"

definition db_required_references_candidate ::
  "('t, 'k, 'r) db_activation \<Rightarrow> 't \<Rightarrow> 'k \<Rightarrow> ('t \<times> 'k) btree_set option" where
  "db_required_references_candidate a t k =
     (case bm_get (d_required_reference_overlay a) (t, k) of
        Some targets \<Rightarrow> Some targets
      | None \<Rightarrow> bm_get (dr_required_references (d_runtime a)) (t, k))"

definition db_insert :: "'t::linorder \<Rightarrow> 'k::linorder \<Rightarrow> 'r \<Rightarrow> ('t, 'k, 'r) db_activation \<Rightarrow>
    (table_error, unit) result \<times> ('t, 'k, 'r) db_activation" where
  "db_insert t k row a =
     (case db_require_open a of
        Inl e \<Rightarrow> (Err e, a)
      | Inr _ \<Rightarrow>
          if db_candidate a t k \<noteq> None then (Err DuplicateKey, a)
          else (Ok (), a\<lparr>d_required_reference_overlay := bm_insert (t, k) [] (d_required_reference_overlay a),
                         d_overlay := nested_insert t k (Some row) (d_overlay a)\<rparr>))"

definition db_set_required_references :: "'t::linorder \<Rightarrow> 'k::linorder \<Rightarrow> ('t \<times> 'k) list \<Rightarrow>
    ('t, 'k, 'r) db_activation \<Rightarrow> (table_error, unit) result \<times> ('t, 'k, 'r) db_activation" where
  "db_set_required_references t k references a =
     (case db_require_open a of
        Inl e \<Rightarrow> (Err e, a)
      | Inr _ \<Rightarrow>
          if db_candidate a t k = None then (Err MissingRow, a)
          else (Ok (), a\<lparr>d_required_reference_overlay :=
                  bm_insert (t, k) (bs_collect references) (d_required_reference_overlay a)\<rparr>))"

definition db_insert_with_required_references :: "'t::linorder \<Rightarrow> 'k::linorder \<Rightarrow> 'r \<Rightarrow> ('t \<times> 'k) list \<Rightarrow>
    ('t, 'k, 'r) db_activation \<Rightarrow> (table_error, unit) result \<times> ('t, 'k, 'r) db_activation" where
  "db_insert_with_required_references t k row references a =
     (case db_insert t k row a of
        (Inl e, a') \<Rightarrow> (Err e, a')
      | (Inr _, a') \<Rightarrow> db_set_required_references t k references a')"

definition db_update :: "'t::linorder \<Rightarrow> 'k::linorder \<Rightarrow> 'r \<Rightarrow> ('t, 'k, 'r) db_activation \<Rightarrow>
    (table_error, unit) result \<times> ('t, 'k, 'r) db_activation" where
  "db_update t k row a =
     (case db_require_open a of
        Inl e \<Rightarrow> (Err e, a)
      | Inr _ \<Rightarrow>
          if db_candidate a t k = None then (Err MissingRow, a)
          else (Ok (), a\<lparr>d_overlay := nested_insert t k (Some row) (d_overlay a)\<rparr>))"

definition db_update_with_required_references :: "'t::linorder \<Rightarrow> 'k::linorder \<Rightarrow> 'r \<Rightarrow> ('t \<times> 'k) list \<Rightarrow>
    ('t, 'k, 'r) db_activation \<Rightarrow> (table_error, unit) result \<times> ('t, 'k, 'r) db_activation" where
  "db_update_with_required_references t k row references a =
     (case db_update t k row a of
        (Inl e, a') \<Rightarrow> (Err e, a')
      | (Inr _, a') \<Rightarrow> db_set_required_references t k references a')"

definition db_delete :: "'t::linorder \<Rightarrow> 'k::linorder \<Rightarrow> ('t, 'k, 'r) db_activation \<Rightarrow>
    (table_error, unit) result \<times> ('t, 'k, 'r) db_activation" where
  "db_delete t k a =
     (case db_require_open a of
        Inl e \<Rightarrow> (Err e, a)
      | Inr _ \<Rightarrow>
          if db_candidate a t k = None then (Err MissingRow, a)
          else (Ok (), a\<lparr>d_required_reference_overlay := bm_insert (t, k) [] (d_required_reference_overlay a),
                         d_overlay := nested_insert t k None (d_overlay a)\<rparr>))"

definition db_rekey :: "'t::linorder \<Rightarrow> 'k::linorder \<Rightarrow> 'k \<Rightarrow> ('t, 'k, 'r) db_activation \<Rightarrow>
    (table_error, unit) result \<times> ('t, 'k, 'r) db_activation" where
  "db_rekey t old_key new_key a =
     (case db_require_open a of
        Inl e \<Rightarrow> (Err e, a)
      | Inr _ \<Rightarrow>
          (case db_candidate a t old_key of
             None \<Rightarrow> (Err MissingRow, a)
           | Some row \<Rightarrow>
               let references = (case db_required_references_candidate a t old_key of
                                   None \<Rightarrow> [] | Some targets \<Rightarrow> targets)
               in if db_candidate a t new_key \<noteq> None then (Err DuplicateKey, a)
                  else (Ok (), a\<lparr>d_rekey_changes := d_rekey_changes a @ [((t, old_key), (t, new_key))],
                         d_overlay := nested_insert t new_key (Some row) (nested_insert t old_key None (d_overlay a)),
                         d_required_reference_overlay :=
                           bm_insert (t, new_key) references
                             (bm_insert (t, old_key) [] (d_required_reference_overlay a))\<rparr>)))"

definition db_read :: "('t, 'k, 'r) db_activation \<Rightarrow> 't \<Rightarrow> 'k \<Rightarrow> (table_error, 'r option) result" where
  "db_read a t k = (case db_require_open a of Inl e \<Rightarrow> Err e | Inr _ \<Rightarrow> Ok (db_candidate a t k))"

definition db_candidate_rows :: "'t \<Rightarrow> ('t, 'k::linorder, 'r) db_activation \<Rightarrow> (table_error, ('k, 'r) btree_map) result" where
  "db_candidate_rows t a =
     (case db_require_open a of
        Inl e \<Rightarrow> Err e
      | Inr _ \<Rightarrow>
          Ok (let candidate = or_default (dr_committed (d_runtime a)) t
              in case bm_get (d_overlay a) t of
                   None \<Rightarrow> candidate
                 | Some overlay \<Rightarrow> apply_overlay overlay candidate))"

definition db_candidate_relation :: "'t \<Rightarrow> ('t, 'k::linorder, 'r) db_activation \<Rightarrow> (table_error, ('k \<times> 'r) list) result" where
  "db_candidate_relation t a =
     (case db_require_open a of
        Inl e \<Rightarrow> Err e
      | Inr _ \<Rightarrow> Ok (candidate_scan (or_default (dr_committed (d_runtime a)) t, or_default (d_overlay a) t)))"

definition db_candidate_scan_window :: "'t \<Rightarrow> nat \<Rightarrow> ('t, 'k::linorder, 'r) db_activation \<Rightarrow>
    (table_error, ('k \<times> 'r) list) result" where
  "db_candidate_scan_window t limit a =
     (case db_require_open a of
        Inl e \<Rightarrow> Err e
      | Inr _ \<Rightarrow> Ok (take limit
          (candidate_scan (or_default (dr_committed (d_runtime a)) t, or_default (d_overlay a) t))))"

text \<open>
  The range is only evaluated on relations that exist; an inverted range panics when either the
  committed relation or the overlay of the table exists.
\<close>

definition db_candidate_scan_range :: "'t \<Rightarrow> 'k::linorder bound \<Rightarrow> 'k bound \<Rightarrow> ('t, 'k, 'r) db_activation \<Rightarrow>
    (table_error, ('k \<times> 'r) list) result option" where
  "db_candidate_scan_range t lo hi a =
     (case db_require_open a of
        Inl e \<Rightarrow> Some (Err e)
      | Inr _ \<Rightarrow>
          if range_ok lo hi \<or> (bm_get (dr_committed (d_runtime a)) t = None \<and> bm_get (d_overlay a) t = None)
          then Some (Ok (candidate_scan (bm_range lo hi (or_default (dr_committed (d_runtime a)) t),
                                         bm_range lo hi (or_default (d_overlay a) t))))
          else None)"

definition db_savepoint :: "('t, 'k, 'r) db_activation \<Rightarrow> (table_error, ('t, 'k, 'r) database_savepoint) result" where
  "db_savepoint a =
     (case db_require_open a of
        Inl e \<Rightarrow> Err e
      | Inr _ \<Rightarrow> Ok \<lparr>ds_overlay = d_overlay a, ds_rekey_changes = d_rekey_changes a,
                     ds_required_reference_overlay = d_required_reference_overlay a,
                     ds_activation_id = d_activation_id a\<rparr>)"

definition db_rollback_to :: "('t, 'k, 'r) database_savepoint \<Rightarrow> ('t, 'k, 'r) db_activation \<Rightarrow>
    (table_error, unit) result \<times> ('t, 'k, 'r) db_activation" where
  "db_rollback_to sp a =
     (case db_require_open a of
        Inl e \<Rightarrow> (Err e, a)
      | Inr _ \<Rightarrow>
          if ds_activation_id sp \<noteq> d_activation_id a then (Err ForeignSavepoint, a)
          else (Ok (), a\<lparr>d_overlay := ds_overlay sp, d_rekey_changes := ds_rekey_changes sp,
                         d_required_reference_overlay := ds_required_reference_overlay sp\<rparr>))"

definition db_apply_relation :: "'t::linorder \<times> ('k::linorder, 'r option) btree_map \<Rightarrow>
    ('t, 'k, 'r) nested_map \<Rightarrow> ('t, 'k, 'r) nested_map" where
  "db_apply_relation entry committed =
     (case entry of (t, overlay) \<Rightarrow> bm_insert t (apply_overlay overlay (or_default committed t)) committed)"

definition db_apply_overlay :: "('t::linorder, 'k::linorder, 'r option) nested_map \<Rightarrow> ('t, 'k, 'r) nested_map \<Rightarrow>
    ('t, 'k, 'r) nested_map" where
  "db_apply_overlay overlay committed = fold db_apply_relation overlay committed"

definition db_has_row :: "('t, 'k, 'r) nested_map \<Rightarrow> 't \<times> 'k \<Rightarrow> bool" where
  "db_has_row committed tk =
     (case tk of (t, k) \<Rightarrow> (case bm_get committed t of None \<Rightarrow> False | Some rows \<Rightarrow> bm_contains rows k))"

definition db_publish :: "('t::linorder, 'k::linorder, 'r) db_activation \<Rightarrow>
    (table_error, unit) result \<times> ('t, 'k, 'r) db_activation" where
  "db_publish a =
     (case d_state a of
        Committed \<Rightarrow> (Err DoubleCommit, a)
      | RolledBack \<Rightarrow> (Err UseAfterClose, a)
      | Open \<Rightarrow>
          let committed = db_apply_overlay (d_overlay a) (dr_committed (d_runtime a));
              references =
                bm_retain (\<lambda>source _. db_has_row committed source)
                  (bm_extend (dr_required_references (d_runtime a)) (d_required_reference_overlay a))
          in if list_ex (\<lambda>(_, targets). list_ex (\<lambda>target. \<not> db_has_row committed target) targets) references
             then (Err ReferencedRow, a)
             else (Ok (), a\<lparr>d_runtime := \<lparr>dr_committed = committed, dr_required_references = references\<rparr>,
                            d_state := Committed\<rparr>))"

definition db_commit :: "('t::linorder, 'k::linorder, 'r) db_activation \<Rightarrow>
    (table_error, unit) result \<times> ('t, 'k, 'r) db_activation" where
  "db_commit a = (if d_helper_managed a then (Err HelperManagedCommit, a) else db_publish a)"

definition db_rollback :: "('t, 'k, 'r) db_activation \<Rightarrow> ('t, 'k, 'r) db_activation" where
  "db_rollback a =
     (if d_state a = Open
      then a\<lparr>d_overlay := [], d_rekey_changes := [], d_required_reference_overlay := [], d_state := RolledBack\<rparr>
      else a)"

text \<open>The calls of a closure against the database activation.\<close>

datatype ('t, 'k, 'r) db_op =
    DbInsert 't 'k 'r
  | DbInsertRefs 't 'k 'r "('t \<times> 'k) list"
  | DbUpdate 't 'k 'r
  | DbUpdateRefs 't 'k 'r "('t \<times> 'k) list"
  | DbSetRefs 't 'k "('t \<times> 'k) list"
  | DbDelete 't 'k
  | DbRekey 't 'k 'k
  | DbRollback
  | DbCommit

fun db_apply :: "('t::linorder, 'k::linorder, 'r) db_op \<Rightarrow> ('t, 'k, 'r) db_activation \<Rightarrow>
    (table_error, unit) result \<times> ('t, 'k, 'r) db_activation" where
  "db_apply (DbInsert t k r) a = db_insert t k r a"
| "db_apply (DbInsertRefs t k r ts) a = db_insert_with_required_references t k r ts a"
| "db_apply (DbUpdate t k r) a = db_update t k r a"
| "db_apply (DbUpdateRefs t k r ts) a = db_update_with_required_references t k r ts a"
| "db_apply (DbSetRefs t k ts) a = db_set_required_references t k ts a"
| "db_apply (DbDelete t k) a = db_delete t k a"
| "db_apply (DbRekey t old new) a = db_rekey t old new a"
| "db_apply DbRollback a = (Ok (), db_rollback a)"
| "db_apply DbCommit a = db_commit a"

definition db_read_flat :: "('t, 'k, 'r) db_activation \<Rightarrow> 't \<times> 'k \<Rightarrow> (table_error, 'r option) result" where
  "db_read_flat a tk = db_read a (fst tk) (snd tk)"

type_synonym ('t, 'k, 'r, 'e, 'v) db_prog = "(('t, 'k, 'r) db_op, 't \<times> 'k, 'r, 'e, 'v) act_prog"

abbreviation db_run :: "('t::linorder, 'k::linorder, 'r, 'e, 'v) db_prog \<Rightarrow> ('t, 'k, 'r) database_savepoint list \<Rightarrow>
    ('t, 'k, 'r) db_activation \<Rightarrow> ('e, 'v) result option \<times> ('t, 'k, 'r) db_activation" where
  "db_run \<equiv> run_prog db_apply db_read_flat db_savepoint db_rollback_to"

definition db_activate :: "('t::linorder, 'k::linorder, 'r, 'e, 'v) db_prog \<Rightarrow> ('t, 'k, 'r) database_savepoint list \<Rightarrow>
    u64 \<Rightarrow> ('t, 'k, 'r) db_runtime \<Rightarrow>
    ('e activation_error, 'v) result option \<times> ('t, 'k, 'r) db_runtime \<times> u64" where
  "db_activate operation held counter rt =
     (case next_activation_id counter of
        (None, counter') \<Rightarrow> (None, rt, counter')
      | (Some ident, counter') \<Rightarrow>
          (case db_run operation held ((db_begin ident rt)\<lparr>d_helper_managed := True\<rparr>) of
             (None, a) \<Rightarrow> (None, d_runtime a, counter')
           | (Some (Inr value), a) \<Rightarrow>
               (case db_publish a of
                  (Inr _, a') \<Rightarrow> (Some (Ok value), d_runtime a', counter')
                | (Inl e, a') \<Rightarrow> (Some (Err (CommitError e)), d_runtime a', counter'))
           | (Some (Inl e), a) \<Rightarrow>
               (Some (Err (OperationError e)), d_runtime (db_rollback a), counter')))"

section \<open>Nested scopes\<close>

datatype ('t, 'k, 'r) db_child_op =
    DbChildCall "('t, 'k, 'r) db_op"
  | DbChildRollbackTo "('t, 'k, 'r) database_savepoint"

definition db_child :: "('t, 'k, 'r) db_activation \<Rightarrow> (table_error, ('t, 'k, 'r) db_activation) result" where
  "db_child a = (case db_require_open a of Inl e \<Rightarrow> Err e | Inr _ \<Rightarrow> Ok a)"

text \<open>
  A database child scope forwards every mutation to its parent and refuses \<open>commit\<close>. It has no
  \<open>rollback\<close> operation, so \<open>DbChildCall DbRollback\<close> is no call of the API and changes nothing.
\<close>

fun db_child_apply :: "('t::linorder, 'k::linorder, 'r) db_child_op \<Rightarrow> ('t, 'k, 'r) db_activation \<Rightarrow>
    (table_error, unit) result \<times> ('t, 'k, 'r) db_activation" where
  "db_child_apply (DbChildCall DbCommit) a = (Err ChildCannotCommit, a)"
| "db_child_apply (DbChildCall DbRollback) a = (Ok (), a)"
| "db_child_apply (DbChildCall op) a = db_apply op a"
| "db_child_apply (DbChildRollbackTo sp) a = db_rollback_to sp a"

section \<open>Laws of the nested maps\<close>

lemma nested_wf_or_default [wf_intros]: "nested_wf m \<Longrightarrow> bm_wf (or_default m t)"
  by (auto simp: nested_wf_def or_default_def split: option.splits)

lemma nested_wf_bm_insert [wf_intros]:
  "nested_wf m \<Longrightarrow> bm_wf relation \<Longrightarrow> nested_wf (bm_insert t relation m)"
  by (auto simp: nested_wf_def bm_get_insert intro: bm_wf_insert split: if_splits)

lemma nested_wf_insert [wf_intros]: "nested_wf m \<Longrightarrow> nested_wf (nested_insert t k v m)"
  by (simp add: nested_insert_def nested_wf_bm_insert bm_wf_insert nested_wf_or_default)

lemma nested_wf_Nil [simp, wf_intros]: "nested_wf []"
  by (simp add: nested_wf_def)

lemma nested_get_or_default: "nested_get m (t, k) = bm_get (or_default m t) k"
  by (simp add: nested_get_def or_default_def split: option.splits)

lemma nested_get_Nil [simp]: "nested_get [] = Map.empty"
  by (simp add: fun_eq_iff nested_get_def)

lemma nested_get_bm_insert:
  "nested_get (bm_insert t relation m) (u, k) = (if u = t then bm_get relation k else nested_get m (u, k))"
  by (simp add: nested_get_def bm_get_insert)

lemma nested_get_insert [bmap]: "nested_get (nested_insert t k v m) = (nested_get m)((t, k) \<mapsto> v)"
  by (auto simp: fun_eq_iff nested_insert_def nested_get_def or_default_def bm_get_insert split: option.splits)

lemma nested_wf_Cons: "nested_wf ((t, relation) # m) \<Longrightarrow> nested_wf m \<and> bm_wf relation \<and> bm_get m t = None"
proof -
  assume wf: "nested_wf ((t, relation) # m)"
  then have m: "bm_wf m" and none: "bm_get m t = None"
    by (auto simp: nested_wf_def bm_wf_Cons bm_get_None_notin)
  have all: "bm_get ((t, relation) # m) u = Some r \<Longrightarrow> bm_wf r" for u r
    using wf by (simp add: nested_wf_def)
  have "bm_wf r" if "bm_get m u = Some r" for u r
    using all [of u r] that none by (cases "u = t") (simp_all add: bm_get_Cons)
  with m none all [of t relation] show ?thesis by (simp add: nested_wf_def bm_get_Cons)
qed

lemma db_apply_relation_spec:
  assumes "nested_wf committed" and "bm_wf overlay"
  shows "nested_wf (db_apply_relation (t, overlay) committed)"
    and "nested_get (db_apply_relation (t, overlay) committed) (u, k) =
      (if u = t then overlaid (bm_get (or_default committed t)) (bm_get overlay) k else nested_get committed (u, k))"
  using assms
  by (simp_all add: db_apply_relation_def nested_wf_bm_insert bm_wf_apply_overlay nested_wf_or_default
      nested_get_bm_insert bm_get_apply_overlay)

lemma db_apply_overlay_spec:
  "nested_wf overlay \<Longrightarrow> nested_wf committed \<Longrightarrow>
   nested_wf (db_apply_overlay overlay committed) \<and>
   nested_get (db_apply_overlay overlay committed) = overlaid (nested_get committed) (nested_get overlay)"
proof (induction overlay arbitrary: committed)
  case Nil
  then show ?case by (simp add: db_apply_overlay_def overlaid_def fun_eq_iff)
next
  case (Cons entry overlay)
  obtain t ov where entry: "entry = (t, ov)" by (cases entry)
  note wf = nested_wf_Cons [OF Cons.prems(1) [unfolded entry]]
  note step = db_apply_relation_spec [OF Cons.prems(2), of ov t]
  have "nested_wf (db_apply_overlay (entry # overlay) committed) \<and>
      nested_get (db_apply_overlay (entry # overlay) committed) =
        overlaid (nested_get (db_apply_relation entry committed)) (nested_get overlay)"
    using Cons.IH [of "db_apply_relation entry committed"] wf step(1) by (simp add: entry db_apply_overlay_def)
  moreover have "overlaid (nested_get (db_apply_relation entry committed)) (nested_get overlay) uk =
      overlaid (nested_get committed) (nested_get (entry # overlay)) uk" for uk
    using wf step(2)
    by (cases uk) (auto simp: entry overlaid_def nested_get_def bm_get_Cons or_default_def split: option.splits)
  ultimately show ?case by (simp add: fun_eq_iff)
qed

section \<open>Refinement of the transaction contract\<close>

definition db_abs :: "('t, 'k, 'r) db_activation \<Rightarrow> ('t \<times> 'k, 'r) txn" where
  "db_abs a = \<lparr>tx_committed = nested_get (dr_committed (d_runtime a)),
     tx_refs = ref_sets (dr_required_references (d_runtime a)),
     tx_overlay = nested_get (d_overlay a),
     tx_ref_overlay = ref_sets (d_required_reference_overlay a),
     tx_rekeys = d_rekey_changes a, tx_state = d_state a, tx_id = d_activation_id a,
     tx_managed = d_helper_managed a\<rparr>"

definition db_runtime_wf :: "('t::linorder, 'k::linorder, 'r) db_runtime \<Rightarrow> bool" where
  "db_runtime_wf rt \<longleftrightarrow> nested_wf (dr_committed rt) \<and> bm_wf (dr_required_references rt)"

definition db_wf :: "('t::linorder, 'k::linorder, 'r) db_activation \<Rightarrow> bool" where
  "db_wf a \<longleftrightarrow> db_runtime_wf (d_runtime a) \<and> nested_wf (d_overlay a) \<and> bm_wf (d_required_reference_overlay a)"

definition db_savepoint_abs :: "('t, 'k, 'r) database_savepoint \<Rightarrow> ('t \<times> 'k, 'r) tx_savepoint" where
  "db_savepoint_abs sp = \<lparr>sp_overlay = nested_get (ds_overlay sp), sp_rekeys = ds_rekey_changes sp,
     sp_ref_overlay = ref_sets (ds_required_reference_overlay sp), sp_id = ds_activation_id sp\<rparr>"

definition db_savepoint_wf :: "('t::linorder, 'k::linorder, 'r) database_savepoint \<Rightarrow> bool" where
  "db_savepoint_wf sp \<longleftrightarrow> nested_wf (ds_overlay sp) \<and> bm_wf (ds_required_reference_overlay sp)"

fun db_sem :: "('t, 'k, 'r) db_op \<Rightarrow> ('t \<times> 'k, 'r) act_op" where
  "db_sem (DbInsert t k r) = OpInsert (t, k) r"
| "db_sem (DbInsertRefs t k r ts) = OpInsertRefs (t, k) r ts"
| "db_sem (DbUpdate t k r) = OpUpdate (t, k) r"
| "db_sem (DbUpdateRefs t k r ts) = OpUpdateRefs (t, k) r ts"
| "db_sem (DbSetRefs t k ts) = OpSetRefs (t, k) ts"
| "db_sem (DbDelete t k) = OpDelete (t, k)"
| "db_sem (DbRekey t old new) = OpRekey (t, old) (t, new)"
| "db_sem DbRollback = OpRollback"
| "db_sem DbCommit = OpCommit"

lemma db_abs_simps [simp]:
  "tx_committed (db_abs a) = nested_get (dr_committed (d_runtime a))"
  "tx_refs (db_abs a) = ref_sets (dr_required_references (d_runtime a))"
  "tx_overlay (db_abs a) = nested_get (d_overlay a)"
  "tx_ref_overlay (db_abs a) = ref_sets (d_required_reference_overlay a)"
  "tx_rekeys (db_abs a) = d_rekey_changes a"
  "tx_state (db_abs a) = d_state a"
  "tx_id (db_abs a) = d_activation_id a"
  "tx_managed (db_abs a) = d_helper_managed a"
  by (simp_all add: db_abs_def)

lemma db_abs_updates [simp]:
  "db_abs (a\<lparr>d_runtime := rt\<rparr>) =
     (db_abs a)\<lparr>tx_committed := nested_get (dr_committed rt), tx_refs := ref_sets (dr_required_references rt)\<rparr>"
  "db_abs (a\<lparr>d_overlay := ov\<rparr>) = (db_abs a)\<lparr>tx_overlay := nested_get ov\<rparr>"
  "db_abs (a\<lparr>d_required_reference_overlay := rs\<rparr>) = (db_abs a)\<lparr>tx_ref_overlay := ref_sets rs\<rparr>"
  "db_abs (a\<lparr>d_rekey_changes := cs\<rparr>) = (db_abs a)\<lparr>tx_rekeys := cs\<rparr>"
  "db_abs (a\<lparr>d_state := st\<rparr>) = (db_abs a)\<lparr>tx_state := st\<rparr>"
  by (simp_all add: db_abs_def)

lemma db_wf_updates [simp]:
  "db_wf (a\<lparr>d_state := st\<rparr>) = db_wf a"
  "db_wf (a\<lparr>d_rekey_changes := cs\<rparr>) = db_wf a"
  "db_wf (a\<lparr>d_helper_managed := b\<rparr>) = db_wf a"
  "db_wf a \<Longrightarrow> nested_wf ov \<Longrightarrow> db_wf (a\<lparr>d_overlay := ov\<rparr>)"
  "db_wf a \<Longrightarrow> bm_wf rs \<Longrightarrow> db_wf (a\<lparr>d_required_reference_overlay := rs\<rparr>)"
  "db_wf a \<Longrightarrow> db_runtime_wf rt \<Longrightarrow> db_wf (a\<lparr>d_runtime := rt\<rparr>)"
  by (simp_all add: db_wf_def)

lemma db_wf_parts: "db_wf a \<Longrightarrow> nested_wf (dr_committed (d_runtime a))"
  "db_wf a \<Longrightarrow> bm_wf (dr_required_references (d_runtime a))"
  "db_wf a \<Longrightarrow> nested_wf (d_overlay a)" "db_wf a \<Longrightarrow> bm_wf (d_required_reference_overlay a)"
  "db_wf a \<Longrightarrow> db_runtime_wf (d_runtime a)"
  by (simp_all add: db_wf_def db_runtime_wf_def)

lemma db_candidate_abs: "db_candidate a t k = tx_candidate (db_abs a) (t, k)"
  by (auto simp: db_candidate_def tx_candidate_def overlaid_def nested_get_def split: option.splits)

lemma db_refs_abs: "map_option set (db_required_references_candidate a t k) = tx_candidate_refs (db_abs a) (t, k)"
  by (auto simp: db_required_references_candidate_def tx_candidate_refs_def ref_sets_def split: option.splits)

lemma db_has_row_get: "db_has_row m tk \<longleftrightarrow> nested_get m tk \<noteq> None"
  by (auto simp: db_has_row_def nested_get_def bm_contains_get split: prod.splits option.splits)

definition db_published_rows :: "('t::linorder, 'k::linorder, 'r) db_activation \<Rightarrow> ('t, 'k, 'r) nested_map" where
  "db_published_rows a = db_apply_overlay (d_overlay a) (dr_committed (d_runtime a))"

definition db_published_refs :: "('t::linorder, 'k::linorder, 'r) db_activation \<Rightarrow>
    ('t \<times> 'k, ('t \<times> 'k) btree_set) btree_map" where
  "db_published_refs a =
     bm_retain (\<lambda>source _. db_has_row (db_published_rows a) source)
       (bm_extend (dr_required_references (d_runtime a)) (d_required_reference_overlay a))"

lemma db_published_rows_get:
  "db_wf a \<Longrightarrow> nested_wf (db_published_rows a) \<and> nested_get (db_published_rows a) = tx_candidate (db_abs a)"
  using db_apply_overlay_spec [of "d_overlay a" "dr_committed (d_runtime a)"]
  by (simp add: db_published_rows_def tx_candidate_def db_wf_parts)

lemma db_published_refs_wf: "db_wf a \<Longrightarrow> bm_wf (db_published_refs a)"
  by (simp add: db_published_refs_def bm_wf_retain bm_wf_extend db_wf_parts)

lemma db_published_refs_get: "db_wf a \<Longrightarrow> ref_sets (db_published_refs a) = tx_published_refs (db_abs a)"
  by (auto simp: db_published_refs_def ref_sets_def bm_get_retain bm_wf_extend bm_get_extend db_has_row_get
      db_published_rows_get tx_published_refs_def tx_candidate_refs_def fun_eq_iff db_wf_parts split: option.splits)

lemma ex_target_set:
  "(\<exists>s ts x. map_option set (f s) = Some ts \<and> x \<in> ts \<and> P x) \<longleftrightarrow> (\<exists>s l. f s = Some l \<and> (\<exists>x \<in> set l. P x))"
  by auto

lemma db_published_dangling:
  assumes "db_wf a"
  shows "list_ex (\<lambda>(_, targets). list_ex (\<lambda>target. \<not> db_has_row (db_published_rows a) target) targets)
      (db_published_refs a) \<longleftrightarrow> tx_dangling (db_abs a)"
proof -
  have "list_ex (\<lambda>(_, targets). list_ex (\<lambda>target. \<not> db_has_row (db_published_rows a) target) targets) (db_published_refs a)
      \<longleftrightarrow> (\<exists>s ts. bm_get (db_published_refs a) s = Some ts \<and> (\<exists>x \<in> set ts. tx_candidate (db_abs a) x = None))"
    unfolding db_has_row_get
    using db_published_refs_wf [OF assms] db_published_rows_get [OF assms]
    by (fastforce simp: list_ex_iff bm_get_mem [symmetric])
  also have "\<dots> \<longleftrightarrow> tx_dangling (db_abs a)"
    unfolding tx_dangling_def db_published_refs_get [OF assms, symmetric] ref_sets_def ex_target_set ..
  finally show ?thesis .
qed

lemma db_publish_unfold:
  "db_publish a =
     (case d_state a of
        Committed \<Rightarrow> (Err DoubleCommit, a)
      | RolledBack \<Rightarrow> (Err UseAfterClose, a)
      | Open \<Rightarrow>
          if list_ex (\<lambda>(_, targets). list_ex (\<lambda>target. \<not> db_has_row (db_published_rows a) target) targets)
               (db_published_refs a)
          then (Err ReferencedRow, a)
          else (Ok (), a\<lparr>d_runtime := \<lparr>dr_committed = db_published_rows a, dr_required_references = db_published_refs a\<rparr>,
                         d_state := Committed\<rparr>))"
  by (simp add: db_publish_def db_published_rows_def db_published_refs_def Let_def split: activation_state.splits)

lemma db_publish_sim:
  assumes "db_wf a"
  shows "db_wf (snd (db_publish a)) \<and> map_prod id db_abs (db_publish a) = tx_publish (db_abs a)"
proof (cases "d_state a = Open \<and> \<not> tx_dangling (db_abs a)")
  case True
  with assms db_published_rows_get [OF assms] show ?thesis
    by (simp add: db_publish_unfold db_published_dangling tx_publish_def db_published_refs_wf db_runtime_wf_def
        db_published_refs_get)
next
  case False
  with assms show ?thesis
    by (auto simp: db_publish_unfold db_published_dangling tx_publish_def split: activation_state.splits)
qed

lemma db_publish_err: "fst (db_publish a) \<noteq> Ok () \<Longrightarrow> snd (db_publish a) = a"
  by (auto simp: db_publish_def Let_def split: activation_state.splits if_splits)

lemma tx_overlay_first:
  "t\<lparr>tx_ref_overlay := rs, tx_overlay := ov\<rparr> = t\<lparr>tx_overlay := ov, tx_ref_overlay := rs\<rparr>"
  by simp

lemma db_apply_sim:
  assumes "db_wf a"
  shows "db_wf (snd (db_apply op a)) \<and> map_prod id db_abs (db_apply op a) = tx_apply (db_sem op) (db_abs a)"
proof (cases op)
  case (DbRekey t old new)
  have "set (case db_required_references_candidate a t old of None \<Rightarrow> [] | Some ts \<Rightarrow> ts) =
      (case tx_candidate_refs (db_abs a) (t, old) of None \<Rightarrow> {} | Some ts \<Rightarrow> ts)"
    using db_refs_abs [of a t old] by (auto split: option.splits)
  with DbRekey assms show ?thesis
    by (simp add: db_rekey_def tx_rekey_def db_require_open_def db_candidate_abs Let_def
        nested_wf_insert nested_get_insert bm_wf_insert db_wf_parts split: option.splits)
next
  case DbCommit
  with assms db_publish_sim [OF assms] show ?thesis
    by (auto simp: db_commit_def tx_commit_def)
qed (insert assms, simp_all add: db_insert_def db_update_def db_delete_def db_set_required_references_def
    db_insert_with_required_references_def db_update_with_required_references_def db_rollback_def tx_defs
    db_require_open_def db_candidate_abs nested_wf_insert nested_get_insert bm_wf_insert bm_wf_collect db_wf_parts
    tx_overlay_first)

lemma db_apply_runtime:
  "d_helper_managed a \<or> op \<noteq> DbCommit \<Longrightarrow> d_runtime (snd (db_apply op a)) = d_runtime a"
  by (cases op)
    (auto simp: db_insert_def db_update_def db_delete_def db_set_required_references_def db_rekey_def
      db_insert_with_required_references_def db_update_with_required_references_def db_rollback_def
      db_commit_def db_require_open_def Let_def split: option.splits)

lemma db_sem_commit: "db_sem op = OpCommit \<longleftrightarrow> op = DbCommit"
  by (cases op) auto

interpretation db_store: txn_store db_abs db_wf db_sem db_apply db_read_flat db_savepoint db_rollback_to
  db_savepoint_abs db_savepoint_wf d_runtime
proof unfold_locales
  fix a :: "('t::linorder, 'k::linorder, 'r) db_activation" and op k and sp :: "('t, 'k, 'r) database_savepoint"
  show "tx_managed (db_abs a) \<or> db_sem op \<noteq> OpCommit \<Longrightarrow> d_runtime (snd (db_apply op a)) = d_runtime a"
    by (rule db_apply_runtime) (simp add: db_sem_commit)
  show "d_runtime (snd (db_rollback_to sp a)) = d_runtime a"
    by (simp add: db_rollback_to_def db_require_open_def)
  assume wf: "db_wf a"
  show "db_wf (snd (db_apply op a))" and "map_prod id db_abs (db_apply op a) = tx_apply (db_sem op) (db_abs a)"
    using db_apply_sim [OF wf] by auto
  show "db_read_flat a k = tx_read (db_abs a) k"
    by (simp add: db_read_flat_def db_read_def tx_read_def db_require_open_def db_candidate_abs)
  show "map_sum id db_savepoint_abs (db_savepoint a) = tx_save (db_abs a)"
    by (simp add: db_savepoint_def tx_save_def db_require_open_def db_savepoint_abs_def)
  show "db_savepoint a = Ok sp \<Longrightarrow> db_savepoint_wf sp"
    using wf by (auto simp: db_savepoint_def db_require_open_def db_savepoint_wf_def db_wf_parts split: if_splits)
  assume "db_savepoint_wf sp"
  with wf show "db_wf (snd (db_rollback_to sp a))"
    and "map_prod id db_abs (db_rollback_to sp a) = tx_back (db_savepoint_abs sp) (db_abs a)"
    by (simp_all add: db_rollback_to_def tx_back_def db_require_open_def db_savepoint_abs_def db_savepoint_wf_def)
qed

interpretation db_root: txn_root db_abs db_wf db_sem db_apply db_read_flat db_savepoint db_rollback_to
  db_savepoint_abs db_savepoint_wf d_runtime db_publish
  using db_publish_sim db_publish_err by unfold_locales blast+

lemma db_committed_nested: "db_committed rt t k = nested_get (dr_committed rt) (t, k)"
  by (simp add: db_committed_def nested_get_def split: option.splits)

section \<open>Reachable databases\<close>

definition db_integrity :: "('t, 'k, 'r) db_runtime \<Rightarrow> bool" where
  "db_integrity rt \<longleftrightarrow> refs_ok (nested_get (dr_committed rt)) (ref_sets (dr_required_references rt))"

inductive db_reachable :: "('t::linorder, 'k::linorder, 'r) db_runtime \<Rightarrow> bool" where
  db_reach_default: "db_reachable db_default"
| db_reach_session: "db_reachable rt \<Longrightarrow> list_all db_savepoint_wf held \<Longrightarrow>
    db_reachable (d_runtime (snd (db_run (operation :: ('t, 'k, 'r, table_error, 'r option) db_prog)
      held (db_begin ident rt))))"
| db_reach_activate: "db_reachable rt \<Longrightarrow> list_all db_savepoint_wf held \<Longrightarrow>
    db_reachable (fst (snd (db_activate (operation :: ('t, 'k, 'r, table_error, 'r option) db_prog)
      held counter rt)))"

lemma db_begin_simps [simp]:
  "d_runtime (db_begin ident rt) = rt" "d_state (db_begin ident rt) = Open"
  "d_helper_managed (db_begin ident rt) = False"
  "db_wf (db_begin ident rt) \<longleftrightarrow> db_runtime_wf rt"
  by (simp_all add: db_begin_def db_wf_def)

definition db_after_closure ::
  "('t::linorder, 'k::linorder, 'r, 'e, 'v) db_prog \<Rightarrow> ('t, 'k, 'r) database_savepoint list \<Rightarrow> u64 \<Rightarrow>
   ('t, 'k, 'r) db_runtime \<Rightarrow> ('e, 'v) result option \<times> ('t, 'k, 'r) db_activation" where
  "db_after_closure operation held ident rt =
     db_run operation held ((db_begin ident rt)\<lparr>d_helper_managed := True\<rparr>)"

lemma db_after_closure_props:
  assumes "db_runtime_wf rt" and "list_all db_savepoint_wf held"
  shows "db_wf (snd (db_after_closure operation held ident rt))"
    and "d_runtime (snd (db_after_closure operation held ident rt)) = rt"
  unfolding db_after_closure_def
  using db_store.run_refines [of "(db_begin ident rt)\<lparr>d_helper_managed := True\<rparr>" held operation]
    db_store.run_managed_runtime [of "(db_begin ident rt)\<lparr>d_helper_managed := True\<rparr>" held operation] assms
  by simp_all

lemma db_activate_cases:
  assumes "db_runtime_wf rt" and "list_all db_savepoint_wf held"
    and "db_activate operation held counter rt = (res, rt', counter')"
  shows "(\<exists>v. res = Some (Ok v) \<and> fst (db_publish (snd (db_after_closure operation held counter rt))) = Ok () \<and>
            rt' = d_runtime (snd (db_publish (snd (db_after_closure operation held counter rt))))) \<or>
         ((\<forall>v. res \<noteq> Some (Ok v)) \<and> rt' = rt)"
proof (cases "counter = 0")
  case True
  with assms(3) show ?thesis by (simp add: db_activate_def next_activation_id_def)
next
  case False
  obtain out a where cl: "db_after_closure operation held counter rt = (out, a)" by fastforce
  have a: "d_runtime a = rt" using db_after_closure_props(2) [OF assms(1,2), of operation counter] cl by simp
  obtain ans b where pub: "db_publish a = (ans, b)" by fastforce
  have b: "ans \<noteq> Ok () \<Longrightarrow> d_runtime b = rt" using db_publish_err [of a] pub a by auto
  show ?thesis
    using assms(3) cl a pub b False
    by (auto simp: db_activate_def next_activation_id_def db_after_closure_def db_rollback_def
        split: option.splits sum.splits if_splits)
qed

lemma db_reachable_inv: "db_reachable rt \<Longrightarrow> db_runtime_wf rt \<and> db_integrity rt"
proof (induction rule: db_reachable.induct)
  case db_reach_default
  show ?case
    by (simp add: db_default_def db_runtime_wf_def db_integrity_def refs_ok_def)
next
  case (db_reach_session rt held operation ident)
  let ?a = "db_begin ident rt"
  have "db_wf (snd (db_run operation held ?a))"
    using db_reach_session db_store.run_refines [of ?a held operation] by simp
  with db_reach_session db_store.run_keeps_integrity [of ?a held operation] show ?case
    by (simp add: db_wf_parts db_integrity_def)
next
  case (db_reach_activate rt held operation counter)
  obtain res rt' c where act: "db_activate operation held counter rt = (res, rt', c)"
    by (cases "db_activate operation held counter rt") auto
  let ?a = "snd (db_after_closure operation held counter rt)"
  have a: "db_wf ?a" "d_runtime ?a = rt"
    using db_after_closure_props db_reach_activate by blast+
  then have "db_runtime_wf (d_runtime (snd (db_publish ?a)))" "db_integrity (d_runtime (snd (db_publish ?a)))"
    using db_root.pub_wf [of ?a] db_root.pub_keeps_integrity [of ?a] db_reach_activate.IH
    by (simp_all add: db_integrity_def db_wf_parts)
  with db_reach_activate db_activate_cases [OF _ db_reach_activate.hyps(2) act]
  show ?case by (auto simp: act)
qed

section \<open>Properties\<close>

text \<open>
  C2. \<open>DatabaseRuntime::activate\<close> is all or nothing across relations: when it returns a value, every
  table reads as the candidate view the closure built and no required reference dangles, in whichever
  table its target lives; in every other outcome no table changed.
\<close>

theorem db_activate_all_or_nothing:
  assumes "db_runtime_wf rt" and "list_all db_savepoint_wf held"
    and "db_activate operation held counter rt = (res, rt', counter')"
  shows "if \<exists>v. res = Some (Ok v)
    then (\<forall>t k. db_committed rt' t k = db_candidate (snd (db_after_closure operation held counter rt)) t k) \<and>
         db_integrity rt'
    else rt' = rt"
proof -
  note wf = db_after_closure_props(1) [OF assms(1,2), where operation = operation and ident = counter]
  from db_activate_cases [OF assms] db_root.pub_ok(2,3) [OF wf] show ?thesis
    by (auto simp: db_integrity_def db_candidate_abs db_committed_nested)
qed

definition sample_db_closure :: "(nat, nat, nat, table_error, nat option) db_prog" where
  "sample_db_closure = Call (DbInsertRefs 0 1 10 [(7, 2)]) (\<lambda>_. Call (DbInsert 7 2 20) (\<lambda>_.
     Save (\<lambda>_. Call (DbRekey 7 2 3) (\<lambda>_. Back 0 (\<lambda>_. ReadKey (7, 2) Finish)))))"

definition sample_db :: "(nat, nat, nat) db_runtime" where
  "sample_db = \<lparr>dr_committed = [(0, [(1, 10)]), (7, [(2, 20)])],
     dr_required_references = [((0, 1), [(7, 2)]), ((7, 2), [])]\<rparr>"

theorem db_activate_all_or_nothing_witness:
  "db_activate sample_db_closure [] 1 db_default = (Some (Ok (Some 20)), sample_db, 2) \<and>
   db_committed sample_db 7 2 = Some 20 \<and> db_integrity sample_db"
proof -
  have run: "db_activate sample_db_closure [] 1 db_default = (Some (Ok (Some 20)), sample_db, 2)"
    by code_simp
  have wf: "db_runtime_wf (db_default :: (nat, nat, nat) db_runtime)"
    by (simp add: db_default_def db_runtime_wf_def)
  have "db_candidate (snd (db_after_closure sample_db_closure [] 1 db_default)) 7 2 = Some 20"
    by code_simp
  then show ?thesis
    using db_activate_all_or_nothing [OF wf _ run] run by auto
qed

text \<open>
  C4. Referential integrity across tables is an invariant: in every database runtime a process can
  reach, each row with required references exists and so does every row it refers to.
\<close>

theorem db_reachable_integrity:
  assumes "db_reachable rt" and "bm_get (dr_required_references rt) (t, k) = Some targets"
    and "(t', k') \<in> set targets"
  shows "db_committed rt t k \<noteq> None \<and> db_committed rt t' k' \<noteq> None"
proof -
  have "db_integrity rt" using db_reachable_inv [OF assms(1)] by simp
  then have "nested_get (dr_committed rt) (t, k) \<noteq> None \<and> (\<forall>x \<in> set targets. nested_get (dr_committed rt) x \<noteq> None)"
    using assms(2) unfolding db_integrity_def refs_ok_def ref_sets_def by (metis option.simps(9))
  with assms(3) show ?thesis by (simp add: db_committed_nested)
qed

theorem db_reachable_integrity_witness: "db_committed sample_db 7 2 \<noteq> None"
proof -
  have "db_activate sample_db_closure [] 1 db_default = (Some (Ok (Some 20)), sample_db, 2)"
    by code_simp
  with db_reach_activate [OF db_reach_default, of "[]" sample_db_closure 1] have "db_reachable sample_db" by simp
  moreover have "bm_get (dr_required_references sample_db) (0, 1) = Some [(7, 2)]" by code_simp
  ultimately show ?thesis
    using db_reachable_integrity [of sample_db 0 1 "[(7, 2)]" 7 2] by simp
qed

text \<open>
  C34. The multi-relation activation refines the same transaction contract as the single-table one:
  for every closure the answers and the final state are those of the abstract transaction over pairs
  of table and key.
\<close>

theorem db_closure_refines:
  assumes "db_wf a" and "list_all db_savepoint_wf held"
  shows "map_prod id db_abs (db_run operation held a) =
    run_prog (\<lambda>c. tx_apply (db_sem c)) tx_read tx_save tx_back operation (map db_savepoint_abs held) (db_abs a)"
  using db_store.run_refines [OF assms, of operation] by simp

theorem db_closure_refines_witness:
  "map_prod id db_abs (db_run sample_db_closure [] (db_begin 1 db_default)) =
    run_prog (\<lambda>c. tx_apply (db_sem c)) tx_read tx_save tx_back sample_db_closure [] (db_abs (db_begin 1 db_default))"
  using db_closure_refines [of "db_begin 1 db_default" "[]" sample_db_closure]
  by (simp add: db_default_def db_runtime_wf_def)

text \<open>
  The candidate reads of one table in a database activation agree: the streaming merge of the
  committed relation with its overlay yields the materialised candidate relation in key order, windows
  and ranges are its prefix and restriction, and a point read is its lookup.
\<close>

theorem db_candidate_reads_agree:
  assumes "db_wf a" and "d_state a = Open"
  shows "\<exists>rows. db_candidate_rows t a = Ok rows \<and> bm_wf rows \<and>
    db_candidate_relation t a = Ok rows \<and>
    db_candidate_scan_window t limit a = Ok (take limit rows) \<and>
    (range_ok lo hi \<longrightarrow> db_candidate_scan_range t lo hi a = Some (Ok (bm_range lo hi rows))) \<and>
    db_read a t key = Ok (bm_get rows key)"
proof -
  let ?committed = "or_default (dr_committed (d_runtime a)) t" and ?overlay = "or_default (d_overlay a) t"
  let ?rows = "apply_overlay ?overlay ?committed"
  have wf: "bm_wf ?rows" "bm_wf ?overlay" "bm_wf ?committed"
    using assms(1) by (simp_all add: db_wf_parts bm_wf_apply_overlay nested_wf_or_default)
  have get: "bm_get ?rows = overlaid (bm_get ?committed) (bm_get ?overlay)"
    using wf by (simp add: bm_get_apply_overlay)
  have scan: "candidate_scan (?committed, ?overlay) = ?rows"
    using wf get by (intro candidate_scan_eqI) auto
  have range: "candidate_scan (bm_range lo hi ?committed, bm_range lo hi ?overlay) = bm_range lo hi ?rows"
    using wf get by (intro candidate_scan_eqI) (auto simp: bm_wf_range bm_get_range overlaid_def split: option.splits)
  have "db_candidate a t key = bm_get ?rows key"
    using get by (simp add: db_candidate_abs tx_candidate_def overlaid_def nested_get_or_default split: option.splits)
  moreover have "db_candidate_rows t a = Ok ?rows"
    using assms(2) by (simp add: db_candidate_rows_def db_require_open_def or_default_def apply_overlay_def
        split: option.splits)
  ultimately show ?thesis
    using assms(2) wf scan range
    by (simp add: db_candidate_relation_def db_candidate_scan_window_def
        db_candidate_scan_range_def db_read_def db_require_open_def)
qed

theorem db_candidate_reads_agree_witness:
  "db_candidate_relation 7 (snd (db_rekey 7 2 5 (db_begin 1 sample_db))) = Ok [(5, 20)] \<and>
   db_read (snd (db_rekey 7 2 5 (db_begin 1 sample_db))) 7 5 = Ok (Some 20)"
proof -
  let ?a = "snd (db_rekey 7 2 5 (db_begin 1 sample_db))"
  have "?a = snd (db_apply (DbRekey 7 2 5) (db_begin 1 sample_db))" by simp
  moreover have wf: "db_runtime_wf sample_db"
    by (auto simp: sample_db_def db_runtime_wf_def nested_wf_def bm_wf_def bm_get_def split: if_splits)
  ultimately have "db_wf ?a" using db_apply_sim [of "db_begin 1 sample_db" "DbRekey 7 2 5"] by simp
  moreover have "d_state ?a = Open" and rows: "db_candidate_rows 7 ?a = Ok [(5, 20)]"
    and "bm_get [(5::nat, 20::nat)] 5 = Some 20"
    by code_simp+
  ultimately show ?thesis
    using db_candidate_reads_agree [of ?a 7 0 Unbounded Unbounded 5] by simp
qed

end
