(* ===== verification/Orna_Stream.thy ===== *)
theory Orna_Stream
  imports Orna_Prelude
begin

text \<open>
  Stream administration: \<open>crates/orna-stream/src/lib.rs\<close>.

  Identities are composed of separator-free components and have a canonical text form. The backend
  \<open>InMemoryCheckpointBackend\<close> is a state machine: \<open>stream_apply\<close> dispatches the sixteen commit
  intents to one definition each and returns the commit result with the backend it leaves behind.

  A delivery's \<open>Eq\<close> and \<open>Ord\<close> ignore the provider-selected successor, so a map keyed by a
  \<open>FailureIdentity\<close> is keyed here by \<open>delivery_key\<close>: the checkpoint key and the position token.
  References and witnesses inside an assertion detail belong to the catalogue; the detail is the type
  parameter \<open>'d\<close>.
\<close>

section \<open>Identities\<close>

datatype component = Component (as_str: string)

datatype identity_error = InvalidComponent

definition component_char_ok :: "char \<Rightarrow> bool" where
  "component_char_ok c \<longleftrightarrow> c \<noteq> CHR ''|'' \<and> c \<noteq> CHR 0x0A \<and> c \<noteq> CHR 0x0D"

definition component_new :: "string \<Rightarrow> (identity_error, component) result" where
  "component_new value =
     (if value = [] \<or> list_ex (\<lambda>c. \<not> component_char_ok c) value then Err InvalidComponent
      else Ok (Component value))"

datatype consumer_identity =
  ConsumerIdentity (principal: component) (root: component) (function_of: component) (binding: component)

type_synonym position = component

datatype checkpoint_key =
  CheckpointKey (ck_consumer: consumer_identity) (ck_source_format: component) (ck_source: component)
    (ck_partition_format: component) (ck_partition: "component option") (ck_position_format: component)

datatype delivery_identity =
  DeliveryIdentity (consumer: consumer_identity) (source_format: component) (source_of: component)
    (partition_format: component) (partition_of: "component option") (position_format: component)
    (position: position) (successor: position)

instantiation component :: linorder
begin
definition less_eq_component :: "component \<Rightarrow> component \<Rightarrow> bool" where
  "less_eq_component a b \<longleftrightarrow> as_str a \<le> as_str b"
definition less_component :: "component \<Rightarrow> component \<Rightarrow> bool" where
  "less_component a b \<longleftrightarrow> as_str a < as_str b"
instance
  by standard (auto simp: less_eq_component_def less_component_def intro: component.expand)
end

definition consumer_tuple :: "consumer_identity \<Rightarrow> component \<times> component \<times> component \<times> component" where
  "consumer_tuple c = (principal c, root c, function_of c, binding c)"

lemma consumer_tuple_inj: "consumer_tuple a = consumer_tuple b \<longleftrightarrow> a = b"
  by (cases a; cases b) (simp add: consumer_tuple_def)

instantiation consumer_identity :: linorder
begin
definition less_eq_consumer_identity :: "consumer_identity \<Rightarrow> consumer_identity \<Rightarrow> bool" where
  "less_eq_consumer_identity a b \<longleftrightarrow> consumer_tuple a \<le> consumer_tuple b"
definition less_consumer_identity :: "consumer_identity \<Rightarrow> consumer_identity \<Rightarrow> bool" where
  "less_consumer_identity a b \<longleftrightarrow> consumer_tuple a < consumer_tuple b"
instance
  by standard (auto simp: less_eq_consumer_identity_def less_consumer_identity_def
      simp flip: consumer_tuple_inj)
end

definition key_tuple :: "checkpoint_key \<Rightarrow>
    consumer_identity \<times> component \<times> component \<times> component \<times> component option \<times> component" where
  "key_tuple k = (ck_consumer k, ck_source_format k, ck_source k, ck_partition_format k, ck_partition k,
     ck_position_format k)"

lemma key_tuple_inj: "key_tuple a = key_tuple b \<longleftrightarrow> a = b"
  by (cases a; cases b) (simp add: key_tuple_def)

instantiation checkpoint_key :: linorder
begin
definition less_eq_checkpoint_key :: "checkpoint_key \<Rightarrow> checkpoint_key \<Rightarrow> bool" where
  "less_eq_checkpoint_key a b \<longleftrightarrow> key_tuple a \<le> key_tuple b"
definition less_checkpoint_key :: "checkpoint_key \<Rightarrow> checkpoint_key \<Rightarrow> bool" where
  "less_checkpoint_key a b \<longleftrightarrow> key_tuple a < key_tuple b"
instance
  by standard (auto simp: less_eq_checkpoint_key_def less_checkpoint_key_def simp flip: key_tuple_inj)
end

definition delivery_checkpoint_key :: "delivery_identity \<Rightarrow> checkpoint_key" where
  "delivery_checkpoint_key d =
     CheckpointKey (consumer d) (source_format d) (source_of d) (partition_format d) (partition_of d)
       (position_format d)"

type_synonym delivery_row_key = "checkpoint_key \<times> position"

definition delivery_key :: "delivery_identity \<Rightarrow> delivery_row_key" where
  "delivery_key d = (delivery_checkpoint_key d, position d)"

definition delivery_eq :: "delivery_identity \<Rightarrow> delivery_identity \<Rightarrow> bool" where
  "delivery_eq a b \<longleftrightarrow>
     consumer a = consumer b \<and> source_format a = source_format b \<and> source_of a = source_of b \<and>
     partition_format a = partition_format b \<and> partition_of a = partition_of b \<and>
     position_format a = position_format b \<and> position a = position b"

definition consumer_canonical :: "consumer_identity \<Rightarrow> string" where
  "consumer_canonical c =
     ''consumer/v1|'' @ as_str (principal c) @ ''|'' @ as_str (root c) @ ''|'' @ as_str (function_of c)
       @ ''|'' @ as_str (binding c)"

definition delivery_canonical :: "delivery_identity \<Rightarrow> string" where
  "delivery_canonical d =
     (if partition_of d \<noteq> None then ''delivery/v1'' else ''delivery/v1/null'')
       @ ''|'' @ consumer_canonical (consumer d)
       @ ''|'' @ as_str (source_format d) @ ''|'' @ as_str (source_of d) @ ''|'' @ as_str (partition_format d)
       @ ''|'' @ (case partition_of d of None \<Rightarrow> [] | Some p \<Rightarrow> as_str p)
       @ ''|'' @ as_str (position_format d) @ ''|'' @ as_str (position d)"

section \<open>Checkpoints\<close>

record checkpoint =
  cp_key :: checkpoint_key
  cp_version :: u64
  cp_committed :: "position option"

datatype 'p position_merge =
    Merged "'p option"
  | Conflict "'p option" "'p option" "'p option"

definition merge_checkpoint_position :: "'p option \<Rightarrow> 'p option \<Rightarrow> 'p option \<Rightarrow> 'p position_merge" where
  "merge_checkpoint_position base left right =
     (if left = right then Merged left
      else if left = base then Merged right
      else if right = base then Merged left
      else Conflict base left right)"

datatype stream_status = Running | Paused

record stream_state =
  ss_key :: checkpoint_key
  ss_status :: stream_status

record precondition =
  pre_version :: u64
  pre_committed :: "position option"

definition precondition_of :: "checkpoint \<Rightarrow> precondition" where
  "precondition_of c = \<lparr>pre_version = cp_version c, pre_committed = cp_committed c\<rparr>"

section \<open>Failures and leases\<close>

datatype diagnostic_code =
  ProviderUnavailable | DecodeRejected | ExecutionRejected | Cancelled_Code | Internal
  | TableAssertionFalse | StaleBaseline

datatype diagnostic_class = Transient | Permanent | Cancellation

record safe_diagnostic =
  code :: diagnostic_code
  diag_class :: diagnostic_class

datatype failure_status = Failed | Retrying | Succeeded | Skipped | Replaying | Replayed | Resolved

record 'd failure_record =
  f_identity :: delivery_identity
  f_version :: u64
  f_attempts :: u32
  f_status :: failure_status
  f_diagnostic :: safe_diagnostic
  f_assertion_detail :: "'d option"

datatype lease_purpose = Deliver | Skip_Purpose

record delivery_lease =
  l_delivery :: delivery_identity
  l_fence :: u64
  l_purpose :: lease_purpose

text \<open>The derived equality of a lease compares deliveries with their own equality.\<close>

definition lease_eq :: "delivery_lease \<Rightarrow> delivery_lease \<Rightarrow> bool" where
  "lease_eq a b \<longleftrightarrow>
     delivery_eq (l_delivery a) (l_delivery b) \<and> l_fence a = l_fence b \<and> l_purpose a = l_purpose b"

record replay_grant =
  g_failure :: delivery_identity
  g_version :: u64

datatype 'd commit_intent =
    Pause checkpoint_key
  | Resume checkpoint_key
  | Reset checkpoint_key precondition position
  | Acquire delivery_identity precondition lease_purpose
  | Fail delivery_lease safe_diagnostic
  | FailWithAssertion delivery_lease safe_diagnostic 'd
  | Retry delivery_identity u64 precondition
  | Complete delivery_lease precondition
  | Skip delivery_lease precondition u64
  | Replay delivery_identity u64
  | ReplayComplete delivery_identity u64
  | ReplayFail delivery_identity u64 safe_diagnostic
  | ReplayFailWithAssertion delivery_identity u64 safe_diagnostic 'd
  | ReplayCancel delivery_identity u64
  | Resolve delivery_identity u64
  | Cancel delivery_lease

datatype reject_reason =
  StreamPaused | StreamNotPaused | StreamBusy | BlockingFailure | StaleCheckpoint | StaleFailure
  | LeaseFenced | LeaseAlreadyHeld | FailureMissing | RetryNotAllowed | ResolveBlocked

datatype 'd commit_result =
    StreamStatusChanged stream_state bool
  | PausePending stream_state bool
  | CheckpointReset checkpoint
  | Acquired delivery_lease
  | FailedResult "'d failure_record"
  | RetryScheduled "'d failure_record"
  | CheckpointAdvanced checkpoint
  | ReplayGranted replay_grant
  | ReplayCompleted "'d failure_record"
  | ReplayFailed "'d failure_record"
  | ReplayCancelled "'d failure_record"
  | ResolvedResult "'d failure_record"
  | CancelledResult checkpoint
  | Rejected reject_reason

section \<open>The in-memory backend\<close>

record 'd backend =
  checkpoints :: "(checkpoint_key, checkpoint) btree_map"
  streams :: "(checkpoint_key, stream_status) btree_map"
  failures :: "(delivery_row_key, 'd failure_record) btree_map"
  leases :: "(checkpoint_key, delivery_lease) btree_map"
  pause_requested :: "checkpoint_key btree_set"
  next_fence :: "(checkpoint_key, u64) btree_map"
  retry_claims :: "checkpoint_key btree_set"
  replay_claims :: "delivery_row_key btree_set"

definition backend_default :: "'d backend" where
  "backend_default = \<lparr>checkpoints = [], streams = [], failures = [], leases = [], pause_requested = [],
     next_fence = [], retry_claims = [], replay_claims = []\<rparr>"

definition claim_replay :: "replay_grant \<Rightarrow> 'd backend \<Rightarrow> (reject_reason, unit) result \<times> 'd backend" where
  "claim_replay grant s =
     (case bm_get (failures s) (delivery_key (g_failure grant)) of
        None \<Rightarrow> (Err FailureMissing, s)
      | Some record \<Rightarrow>
          if f_version record \<noteq> g_version grant then (Err StaleFailure, s)
          else if f_status record \<noteq> Replaying then (Err RetryNotAllowed, s)
          else if bs_contains (replay_claims s) (delivery_key (g_failure grant)) then (Err LeaseAlreadyHeld, s)
          else (Ok (), s\<lparr>replay_claims := bs_insert (delivery_key (g_failure grant)) (replay_claims s)\<rparr>))"

definition checkpoint_fresh :: "checkpoint_key \<Rightarrow> checkpoint" where
  "checkpoint_fresh key = \<lparr>cp_key = key, cp_version = 0, cp_committed = None\<rparr>"

definition stream_checkpoint :: "'d backend \<Rightarrow> checkpoint_key \<Rightarrow> checkpoint" where
  "stream_checkpoint s key = (case bm_get (checkpoints s) key of Some c \<Rightarrow> c | None \<Rightarrow> checkpoint_fresh key)"

definition stream_failure :: "'d backend \<Rightarrow> delivery_identity \<Rightarrow> 'd failure_record option" where
  "stream_failure s ident = bm_get (failures s) (delivery_key ident)"

text \<open>\<open>checkpoint_mut\<close> materialises the entry of its key; the caller then reads or writes it.\<close>

definition checkpoint_mut :: "checkpoint_key \<Rightarrow> 'd backend \<Rightarrow> 'd backend" where
  "checkpoint_mut key s =
     (case bm_get (checkpoints s) key of
        Some _ \<Rightarrow> s
      | None \<Rightarrow> s\<lparr>checkpoints := bm_insert key (checkpoint_fresh key) (checkpoints s)\<rparr>)"

definition checkpoint_matches :: "checkpoint_key \<Rightarrow> precondition \<Rightarrow> 'd backend \<Rightarrow> bool \<times> 'd backend" where
  "checkpoint_matches key expected s =
     (let s' = checkpoint_mut key s; c = stream_checkpoint s' key
      in (cp_version c = pre_version expected \<and> cp_committed c = pre_committed expected, s'))"

definition consume_lease :: "delivery_lease \<Rightarrow> 'd backend \<Rightarrow> (reject_reason, unit) result \<times> 'd backend" where
  "consume_lease lease s =
     (let key = delivery_checkpoint_key (l_delivery lease)
      in case bm_get (leases s) key of
           Some current \<Rightarrow>
             if lease_eq current lease \<and> successor (l_delivery current) = successor (l_delivery lease)
             then let s1 = s\<lparr>leases := bm_remove key (leases s), retry_claims := bs_remove key (retry_claims s)\<rparr>
                  in if bs_contains (pause_requested s1) key
                     then (Ok (), s1\<lparr>pause_requested := bs_remove key (pause_requested s1),
                                     streams := bm_insert key Paused (streams s1)\<rparr>)
                     else (Ok (), s1)
             else (Err LeaseFenced, s)
         | None \<Rightarrow> (Err LeaseFenced, s))"

definition move_checkpoint :: "checkpoint_key \<Rightarrow> position \<Rightarrow> 'd backend \<Rightarrow> checkpoint \<times> 'd backend" where
  "move_checkpoint key to s =
     (let s' = checkpoint_mut key s;
          c = stream_checkpoint s' key;
          c' = c\<lparr>cp_committed := Some to, cp_version := cp_version c + 1\<rparr>
      in (c', s'\<lparr>checkpoints := bm_insert key c' (checkpoints s')\<rparr>))"

definition advance :: "delivery_identity \<Rightarrow> precondition \<Rightarrow> 'd backend \<Rightarrow> 'd commit_result \<times> 'd backend" where
  "advance delivery expected s =
     (let key = delivery_checkpoint_key delivery
      in case checkpoint_matches key expected s of
           (False, s') \<Rightarrow> (Rejected StaleCheckpoint, s')
         | (True, s') \<Rightarrow>
             (case move_checkpoint key (successor delivery) s' of (c, s'') \<Rightarrow> (CheckpointAdvanced c, s'')))"

definition stream_status_of :: "'d backend \<Rightarrow> checkpoint_key \<Rightarrow> stream_status" where
  "stream_status_of s key = (case bm_get (streams s) key of Some st \<Rightarrow> st | None \<Rightarrow> Running)"

definition stream_state_of :: "'d backend \<Rightarrow> checkpoint_key \<Rightarrow> stream_state" where
  "stream_state_of s key = \<lparr>ss_key = key, ss_status = stream_status_of s key\<rparr>"

definition blocking :: "failure_status \<Rightarrow> bool" where
  "blocking st \<longleftrightarrow> st = Failed \<or> st = Retrying"

definition has_blocking_failure :: "'d backend \<Rightarrow> checkpoint_key \<Rightarrow> bool" where
  "has_blocking_failure s key =
     list_ex (\<lambda>(_, failure). delivery_checkpoint_key (f_identity failure) = key \<and> blocking (f_status failure))
       (failures s)"

definition has_ordered_blocking_failure :: "'d backend \<Rightarrow> checkpoint_key \<Rightarrow> bool" where
  "has_ordered_blocking_failure s key =
     list_ex (\<lambda>(_, failure). delivery_checkpoint_key (f_identity failure) = key \<and> blocking (f_status failure))
       (failures s)"

definition has_replay_claim :: "'d backend \<Rightarrow> delivery_identity \<Rightarrow> bool" where
  "has_replay_claim s failure = bs_contains (replay_claims s) (delivery_key failure)"

section \<open>Administration intents\<close>

definition stream_pause :: "checkpoint_key \<Rightarrow> 'd backend \<Rightarrow> 'd commit_result \<times> 'd backend" where
  "stream_pause key s0 =
     (let s = checkpoint_mut key s0
      in if stream_status_of s key = Paused then (StreamStatusChanged (stream_state_of s key) False, s)
         else if bm_contains (leases s) key
         then let changed = (\<not> bs_contains (pause_requested s) key);
                  s' = s\<lparr>pause_requested := bs_insert key (pause_requested s)\<rparr>
              in (PausePending (stream_state_of s' key) changed, s')
         else let changed = (stream_status_of s key \<noteq> Paused);
                  s' = s\<lparr>streams := bm_insert key Paused (streams s)\<rparr>
              in (StreamStatusChanged (stream_state_of s' key) changed, s'))"

definition stream_resume :: "checkpoint_key \<Rightarrow> 'd backend \<Rightarrow> 'd commit_result \<times> 'd backend" where
  "stream_resume key s0 =
     (let s = checkpoint_mut key s0
      in if stream_status_of s key = Running then (StreamStatusChanged (stream_state_of s key) False, s)
         else if bm_contains (leases s) key then (Rejected StreamBusy, s)
         else if has_blocking_failure s key then (Rejected BlockingFailure, s)
         else let s' = s\<lparr>streams := bm_insert key Running (streams s)\<rparr>
              in (StreamStatusChanged (stream_state_of s' key) True, s'))"

definition stream_reset :: "checkpoint_key \<Rightarrow> precondition \<Rightarrow> position \<Rightarrow> 'd backend \<Rightarrow> 'd commit_result \<times> 'd backend" where
  "stream_reset key expected to s0 =
     (let s = checkpoint_mut key s0
      in if stream_status_of s key \<noteq> Paused then (Rejected StreamNotPaused, s)
         else if bm_contains (leases s) key then (Rejected StreamBusy, s)
         else if has_blocking_failure s key then (Rejected BlockingFailure, s)
         else (case checkpoint_matches key expected s of
                 (False, s') \<Rightarrow> (Rejected StaleCheckpoint, s')
               | (True, s') \<Rightarrow>
                   (case move_checkpoint key to s' of (c, s'') \<Rightarrow> (CheckpointReset c, s''))))"

fun authorised_blocking_delivery :: "lease_purpose \<Rightarrow> failure_status option \<Rightarrow> bool" where
  "authorised_blocking_delivery Deliver (Some Retrying) = True"
| "authorised_blocking_delivery Skip_Purpose (Some Failed) = True"
| "authorised_blocking_delivery _ _ = False"

fun acquire_allowed :: "lease_purpose \<Rightarrow> failure_status \<Rightarrow> bool" where
  "acquire_allowed Deliver Retrying = True"
| "acquire_allowed Deliver Succeeded = True"
| "acquire_allowed Deliver Resolved = True"
| "acquire_allowed Skip_Purpose Failed = True"
| "acquire_allowed _ _ = False"

definition fence_of :: "'d backend \<Rightarrow> checkpoint_key \<Rightarrow> u64" where
  "fence_of s key = (case bm_get (next_fence s) key of Some n \<Rightarrow> n | None \<Rightarrow> 0)"

definition issue_lease :: "checkpoint_key \<Rightarrow> delivery_identity \<Rightarrow> lease_purpose \<Rightarrow> 'd backend \<Rightarrow>
    delivery_lease \<times> 'd backend" where
  "issue_lease key delivery purpose s =
     (let fence = fence_of s key + 1;
          lease = \<lparr>l_delivery = delivery, l_fence = fence, l_purpose = purpose\<rparr>
      in (lease, s\<lparr>next_fence := bm_insert key fence (next_fence s), leases := bm_insert key lease (leases s)\<rparr>))"

definition stream_acquire :: "delivery_identity \<Rightarrow> precondition \<Rightarrow> lease_purpose \<Rightarrow> 'd backend \<Rightarrow>
    'd commit_result \<times> 'd backend" where
  "stream_acquire delivery expected purpose s0 =
     (let key = delivery_checkpoint_key delivery
      in case checkpoint_matches key expected s0 of
           (False, s) \<Rightarrow> (Rejected StaleCheckpoint, s)
         | (True, s) \<Rightarrow>
             let failure_status = map_option f_status (bm_get (failures s) (delivery_key delivery))
             in if has_ordered_blocking_failure s key \<and> \<not> authorised_blocking_delivery purpose failure_status
                then (Rejected BlockingFailure, s)
                else (case bm_get (leases s) key of
                  Some existing \<Rightarrow>
                    if purpose = Deliver \<and> failure_status = Some Retrying \<and> bs_contains (retry_claims s) key
                    then let lease = \<lparr>l_delivery = delivery, l_fence = l_fence existing, l_purpose = l_purpose existing\<rparr>
                         in (Acquired lease, s\<lparr>retry_claims := bs_remove key (retry_claims s),
                                               leases := bm_insert key lease (leases s)\<rparr>)
                    else (Rejected LeaseAlreadyHeld, s)
                | None \<Rightarrow>
                    if (case failure_status of Some st \<Rightarrow> \<not> acquire_allowed purpose st | None \<Rightarrow> False)
                    then (Rejected RetryNotAllowed, s)
                    else if failure_status = None \<and> purpose = Skip_Purpose then (Rejected FailureMissing, s)
                    else if purpose = Deliver \<and> stream_status_of s key = Paused \<and> failure_status \<noteq> Some Retrying
                    then (Rejected StreamPaused, s)
                    else (case issue_lease key delivery purpose s of (lease, s') \<Rightarrow> (Acquired lease, s'))))"

section \<open>Delivery intents\<close>

text \<open>
  \<open>Fail\<close> and \<open>FailWithAssertion\<close> differ in the diagnostic and the detail they store;
  \<open>record_failure\<close> is their common body.
\<close>

definition record_failure :: "delivery_lease \<Rightarrow> safe_diagnostic \<Rightarrow> 'd option \<Rightarrow> 'd backend \<Rightarrow>
    'd commit_result \<times> 'd backend" where
  "record_failure lease diagnostic detail s0 =
     (if l_purpose lease \<noteq> Deliver then (Rejected LeaseFenced, s0)
      else case consume_lease lease s0 of
        (Inl reason, s) \<Rightarrow> (Rejected reason, s)
      | (Inr _, s) \<Rightarrow>
          let ident = l_delivery lease;
              entry = (case bm_get (failures s) (delivery_key ident) of
                         Some record \<Rightarrow> record
                       | None \<Rightarrow> \<lparr>f_identity = ident, f_version = 0, f_attempts = 0, f_status = Failed,
                                  f_diagnostic = diagnostic, f_assertion_detail = detail\<rparr>);
              failure = entry\<lparr>f_identity := ident, f_version := f_version entry + 1,
                f_attempts := f_attempts entry + (if f_status entry \<noteq> Retrying then 1 else 0),
                f_status := Failed, f_diagnostic := diagnostic, f_assertion_detail := detail\<rparr>
          in (FailedResult failure, s\<lparr>failures := bm_insert (delivery_key ident) failure (failures s)\<rparr>))"

definition stream_fail :: "delivery_lease \<Rightarrow> safe_diagnostic \<Rightarrow> 'd backend \<Rightarrow> 'd commit_result \<times> 'd backend" where
  "stream_fail lease diagnostic s = record_failure lease diagnostic None s"

definition stream_fail_with_assertion :: "delivery_lease \<Rightarrow> safe_diagnostic \<Rightarrow> 'd \<Rightarrow> 'd backend \<Rightarrow>
    'd commit_result \<times> 'd backend" where
  "stream_fail_with_assertion lease supplied detail s =
     record_failure lease \<lparr>code = TableAssertionFalse, diag_class = diag_class supplied\<rparr> (Some detail) s"

definition stream_retry :: "delivery_identity \<Rightarrow> u64 \<Rightarrow> precondition \<Rightarrow> 'd backend \<Rightarrow> 'd commit_result \<times> 'd backend" where
  "stream_retry failure expected_version expected s0 =
     (let key = delivery_checkpoint_key failure
      in case checkpoint_matches key expected s0 of
           (False, s) \<Rightarrow> (Rejected StaleCheckpoint, s)
         | (True, s) \<Rightarrow>
             (case bm_get (failures s) (delivery_key failure) of
                None \<Rightarrow> (Rejected FailureMissing, s)
              | Some record \<Rightarrow>
                  if f_version record \<noteq> expected_version \<or> successor (f_identity record) \<noteq> successor failure
                  then (Rejected StaleFailure, s)
                  else if f_status record \<noteq> Failed then (Rejected RetryNotAllowed, s)
                  else if bm_contains (leases s) key then (Rejected LeaseAlreadyHeld, s)
                  else (case issue_lease key failure Deliver s of
                    (_, s1) \<Rightarrow>
                      let record' = record\<lparr>f_version := f_version record + 1, f_attempts := f_attempts record + 1,
                            f_status := Retrying\<rparr>
                      in (RetryScheduled record',
                          s1\<lparr>retry_claims := bs_insert key (retry_claims s1),
                             failures := bm_insert (delivery_key failure) record' (failures s1)\<rparr>))))"

definition set_failure_status :: "delivery_identity \<Rightarrow> failure_status \<Rightarrow> 'd backend \<Rightarrow> 'd backend" where
  "set_failure_status ident status s =
     (case bm_get (failures s) (delivery_key ident) of
        None \<Rightarrow> s
      | Some record \<Rightarrow>
          s\<lparr>failures := bm_insert (delivery_key ident)
              (record\<lparr>f_version := f_version record + 1, f_status := status\<rparr>) (failures s)\<rparr>)"

definition stream_complete :: "delivery_lease \<Rightarrow> precondition \<Rightarrow> 'd backend \<Rightarrow> 'd commit_result \<times> 'd backend" where
  "stream_complete lease expected s0 =
     (if l_purpose lease \<noteq> Deliver then (Rejected LeaseFenced, s0)
      else
        let key = delivery_checkpoint_key (l_delivery lease)
        in case checkpoint_matches key expected s0 of
             (False, s) \<Rightarrow> (Rejected StaleCheckpoint, s)
           | (True, s) \<Rightarrow>
               (case consume_lease lease s of
                  (Inl reason, s') \<Rightarrow> (Rejected reason, s')
                | (Inr _, s') \<Rightarrow>
                    (case advance (l_delivery lease) expected s' of
                       (CheckpointAdvanced c, s'') \<Rightarrow>
                         (CheckpointAdvanced c, set_failure_status (l_delivery lease) Succeeded s'')
                     | other \<Rightarrow> other)))"

definition stream_skip :: "delivery_lease \<Rightarrow> precondition \<Rightarrow> u64 \<Rightarrow> 'd backend \<Rightarrow> 'd commit_result \<times> 'd backend" where
  "stream_skip lease expected expected_failure_version s0 =
     (if l_purpose lease \<noteq> Skip_Purpose then (Rejected LeaseFenced, s0)
      else case bm_get (failures s0) (delivery_key (l_delivery lease)) of
        None \<Rightarrow> (Rejected FailureMissing, s0)
      | Some record \<Rightarrow>
          if f_version record \<noteq> expected_failure_version \<or> f_status record \<noteq> Failed \<or>
             successor (f_identity record) \<noteq> successor (l_delivery lease)
          then (Rejected StaleFailure, s0)
          else
            let key = delivery_checkpoint_key (l_delivery lease)
            in case checkpoint_matches key expected s0 of
                 (False, s) \<Rightarrow> (Rejected StaleCheckpoint, s)
               | (True, s) \<Rightarrow>
                   (case consume_lease lease s of
                      (Inl reason, s') \<Rightarrow> (Rejected reason, s')
                    | (Inr _, s') \<Rightarrow>
                        (case advance (l_delivery lease) expected s' of
                           (CheckpointAdvanced c, s'') \<Rightarrow>
                             (CheckpointAdvanced c, set_failure_status (l_delivery lease) Skipped s'')
                         | other \<Rightarrow> other)))"

definition stream_cancel :: "delivery_lease \<Rightarrow> 'd backend \<Rightarrow> 'd commit_result \<times> 'd backend" where
  "stream_cancel lease s0 =
     (case consume_lease lease s0 of
        (Inl reason, s) \<Rightarrow> (Rejected reason, s)
      | (Inr _, s) \<Rightarrow>
          let s' = (case bm_get (failures s) (delivery_key (l_delivery lease)) of
                      Some record \<Rightarrow>
                        if f_status record = Retrying then set_failure_status (l_delivery lease) Failed s else s
                    | None \<Rightarrow> s)
          in (CancelledResult (stream_checkpoint s' (delivery_checkpoint_key (l_delivery lease))), s'))"

section \<open>Replay intents\<close>

definition put_failure :: "delivery_identity \<Rightarrow> 'd failure_record \<Rightarrow> 'd backend \<Rightarrow> 'd backend" where
  "put_failure ident record s = s\<lparr>failures := bm_insert (delivery_key ident) record (failures s)\<rparr>"

definition stream_replay :: "delivery_identity \<Rightarrow> u64 \<Rightarrow> 'd backend \<Rightarrow> 'd commit_result \<times> 'd backend" where
  "stream_replay failure expected_version s =
     (case bm_get (failures s) (delivery_key failure) of
        None \<Rightarrow> (Rejected FailureMissing, s)
      | Some record \<Rightarrow>
          if f_version record \<noteq> expected_version then (Rejected StaleFailure, s)
          else if f_status record \<noteq> Skipped then (Rejected RetryNotAllowed, s)
          else let record' = record\<lparr>f_version := f_version record + 1, f_attempts := f_attempts record + 1,
                     f_status := Replaying\<rparr>
               in (ReplayGranted \<lparr>g_failure = failure, g_version = f_version record'\<rparr>, put_failure failure record' s))"

text \<open>
  The guards that the three terminal replay intents share; \<open>f\<close> is what each stores on success.
\<close>

definition finish_replay :: "delivery_identity \<Rightarrow> u64 \<Rightarrow> ('d failure_record \<Rightarrow> 'd failure_record) \<Rightarrow>
    ('d failure_record \<Rightarrow> 'd commit_result) \<Rightarrow> 'd backend \<Rightarrow> 'd commit_result \<times> 'd backend" where
  "finish_replay failure expected_version f answer s =
     (let replay_claimed = has_replay_claim s failure
      in case bm_get (failures s) (delivery_key failure) of
           None \<Rightarrow> (Rejected FailureMissing, s)
         | Some record \<Rightarrow>
             if f_version record \<noteq> expected_version then (Rejected StaleFailure, s)
             else if f_status record \<noteq> Replaying then (Rejected RetryNotAllowed, s)
             else if \<not> replay_claimed then (Rejected LeaseFenced, s)
             else let s' = s\<lparr>replay_claims := bs_remove (delivery_key failure) (replay_claims s)\<rparr>;
                      record' = f (record\<lparr>f_version := f_version record + 1\<rparr>)
                  in (answer record', put_failure failure record' s'))"

definition stream_replay_complete :: "delivery_identity \<Rightarrow> u64 \<Rightarrow> 'd backend \<Rightarrow> 'd commit_result \<times> 'd backend" where
  "stream_replay_complete failure expected_version s =
     finish_replay failure expected_version (\<lambda>record. record\<lparr>f_status := Replayed\<rparr>) ReplayCompleted s"

definition stream_replay_fail :: "delivery_identity \<Rightarrow> u64 \<Rightarrow> safe_diagnostic \<Rightarrow> 'd backend \<Rightarrow>
    'd commit_result \<times> 'd backend" where
  "stream_replay_fail failure expected_version diagnostic s =
     finish_replay failure expected_version
       (\<lambda>record. record\<lparr>f_status := Skipped, f_diagnostic := diagnostic, f_assertion_detail := None\<rparr>) ReplayFailed s"

definition stream_replay_fail_with_assertion :: "delivery_identity \<Rightarrow> u64 \<Rightarrow> safe_diagnostic \<Rightarrow> 'd \<Rightarrow> 'd backend \<Rightarrow>
    'd commit_result \<times> 'd backend" where
  "stream_replay_fail_with_assertion failure expected_version supplied detail s =
     finish_replay failure expected_version
       (\<lambda>record. record\<lparr>f_status := Skipped,
          f_diagnostic := \<lparr>code = TableAssertionFalse, diag_class = diag_class supplied\<rparr>,
          f_assertion_detail := Some detail\<rparr>) ReplayFailed s"

definition stream_replay_cancel :: "delivery_identity \<Rightarrow> u64 \<Rightarrow> 'd backend \<Rightarrow> 'd commit_result \<times> 'd backend" where
  "stream_replay_cancel failure expected_version s =
     (case bm_get (failures s) (delivery_key failure) of
        None \<Rightarrow> (Rejected FailureMissing, s)
      | Some record \<Rightarrow>
          if f_version record \<noteq> expected_version then (Rejected StaleFailure, s)
          else if f_status record \<noteq> Replaying then (Rejected RetryNotAllowed, s)
          else if bs_contains (replay_claims s) (delivery_key failure) then (Rejected LeaseAlreadyHeld, s)
          else let s' = s\<lparr>replay_claims := bs_remove (delivery_key failure) (replay_claims s)\<rparr>;
                   record' = record\<lparr>f_version := f_version record + 1, f_status := Skipped\<rparr>
               in (ReplayCancelled record', put_failure failure record' s'))"

definition stream_resolve :: "delivery_identity \<Rightarrow> u64 \<Rightarrow> 'd backend \<Rightarrow> 'd commit_result \<times> 'd backend" where
  "stream_resolve failure expected_version s =
     (case bm_get (failures s) (delivery_key failure) of
        None \<Rightarrow> (Rejected FailureMissing, s)
      | Some record \<Rightarrow>
          if f_version record \<noteq> expected_version then (Rejected StaleFailure, s)
          else if f_status record \<notin> {Succeeded, Skipped, Replayed} then (Rejected ResolveBlocked, s)
          else let record' = record\<lparr>f_version := f_version record + 1, f_status := Resolved\<rparr>
               in (ResolvedResult record', put_failure failure record' s))"

section \<open>Dispatch\<close>

fun stream_apply :: "'d commit_intent \<Rightarrow> 'd backend \<Rightarrow> 'd commit_result \<times> 'd backend" where
  "stream_apply (Pause key) s = stream_pause key s"
| "stream_apply (Resume key) s = stream_resume key s"
| "stream_apply (Reset key expected to) s = stream_reset key expected to s"
| "stream_apply (Acquire delivery expected purpose) s = stream_acquire delivery expected purpose s"
| "stream_apply (Fail lease diagnostic) s = stream_fail lease diagnostic s"
| "stream_apply (FailWithAssertion lease diagnostic detail) s = stream_fail_with_assertion lease diagnostic detail s"
| "stream_apply (Retry failure version expected) s = stream_retry failure version expected s"
| "stream_apply (Complete lease expected) s = stream_complete lease expected s"
| "stream_apply (Skip lease expected version) s = stream_skip lease expected version s"
| "stream_apply (Replay failure version) s = stream_replay failure version s"
| "stream_apply (ReplayComplete failure version) s = stream_replay_complete failure version s"
| "stream_apply (ReplayFail failure version diagnostic) s = stream_replay_fail failure version diagnostic s"
| "stream_apply (ReplayFailWithAssertion failure version diagnostic detail) s =
     stream_replay_fail_with_assertion failure version diagnostic detail s"
| "stream_apply (ReplayCancel failure version) s = stream_replay_cancel failure version s"
| "stream_apply (Resolve failure version) s = stream_resolve failure version s"
| "stream_apply (Cancel lease) s = stream_cancel lease s"

section \<open>The backend invariant\<close>

definition status_of :: "'d backend \<Rightarrow> delivery_row_key \<Rightarrow> failure_status option" where
  "status_of s dk = map_option f_status (bm_get (failures s) dk)"

definition blocked_by :: "'d backend \<Rightarrow> checkpoint_key \<Rightarrow> position \<Rightarrow> bool" where
  "blocked_by s k p \<longleftrightarrow> status_of s (k, p) = Some Failed \<or> status_of s (k, p) = Some Retrying"

definition backend_wf :: "'d backend \<Rightarrow> bool" where
  "backend_wf s \<longleftrightarrow> bm_wf (failures s) \<and> bm_wf (leases s) \<and> bs_wf (pause_requested s) \<and>
     bs_wf (retry_claims s) \<and> bs_wf (replay_claims s)"

definition rows_ok :: "'d backend \<Rightarrow> bool" where
  "rows_ok s \<longleftrightarrow>
     (\<forall>k c. bm_get (checkpoints s) k = Some c \<longrightarrow> cp_key c = k) \<and>
     (\<forall>dk f. bm_get (failures s) dk = Some f \<longrightarrow> delivery_key (f_identity f) = dk) \<and>
     (\<forall>k l. bm_get (leases s) k = Some l \<longrightarrow> delivery_checkpoint_key (l_delivery l) = k \<and> l_fence l = fence_of s k)"

definition order_ok :: "'d backend \<Rightarrow> bool" where
  "order_ok s \<longleftrightarrow>
     (\<forall>k p q. blocked_by s k p \<longrightarrow> blocked_by s k q \<longrightarrow> p = q) \<and>
     (\<forall>k l p. bm_get (leases s) k = Some l \<longrightarrow> blocked_by s k p \<longrightarrow> position (l_delivery l) = p) \<and>
     (\<forall>k p. status_of s (k, p) = Some Retrying \<longrightarrow>
        (\<exists>l. bm_get (leases s) k = Some l \<and> position (l_delivery l) = p \<and> l_purpose l = Deliver))"

definition claims_ok :: "'d backend \<Rightarrow> bool" where
  "claims_ok s \<longleftrightarrow>
     (\<forall>k \<in> set (pause_requested s). bm_get (leases s) k \<noteq> None \<and> stream_status_of s k = Running) \<and>
     (\<forall>k \<in> set (retry_claims s). bm_get (leases s) k \<noteq> None)"

definition stream_inv :: "'d backend \<Rightarrow> bool" where
  "stream_inv s \<longleftrightarrow> backend_wf s \<and> rows_ok s \<and> order_ok s \<and> claims_ok s"

lemmas inv_parts = backend_wf_def rows_ok_def order_ok_def claims_ok_def status_of_def blocked_by_def
  fence_of_def stream_status_of_def

lemma delivery_key_simps [simp]:
  "fst (delivery_key d) = delivery_checkpoint_key d" "snd (delivery_key d) = position d"
  by (simp_all add: delivery_key_def)

lemma delivery_eq_key: "delivery_eq a b \<longleftrightarrow> delivery_key a = delivery_key b"
  by (auto simp: delivery_eq_def delivery_key_def delivery_checkpoint_key_def)

lemma stream_inv_default: "stream_inv backend_default"
  by (simp add: stream_inv_def backend_default_def inv_parts)

subsection \<open>Checkpoint access\<close>

lemma stream_checkpoint_mut [simp]: "stream_checkpoint (checkpoint_mut k s) = stream_checkpoint s"
  by (auto simp: fun_eq_iff stream_checkpoint_def checkpoint_mut_def bm_get_insert split: option.splits)

lemma checkpoint_mut_fields [simp]:
  "streams (checkpoint_mut k s) = streams s" "failures (checkpoint_mut k s) = failures s"
  "leases (checkpoint_mut k s) = leases s" "pause_requested (checkpoint_mut k s) = pause_requested s"
  "next_fence (checkpoint_mut k s) = next_fence s" "retry_claims (checkpoint_mut k s) = retry_claims s"
  "replay_claims (checkpoint_mut k s) = replay_claims s"
  by (simp_all add: checkpoint_mut_def split: option.splits)

lemma checkpoint_mut_derived [simp]:
  "stream_status_of (checkpoint_mut k s) = stream_status_of s" "fence_of (checkpoint_mut k s) = fence_of s"
  "has_blocking_failure (checkpoint_mut k s) = has_blocking_failure s"
  "has_ordered_blocking_failure (checkpoint_mut k s) = has_ordered_blocking_failure s"
  "status_of (checkpoint_mut k s) = status_of s" "blocked_by (checkpoint_mut k s) = blocked_by s"
  by (simp_all add: fun_eq_iff stream_status_of_def fence_of_def has_blocking_failure_def
      has_ordered_blocking_failure_def status_of_def blocked_by_def)

lemma checkpoint_mut_inv: "stream_inv s \<Longrightarrow> stream_inv (checkpoint_mut k s)"
  unfolding stream_inv_def
  by (auto simp: backend_wf_def order_ok_def claims_ok_def rows_ok_def)
    (auto simp: checkpoint_mut_def checkpoint_fresh_def bm_get_insert split: option.splits if_splits)

lemma checkpoint_matches_eq:
  "checkpoint_matches key expected s = (expected = precondition_of (stream_checkpoint s key), checkpoint_mut key s)"
  by (cases expected) (auto simp: checkpoint_matches_def precondition_of_def Let_def)

lemma match_case:
  "(case checkpoint_matches key expected s of (False, t) \<Rightarrow> f t | (True, t) \<Rightarrow> g t) =
   (if expected = precondition_of (stream_checkpoint s key) then g (checkpoint_mut key s) else f (checkpoint_mut key s))"
  by (simp add: checkpoint_matches_eq)

lemma checkpoint_mut_twice [simp]: "checkpoint_mut k (checkpoint_mut k s) = checkpoint_mut k s"
  by (simp add: checkpoint_mut_def bm_get_insert split: option.splits)

lemma move_checkpoint_eq:
  "move_checkpoint key to s =
     (let c = stream_checkpoint s key; c' = c\<lparr>cp_committed := Some to, cp_version := cp_version c + 1\<rparr>
      in (c', (checkpoint_mut key s)\<lparr>checkpoints := bm_insert key c' (checkpoints (checkpoint_mut key s))\<rparr>))"
  by (simp add: move_checkpoint_def Let_def)

lemma stream_checkpoint_frame [simp]:
  "stream_checkpoint (s\<lparr>streams := a\<rparr>) = stream_checkpoint s"
  "stream_checkpoint (s\<lparr>failures := b\<rparr>) = stream_checkpoint s"
  "stream_checkpoint (s\<lparr>leases := c\<rparr>) = stream_checkpoint s"
  "stream_checkpoint (s\<lparr>pause_requested := d\<rparr>) = stream_checkpoint s"
  "stream_checkpoint (s\<lparr>next_fence := e\<rparr>) = stream_checkpoint s"
  "stream_checkpoint (s\<lparr>retry_claims := f\<rparr>) = stream_checkpoint s"
  "stream_checkpoint (s\<lparr>replay_claims := g\<rparr>) = stream_checkpoint s"
  by (simp_all add: fun_eq_iff stream_checkpoint_def)

lemma stream_checkpoint_insert [simp]:
  "stream_checkpoint (s\<lparr>checkpoints := bm_insert k c m\<rparr>) = (stream_checkpoint (s\<lparr>checkpoints := m\<rparr>))(k := c)"
  by (simp add: fun_eq_iff stream_checkpoint_def bm_get_insert)

lemma checkpoint_key_ok: "stream_inv s \<Longrightarrow> cp_key (stream_checkpoint s k) = k"
  by (auto simp: stream_inv_def rows_ok_def stream_checkpoint_def checkpoint_fresh_def split: option.splits)

lemma failure_row_key: "stream_inv s \<Longrightarrow> bm_get (failures s) dk = Some f \<Longrightarrow> delivery_key (f_identity f) = dk"
  unfolding stream_inv_def rows_ok_def by blast

lemma has_blocking_iff:
  assumes "stream_inv s"
  shows "has_blocking_failure s k \<longleftrightarrow> (\<exists>p. blocked_by s k p)"
proof -
  have wf: "bm_wf (failures s)" and keys: "\<And>dk f. bm_get (failures s) dk = Some f \<Longrightarrow> delivery_key (f_identity f) = dk"
    using assms by (auto simp: stream_inv_def backend_wf_def rows_ok_def)
  have "has_blocking_failure s k \<longleftrightarrow>
      (\<exists>dk f. bm_get (failures s) dk = Some f \<and> delivery_checkpoint_key (f_identity f) = k \<and> blocking (f_status f))"
    by (force simp: has_blocking_failure_def list_ex_iff bm_get_mem [OF wf, symmetric])
  also have "\<dots> \<longleftrightarrow> (\<exists>p. blocked_by s k p)"
    using keys by (fastforce simp: blocked_by_def status_of_def blocking_def delivery_key_def)
  finally show ?thesis .
qed

lemma has_ordered_blocking_eq: "has_ordered_blocking_failure = has_blocking_failure"
  by (simp add: fun_eq_iff has_ordered_blocking_failure_def has_blocking_failure_def)

subsection \<open>Elementary updates\<close>

lemma inv_put:
  assumes "stream_inv s" and "delivery_key (f_identity r) = delivery_key d"
    and "blocking (f_status r) \<Longrightarrow>
      \<exists>l. bm_get (leases s) (delivery_checkpoint_key d) = Some l \<and> position (l_delivery l) = position d \<and>
          (f_status r = Retrying \<longrightarrow> l_purpose l = Deliver)"
  shows "stream_inv (put_failure d r s)"
proof -
  have status: "status_of (put_failure d r s) = (status_of s)(delivery_key d \<mapsto> f_status r)"
    by (auto simp: fun_eq_iff status_of_def put_failure_def bm_get_insert)
  have blocked: "blocked_by (put_failure d r s) k p \<longleftrightarrow>
      (if (k, p) = delivery_key d then blocking (f_status r) else blocked_by s k p)" for k p
    by (auto simp: blocked_by_def status blocking_def)
  have "order_ok (put_failure d r s)"
    using assms(1,3) unfolding order_ok_def blocked status stream_inv_def
    by (auto simp: put_failure_def delivery_key_def blocking_def split: if_splits)
  moreover have "rows_ok (put_failure d r s) \<and> backend_wf (put_failure d r s) \<and> claims_ok (put_failure d r s)"
    using assms(1,2)
    by (auto simp: stream_inv_def rows_ok_def backend_wf_def claims_ok_def put_failure_def bm_get_insert bm_wf_insert
        fence_of_def stream_status_of_def split: if_splits)
  ultimately show ?thesis by (simp add: stream_inv_def)
qed

definition holds_lease :: "'d backend \<Rightarrow> delivery_lease \<Rightarrow> bool" where
  "holds_lease s lease \<longleftrightarrow>
     (case bm_get (leases s) (delivery_checkpoint_key (l_delivery lease)) of
        Some current \<Rightarrow> lease_eq current lease \<and> successor (l_delivery current) = successor (l_delivery lease)
      | None \<Rightarrow> False)"

definition drop_lease :: "checkpoint_key \<Rightarrow> 'd backend \<Rightarrow> 'd backend" where
  "drop_lease k s =
     s\<lparr>leases := bm_remove k (leases s), retry_claims := bs_remove k (retry_claims s),
       pause_requested := (if k \<in> set (pause_requested s) then bs_remove k (pause_requested s) else pause_requested s),
       streams := (if k \<in> set (pause_requested s) then bm_insert k Paused (streams s) else streams s)\<rparr>"

lemma consume_lease_eq:
  "consume_lease lease s =
     (if holds_lease s lease then (Ok (), drop_lease (delivery_checkpoint_key (l_delivery lease)) s)
      else (Err LeaseFenced, s))"
  by (simp add: consume_lease_def holds_lease_def drop_lease_def Let_def split: option.splits)

lemma holds_lease_delivery:
  "holds_lease s lease \<Longrightarrow> \<exists>l. bm_get (leases s) (delivery_checkpoint_key (l_delivery lease)) = Some l \<and>
     delivery_key (l_delivery l) = delivery_key (l_delivery lease) \<and> l_fence l = l_fence lease \<and>
     l_purpose l = l_purpose lease"
  by (auto simp: holds_lease_def lease_eq_def delivery_eq_key split: option.splits)

lemma drop_lease_fields [simp]:
  "failures (drop_lease k s) = failures s" "checkpoints (drop_lease k s) = checkpoints s"
  "next_fence (drop_lease k s) = next_fence s" "replay_claims (drop_lease k s) = replay_claims s"
  "fence_of (drop_lease k s) = fence_of s" "status_of (drop_lease k s) = status_of s"
  "blocked_by (drop_lease k s) = blocked_by s" "stream_checkpoint (drop_lease k s) = stream_checkpoint s"
  "stream_status_of (drop_lease k s) = (stream_status_of s)
     (k := if k \<in> set (pause_requested s) then Paused else stream_status_of s k)"
  by (simp_all add: drop_lease_def fun_eq_iff fence_of_def status_of_def blocked_by_def stream_checkpoint_def
      stream_status_of_def bm_get_insert)

lemma drop_lease_effect:
  assumes "backend_wf s"
  shows "bm_get (leases (drop_lease k s)) = (bm_get (leases s))(k := None)"
    and "set (retry_claims (drop_lease k s)) = set (retry_claims s) - {k}"
    and "set (pause_requested (drop_lease k s)) = set (pause_requested s) - {k}"
    and "backend_wf (drop_lease k s)"
  using assms
  by (auto simp: drop_lease_def backend_wf_def bm_get_remove set_bs_remove bm_wf_remove bs_wf_remove)

lemma inv_drop:
  assumes "stream_inv s" and "bm_get (leases s) k = Some l"
    and "status_of s (k, position (l_delivery l)) \<noteq> Some Retrying"
  shows "stream_inv (drop_lease k s)"
proof -
  have inv: "backend_wf s" "rows_ok s" "order_ok s" "claims_ok s" using assms(1) by (auto simp: stream_inv_def)
  note eff = drop_lease_effect [OF inv(1), of k]
  have "status_of s (k, p) \<noteq> Some Retrying" for p
    using inv(3) assms(2,3) unfolding order_ok_def by force
  with inv eff(1-3) have "rows_ok (drop_lease k s) \<and> order_ok (drop_lease k s) \<and> claims_ok (drop_lease k s)"
    unfolding rows_ok_def order_ok_def claims_ok_def by auto
  with eff(4) show ?thesis by (simp add: stream_inv_def)
qed

lemma put_drop_commute: "put_failure d r (drop_lease k s) = drop_lease k (put_failure d r s)"
  by (simp add: put_failure_def drop_lease_def)

text \<open>The terminal transitions of a lease: record an outcome of its delivery and drop the lease.\<close>

lemma inv_finish:
  assumes "stream_inv s" and "holds_lease s lease" and "delivery_key (f_identity r) = delivery_key (l_delivery lease)"
    and "f_status r \<noteq> Retrying"
  shows "stream_inv (put_failure (l_delivery lease) r (drop_lease (delivery_checkpoint_key (l_delivery lease)) s))"
proof -
  let ?k = "delivery_checkpoint_key (l_delivery lease)" and ?s = "put_failure (l_delivery lease) r s"
  obtain l where l: "bm_get (leases s) ?k = Some l" "position (l_delivery l) = position (l_delivery lease)"
    using holds_lease_delivery [OF assms(2)] by (auto simp: delivery_key_def)
  then have "stream_inv ?s" using assms(1,3,4) by (intro inv_put) auto
  moreover have "bm_get (leases ?s) ?k = Some l" "status_of ?s (?k, position (l_delivery l)) \<noteq> Some Retrying"
    using l assms(4) by (auto simp: put_failure_def status_of_def bm_get_insert delivery_key_def)
  ultimately show ?thesis by (simp add: put_drop_commute inv_drop)
qed

lemma inv_issue:
  assumes "issue_lease (delivery_checkpoint_key d) d purpose s = (lease, s')" and "stream_inv s"
    and "bm_get (leases s) (delivery_checkpoint_key d) = None"
    and "\<And>p. blocked_by s (delivery_checkpoint_key d) p \<Longrightarrow> p = position d"
  shows "stream_inv s'" and "bm_get (leases s') (delivery_checkpoint_key d) = Some lease"
    and "failures s' = failures s" and "l_delivery lease = d" and "l_purpose lease = purpose"
    and "retry_claims s' = retry_claims s" and "l_fence lease = fence_of s (delivery_checkpoint_key d) + 1"
proof -
  let ?k = "delivery_checkpoint_key d"
  have s': "s' = s\<lparr>next_fence := bm_insert ?k (fence_of s ?k + 1) (next_fence s), leases := bm_insert ?k lease (leases s)\<rparr>"
    and lease: "lease = \<lparr>l_delivery = d, l_fence = fence_of s ?k + 1, l_purpose = purpose\<rparr>"
    using assms(1) by (auto simp: issue_lease_def Let_def)
  have st: "status_of s' = status_of s" "blocked_by s' = blocked_by s" "stream_status_of s' = stream_status_of s"
    "fence_of s' = (fence_of s)(?k := fence_of s ?k + 1)"
    by (simp_all add: fun_eq_iff status_of_def blocked_by_def stream_status_of_def fence_of_def s' bm_get_insert)
  have "status_of s (?k, p) \<noteq> Some Retrying" for p
    using assms(2,3) unfolding stream_inv_def order_ok_def by (metis option.distinct(1))
  then have "rows_ok s' \<and> order_ok s' \<and> claims_ok s' \<and> backend_wf s'"
    using assms(2-4) unfolding rows_ok_def order_ok_def claims_ok_def backend_wf_def stream_inv_def st
    by (auto simp: s' lease bm_get_insert bm_wf_insert)
  then show "stream_inv s'" by (simp add: stream_inv_def)
qed (use assms(1) in \<open>auto simp: issue_lease_def Let_def bm_get_insert\<close>)

lemma inv_reissue:
  assumes "stream_inv s" and "bm_get (leases s) (delivery_checkpoint_key d) = Some existing"
    and "status_of s (delivery_key d) = Some Retrying"
  shows "stream_inv (s\<lparr>retry_claims := bs_remove (delivery_checkpoint_key d) (retry_claims s),
    leases := bm_insert (delivery_checkpoint_key d)
      \<lparr>l_delivery = d, l_fence = l_fence existing, l_purpose = l_purpose existing\<rparr> (leases s)\<rparr>)"
    (is "stream_inv ?s'")
proof -
  have st: "status_of ?s' = status_of s" "blocked_by ?s' = blocked_by s" "stream_status_of ?s' = stream_status_of s"
    "fence_of ?s' = fence_of s"
    by (simp_all add: fun_eq_iff status_of_def blocked_by_def stream_status_of_def fence_of_def)
  have inv: "backend_wf s" "rows_ok s" "order_ok s" "claims_ok s" using assms(1) by (auto simp: stream_inv_def)
  have blocked: "blocked_by s (delivery_checkpoint_key d) (position d)"
    using assms(3) by (simp add: blocked_by_def delivery_key_def)
  have "rows_ok ?s' \<and> claims_ok ?s' \<and> backend_wf ?s'"
    using inv assms(2) unfolding rows_ok_def claims_ok_def st
    by (auto simp: backend_wf_def bm_get_insert bm_wf_insert bs_wf_remove set_bs_remove)
  moreover have "order_ok ?s'"
    using inv(3) assms(2) blocked unfolding order_ok_def st
    by (auto simp: bm_get_insert split: if_splits) (metis option.inject)+
  ultimately show ?thesis by (simp add: stream_inv_def)
qed

lemma inv_streams:
  assumes "stream_inv s" and "bm_get (leases s) k = None"
  shows "stream_inv (s\<lparr>streams := bm_insert k st (streams s)\<rparr>)"
proof -
  have "k \<notin> set (pause_requested s)" using assms by (auto simp: stream_inv_def claims_ok_def)
  with assms show ?thesis
    by (auto simp: stream_inv_def inv_parts bm_get_insert)
qed

lemma inv_request_pause:
  assumes "stream_inv s" and "bm_get (leases s) k \<noteq> None" and "stream_status_of s k = Running"
  shows "stream_inv (s\<lparr>pause_requested := bs_insert k (pause_requested s)\<rparr>)"
  using assms by (auto simp: stream_inv_def inv_parts bs_wf_insert)

lemma inv_checkpoints:
  assumes "stream_inv s" and "cp_key c = k"
  shows "stream_inv (s\<lparr>checkpoints := bm_insert k c (checkpoints s)\<rparr>)"
  using assms by (auto simp: stream_inv_def inv_parts bm_get_insert)

lemma inv_replay_claims:
  "stream_inv s \<Longrightarrow> bs_wf rc \<Longrightarrow> stream_inv (s\<lparr>replay_claims := rc\<rparr>)"
  by (auto simp: stream_inv_def inv_parts)

lemma inv_retry_claims:
  "stream_inv s \<Longrightarrow> bm_get (leases s) k \<noteq> None \<Longrightarrow> stream_inv (s\<lparr>retry_claims := bs_insert k (retry_claims s)\<rparr>)"
  by (auto simp: stream_inv_def inv_parts bs_wf_insert)

subsection \<open>Every intent keeps the invariant\<close>

lemma move_inv: "stream_inv s \<Longrightarrow> move_checkpoint k to s = (c, s') \<Longrightarrow> stream_inv s'"
  by (auto simp: move_checkpoint_eq Let_def intro!: inv_checkpoints checkpoint_mut_inv simp: checkpoint_key_ok)

lemma set_failure_status_inv:
  assumes "stream_inv s" and "bm_get (failures s) (delivery_key d) = Some r"
    and "stream_inv (put_failure d (r\<lparr>f_version := f_version r + 1, f_status := st\<rparr>) s)"
  shows "stream_inv (set_failure_status d st s)"
  using assms by (simp add: set_failure_status_def put_failure_def)

lemmas mut_invs = checkpoint_mut_inv inv_streams [OF checkpoint_mut_inv, simplified]
  inv_request_pause [OF checkpoint_mut_inv, simplified]

lemma pause_inv: "stream_inv s \<Longrightarrow> stream_inv (snd (stream_pause k s))"
  by (cases "stream_status_of s k") (auto simp: stream_pause_def Let_def bm_contains_get mut_invs)

lemma resume_inv: "stream_inv s \<Longrightarrow> stream_inv (snd (stream_resume k s))"
  by (auto simp: stream_resume_def Let_def bm_contains_get mut_invs)

lemma reset_inv:
  assumes "stream_inv s"
  shows "stream_inv (snd (stream_reset k expected to s))"
proof -
  obtain c s' where mv: "move_checkpoint k to (checkpoint_mut k s) = (c, s')" by fastforce
  with assms move_inv [OF checkpoint_mut_inv [OF assms] mv] show ?thesis
    by (simp add: stream_reset_def Let_def match_case checkpoint_mut_inv)
qed

lemma finish_replay_inv:
  assumes "stream_inv s" and "\<And>r. f_identity (f r) = f_identity r" and "\<And>r. \<not> blocking (f_status (f r))"
  shows "stream_inv (snd (finish_replay d v f answer s))"
proof (cases "bm_get (failures s) (delivery_key d)")
  case (Some r)
  then have "delivery_key (f_identity r) = delivery_key d"
    by (rule failure_row_key [OF assms(1)])
  moreover have "bs_wf (replay_claims s)" using assms(1) by (simp add: stream_inv_def backend_wf_def)
  ultimately show ?thesis
    using assms Some
    by (auto simp: finish_replay_def Let_def intro!: inv_put inv_replay_claims bs_wf_remove)
qed (use assms(1) in \<open>simp add: finish_replay_def Let_def\<close>)

lemma replay_inv: "stream_inv s \<Longrightarrow> stream_inv (snd (stream_replay d v s))"
  by (auto simp: stream_replay_def Let_def failure_row_key blocking_def intro!: inv_put split: option.splits)

lemma replay_cancel_inv:
  assumes "stream_inv s"
  shows "stream_inv (snd (stream_replay_cancel d v s))"
proof -
  have "bs_wf (replay_claims s)" using assms by (simp add: stream_inv_def backend_wf_def)
  with assms show ?thesis
    by (auto simp: stream_replay_cancel_def Let_def failure_row_key blocking_def
        intro!: inv_put inv_replay_claims bs_wf_remove split: option.splits)
qed

lemma resolve_inv: "stream_inv s \<Longrightarrow> stream_inv (snd (stream_resolve d v s))"
  by (auto simp: stream_resolve_def Let_def failure_row_key blocking_def intro!: inv_put split: option.splits)

lemma record_failure_inv:
  assumes "stream_inv s"
  shows "stream_inv (snd (record_failure lease diagnostic detail s))"
  using assms inv_finish [OF assms]
  by (auto simp: record_failure_def consume_lease_eq put_failure_def Let_def split: option.splits)

text \<open>What \<open>Complete\<close> and \<open>Skip\<close> do after their guards: drop the lease, move the checkpoint, record the outcome.\<close>

lemma drop_mut_commute: "drop_lease k (checkpoint_mut j s) = checkpoint_mut j (drop_lease k s)"
  by (simp add: drop_lease_def checkpoint_mut_def split: option.splits)

lemma advance_eq:
  "advance d expected s =
     (if expected = precondition_of (stream_checkpoint s (delivery_checkpoint_key d))
      then (case move_checkpoint (delivery_checkpoint_key d) (successor d) (checkpoint_mut (delivery_checkpoint_key d) s)
              of (c, t) \<Rightarrow> (CheckpointAdvanced c, t))
      else (Rejected StaleCheckpoint, checkpoint_mut (delivery_checkpoint_key d) s))"
  by (simp add: advance_def Let_def match_case)

lemma inv_put_move:
  assumes "stream_inv (put_failure d r s)"
  shows "stream_inv (put_failure d r (snd (move_checkpoint k to s)))"
proof -
  have "put_failure d r (snd (move_checkpoint k to s)) = snd (move_checkpoint k to (put_failure d r s))"
    by (auto simp: put_failure_def move_checkpoint_def checkpoint_mut_def stream_checkpoint_def Let_def
        split: option.splits)
  with move_inv [OF assms, of k to] show ?thesis by (cases "move_checkpoint k to (put_failure d r s)") simp
qed

lemma put_mut_commute: "put_failure d r (checkpoint_mut j s) = checkpoint_mut j (put_failure d r s)"
  by (simp add: put_failure_def checkpoint_mut_def split: option.splits)

lemma inv_settle:
  assumes "stream_inv s" and "holds_lease s lease" and "st \<noteq> Retrying"
    and "t = snd (move_checkpoint k to (checkpoint_mut j (drop_lease (delivery_checkpoint_key (l_delivery lease)) s)))"
  shows "stream_inv (set_failure_status (l_delivery lease) st t)"
proof (cases "bm_get (failures s) (delivery_key (l_delivery lease))")
  case None
  obtain l where l: "bm_get (leases s) (delivery_checkpoint_key (l_delivery lease)) = Some l"
    "delivery_key (l_delivery l) = delivery_key (l_delivery lease)"
    using holds_lease_delivery [OF assms(2)] by auto
  have "stream_inv (drop_lease (delivery_checkpoint_key (l_delivery lease)) s)"
    using None l by (intro inv_drop [OF assms(1) l(1)]) (auto simp: status_of_def delivery_key_def)
  then have "stream_inv t"
    unfolding assms(4) by (metis checkpoint_mut_inv move_inv prod.collapse)
  moreover have "failures t = failures s" by (simp add: assms(4) move_checkpoint_eq Let_def)
  ultimately show ?thesis using None by (simp add: set_failure_status_def)
next
  case (Some r)
  let ?r = "r\<lparr>f_version := f_version r + 1, f_status := st\<rparr>"
  have "stream_inv (put_failure (l_delivery lease) ?r (drop_lease (delivery_checkpoint_key (l_delivery lease)) s))"
    using failure_row_key [OF assms(1) Some] assms(3) by (intro inv_finish [OF assms(1,2)]) simp_all
  then have "stream_inv (put_failure (l_delivery lease) ?r t)"
    unfolding assms(4) by (intro inv_put_move) (simp add: put_mut_commute checkpoint_mut_inv)
  moreover have "failures t = failures s" by (simp add: assms(4) move_checkpoint_eq Let_def)
  ultimately show ?thesis using Some by (simp add: set_failure_status_def put_failure_def)
qed

lemma holds_lease_mut [simp]: "holds_lease (checkpoint_mut k s) = holds_lease s"
  by (simp add: fun_eq_iff holds_lease_def)

text \<open>
  \<open>Complete\<close> and \<open>Skip\<close> succeed exactly when their guards hold; the second comparison inside
  \<open>advance\<close> cannot fail then.
\<close>

definition settle :: "delivery_lease \<Rightarrow> failure_status \<Rightarrow> 'd backend \<Rightarrow> 'd commit_result \<times> 'd backend" where
  "settle lease st s =
     (let k = delivery_checkpoint_key (l_delivery lease);
          c = stream_checkpoint s k
      in (CheckpointAdvanced (c\<lparr>cp_committed := Some (successor (l_delivery lease)), cp_version := cp_version c + 1\<rparr>),
          set_failure_status (l_delivery lease) st
            (snd (move_checkpoint k (successor (l_delivery lease)) (checkpoint_mut k (drop_lease k s))))))"

lemma complete_eq:
  "stream_complete lease expected s =
     (if l_purpose lease \<noteq> Deliver then (Rejected LeaseFenced, s)
      else if expected \<noteq> precondition_of (stream_checkpoint s (delivery_checkpoint_key (l_delivery lease)))
      then (Rejected StaleCheckpoint, checkpoint_mut (delivery_checkpoint_key (l_delivery lease)) s)
      else if \<not> holds_lease s lease
      then (Rejected LeaseFenced, checkpoint_mut (delivery_checkpoint_key (l_delivery lease)) s)
      else settle lease Succeeded s)"
  by (simp add: stream_complete_def Let_def match_case consume_lease_eq advance_eq settle_def drop_mut_commute
      move_checkpoint_eq)

lemma skip_eq:
  "stream_skip lease expected v s =
     (if l_purpose lease \<noteq> Skip_Purpose then (Rejected LeaseFenced, s)
      else case bm_get (failures s) (delivery_key (l_delivery lease)) of
        None \<Rightarrow> (Rejected FailureMissing, s)
      | Some record \<Rightarrow>
          if f_version record \<noteq> v \<or> f_status record \<noteq> Failed \<or>
             successor (f_identity record) \<noteq> successor (l_delivery lease)
          then (Rejected StaleFailure, s)
          else if expected \<noteq> precondition_of (stream_checkpoint s (delivery_checkpoint_key (l_delivery lease)))
          then (Rejected StaleCheckpoint, checkpoint_mut (delivery_checkpoint_key (l_delivery lease)) s)
          else if \<not> holds_lease s lease
          then (Rejected LeaseFenced, checkpoint_mut (delivery_checkpoint_key (l_delivery lease)) s)
          else settle lease Skipped s)"
  by (simp add: stream_skip_def Let_def match_case consume_lease_eq advance_eq settle_def drop_mut_commute
      move_checkpoint_eq split: option.splits)

lemma settle_inv: "stream_inv s \<Longrightarrow> holds_lease s lease \<Longrightarrow> st \<noteq> Retrying \<Longrightarrow> stream_inv (snd (settle lease st s))"
  by (simp add: settle_def Let_def inv_settle [OF _ _ _ refl])

lemma complete_inv: "stream_inv s \<Longrightarrow> stream_inv (snd (stream_complete lease expected s))"
  by (simp add: complete_eq settle_inv checkpoint_mut_inv)

lemma skip_inv: "stream_inv s \<Longrightarrow> stream_inv (snd (stream_skip lease expected v s))"
  by (simp add: skip_eq settle_inv checkpoint_mut_inv split: option.splits)

lemma cancel_inv:
  assumes "stream_inv s"
  shows "stream_inv (snd (stream_cancel lease s))"
proof (cases "holds_lease s lease")
  case True
  obtain l where l: "bm_get (leases s) (delivery_checkpoint_key (l_delivery lease)) = Some l"
    "delivery_key (l_delivery l) = delivery_key (l_delivery lease)"
    using holds_lease_delivery [OF True] by auto
  have "status_of s (delivery_key (l_delivery lease)) \<noteq> Some Retrying \<Longrightarrow>
      stream_inv (drop_lease (delivery_checkpoint_key (l_delivery lease)) s)"
    using l by (intro inv_drop [OF assms l(1)]) (simp add: delivery_key_def)
  with True assms show ?thesis
    by (auto simp: stream_cancel_def consume_lease_eq Let_def status_of_def set_failure_status_def failure_row_key
        split: option.splits intro!: inv_finish [unfolded put_failure_def drop_lease_fields])
qed (use assms in \<open>simp add: stream_cancel_def consume_lease_eq\<close>)

lemma blocked_owner:
  assumes "stream_inv s" and "status_of s (delivery_key d) = Some Failed \<or> status_of s (delivery_key d) = Some Retrying"
    and "blocked_by s (delivery_checkpoint_key d) p"
  shows "p = position d"
proof -
  have "blocked_by s (delivery_checkpoint_key d) (position d)"
    using assms(2) by (simp add: blocked_by_def delivery_key_def)
  with assms(1,3) show ?thesis unfolding stream_inv_def order_ok_def by metis
qed

lemma retry_inv:
  assumes "stream_inv s"
  shows "stream_inv (snd (stream_retry d v expected s))"
proof -
  let ?k = "delivery_checkpoint_key d" and ?s = "checkpoint_mut (delivery_checkpoint_key d) s"
  obtain lease s1 where issue: "issue_lease ?k d Deliver ?s = (lease, s1)" by fastforce
  have "stream_inv (snd (stream_retry d v expected s))"
    if r: "bm_get (failures s) (delivery_key d) = Some r" "f_status r = Failed" "bm_get (leases s) ?k = None" for r
  proof -
    have "status_of s (delivery_key d) = Some Failed" using r by (simp add: status_of_def)
    then have iss: "stream_inv s1" "bm_get (leases s1) ?k = Some lease" "failures s1 = failures s"
      "l_delivery lease = d" "l_purpose lease = Deliver"
      using inv_issue [OF issue checkpoint_mut_inv [OF assms]] r blocked_owner [OF assms] by auto
    let ?r = "r\<lparr>f_version := f_version r + 1, f_attempts := f_attempts r + 1, f_status := Retrying\<rparr>"
    have "stream_inv (put_failure d ?r (s1\<lparr>retry_claims := bs_insert ?k (retry_claims s1)\<rparr>))"
      using iss failure_row_key [OF assms r(1)]
      by (intro inv_put inv_retry_claims) auto
    then show ?thesis
      using r issue iss assms
      by (auto simp: stream_retry_def Let_def match_case put_failure_def bm_contains_get checkpoint_mut_inv)
  qed
  then show ?thesis
    using assms by (auto simp: stream_retry_def Let_def match_case bm_contains_get checkpoint_mut_inv split: option.splits)
qed

lemma acquire_inv:
  assumes "stream_inv s"
  shows "stream_inv (snd (stream_acquire d expected purpose s))"
proof -
  let ?k = "delivery_checkpoint_key d" and ?s = "checkpoint_mut (delivery_checkpoint_key d) s"
  have st: "map_option f_status (bm_get (failures s) (delivery_key d)) = status_of s (delivery_key d)"
    by (simp add: status_of_def)
  have mut: "stream_inv ?s" by (rule checkpoint_mut_inv [OF assms])
  obtain lease s1 where issue: "issue_lease ?k d purpose ?s = (lease, s1)" by fastforce
  have "stream_inv s1"
    if "bm_get (leases s) ?k = None"
      "\<not> has_blocking_failure s ?k \<or> authorised_blocking_delivery purpose (status_of s (delivery_key d))"
  proof -
    have "p = position d" if "blocked_by s ?k p" for p
      using \<open>_ \<or> _\<close>
    proof
      assume "\<not> has_blocking_failure s ?k"
      with that show ?thesis using has_blocking_iff [OF assms] by blast
    next
      assume "authorised_blocking_delivery purpose (status_of s (delivery_key d))"
      then have "status_of s (delivery_key d) = Some Failed \<or> status_of s (delivery_key d) = Some Retrying"
        by (cases "(purpose, status_of s (delivery_key d))" rule: authorised_blocking_delivery.cases) auto
      with that show ?thesis using blocked_owner [OF assms] by blast
    qed
    with inv_issue(1) [OF issue mut] \<open>bm_get (leases s) ?k = None\<close> show ?thesis by simp
  qed
  moreover have "stream_inv (?s\<lparr>retry_claims := bs_remove ?k (retry_claims s), leases := bm_insert ?k
      \<lparr>l_delivery = d, l_fence = l_fence existing, l_purpose = l_purpose existing\<rparr> (leases s)\<rparr>)"
    if "bm_get (leases s) ?k = Some existing" "status_of s (delivery_key d) = Some Retrying" for existing
    using inv_reissue [OF mut, of d existing] that by simp
  ultimately show ?thesis
    using mut issue
    by (auto simp: stream_acquire_def Let_def match_case st has_ordered_blocking_eq split: option.splits)
qed

lemma stream_apply_inv: "stream_inv s \<Longrightarrow> stream_inv (snd (stream_apply i s))"
  by (cases i)
    (simp_all add: pause_inv resume_inv reset_inv acquire_inv retry_inv complete_inv skip_inv replay_inv
      replay_cancel_inv resolve_inv cancel_inv record_failure_inv stream_fail_def stream_fail_with_assertion_def
      stream_replay_complete_def stream_replay_fail_def stream_replay_fail_with_assertion_def
      finish_replay_inv blocking_def)

lemma claim_replay_inv:
  assumes "stream_inv s"
  shows "stream_inv (snd (claim_replay g s))"
proof -
  have "bs_wf (replay_claims s)" using assms by (simp add: stream_inv_def backend_wf_def)
  with assms show ?thesis
    by (auto simp: claim_replay_def intro!: inv_replay_claims bs_wf_insert split: option.splits)
qed

section \<open>Reachable backends\<close>

inductive stream_reachable :: "'d backend \<Rightarrow> bool" where
  reach_fresh: "stream_reachable backend_default"
| reach_apply: "stream_reachable s \<Longrightarrow> stream_reachable (snd (stream_apply i s))"
| reach_claim: "stream_reachable s \<Longrightarrow> stream_reachable (snd (claim_replay g s))"

lemma stream_reachable_inv: "stream_reachable s \<Longrightarrow> stream_inv s"
  by (induction rule: stream_reachable.induct)
    (simp_all add: stream_inv_default stream_apply_inv claim_replay_inv)

section \<open>Effects on checkpoints\<close>

fun moved :: "'d commit_result \<Rightarrow> checkpoint option" where
  "moved (CheckpointAdvanced c) = Some c"
| "moved (CheckpointReset c) = Some c"
| "moved _ = None"

fun authorised_move :: "'d backend \<Rightarrow> 'd commit_intent \<Rightarrow> checkpoint \<Rightarrow> bool" where
  "authorised_move s (Complete lease expected) c \<longleftrightarrow>
     l_purpose lease = Deliver \<and> holds_lease s lease \<and> cp_key c = delivery_checkpoint_key (l_delivery lease) \<and>
     expected = precondition_of (stream_checkpoint s (cp_key c)) \<and> cp_committed c = Some (successor (l_delivery lease))"
| "authorised_move s (Skip lease expected v) c \<longleftrightarrow>
     l_purpose lease = Skip_Purpose \<and> holds_lease s lease \<and> cp_key c = delivery_checkpoint_key (l_delivery lease) \<and>
     status_of s (delivery_key (l_delivery lease)) = Some Failed \<and>
     expected = precondition_of (stream_checkpoint s (cp_key c)) \<and> cp_committed c = Some (successor (l_delivery lease))"
| "authorised_move s (Reset key expected to) c \<longleftrightarrow>
     stream_status_of s key = Paused \<and> bm_get (leases s) key = None \<and> (\<nexists>p. blocked_by s key p) \<and> cp_key c = key \<and>
     expected = precondition_of (stream_checkpoint s (cp_key c)) \<and> cp_committed c = Some to"
| "authorised_move s _ c \<longleftrightarrow> False"

lemma put_failure_checkpoint [simp]: "stream_checkpoint (put_failure d r s) = stream_checkpoint s"
  by (simp add: put_failure_def)

lemma set_failure_status_checkpoint [simp]: "stream_checkpoint (set_failure_status d st s) = stream_checkpoint s"
  by (simp add: set_failure_status_def split: option.splits)

lemma issue_lease_checkpoint [simp]: "stream_checkpoint (snd (issue_lease k d p s)) = stream_checkpoint s"
  by (simp add: issue_lease_def Let_def)

lemma move_checkpoint_checkpoint:
  "stream_checkpoint (snd (move_checkpoint k to s)) = (stream_checkpoint s)(k := fst (move_checkpoint k to s))"
proof -
  have "stream_checkpoint (t\<lparr>checkpoints := checkpoints t\<rparr>) = stream_checkpoint t" for t :: "'a backend"
    by simp
  from this [of "checkpoint_mut k s"] show ?thesis by (simp add: move_checkpoint_eq Let_def)
qed

lemma move_checkpoint_fst:
  "fst (move_checkpoint k to s) =
     (stream_checkpoint s k)\<lparr>cp_committed := Some to, cp_version := cp_version (stream_checkpoint s k) + 1\<rparr>"
  by (simp add: move_checkpoint_eq Let_def)

definition checkpoint_effect :: "'d commit_intent \<Rightarrow> 'd backend \<Rightarrow> 'd commit_result \<times> 'd backend \<Rightarrow> bool" where
  "checkpoint_effect i s out \<longleftrightarrow>
     (case moved (fst out) of
        None \<Rightarrow> stream_checkpoint (snd out) = stream_checkpoint s
      | Some c \<Rightarrow> authorised_move s i c \<and>
          stream_checkpoint (snd out) = (stream_checkpoint s)(cp_key c := c) \<and>
          cp_version c = cp_version (stream_checkpoint s (cp_key c)) + 1)"

lemma settle_effect:
  assumes "stream_inv s"
  shows "moved (fst (settle lease st s)) = Some (let c = stream_checkpoint s (delivery_checkpoint_key (l_delivery lease))
      in c\<lparr>cp_committed := Some (successor (l_delivery lease)), cp_version := cp_version c + 1\<rparr>)"
    and "stream_checkpoint (snd (settle lease st s)) = (stream_checkpoint s)(delivery_checkpoint_key (l_delivery lease) :=
      the (moved (fst (settle lease st s))))"
  by (simp_all add: settle_def Let_def move_checkpoint_checkpoint move_checkpoint_fst)

lemma checkpoint_effect_keep [simp]:
  "checkpoint_effect i s (Rejected r, t) \<longleftrightarrow> stream_checkpoint t = stream_checkpoint s"
  by (simp add: checkpoint_effect_def)

lemma stream_apply_effect:
  assumes "stream_inv s"
  shows "checkpoint_effect i s (stream_apply i s)"
proof (cases i)
  case (Complete lease expected)
  then show ?thesis
    using settle_effect [OF assms, of lease Succeeded] assms
    by (simp add: complete_eq checkpoint_effect_def checkpoint_key_ok Let_def)
next
  case (Skip lease expected v)
  then show ?thesis
    using settle_effect [OF assms, of lease Skipped] assms
    by (simp add: skip_eq checkpoint_effect_def checkpoint_key_ok Let_def status_of_def split: option.splits)
next
  case (Reset key expected to)
  have "checkpoint_effect i s (CheckpointReset (fst (move_checkpoint key to (checkpoint_mut key s))),
      snd (move_checkpoint key to (checkpoint_mut key s)))"
    if "stream_status_of s key = Paused" "bm_get (leases s) key = None" "\<not> has_blocking_failure s key"
      "expected = precondition_of (stream_checkpoint s key)"
    using that has_blocking_iff [OF assms, of key] assms Reset
    by (simp add: checkpoint_effect_def move_checkpoint_checkpoint move_checkpoint_fst checkpoint_key_ok)
  with Reset show ?thesis
    by (simp add: stream_reset_def Let_def checkpoint_matches_eq split_beta bm_contains_get split: bool.splits)
qed (simp_all add: checkpoint_effect_def stream_pause_def stream_resume_def stream_acquire_def stream_retry_def
    stream_fail_def stream_fail_with_assertion_def record_failure_def stream_cancel_def stream_replay_def
    stream_replay_complete_def stream_replay_fail_def stream_replay_fail_with_assertion_def finish_replay_def
    stream_replay_cancel_def stream_resolve_def consume_lease_eq match_case issue_lease_def Let_def
    split: option.splits)

section \<open>Effects on failures\<close>

text \<open>The statuses a delivery can have while a lease for it is out.\<close>

fun lease_fits :: "lease_purpose \<Rightarrow> failure_status option \<Rightarrow> bool" where
  "lease_fits Deliver None = True"
| "lease_fits Deliver (Some st) = (st = Retrying \<or> st = Succeeded \<or> st = Resolved)"
| "lease_fits Skip_Purpose st = (st = Some Failed)"

definition leases_fit :: "'d backend \<Rightarrow> bool" where
  "leases_fit s \<longleftrightarrow>
     (\<forall>k l. bm_get (leases s) k = Some l \<longrightarrow> lease_fits (l_purpose l) (status_of s (k, position (l_delivery l))))"

lemma leases_fit_mut [simp]: "leases_fit (checkpoint_mut k s) = leases_fit s"
  by (simp add: leases_fit_def)

lemma leases_fit_frame [simp]:
  "leases_fit (s\<lparr>checkpoints := a\<rparr>) = leases_fit s" "leases_fit (s\<lparr>streams := b\<rparr>) = leases_fit s"
  "leases_fit (s\<lparr>pause_requested := c\<rparr>) = leases_fit s" "leases_fit (s\<lparr>retry_claims := d\<rparr>) = leases_fit s"
  "leases_fit (s\<lparr>replay_claims := e\<rparr>) = leases_fit s" "leases_fit (s\<lparr>next_fence := f\<rparr>) = leases_fit s"
  by (simp_all add: leases_fit_def status_of_def)

lemma leases_fit_put:
  assumes "leases_fit s" and "bm_get (failures s) (delivery_key d) = Some r"
    and "\<And>p. lease_fits p (Some (f_status r)) \<Longrightarrow> lease_fits p (Some (f_status r'))"
  shows "leases_fit (put_failure d r' s)"
  unfolding leases_fit_def
proof (intro allI impI)
  fix k l assume "bm_get (leases (put_failure d r' s)) k = Some l"
  then have "lease_fits (l_purpose l) (status_of s (k, position (l_delivery l)))"
    using assms(1) by (simp add: leases_fit_def put_failure_def)
  with assms(2,3) show "lease_fits (l_purpose l) (status_of (put_failure d r' s) (k, position (l_delivery l)))"
    by (cases "(k, position (l_delivery l)) = delivery_key d") (auto simp: status_of_def put_failure_def bm_get_insert)
qed

lemma leases_fit_drop_put:
  assumes "leases_fit s" and "stream_inv s" and "k = delivery_checkpoint_key d"
  shows "leases_fit (drop_lease k s)" and "leases_fit (put_failure d r (drop_lease k s))"
proof -
  have wf: "backend_wf s" using assms(2) by (simp add: stream_inv_def)
  show "leases_fit (drop_lease k s)"
    using assms(1) drop_lease_effect(1) [OF wf, of k] by (auto simp: leases_fit_def)
  then show "leases_fit (put_failure d r (drop_lease k s))"
    using drop_lease_effect(1) [OF wf, of k] assms(3)
    unfolding leases_fit_def by (auto simp: put_failure_def status_of_def bm_get_insert delivery_key_def)
qed

lemma leases_fit_issue:
  assumes "leases_fit s" and "lease_fits purpose (status_of s (delivery_key d))"
  shows "leases_fit (snd (issue_lease (delivery_checkpoint_key d) d purpose s))"
  using assms
  by (auto simp: leases_fit_def issue_lease_def Let_def bm_get_insert status_of_def delivery_key_def)

lemma acquire_allowed_fits: "acquire_allowed purpose st \<Longrightarrow> lease_fits purpose (Some st)"
  by (cases "(purpose, st)" rule: acquire_allowed.cases) auto

lemma set_failure_status_put:
  "set_failure_status d st s = (case bm_get (failures s) (delivery_key d) of None \<Rightarrow> s
     | Some r \<Rightarrow> put_failure d (r\<lparr>f_version := f_version r + 1, f_status := st\<rparr>) s)"
  by (simp add: set_failure_status_def put_failure_def split: option.splits)

lemma move_checkpoint_snd:
  "snd (move_checkpoint k to s) = (checkpoint_mut k s)
     \<lparr>checkpoints := bm_insert k (fst (move_checkpoint k to s)) (checkpoints (checkpoint_mut k s))\<rparr>"
  by (simp add: move_checkpoint_eq Let_def)

lemma leases_fit_settle: "leases_fit s \<Longrightarrow> stream_inv s \<Longrightarrow> leases_fit (snd (settle lease st s))"
  using leases_fit_drop_put [of s "delivery_checkpoint_key (l_delivery lease)" "l_delivery lease"]
  by (simp add: settle_def Let_def set_failure_status_put move_checkpoint_snd put_failure_def split: option.splits)
    (simp add: leases_fit_def status_of_def)

lemma retrying_lease:
  "stream_inv s \<Longrightarrow> status_of s (delivery_key d) = Some Retrying \<Longrightarrow>
   bm_get (leases s) (delivery_checkpoint_key d) = Some l \<Longrightarrow> l_purpose l = Deliver \<and> position (l_delivery l) = position d"
  unfolding stream_inv_def order_ok_def delivery_key_def by (metis option.inject)

lemma leases_fit_acquire:
  assumes "leases_fit s" and "stream_inv s"
  shows "leases_fit (snd (stream_acquire d expected purpose s))"
proof -
  let ?k = "delivery_checkpoint_key d" and ?s = "checkpoint_mut (delivery_checkpoint_key d) s"
  have st: "map_option f_status (bm_get (failures s) (delivery_key d)) = status_of s (delivery_key d)"
    by (simp add: status_of_def)
  have "leases_fit (?s\<lparr>retry_claims := c, leases := bm_insert ?k
      \<lparr>l_delivery = d, l_fence = l_fence existing, l_purpose = l_purpose existing\<rparr> (leases s)\<rparr>)"
    if "bm_get (leases s) ?k = Some existing" "status_of s (delivery_key d) = Some Retrying" for existing c
    using assms that retrying_lease [OF assms(2)]
    by (auto simp: leases_fit_def bm_get_insert status_of_def delivery_key_def)
  moreover have "leases_fit (snd (issue_lease ?k d purpose ?s))"
    if "case status_of s (delivery_key d) of Some st \<Rightarrow> acquire_allowed purpose st | None \<Rightarrow> purpose = Deliver"
    using that leases_fit_issue [of ?s purpose d] acquire_allowed_fits assms(1) by (auto split: option.splits)
  ultimately show ?thesis
    using assms(1)
    by (cases purpose)
      (auto simp: stream_acquire_def Let_def match_case st issue_lease_def split: option.splits)
qed

lemma leases_fit_retry:
  assumes "leases_fit s"
  shows "leases_fit (snd (stream_retry d v expected s))"
proof -
  let ?k = "delivery_checkpoint_key d" and ?s = "checkpoint_mut (delivery_checkpoint_key d) s"
  have "leases_fit (put_failure d r ((snd (issue_lease ?k d Deliver ?s))\<lparr>retry_claims := c\<rparr>))"
    if "f_status r = Retrying" for r c
    using assms that
    by (auto simp: leases_fit_def issue_lease_def put_failure_def Let_def bm_get_insert status_of_def delivery_key_def)
  then show ?thesis
    using assms
    by (auto simp: stream_retry_def Let_def match_case issue_lease_def put_failure_def split: option.splits)
qed

text \<open>No lease is out for a delivery whose failure is skipped or in replay.\<close>

lemma leases_fit_put_free:
  assumes "leases_fit s" and "bm_get (failures s) (delivery_key d) = Some r"
    and "f_status r \<in> {Skipped, Replaying, Replayed}"
  shows "leases_fit (put_failure d r' s)"
proof (rule leases_fit_put [OF assms(1,2)])
  fix p assume "lease_fits p (Some (f_status r))"
  with assms(3) show "lease_fits p (Some (f_status r'))" by (cases p) auto
qed

lemma leases_fit_replays:
  assumes "leases_fit s"
  shows "leases_fit (snd (finish_replay d v f answer s))" and "leases_fit (snd (stream_replay d v s))"
    and "leases_fit (snd (stream_replay_cancel d v s))"
  using assms leases_fit_put_free [of "s\<lparr>replay_claims := c\<rparr>" for c] leases_fit_put_free [of s]
  by (simp_all add: finish_replay_def stream_replay_def stream_replay_cancel_def Let_def split: option.splits)

lemma stream_apply_fits:
  assumes "leases_fit s" and "stream_inv s"
  shows "leases_fit (snd (stream_apply i s))"
proof (cases i)
  case (Resolve d v)
  show ?thesis
  proof (cases "bm_get (failures s) (delivery_key d)")
    case (Some r)
    have "leases_fit (put_failure d (r\<lparr>f_version := f_version r + 1, f_status := Resolved\<rparr>) s)"
      if "f_status r \<in> {Succeeded, Skipped, Replayed}"
    proof (rule leases_fit_put [OF assms(1) Some])
      fix p assume "lease_fits p (Some (f_status r))"
      with that show "lease_fits p (Some (f_status (r\<lparr>f_version := f_version r + 1, f_status := Resolved\<rparr>)))"
        by (cases p) auto
    qed
    with Resolve Some assms show ?thesis by (auto simp: stream_resolve_def Let_def)
  qed (use Resolve assms in \<open>simp add: stream_resolve_def\<close>)
next
  case (Cancel lease)
  with assms leases_fit_drop_put [OF assms refl, of "l_delivery lease"] show ?thesis
    by (simp add: stream_cancel_def consume_lease_eq Let_def set_failure_status_put split: option.splits)
next
  case (Fail lease diagnostic)
  with assms leases_fit_drop_put [OF assms refl, of "l_delivery lease"] show ?thesis
    by (simp add: stream_fail_def record_failure_def consume_lease_eq Let_def put_failure_def split: option.splits)
next
  case (FailWithAssertion lease diagnostic detail)
  with assms leases_fit_drop_put [OF assms refl, of "l_delivery lease"] show ?thesis
    by (simp add: stream_fail_with_assertion_def record_failure_def consume_lease_eq Let_def put_failure_def
        split: option.splits)
qed (use assms in \<open>simp_all add: leases_fit_acquire leases_fit_retry leases_fit_replays leases_fit_settle
    complete_eq skip_eq stream_pause_def stream_resume_def stream_reset_def match_case move_checkpoint_eq
    stream_replay_complete_def stream_replay_fail_def stream_replay_fail_with_assertion_def blocking_def Let_def
    split: option.splits\<close>)

lemma stream_reachable_fits: "stream_reachable s \<Longrightarrow> leases_fit s"
proof (induction rule: stream_reachable.induct)
  case reach_fresh
  show ?case by (simp add: leases_fit_def backend_default_def)
next
  case (reach_apply s i)
  then show ?case using stream_apply_fits [OF _ stream_reachable_inv] by blast
next
  case (reach_claim s g)
  then show ?case by (auto simp: claim_replay_def split: option.splits)
qed

text \<open>The edges of the failure lifecycle.\<close>

definition failure_edge :: "failure_status \<Rightarrow> failure_status \<Rightarrow> bool" where
  "failure_edge a b \<longleftrightarrow>
     (a, b) \<in> {(Failed, Retrying), (Failed, Skipped),
        (Retrying, Failed), (Retrying, Succeeded),
        (Skipped, Replaying), (Skipped, Resolved),
        (Replaying, Replayed), (Replaying, Skipped), (Replayed, Resolved),
        (Succeeded, Resolved), (Succeeded, Failed), (Succeeded, Succeeded),
        (Resolved, Failed), (Resolved, Succeeded)}"

definition failure_change :: "'d failure_record option \<Rightarrow> 'd failure_record \<Rightarrow> bool" where
  "failure_change old r \<longleftrightarrow>
     (case old of
        None \<Rightarrow> f_version r = 1 \<and> f_attempts r = 1 \<and> f_status r = Failed
      | Some r0 \<Rightarrow> f_version r = f_version r0 + 1 \<and> failure_edge (f_status r0) (f_status r))"

definition failure_effect :: "'d backend \<Rightarrow> 'd backend \<Rightarrow> bool" where
  "failure_effect s t \<longleftrightarrow> failures t = failures s \<or>
     (\<exists>dk r. failures t = bm_insert dk r (failures s) \<and> failure_change (bm_get (failures s) dk) r)"

lemma failure_effect_same [simp]: "failures t = failures s \<Longrightarrow> failure_effect s t"
  by (simp add: failure_effect_def)

lemma failure_effect_put:
  "failures t = bm_insert dk r (failures s) \<Longrightarrow> failure_change (bm_get (failures s) dk) r \<Longrightarrow> failure_effect s t"
  unfolding failure_effect_def by blast

lemma leased_status:
  assumes "leases_fit s" and "holds_lease s lease"
  shows "lease_fits (l_purpose lease) (status_of s (delivery_key (l_delivery lease)))"
  using holds_lease_delivery [OF assms(2)] assms(1)
  by (auto simp: leases_fit_def delivery_key_def) (metis)

lemma settle_failures:
  "failures (snd (settle lease st s)) =
     (case bm_get (failures s) (delivery_key (l_delivery lease)) of None \<Rightarrow> failures s
      | Some r \<Rightarrow> bm_insert (delivery_key (l_delivery lease)) (r\<lparr>f_version := f_version r + 1, f_status := st\<rparr>) (failures s))"
  by (simp add: settle_def Let_def set_failure_status_def move_checkpoint_eq split: option.splits)

lemma settle_change:
  assumes "leases_fit s" and "holds_lease s lease"
    and "st = (case l_purpose lease of Deliver \<Rightarrow> Succeeded | Skip_Purpose \<Rightarrow> Skipped)"
  shows "failure_effect s (snd (settle lease st s))"
proof (cases "bm_get (failures s) (delivery_key (l_delivery lease))")
  case (Some r)
  have "failure_edge (f_status r) st"
    using leased_status [OF assms(1,2)] Some assms(3)
    by (cases "l_purpose lease") (auto simp: status_of_def failure_edge_def)
  with Some show ?thesis
    by (intro failure_effect_put [of _ "delivery_key (l_delivery lease)" "r\<lparr>f_version := f_version r + 1, f_status := st\<rparr>"])
      (simp_all add: settle_failures failure_change_def)
qed (simp add: settle_failures)

lemma record_failure_change:
  assumes "leases_fit s"
  shows "failure_effect s (snd (record_failure lease diagnostic detail s))"
proof (cases "l_purpose lease = Deliver \<and> holds_lease s lease")
  case True
  show ?thesis
  proof (cases "bm_get (failures s) (delivery_key (l_delivery lease))")
    case None
    let ?r = "\<lparr>f_identity = l_delivery lease, f_version = 1, f_attempts = 1, f_status = Failed,
      f_diagnostic = diagnostic, f_assertion_detail = detail\<rparr>"
    from True None show ?thesis
      by (intro failure_effect_put [of _ "delivery_key (l_delivery lease)" ?r])
        (simp_all add: record_failure_def consume_lease_eq Let_def failure_change_def)
  next
    case (Some r)
    have "failure_edge (f_status r) Failed"
      using leased_status [OF assms, of lease] Some True by (auto simp: status_of_def failure_edge_def)
    moreover have "failures (snd (record_failure lease diagnostic detail s)) =
        bm_insert (delivery_key (l_delivery lease)) (r\<lparr>f_identity := l_delivery lease, f_version := f_version r + 1,
          f_attempts := f_attempts r + (if f_status r \<noteq> Retrying then 1 else 0),
          f_status := Failed, f_diagnostic := diagnostic, f_assertion_detail := detail\<rparr>) (failures s)"
      using True Some by (simp add: record_failure_def consume_lease_eq Let_def)
    ultimately show ?thesis using Some by (intro failure_effect_put) (auto simp: failure_change_def)
  qed
qed (auto simp: record_failure_def consume_lease_eq)

lemma finish_replay_change:
  assumes "\<And>r. f_version (f r) = f_version r" and "\<And>r. f_status (f r) = st" and "st = Replayed \<or> st = Skipped"
  shows "failure_effect s (snd (finish_replay d v f answer s))"
proof (cases "bm_get (failures s) (delivery_key d)")
  case (Some r)
  with assms show ?thesis
    by (auto simp: finish_replay_def Let_def put_failure_def failure_change_def failure_edge_def
        intro!: failure_effect_put [of _ "delivery_key d"])
qed (simp add: finish_replay_def Let_def)

lemma stream_apply_failures:
  assumes "leases_fit s"
  shows "failure_effect s (snd (stream_apply i s))"
proof (cases i)
  case (Complete lease expected)
  with settle_change [OF assms, of lease Succeeded] show ?thesis by (simp add: complete_eq)
next
  case (Skip lease expected v)
  with settle_change [OF assms, of lease Skipped] show ?thesis by (simp add: skip_eq split: option.splits)
next
  case (Retry d v expected)
  then show ?thesis
    by (auto simp: stream_retry_def match_case Let_def issue_lease_def failure_change_def failure_edge_def
        split: option.splits intro!: failure_effect_put [of _ "delivery_key d"])
next
  case (Replay d v)
  then show ?thesis
    by (auto simp: stream_replay_def Let_def put_failure_def failure_change_def failure_edge_def
        split: option.splits intro!: failure_effect_put [of _ "delivery_key d"])
next
  case (ReplayCancel d v)
  then show ?thesis
    by (auto simp: stream_replay_cancel_def Let_def put_failure_def failure_change_def failure_edge_def
        split: option.splits intro!: failure_effect_put [of _ "delivery_key d"])
next
  case (Resolve d v)
  then show ?thesis
    by (auto simp: stream_resolve_def Let_def put_failure_def failure_change_def failure_edge_def
        split: option.splits intro!: failure_effect_put [of _ "delivery_key d"])
next
  case (Cancel lease)
  then show ?thesis
    by (auto simp: stream_cancel_def consume_lease_eq Let_def set_failure_status_def failure_change_def failure_edge_def
        split: option.splits intro!: failure_effect_put [of _ "delivery_key (l_delivery lease)"])
qed (use assms in \<open>simp_all add: record_failure_change finish_replay_change [where st = Replayed]
    finish_replay_change [where st = Skipped] stream_pause_def stream_resume_def stream_reset_def stream_acquire_def
    stream_fail_def stream_fail_with_assertion_def stream_replay_complete_def stream_replay_fail_def
    stream_replay_fail_with_assertion_def match_case move_checkpoint_eq issue_lease_def Let_def split: option.splits\<close>)

section \<open>Refused intents\<close>

lemma rejected_state:
  "stream_apply i s = (Rejected r, t) \<Longrightarrow> t = s \<or> (\<exists>k. t = checkpoint_mut k s)"
proof (cases i)
  case (Complete lease expected)
  then show "stream_apply i s = (Rejected r, t) \<Longrightarrow> ?thesis"
    by (auto simp: complete_eq settle_def Let_def split: if_splits)
next
  case (Skip lease expected v)
  then show "stream_apply i s = (Rejected r, t) \<Longrightarrow> ?thesis"
    by (auto simp: skip_eq settle_def Let_def split: if_splits option.splits)
qed (auto simp: stream_pause_def stream_resume_def stream_reset_def stream_acquire_def stream_retry_def
    stream_fail_def stream_fail_with_assertion_def record_failure_def stream_cancel_def stream_replay_def
    stream_replay_complete_def stream_replay_fail_def stream_replay_fail_with_assertion_def finish_replay_def
    stream_replay_cancel_def stream_resolve_def consume_lease_eq match_case issue_lease_def move_checkpoint_eq Let_def
    split: option.splits if_splits)

section \<open>Fences\<close>

fun lease_of :: "'d commit_intent \<Rightarrow> delivery_lease option" where
  "lease_of (Fail lease _) = Some lease"
| "lease_of (FailWithAssertion lease _ _) = Some lease"
| "lease_of (Complete lease _) = Some lease"
| "lease_of (Skip lease _ _) = Some lease"
| "lease_of (Cancel lease) = Some lease"
| "lease_of _ = None"

definition accepted :: "'d commit_result \<Rightarrow> bool" where
  "accepted r \<longleftrightarrow> (case r of Rejected _ \<Rightarrow> False | _ \<Rightarrow> True)"

lemma accepted_simps [simp]:
  "\<not> accepted (Rejected x)" "accepted (FailedResult f)" "accepted (CheckpointAdvanced c)" "accepted (CancelledResult c)"
  by (simp_all add: accepted_def)

datatype 'd stream_event = Intent "'d commit_intent" | Claim replay_grant

fun stream_step :: "'d stream_event \<Rightarrow> 'd backend \<Rightarrow> 'd backend" where
  "stream_step (Intent i) s = snd (stream_apply i s)"
| "stream_step (Claim g) s = snd (claim_replay g s)"

definition fence_step :: "checkpoint_key \<Rightarrow> 'd backend \<Rightarrow> 'd backend \<Rightarrow> bool" where
  "fence_step k s t \<longleftrightarrow>
     (fence_of t k = fence_of s k \<and> (bm_get (leases s) k = None \<longrightarrow> bm_get (leases t) k = None)) \<or>
     (bm_get (leases s) k = None \<and> fence_of t k = fence_of s k + 1)"

lemma fence_step_same [simp]: "leases t = leases s \<Longrightarrow> next_fence t = next_fence s \<Longrightarrow> fence_step k s t"
  by (simp add: fence_step_def fence_of_def)

lemma fence_step_drop:
  "backend_wf s \<Longrightarrow> leases t = leases (drop_lease j s) \<Longrightarrow> next_fence t = next_fence s \<Longrightarrow> fence_step k s t"
  using drop_lease_effect(1) [of s j] by (auto simp: fence_step_def fence_of_def)

lemma fence_step_issue:
  "bm_get (leases s) j = None \<Longrightarrow> leases t = leases (snd (issue_lease j d p s)) \<Longrightarrow>
   next_fence t = next_fence (snd (issue_lease j d p s)) \<Longrightarrow> fence_step k s t"
  by (auto simp: fence_step_def fence_of_def issue_lease_def Let_def bm_get_insert)

lemma settle_leases: "leases (snd (settle lease st s)) = leases (drop_lease (delivery_checkpoint_key (l_delivery lease)) s)"
  "next_fence (snd (settle lease st s)) = next_fence s"
  by (simp_all add: settle_def Let_def set_failure_status_def move_checkpoint_eq split: option.splits)

lemma acquire_fence: "fence_step k s (snd (stream_acquire d expected purpose s))"
proof (cases "bm_get (leases s) (delivery_checkpoint_key d)")
  case None
  then show ?thesis
    by (auto simp: stream_acquire_def match_case Let_def issue_lease_def
        intro!: fence_step_issue [of s "delivery_checkpoint_key d" _ d purpose])
next
  case (Some l)
  then show ?thesis
    by (auto simp: stream_acquire_def match_case Let_def fence_step_def fence_of_def bm_get_insert)
qed

lemma retry_fence: "fence_step k s (snd (stream_retry d v expected s))"
  by (auto simp: stream_retry_def match_case Let_def issue_lease_def bm_contains_get split: option.splits
      intro!: fence_step_issue [of s "delivery_checkpoint_key d" _ d Deliver])

lemma stream_step_fence:
  assumes "stream_inv s"
  shows "fence_step k s (stream_step e s)"
proof -
  have wf: "backend_wf s" using assms by (simp add: stream_inv_def)
  note drop = fence_step_drop [OF wf]
  show ?thesis
  proof (cases e)
    case (Claim g)
    then show ?thesis by (simp add: claim_replay_def split: option.splits)
  next
    case e: (Intent i)
    show ?thesis
    proof (cases i)
      case (Complete lease expected)
      with e show ?thesis by (auto simp: complete_eq settle_leases intro: drop)
    next
      case (Skip lease expected v)
      with e show ?thesis by (auto simp: skip_eq settle_leases split: option.splits intro: drop)
    next
      case (Cancel lease)
      with e show ?thesis
        by (auto simp: stream_cancel_def consume_lease_eq Let_def set_failure_status_def split: option.splits
            intro: drop)
    next
      case (Fail lease diagnostic)
      with e show ?thesis
        by (auto simp: stream_fail_def record_failure_def consume_lease_eq Let_def split: option.splits intro: drop)
    next
      case (FailWithAssertion lease diagnostic detail)
      with e show ?thesis
        by (auto simp: stream_fail_with_assertion_def record_failure_def consume_lease_eq Let_def
            split: option.splits intro: drop)
    qed (use e in \<open>simp_all add: acquire_fence retry_fence stream_pause_def stream_resume_def stream_reset_def
        match_case move_checkpoint_eq stream_replay_def stream_replay_complete_def stream_replay_fail_def
        stream_replay_fail_with_assertion_def finish_replay_def stream_replay_cancel_def stream_resolve_def
        put_failure_def Let_def split: option.splits\<close>)
  qed
qed

end
