(* ===== verification/Orna_Stream_Laws.thy ===== *)
theory Orna_Stream_Laws
  imports Orna_Stream
begin

text \<open>
  What the stream administration promises to its owners.

  The locale \<open>checkpoint_backend\<close> is the contract of the trait \<open>CheckpointBackend\<close>: an intent
  either leaves every checkpoint alone or moves exactly one, by one version. Its lemmas follow a
  checkpoint through any sequence of intents. \<open>in_memory\<close> interprets it on the model of
  \<open>InMemoryCheckpointBackend\<close>. The properties cover checkpoint movement, ordering of failed
  deliveries, fencing of stale leases, the failure lifecycle, refused intents, pausing, progress and
  the canonical text of identities.
\<close>

section \<open>The backend contract\<close>

fun run_intents :: "('i \<Rightarrow> 's \<Rightarrow> 'r \<times> 's) \<Rightarrow> 'i list \<Rightarrow> 's \<Rightarrow> 'r list \<times> 's" where
  "run_intents ap [] s = ([], s)"
| "run_intents ap (i # intents) s =
     (case ap i s of (r, t) \<Rightarrow> (case run_intents ap intents t of (rs, u) \<Rightarrow> (r # rs, u)))"

definition moves_of :: "('r \<Rightarrow> checkpoint option) \<Rightarrow> checkpoint_key \<Rightarrow> 'r list \<Rightarrow> checkpoint list" where
  "moves_of mv k rs = filter (\<lambda>c. cp_key c = k) (List.map_filter mv rs)"

locale checkpoint_backend =
  fixes ap :: "'i \<Rightarrow> 's \<Rightarrow> 'r \<times> 's"
    and cp :: "'s \<Rightarrow> checkpoint_key \<Rightarrow> checkpoint"
    and mv :: "'r \<Rightarrow> checkpoint option"
    and ok :: "'s \<Rightarrow> bool"
  assumes ok_ap: "ok s \<Longrightarrow> ok (snd (ap i s))"
    and keeps: "ok s \<Longrightarrow> mv (fst (ap i s)) = None \<Longrightarrow> cp (snd (ap i s)) = cp s"
    and moves: "ok s \<Longrightarrow> mv (fst (ap i s)) = Some c \<Longrightarrow>
      cp (snd (ap i s)) = (cp s)(cp_key c := c) \<and> cp_version c = cp_version (cp s (cp_key c)) + 1"
begin

lemma run_version:
  "ok s \<Longrightarrow> cp_version (cp (snd (run_intents ap intents s)) k) =
     cp_version (cp s k) + of_nat (length (moves_of mv k (fst (run_intents ap intents s))))"
proof (induction intents arbitrary: s)
  case Nil
  then show ?case by (simp add: moves_of_def map_filter_simps)
next
  case (Cons i intents)
  obtain r t where step: "ap i s = (r, t)" by fastforce
  then have "ok t" using ok_ap [OF Cons.prems, of i] by simp
  note IH = Cons.IH [OF this]
  show ?case
  proof (cases "mv r")
    case None
    with keeps [OF Cons.prems, of i] step IH show ?thesis
      by (simp add: split_beta moves_of_def map_filter_simps)
  next
    case (Some c)
    with moves [OF Cons.prems, of i c] step IH show ?thesis
      by (simp add: split_beta moves_of_def map_filter_simps)
  qed
qed

lemma run_position:
  "ok s \<Longrightarrow> cp (snd (run_intents ap intents s)) k =
     (let ms = moves_of mv k (fst (run_intents ap intents s)) in if ms = [] then cp s k else last ms)"
proof (induction intents arbitrary: s)
  case Nil
  then show ?case by (simp add: moves_of_def map_filter_simps)
next
  case (Cons i intents)
  obtain r t where step: "ap i s = (r, t)" by fastforce
  then have "ok t" using ok_ap [OF Cons.prems, of i] by simp
  note IH = Cons.IH [OF this]
  show ?case
  proof (cases "mv r")
    case None
    with keeps [OF Cons.prems, of i] step IH show ?thesis
      by (simp add: split_beta moves_of_def map_filter_simps Let_def)
  next
    case (Some c)
    with moves [OF Cons.prems, of i c] step IH show ?thesis
      by (auto simp: split_beta moves_of_def map_filter_simps Let_def)
  qed
qed

end

interpretation in_memory: checkpoint_backend stream_apply stream_checkpoint moved stream_inv
proof unfold_locales
  fix s :: "'d backend" and i c
  assume inv: "stream_inv s"
  note effect = stream_apply_effect [OF inv, of i, unfolded checkpoint_effect_def]
  show "stream_inv (snd (stream_apply i s))" by (rule stream_apply_inv [OF inv])
  show "moved (fst (stream_apply i s)) = None \<Longrightarrow> stream_checkpoint (snd (stream_apply i s)) = stream_checkpoint s"
    using effect by simp
  show "moved (fst (stream_apply i s)) = Some c \<Longrightarrow>
      stream_checkpoint (snd (stream_apply i s)) = (stream_checkpoint s)(cp_key c := c) \<and>
      cp_version c = cp_version (stream_checkpoint s (cp_key c)) + 1"
    using effect by simp
qed

section \<open>Sample stream\<close>

definition sample_consumer :: consumer_identity where
  "sample_consumer = ConsumerIdentity (Component ''p'') (Component ''r'') (Component ''f'') (Component ''b'')"

definition sample_delivery :: "string \<Rightarrow> string \<Rightarrow> delivery_identity" where
  "sample_delivery pos nxt = DeliveryIdentity sample_consumer (Component ''sf'') (Component ''s'') (Component ''pf'')
     None (Component ''of'') (Component pos) (Component nxt)"

definition sample_key :: checkpoint_key where
  "sample_key = delivery_checkpoint_key (sample_delivery ''1'' ''2'')"

definition fresh_pre :: precondition where
  "fresh_pre = \<lparr>pre_version = 0, pre_committed = None\<rparr>"

definition sample_diag :: safe_diagnostic where
  "sample_diag = \<lparr>code = ExecutionRejected, diag_class = Transient\<rparr>"

definition sample_lease :: delivery_lease where
  "sample_lease = \<lparr>l_delivery = sample_delivery ''1'' ''2'', l_fence = 1, l_purpose = Deliver\<rparr>"

text \<open>A backend with one delivery leased, and one where that delivery then failed.\<close>

definition leased_backend :: "nat backend" where
  "leased_backend = snd (stream_apply (Acquire (sample_delivery ''1'' ''2'') fresh_pre Deliver) backend_default)"

definition failed_backend :: "nat backend" where
  "failed_backend = snd (stream_apply (Fail sample_lease sample_diag) leased_backend)"

lemma leased_reachable: "stream_reachable leased_backend"
  unfolding leased_backend_def by (intro reach_apply reach_fresh)

lemma failed_reachable: "stream_reachable failed_backend"
  unfolding failed_backend_def by (intro reach_apply leased_reachable)

section \<open>Properties\<close>

text \<open>
  C5. A checkpoint moves only by an authorised commit. For every reachable backend and every intent:
  if the intent reports no move, every checkpoint reads as before. Otherwise exactly the reported
  checkpoint changes, its version grows by one, and the intent was a \<open>Complete\<close> or \<open>Skip\<close> by the holder
  of the stream's current lease with the current precondition, committing the delivery's successor, or
  a \<open>Reset\<close> of a paused stream that has neither a lease nor a blocking failure.
\<close>

theorem checkpoint_moves_only_by_commit:
  assumes "stream_reachable s"
  shows "case moved (fst (stream_apply i s)) of
      None \<Rightarrow> stream_checkpoint (snd (stream_apply i s)) = stream_checkpoint s
    | Some c \<Rightarrow> authorised_move s i c \<and>
        stream_checkpoint (snd (stream_apply i s)) = (stream_checkpoint s)(cp_key c := c) \<and>
        cp_version c = cp_version (stream_checkpoint s (cp_key c)) + 1"
  using stream_apply_effect [OF stream_reachable_inv [OF assms], of i] unfolding checkpoint_effect_def .

theorem checkpoint_moves_only_by_commit_witness:
  "stream_checkpoint (snd (stream_apply (Complete sample_lease fresh_pre) leased_backend)) sample_key =
     \<lparr>cp_key = sample_key, cp_version = 1, cp_committed = Some (Component ''2'')\<rparr>"
proof -
  have "moved (fst (stream_apply (Complete sample_lease fresh_pre) leased_backend)) =
      Some \<lparr>cp_key = sample_key, cp_version = 1, cp_committed = Some (Component ''2'')\<rparr>"
    by code_simp
  with checkpoint_moves_only_by_commit [OF leased_reachable, of "Complete sample_lease fresh_pre"]
  show ?thesis by simp
qed

text \<open>
  Version bookkeeping over any sequence of intents from a reachable backend: the version of a
  checkpoint grows by exactly the number of moves reported for it (modulo \<open>2^64\<close>), and the checkpoint
  is the one the last reported move returned.
\<close>

theorem checkpoint_history:
  assumes "stream_reachable s" and "run_intents stream_apply intents s = (results, t)"
  shows "cp_version (stream_checkpoint t k) =
      cp_version (stream_checkpoint s k) + of_nat (length (moves_of moved k results)) \<and>
    stream_checkpoint t k =
      (if moves_of moved k results = [] then stream_checkpoint s k else last (moves_of moved k results))"
  using in_memory.run_version [OF stream_reachable_inv [OF assms(1)], of intents k]
    in_memory.run_position [OF stream_reachable_inv [OF assms(1)], of intents k] assms(2)
  by (simp add: Let_def)

theorem checkpoint_history_witness:
  "cp_version (stream_checkpoint (snd (run_intents stream_apply
     [Complete sample_lease fresh_pre, Pause sample_key,
      Reset sample_key \<lparr>pre_version = 1, pre_committed = Some (Component ''2'')\<rparr> (Component ''9'')]
     leased_backend)) sample_key) = 2"
proof -
  let ?is = "[Complete sample_lease fresh_pre, Pause sample_key,
      Reset sample_key \<lparr>pre_version = 1, pre_committed = Some (Component ''2'')\<rparr> (Component ''9'')]
      :: nat commit_intent list"
  obtain rs t where run: "run_intents stream_apply ?is leased_backend = (rs, t)" by fastforce
  have "length (moves_of moved sample_key (fst (run_intents stream_apply ?is leased_backend))) = 2"
    "cp_version (stream_checkpoint leased_backend sample_key) = 0"
    by code_simp+
  with checkpoint_history [OF leased_reachable run, of sample_key, THEN conjunct1]
  have "cp_version (stream_checkpoint t sample_key) = 2" by (simp add: run del: run_intents.simps)
  then show ?thesis by (simp add: run del: run_intents.simps)
qed

text \<open>
  Ordered delivery. In a reachable backend at most one delivery of a stream blocks it; while it
  does, no other delivery of that stream can acquire a lease; and if it is being retried, the stream's
  lease is a delivery lease for exactly that delivery.
\<close>

theorem ordered_stream_blocks:
  assumes "stream_reachable s" and "blocked_by s k p"
  shows "(\<forall>q. blocked_by s k q \<longrightarrow> q = p) \<and>
    (\<forall>d expected purpose. delivery_checkpoint_key d = k \<longrightarrow> position d \<noteq> p \<longrightarrow>
       fst (stream_apply (Acquire d expected purpose) s) \<in> {Rejected StaleCheckpoint, Rejected BlockingFailure}) \<and>
    (status_of s (k, p) = Some Retrying \<longrightarrow>
       (\<exists>l. bm_get (leases s) k = Some l \<and> delivery_key (l_delivery l) = (k, p) \<and> l_purpose l = Deliver))"
proof (intro conjI allI impI)
  note inv = stream_reachable_inv [OF assms(1)]
  show unique: "q = p" if "blocked_by s k q" for q
    using inv assms(2) that unfolding stream_inv_def order_ok_def by metis
  fix d expected purpose
  assume d: "delivery_checkpoint_key d = k" "position d \<noteq> p"
  have "\<not> authorised_blocking_delivery purpose (status_of s (delivery_key d))"
    using unique [of "position d"] d
    by (cases "(purpose, status_of s (delivery_key d))" rule: authorised_blocking_delivery.cases)
      (auto simp: blocked_by_def delivery_key_def)
  moreover have "has_ordered_blocking_failure s k"
    using has_blocking_iff [OF inv] assms(2) by (auto simp: has_ordered_blocking_eq)
  ultimately show "fst (stream_apply (Acquire d expected purpose) s) \<in> {Rejected StaleCheckpoint, Rejected BlockingFailure}"
    using d by (simp add: stream_acquire_def match_case Let_def flip: status_of_def)
next
  note inv = stream_reachable_inv [OF assms(1)]
  assume "status_of s (k, p) = Some Retrying"
  then obtain l where "bm_get (leases s) k = Some l" "position (l_delivery l) = p" "l_purpose l = Deliver"
    using inv unfolding stream_inv_def order_ok_def by metis
  moreover from this(1) have "delivery_checkpoint_key (l_delivery l) = k"
    using inv unfolding stream_inv_def rows_ok_def by metis
  ultimately show "\<exists>l. bm_get (leases s) k = Some l \<and> delivery_key (l_delivery l) = (k, p) \<and> l_purpose l = Deliver"
    by (auto simp: delivery_key_def)
qed

theorem ordered_stream_blocks_witness:
  "fst (stream_apply (Acquire (sample_delivery ''2'' ''3'') fresh_pre Deliver) failed_backend) \<in>
     {Rejected StaleCheckpoint, Rejected BlockingFailure}"
proof -
  have "blocked_by failed_backend sample_key (Component ''1'')" by code_simp
  moreover have "delivery_checkpoint_key (sample_delivery ''2'' ''3'') = sample_key"
    "position (sample_delivery ''2'' ''3'') \<noteq> Component ''1''" by code_simp+
  ultimately show ?thesis
    using ordered_stream_blocks [OF failed_reachable, of sample_key "Component ''1''"] by blast
qed

lemma lease_needs_holding: "lease_of j = Some lease \<Longrightarrow> accepted (fst (stream_apply j s)) \<Longrightarrow> holds_lease s lease"
  by (cases j)
    (auto simp: complete_eq skip_eq stream_fail_def stream_fail_with_assertion_def record_failure_def stream_cancel_def
      consume_lease_eq split: if_splits option.splits)

lemma accepted_drops:
  assumes "stream_inv s" and "lease_of i = Some lease" and "accepted (fst (stream_apply i s))"
  shows "bm_get (leases (snd (stream_apply i s))) (delivery_checkpoint_key (l_delivery lease)) = None"
    and "next_fence (snd (stream_apply i s)) = next_fence s"
proof -
  have wf: "backend_wf s" using assms(1) by (simp add: stream_inv_def)
  note drop = drop_lease_effect(1) [OF wf, of "delivery_checkpoint_key (l_delivery lease)"]
  show "bm_get (leases (snd (stream_apply i s))) (delivery_checkpoint_key (l_delivery lease)) = None"
    using assms(2,3) drop
    by (cases i)
      (auto simp: complete_eq skip_eq settle_leases stream_fail_def stream_fail_with_assertion_def record_failure_def
        stream_cancel_def consume_lease_eq Let_def set_failure_status_def split: if_splits option.splits)
  show "next_fence (snd (stream_apply i s)) = next_fence s"
    using assms(2,3)
    by (cases i)
      (auto simp: complete_eq skip_eq settle_leases stream_fail_def stream_fail_with_assertion_def record_failure_def
        stream_cancel_def consume_lease_eq Let_def set_failure_status_def split: if_splits option.splits)
qed

text \<open>A fence that has passed stays passed, as long as the fence counter does not wrap.\<close>

definition past_fence :: "checkpoint_key \<Rightarrow> nat \<Rightarrow> 'd backend \<Rightarrow> bool" where
  "past_fence k f s \<longleftrightarrow> f \<le> unat (fence_of s k) \<and> (bm_get (leases s) k \<noteq> None \<longrightarrow> f < unat (fence_of s k))"

lemma past_fence_step:
  assumes "fence_step k s t" and "past_fence k f s" and "unat (fence_of s k) + 1 < 2 ^ 64"
  shows "past_fence k f t" and "unat (fence_of t k) \<le> unat (fence_of s k) + 1"
proof -
  have "unat (fence_of s k + 1) = unat (fence_of s k) + 1"
    using assms(3) by (simp add: unat_word_ariths)
  with assms show "past_fence k f t" and "unat (fence_of t k) \<le> unat (fence_of s k) + 1"
    by (auto simp: fence_step_def past_fence_def)
qed

lemma stream_step_inv: "stream_inv s \<Longrightarrow> stream_inv (stream_step e s)"
  by (cases e) (simp_all add: stream_apply_inv claim_replay_inv)

lemma past_fence_run:
  "stream_inv s \<Longrightarrow> past_fence k f s \<Longrightarrow> unat (fence_of s k) + length events < 2 ^ 64 \<Longrightarrow>
   past_fence k f (fold stream_step events s) \<and> stream_inv (fold stream_step events s)"
proof (induction events arbitrary: s)
  case (Cons e events)
  from Cons.prems(3) have bound: "unat (fence_of s k) + 1 < 2 ^ 64" by simp
  note step = past_fence_step [OF stream_step_fence [OF Cons.prems(1), where e = e] Cons.prems(2) bound]
  with Cons.IH [OF stream_step_inv [OF Cons.prems(1)]] Cons.prems show ?case by simp
qed simp

text \<open>
  C6. Fencing. Once an intent by a lease has been accepted, that lease is spent: after any further
  events, no intent by it, or by any lease of the same stream with an equal or older fence, is accepted
  again, as long as the stream's 64-bit fence counter does not wrap.
\<close>

theorem spent_lease_is_refused:
  assumes "stream_reachable s" and "lease_of i = Some lease" and "accepted (fst (stream_apply i s))"
    and "unat (l_fence lease) + length events < 2 ^ 64"
    and "lease_of j = Some old" and "delivery_checkpoint_key (l_delivery old) = delivery_checkpoint_key (l_delivery lease)"
    and "unat (l_fence old) \<le> unat (l_fence lease)"
  shows "\<not> accepted (fst (stream_apply j (fold stream_step events (snd (stream_apply i s)))))"
proof
  note inv = stream_reachable_inv [OF assms(1)]
  let ?k = "delivery_checkpoint_key (l_delivery lease)" and ?s = "snd (stream_apply i s)"
  let ?t = "fold stream_step events ?s"
  obtain l where l: "bm_get (leases s) ?k = Some l" "l_fence l = l_fence lease"
    using holds_lease_delivery [OF lease_needs_holding [OF assms(2,3)]] by auto
  then have "fence_of s ?k = l_fence lease"
    using inv unfolding stream_inv_def rows_ok_def by metis
  then have fence: "fence_of ?s ?k = l_fence lease"
    using accepted_drops(2) [OF inv assms(2,3)] by (simp add: fence_of_def)
  then have "past_fence ?k (unat (l_fence lease)) ?s"
    using accepted_drops(1) [OF inv assms(2,3)] by (simp add: past_fence_def)
  with past_fence_run [OF stream_apply_inv [OF inv]] fence assms(4)
  have t: "past_fence ?k (unat (l_fence lease)) ?t" "stream_inv ?t" by metis+
  assume "accepted (fst (stream_apply j ?t))"
  then obtain m where m: "bm_get (leases ?t) ?k = Some m" "l_fence m = l_fence old"
    using holds_lease_delivery [OF lease_needs_holding [OF assms(5)]] assms(6) by metis
  then have "fence_of ?t ?k = l_fence old"
    using t(2) unfolding stream_inv_def rows_ok_def by metis
  with t(1) m(1) assms(7) show False by (simp add: past_fence_def)
qed

theorem spent_lease_is_refused_witness:
  "\<not> accepted (fst (stream_apply (Complete sample_lease fresh_pre) failed_backend))"
proof -
  have "accepted (fst (stream_apply (Fail sample_lease sample_diag) leased_backend))" by code_simp
  moreover have "unat (l_fence sample_lease) + length ([] :: nat stream_event list) < 2 ^ 64"
    by (simp add: sample_lease_def)
  ultimately show ?thesis
    using spent_lease_is_refused [OF leased_reachable, of "Fail sample_lease sample_diag" sample_lease "[]"
        "Complete sample_lease fresh_pre" sample_lease]
    by (simp add: failed_backend_def)
qed

text \<open>
  The failure lifecycle. No intent removes or rewrites the history of a failure row: each existing
  row stays as it is or makes one step of the lifecycle with its version grown by one; a new row starts
  failed, at version and attempt one; and at most one row changes. In particular a failure leaves its
  blocking states only by succeeding or by an explicit skip.
\<close>

theorem failure_lifecycle:
  assumes "stream_reachable s" and "t = snd (stream_apply i s)"
  shows "failures t = failures s \<or>
    (\<exists>dk r. bm_get (failures t) = (bm_get (failures s))(dk \<mapsto> r) \<and>
       (case bm_get (failures s) dk of
          None \<Rightarrow> f_version r = 1 \<and> f_attempts r = 1 \<and> f_status r = Failed
        | Some r0 \<Rightarrow> f_version r = f_version r0 + 1 \<and> failure_edge (f_status r0) (f_status r)))"
proof -
  have "failure_effect s t"
    using stream_apply_failures [OF stream_reachable_fits [OF assms(1)]] assms(2) by simp
  then consider (same) "failures t = failures s"
    | (put) dk r where "failures t = bm_insert dk r (failures s)" and "failure_change (bm_get (failures s) dk) r"
    unfolding failure_effect_def by blast
  then show ?thesis
  proof cases
    case (put dk r)
    show ?thesis
      by (rule disjI2, rule exI [of _ dk], rule exI [of _ r])
        (use put in \<open>simp add: bm_get_insert failure_change_def\<close>)
  qed simp
qed

theorem failure_lifecycle_witness:
  "\<exists>dk r. bm_get (failures failed_backend) = (bm_get (failures leased_backend))(dk \<mapsto> r) \<and>
     f_version r = 1 \<and> f_status r = Failed"
proof -
  have f: "failures leased_backend = []" "failures failed_backend \<noteq> failures leased_backend" by code_simp+
  have "bm_get (failures leased_backend) dk = None" for dk by (simp add: f(1))
  moreover obtain dk r where "bm_get (failures failed_backend) = (bm_get (failures leased_backend))(dk \<mapsto> r)"
    and "case bm_get (failures leased_backend) dk of
        None \<Rightarrow> f_version r = 1 \<and> f_attempts r = 1 \<and> f_status r = Failed
      | Some r0 \<Rightarrow> f_version r = f_version r0 + 1 \<and> failure_edge (f_status r0) (f_status r)"
    using failure_lifecycle [OF leased_reachable failed_backend_def] f(2) by blast
  ultimately show ?thesis by (intro exI [of _ dk] exI [of _ r]) simp
qed

lemma checkpoint_mut_restore: "(checkpoint_mut k s)\<lparr>checkpoints := checkpoints s\<rparr> = s"
  by (simp add: checkpoint_mut_def split: option.splits)

text \<open>
  A refused intent changes nothing an owner can observe: streams, failures, leases, pending pauses,
  fences and claims are the same values, and every checkpoint reads as before.
\<close>

theorem rejection_is_atomic:
  assumes "stream_apply i s = (Rejected reason, t)"
  shows "t\<lparr>checkpoints := checkpoints s\<rparr> = s \<and> stream_checkpoint t = stream_checkpoint s"
  using rejected_state [OF assms] by (auto simp: checkpoint_mut_restore)

theorem rejection_is_atomic_witness:
  "\<exists>t. stream_apply (Resume sample_key) (snd (stream_apply (Pause sample_key) failed_backend)) =
       (Rejected BlockingFailure, t) \<and>
     stream_checkpoint t = stream_checkpoint (snd (stream_apply (Pause sample_key) failed_backend))"
proof -
  let ?s = "snd (stream_apply (Pause sample_key) failed_backend)"
  have "fst (stream_apply (Resume sample_key) ?s) = Rejected BlockingFailure" by code_simp
  then have eq: "stream_apply (Resume sample_key) ?s = (Rejected BlockingFailure, snd (stream_apply (Resume sample_key) ?s))"
    by (simp add: prod_eq_iff)
  from rejection_is_atomic [OF eq] eq show ?thesis by blast
qed

lemma accepted_status:
  assumes "lease_of i = Some lease" and "accepted (fst (stream_apply i s))"
  shows "stream_status_of (snd (stream_apply i s)) = stream_status_of (drop_lease (delivery_checkpoint_key (l_delivery lease)) s)"
    and "pause_requested (snd (stream_apply i s)) =
      pause_requested (drop_lease (delivery_checkpoint_key (l_delivery lease)) s)"
proof -
  have "streams (snd (stream_apply i s)) = streams (drop_lease (delivery_checkpoint_key (l_delivery lease)) s) \<and>
      pause_requested (snd (stream_apply i s)) = pause_requested (drop_lease (delivery_checkpoint_key (l_delivery lease)) s)"
    using assms
    by (cases i)
      (auto simp: complete_eq skip_eq settle_def move_checkpoint_eq stream_fail_def stream_fail_with_assertion_def
        record_failure_def stream_cancel_def consume_lease_eq Let_def set_failure_status_def split: if_splits option.splits)
  then show "stream_status_of (snd (stream_apply i s)) = stream_status_of (drop_lease (delivery_checkpoint_key (l_delivery lease)) s)"
    and "pause_requested (snd (stream_apply i s)) =
      pause_requested (drop_lease (delivery_checkpoint_key (l_delivery lease)) s)"
    by (simp_all add: fun_eq_iff stream_status_of_def del: drop_lease_fields)
qed

text \<open>
  A pending pause takes effect at the delivery boundary: when the lease that delayed it reaches a
  terminal transition the stream is paused, the request is gone and no lease remains, so a new delivery
  is refused.
\<close>

theorem pending_pause_takes_effect:
  assumes "stream_reachable s" and "lease_of i = Some lease" and "accepted (fst (stream_apply i s))"
    and "k = delivery_checkpoint_key (l_delivery lease)" and "bs_contains (pause_requested s) k"
    and "t = snd (stream_apply i s)"
  shows "stream_status_of s k = Running \<and> stream_status_of t k = Paused \<and> \<not> bs_contains (pause_requested t) k \<and>
    bm_get (leases t) k = None"
proof -
  note inv = stream_reachable_inv [OF assms(1)]
  have wf: "backend_wf s" and "stream_status_of s k = Running"
    using inv assms(5) by (auto simp: stream_inv_def claims_ok_def)
  with assms(4-6) accepted_status [OF assms(2,3)] accepted_drops(1) [OF inv assms(2,3)] drop_lease_effect(3) [OF wf, of k]
  show ?thesis by simp
qed

theorem pending_pause_takes_effect_witness:
  "stream_status_of (snd (stream_apply (Cancel sample_lease) (snd (stream_apply (Pause sample_key) leased_backend))))
     sample_key = Paused"
proof -
  let ?s = "snd (stream_apply (Pause sample_key) leased_backend)"
  have "bs_contains (pause_requested ?s) sample_key" "accepted (fst (stream_apply (Cancel sample_lease) ?s))"
    "sample_key = delivery_checkpoint_key (l_delivery sample_lease)"
    by code_simp+
  with pending_pause_takes_effect [OF reach_apply [OF leased_reachable], of "Cancel sample_lease" sample_lease
      "Pause sample_key" sample_key, OF _ _ _ _ refl]
  show ?thesis by simp
qed

text \<open>
  C35. Progress. On a running stream with no lease and no blocking failure, a delivery without a failure
  row can be acquired with the current precondition, and completing that lease with the same
  precondition commits the delivery's successor and frees the stream.
\<close>

theorem delivery_makes_progress:
  assumes "stream_reachable s" and "k = delivery_checkpoint_key d" and "bm_get (leases s) k = None"
    and "stream_status_of s k = Running" and "\<nexists>p. blocked_by s k p" and "stream_failure s d = None"
    and "pre = precondition_of (stream_checkpoint s k)"
  shows "\<exists>lease s1 c s2. stream_apply (Acquire d pre Deliver) s = (Acquired lease, s1) \<and>
    stream_apply (Complete lease pre) s1 = (CheckpointAdvanced c, s2) \<and>
    cp_committed c = Some (successor d) \<and> stream_checkpoint s2 = (stream_checkpoint s)(k := c) \<and>
    bm_get (leases s2) k = None"
proof -
  note inv = stream_reachable_inv [OF assms(1)]
  obtain lease s1 where issue: "issue_lease k d Deliver (checkpoint_mut k s) = (lease, s1)" by fastforce
  have noblock: "\<not> has_blocking_failure s k" using has_blocking_iff [OF inv] assms(5) by simp
  have acq: "stream_apply (Acquire d pre Deliver) s = (Acquired lease, s1)"
    using assms(2-7) noblock issue
    by (simp add: stream_acquire_def match_case Let_def has_ordered_blocking_eq stream_failure_def)
  have inv1: "stream_inv s1" and l: "bm_get (leases s1) k = Some lease" "l_delivery lease = d" "l_purpose lease = Deliver"
    using inv_issue [OF issue [unfolded assms(2)] checkpoint_mut_inv [OF inv]] assms(2,3,5) by auto
  have same: "stream_checkpoint s1 = stream_checkpoint s"
    using issue issue_lease_checkpoint [of k d Deliver "checkpoint_mut k s"] by simp
  have holds: "holds_lease s1 lease"
    using l assms(2) by (simp add: holds_lease_def lease_eq_def delivery_eq_key)
  have comp: "stream_apply (Complete lease pre) s1 = settle lease Succeeded s1"
    using holds l assms(2,7) same by (simp add: complete_eq)
  have lk: "lease_of (Complete lease pre) = Some lease" by simp
  obtain c s2 where settle: "settle lease Succeeded s1 = (CheckpointAdvanced c, s2)"
    by (simp add: settle_def Let_def)
  have "accepted (fst (stream_apply (Complete lease pre) s1))"
    by (simp add: settle comp [simplified])
  then have "bm_get (leases s2) k = None"
    using accepted_drops(1) [OF inv1 lk] settle comp l assms(2) by simp
  with acq comp settle settle_effect [OF inv1, of lease Succeeded] l assms(2) same show ?thesis
    by (auto simp: Let_def)
qed

theorem delivery_makes_progress_witness:
  "\<exists>lease s1 c s2. stream_apply (Acquire (sample_delivery ''1'' ''2'') fresh_pre Deliver) (backend_default :: nat backend)
      = (Acquired lease, s1) \<and>
    stream_apply (Complete lease fresh_pre) s1 = (CheckpointAdvanced c, s2) \<and> cp_committed c = Some (Component ''2'')"
proof -
  let ?d = "sample_delivery ''1'' ''2''" and ?s = "backend_default :: nat backend"
  have "\<nexists>p. blocked_by ?s (delivery_checkpoint_key ?d) p"
    by (simp add: backend_default_def blocked_by_def status_of_def)
  moreover have "bm_get (leases ?s) (delivery_checkpoint_key ?d) = None"
    "stream_status_of ?s (delivery_checkpoint_key ?d) = Running" "stream_failure ?s ?d = None"
    "fresh_pre = precondition_of (stream_checkpoint ?s (delivery_checkpoint_key ?d))"
    "successor ?d = Component ''2''"
    by code_simp+
  ultimately show ?thesis
    using delivery_makes_progress [OF reach_fresh refl, of ?d fresh_pre] by auto
qed

section \<open>Canonical identities\<close>

definition component_ok :: "component \<Rightarrow> bool" where
  "component_ok c \<longleftrightarrow> as_str c \<noteq> [] \<and> list_all component_char_ok (as_str c)"

lemma component_new_ok: "component_new v = Ok c \<Longrightarrow> component_ok c \<and> as_str c = v"
  by (auto simp: component_new_def component_ok_def list_all_iff list_ex_iff split: if_splits)

definition consumer_ok :: "consumer_identity \<Rightarrow> bool" where
  "consumer_ok c \<longleftrightarrow>
     component_ok (principal c) \<and> component_ok (root c) \<and> component_ok (function_of c) \<and> component_ok (binding c)"

definition delivery_ok :: "delivery_identity \<Rightarrow> bool" where
  "delivery_ok d \<longleftrightarrow>
     consumer_ok (consumer d) \<and> component_ok (source_format d) \<and> component_ok (source_of d) \<and>
     component_ok (partition_format d) \<and> (\<forall>p. partition_of d = Some p \<longrightarrow> component_ok p) \<and>
     component_ok (position_format d) \<and> component_ok (position d) \<and> component_ok (successor d)"

lemma component_no_bar: "component_ok c \<Longrightarrow> CHR ''|'' \<notin> set (as_str c)"
  by (auto simp: component_ok_def list_all_iff component_char_ok_def)

lemma bar_split:
  "CHR ''|'' \<notin> set x \<Longrightarrow> CHR ''|'' \<notin> set y \<Longrightarrow> x @ CHR ''|'' # r = y @ CHR ''|'' # t \<longleftrightarrow> x = y \<and> r = t"
proof (induction x arbitrary: y)
  case Nil
  then show ?case by (cases y) auto
next
  case (Cons c x)
  then show ?case by (cases y) auto
qed

lemma as_str_eq: "as_str a = as_str b \<longleftrightarrow> a = b"
  by (metis component.expand)

lemma canonical_rest:
  assumes "delivery_ok a" and "delivery_ok b"
    and "as_str (principal (consumer a)) @ CHR ''|'' # as_str (root (consumer a)) @ CHR ''|'' #
        as_str (function_of (consumer a)) @ CHR ''|'' # as_str (binding (consumer a)) @ CHR ''|'' # ra =
      as_str (principal (consumer b)) @ CHR ''|'' # as_str (root (consumer b)) @ CHR ''|'' #
        as_str (function_of (consumer b)) @ CHR ''|'' # as_str (binding (consumer b)) @ CHR ''|'' # rb"
  shows "consumer a = consumer b \<and> ra = rb"
  using assms
  by (simp add: bar_split component_no_bar delivery_ok_def consumer_ok_def as_str_eq) (metis consumer_identity.expand)

definition delivery_tail :: "delivery_identity \<Rightarrow> string" where
  "delivery_tail d =
     as_str (source_format d) @ CHR ''|'' # as_str (source_of d) @ CHR ''|'' # as_str (partition_format d)
       @ CHR ''|'' # (case partition_of d of None \<Rightarrow> [] | Some p \<Rightarrow> as_str p)
       @ CHR ''|'' # as_str (position_format d) @ CHR ''|'' # as_str (position d)"

lemma canonical_parts:
  assumes "delivery_ok a" and "delivery_ok b" and "delivery_canonical a = delivery_canonical b"
  shows "partition_of a = None \<longleftrightarrow> partition_of b = None" and "consumer a = consumer b"
    and "delivery_tail a = delivery_tail b"
proof -
  show same: "partition_of a = None \<longleftrightarrow> partition_of b = None"
    using assms(3) by (cases "partition_of a"; cases "partition_of b")
      (simp_all add: delivery_canonical_def consumer_canonical_def)
  have "consumer a = consumer b \<and> delivery_tail a = delivery_tail b"
    by (rule canonical_rest [OF assms(1,2)])
      (use assms(3) same in \<open>simp add: delivery_canonical_def consumer_canonical_def delivery_tail_def split: if_splits\<close>)
  then show "consumer a = consumer b" and "delivery_tail a = delivery_tail b" by simp_all
qed

lemma tail_injective:
  assumes "delivery_ok a" and "delivery_ok b" and "partition_of a = None \<longleftrightarrow> partition_of b = None"
    and "consumer a = consumer b" and "delivery_tail a = delivery_tail b"
  shows "delivery_eq a b"
proof (cases "partition_of a")
  case None
  with assms(3) have "partition_of b = None" by simp
  with None assms(1,2,4,5) show ?thesis
    by (simp add: delivery_tail_def delivery_eq_def delivery_ok_def bar_split component_no_bar as_str_eq)
next
  case (Some p)
  with assms(3) obtain q where "partition_of b = Some q" by auto
  with Some assms(1,2,4,5) show ?thesis
    by (simp add: delivery_tail_def delivery_eq_def delivery_ok_def bar_split component_no_bar as_str_eq)
qed

text \<open>
  The canonical text of a delivery is injective on valid identities: two deliveries have the same
  text exactly when they are the same delivery, that is equal up to the provider-selected successor. In
  particular an unpartitioned stream never collides with a partitioned one.
\<close>

theorem delivery_canonical_injective:
  assumes "delivery_ok a" and "delivery_ok b"
  shows "delivery_canonical a = delivery_canonical b \<longleftrightarrow> delivery_eq a b"
proof
  assume "delivery_eq a b"
  then show "delivery_canonical a = delivery_canonical b"
    by (simp add: delivery_eq_def delivery_canonical_def)
next
  assume "delivery_canonical a = delivery_canonical b"
  from canonical_parts [OF assms this] show "delivery_eq a b" by (rule tail_injective [OF assms])
qed

theorem delivery_canonical_injective_witness:
  "delivery_canonical (sample_delivery ''1'' ''2'') = delivery_canonical (sample_delivery ''1'' ''9'') \<and>
   delivery_canonical (sample_delivery ''1'' ''2'') \<noteq> delivery_canonical (sample_delivery ''2'' ''2'')"
proof -
  have "delivery_ok (sample_delivery ''1'' ''2'')" "delivery_ok (sample_delivery ''1'' ''9'')"
    "delivery_ok (sample_delivery ''2'' ''2'')"
    by (simp_all add: delivery_ok_def consumer_ok_def component_ok_def component_char_ok_def sample_delivery_def
        sample_consumer_def)
  moreover have "delivery_eq (sample_delivery ''1'' ''2'') (sample_delivery ''1'' ''9'')"
    "\<not> delivery_eq (sample_delivery ''1'' ''2'') (sample_delivery ''2'' ''2'')"
    by code_simp+
  ultimately show ?thesis
    using delivery_canonical_injective [of "sample_delivery ''1'' ''2''"] by blast
qed

end
