(* ===== verification/Orna_Text.thy ===== *)
theory Orna_Text
  imports Orna_Prelude
begin

text \<open>
  The part of Rust's text library that the components use. A text is an Isabelle \<open>string\<close>; a
  character is a code point below 256. Holds the character classes, \<open>split_once\<close>,
  \<open>strip_prefix\<close>, \<open>trim\<close>, and the decimal form of \<open>u64\<close> values with its round trip.
\<close>

section \<open>Characters\<close>

definition char_is_control :: "char \<Rightarrow> bool" where
  "char_is_control c \<longleftrightarrow> (let n = of_char c :: nat in n \<le> 31 \<or> (127 \<le> n \<and> n \<le> 159))"

definition char_is_whitespace :: "char \<Rightarrow> bool" where
  "char_is_whitespace c \<longleftrightarrow>
     (let n = of_char c :: nat in (9 \<le> n \<and> n \<le> 13) \<or> n = 32 \<or> n = 133 \<or> n = 160)"

definition char_is_ascii_alphanumeric :: "char \<Rightarrow> bool" where
  "char_is_ascii_alphanumeric c \<longleftrightarrow>
     (let n = of_char c :: nat in (48 \<le> n \<and> n \<le> 57) \<or> (65 \<le> n \<and> n \<le> 90) \<or> (97 \<le> n \<and> n \<le> 122))"

definition char_to_ascii_lowercase :: "char \<Rightarrow> char" where
  "char_to_ascii_lowercase c =
     (let n = of_char c :: nat in if 65 \<le> n \<and> n \<le> 90 then char_of (n + 32) else c)"

text \<open>\<open>str::split_once\<close>: the text before and after the first occurrence of the separator.\<close>

fun split_once :: "string \<Rightarrow> string \<Rightarrow> (string \<times> string) option" where
  "split_once sep [] = (if sep = [] then Some ([], []) else None)"
| "split_once sep (c # cs) =
     (if take (length sep) (c # cs) = sep then Some ([], drop (length sep) (c # cs))
      else map_option (\<lambda>(a, b). (c # a, b)) (split_once sep cs))"

section \<open>Trimming and prefixes\<close>

definition trim_start :: "string \<Rightarrow> string" where
  "trim_start s = dropWhile char_is_whitespace s"

definition trim :: "string \<Rightarrow> string" where
  "trim s = rev (trim_start (rev (trim_start s)))"

definition strip_prefix :: "string \<Rightarrow> string \<Rightarrow> string option" where
  "strip_prefix p s = (if take (length p) s = p then Some (drop (length p) s) else None)"

section \<open>Decimal numbers\<close>

definition digit_char :: "nat \<Rightarrow> char" where
  "digit_char d = char_of (48 + d)"

definition is_ascii_digit :: "char \<Rightarrow> bool" where
  "is_ascii_digit c \<longleftrightarrow> (let n = of_char c :: nat in 48 \<le> n \<and> n \<le> 57)"

fun show_int_digits :: "int \<Rightarrow> string" where
  "show_int_digits n =
     (if n < 10 then [digit_char (nat n)] else show_int_digits (n div 10) @ [digit_char (nat (n mod 10))])"

declare show_int_digits.simps [simp del]

definition show_u64 :: "u64 \<Rightarrow> string" where
  "show_u64 n = show_int_digits (uint n)"

definition digit_value :: "char \<Rightarrow> int" where
  "digit_value c = int (of_char c) - 48"

definition digits_value :: "string \<Rightarrow> int" where
  "digits_value s = foldl (\<lambda>acc c. 10 * acc + digit_value c) 0 s"

text \<open>\<open>parse::<u64>\<close> on a non-empty run of digits: the value, or an error when it does not fit.\<close>

definition parse_u64_digits :: "string \<Rightarrow> u64 option" where
  "parse_u64_digits s = (let v = digits_value s in if v < 2 ^ 64 then Some (word_of_int v) else None)"

section \<open>Laws\<close>

lemma digit_char_facts:
  assumes "d < 10"
  shows "is_ascii_digit (digit_char d)" and "digit_value (digit_char d) = int d"
    and "\<not> char_is_whitespace (digit_char d)" and "digit_char d \<noteq> CHR ''-''" and "digit_char d \<noteq> CHR '',''"
proof -
  have code: "(of_char (digit_char d) :: nat) = 48 + d" using assms by (simp add: digit_char_def)
  then show "is_ascii_digit (digit_char d)" and "digit_value (digit_char d) = int d"
    and "\<not> char_is_whitespace (digit_char d)"
    using assms by (auto simp: is_ascii_digit_def digit_value_def char_is_whitespace_def Let_def)
  show "digit_char d \<noteq> CHR ''-''" and "digit_char d \<noteq> CHR '',''"
    using code by auto
qed

lemma show_int_digits_facts:
  "0 \<le> n \<Longrightarrow> show_int_digits n \<noteq> [] \<and> digits_value (show_int_digits n) = n \<and>
     (\<forall>c \<in> set (show_int_digits n). \<exists>d < 10. c = digit_char d)"
proof (induction n rule: show_int_digits.induct)
  case (1 n)
  show ?case
  proof (cases "n < 10")
    case True
    with 1 show ?thesis
      by (subst (1 2 3) show_int_digits.simps)
        (auto simp: digits_value_def digit_char_facts intro!: exI [of _ "nat n"])
  next
    case False
    with 1 have IH: "show_int_digits (n div 10) \<noteq> []" "digits_value (show_int_digits (n div 10)) = n div 10"
      "\<forall>c \<in> set (show_int_digits (n div 10)). \<exists>d < 10. c = digit_char d"
      by auto
    moreover have "digit_value (digit_char (nat (n mod 10))) = n mod 10"
      by (subst digit_char_facts) auto
    ultimately show ?thesis
      using False by (subst (1 2 3) show_int_digits.simps) (auto simp: digits_value_def intro!: exI [of _ "nat (n mod 10)"])
  qed
qed

lemma show_u64_digit: "c \<in> set (show_u64 n) \<Longrightarrow> \<exists>d < 10. c = digit_char d"
  using show_int_digits_facts [of "uint n"] by (simp add: show_u64_def)

lemma show_u64_facts:
  "show_u64 n \<noteq> []" "c \<in> set (show_u64 n) \<Longrightarrow> is_ascii_digit c" "c \<in> set (show_u64 n) \<Longrightarrow> \<not> char_is_whitespace c"
  using show_int_digits_facts [of "uint n"] show_u64_digit [of c n]
  by (auto simp: show_u64_def digit_char_facts)

lemma show_u64_no_sep: "CHR ''-'' \<notin> set (show_u64 n)" "CHR '','' \<notin> set (show_u64 n)"
  using show_u64_facts(2) [of "CHR ''-''" n] show_u64_facts(2) [of "CHR '',''" n]
  by (auto simp: is_ascii_digit_def Let_def)

lemma parse_show_u64: "parse_u64_digits (show_u64 n) = Some n"
  using show_int_digits_facts [of "uint n"] unsigned_less [of n, where 'a = int]
  by (simp add: parse_u64_digits_def show_u64_def Let_def)

lemma trim_none:
  assumes "\<forall>c \<in> set s. \<not> char_is_whitespace c"
  shows "trim s = s"
proof -
  have "dropWhile char_is_whitespace t = t" if "\<forall>c \<in> set t. \<not> char_is_whitespace c" for t
    using that by (cases t) auto
  from this [of s] this [of "rev s"] assms show ?thesis by (simp add: trim_def trim_start_def)
qed

lemma split_once_char:
  "CHR ''-'' \<notin> set a \<Longrightarrow> split_once ''-'' (a @ CHR ''-'' # b) = Some (a, b)"
  by (induction a) auto

end
