(* ===== verification/Orna_Security.thy ===== *)
theory Orna_Security
  imports Orna_Text
begin

text \<open>
  The session-security boundary: \<open>crates/orna-security/src/lib.rs\<close>.

  Origins are parsed to a canonical form and admitted by an allow and a deny set. A \<open>SessionBoundary\<close>
  maps session identities to a state machine: open without a socket, with an active attachment, with a
  disconnected attachment under a reconnect lease, or closed.

  Adapters are outside the crate. The credential an issuer hands out, and the outcome of a durable
  deletion, are arguments of the operations. Credential comparison is the \<open>subtle\<close> crate's
  \<open>ct_eq\<close>: the argument \<open>ct\<close>, which the properties take to decide equality of byte arrays.
\<close>

section \<open>Secret references and origins\<close>

datatype secret_boundary_error = InvalidReference | SecretDenied | SecretUnavailable

definition secret_ref_new :: "string \<Rightarrow> (secret_boundary_error, string) result" where
  "secret_ref_new value =
     (if value = [] \<or> list_ex char_is_control value then Err InvalidReference else Ok value)"

datatype boundary_error = Denied | Closed_Error | Expired | DeletionFailed

definition scheme_char :: "char \<Rightarrow> bool" where
  "scheme_char c \<longleftrightarrow> char_is_ascii_alphanumeric c \<or> c = CHR ''+'' \<or> c = CHR ''-'' \<or> c = CHR ''.''"

definition origin_parse :: "string \<Rightarrow> (boundary_error, string) result" where
  "origin_parse value =
     (case split_once ''://'' value of
        None \<Rightarrow> Err Denied
      | Some (scheme, authority) \<Rightarrow>
          if scheme = [] \<or> authority = []
             \<or> list_ex (\<lambda>c. c \<in> set ''/?#@'') authority
             \<or> list_ex char_is_whitespace authority
             \<or> list_ex (\<lambda>c. \<not> scheme_char c) scheme
          then Err Denied
          else Ok (map char_to_ascii_lowercase scheme @ ''://'' @ map char_to_ascii_lowercase authority))"

record origin_policy =
  allow :: "string set"
  deny :: "string set"

definition origin_policy_new :: "string list \<Rightarrow> string list \<Rightarrow> origin_policy" where
  "origin_policy_new allowed denied = \<lparr>allow = set allowed, deny = set denied\<rparr>"

definition policy_permits :: "origin_policy \<Rightarrow> string \<Rightarrow> bool" where
  "policy_permits policy origin \<longleftrightarrow> origin \<notin> deny policy \<and> origin \<in> allow policy"

datatype remote_analysis_policy = LocalOnly | AllowRemoteDisclosure

datatype remote_analysis_decision = DeniedLocalOnly | AllowedByUserPolicy

record remote_analysis_request =
  decision :: remote_analysis_decision
  source_snapshot :: string
  disclosed_data :: "string list"

definition remote_analysis_new :: "remote_analysis_policy \<Rightarrow> string \<Rightarrow> string list \<Rightarrow> remote_analysis_request" where
  "remote_analysis_new policy snapshot disclosed =
     \<lparr>decision = (case policy of LocalOnly \<Rightarrow> DeniedLocalOnly | AllowRemoteDisclosure \<Rightarrow> AllowedByUserPolicy),
      source_snapshot = snapshot, disclosed_data = disclosed\<rparr>"

definition remote_analysis_is_allowed :: "remote_analysis_request \<Rightarrow> bool" where
  "remote_analysis_is_allowed r \<longleftrightarrow> decision r = AllowedByUserPolicy"

section \<open>Sessions\<close>

type_synonym session_id = "u8 list"
type_synonym attachment_id = "u8 list"
type_synonym credential = "u8 list"

datatype attach_outcome = Attached | Replaced attachment_id | Reconnected

datatype attachment = Active attachment_id | Disconnected u64

datatype session_state = SOpen credential "attachment option" | SClosed

record session =
  origin :: string
  expires_at :: u64
  state :: session_state

record boundary =
  policy :: origin_policy
  reconnect_for :: u64
  sessions :: "session_id \<rightharpoonup> session"

definition max_session_lease :: u64 where
  "max_session_lease = 300000"

definition boundary_new :: "origin_policy \<Rightarrow> u64 \<Rightarrow> boundary" where
  "boundary_new p r = \<lparr>policy = p, reconnect_for = r, sessions = Map.empty\<rparr>"

definition set_state :: "session_id \<Rightarrow> session \<Rightarrow> session_state \<Rightarrow> boundary \<Rightarrow> boundary" where
  "set_state sid rec st b = b\<lparr>sessions := (sessions b)(sid \<mapsto> rec\<lparr>state := st\<rparr>)\<rparr>"

definition session_create :: "session_id \<Rightarrow> string \<Rightarrow> u64 \<Rightarrow> u64 \<Rightarrow> (boundary_error, credential) result \<Rightarrow>
    boundary \<Rightarrow> (boundary_error, credential) result \<times> boundary" where
  "session_create sid org deadline now issued b =
     (if \<not> policy_permits (policy b) org \<or> deadline \<le> now \<or> max_session_lease < saturating_sub deadline now
         \<or> sessions b sid \<noteq> None
      then (Err Denied, b)
      else case issued of
        Inl e \<Rightarrow> (Err e, b)
      | Inr cred \<Rightarrow>
          (Ok cred, b\<lparr>sessions := (sessions b)(sid \<mapsto>
             \<lparr>origin = org, expires_at = deadline, state = SOpen cred None\<rparr>)\<rparr>))"

definition session_expire :: "session_id \<Rightarrow> u64 \<Rightarrow> boundary \<Rightarrow> (boundary_error, unit) result \<times> boundary" where
  "session_expire sid now b =
     (case sessions b sid of
        None \<Rightarrow> (Err Denied, b)
      | Some rec \<Rightarrow>
          let attached = (case state rec of SOpen _ (Some _) \<Rightarrow> True | _ \<Rightarrow> False)
          in if \<not> attached \<and> expires_at rec \<le> now
             then (Err Expired, set_state sid rec SClosed b)
             else (Ok (), b))"

definition session_authorise :: "(credential \<Rightarrow> credential \<Rightarrow> bool) \<Rightarrow> session_id \<Rightarrow> string \<Rightarrow> credential \<Rightarrow> u64 \<Rightarrow>
    boundary \<Rightarrow> (boundary_error, unit) result \<times> boundary" where
  "session_authorise ct sid org cred now b =
     (case session_expire sid now b of
        (Inl e, b') \<Rightarrow> (Err e, b')
      | (Inr _, b') \<Rightarrow>
          (case sessions b' sid of
             None \<Rightarrow> (Err Denied, b')
           | Some rec \<Rightarrow>
               (case state rec of
                  SClosed \<Rightarrow> (Err Closed_Error, b')
                | SOpen expected _ \<Rightarrow>
                    if origin rec = org \<and> ct expected cred then (Ok (), b') else (Err Denied, b'))))"

definition session_rotate :: "(credential \<Rightarrow> credential \<Rightarrow> bool) \<Rightarrow> session_id \<Rightarrow> string \<Rightarrow> credential \<Rightarrow> u64 \<Rightarrow>
    (boundary_error, credential) result \<Rightarrow> boundary \<Rightarrow> (boundary_error, credential) result \<times> boundary" where
  "session_rotate ct sid org cred now issued b =
     (case session_authorise ct sid org cred now b of
        (Inl e, b') \<Rightarrow> (Err e, b')
      | (Inr _, b') \<Rightarrow>
          (case issued of
             Inl e \<Rightarrow> (Err e, b')
           | Inr replacement \<Rightarrow>
               (case sessions b' sid of
                  None \<Rightarrow> (Err Denied, b')
                | Some rec \<Rightarrow>
                    (case state rec of
                       SOpen _ att \<Rightarrow> (Ok replacement, set_state sid rec (SOpen replacement att) b')
                     | SClosed \<Rightarrow> (Err Closed_Error, b')))))"

definition session_attach :: "(credential \<Rightarrow> credential \<Rightarrow> bool) \<Rightarrow> session_id \<Rightarrow> string \<Rightarrow> credential \<Rightarrow>
    attachment_id \<Rightarrow> u64 \<Rightarrow> boundary \<Rightarrow> (boundary_error, attach_outcome) result \<times> boundary" where
  "session_attach ct sid org cred att now b =
     (case session_authorise ct sid org cred now b of
        (Inl e, b') \<Rightarrow> (Err e, b')
      | (Inr _, b') \<Rightarrow>
          (case sessions b' sid of
             None \<Rightarrow> (Err Denied, b')
           | Some rec \<Rightarrow>
               (case state rec of
                  SClosed \<Rightarrow> (Err Closed_Error, b')
                | SOpen c current \<Rightarrow>
                    (case (case current of
                             None \<Rightarrow> Ok Attached
                           | Some (Active existing) \<Rightarrow> Ok (Replaced existing)
                           | Some (Disconnected lease) \<Rightarrow> if now < lease then Ok Reconnected else Err Expired) of
                       Inl e \<Rightarrow> (Err e, b')
                     | Inr outcome \<Rightarrow> (Ok outcome, set_state sid rec (SOpen c (Some (Active att))) b')))))"

definition session_validate_attach :: "(credential \<Rightarrow> credential \<Rightarrow> bool) \<Rightarrow> session_id \<Rightarrow> string \<Rightarrow> credential \<Rightarrow>
    u64 \<Rightarrow> boundary \<Rightarrow> (boundary_error, unit) result" where
  "session_validate_attach ct sid org cred now b =
     (case sessions b sid of
        None \<Rightarrow> Err Denied
      | Some rec \<Rightarrow>
          let unattached = (case state rec of SOpen _ None \<Rightarrow> True | _ \<Rightarrow> False)
          in if unattached \<and> expires_at rec \<le> now then Err Expired
             else (case state rec of
                     SClosed \<Rightarrow> Err Closed_Error
                   | SOpen expected _ \<Rightarrow>
                       if origin rec = org \<and> ct expected cred then Ok () else Err Denied))"

definition session_validate_active :: "session_id \<Rightarrow> attachment_id \<Rightarrow> u64 \<Rightarrow> boundary \<Rightarrow>
    (boundary_error, unit) result \<times> boundary" where
  "session_validate_active sid att now b =
     (case session_expire sid now b of
        (Inl e, b') \<Rightarrow> (Err e, b')
      | (Inr _, b') \<Rightarrow>
          (case sessions b' sid of
             None \<Rightarrow> (Err Denied, b')
           | Some rec \<Rightarrow>
               (case state rec of
                  SOpen _ (Some (Active current)) \<Rightarrow> if current = att then (Ok (), b') else (Err Denied, b')
                | SOpen _ _ \<Rightarrow> (Err Denied, b')
                | SClosed \<Rightarrow> (Err Closed_Error, b'))))"

definition session_disconnect :: "session_id \<Rightarrow> attachment_id \<Rightarrow> u64 \<Rightarrow> boundary \<Rightarrow>
    (boundary_error, u64) result \<times> boundary" where
  "session_disconnect sid att now b =
     (case session_expire sid now b of
        (Inl e, b') \<Rightarrow> (Err e, b')
      | (Inr _, b') \<Rightarrow>
          (case sessions b' sid of
             None \<Rightarrow> (Err Denied, b')
           | Some rec \<Rightarrow>
               (case state rec of
                  SClosed \<Rightarrow> (Err Closed_Error, b')
                | SOpen c current \<Rightarrow>
                    if current \<noteq> Some (Active att) then (Err Denied, b')
                    else let lease = saturating_add now (reconnect_for b')
                         in (Ok lease, set_state sid rec (SOpen c (Some (Disconnected lease))) b'))))"

definition session_revoke :: "session_id \<Rightarrow> boundary \<Rightarrow> (boundary_error, unit) result \<times> boundary" where
  "session_revoke sid b =
     (case sessions b sid of
        None \<Rightarrow> (Err Denied, b)
      | Some rec \<Rightarrow> (Ok (), set_state sid rec SClosed b))"

definition session_delete :: "session_id \<Rightarrow> ('e, unit) result \<Rightarrow> boundary \<Rightarrow> (boundary_error, unit) result \<times> boundary" where
  "session_delete sid deleted b =
     (case sessions b sid of
        None \<Rightarrow> (Err Denied, b)
      | Some rec \<Rightarrow>
          (case deleted of Inl _ \<Rightarrow> Err DeletionFailed | Inr _ \<Rightarrow> Ok (), set_state sid rec SClosed b))"

section \<open>The boundary as a state machine\<close>

datatype boundary_event =
    ECreate session_id string u64 u64 "(boundary_error, credential) result"
  | ERotate session_id string credential u64 "(boundary_error, credential) result"
  | EAttach session_id string credential attachment_id u64
  | EValidateActive session_id attachment_id u64
  | EDisconnect session_id attachment_id u64
  | ERevoke session_id
  | EDelete session_id "(unit, unit) result"

fun event_session :: "boundary_event \<Rightarrow> session_id" where
  "event_session (ECreate sid _ _ _ _) = sid"
| "event_session (ERotate sid _ _ _ _) = sid"
| "event_session (EAttach sid _ _ _ _) = sid"
| "event_session (EValidateActive sid _ _) = sid"
| "event_session (EDisconnect sid _ _) = sid"
| "event_session (ERevoke sid) = sid"
| "event_session (EDelete sid _) = sid"

fun boundary_step :: "(credential \<Rightarrow> credential \<Rightarrow> bool) \<Rightarrow> boundary_event \<Rightarrow> boundary \<Rightarrow>
    (boundary_error, unit) result \<times> boundary" where
  "boundary_step ct (ECreate sid org deadline now issued) b =
     map_prod (map_sum id (\<lambda>_. ())) id (session_create sid org deadline now issued b)"
| "boundary_step ct (ERotate sid org cred now issued) b =
     map_prod (map_sum id (\<lambda>_. ())) id (session_rotate ct sid org cred now issued b)"
| "boundary_step ct (EAttach sid org cred att now) b =
     map_prod (map_sum id (\<lambda>_. ())) id (session_attach ct sid org cred att now b)"
| "boundary_step ct (EValidateActive sid att now) b = session_validate_active sid att now b"
| "boundary_step ct (EDisconnect sid att now) b =
     map_prod (map_sum id (\<lambda>_. ())) id (session_disconnect sid att now b)"
| "boundary_step ct (ERevoke sid) b = session_revoke sid b"
| "boundary_step ct (EDelete sid deleted) b = session_delete sid deleted b"

definition boundary_run :: "(credential \<Rightarrow> credential \<Rightarrow> bool) \<Rightarrow> boundary_event list \<Rightarrow> boundary \<Rightarrow> boundary" where
  "boundary_run ct events b = fold (\<lambda>e b. snd (boundary_step ct e b)) events b"

section \<open>Laws of the operations\<close>

lemmas session_ops = session_create_def session_rotate_def session_attach_def session_authorise_def session_expire_def
  session_validate_active_def session_disconnect_def session_revoke_def session_delete_def set_state_def Let_def

lemmas session_splits = option.splits sum.splits session_state.splits attachment.splits if_splits

lemma set_state_fields [simp]:
  "policy (set_state sid r st b) = policy b" "reconnect_for (set_state sid r st b) = reconnect_for b"
  "sessions (set_state sid r st b) = (sessions b)(sid \<mapsto> r\<lparr>state := st\<rparr>)"
  by (simp_all add: set_state_def)

text \<open>\<open>expire\<close> as one equation: only an unattached session past its deadline closes.\<close>

definition attached :: "session \<Rightarrow> bool" where
  "attached r \<longleftrightarrow> (case state r of SOpen _ (Some _) \<Rightarrow> True | _ \<Rightarrow> False)"

lemma session_expire_eq:
  "session_expire sid now b =
     (case sessions b sid of
        None \<Rightarrow> (Err Denied, b)
      | Some r \<Rightarrow> if \<not> attached r \<and> expires_at r \<le> now then (Err Expired, set_state sid r SClosed b) else (Ok (), b))"
  by (simp add: session_expire_def attached_def Let_def split: option.splits)

text \<open>What a step may do to the boundary: closed sessions stay closed, origins and policy are fixed.\<close>

definition boundary_keeps :: "boundary \<Rightarrow> boundary \<Rightarrow> bool" where
  "boundary_keeps b c \<longleftrightarrow>
     policy c = policy b \<and> reconnect_for c = reconnect_for b \<and>
     (\<forall>sid r. sessions b sid = Some r \<longrightarrow>
        (\<exists>r'. sessions c sid = Some r' \<and> origin r' = origin r \<and> expires_at r' = expires_at r \<and>
              (state r = SClosed \<longrightarrow> state r' = SClosed)))"

lemma boundary_keeps_refl: "boundary_keeps b b"
  by (simp add: boundary_keeps_def)

lemma boundary_keeps_trans: "boundary_keeps b c \<Longrightarrow> boundary_keeps c d \<Longrightarrow> boundary_keeps b d"
  by (fastforce simp: boundary_keeps_def)

lemma boundary_keeps_set:
  "sessions b sid = Some r \<Longrightarrow> (state r = SClosed \<longrightarrow> st = SClosed) \<Longrightarrow> boundary_keeps b (set_state sid r st b)"
  by (auto simp: boundary_keeps_def)

lemma boundary_keeps_new:
  "sessions b sid = None \<Longrightarrow> boundary_keeps b (b\<lparr>sessions := (sessions b)(sid \<mapsto> r)\<rparr>)"
  by (auto simp: boundary_keeps_def)

lemma expire_keeps: "boundary_keeps b (snd (session_expire sid now b))"
  by (auto simp: session_expire_eq boundary_keeps_refl intro: boundary_keeps_set split: option.splits)

lemma expire_ok: "session_expire sid now b = (Ok u, c) \<Longrightarrow> c = b"
  by (auto simp: session_expire_eq split: option.splits if_splits)

lemma authorise_cases:
  "session_authorise ct sid org cred now b =
     (case session_expire sid now b of
        (Inl e, c) \<Rightarrow> (Err e, c)
      | (Inr _, c) \<Rightarrow>
          (case sessions b sid of
             None \<Rightarrow> (Err Denied, b)
           | Some r \<Rightarrow>
               (case state r of
                  SClosed \<Rightarrow> (Err Closed_Error, b)
                | SOpen expected _ \<Rightarrow> if origin r = org \<and> ct expected cred then (Ok (), b) else (Err Denied, b))))"
  by (auto simp: session_authorise_def dest: expire_ok split: prod.splits sum.splits)

lemma authorise_ok:
  assumes "session_authorise ct sid org cred now b = (Ok u, c)"
  shows "c = b \<and> (\<exists>r expected att. sessions b sid = Some r \<and> state r = SOpen expected att \<and> origin r = org \<and>
     ct expected cred \<and> (att = None \<longrightarrow> now < expires_at r))"
  using assms
  by (auto simp: authorise_cases session_expire_eq attached_def not_le split: option.splits session_state.splits if_splits)

lemma authorise_err:
  "session_authorise ct sid org cred now b = (Err e, c) \<Longrightarrow> c = snd (session_expire sid now b)"
  by (auto simp: authorise_cases dest: expire_ok split: prod.splits sum.splits option.splits session_state.splits if_splits)

lemma create_keeps: "boundary_keeps b (snd (session_create sid org deadline now issued b))"
  by (auto simp: session_create_def boundary_keeps_refl intro: boundary_keeps_new split: sum.splits)

lemma rotate_keeps: "boundary_keeps b (snd (session_rotate ct sid org cred now issued b))"
proof (cases "session_authorise ct sid org cred now b")
  case (Pair res c)
  show ?thesis
  proof (cases res)
    case (Inl e)
    with Pair authorise_err [of ct sid org cred now b e c] expire_keeps show ?thesis
      by (simp add: session_rotate_def)
  next
    case (Inr u)
    with Pair authorise_ok [of ct sid org cred now b u c] show ?thesis
      by (auto simp: session_rotate_def boundary_keeps_refl intro!: boundary_keeps_set split: sum.splits)
  qed
qed

lemma attach_keeps: "boundary_keeps b (snd (session_attach ct sid org cred att now b))"
proof (cases "session_authorise ct sid org cred now b")
  case (Pair res c)
  show ?thesis
  proof (cases res)
    case (Inl e)
    with Pair authorise_err [of ct sid org cred now b e c] expire_keeps show ?thesis
      by (simp add: session_attach_def)
  next
    case (Inr u)
    with Pair authorise_ok [of ct sid org cred now b u c] show ?thesis
      by (auto simp: session_attach_def boundary_keeps_refl intro!: boundary_keeps_set
          split: sum.splits option.splits attachment.splits if_splits)
  qed
qed

lemma validate_active_keeps: "boundary_keeps b (snd (session_validate_active sid att now b))"
proof (cases "session_expire sid now b")
  case (Pair res c)
  then have "snd (session_validate_active sid att now b) = c"
    by (simp add: session_validate_active_def split: sum.splits option.splits session_state.splits attachment.splits)
  with Pair expire_keeps [of b sid now] show ?thesis by simp
qed

lemma disconnect_keeps: "boundary_keeps b (snd (session_disconnect sid att now b))"
proof (cases "session_expire sid now b")
  case (Pair res c)
  with expire_keeps [of b sid now] have "boundary_keeps b c" by simp
  with Pair show ?thesis
    by (auto simp: session_disconnect_def Let_def dest!: expire_ok intro!: boundary_keeps_set
        split: sum.splits option.splits session_state.splits)
qed

lemma boundary_step_keeps: "boundary_keeps b (snd (boundary_step ct e b))"
  by (cases e)
    (auto simp: create_keeps rotate_keeps attach_keeps validate_active_keeps disconnect_keeps session_revoke_def
      session_delete_def boundary_keeps_refl intro: boundary_keeps_set split: option.splits)

interpretation boundary_machine: stable_step "\<lambda>e b. snd (boundary_step ct e b)" boundary_keeps for ct
  by unfold_locales (simp_all add: boundary_keeps_refl boundary_step_keeps boundary_keeps_trans)

lemma set_state_closed: "sessions b sid = Some r \<Longrightarrow> state r = SClosed \<Longrightarrow> set_state sid r SClosed b = b"
  by (cases b; cases r) (auto simp: set_state_def fun_upd_idem)

section \<open>Properties\<close>

definition sample_boundary :: boundary where
  "sample_boundary = snd (session_create [1] ''https://a'' 100 10 (Ok [7])
     (boundary_new (origin_policy_new [''https://a''] []) 50))"

definition attached_boundary :: boundary where
  "attached_boundary = snd (session_attach (=) [1] ''https://a'' [7] [9] 20 sample_boundary)"

definition disconnected_boundary :: boundary where
  "disconnected_boundary = snd (session_disconnect [1] [9] 30 attached_boundary)"

text \<open>
  C36. A closed session is closed for good. After any further events on the boundary it is still recorded as
  closed, with its origin and deadline, and it cannot be re-created, rotated, attached, validated or disconnected:
  creating it again is \<open>Denied\<close>, and each of the others is refused as \<open>Closed\<close>, or as \<open>Expired\<close>
  when the creation deadline has passed and the operation checks it. Revoking it again succeeds, and deleting it
  answers as the deletion itself does; none of the operations changes anything.
\<close>

theorem closed_session_is_terminal:
  assumes "sessions b sid = Some r" and "state r = SClosed" and "c = boundary_run ct events b"
  shows "sessions c sid = Some r \<and>
    (\<forall>org deadline now issued. session_create sid org deadline now issued c = (Err Denied, c)) \<and>
    (\<forall>org cred now issued. session_rotate ct sid org cred now issued c =
       (Err (if expires_at r \<le> now then Expired else Closed_Error), c)) \<and>
    (\<forall>org cred att now. session_attach ct sid org cred att now c =
       (Err (if expires_at r \<le> now then Expired else Closed_Error), c)) \<and>
    (\<forall>org cred now. session_validate_attach ct sid org cred now c = Err Closed_Error) \<and>
    (\<forall>att now. session_validate_active sid att now c =
       (Err (if expires_at r \<le> now then Expired else Closed_Error), c)) \<and>
    (\<forall>att now. session_disconnect sid att now c =
       (Err (if expires_at r \<le> now then Expired else Closed_Error), c)) \<and>
    session_revoke sid c = (Ok (), c) \<and>
    session_delete sid (Ok ()) c = (Ok (), c) \<and> (\<forall>e. session_delete sid (Err e) c = (Err DeletionFailed, c))"
proof -
  obtain r' where r': "sessions c sid = Some r'" "origin r' = origin r" "expires_at r' = expires_at r" "state r' = SClosed"
    using boundary_machine.keeps_run [of b ct events] assms unfolding boundary_keeps_def boundary_run_def by blast
  with assms(2) have "sessions c sid = Some r" by (cases r; cases r') simp
  with assms(2) show ?thesis
    by (simp add: session_create_def session_rotate_def session_attach_def session_validate_active_def
        session_validate_attach_def session_disconnect_def session_revoke_def session_delete_def authorise_cases
        session_expire_eq attached_def set_state_closed)
qed

theorem closed_session_is_terminal_witness:
  "session_attach (=) [1] ''https://a'' [7] [9] 20 (boundary_run (=) [ECreate [1] ''https://a'' 100 10 (Ok [8])]
     (snd (session_revoke [1] sample_boundary))) =
   (Err Closed_Error, boundary_run (=) [ECreate [1] ''https://a'' 100 10 (Ok [8])]
     (snd (session_revoke [1] sample_boundary)))"
proof -
  let ?b = "snd (session_revoke [1] sample_boundary)"
  have "sessions ?b [1] = Some \<lparr>origin = ''https://a'', expires_at = 100, state = SClosed\<rparr>" by code_simp
  moreover have "state \<lparr>origin = ''https://a'', expires_at = 100, state = SClosed\<rparr> = SClosed" by simp
  ultimately have "session_attach (=) [1] ''https://a'' [7] [9] 20 (boundary_run (=) [ECreate [1] ''https://a'' 100 10 (Ok [8])] ?b) =
    (Err (if expires_at \<lparr>origin = ''https://a'', expires_at = 100, state = SClosed\<rparr> \<le> 20 then Expired else Closed_Error),
      boundary_run (=) [ECreate [1] ''https://a'' 100 10 (Ok [8])] ?b)"
    using closed_session_is_terminal [OF _ _ refl] by blast
  then show ?thesis by simp
qed

text \<open>
  C37. Attaching authenticates. If \<open>attach\<close> succeeds, the session was open for exactly the given origin
  and the current credential, and was within its creation deadline (if never attached) or its reconnect
  lease (if disconnected). Afterwards the given attachment is the only one that passes validation, and
  no other session changed.
\<close>

theorem attach_authenticates:
  assumes "\<forall>x y. ct x y \<longleftrightarrow> x = y" and "session_attach ct sid org cred att now b = (Ok outcome, c)"
  shows "(\<exists>r current. sessions b sid = Some r \<and> origin r = org \<and> state r = SOpen cred current \<and>
      (case current of None \<Rightarrow> now < expires_at r \<and> outcome = Attached
       | Some (Active old) \<Rightarrow> outcome = Replaced old
       | Some (Disconnected lease) \<Rightarrow> now < lease \<and> outcome = Reconnected)) \<and>
    (\<forall>a later. fst (session_validate_active sid a later c) = (if a = att then Ok () else Err Denied)) \<and>
    (\<forall>other. other \<noteq> sid \<longrightarrow> sessions c other = sessions b other)"
proof -
  obtain r expected current where r: "session_authorise ct sid org cred now b = (Ok (), b)" "sessions b sid = Some r"
    "state r = SOpen expected current" "origin r = org" "ct expected cred" "current = None \<longrightarrow> now < expires_at r"
    using assms(2) authorise_ok [of ct sid org cred now b]
    by (auto simp: session_attach_def split: prod.splits sum.splits)
  then have c: "c = set_state sid r (SOpen expected (Some (Active att))) b" and
    "case current of None \<Rightarrow> outcome = Attached | Some (Active old) \<Rightarrow> outcome = Replaced old
       | Some (Disconnected lease) \<Rightarrow> now < lease \<and> outcome = Reconnected"
    using assms(2) by (auto simp: session_attach_def split: option.splits attachment.splits if_splits)
  moreover have "fst (session_validate_active sid a later c) = (if a = att then Ok () else Err Denied)" for a later
    by (simp add: c session_validate_active_def session_expire_eq attached_def)
  ultimately show ?thesis using r assms(1) by (auto split: option.splits attachment.splits)
qed

theorem attach_authenticates_witness:
  "fst (session_validate_active [1] [9] 1000 attached_boundary) = Ok () \<and>
   fst (session_validate_active [1] [8] 1000 attached_boundary) = Err Denied"
proof -
  have "fst (session_attach (=) [1] ''https://a'' [7] [9] 20 sample_boundary) = Ok Attached" by code_simp
  then have "session_attach (=) [1] ''https://a'' [7] [9] 20 sample_boundary = (Ok Attached, attached_boundary)"
    by (simp add: attached_boundary_def prod_eq_iff)
  from attach_authenticates [OF _ this] show ?thesis by simp
qed

text \<open>
  Rotation revokes the old credential at once: after a successful rotation to a different credential
  the old one authorises neither an attachment nor another rotation, while the new one does.
\<close>

theorem rotation_revokes_old_credential:
  assumes "\<forall>x y. ct x y \<longleftrightarrow> x = y" and "session_rotate ct sid org cred now issued b = (Ok new, c)" and "new \<noteq> cred"
  shows "(\<forall>att later. fst (session_attach ct sid org cred att later c) \<in> {Err Denied, Err Expired}) \<and>
    (\<forall>later again. fst (session_rotate ct sid org cred later again c) \<in> {Err Denied, Err Expired}) \<and>
    session_authorise ct sid org new now c = (Ok (), c)"
proof -
  obtain r expected current where r: "session_authorise ct sid org cred now b = (Ok (), b)" "sessions b sid = Some r"
    "state r = SOpen expected current" "origin r = org" "ct expected cred" "current = None \<longrightarrow> now < expires_at r"
    using assms(2) authorise_ok [of ct sid org cred now b]
    by (auto simp: session_rotate_def split: prod.splits sum.splits)
  then have c: "c = set_state sid r (SOpen new current) b"
    using assms(2) by (auto simp: session_rotate_def split: sum.splits)
  show ?thesis
    using r assms(1,3)
    by (auto simp: c session_attach_def session_rotate_def authorise_cases session_expire_eq attached_def
        split: option.splits)
qed

theorem rotation_revokes_old_credential_witness:
  "fst (session_attach (=) [1] ''https://a'' [7] [9] 20
     (snd (session_rotate (=) [1] ''https://a'' [7] 15 (Ok [8]) sample_boundary))) \<in> {Err Denied, Err Expired}"
proof -
  have "fst (session_rotate (=) [1] ''https://a'' [7] 15 (Ok [8]) sample_boundary) = Ok [8]" by code_simp
  then have "session_rotate (=) [1] ''https://a'' [7] 15 (Ok [8]) sample_boundary =
      (Ok [8], snd (session_rotate (=) [1] ''https://a'' [7] 15 (Ok [8]) sample_boundary))"
    by (simp add: prod_eq_iff)
  from rotation_revokes_old_credential [OF _ this] show ?thesis by simp
qed

lemma saturating_add_unat: "unat (saturating_add a b) = min (unat a + unat b) (2 ^ 64 - 1)"
proof -
  have sum: "uint a + uint b < 2 ^ 64 \<longleftrightarrow> unat a + unat b < 2 ^ 64"
    using of_nat_less_iff [of "unat a + unat b" "2 ^ 64", where 'a = int] by simp
  show ?thesis
  proof (cases "unat a + unat b < 2 ^ 64")
    case True
    then have "uint a + uint b < 2 ^ 64" unfolding sum .
    with True show ?thesis by (simp add: saturating_add_def unat_word_ariths)
  next
    case False
    then have "\<not> uint a + uint b < 2 ^ 64" unfolding sum .
    with False show ?thesis by (simp add: saturating_add_def unsigned_minus_1_eq_mask mask_eq_exp_minus_1)
  qed
qed

text \<open>
  The reconnect lease. Disconnecting the active attachment grants a lease of \<open>reconnect_for\<close> from
  now, saturating at the largest \<open>u64\<close>; attaching again with the session's origin and credential
  succeeds as a reconnection strictly before the lease ends, and is refused as expired from then on.
\<close>

theorem reconnect_lease_window:
  assumes "\<forall>x y. ct x y \<longleftrightarrow> x = y" and "session_disconnect sid att now b = (Ok lease, c)"
    and "sessions b sid = Some r" and "state r = SOpen cred current"
  shows "unat lease = min (unat now + unat (reconnect_for b)) (2 ^ 64 - 1) \<and> current = Some (Active att) \<and>
    (\<forall>again later. fst (session_attach ct sid (origin r) cred again later c) =
       (if later < lease then Ok Reconnected else Err Expired)) \<and>
    (\<forall>a later. fst (session_validate_active sid a later c) = Err Denied)"
proof -
  have exp: "session_expire sid now b = (Ok (), b)"
    using assms(2) by (auto simp: session_disconnect_def session_expire_eq split: option.splits if_splits)
  have cur: "current = Some (Active att)" and lease: "lease = saturating_add now (reconnect_for b)"
    and c: "c = set_state sid r (SOpen cred (Some (Disconnected lease))) b"
    using assms(2-4) exp by (auto simp: session_disconnect_def Let_def split: if_splits)
  have "fst (session_attach ct sid (origin r) cred again later c) = (if later < lease then Ok Reconnected else Err Expired)"
    for again later
    using assms(1) by (simp add: c session_attach_def authorise_cases session_expire_eq attached_def)
  moreover have "fst (session_validate_active sid a later c) = Err Denied" for a later
    by (simp add: c session_validate_active_def session_expire_eq attached_def)
  ultimately show ?thesis using cur lease saturating_add_unat by simp
qed

theorem reconnect_lease_window_witness:
  "fst (session_attach (=) [1] ''https://a'' [7] [4] 79 disconnected_boundary) = Ok Reconnected \<and>
   fst (session_attach (=) [1] ''https://a'' [7] [4] 80 disconnected_boundary) = Err Expired"
proof -
  have "fst (session_disconnect [1] [9] 30 attached_boundary) = Ok 80"
    and r: "sessions attached_boundary [1] =
      Some \<lparr>origin = ''https://a'', expires_at = 100, state = SOpen [7] (Some (Active [9]))\<rparr>"
    by code_simp+
  then have "session_disconnect [1] [9] 30 attached_boundary = (Ok 80, disconnected_boundary)"
    by (simp add: disconnected_boundary_def prod_eq_iff)
  from reconnect_lease_window [OF _ this r] show ?thesis by simp
qed

text \<open>
  C38. \<open>validate_attach\<close> against \<open>attach\<close>. When \<open>attach\<close> would succeed, validation succeeds; when it
  fails other than by expiry, validation fails with the same error. When it fails by expiry, there are
  three cases: a never-attached session past its deadline (validation agrees), a closed session past its
  deadline (validation reports it closed) and a disconnected session whose lease has run out, which
  validation accepts.
\<close>

theorem validate_attach_agrees:
  assumes "session_attach ct sid org cred att now b = (res, c)"
  shows "case res of
      Inr _ \<Rightarrow> session_validate_attach ct sid org cred now b = Ok ()
    | Inl Expired \<Rightarrow>
        (\<exists>r. sessions b sid = Some r \<and>
          (case state r of
             SOpen _ None \<Rightarrow> expires_at r \<le> now \<and> session_validate_attach ct sid org cred now b = Err Expired
           | SClosed \<Rightarrow> expires_at r \<le> now \<and> session_validate_attach ct sid org cred now b = Err Closed_Error
           | SOpen _ (Some (Disconnected lease)) \<Rightarrow> lease \<le> now \<and> session_validate_attach ct sid org cred now b = Ok ()
           | SOpen _ (Some (Active _)) \<Rightarrow> False))
    | Inl e \<Rightarrow> session_validate_attach ct sid org cred now b = Err e"
proof (cases "sessions b sid")
  case None
  with assms show ?thesis
    by (auto simp: session_attach_def authorise_cases session_expire_eq session_validate_attach_def)
next
  case (Some r)
  with assms show ?thesis
    by (cases "state r")
      (auto simp: session_attach_def authorise_cases session_expire_eq attached_def session_validate_attach_def
        Let_def not_less split: option.splits attachment.splits if_splits)
qed

theorem validate_attach_agrees_witness:
  "session_validate_attach (=) [1] ''https://a'' [7] 80 disconnected_boundary = Ok () \<and>
   fst (session_attach (=) [1] ''https://a'' [7] [4] 80 disconnected_boundary) = Err Expired"
proof -
  have att: "fst (session_attach (=) [1] ''https://a'' [7] [4] 80 disconnected_boundary) = Err Expired"
    and r: "sessions disconnected_boundary [1] =
      Some \<lparr>origin = ''https://a'', expires_at = 100, state = SOpen [7] (Some (Disconnected 80))\<rparr>"
    by code_simp+
  then have "session_attach (=) [1] ''https://a'' [7] [4] 80 disconnected_boundary =
      (Err Expired, snd (session_attach (=) [1] ''https://a'' [7] [4] 80 disconnected_boundary))"
    by (simp add: prod_eq_iff)
  from validate_attach_agrees [OF this] r att show ?thesis by simp
qed

lemma saturating_sub_unat: "b \<le> a \<Longrightarrow> unat (saturating_sub a b) = unat a - unat b"
  by (simp add: saturating_sub_def unat_sub)

text \<open>
  Admission. A session is created exactly when the origin is allowed and not denied, the identity is
  fresh, the deadline lies in the future by at most five minutes, and the issuer supplies a credential;
  otherwise nothing changes. A deny entry overrides an allow entry.
\<close>

theorem create_admission:
  "(fst (session_create sid org deadline now issued b) = Ok cred \<longleftrightarrow>
      org \<in> allow (policy b) \<and> org \<notin> deny (policy b) \<and> sessions b sid = None \<and> now < deadline \<and>
      unat deadline - unat now \<le> 300000 \<and> issued = Ok cred) \<and>
   (case session_create sid org deadline now issued b of
      (Inr cr, c) \<Rightarrow> sessions c = (sessions b)(sid \<mapsto> \<lparr>origin = org, expires_at = deadline, state = SOpen cr None\<rparr>)
    | (Inl _, c) \<Rightarrow> c = b)"
proof -
  have "max_session_lease < saturating_sub deadline now \<longleftrightarrow> 300000 < unat deadline - unat now" if "now < deadline"
    using saturating_sub_unat [OF less_imp_le [OF that]] by (simp add: max_session_lease_def word_less_nat_alt)
  then show ?thesis
    by (auto simp: session_create_def policy_permits_def not_le split: sum.splits)
qed

section \<open>Canonical origins\<close>

lemma of_char_lower:
  "(of_char (char_to_ascii_lowercase c) :: nat) =
     (if 65 \<le> (of_char c :: nat) \<and> (of_char c :: nat) \<le> 90 then of_char c + 32 else of_char c)"
  by (simp add: char_to_ascii_lowercase_def Let_def)

lemma char_eq_code: "c = d \<longleftrightarrow> (of_char c :: nat) = of_char d"
  by simp

lemma lower_facts:
  "char_to_ascii_lowercase (char_to_ascii_lowercase c) = char_to_ascii_lowercase c"
  "scheme_char c \<Longrightarrow> scheme_char (char_to_ascii_lowercase c)"
  "char_is_whitespace (char_to_ascii_lowercase c) = char_is_whitespace c"
  "char_to_ascii_lowercase c \<in> set ''/?#@'' \<longleftrightarrow> c \<in> set ''/?#@''"
  "scheme_char c \<Longrightarrow> c \<noteq> CHR '':''"
proof -
  let ?n = "of_char c :: nat" and ?l = "char_to_ascii_lowercase c"
  note codes = char_eq_code [of ?l] char_eq_code [of c]
  show "char_to_ascii_lowercase ?l = ?l"
    unfolding char_eq_code [of "char_to_ascii_lowercase ?l"] of_char_lower by auto
  show "scheme_char c \<Longrightarrow> scheme_char ?l"
    unfolding scheme_char_def char_is_ascii_alphanumeric_def codes of_char_lower Let_def by auto
  show "char_is_whitespace ?l = char_is_whitespace c"
    unfolding char_is_whitespace_def Let_def of_char_lower by auto
  have "d \<in> set ''/?#@'' \<longleftrightarrow> (of_char d :: nat) \<in> {47, 63, 35, 64}" for d
    by (simp add: char_eq_code [of d] del: of_char_eq_iff)
  then show "?l \<in> set ''/?#@'' \<longleftrightarrow> c \<in> set ''/?#@''" by (auto simp: of_char_lower)
  show "scheme_char c \<Longrightarrow> c \<noteq> CHR '':''"
    unfolding scheme_char_def char_is_ascii_alphanumeric_def Let_def by auto
qed

lemma split_once_scheme:
  "CHR '':'' \<notin> set scheme \<Longrightarrow> split_once ''://'' (scheme @ ''://'' @ authority) = Some (scheme, authority)"
  by (induction scheme) auto

text \<open>
  Origins are canonical: parsing the text of a parsed origin succeeds and gives the same origin, and
  lower-casing that text changes nothing.
\<close>

theorem origin_parse_canonical:
  assumes "origin_parse value = Ok canon"
  shows "origin_parse canon = Ok canon \<and> map char_to_ascii_lowercase canon = canon"
proof -
  obtain scheme authority where canon: "canon = map char_to_ascii_lowercase scheme @ ''://'' @ map char_to_ascii_lowercase authority"
    and ok: "scheme \<noteq> []" "authority \<noteq> []" "\<forall>c \<in> set authority. c \<notin> set ''/?#@''"
    "\<forall>c \<in> set authority. \<not> char_is_whitespace c" "\<forall>c \<in> set scheme. scheme_char c"
    using assms by (auto simp: origin_parse_def list_ex_iff split: option.splits if_splits prod.splits)
  have "CHR '':'' \<notin> set (map char_to_ascii_lowercase scheme)"
  proof
    assume "CHR '':'' \<in> set (map char_to_ascii_lowercase scheme)"
    then obtain c where "c \<in> set scheme" "CHR '':'' = char_to_ascii_lowercase c" by auto
    with ok(5) lower_facts(2) [of c] lower_facts(5) [of "CHR '':''"] show False by simp
  qed
  from split_once_scheme [OF this, of "map char_to_ascii_lowercase authority"] ok
  have "origin_parse canon = Ok (map (char_to_ascii_lowercase \<circ> char_to_ascii_lowercase) scheme @ ''://'' @
      map (char_to_ascii_lowercase \<circ> char_to_ascii_lowercase) authority)"
    by (simp add: canon origin_parse_def list_ex_iff lower_facts del: set_simps)
  moreover have "char_to_ascii_lowercase CHR '':'' = CHR '':''" "char_to_ascii_lowercase CHR ''/'' = CHR ''/''"
    by code_simp+
  ultimately show ?thesis by (simp add: canon lower_facts(1) comp_def)
qed

theorem origin_parse_canonical_witness: "origin_parse ''https://example.org'' = Ok ''https://example.org''"
proof -
  have "origin_parse ''HTTPS://Example.org'' = Ok ''https://example.org''" by code_simp
  from origin_parse_canonical [OF this] show ?thesis by simp
qed

end
