(* ===== verification/Orna_Media.thy ===== *)
theory Orna_Media
  imports Orna_Text
begin

text \<open>
  Byte-range resolution for media responses: \<open>crates/orna-cli/src/media_range.rs\<close>.

  \<open>resolve_range\<close> reads a \<open>Range\<close> header, \<open>plan_media_response\<close> chooses status and headers, and
  \<open>media_reply\<close> asks the reader for the planned span. The reader is a closure of the caller: the
  argument \<open>read_span\<close>. The model of \<open>media_reply\<close> also returns the span it asked for, if any.
\<close>

section \<open>Model\<close>

datatype range_outcome = Full | Partial u64 u64 | Unsatisfiable

definition parse_digits :: "string \<Rightarrow> u64 option" where
  "parse_digits t = (if t = [] \<or> \<not> list_all is_ascii_digit t then None else parse_u64_digits t)"

definition resolve_range :: "string option \<Rightarrow> u64 \<Rightarrow> range_outcome" where
  "resolve_range header len =
     (case header of
        None \<Rightarrow> Full
      | Some h \<Rightarrow>
          (case strip_prefix ''bytes='' (trim h) of
             None \<Rightarrow> Full
           | Some spec \<Rightarrow>
               if CHR '','' \<in> set spec then Full
               else (case split_once ''-'' (trim spec) of
                  None \<Rightarrow> Full
                | Some (first0, last0) \<Rightarrow>
                    let first = trim first0; final = trim last0
                    in case (first = [], final = []) of
                         (True, False) \<Rightarrow>
                           (case parse_digits final of
                              None \<Rightarrow> Full
                            | Some suffix \<Rightarrow>
                                if suffix = 0 \<or> len = 0 then Unsatisfiable
                                else Partial (saturating_sub len suffix) (len - 1))
                       | (False, True) \<Rightarrow>
                           (case parse_digits first of
                              None \<Rightarrow> Full
                            | Some start \<Rightarrow> if len \<le> start then Unsatisfiable else Partial start (len - 1))
                       | (False, False) \<Rightarrow>
                           (case (parse_digits first, parse_digits final) of
                              (Some start, Some end_pos) \<Rightarrow>
                                if end_pos < start then Full
                                else if len \<le> start then Unsatisfiable
                                else Partial start (min end_pos (len - 1))
                            | _ \<Rightarrow> Full)
                       | (True, True) \<Rightarrow> Full)))"

datatype media_method = Get | Head

record media_response_plan =
  status :: "16 word"
  content_range :: "string option"
  content_length :: u64
  send_body :: bool

definition plan_media_response :: "media_method \<Rightarrow> string option \<Rightarrow> u64 \<Rightarrow> media_response_plan" where
  "plan_media_response verb header len =
     (let body = (verb = Get)
      in case resolve_range header len of
           Full \<Rightarrow> \<lparr>status = 200, content_range = None, content_length = len, send_body = body\<rparr>
         | Partial start end_pos \<Rightarrow>
             \<lparr>status = 206,
              content_range = Some (''bytes '' @ show_u64 start @ ''-'' @ show_u64 end_pos @ ''/'' @ show_u64 len),
              content_length = end_pos - start + 1, send_body = body\<rparr>
         | Unsatisfiable \<Rightarrow>
             \<lparr>status = 416, content_range = Some (''bytes */'' @ show_u64 len), content_length = 0, send_body = False\<rparr>)"

datatype 'e media_reply_error = ReadError 'e | ShortRead u64 u64

record media_reply_value =
  plan :: media_response_plan
  body :: "u8 list"

definition media_reply :: "media_method \<Rightarrow> string option \<Rightarrow> u64 \<Rightarrow> (u64 \<Rightarrow> u64 \<Rightarrow> ('e, u8 list) result) \<Rightarrow>
    (u64 \<times> u64) option \<times> ('e media_reply_error, media_reply_value) result" where
  "media_reply verb header len read_span =
     (let p = plan_media_response verb header len;
          span = (case resolve_range header len of
                    Full \<Rightarrow> if 0 < len then Some (0, len - 1) else None
                  | Unsatisfiable \<Rightarrow> None
                  | Partial start end_pos \<Rightarrow> Some (start, end_pos))
      in case span of
           Some (start, end_pos) \<Rightarrow>
             if send_body p
             then (Some (start, end_pos),
                   case read_span start end_pos of
                     Inl e \<Rightarrow> Err (ReadError e)
                   | Inr b \<Rightarrow>
                       let actual = word_of_int (int (length b))
                       in if actual \<noteq> content_length p then Err (ShortRead (content_length p) actual)
                          else Ok \<lparr>plan = p, body = b\<rparr>)
             else (None, Ok \<lparr>plan = p, body = []\<rparr>)
         | None \<Rightarrow> (None, Ok \<lparr>plan = p, body = []\<rparr>))"

section \<open>Laws\<close>

lemma word_pred:
  fixes len :: u64
  assumes "len \<noteq> 0"
  shows "len - 1 < len" and "x < len \<Longrightarrow> x \<le> len - 1"
proof -
  have "unat (len - 1) = unat len - 1" "0 < unat len"
    using assms by (simp_all add: unat_minus_one unat_gt_0)
  then show "len - 1 < len" and "x < len \<Longrightarrow> x \<le> len - 1"
    by (simp_all add: word_less_nat_alt word_le_nat_alt)
qed

lemma resolve_range_bounds:
  assumes "resolve_range header len = Partial start end_pos"
  shows "start \<le> end_pos \<and> end_pos < len"
proof -
  have sub: "saturating_sub len n \<le> len - 1" if "n \<noteq> 0" "len \<noteq> 0" for n
    using word_pred(2) [OF that(2), of "saturating_sub len n"] that
    by (auto simp: saturating_sub_def word_less_nat_alt unat_sub word_le_nat_alt unat_gt_0 unat_minus_one)
  have nz: "\<not> len \<le> x \<Longrightarrow> len \<noteq> 0" for x by auto
  have lt: "\<not> len \<le> x \<Longrightarrow> x \<le> len - 1 \<and> len - 1 < len" for x
    using word_pred [OF nz] by auto
  have mn: "\<not> len \<le> x \<Longrightarrow> \<not> y < x \<Longrightarrow> x \<le> min y (len - 1) \<and> min y (len - 1) < len" for x y
    using lt [of x] by (auto simp: min_def)
  show ?thesis
    using assms sub lt mn word_pred(1) [of len]
    by (auto simp: resolve_range_def Let_def word_gt_0 split: option.splits if_splits bool.splits prod.splits)
qed

text \<open>The size of a span, and the span of a whole representation.\<close>

lemma span_size: "s \<le> e \<Longrightarrow> e < len \<Longrightarrow> unat (e - s + 1) = unat e - unat s + 1" for s e len :: u64
proof -
  assume "s \<le> e" "e < len"
  moreover from this have "unat e + 1 < 2 ^ 64"
    using unsigned_less [of len, where 'a = nat] by (simp add: word_less_nat_alt)
  ultimately show ?thesis by (simp add: unat_word_ariths unat_sub word_le_nat_alt)
qed

lemma span_of_all:
  fixes len :: u64
  assumes "0 < len"
  shows "unat len = unat (len - 1) - unat (0::u64) + 1" and "len - 1 < len"
    and "{unat (0::u64)..unat (len - 1)} = {i. i < unat len}"
proof -
  have "len \<noteq> 0" "0 < unat len" using assms by (auto simp: unat_gt_0)
  with word_pred(1) [of len] show "unat len = unat (len - 1) - unat (0::u64) + 1" and "len - 1 < len"
    and "{unat (0::u64)..unat (len - 1)} = {i. i < unat len}"
    by (auto simp: unat_minus_one)
qed

section \<open>The header grammar\<close>

datatype byte_range = Suffix u64 | From u64 | Closed u64 u64

fun render_range :: "byte_range \<Rightarrow> string" where
  "render_range (Suffix n) = ''bytes=-'' @ show_u64 n"
| "render_range (From a) = ''bytes='' @ show_u64 a @ ''-''"
| "render_range (Closed a b) = ''bytes='' @ show_u64 a @ ''-'' @ show_u64 b"

fun inverted :: "byte_range \<Rightarrow> bool" where
  "inverted (Closed a b) = (b < a)"
| "inverted _ = False"

text \<open>The byte positions a range selects from a representation, per RFC 9110 section 14.1.2.\<close>

fun selected :: "byte_range \<Rightarrow> u64 \<Rightarrow> nat set" where
  "selected (Suffix n) len = {i. i < unat len \<and> unat len \<le> i + unat n}"
| "selected (From a) len = {i. i < unat len \<and> unat a \<le> i}"
| "selected (Closed a b) len = {i. i < unat len \<and> unat a \<le> i \<and> i \<le> unat b}"

lemma parse_digits_show: "parse_digits (show_u64 n) = Some n"
  by (auto simp: parse_digits_def show_u64_facts list_all_iff parse_show_u64)

lemma trim_show: "trim (show_u64 n) = show_u64 n" "trim [] = []"
  by (rule trim_none, simp add: show_u64_facts) (simp add: trim_def trim_start_def)

lemma trim_render:
  "trim (render_range spec) = render_range spec"
  "trim (drop 6 (render_range spec)) = drop 6 (render_range spec)"
  by (rule trim_none; cases spec; auto simp: show_u64_facts char_is_whitespace_def Let_def dest: show_u64_facts(3))+

lemma resolve_render:
  "resolve_range (Some (render_range (Suffix n))) len =
     (if n = 0 \<or> len = 0 then Unsatisfiable else Partial (saturating_sub len n) (len - 1))"
  "resolve_range (Some (render_range (From a))) len = (if len \<le> a then Unsatisfiable else Partial a (len - 1))"
  "resolve_range (Some (render_range (Closed a b))) len =
     (if b < a then Full else if len \<le> a then Unsatisfiable else Partial a (min b (len - 1)))"
  using trim_render [of "Suffix n"] trim_render [of "From a"] trim_render [of "Closed a b"]
    split_once_char [of "[]"] split_once_char [of "show_u64 a" "[]"] split_once_char [of "show_u64 a" "show_u64 b"]
  by (simp_all add: resolve_range_def strip_prefix_def show_u64_no_sep show_u64_facts trim_show parse_digits_show Let_def)

section \<open>Properties\<close>

text \<open>
  A single byte-range header means what RFC 9110 says. For every suffix, open-ended or closed range
  and every representation length: an inverted range is ignored, a range that selects no byte is
  unsatisfiable, and otherwise the served span is exactly the set of selected positions.
\<close>

theorem range_header_semantics:
  "case resolve_range (Some (render_range spec)) len of
     Full \<Rightarrow> inverted spec
   | Partial start end_pos \<Rightarrow> \<not> inverted spec \<and> start \<le> end_pos \<and> selected spec len = {unat start..unat end_pos}
   | Unsatisfiable \<Rightarrow> \<not> inverted spec \<and> selected spec len = {}"
proof -
  have pred: "unat (len - 1) = unat len - 1" if "len \<noteq> 0" using that by (simp add: unat_minus_one)
  have bounds: "resolve_range (Some (render_range spec)) len = Partial s e \<Longrightarrow> s \<le> e" for s e
    using resolve_range_bounds by blast
  show ?thesis
  proof (cases spec)
    case (Suffix n)
    have "unat (saturating_sub len n) = unat len - unat n"
      by (auto simp: saturating_sub_def unat_sub word_le_nat_alt not_le)
    moreover have "len \<noteq> 0 \<Longrightarrow> 0 < unat len" by (simp add: unat_gt_0)
    ultimately show ?thesis
      using Suffix bounds [of "saturating_sub len n" "len - 1"] pred by (auto simp: resolve_render simp del: render_range.simps)
  next
    case (From a)
    show ?thesis
    proof (cases "len \<le> a")
      case True
      with From show ?thesis by (auto simp: resolve_render word_le_nat_alt simp del: render_range.simps)
    next
      case False
      then have "unat a < unat len" "len \<noteq> 0" by (auto simp: word_le_nat_alt)
      with From False bounds [of a "len - 1"] pred show ?thesis
        by (auto simp: resolve_render simp del: render_range.simps)
    qed
  next
    case (Closed a b)
    show ?thesis
    proof (cases "b < a \<or> len \<le> a")
      case True
      with Closed show ?thesis
        by (auto simp: resolve_render word_le_nat_alt word_less_nat_alt simp del: render_range.simps)
    next
      case False
      then have "unat a < unat len" "len \<noteq> 0" by (auto simp: word_le_nat_alt)
      moreover from this pred have "unat (min b (len - 1)) = min (unat b) (unat len - 1)"
        by (auto simp: min_def word_le_nat_alt)
      ultimately show ?thesis
        using Closed False bounds [of a "min b (len - 1)"] by (auto simp: resolve_render simp del: render_range.simps)
    qed
  qed
qed

lemma span_of_header:
  "resolve_range (Some (render_range spec)) len = Full \<Longrightarrow> inverted spec"
  "resolve_range (Some (render_range spec)) len = Partial s e \<Longrightarrow>
     \<not> inverted spec \<and> selected spec len = {unat s..unat e}"
  "resolve_range (Some (render_range spec)) len = Unsatisfiable \<Longrightarrow> \<not> inverted spec \<and> selected spec len = {}"
  using range_header_semantics [of spec len] by simp_all

text \<open>The reply to a \<open>GET\<close> once a span has been asked for.\<close>

definition span_reply :: "string option \<Rightarrow> u64 \<Rightarrow> (u64 \<Rightarrow> u64 \<Rightarrow> ('e, u8 list) result) \<Rightarrow> u64 \<Rightarrow> u64
    \<Rightarrow> ('e media_reply_error, media_reply_value) result" where
  "span_reply header len read_span s e =
     (case read_span s e of
        Inl x \<Rightarrow> Err (ReadError x)
      | Inr b \<Rightarrow>
          if word_of_int (int (length b)) = content_length (plan_media_response Get header len)
          then Ok \<lparr>plan = plan_media_response Get header len, body = b\<rparr>
          else Err (ShortRead (content_length (plan_media_response Get header len)) (word_of_int (int (length b)))))"

lemma media_reply_asks:
  assumes "resolve_range header len = Partial s e \<or> resolve_range header len = Full \<and> 0 < len \<and> s = 0 \<and> e = len - 1"
  shows "media_reply Get header len read_span = (Some (s, e), span_reply header len read_span s e)"
proof -
  have "send_body (plan_media_response Get header len)"
    using assms by (auto simp: plan_media_response_def)
  with assms show ?thesis
    by (elim disjE conjE) (auto simp: media_reply_def span_reply_def Let_def split: sum.splits)
qed

text \<open>
  C40. A media reply serves exactly the range that was resolved. The reader is asked only for a \<open>GET\<close>, and
  then for the span of a \<open>Partial\<close> range or for the whole of a non-empty representation when the range is
  \<open>Full\<close>; the span lies inside the representation, the announced length is its size and the status and
  \<open>Content-Range\<close> name it. For every single-range header the span is exactly the set of positions that the
  header selects, or everything when the range is inverted. A successful reply carries the announced number of bytes
  (modulo \<open>2^64\<close>), and a reader that fails or returns another number of bytes makes the reply that error. The
  reader is not asked only for a \<open>HEAD\<close>, an unsatisfiable range (status 416, which carries no body) or an empty
  representation, and then the reply is the plan without a body.
\<close>

theorem media_reply_serves_plan:
  assumes "media_reply verb header len read_span = (asked, res)"
  shows "(case asked of
      Some (start, end_pos) \<Rightarrow>
        verb = Get \<and> start \<le> end_pos \<and> end_pos < len \<and>
        (resolve_range header len = Partial start end_pos \<and>
           status (plan_media_response verb header len) = 206 \<and>
           content_range (plan_media_response verb header len) =
             Some (''bytes '' @ show_u64 start @ ''-'' @ show_u64 end_pos @ ''/'' @ show_u64 len)
         \<or> resolve_range header len = Full \<and> start = 0 \<and> end_pos = len - 1 \<and>
           status (plan_media_response verb header len) = 200 \<and>
           content_range (plan_media_response verb header len) = None) \<and>
        (\<forall>spec. header = Some (render_range spec) \<longrightarrow>
           {unat start..unat end_pos} = (if inverted spec then {i. i < unat len} else selected spec len)) \<and>
        unat (content_length (plan_media_response verb header len)) = unat end_pos - unat start + 1 \<and>
        (case read_span start end_pos of
           Inl e \<Rightarrow> res = Err (ReadError e)
         | Inr b \<Rightarrow>
             if word_of_int (int (length b)) = content_length (plan_media_response verb header len)
             then res = Ok \<lparr>plan = plan_media_response verb header len, body = b\<rparr>
             else res = Err (ShortRead (content_length (plan_media_response verb header len)) (word_of_int (int (length b)))))
    | None \<Rightarrow>
        res = Ok \<lparr>plan = plan_media_response verb header len, body = []\<rparr> \<and>
        (verb = Head
         \<or> resolve_range header len = Unsatisfiable \<and> status (plan_media_response verb header len) = 416 \<and>
           \<not> send_body (plan_media_response verb header len) \<and>
           (\<forall>spec. header = Some (render_range spec) \<longrightarrow> \<not> inverted spec \<and> selected spec len = {})
         \<or> resolve_range header len = Full \<and> len = 0))"
proof -
  have m: "verb = Get \<or> verb = Head" by (cases verb) auto
  show ?thesis
  proof (cases "resolve_range header len")
    case Full
    have spec: "\<forall>spec. header = Some (render_range spec) \<longrightarrow> inverted spec"
      using Full span_of_header(1) by blast
    show ?thesis
    proof (cases "len = 0 \<or> verb = Head")
      case True
      then have "asked = None \<and> res = Ok \<lparr>plan = plan_media_response verb header len, body = []\<rparr>"
        using assms Full by (elim disjE) (auto simp: media_reply_def plan_media_response_def Let_def split: if_splits)
      with True Full show ?thesis by auto
    next
      case False
      then have len: "0 < len" and verb: "verb = Get" using m by (auto simp: word_gt_0)
      from assms media_reply_asks [of header len 0 "len - 1" read_span] Full len verb
      have "asked = Some (0, len - 1)" "res = span_reply header len read_span 0 (len - 1)" by simp_all
      then show ?thesis
        using spec span_of_all [OF len] Full verb
        by (cases "read_span 0 (len - 1)") (simp_all add: span_reply_def plan_media_response_def)
    qed
  next
    case (Partial s e)
    have spec: "\<forall>spec. header = Some (render_range spec) \<longrightarrow> \<not> inverted spec \<and> selected spec len = {unat s..unat e}"
      using Partial span_of_header(2) by blast
    note bounds = resolve_range_bounds [OF Partial]
    show ?thesis
    proof (cases "verb = Head")
      case True
      with assms Partial show ?thesis by (simp add: media_reply_def plan_media_response_def Let_def)
    next
      case False
      then have verb: "verb = Get" using m by blast
      from assms media_reply_asks [of header len s e read_span] Partial verb
      have "asked = Some (s, e)" "res = span_reply header len read_span s e" by simp_all
      then show ?thesis
        using spec bounds span_size [of s e len] Partial verb
        by (cases "read_span s e") (simp_all add: span_reply_def plan_media_response_def)
    qed
  next
    case Unsatisfiable
    have spec: "\<forall>spec. header = Some (render_range spec) \<longrightarrow> \<not> inverted spec \<and> selected spec len = {}"
      using Unsatisfiable span_of_header(3) by blast
    with Unsatisfiable assms show ?thesis by (auto simp: media_reply_def plan_media_response_def Let_def
          simp del: render_range.simps)
  qed
qed

theorem media_reply_serves_plan_witness:
  "media_reply Get (Some ''bytes=2-4'') 10 (\<lambda>_ _. Ok [2, 3] :: (unit, u8 list) result) =
     (Some (2, 4), Err (ShortRead 3 2)) \<and>
   unat (content_length (plan_media_response Get (Some ''bytes=2-4'') 10)) = 3"
proof -
  have run: "media_reply Get (Some ''bytes=2-4'') 10 (\<lambda>_ _. Ok [2, 3] :: (unit, u8 list) result) =
      (Some (2, 4), Err (ShortRead 3 2))"
    by code_simp
  from media_reply_serves_plan [OF run] run show ?thesis by simp
qed

end
