(* ===== verification/Orna_Value.thy ===== *)
theory Orna_Value
  imports Orna_Prelude
begin

text \<open>
  The canonical value codec OVB-1: \<open>crates/orna-value/src/lib.rs\<close>.

  \<open>raw\<close> is the data model, \<open>validate_raw\<close>, \<open>write_raw\<close> and \<open>encode_raw\<close> are the mutually
  recursive validator and encoder, and \<open>rd_raw\<close> is the bounded reader. The closed registry of
  tagged shapes (\<open>validate_tag\<close>) is the argument \<open>vtag\<close>: the results hold for every registry
  that, as the code's does, has no entry for the two big-integer tags.

  A Rust \<open>String\<close> is its UTF-8 byte sequence; \<open>texts_utf8\<close> says so of a value. \<open>usize\<close> is a
  natural number and the one checked addition writes its bound out.
\<close>

unbundle bit_operations_syntax

section \<open>The data model\<close>

datatype raw =
    RNull
  | RBool bool
  | RInt int
  | RFloat u64
  | RBytes "u8 list"
  | RText "u8 list"
  | RArray "raw list"
  | RMap "(raw \<times> raw) list"
  | RTag u64 raw

datatype ovb_error =
    Truncated | TrailingBytes | Limit | Unsupported | NonCanonical | InvalidUtf8 | InvalidTag
  | InvalidValue | DuplicateOrUnorderedMapKey | ProtectedValue | InvalidPath | InvalidSchema
  | DecimalLimit | DivisionByZero | NonFiniteDecimal

definition MAX_DEPTH :: nat where
  "MAX_DEPTH = 128"

definition MAX_ITEMS :: int where
  "MAX_ITEMS = 1000000"

definition CANONICAL_NAN_BITS :: u64 where
  "CANONICAL_NAN_BITS = 0x7ff8000000000000"

definition is_nan_bits :: "u64 \<Rightarrow> bool" where
  "is_nan_bits bits \<longleftrightarrow>
     bits AND 0x7ff0000000000000 = 0x7ff0000000000000 \<and> bits AND 0x000fffffffffffff \<noteq> 0"

section \<open>Bytes of integers\<close>

definition to_be_bytes :: "nat \<Rightarrow> int \<Rightarrow> u8 list" where
  "to_be_bytes width n = map (\<lambda>i. word_of_int (n div 256 ^ i)) (rev [0..<width])"

definition from_be_bytes :: "u8 list \<Rightarrow> int" where
  "from_be_bytes bs = fold (\<lambda>b n. n * 256 + uint b) bs 0"

text \<open>\<open>BigInt::to_bytes_be\<close> of a magnitude: no leading zero byte.\<close>

function magnitude_bytes :: "int \<Rightarrow> u8 list" where
  "magnitude_bytes n =
     (if n < 256 then [word_of_int n] else magnitude_bytes (n div 256) @ [word_of_int (n mod 256)])"
  by pat_completeness auto

termination
  by (relation "measure nat") auto

declare magnitude_bytes.simps [simp del]

definition head_byte :: "u8 \<Rightarrow> u8 \<Rightarrow> u8" where
  "head_byte major low = push_bit 5 major OR low"

definition ovb_head :: "u8 \<Rightarrow> u64 \<Rightarrow> u8 list" where
  "ovb_head major n =
     (if n < 24 then [head_byte major (ucast n)]
      else if n \<le> 0xff then [head_byte major 24, ucast n]
      else if n \<le> 0xffff then head_byte major 25 # to_be_bytes 2 (uint n)
      else if n \<le> 0xffffffff then head_byte major 26 # to_be_bytes 4 (uint n)
      else head_byte major 27 # to_be_bytes 8 (uint n))"

definition len_u64 :: "'a list \<Rightarrow> u64" where
  "len_u64 xs = word_of_int (int (length xs))"

section \<open>UTF-8\<close>

definition utf8_tail :: "u8 \<Rightarrow> bool" where
  "utf8_tail b \<longleftrightarrow> 0x80 \<le> b \<and> b \<le> 0xbf"

fun utf8_valid :: "u8 list \<Rightarrow> bool" where
  "utf8_valid [] = True"
| "utf8_valid (a # r) =
     (if a \<le> 0x7f then utf8_valid r
      else if a < 0xc2 then False
      else if a \<le> 0xdf then (case r of b # r' \<Rightarrow> utf8_tail b \<and> utf8_valid r' | _ \<Rightarrow> False)
      else if a \<le> 0xef then
        (case r of b # c # r' \<Rightarrow>
           (if a = 0xe0 then 0xa0 \<le> b \<and> b \<le> 0xbf
            else if a = 0xed then 0x80 \<le> b \<and> b \<le> 0x9f else utf8_tail b) \<and>
           utf8_tail c \<and> utf8_valid r'
         | _ \<Rightarrow> False)
      else if a \<le> 0xf4 then
        (case r of b # c # d # r' \<Rightarrow>
           (if a = 0xf0 then 0x90 \<le> b \<and> b \<le> 0xbf
            else if a = 0xf4 then 0x80 \<le> b \<and> b \<le> 0x8f else utf8_tail b) \<and>
           utf8_tail c \<and> utf8_tail d \<and> utf8_valid r'
         | _ \<Rightarrow> False)
      else False)"

section \<open>Validation and encoding\<close>

type_synonym tag_registry = "u64 \<Rightarrow> raw \<Rightarrow> (ovb_error, unit) result"

definition write_int :: "int \<Rightarrow> u8 list" where
  "write_int i =
     (let neg = (i < 0); n = (if neg then - i - 1 else i) in
      if n = 0 then ovb_head (if neg then 1 else 0) 0
      else if n < 2 ^ 64 then ovb_head (if neg then 1 else 0) (word_of_int n)
      else let b = magnitude_bytes n in
        ovb_head 6 (if neg then 3 else 2) @ ovb_head 2 (len_u64 b) @ b)"

definition write_float :: "u64 \<Rightarrow> u8 list" where
  "write_float bits = 0xfb # to_be_bytes 8 (uint (if is_nan_bits bits then CANONICAL_NAN_BITS else bits))"

text \<open>
  The entries of a map as the encoder meets them: all keys are encoded in the order of the map, the
  first failure wins; then the entries are sorted by key bytes, repeated key bytes are refused, and
  the values are written in the sorted order.
\<close>

fun collect_keys :: "((ovb_error, u8 list) result \<times> 'v) list \<Rightarrow> (ovb_error, (u8 list \<times> 'v) list) result" where
  "collect_keys [] = Ok []"
| "collect_keys ((k, v) # es) =
     (case k of Inl e \<Rightarrow> Err e
      | Inr kb \<Rightarrow> (case collect_keys es of Inl e \<Rightarrow> Err e | Inr items \<Rightarrow> Ok ((kb, v) # items)))"

fun adjacent_equal :: "'a list \<Rightarrow> bool" where
  "adjacent_equal (x # y # r) \<longleftrightarrow> x = y \<or> adjacent_equal (y # r)"
| "adjacent_equal _ \<longleftrightarrow> False"

fun write_sorted :: "(u8 list \<times> (ovb_error, u8 list) result) list \<Rightarrow> (ovb_error, u8 list) result" where
  "write_sorted [] = Ok []"
| "write_sorted ((kb, v) # items) =
     (case v of Inl e \<Rightarrow> Err e
      | Inr vb \<Rightarrow> (case write_sorted items of Inl e \<Rightarrow> Err e | Inr out \<Rightarrow> Ok (kb @ vb @ out)))"

definition write_map ::
  "((ovb_error, u8 list) result \<times> (ovb_error, u8 list) result) list \<Rightarrow> (ovb_error, u8 list) result" where
  "write_map entries =
     (case collect_keys entries of
        Inl e \<Rightarrow> Err e
      | Inr items \<Rightarrow>
          let items = sort_key fst items in
          if adjacent_equal (map fst items) then Err DuplicateOrUnorderedMapKey
          else (case write_sorted items of
                  Inl e \<Rightarrow> Err e
                | Inr out \<Rightarrow> Ok (ovb_head 5 (len_u64 items) @ out)))"

function (sequential) validate_raw :: "tag_registry \<Rightarrow> raw \<Rightarrow> nat \<Rightarrow> (ovb_error, unit) result" and
  validate_items :: "tag_registry \<Rightarrow> raw list \<Rightarrow> nat \<Rightarrow> (ovb_error, unit) result" and
  validate_entries :: "tag_registry \<Rightarrow> (raw \<times> raw) list \<Rightarrow> u8 list option \<Rightarrow> nat \<Rightarrow> (ovb_error, unit) result" and
  write_raw :: "tag_registry \<Rightarrow> raw \<Rightarrow> (ovb_error, u8 list) result" and
  write_items :: "tag_registry \<Rightarrow> raw list \<Rightarrow> (ovb_error, u8 list) result" and
  write_entries :: "tag_registry \<Rightarrow> (raw \<times> raw) list \<Rightarrow>
    ((ovb_error, u8 list) result \<times> (ovb_error, u8 list) result) list" and
  encode_raw :: "tag_registry \<Rightarrow> raw \<Rightarrow> (ovb_error, u8 list) result"
where
  "validate_raw vtag v depth =
     (if depth > MAX_DEPTH then Err Limit
      else case v of
        RFloat bits \<Rightarrow> if is_nan_bits bits \<and> bits \<noteq> CANONICAL_NAN_BITS then Err NonCanonical else Ok ()
      | RArray a \<Rightarrow> validate_items vtag a (depth + 1)
      | RMap m \<Rightarrow> validate_entries vtag m None (depth + 1)
      | RTag n x \<Rightarrow>
          if n = 0 then Err ProtectedValue
          else (case vtag n x of Inl e \<Rightarrow> Err e | Inr _ \<Rightarrow> validate_raw vtag x (depth + 1))
      | _ \<Rightarrow> Ok ())"
| "validate_items vtag [] depth = Ok ()"
| "validate_items vtag (x # a) depth =
     (case validate_raw vtag x depth of Inl e \<Rightarrow> Err e | Inr _ \<Rightarrow> validate_items vtag a depth)"
| "validate_entries vtag [] previous depth = Ok ()"
| "validate_entries vtag ((k, v) # m) previous depth =
     (case validate_raw vtag k depth of Inl e \<Rightarrow> Err e | Inr _ \<Rightarrow>
     (case validate_raw vtag v depth of Inl e \<Rightarrow> Err e | Inr _ \<Rightarrow>
     (case encode_raw vtag k of Inl e \<Rightarrow> Err e | Inr b \<Rightarrow>
        if (case previous of None \<Rightarrow> False | Some p \<Rightarrow> b \<le> p) then Err DuplicateOrUnorderedMapKey
        else validate_entries vtag m (Some b) depth)))"
| "write_raw vtag v =
     (case v of
        RNull \<Rightarrow> Ok [0xf6]
      | RBool b \<Rightarrow> Ok [if b then 0xf5 else 0xf4]
      | RInt i \<Rightarrow> Ok (write_int i)
      | RFloat bits \<Rightarrow> Ok (write_float bits)
      | RBytes b \<Rightarrow> Ok (ovb_head 2 (len_u64 b) @ b)
      | RText s \<Rightarrow> Ok (ovb_head 3 (len_u64 s) @ s)
      | RArray a \<Rightarrow>
          (case write_items vtag a of Inl e \<Rightarrow> Err e | Inr out \<Rightarrow> Ok (ovb_head 4 (len_u64 a) @ out))
      | RMap m \<Rightarrow> write_map (write_entries vtag m)
      | RTag n x \<Rightarrow> (case write_raw vtag x of Inl e \<Rightarrow> Err e | Inr out \<Rightarrow> Ok (ovb_head 6 n @ out)))"
| "write_items vtag [] = Ok []"
| "write_items vtag (x # a) =
     (case write_raw vtag x of Inl e \<Rightarrow> Err e
      | Inr b \<Rightarrow> (case write_items vtag a of Inl e \<Rightarrow> Err e | Inr out \<Rightarrow> Ok (b @ out)))"
| "write_entries vtag [] = []"
| "write_entries vtag ((k, v) # m) = (encode_raw vtag k, write_raw vtag v) # write_entries vtag m"
| "encode_raw vtag v =
     (case validate_raw vtag v 0 of Inl e \<Rightarrow> Err e | Inr _ \<Rightarrow> write_raw vtag v)"
  by pat_completeness auto

termination
  by (relation "measure (\<lambda>x. case x of
      Inl (Inl (_, v, _)) \<Rightarrow> 3 * size v
    | Inl (Inr (Inl (_, a, _))) \<Rightarrow> 3 * size_list size a
    | Inl (Inr (Inr (_, m, _, _))) \<Rightarrow> 3 * size_list (size_prod size size) m
    | Inr (Inl (Inl (_, v))) \<Rightarrow> 3 * size v
    | Inr (Inl (Inr (_, a))) \<Rightarrow> 3 * size_list size a
    | Inr (Inr (Inl (_, m))) \<Rightarrow> 3 * size_list (size_prod size size) m
    | Inr (Inr (Inr (_, v))) \<Rightarrow> 3 * size v + 1)") auto

declare validate_raw.simps [simp del] write_raw.simps [simp del] encode_raw.simps [simp del]

section \<open>The reader\<close>

record reader =
  rd_bytes :: "u8 list"
  rd_at :: nat
  rd_items :: nat

definition rd_new :: "u8 list \<Rightarrow> reader" where
  "rd_new bytes = \<lparr>rd_bytes = bytes, rd_at = 0, rd_items = 0\<rparr>"

definition rd_take :: "nat \<Rightarrow> reader \<Rightarrow> (ovb_error, u8 list \<times> reader) result" where
  "rd_take n r =
     (if int (rd_at r) + int n \<ge> 2 ^ 64 then Err Limit
      else if rd_at r + n \<le> length (rd_bytes r)
      then Ok (take n (drop (rd_at r) (rd_bytes r)), r\<lparr>rd_at := rd_at r + n\<rparr>)
      else Err Truncated)"

definition arg_bytes :: "u64 \<Rightarrow> nat \<Rightarrow> reader \<Rightarrow> (ovb_error, u64 \<times> reader) result" where
  "arg_bytes n w r =
     (case rd_take w r of
        Inl e \<Rightarrow> Err e
      | Inr (bs, r) \<Rightarrow>
          let x = fold (\<lambda>b x. push_bit 8 x OR ucast b) bs 0 in
          if x < n then Err NonCanonical else Ok (x, r))"

definition rd_arg :: "u8 \<Rightarrow> reader \<Rightarrow> (ovb_error, u64 \<times> reader) result" where
  "rd_arg ai r =
     (if ai \<le> 23 then Ok (ucast ai, r)
      else if ai = 24 then arg_bytes 24 1 r
      else if ai = 25 then arg_bytes 256 2 r
      else if ai = 26 then arg_bytes 65536 4 r
      else if ai = 27 then arg_bytes 4294967296 8 r
      else Err Unsupported)"

definition rd_simple :: "u8 \<Rightarrow> reader \<Rightarrow> (ovb_error, raw \<times> reader) result" where
  "rd_simple ai r =
     (if ai = 20 then Ok (RBool False, r)
      else if ai = 21 then Ok (RBool True, r)
      else if ai = 22 then Ok (RNull, r)
      else if ai = 27 then
        (case rd_take 8 r of
           Inl e \<Rightarrow> Err e
         | Inr (a, r) \<Rightarrow>
             let bits = word_of_int (from_be_bytes a) in
             if is_nan_bits bits \<and> bits \<noteq> CANONICAL_NAN_BITS then Err NonCanonical
             else Ok (RFloat bits, r))
      else Err Unsupported)"

definition untag :: "u64 \<Rightarrow> raw \<Rightarrow> (ovb_error, raw) result" where
  "untag n v =
     (if n = 2 \<or> n = 3 then
        (case v of
           RBytes b \<Rightarrow>
             if b = [] \<or> hd b = 0 \<or> length b < 9 then Err NonCanonical
             else let i = from_be_bytes b in Ok (RInt (if n = 2 then i else - i - 1))
         | _ \<Rightarrow> Err InvalidValue)
      else Ok (RTag n v))"

function rd_raw :: "nat \<Rightarrow> reader \<Rightarrow> (ovb_error, raw \<times> reader) result" and
  rd_array :: "nat \<Rightarrow> nat \<Rightarrow> reader \<Rightarrow> (ovb_error, raw list \<times> reader) result" and
  rd_map :: "nat \<Rightarrow> nat \<Rightarrow> u8 list option \<Rightarrow> reader \<Rightarrow> (ovb_error, (raw \<times> raw) list \<times> reader) result"
where
  "rd_raw depth r =
     (if depth > MAX_DEPTH \<or> int (rd_items r) \<ge> MAX_ITEMS then Err Limit
      else case rd_take 1 (r\<lparr>rd_items := rd_items r + 1\<rparr>) of
        Inl e \<Rightarrow> Err e
      | Inr (first, r) \<Rightarrow>
          let major = drop_bit 5 (hd first); ai = hd first AND 31 in
          if major = 7 then rd_simple ai r
          else (case rd_arg ai r of
            Inl e \<Rightarrow> Err e
          | Inr (n, r) \<Rightarrow>
              if major = 0 then Ok (RInt (uint n), r)
              else if major = 1 then Ok (RInt (- uint n - 1), r)
              else if major = 2 then
                (case rd_take (unat n) r of Inl e \<Rightarrow> Err e | Inr (b, r) \<Rightarrow> Ok (RBytes b, r))
              else if major = 3 then
                (case rd_take (unat n) r of
                   Inl e \<Rightarrow> Err e
                 | Inr (b, r) \<Rightarrow> if utf8_valid b then Ok (RText b, r) else Err InvalidUtf8)
              else if major = 4 then
                (case rd_array (unat n) (depth + 1) r of Inl e \<Rightarrow> Err e | Inr (a, r) \<Rightarrow> Ok (RArray a, r))
              else if major = 5 then
                (case rd_map (unat n) (depth + 1) None r of Inl e \<Rightarrow> Err e | Inr (m, r) \<Rightarrow> Ok (RMap m, r))
              else if major = 6 then
                (case rd_raw (depth + 1) r of
                   Inl e \<Rightarrow> Err e
                 | Inr (v, r) \<Rightarrow> (case untag n v of Inl e \<Rightarrow> Err e | Inr x \<Rightarrow> Ok (x, r)))
              else Err Unsupported))"
| "rd_array n depth r =
     (if n = 0 then Ok ([], r)
      else case rd_raw depth r of
        Inl e \<Rightarrow> Err e
      | Inr (x, r) \<Rightarrow>
          (case rd_array (n - 1) depth r of Inl e \<Rightarrow> Err e | Inr (a, r) \<Rightarrow> Ok (x # a, r)))"
| "rd_map n depth prior r =
     (if n = 0 then Ok ([], r)
      else case rd_raw depth r of
        Inl e \<Rightarrow> Err e
      | Inr (k, r1) \<Rightarrow>
          let kb = take (rd_at r1 - rd_at r) (drop (rd_at r) (rd_bytes r)) in
          if (case prior of None \<Rightarrow> False | Some x \<Rightarrow> kb \<le> x) then Err DuplicateOrUnorderedMapKey
          else (case rd_raw depth r1 of
            Inl e \<Rightarrow> Err e
          | Inr (v, r2) \<Rightarrow>
              (case rd_map (n - 1) depth (Some kb) r2 of
                 Inl e \<Rightarrow> Err e
               | Inr (m, r3) \<Rightarrow> Ok ((k, v) # m, r3))))"
  by pat_completeness auto

text \<open>
  The nesting limit bounds the recursion, and a loop of the reader counts down: the reader ends on
  every input.
\<close>

termination
  by (relation "inv_image (less_than <*lex*> less_than) (\<lambda>x. case x of
      Inl (depth, _) \<Rightarrow> (Suc MAX_DEPTH - depth, 0 :: nat)
    | Inr (Inl (n, depth, _)) \<Rightarrow> (Suc MAX_DEPTH - depth, Suc n)
    | Inr (Inr (n, depth, _, _)) \<Rightarrow> (Suc MAX_DEPTH - depth, Suc n))") auto

declare rd_raw.simps [simp del] rd_array.simps [simp del] rd_map.simps [simp del]

text \<open>\<open>Value::new\<close>, \<open>Value::encode\<close> and \<open>Value::decode\<close>.\<close>

definition value_new :: "tag_registry \<Rightarrow> raw \<Rightarrow> (ovb_error, raw) result" where
  "value_new vtag v = (case validate_raw vtag v 0 of Inl e \<Rightarrow> Err e | Inr _ \<Rightarrow> Ok v)"

definition value_decode :: "tag_registry \<Rightarrow> u8 list \<Rightarrow> (ovb_error, raw) result" where
  "value_decode vtag bytes =
     (case rd_raw 0 (rd_new bytes) of
        Inl e \<Rightarrow> Err e
      | Inr (v, r) \<Rightarrow>
          if rd_at r \<noteq> length bytes then Err TrailingBytes
          else (case validate_raw vtag v 0 of Inl e \<Rightarrow> Err e | Inr _ \<Rightarrow>
               (case encode_raw vtag v of Inl e \<Rightarrow> Err e | Inr b \<Rightarrow>
                  if b \<noteq> bytes then Err NonCanonical else Ok v)))"

lemma decoded_encodes_back: "value_decode vtag b = Ok v \<Longrightarrow> encode_raw vtag v = Ok b"
  by (auto simp: value_decode_def split: sum.splits prod.splits if_splits)

end
