(* ===== verification/Orna_Value_Laws.thy ===== *)
theory Orna_Value_Laws
  imports Orna_Value
begin

text \<open>
  The round trip of the canonical value codec: what the encoder writes, the reader reads back, unless
  the value exceeds one of the reader's two limits.
\<close>

section \<open>Bytes of integers\<close>

lemma to_be_bytes_0 [simp]: "to_be_bytes 0 n = []"
  by (simp add: to_be_bytes_def)

lemma to_be_bytes_Suc [simp]: "to_be_bytes (Suc w) n = word_of_int (n div 256 ^ w) # to_be_bytes w n"
  by (simp add: to_be_bytes_def)

lemma length_to_be_bytes [simp]: "length (to_be_bytes w n) = w"
  by (simp add: to_be_bytes_def)

abbreviation be_step :: "u8 \<Rightarrow> int \<Rightarrow> int" where
  "be_step b n \<equiv> n * 256 + uint b"

lemma fold_be_bytes: "fold be_step bs a = a * 256 ^ length bs + fold be_step bs 0"
proof (induction bs arbitrary: a)
  case (Cons b bs)
  show ?case
    using Cons [of "be_step b a"] Cons [of "be_step b 0"] by (simp add: algebra_simps)
qed simp

lemma from_be_bytes_Nil [simp]: "from_be_bytes [] = 0"
  by (simp add: from_be_bytes_def)

lemma from_be_bytes_Cons: "from_be_bytes (b # bs) = uint b * 256 ^ length bs + from_be_bytes bs"
  using fold_be_bytes [of bs "uint b"] by (simp add: from_be_bytes_def)

lemma from_be_bytes_snoc: "from_be_bytes (bs @ [b]) = from_be_bytes bs * 256 + uint b"
  by (simp add: from_be_bytes_def)

lemma from_be_bytes_nonneg: "0 \<le> from_be_bytes bs"
  by (induction bs) (simp_all add: from_be_bytes_Cons)

lemma from_be_bytes_less: "from_be_bytes bs < 256 ^ length bs"
proof (induction bs)
  case (Cons b bs)
  have "uint b + 1 \<le> 256" using uint_lt2p [of b] by simp
  have "from_be_bytes (b # bs) < (uint b + 1) * 256 ^ length bs"
    using Cons by (simp add: from_be_bytes_Cons distrib_right)
  also have "\<dots> \<le> 256 * 256 ^ length bs"
    by (intro mult_right_mono \<open>uint b + 1 \<le> 256\<close>) simp
  finally show ?case by simp
qed simp

lemma from_to_be_bytes_mod: "from_be_bytes (to_be_bytes w n) = n mod 256 ^ w"
proof (induction w)
  case (Suc w)
  have u: "uint (word_of_int (n div 256 ^ w) :: u8) = (n div 256 ^ w) mod 256"
    by (simp add: uint_word_of_int)
  have "n mod (256 ^ w * 256) = 256 ^ w * (n div 256 ^ w mod 256) + n mod 256 ^ w"
    by (simp add: zmod_zmult2_eq)
  then show ?case
    by (simp add: from_be_bytes_Cons Suc u mult.commute)
qed simp

lemma from_to_be_bytes: "0 \<le> n \<Longrightarrow> n < 256 ^ w \<Longrightarrow> from_be_bytes (to_be_bytes w n) = n"
  by (simp add: from_to_be_bytes_mod)

lemma magnitude_bytes_nonempty: "magnitude_bytes n \<noteq> []"
  by (subst magnitude_bytes.simps) simp

lemma from_magnitude_bytes: "0 \<le> n \<Longrightarrow> from_be_bytes (magnitude_bytes n) = n"
proof (induction n rule: magnitude_bytes.induct)
  case (1 n)
  show ?case
  proof (cases "n < 256")
    case True
    with 1(2) show ?thesis
      by (subst magnitude_bytes.simps) (simp add: from_be_bytes_Cons uint_word_of_int)
  next
    case False
    with 1 have "from_be_bytes (magnitude_bytes (n div 256)) = n div 256" by simp
    with False show ?thesis
      by (subst magnitude_bytes.simps) (simp add: from_be_bytes_snoc uint_word_of_int)
  qed
qed

lemma hd_magnitude_bytes: "0 < n \<Longrightarrow> hd (magnitude_bytes n) \<noteq> 0"
proof (induction n rule: magnitude_bytes.induct)
  case (1 n)
  show ?case
  proof (cases "n < 256")
    case True
    have "(word_of_int n :: u8) \<noteq> 0"
    proof
      assume "(word_of_int n :: u8) = 0"
      then have "uint (word_of_int n :: u8) = 0" by simp
      with True 1(2) show False by (simp add: uint_word_of_int)
    qed
    with True show ?thesis by (subst magnitude_bytes.simps) simp
  next
    case False
    with 1 have "hd (magnitude_bytes (n div 256)) \<noteq> 0" by simp
    with False show ?thesis
      by (subst magnitude_bytes.simps) (simp add: magnitude_bytes_nonempty)
  qed
qed

lemma length_magnitude_bytes: "2 ^ 64 \<le> n \<Longrightarrow> 9 \<le> length (magnitude_bytes n)"
proof (rule ccontr)
  assume n: "2 ^ 64 \<le> n" and "\<not> 9 \<le> length (magnitude_bytes n)"
  then have "(256::int) ^ length (magnitude_bytes n) \<le> 256 ^ 8"
    by (intro power_increasing) simp_all
  with from_be_bytes_less [of "magnitude_bytes n"] from_magnitude_bytes [of n] n show False
    by simp
qed

section \<open>Heads\<close>

lemma low_bits: "unat (b :: u8) < 2 ^ n \<Longrightarrow> bit b i \<Longrightarrow> i < n"
proof -
  assume b: "unat b < 2 ^ n" and i: "bit b i"
  from i have "bit (unat b) i" by (simp add: bit_unsigned_iff)
  with take_bit_nat_eq_self [OF b] have "bit (take_bit n (unat b)) i" by simp
  then show ?thesis by (simp add: bit_take_bit_iff)
qed

lemma head_byte_low: "low < 32 \<Longrightarrow> head_byte major low AND 31 = low"
proof (rule bit_word_eqI)
  fix i assume low: "low < 32" and "i < LENGTH(8)"
  have m: "(31 :: u8) = mask 5" by (simp add: mask_eq_exp_minus_1)
  from low low_bits [of low 5 i] show "bit (head_byte major low AND 31) i = bit low i"
    unfolding m head_byte_def by (auto simp: bit_simps word_less_nat_alt)
qed

lemma head_byte_major: "major < 8 \<Longrightarrow> low < 32 \<Longrightarrow> drop_bit 5 (head_byte major low) = major"
proof (rule bit_word_eqI)
  fix i assume "major < 8" "low < 32" "i < LENGTH(8)"
  with low_bits [of low 5 "5 + i"] low_bits [of major 3 i] show "bit (drop_bit 5 (head_byte major low)) i = bit major i"
    unfolding head_byte_def by (auto simp: bit_simps word_less_nat_alt)
qed

lemma shift_or_byte:
  "push_bit 8 x OR (ucast (b :: u8) :: u64) = x * 256 + ucast b"
proof -
  have "push_bit 8 x + (ucast b :: u64) = push_bit 8 x OR ucast b"
    by (rule disjunctive_add) (auto simp: bit_simps dest: bit_imp_le_length)
  then show ?thesis by (simp add: push_bit_eq_mult)
qed

lemma fold_shift_or:
  "fold (\<lambda>b x. push_bit 8 x OR ucast b) bs (word_of_int n :: u64) = word_of_int (fold be_step bs n)"
  unfolding shift_or_byte
proof (induction bs arbitrary: n)
  case (Cons b bs)
  have "(word_of_int n * 256 + ucast b :: u64) = word_of_int (n * 256 + uint b)"
    by simp
  then show ?case by (simp only: fold.simps o_apply Cons)
qed simp

lemma fold_shift_or_0:
  "fold (\<lambda>b x. push_bit 8 x OR ucast b) bs (0 :: u64) = word_of_int (from_be_bytes bs)"
  using fold_shift_or [of bs 0] by (simp add: from_be_bytes_def)

section \<open>What the reader has in front of it\<close>

text \<open>
  A byte sequence held in memory is shorter than \<open>isize::MAX\<close>, so the reader's checked addition
  never fails on what it has in front of it.
\<close>

definition looks_at :: "reader \<Rightarrow> u8 list \<Rightarrow> bool" where
  "looks_at r bs \<longleftrightarrow> (\<exists>rest. drop (rd_at r) (rd_bytes r) = bs @ rest) \<and> int (length (rd_bytes r)) < 2 ^ 63 \<and>
     rd_at r \<le> length (rd_bytes r)"

definition step_reader :: "nat \<Rightarrow> nat \<Rightarrow> reader \<Rightarrow> reader" where
  "step_reader n items r = r\<lparr>rd_at := rd_at r + n, rd_items := rd_items r + items\<rparr>"

lemma step_reader_simps [simp]:
  "rd_at (step_reader n i r) = rd_at r + n" "rd_items (step_reader n i r) = rd_items r + i"
  "rd_bytes (step_reader n i r) = rd_bytes r" "step_reader 0 0 r = r"
  "step_reader n' i' (step_reader n i r) = step_reader (n + n') (i + i') r"
  by (simp_all add: step_reader_def add.assoc)

lemma reader_updates:
  "r\<lparr>rd_items := rd_items r + 1\<rparr> = step_reader 0 1 r"
  by (simp add: step_reader_def)

lemma looks_at_append:
  "looks_at r (xs @ ys) \<longleftrightarrow> looks_at r xs \<and> looks_at (step_reader (length xs) i r) ys"
proof -
  have "drop (rd_at r) (rd_bytes r) = xs @ rest \<Longrightarrow> rd_at r \<le> length (rd_bytes r) \<Longrightarrow>
      drop (rd_at r + length xs) (rd_bytes r) = rest \<and> rd_at r + length xs \<le> length (rd_bytes r)" for rest
    by (metis add.commute append_eq_conv_conj drop_drop length_append length_drop
        le_add1 le_diff_conv2)
  then show ?thesis
    unfolding looks_at_def by fastforce
qed

lemma looks_at_items [simp]: "looks_at (step_reader 0 i r) bs \<longleftrightarrow> looks_at r bs"
  by (simp add: looks_at_def)

lemma rd_take_looks:
  assumes "looks_at r xs"
  shows "rd_take (length xs) r = Ok (xs, step_reader (length xs) 0 r)"
proof -
  from assms obtain rest where d: "drop (rd_at r) (rd_bytes r) = xs @ rest"
    and l: "int (length (rd_bytes r)) < 2 ^ 63" and a: "rd_at r \<le> length (rd_bytes r)"
    by (auto simp: looks_at_def)
  from arg_cong [OF d, of length] a have len: "rd_at r + length xs \<le> length (rd_bytes r)" by simp
  then have "int (rd_at r) + int (length xs) < 2 ^ 64" using l by simp
  with d len show ?thesis
    by (simp add: rd_take_def step_reader_def)
qed

lemma arg_bytes_looks:
  assumes "looks_at r bs" and "length bs = w" and "w \<le> 8"
    and "word_of_int (from_be_bytes bs) = x" and "\<not> x < n"
  shows "arg_bytes n w r = Ok (x, step_reader w 0 r)"
  using assms rd_take_looks [OF assms(1)] by (simp add: arg_bytes_def fold_shift_or_0)

lemma ovb_head_read:
  obtains ai tail where "ovb_head major n = head_byte major ai # tail" and "ai < 32"
    and "\<And>r. looks_at r tail \<Longrightarrow> rd_arg ai r = Ok (n, step_reader (length tail) 0 r)"
proof -
  have arg: "arg_bytes m w r = Ok (n, step_reader w 0 r)"
    if "looks_at r (to_be_bytes w (uint n))" "uint n < 256 ^ w" "w \<le> 8" "m \<le> n" for m w r
    using that by (intro arg_bytes_looks [OF that(1)]) (simp_all add: from_to_be_bytes)
  have b: "uint n < 256 ^ 8" using uint_lt2p [of n] by simp
  consider "n < 24" | "24 \<le> n" "n \<le> 0xff" | "0xff < n" "n \<le> 0xffff" | "0xffff < n" "n \<le> 0xffffffff"
    | "0xffffffff < n" by fastforce
  then show thesis
  proof cases
    case 1
    then have u: "uint n < 24" by (simp add: word_less_def)
    then have ucast: "uint (ucast n :: u8) = uint n" by (simp only: ucast_eq uint_word_of_int) simp
    have "(ucast (ucast n :: u8) :: u64) = n"
      by (simp only: ucast_eq [of "ucast n :: u8"] ucast word_of_int_uint)
    moreover have "(ucast n :: u8) < 32" "(ucast n :: u8) \<le> 23"
      using u by (simp_all only: word_less_def word_le_def ucast) simp_all
    ultimately show thesis
      using 1 by (intro that [of "ucast n" "[]"]) (simp_all add: ovb_head_def rd_arg_def)
  next
    case 2
    then have "uint n < 256" by (simp add: word_le_def)
    moreover from this have "[ucast n :: u8] = to_be_bytes 1 (uint n)"
      by (simp only: One_nat_def to_be_bytes_Suc to_be_bytes_0 ucast_eq power_0 div_by_1)
    ultimately show thesis using 2 arg [of _ 1 24]
      by (intro that [of 24 "[ucast n]"]) (simp_all add: ovb_head_def rd_arg_def)
  next
    case 3
    then have "uint n < 256 ^ 2" "256 \<le> n" "\<not> n < 24" "\<not> n \<le> 0xff" by (simp_all add: word_le_def word_less_def)
    with 3 arg [of _ 2 256] show thesis
      by (intro that [of 25 "to_be_bytes 2 (uint n)"]) (simp_all add: ovb_head_def rd_arg_def)
  next
    case 4
    then have "uint n < 256 ^ 4" "65536 \<le> n" "\<not> n < 24" "\<not> n \<le> 0xff" "\<not> n \<le> 0xffff" by (simp_all add: word_le_def word_less_def)
    with 4 arg [of _ 4 65536] show thesis
      by (intro that [of 26 "to_be_bytes 4 (uint n)"]) (simp_all add: ovb_head_def rd_arg_def)
  next
    case 5
    then have "4294967296 \<le> n" "\<not> n < 24" "\<not> n \<le> 0xff" "\<not> n \<le> 0xffff" "\<not> n \<le> 0xffffffff"
      by (simp_all add: word_le_def word_less_def)
    with 5 b arg [of _ 8 4294967296] show thesis
      by (intro that [of 27 "to_be_bytes 8 (uint n)"]) (simp_all add: ovb_head_def rd_arg_def)
  qed
qed

section \<open>The canonical bytes of a value\<close>

primrec bytes_of :: "raw \<Rightarrow> u8 list" where
  "bytes_of RNull = [0xf6]"
| "bytes_of (RBool b) = [if b then 0xf5 else 0xf4]"
| "bytes_of (RInt i) = write_int i"
| "bytes_of (RFloat bits) = write_float bits"
| "bytes_of (RBytes b) = ovb_head 2 (len_u64 b) @ b"
| "bytes_of (RText s) = ovb_head 3 (len_u64 s) @ s"
| "bytes_of (RArray a) = ovb_head 4 (len_u64 a) @ concat (map bytes_of a)"
| "bytes_of (RMap m) =
     ovb_head 5 (len_u64 m) @ concat (map (\<lambda>(k, v). k @ v) (map (map_prod bytes_of bytes_of) m))"
| "bytes_of (RTag n x) = ovb_head 6 n @ bytes_of x"

lemma bytes_of_Map:
  "bytes_of (RMap m) = ovb_head 5 (len_u64 m) @ concat (map (\<lambda>(k, v). bytes_of k @ bytes_of v) m)"
proof -
  have "(\<lambda>(k, v). k @ v) \<circ> map_prod bytes_of bytes_of = (\<lambda>(k, v). bytes_of k @ bytes_of v)"
    by auto
  then show ?thesis by simp
qed

primrec texts_utf8 :: "raw \<Rightarrow> bool" where
  "texts_utf8 RNull = True"
| "texts_utf8 (RBool b) = True"
| "texts_utf8 (RInt i) = True"
| "texts_utf8 (RFloat bits) = True"
| "texts_utf8 (RBytes b) = True"
| "texts_utf8 (RText s) = utf8_valid s"
| "texts_utf8 (RArray a) = list_all id (map texts_utf8 a)"
| "texts_utf8 (RMap m) = list_all (\<lambda>(k, v). k \<and> v) (map (map_prod texts_utf8 texts_utf8) m)"
| "texts_utf8 (RTag n x) = texts_utf8 x"

text \<open>What validation establishes of a value, at every depth.\<close>

primrec canonical :: "raw \<Rightarrow> bool" where
  "canonical RNull = True"
| "canonical (RBool b) = True"
| "canonical (RInt i) = True"
| "canonical (RFloat bits) = (is_nan_bits bits \<longrightarrow> bits = CANONICAL_NAN_BITS)"
| "canonical (RBytes b) = True"
| "canonical (RText s) = True"
| "canonical (RArray a) = list_all id (map canonical a)"
| "canonical (RMap m) \<longleftrightarrow> list_all (\<lambda>(k, v). k \<and> v) (map (map_prod canonical canonical) m) \<and>
     sorted_wrt (<) (map (bytes_of \<circ> fst) m)"
| "canonical (RTag n x) \<longleftrightarrow> n \<noteq> 2 \<and> n \<noteq> 3 \<and> canonical x"

definition no_bignum_tags :: "tag_registry \<Rightarrow> bool" where
  "no_bignum_tags vtag \<longleftrightarrow> (\<forall>x. vtag 2 x = Err InvalidTag \<and> vtag 3 x = Err InvalidTag)"

lemma collect_keys_Ok [simp]:
  "collect_keys (map (\<lambda>(k, v). (Ok (f k), g v)) m) = Ok (map (\<lambda>(k, v). (f k, g v)) m)"
  by (induction m) auto

lemma write_sorted_Ok [simp]:
  "write_sorted (map (\<lambda>(k, v). (f k, Ok (g v))) m) = Ok (concat (map (\<lambda>(k, v). f k @ g v) m))"
  by (induction m) auto

lemma adjacent_equal_sorted: "sorted_wrt (<) (xs :: 'a::linorder list) \<Longrightarrow> \<not> adjacent_equal xs"
  by (induction xs rule: adjacent_equal.induct) auto

lemma write_map_sorted:
  assumes "sorted_wrt (<) (map (f \<circ> fst) m)"
  shows "write_map (map (\<lambda>(k, v). (Ok (f k), Ok (g v))) m) =
    Ok (ovb_head 5 (len_u64 m) @ concat (map (\<lambda>(k, v). f k @ g v) m))"
proof -
  let ?items = "map (\<lambda>(k, v). (f k, Ok (g v) :: (ovb_error, u8 list) result)) m"
  have fst: "map fst ?items = map (f \<circ> fst) m" by auto
  have "sorted (map fst ?items)"
    unfolding fst using assms by (rule strict_sorted_imp_sorted)
  then have "sort_key fst ?items = ?items"
    by (rule sort_key_id_if_sorted)
  moreover have "\<not> adjacent_equal (map fst ?items)"
    using assms adjacent_equal_sorted fst by metis
  ultimately show ?thesis
    by (simp add: write_map_def len_u64_def)
qed

definition written :: "tag_registry \<Rightarrow> raw \<Rightarrow> bool" where
  "written vtag v \<longleftrightarrow> (\<forall>d. validate_raw vtag v d = Ok () \<longrightarrow> write_raw vtag v = Ok (bytes_of v) \<and> canonical v)"

lemma writtenD:
  "written vtag v \<Longrightarrow> validate_raw vtag v d = Ok u \<Longrightarrow> write_raw vtag v = Ok (bytes_of v) \<and> canonical v"
  by (auto simp: written_def)

lemma items_written:
  assumes "\<And>x. x \<in> set a \<Longrightarrow> written vtag x" and "validate_items vtag a d = Ok ()"
  shows "write_items vtag a = Ok (concat (map bytes_of a)) \<and> list_all canonical a"
  using assms
proof (induction a)
  case (Cons x a)
  then obtain u where "validate_raw vtag x d = Ok u" "validate_items vtag a d = Ok ()"
    by (auto split: sum.splits)
  with Cons writtenD [of vtag x d] show ?case by auto
qed simp

lemma entries_written:
  assumes "\<And>k v. (k, v) \<in> set m \<Longrightarrow> written vtag k \<and> written vtag v"
    and "validate_entries vtag m previous d = Ok ()"
  shows "write_entries vtag m = map (\<lambda>(k, v). (Ok (bytes_of k), Ok (bytes_of v))) m \<and>
    list_all (\<lambda>(k, v). canonical k \<and> canonical v) m \<and>
    sorted_wrt (<) (case previous of None \<Rightarrow> map (bytes_of \<circ> fst) m | Some p \<Rightarrow> p # map (bytes_of \<circ> fst) m)"
  using assms
proof (induction m arbitrary: previous)
  case (Cons kv m)
  obtain k v where kv: "kv = (k, v)" by (cases kv)
  from Cons.prems(2) kv obtain u w b where
    k: "validate_raw vtag k d = Ok u" and v: "validate_raw vtag v d = Ok w" and b: "encode_raw vtag k = Ok b"
    and p: "\<forall>p. previous = Some p \<longrightarrow> p < b" and m: "validate_entries vtag m (Some b) d = Ok ()"
    by (auto split: sum.splits option.splits if_splits simp: not_le)
  from Cons.prems(1) kv k v have w: "write_raw vtag k = Ok (bytes_of k)" "canonical k"
    "write_raw vtag v = Ok (bytes_of v)" "canonical v"
    using writtenD by force+
  with b have "b = bytes_of k" by (auto simp: encode_raw.simps split: sum.splits)
  moreover have "\<And>k v. (k, v) \<in> set m \<Longrightarrow> written vtag k \<and> written vtag v"
    using Cons.prems(1) by (meson list.set_intros(2))
  from Cons.IH [OF this m] have "write_entries vtag m = map (\<lambda>(k, v). (Ok (bytes_of k), Ok (bytes_of v))) m"
    "list_all (\<lambda>(k, v). canonical k \<and> canonical v) m" "sorted_wrt (<) (b # map (bytes_of \<circ> fst) m)"
    by simp_all
  ultimately show ?case
    using w p kv b by (auto split: option.splits dest: less_trans)
qed (auto split: option.splits)

lemma validate_Map: "validate_raw vtag (RMap m) d = Ok u \<Longrightarrow> validate_entries vtag m None (d + 1) = Ok ()"
  by (auto simp: validate_raw.simps split: if_splits)

lemma validate_Array: "validate_raw vtag (RArray a) d = Ok u \<Longrightarrow> validate_items vtag a (d + 1) = Ok ()"
  by (auto simp: validate_raw.simps split: if_splits)

lemma validate_Tag:
  "validate_raw vtag (RTag n x) d = Ok u \<Longrightarrow> n \<noteq> 0 \<and> (\<exists>u. vtag n x = Ok u) \<and> validate_raw vtag x (d + 1) = Ok ()"
  by (auto simp: validate_raw.simps split: if_splits sum.splits)

lemma validated_is_written:
  assumes "no_bignum_tags vtag"
  shows "written vtag v"
proof (induction v)
  case (RFloat x)
  then show ?case by (auto simp: written_def validate_raw.simps write_raw.simps split: if_splits)
next
  case (RArray a)
  then have "\<And>x. x \<in> set a \<Longrightarrow> written vtag x" by simp
  from items_written [OF this] show ?case
    unfolding written_def by (auto dest!: validate_Array simp: write_raw.simps list_all_iff)
next
  case (RMap m)
  have kv: "written vtag k \<and> written vtag v" if "(k, v) \<in> set m" for k v
    using RMap(1) [OF that, of k] RMap(2) [OF that, of v] by (simp add: fsts.simps snds.simps)
  have "write_raw vtag (RMap m) = Ok (bytes_of (RMap m)) \<and> canonical (RMap m)"
    if "validate_entries vtag m None (d + 1) = Ok ()" for d
    using entries_written [OF kv that] write_map_sorted [of bytes_of m bytes_of]
    by (auto simp: write_raw.simps bytes_of_Map list_all_iff simp del: bytes_of.simps(8))
  then show ?case
    unfolding written_def by (blast dest: validate_Map)
next
  case (RTag n x)
  show ?case
    unfolding written_def
  proof (intro allI impI)
    fix d assume "validate_raw vtag (RTag n x) d = Ok ()"
    from validate_Tag [OF this] have tag: "\<exists>u. vtag n x = Ok u" and x: "validate_raw vtag x (d + 1) = Ok ()"
      by auto
    from tag assms have "n \<noteq> 2 \<and> n \<noteq> 3" by (auto simp: no_bignum_tags_def)
    with writtenD [OF RTag x] show "write_raw vtag (RTag n x) = Ok (bytes_of (RTag n x)) \<and> canonical (RTag n x)"
      by (simp add: write_raw.simps)
  qed
qed (auto simp: written_def write_raw.simps)

lemma encode_raw_bytes:
  assumes "no_bignum_tags vtag" and "encode_raw vtag v = Ok bs"
  shows "bs = bytes_of v" and "canonical v" and "validate_raw vtag v 0 = Ok ()"
proof -
  from assms(2) obtain u where "validate_raw vtag v 0 = Ok u" "write_raw vtag v = Ok bs"
    by (auto simp: encode_raw.simps split: sum.splits)
  with writtenD [OF validated_is_written [OF assms(1)] this(1)]
  show "bs = bytes_of v" and "canonical v" and "validate_raw vtag v 0 = Ok ()" by simp_all
qed

section \<open>Reading back\<close>

text \<open>
  The depth and the number of items the reader meets in the bytes of a value. A big integer is a
  tagged byte string: it takes one level and one item more than the value it stands for.
\<close>

definition is_bignum :: "int \<Rightarrow> bool" where
  "is_bignum i \<longleftrightarrow> i < - (2 ^ 64) \<or> 2 ^ 64 \<le> i"

primrec read_depth :: "raw \<Rightarrow> nat" where
  "read_depth RNull = 0"
| "read_depth (RBool b) = 0"
| "read_depth (RInt i) = (if is_bignum i then 1 else 0)"
| "read_depth (RFloat bits) = 0"
| "read_depth (RBytes b) = 0"
| "read_depth (RText s) = 0"
| "read_depth (RArray a) = fold max (map Suc (map read_depth a)) 0"
| "read_depth (RMap m) = fold max (map (\<lambda>(k, v). Suc (max k v)) (map (map_prod read_depth read_depth) m)) 0"
| "read_depth (RTag n x) = Suc (read_depth x)"

primrec read_items :: "raw \<Rightarrow> nat" where
  "read_items RNull = 1"
| "read_items (RBool b) = 1"
| "read_items (RInt i) = (if is_bignum i then 2 else 1)"
| "read_items (RFloat bits) = 1"
| "read_items (RBytes b) = 1"
| "read_items (RText s) = 1"
| "read_items (RArray a) = 1 + sum_list (map read_items a)"
| "read_items (RMap m) = 1 + sum_list (map (\<lambda>(k, v). k + v) (map (map_prod read_items read_items) m))"
| "read_items (RTag n x) = 1 + read_items x"

text \<open>Whether the reader, at a depth and with a number of items behind it, has room for a value.\<close>

definition fits :: "nat \<Rightarrow> nat \<Rightarrow> raw \<Rightarrow> bool" where
  "fits d i v \<longleftrightarrow> d + read_depth v \<le> MAX_DEPTH \<and> int (i + read_items v) \<le> MAX_ITEMS"

fun fits_all :: "nat \<Rightarrow> nat \<Rightarrow> raw list \<Rightarrow> bool" where
  "fits_all d i [] \<longleftrightarrow> True"
| "fits_all d i (x # xs) \<longleftrightarrow> fits d i x \<and> fits_all d (i + read_items x) xs"

lemma fold_max_le: "d + fold max xs (n::nat) \<le> k \<longleftrightarrow> d + n \<le> k \<and> (\<forall>x \<in> set xs. d + x \<le> k)"
  by (induction xs arbitrary: n) auto

lemma fits_all_iff:
  "xs \<noteq> [] \<Longrightarrow> fits_all d i xs \<longleftrightarrow> (\<forall>x \<in> set xs. d + read_depth x \<le> MAX_DEPTH) \<and>
     int (i + sum_list (map read_items xs)) \<le> MAX_ITEMS"
proof (induction xs arbitrary: i)
  case (Cons x xs)
  show ?case
  proof (cases "xs = []")
    case True
    then show ?thesis by (simp add: fits_def)
  next
    case False
    from Cons.IH [OF this, of "i + read_items x"] show ?thesis by (auto simp: fits_def)
  qed
qed simp

lemma fits_Array: "fits d i (RArray a) \<longleftrightarrow> d \<le> MAX_DEPTH \<and> int i < MAX_ITEMS \<and> fits_all (d + 1) (i + 1) a"
proof (cases "a = []")
  case False
  have "d + read_depth (RArray a) \<le> MAX_DEPTH \<longleftrightarrow>
      d \<le> MAX_DEPTH \<and> (\<forall>x \<in> set a. d + 1 + read_depth x \<le> MAX_DEPTH)"
    by (simp add: fold_max_le)
  then show ?thesis
    by (simp only: fits_def fits_all_iff [OF False, of "d + 1" "i + 1"]) auto
qed (auto simp: fits_def)

fun flat_entries :: "(raw \<times> raw) list \<Rightarrow> raw list" where
  "flat_entries [] = []"
| "flat_entries ((k, v) # m) = k # v # flat_entries m"

lemma flat_entries_all: "(\<forall>x \<in> set (flat_entries m). P x) \<longleftrightarrow> (\<forall>kv \<in> set m. P (fst kv) \<and> P (snd kv))"
  by (induction m rule: flat_entries.induct) auto

lemma fits_Map: "fits d i (RMap m) \<longleftrightarrow> d \<le> MAX_DEPTH \<and> int i < MAX_ITEMS \<and> fits_all (d + 1) (i + 1) (flat_entries m)"
proof (cases "m = []")
  case False
  then have "flat_entries m \<noteq> []" by (cases m) auto
  note all = fits_all_iff [OF this, of "d + 1" "i + 1"]
  have items: "read_items (RMap m) = 1 + sum_list (map read_items (flat_entries m))"
    by (induction m rule: flat_entries.induct) auto
  have "d + read_depth (RMap m) \<le> MAX_DEPTH \<longleftrightarrow>
      d \<le> MAX_DEPTH \<and> (\<forall>x \<in> set (flat_entries m). d + 1 + read_depth x \<le> MAX_DEPTH)"
    unfolding flat_entries_all by (auto simp: fold_max_le split_beta)
  then show ?thesis
    by (simp only: fits_def all items) auto
qed (auto simp: fits_def)

lemma fits_Tag: "fits d i (RTag n x) \<longleftrightarrow> d \<le> MAX_DEPTH \<and> int i < MAX_ITEMS \<and> fits (d + 1) (i + 1) x"
  by (auto simp: fits_def)

text \<open>The part of the reader behind the head of an item.\<close>

definition rd_body :: "u8 \<Rightarrow> u64 \<Rightarrow> nat \<Rightarrow> reader \<Rightarrow> (ovb_error, raw \<times> reader) result" where
  "rd_body major n depth r =
     (if major = 0 then Ok (RInt (uint n), r)
      else if major = 1 then Ok (RInt (- uint n - 1), r)
      else if major = 2 then
        (case rd_take (unat n) r of Inl e \<Rightarrow> Err e | Inr (b, r) \<Rightarrow> Ok (RBytes b, r))
      else if major = 3 then
        (case rd_take (unat n) r of
           Inl e \<Rightarrow> Err e
         | Inr (b, r) \<Rightarrow> if utf8_valid b then Ok (RText b, r) else Err InvalidUtf8)
      else if major = 4 then
        (case rd_array (unat n) (depth + 1) r of Inl e \<Rightarrow> Err e | Inr (a, r) \<Rightarrow> Ok (RArray a, r))
      else if major = 5 then
        (case rd_map (unat n) (depth + 1) None r of Inl e \<Rightarrow> Err e | Inr (m, r) \<Rightarrow> Ok (RMap m, r))
      else if major = 6 then
        (case rd_raw (depth + 1) r of
           Inl e \<Rightarrow> Err e
         | Inr (v, r) \<Rightarrow> (case untag n v of Inl e \<Rightarrow> Err e | Inr x \<Rightarrow> Ok (x, r)))
      else Err Unsupported)"

lemma rd_raw_unfold:
  "rd_raw depth r =
     (if depth \<le> MAX_DEPTH \<and> int (rd_items r) < MAX_ITEMS then
        (case rd_take 1 (step_reader 0 1 r) of
           Inl e \<Rightarrow> Err e
         | Inr (first, r) \<Rightarrow>
             if drop_bit 5 (hd first) = 7 then rd_simple (hd first AND 31) r
             else (case rd_arg (hd first AND 31) r of
                     Inl e \<Rightarrow> Err e
                   | Inr (n, r) \<Rightarrow> rd_body (drop_bit 5 (hd first)) n depth r))
      else Err Limit)"
  unfolding rd_raw.simps [of depth r] rd_body_def reader_updates Let_def by auto

lemma looks_at_Cons: "looks_at r (b # bs) \<Longrightarrow> rd_take 1 r = Ok ([b], step_reader 1 0 r) \<and> looks_at (step_reader 1 i r) bs"
  using looks_at_append [of r "[b]" bs i] rd_take_looks [of r "[b]"] by simp

lemma rd_raw_head:
  assumes "looks_at r (ovb_head major n @ rest)" and "major < 7"
    and "d \<le> MAX_DEPTH" and "int (rd_items r) < MAX_ITEMS"
  shows "rd_raw d r = rd_body major n d (step_reader (length (ovb_head major n)) 1 r)"
    and "looks_at (step_reader (length (ovb_head major n)) 1 r) rest"
proof -
  obtain ai tail where h: "ovb_head major n = head_byte major ai # tail" and ai: "ai < 32"
    and arg: "\<And>r. looks_at r tail \<Longrightarrow> rd_arg ai r = Ok (n, step_reader (length tail) 0 r)"
    using ovb_head_read by metis
  let ?r = "step_reader 0 1 r"
  from assms(1) h have "looks_at ?r (head_byte major ai # (tail @ rest))" by simp
  from looks_at_Cons [OF this, of 0] have t: "rd_take 1 ?r = Ok ([head_byte major ai], step_reader 1 1 r)"
    and l: "looks_at (step_reader 1 1 r) (tail @ rest)" by simp_all
  from l have a: "rd_arg ai (step_reader 1 1 r) = Ok (n, step_reader (1 + length tail) 1 r)"
    using looks_at_append [of "step_reader 1 1 r" tail rest 0] arg by simp
  have m: "drop_bit 5 (head_byte major ai) = major" "head_byte major ai AND 31 = ai" "major \<noteq> 7"
    using assms(2) ai head_byte_major [of major ai] head_byte_low [of ai major]
    by (auto simp: word_less_nat_alt)
  show "rd_raw d r = rd_body major n d (step_reader (length (ovb_head major n)) 1 r)"
    unfolding rd_raw_unfold [of d r] using assms(3,4) a m h by (simp add: t plus_1_eq_Suc del: One_nat_def)
  show "looks_at (step_reader (length (ovb_head major n)) 1 r) rest"
    using assms(1) looks_at_append by blast
qed

lemma rd_raw_limit: "\<not> (d \<le> MAX_DEPTH \<and> int (rd_items r) < MAX_ITEMS) \<Longrightarrow> rd_raw d r = Err Limit"
  by (subst rd_raw_unfold) auto

definition reads :: "raw \<Rightarrow> bool" where
  "reads v \<longleftrightarrow> (\<forall>d r. looks_at r (bytes_of v) \<longrightarrow>
     rd_raw d r = (if fits d (rd_items r) v then Ok (v, step_reader (length (bytes_of v)) (read_items v) r)
                   else Err Limit))"

lemma readsI:
  assumes "\<And>d r. looks_at r (bytes_of v) \<Longrightarrow> d \<le> MAX_DEPTH \<Longrightarrow> int (rd_items r) < MAX_ITEMS \<Longrightarrow>
    rd_raw d r = (if fits d (rd_items r) v then Ok (v, step_reader (length (bytes_of v)) (read_items v) r) else Err Limit)"
  shows "reads v"
proof -
  have "1 \<le> read_items v" by (cases v) auto
  then have "fits d i v \<Longrightarrow> d \<le> MAX_DEPTH \<and> int i < MAX_ITEMS" for d i
    by (auto simp: fits_def)
  then show ?thesis
    unfolding reads_def using assms rd_raw_limit by metis
qed

lemma readsD:
  "reads v \<Longrightarrow> looks_at r (bytes_of v) \<Longrightarrow> rd_raw d r =
     (if fits d (rd_items r) v then Ok (v, step_reader (length (bytes_of v)) (read_items v) r) else Err Limit)"
  by (simp add: reads_def)

lemma fits_leaf: "read_depth v = 0 \<Longrightarrow> read_items v = 1 \<Longrightarrow> fits d i v \<longleftrightarrow> d \<le> MAX_DEPTH \<and> int i < MAX_ITEMS"
  by (auto simp: fits_def)

lemma rd_raw_simple:
  assumes "looks_at r (b # bs)" and "drop_bit 5 b = 7" and "d \<le> MAX_DEPTH" and "int (rd_items r) < MAX_ITEMS"
  shows "rd_raw d r = rd_simple (b AND 31) (step_reader 1 1 r)"
  using assms looks_at_Cons [of "step_reader 0 1 r" b bs] by (subst rd_raw_unfold) (simp del: One_nat_def)

lemma reads_simple: "reads RNull" "reads (RBool b)"
  by (rule readsI; simp add: rd_raw_simple fits_leaf rd_simple_def)+

lemma reads_float: "canonical (RFloat bits) \<Longrightarrow> reads (RFloat bits)"
proof (rule readsI)
  fix d r assume c: "canonical (RFloat bits)" and l: "looks_at r (bytes_of (RFloat bits))"
    and d: "d \<le> MAX_DEPTH" "int (rd_items r) < MAX_ITEMS"
  from c have w: "write_float bits = 0xfb # to_be_bytes 8 (uint bits)"
    by (auto simp: write_float_def)
  have "uint bits < 256 ^ 8" using uint_lt2p [of bits] by simp
  then have f: "from_be_bytes (to_be_bytes 8 (uint bits)) = uint bits" by (simp add: from_to_be_bytes)
  from l w have l': "looks_at r (0xfb # to_be_bytes 8 (uint bits))" by simp
  from looks_at_Cons [OF l', of 1] have "looks_at (step_reader 1 1 r) (to_be_bytes 8 (uint bits))" by simp
  from rd_take_looks [OF this] have "rd_take 8 (step_reader 1 1 r) = Ok (to_be_bytes 8 (uint bits), step_reader 9 1 r)" by simp
  moreover have "rd_raw d r = rd_simple 27 (step_reader 1 1 r)"
    using rd_raw_simple [OF l' _ d] by simp
  ultimately show "rd_raw d r = (if fits d (rd_items r) (RFloat bits)
      then Ok (RFloat bits, step_reader (length (bytes_of (RFloat bits))) (read_items (RFloat bits)) r) else Err Limit)"
    using c d by (auto simp: rd_simple_def fits_leaf f w)
qed

lemma reads_head:
  assumes b: "bytes_of v = ovb_head major n @ rest" and "major < 7"
    and body: "\<And>d r. looks_at r rest \<Longrightarrow> d \<le> MAX_DEPTH \<Longrightarrow> 0 < rd_items r \<Longrightarrow> int (rd_items r) \<le> MAX_ITEMS \<Longrightarrow>
      rd_body major n d r = (if fits d (rd_items r - 1) v then Ok (v, step_reader (length rest) (read_items v - 1) r) else Err Limit)"
  shows "reads v"
proof (rule readsI)
  fix d r assume l: "looks_at r (bytes_of v)" and d: "d \<le> MAX_DEPTH" "int (rd_items r) < MAX_ITEMS"
  have i: "Suc (read_items v - Suc 0) = read_items v" by (cases v) auto
  from l b have l': "looks_at r (ovb_head major n @ rest)" by simp
  from rd_raw_head [OF l' assms(2) d] body [of "step_reader (length (ovb_head major n)) 1 r" d] d b i
  show "rd_raw d r = (if fits d (rd_items r) v then Ok (v, step_reader (length (bytes_of v)) (read_items v) r) else Err Limit)"
    by simp
qed

lemma looks_at_length: "looks_at r bs \<Longrightarrow> int (length bs) < 2 ^ 63"
proof -
  assume "looks_at r bs"
  then obtain rest where "drop (rd_at r) (rd_bytes r) = bs @ rest" "int (length (rd_bytes r)) < 2 ^ 63"
    by (auto simp: looks_at_def)
  from arg_cong [OF this(1), of length] this(2) show ?thesis by simp
qed

lemma unat_len_u64: "int (length xs) < 2 ^ 63 \<Longrightarrow> unat (len_u64 xs) = length xs"
proof -
  assume "int (length xs) < 2 ^ 63"
  then have "uint (len_u64 xs) = int (length xs)"
    by (simp add: len_u64_def unsigned_of_nat take_bit_nat_eq_self)
  then show ?thesis by (simp only: unat_eq_nat_uint nat_int)
qed

lemma rd_take_len: "looks_at r b \<Longrightarrow> rd_take (unat (len_u64 b)) r = Ok (b, step_reader (length b) 0 r)"
  by (simp add: unat_len_u64 [OF looks_at_length] rd_take_looks)

lemma reads_bytes: "reads (RBytes b)"
  by (rule reads_head [of _ 2 "len_u64 b" b])
    (simp_all add: rd_body_def rd_take_len fits_def)

lemma reads_text: "utf8_valid s \<Longrightarrow> reads (RText s)"
  by (rule reads_head [of _ 3 "len_u64 s" s])
    (simp_all add: rd_body_def rd_take_len fits_def)

lemma reads_small_int:
  assumes "\<not> is_bignum i"
  shows "reads (RInt i)"
proof (cases "i < 0")
  case True
  define n where "n = - i - 1"
  from True assms have n: "0 \<le> n" "n < 2 ^ 64" and i: "i = - n - 1"
    by (auto simp: n_def is_bignum_def)
  then have "write_int i = ovb_head 1 (word_of_int n)" "uint (word_of_int n :: u64) = n"
    by (auto simp: write_int_def uint_word_of_int)
  with assms i show ?thesis
    by (intro reads_head [of _ 1 "word_of_int n" "[]"]) (simp_all add: rd_body_def fits_def)
next
  case False
  with assms have "write_int i = ovb_head 0 (word_of_int i)" "uint (word_of_int i :: u64) = i"
    by (auto simp: write_int_def is_bignum_def uint_word_of_int)
  with assms False show ?thesis
    by (intro reads_head [of _ 0 "word_of_int i" "[]"]) (simp_all add: rd_body_def fits_def)
qed

lemma reads_big_int:
  assumes "is_bignum i"
  shows "reads (RInt i)"
proof -
  define n where "n = (if i < 0 then - i - 1 else i)"
  define t :: u64 where "t = (if i < 0 then 3 else 2)"
  define b where "b = magnitude_bytes n"
  from assms have n: "2 ^ 64 \<le> n" by (auto simp: n_def is_bignum_def)
  then have bytes: "bytes_of (RInt i) = ovb_head 6 t @ bytes_of (RBytes b)"
    by (auto simp: write_int_def n_def t_def b_def Let_def)
  have u: "untag t (RBytes b) = Ok (RInt i)"
    using n from_magnitude_bytes [of n] hd_magnitude_bytes [of n] length_magnitude_bytes [of n]
      magnitude_bytes_nonempty [of n]
    by (auto simp: untag_def t_def b_def n_def)
  have f: "fits d (items - 1) (RInt i) \<longleftrightarrow> fits (d + 1) items (RBytes b)" if "0 < items" for d items
    using that assms by (auto simp: fits_def)
  show ?thesis
    using assms u f readsD [OF reads_bytes [of b]]
    by (intro reads_head [OF bytes]) (simp_all add: rd_body_def)
qed

lemma ovb_head_nonempty: "ovb_head major n \<noteq> []"
  by (simp add: ovb_head_def)

lemma bytes_of_nonempty: "1 \<le> length (bytes_of v)"
proof -
  have "write_int i \<noteq> []" for i
    by (simp add: write_int_def Let_def ovb_head_nonempty)
  then have "bytes_of v \<noteq> []"
    by (cases v) (simp_all add: ovb_head_nonempty write_float_def)
  then show ?thesis by (cases "bytes_of v") simp_all
qed

lemma rd_array_reads:
  assumes "\<forall>x \<in> set a. reads x" and "looks_at r (concat (map bytes_of a))"
  shows "rd_array (length a) d r =
    (if fits_all d (rd_items r) a
     then Ok (a, step_reader (length (concat (map bytes_of a))) (sum_list (map read_items a)) r) else Err Limit)"
  using assms
proof (induction a arbitrary: r)
  case Nil
  then show ?case by (simp add: rd_array.simps)
next
  case (Cons x a)
  let ?r = "step_reader (length (bytes_of x)) (read_items x) r"
  from Cons.prems(2) have x: "looks_at r (bytes_of x)" and a: "looks_at ?r (concat (map bytes_of a))"
    using looks_at_append [of r "bytes_of x" "concat (map bytes_of a)"] by auto
  from Cons.prems(1) readsD [OF _ x] Cons.IH [OF _ a] show ?case
    by (subst rd_array.simps) auto
qed

lemma taken_bytes:
  "looks_at r bs \<Longrightarrow> take (length bs) (drop (rd_at r) (rd_bytes r)) = bs"
  by (auto simp: looks_at_def)

lemma rd_map_reads:
  assumes "\<forall>x \<in> set (flat_entries m). reads x" and "looks_at r (concat (map bytes_of (flat_entries m)))"
    and "sorted_wrt (<) (case prior of None \<Rightarrow> map (bytes_of \<circ> fst) m | Some p \<Rightarrow> p # map (bytes_of \<circ> fst) m)"
  shows "rd_map (length m) d prior r =
    (if fits_all d (rd_items r) (flat_entries m)
     then Ok (m, step_reader (length (concat (map bytes_of (flat_entries m)))) (sum_list (map read_items (flat_entries m))) r)
     else Err Limit)"
  using assms
proof (induction m arbitrary: prior r)
  case Nil
  then show ?case by (simp add: rd_map.simps)
next
  case (Cons kv m)
  obtain k v where kv: "kv = (k, v)" by (cases kv)
  let ?r1 = "step_reader (length (bytes_of k)) (read_items k) r"
  let ?r2 = "step_reader (length (bytes_of k) + length (bytes_of v)) (read_items k + read_items v) r"
  let ?rest = "concat (map bytes_of (flat_entries m))"
  from Cons.prems(2) kv have k: "looks_at r (bytes_of k)" and "looks_at ?r1 (bytes_of v @ ?rest)"
    using looks_at_append [of r "bytes_of k" "bytes_of v @ ?rest" "read_items k"] by auto
  then have v: "looks_at ?r1 (bytes_of v)" and rest: "looks_at ?r2 ?rest"
    using looks_at_append [of ?r1 "bytes_of v" ?rest "read_items v"] by auto
  have sorted: "sorted_wrt (<) (case Some (bytes_of k) of None \<Rightarrow> map (bytes_of \<circ> fst) m | Some p \<Rightarrow> p # map (bytes_of \<circ> fst) m)"
    and prior: "\<not> (case prior of None \<Rightarrow> False | Some p \<Rightarrow> bytes_of k \<le> p)"
    using Cons.prems(3) kv by (auto simp: comp_def split: option.splits)
  have reads: "reads k" "reads v" "\<forall>x \<in> set (flat_entries m). reads x"
    using Cons.prems(1) kv by auto
  note steps = readsD [OF reads(1) k] readsD [OF reads(2) v] Cons.IH [OF reads(3) rest sorted]
  have kb: "take (rd_at ?r1 - rd_at r) (drop (rd_at r) (rd_bytes r)) = bytes_of k"
    using taken_bytes [OF k] by simp
  have l: "length (kv # m) - 1 = length m" "length (kv # m) \<noteq> 0" by simp_all
  have "rd_map (length (kv # m)) d prior r =
      (case rd_raw d r of Inl e \<Rightarrow> Err e | Inr (k, r1) \<Rightarrow>
        let kb = take (rd_at r1 - rd_at r) (drop (rd_at r) (rd_bytes r)) in
        if (case prior of None \<Rightarrow> False | Some x \<Rightarrow> kb \<le> x) then Err DuplicateOrUnorderedMapKey
        else (case rd_raw d r1 of Inl e \<Rightarrow> Err e | Inr (v, r2) \<Rightarrow>
          (case rd_map (length m) d (Some kb) r2 of Inl e \<Rightarrow> Err e | Inr (m, r3) \<Rightarrow> Ok ((k, v) # m, r3))))"
    by (subst rd_map.simps) (simp only: l if_False)
  then show ?case
    using prior kv by (cases prior) (simp_all add: steps kb Let_def add.assoc del: step_reader_simps(1))
qed

lemma concat_flat_entries:
  "concat (map (\<lambda>(k, v). bytes_of k @ bytes_of v) m) = concat (map bytes_of (flat_entries m))"
  by (induction m rule: flat_entries.induct) auto

lemma length_concat_bytes: "length xs \<le> length (concat (map bytes_of xs))"
proof (induction xs)
  case (Cons x xs)
  then show ?case using bytes_of_nonempty [of x] by simp
qed simp

lemma length_flat_entries: "length m \<le> length (flat_entries m)"
  by (induction m rule: flat_entries.induct) auto

lemma reads_array:
  assumes "\<forall>x \<in> set a. reads x"
  shows "reads (RArray a)"
proof (rule reads_head [of _ 4 "len_u64 a" "concat (map bytes_of a)"])
  fix d r assume l: "looks_at r (concat (map bytes_of a))" and d: "d \<le> MAX_DEPTH" "0 < rd_items r" "int (rd_items r) \<le> MAX_ITEMS"
  have "int (length a) < 2 ^ 63"
    using length_concat_bytes [of a] looks_at_length [OF l] by linarith
  with rd_array_reads [OF assms l, of "d + 1"] unat_len_u64 [of a] d
  show "rd_body 4 (len_u64 a) d r = (if fits d (rd_items r - 1) (RArray a)
      then Ok (RArray a, step_reader (length (concat (map bytes_of a))) (read_items (RArray a) - 1) r) else Err Limit)"
    by (auto simp: rd_body_def fits_Array)
qed simp_all

lemma reads_map:
  assumes "\<forall>x \<in> set (flat_entries m). reads x" and "sorted_wrt (<) (map (bytes_of \<circ> fst) m)"
  shows "reads (RMap m)"
proof (rule reads_head [of _ 5 "len_u64 m" "concat (map bytes_of (flat_entries m))"])
  fix d r assume l: "looks_at r (concat (map bytes_of (flat_entries m)))"
    and d: "d \<le> MAX_DEPTH" "0 < rd_items r" "int (rd_items r) \<le> MAX_ITEMS"
  have "int (length m) < 2 ^ 63"
    using length_concat_bytes [of "flat_entries m"] length_flat_entries [of m] looks_at_length [OF l] by linarith
  moreover have "read_items (RMap m) - 1 = sum_list (map read_items (flat_entries m))"
    by (induction m rule: flat_entries.induct) auto
  ultimately show "rd_body 5 (len_u64 m) d r = (if fits d (rd_items r - 1) (RMap m)
      then Ok (RMap m, step_reader (length (concat (map bytes_of (flat_entries m)))) (read_items (RMap m) - 1) r) else Err Limit)"
    using rd_map_reads [OF assms(1) l, of None "d + 1"] assms(2) unat_len_u64 [of m] d
    by (simp add: rd_body_def fits_Map)
qed (simp_all only: bytes_of_Map concat_flat_entries, simp)

lemma reads_tag:
  assumes "reads x" and "n \<noteq> 2" and "n \<noteq> 3"
  shows "reads (RTag n x)"
  using assms readsD [OF assms(1)]
  by (intro reads_head [of _ 6 n "bytes_of x"]) (simp_all add: rd_body_def untag_def fits_Tag)

lemma canonical_reads: "canonical v \<Longrightarrow> texts_utf8 v \<Longrightarrow> reads v"
proof (induction v)
  case (RInt i)
  then show ?case using reads_small_int reads_big_int by blast
next
  case (RArray a)
  then show ?case by (intro reads_array) (simp add: list_all_iff)
next
  case (RMap m)
  have "reads k \<and> reads v" if "(k, v) \<in> set m" for k v
    using RMap.IH(1) [OF that, of k] RMap.IH(2) [OF that, of v] RMap.prems that
    by (force simp: fsts.simps snds.simps list_all_iff)
  then have "\<forall>x \<in> set (flat_entries m). reads x"
    unfolding flat_entries_all by auto
  with RMap.prems show ?case by (intro reads_map) simp_all
qed (simp_all add: reads_simple reads_float reads_bytes reads_text reads_tag)

section \<open>The codec\<close>

text \<open>
  C7. Encoding and decoding are inverse, up to the reader's limits. Let a value be encodable,
  with UTF-8 texts and an encoding that fits in memory. Then decoding the encoding gives back exactly
  the value when the reader's nesting and item limits admit it, and fails with the limit error, never
  with another error and never with another value, when they do not. Conversely whatever decodes to a
  value is the value's one encoding.
\<close>

theorem ovb_round_trip:
  assumes "no_bignum_tags vtag" and "encode_raw vtag v = Ok bs" and "texts_utf8 v" and "int (length bs) < 2 ^ 63"
  shows "value_decode vtag bs = (if fits 0 0 v then Ok v else Err Limit) \<and>
    (\<forall>other. value_decode vtag other = Ok v \<longrightarrow> other = bs)"
proof -
  have bs: "bs = bytes_of v" and c: "canonical v" and val: "validate_raw vtag v 0 = Ok ()"
    using encode_raw_bytes [OF assms(1,2)] by simp_all
  have "looks_at (rd_new bs) (bytes_of v)"
    using assms(4) bs by (simp add: looks_at_def rd_new_def)
  from readsD [OF canonical_reads [OF c assms(3)] this, of 0]
  have "value_decode vtag bs = (if fits 0 0 v then Ok v else Err Limit)"
    using bs val assms(2) by (simp add: value_decode_def rd_new_def)
  moreover have "value_decode vtag other = Ok v \<Longrightarrow> other = bs" for other
    using assms(2) by (auto simp: value_decode_def split: sum.splits if_splits)
  ultimately show ?thesis by blast
qed

text \<open>The registry of the witness knows the UUID tag, as the code's does.\<close>

definition uuid_registry :: tag_registry where
  "uuid_registry n v =
     (if n = 37 then (case v of RBytes b \<Rightarrow> if length b = 16 then Ok () else Err InvalidTag | _ \<Rightarrow> Err InvalidValue)
      else Err InvalidTag)"

definition sample_value :: raw where
  "sample_value = RMap [(RInt (-1), RText [0xc3, 0xa9]), (RText [97], RArray
     [RInt 300, RInt (2 ^ 70), RNull, RTag 37 (RBytes (replicate 16 7)), RFloat 0x3ff0000000000000])]"

definition sample_bytes :: "u8 list" where
  "sample_bytes = (case encode_raw uuid_registry sample_value of Inr b \<Rightarrow> b | Inl _ \<Rightarrow> [])"

theorem ovb_round_trip_witness: "value_decode uuid_registry sample_bytes = Ok sample_value"
proof -
  have "no_bignum_tags uuid_registry" by (simp add: no_bignum_tags_def uuid_registry_def)
  moreover have "encode_raw uuid_registry sample_value = Ok sample_bytes" by code_simp
  moreover have "texts_utf8 sample_value" by code_simp
  moreover have "int (length sample_bytes) < 2 ^ 63" by code_simp
  moreover have "fits 0 0 sample_value" by code_simp
  ultimately show ?thesis using ovb_round_trip [of uuid_registry sample_value sample_bytes] by simp
qed

end
