(* ===== verification/Orna_Evolution.thy ===== *)
theory Orna_Evolution
  imports Orna_Value
begin

text \<open>
  Schema evolution: \<open>crates/orna-evolution/src/lib.rs\<close>.

  Two schema snapshots and the explicit re-key intents give one migration plan or one error
  (\<open>plan\<close>); \<open>execute\<close> applies a plan through a target that must approve it first. Canonical values are
  \<open>raw\<close> values, encoded under the tag registry \<open>vtag\<close>.
\<close>

section \<open>Schemas\<close>

type_synonym object_id = "u8 list"

record evolution_version =
  v_major :: u16
  v_minor :: u16

definition V1_0 :: evolution_version where
  "V1_0 = \<lparr>v_major = 1, v_minor = 0\<rparr>"

definition version_le :: "evolution_version \<Rightarrow> evolution_version \<Rightarrow> bool" where
  "version_le a b \<longleftrightarrow> v_major a < v_major b \<or> v_major a = v_major b \<and> v_minor a \<le> v_minor b"

record version_fence =
  minimum :: evolution_version
  maximum :: evolution_version

definition fence_V1 :: version_fence where
  "fence_V1 = \<lparr>minimum = V1_0, maximum = V1_0\<rparr>"

definition fence_permits :: "version_fence \<Rightarrow> evolution_version \<Rightarrow> bool" where
  "fence_permits fence version \<longleftrightarrow> version_le (minimum fence) version \<and> version_le version (maximum fence)"

datatype field_type = TyBool | TyInt | TyFloat | TyStr | TyUuid | TyCustom string

datatype field_role = Key | Stored | Computed

record field =
  f_id :: object_id
  f_name :: string
  f_ty :: field_type
  f_role :: field_role
  f_optional :: bool
  f_fallback :: "raw option"

record table =
  t_id :: object_id
  t_name :: string
  t_explicit_key :: bool
  t_fields :: "field list"

record schema =
  s_version :: evolution_version
  s_tables :: "table list"

record rekey_intent =
  rk_table :: object_id
  rk_old_key :: raw
  rk_new_key :: raw

record planning_request =
  rq_fence :: version_fence
  rq_rekeys :: "rekey_intent list"

datatype migration_operation =
    DeleteTable table
  | CreateTable table
  | RenameTable object_id string string
  | DeleteField object_id field
  | RenameField object_id object_id string string
  | AddOptionalField object_id field
  | AddRequiredFieldWithFallback object_id field
  | RekeyRow object_id raw raw

section \<open>Canonical keys\<close>

definition hex_digit :: "nat \<Rightarrow> char" where
  "hex_digit n = (if n < 10 then char_of (48 + n) else char_of (87 + n))"

definition hex_byte :: "u8 \<Rightarrow> string" where
  "hex_byte b = [hex_digit (unat b div 16), hex_digit (unat b mod 16)]"

definition hex :: "u8 list \<Rightarrow> string" where
  "hex bytes = concat (map hex_byte bytes)"

definition canonical_key :: "tag_registry \<Rightarrow> raw \<Rightarrow> string" where
  "canonical_key vtag v =
     (case encode_raw vtag v of Inr bytes \<Rightarrow> hex bytes | Inl _ \<Rightarrow> ''invalid-canonical-value'')"

primrec contains_float :: "raw \<Rightarrow> bool" where
  "contains_float RNull = False"
| "contains_float (RBool b) = False"
| "contains_float (RInt i) = False"
| "contains_float (RFloat bits) = True"
| "contains_float (RBytes b) = False"
| "contains_float (RText s) = False"
| "contains_float (RArray values) = list_ex id (map contains_float values)"
| "contains_float (RMap entries) = list_ex (\<lambda>(k, v). k \<or> v) (map (map_prod contains_float contains_float) entries)"
| "contains_float (RTag n v) = contains_float v"

fun sort_key_of :: "tag_registry \<Rightarrow> migration_operation \<Rightarrow> object_id \<times> nat \<times> object_id \<times> string" where
  "sort_key_of vtag (DeleteTable t) = (t_id t, 0, t_id t, t_name t)"
| "sort_key_of vtag (CreateTable t) = (t_id t, 1, t_id t, t_name t)"
| "sort_key_of vtag (RenameTable t _ to) = (t, 2, t, to)"
| "sort_key_of vtag (DeleteField t f) = (t, 3, f_id f, f_name f)"
| "sort_key_of vtag (RenameField t f _ to) = (t, 4, f, to)"
| "sort_key_of vtag (AddOptionalField t f) = (t, 5, f_id f, f_name f)"
| "sort_key_of vtag (AddRequiredFieldWithFallback t f) = (t, 6, f_id f, f_name f)"
| "sort_key_of vtag (RekeyRow t old_key _) = (t, 7, t, canonical_key vtag old_key)"

section \<open>Validation\<close>

datatype schema_side = From | To

datatype planning_error =
    VersionFence schema_side evolution_version version_fence
  | UnsupportedVersion schema_side evolution_version
  | IncompatibleVersionTransition evolution_version evolution_version
  | DuplicateTableId schema_side object_id
  | DuplicateFieldId schema_side object_id object_id
  | MissingTableIdentity object_id
  | IncompatibleField object_id object_id string
  | IncompatibleTable object_id string
  | RequiredFieldNeedsBackfill object_id object_id
  | InvalidRekey object_id string
  | AmbiguousRekey object_id string

definition fallback_matches_field_type :: "raw \<Rightarrow> field_type \<Rightarrow> bool" where
  "fallback_matches_field_type v ty =
     (case (ty, v) of
        (TyBool, RBool _) \<Rightarrow> True
      | (TyInt, RInt _) \<Rightarrow> True
      | (TyFloat, RFloat _) \<Rightarrow> True
      | (TyStr, RText _) \<Rightarrow> True
      | (TyUuid, RTag n payload) \<Rightarrow> n = 37 \<and> (case payload of RBytes b \<Rightarrow> length b = 16 | _ \<Rightarrow> False)
      | _ \<Rightarrow> False)"

definition validate_fallback :: "tag_registry \<Rightarrow> object_id \<Rightarrow> field \<Rightarrow> (planning_error, unit) result" where
  "validate_fallback vtag table f =
     (case f_fallback f of
        None \<Rightarrow> Ok ()
      | Some fallback \<Rightarrow>
          if \<not> is_ok (encode_raw vtag fallback) then
            Err (IncompatibleField table (f_id f) ''field introduction fallback is not canonical'')
          else if \<not> fallback_matches_field_type fallback (f_ty f) then
            Err (IncompatibleField table (f_id f) ''field introduction fallback does not match field type'')
          else if f_optional f \<or> f_role f \<noteq> Stored then
            Err (IncompatibleField table (f_id f) ''field introduction fallback requires a required stored field'')
          else Ok ())"

fun validate_fields :: "tag_registry \<Rightarrow> schema_side \<Rightarrow> object_id \<Rightarrow> object_id btree_set \<Rightarrow> field list \<Rightarrow>
    (planning_error, unit) result" where
  "validate_fields vtag side table field_ids [] = Ok ()"
| "validate_fields vtag side table field_ids (f # fs) =
     (if bs_contains field_ids (f_id f) then Err (DuplicateFieldId side table (f_id f))
      else if f_ty f = TyFloat \<and> f_role f = Key then
        Err (IncompatibleField table (f_id f) ''Float is not permitted as a primary-key component'')
      else (case validate_fallback vtag table f of
              Inl e \<Rightarrow> Err e
            | Inr _ \<Rightarrow> validate_fields vtag side table (bs_insert (f_id f) field_ids) fs))"

fun validate_tables :: "tag_registry \<Rightarrow> schema_side \<Rightarrow> object_id btree_set \<Rightarrow> table list \<Rightarrow>
    (planning_error, unit) result" where
  "validate_tables vtag side table_ids [] = Ok ()"
| "validate_tables vtag side table_ids (t # ts) =
     (if bs_contains table_ids (t_id t) then Err (DuplicateTableId side (t_id t))
      else (case validate_fields vtag side (t_id t) [] (t_fields t) of
              Inl e \<Rightarrow> Err e
            | Inr _ \<Rightarrow> validate_tables vtag side (bs_insert (t_id t) table_ids) ts))"

definition validate_schema :: "tag_registry \<Rightarrow> schema \<Rightarrow> schema_side \<Rightarrow> version_fence \<Rightarrow>
    (planning_error, unit) result" where
  "validate_schema vtag s side fence =
     (if \<not> fence_permits fence (s_version s) then Err (VersionFence side (s_version s) fence)
      else validate_tables vtag side [] (s_tables s))"

section \<open>Planning\<close>

definition tables_by_id :: "schema \<Rightarrow> (object_id, table) btree_map" where
  "tables_by_id s = bm_collect (map (\<lambda>t. (t_id t, t)) (s_tables s))"

definition fields_by_id :: "table \<Rightarrow> (object_id, field) btree_map" where
  "fields_by_id t = bm_collect (map (\<lambda>f. (f_id f, f)) (t_fields t))"

text \<open>The three loops of \<open>compare_fields\<close>, one iteration each.\<close>

definition removed_field :: "object_id \<Rightarrow> (object_id, field) btree_map \<Rightarrow> object_id \<times> field \<Rightarrow>
    (planning_error, migration_operation list) result" where
  "removed_field table after entry = (case entry of (ident, old_field) \<Rightarrow>
     if bm_contains after ident then Ok []
     else if f_role old_field = Key then
       Err (IncompatibleField table ident ''primary-key fields cannot be removed during schema evolution'')
     else Ok [DeleteField table old_field])"

definition kept_field :: "object_id \<Rightarrow> (object_id, field) btree_map \<Rightarrow> object_id \<times> field \<Rightarrow>
    (planning_error, migration_operation list) result" where
  "kept_field table after entry = (case entry of (ident, old_field) \<Rightarrow>
     (case bm_get after ident of
        None \<Rightarrow> Ok []
      | Some new_field \<Rightarrow>
          if f_ty old_field \<noteq> f_ty new_field then Err (IncompatibleField table ident ''type changed'')
          else if f_role old_field \<noteq> f_role new_field then Err (IncompatibleField table ident ''field role changed'')
          else if f_optional old_field \<and> \<not> f_optional new_field then
            Err (IncompatibleField table ident ''optional field became required'')
          else if f_fallback old_field \<noteq> f_fallback new_field then
            Err (IncompatibleField table ident ''field introduction fallback changed'')
          else if f_name old_field \<noteq> f_name new_field then
            Ok [RenameField table ident (f_name old_field) (f_name new_field)]
          else Ok []))"

definition added_field :: "object_id \<Rightarrow> (object_id, field) btree_map \<Rightarrow> object_id \<times> field \<Rightarrow>
    (planning_error, migration_operation list) result" where
  "added_field table before entry = (case entry of (ident, f) \<Rightarrow>
     if bm_contains before ident then Ok []
     else if f_role f = Key then
       Err (IncompatibleField table ident ''primary-key fields cannot be added during schema evolution'')
     else if f_role f = Computed then
       Err (IncompatibleField table ident ''computed fields are not migration steps'')
     else if f_optional f then Ok [AddOptionalField table f]
     else if f_fallback f \<noteq> None then Ok [AddRequiredFieldWithFallback table f]
     else Err (RequiredFieldNeedsBackfill table ident))"

definition compare_fields :: "object_id \<Rightarrow> table \<Rightarrow> table \<Rightarrow> (planning_error, migration_operation list) result" where
  "compare_fields table old new =
     (let before = fields_by_id old; after = fields_by_id new in
      case try_concat (removed_field table after) before of
        Inl e \<Rightarrow> Err e
      | Inr removed \<Rightarrow>
     (case try_concat (kept_field table after) before of
        Inl e \<Rightarrow> Err e
      | Inr renamed \<Rightarrow>
     (case try_concat (added_field table before) after of
        Inl e \<Rightarrow> Err e
      | Inr added \<Rightarrow> Ok (removed @ renamed @ added))))"

definition plan_table :: "(object_id, table) btree_map \<Rightarrow> object_id \<times> table \<Rightarrow>
    (planning_error, migration_operation list) result" where
  "plan_table new_tables entry = (case entry of (ident, old) \<Rightarrow>
     (case bm_get new_tables ident of
        None \<Rightarrow> Ok [DeleteTable old]
      | Some new \<Rightarrow>
          if t_explicit_key old \<noteq> t_explicit_key new then
            Err (IncompatibleTable ident ''explicit-key mode changed'')
          else (case compare_fields ident old new of
                  Inl e \<Rightarrow> Err e
                | Inr ops \<Rightarrow>
                    Ok ((if t_name old \<noteq> t_name new then [RenameTable ident (t_name old) (t_name new)] else []) @ ops))))"

definition create_table :: "(object_id, table) btree_map \<Rightarrow> object_id \<times> table \<Rightarrow> migration_operation list" where
  "create_table old_tables entry = (case entry of (ident, new) \<Rightarrow>
     if bm_contains old_tables ident then [] else [CreateTable new])"

fun validate_rekeys :: "tag_registry \<Rightarrow> (object_id, table) btree_map \<Rightarrow> (object_id \<times> string) btree_set \<Rightarrow>
    (object_id \<times> string) btree_set \<Rightarrow> rekey_intent list \<Rightarrow> (planning_error, migration_operation list) result" where
  "validate_rekeys vtag tables old_keys new_keys [] = Ok []"
| "validate_rekeys vtag tables old_keys new_keys (rk # rks) =
     (case bm_get tables (rk_table rk) of
        None \<Rightarrow> Err (InvalidRekey (rk_table rk) ''unknown table identity'')
      | Some table \<Rightarrow>
          if \<not> t_explicit_key table then Err (InvalidRekey (rk_table rk) ''automatic keys cannot be rekeyed'')
          else if contains_float (rk_old_key rk) \<or> contains_float (rk_new_key rk) then
            Err (InvalidRekey (rk_table rk) ''Float is not permitted in a primary-key component'')
          else if rk_old_key rk = rk_new_key rk then
            Err (InvalidRekey (rk_table rk) ''old and new key are equal'')
          else
            let old = (rk_table rk, canonical_key vtag (rk_old_key rk));
                new = (rk_table rk, canonical_key vtag (rk_new_key rk)) in
            if bs_contains old_keys new \<or> bs_contains new_keys old then
              Err (AmbiguousRekey (rk_table rk) ''a re-key target is another intent's source key'')
            else if bs_contains old_keys old then
              Err (AmbiguousRekey (rk_table rk) ''multiple intents name one old key'')
            else if bs_contains new_keys new then
              Err (AmbiguousRekey (rk_table rk) ''multiple intents target one new key'')
            else (case validate_rekeys vtag tables (bs_insert old old_keys) (bs_insert new new_keys) rks of
                    Inl e \<Rightarrow> Err e
                  | Inr ops \<Rightarrow> Ok (RekeyRow (rk_table rk) (rk_old_key rk) (rk_new_key rk) # ops)))"

definition plan :: "tag_registry \<Rightarrow> schema \<Rightarrow> schema \<Rightarrow> planning_request \<Rightarrow>
    (planning_error, migration_operation list) result" where
  "plan vtag from_s to_s request =
     (case validate_schema vtag from_s From (rq_fence request) of Inl e \<Rightarrow> Err e | Inr _ \<Rightarrow>
     (case validate_schema vtag to_s To (rq_fence request) of Inl e \<Rightarrow> Err e | Inr _ \<Rightarrow>
      if s_version from_s \<noteq> s_version to_s then
        Err (IncompatibleVersionTransition (s_version from_s) (s_version to_s))
      else if s_version from_s \<noteq> V1_0 then Err (UnsupportedVersion From (s_version from_s))
      else
        let old_tables = tables_by_id from_s; new_tables = tables_by_id to_s in
        case try_concat (plan_table new_tables) old_tables of
          Inl e \<Rightarrow> Err e
        | Inr ops \<Rightarrow>
            (case validate_rekeys vtag new_tables [] [] (rq_rekeys request) of
               Inl e \<Rightarrow> Err e
             | Inr rekeys \<Rightarrow>
                 Ok (sort_key (sort_key_of vtag) (ops @ concat (map (create_table old_tables) new_tables) @ rekeys)))))"

section \<open>Execution\<close>

text \<open>
  A target is a state with two calls, each of which may fail and may change the state also when it
  fails.
\<close>

datatype 'e execution_error = Approval 'e | Denied | Mutation 'e

fun apply_operations :: "(migration_operation \<Rightarrow> 's \<Rightarrow> ('e, unit) result \<times> 's) \<Rightarrow> migration_operation list \<Rightarrow>
    's \<Rightarrow> ('e execution_error, unit) result \<times> 's" where
  "apply_operations app [] s = (Ok (), s)"
| "apply_operations app (operation # ops) s =
     (case app operation s of
        (Inl e, s') \<Rightarrow> (Err (Mutation e), s')
      | (Inr _, s') \<Rightarrow> apply_operations app ops s')"

definition execute :: "(migration_operation list \<Rightarrow> 's \<Rightarrow> ('e, bool) result \<times> 's) \<Rightarrow>
    (migration_operation \<Rightarrow> 's \<Rightarrow> ('e, unit) result \<times> 's) \<Rightarrow> migration_operation list \<Rightarrow>
    's \<Rightarrow> ('e execution_error, unit) result \<times> 's" where
  "execute approve app ops s =
     (case approve ops s of
        (Inl e, s') \<Rightarrow> (Err (Approval e), s')
      | (Inr approved, s') \<Rightarrow> if \<not> approved then (Err Denied, s') else apply_operations app ops s')"

end
