(* ===== verification/Orna_Evolution_Laws.thy ===== *)
theory Orna_Evolution_Laws
  imports Orna_Evolution
begin

text \<open>
  What a migration plan does: applied to the source schema, operation by operation, it yields the
  target schema; it never touches a primary key; its re-keys cannot collide; and nothing of it is
  applied without approval. The meaning of a single operation on a schema is \<open>apply_op\<close>.
\<close>

section \<open>Maps built from lists\<close>

lemma bm_get_extend_list: "bm_get (bm_extend m kvs) k = (case map_of (rev kvs) k of None \<Rightarrow> bm_get m k | Some v \<Rightarrow> Some v)"
proof (induction kvs arbitrary: m)
  case Nil
  then show ?case by (simp add: bm_extend_def)
next
  case (Cons kv kvs)
  obtain l v where kv: "kv = (l, v)" by (cases kv)
  have "bm_extend m (kv # kvs) = bm_extend (bm_insert l v m) kvs"
    by (simp add: bm_extend_def kv)
  with Cons [of "bm_insert l v m"] show ?case
    by (simp add: kv bm_get_insert map_add_def split: option.splits)
qed

lemma bm_get_collect: "bm_get (bm_collect kvs) k = map_of (rev kvs) k"
  by (simp add: bm_collect_def bm_get_extend_list split: option.splits)

lemma by_id_key: "bm_get (bm_collect (map (\<lambda>x. (h x, x)) xs)) k = Some v \<Longrightarrow> h v = k \<and> v \<in> set xs"
  unfolding bm_get_collect by (auto dest!: map_of_SomeD)

lemma tables_by_id_key: "bm_get (tables_by_id s) k = Some t \<Longrightarrow> t_id t = k"
  unfolding tables_by_id_def by (auto dest: by_id_key)

lemma fields_by_id_key: "bm_get (fields_by_id t) k = Some f \<Longrightarrow> f_id f = k"
  unfolding fields_by_id_def by (auto dest: by_id_key)

lemma by_id_wf [simp]: "bm_wf (tables_by_id s)" "bm_wf (fields_by_id t)"
  by (simp_all add: tables_by_id_def fields_by_id_def bm_wf_collect)

lemma bm_wf_distinct: "bm_wf m \<Longrightarrow> distinct (map fst m)"
  unfolding bm_wf_def by (induction m) auto

text \<open>The operations of one key, out of the operations of all entries of a map.\<close>

lemma filter_concat_key:
  assumes "bm_wf es" and "\<And>l v op. bm_get es l = Some v \<Longrightarrow> op \<in> set (g (l, v)) \<Longrightarrow> key op = Some l"
  shows "filter (\<lambda>op. key op = Some k) (concat (map g es)) = (case bm_get es k of None \<Rightarrow> [] | Some v \<Rightarrow> g (k, v))"
  using bm_wf_distinct [OF assms(1)] assms(2)
proof (induction es)
  case (Cons e es)
  obtain l v where e: "e = (l, v)" by (cases e)
  have tail: "bm_get es l' = Some v' \<Longrightarrow> bm_get (e # es) l' = Some v'" for l' v'
    using Cons.prems(1) e by (auto simp: bm_get_def dest!: map_of_SomeD intro!: map_of_is_SomeI) force
  have IH: "filter (\<lambda>op. key op = Some k) (concat (map g es)) = (case bm_get es k of None \<Rightarrow> [] | Some v \<Rightarrow> g (k, v))"
    using Cons.prems tail by (intro Cons.IH) auto
  have head: "op \<in> set (g e) \<Longrightarrow> key op = Some l" for op
    using Cons.prems(2) [of l v op] e by (simp add: bm_get_def)
  have "bm_get es l = None"
    using Cons.prems(1) e by (simp add: bm_get_None_notin)
  then show ?case
    using IH head e by (auto simp: bm_get_def filter_id_conv filter_empty_conv)
qed simp

section \<open>The meaning of the operations\<close>

type_synonym table_content = "string \<times> bool \<times> (object_id \<Rightarrow> field option)"
type_synonym schema_content = "object_id \<Rightarrow> table_content option"

definition content_of_table :: "table \<Rightarrow> table_content" where
  "content_of_table t = (t_name t, t_explicit_key t, bm_get (fields_by_id t))"

definition content_of :: "schema \<Rightarrow> schema_content" where
  "content_of s ident = map_option content_of_table (bm_get (tables_by_id s) ident)"

fun op_table :: "migration_operation \<Rightarrow> object_id" where
  "op_table (DeleteTable t) = t_id t"
| "op_table (CreateTable t) = t_id t"
| "op_table (RenameTable t _ _) = t"
| "op_table (DeleteField t _) = t"
| "op_table (RenameField t _ _ _) = t"
| "op_table (AddOptionalField t _) = t"
| "op_table (AddRequiredFieldWithFallback t _) = t"
| "op_table (RekeyRow t _ _) = t"

fun op_field :: "migration_operation \<Rightarrow> object_id option" where
  "op_field (DeleteField _ f) = Some (f_id f)"
| "op_field (RenameField _ f _ _) = Some f"
| "op_field (AddOptionalField _ f) = Some (f_id f)"
| "op_field (AddRequiredFieldWithFallback _ f) = Some (f_id f)"
| "op_field _ = None"

fun apply_field :: "migration_operation \<Rightarrow> field option \<Rightarrow> field option" where
  "apply_field (DeleteField _ _) x = None"
| "apply_field (RenameField _ _ _ to) x = map_option (\<lambda>f. f\<lparr>f_name := to\<rparr>) x"
| "apply_field (AddOptionalField _ f) x = Some f"
| "apply_field (AddRequiredFieldWithFallback _ f) x = Some f"
| "apply_field _ x = x"

fun apply_name :: "migration_operation \<Rightarrow> string \<Rightarrow> string" where
  "apply_name (RenameTable _ _ to) n = to"
| "apply_name _ n = n"

fun apply_table :: "migration_operation \<Rightarrow> table_content option \<Rightarrow> table_content option" where
  "apply_table (DeleteTable _) c = None"
| "apply_table (CreateTable t) c = Some (content_of_table t)"
| "apply_table operation c = map_option (\<lambda>(n, e, fs). (apply_name operation n, e,
     (case op_field operation of None \<Rightarrow> fs | Some f \<Rightarrow> fs(f := apply_field operation (fs f))))) c"

definition apply_op :: "migration_operation \<Rightarrow> schema_content \<Rightarrow> schema_content" where
  "apply_op operation c = c(op_table operation := apply_table operation (c (op_table operation)))"

lemma fold_apply_op:
  "fold apply_op ops c t = fold apply_table (filter (\<lambda>x. op_table x = t) ops) (c t)"
  by (induction ops arbitrary: c) (simp_all add: apply_op_def)

definition whole_table :: "migration_operation \<Rightarrow> bool" where
  "whole_table x = (case x of DeleteTable _ \<Rightarrow> True | CreateTable _ \<Rightarrow> True | _ \<Rightarrow> False)"

definition is_rekey :: "migration_operation \<Rightarrow> bool" where
  "is_rekey x = (case x of RekeyRow _ _ _ \<Rightarrow> True | _ \<Rightarrow> False)"

lemma fold_apply_no_rekey:
  "fold apply_table ops c = fold apply_table (filter (\<lambda>x. \<not> is_rekey x) ops) c"
proof (induction ops arbitrary: c)
  case (Cons x ops)
  have "is_rekey x \<Longrightarrow> apply_table x c = c"
    by (cases x; cases c) (auto simp: is_rekey_def)
  with Cons show ?case by simp
qed simp

lemma fold_apply_parts:
  "\<forall>x \<in> set ops. \<not> whole_table x \<Longrightarrow> fold apply_table ops (Some (n, e, fs)) =
     Some (fold apply_name ops n, e, \<lambda>f. fold apply_field (filter (\<lambda>x. op_field x = Some f) ops) (fs f))"
proof (induction ops arbitrary: n fs)
  case (Cons x ops)
  then show ?case by (cases x) (auto simp: whole_table_def fun_eq_iff)
qed simp

lemma fold_apply_name: "fold apply_name ops n = fold apply_name (filter (\<lambda>x. \<exists>t a b. x = RenameTable t a b) ops) n"
proof (induction ops arbitrary: n)
  case (Cons x ops)
  then show ?case by (cases x) simp_all
qed simp

section \<open>The operations of a plan\<close>

lemma compare_fields_Ok:
  assumes "compare_fields ident old new = Ok ops"
  defines "before \<equiv> fields_by_id old" and "after \<equiv> fields_by_id new"
  shows "ops = concat (map (\<lambda>x. pushes (removed_field ident after x)) before) @
      concat (map (\<lambda>x. pushes (kept_field ident after x)) before) @
      concat (map (\<lambda>x. pushes (added_field ident before x)) after)"
    and "\<And>f x. bm_get before f = Some x \<Longrightarrow> removed_field ident after (f, x) = Ok (pushes (removed_field ident after (f, x)))"
    and "\<And>f x. bm_get before f = Some x \<Longrightarrow> kept_field ident after (f, x) = Ok (pushes (kept_field ident after (f, x)))"
    and "\<And>f x. bm_get after f = Some x \<Longrightarrow> added_field ident before (f, x) = Ok (pushes (added_field ident before (f, x)))"
proof -
  from assms obtain a b c where abc: "try_concat (removed_field ident after) before = Ok a"
    "try_concat (kept_field ident after) before = Ok b" "try_concat (added_field ident before) after = Ok c"
    and ops: "ops = a @ b @ c"
    by (auto simp: compare_fields_def Let_def split: sum.splits)
  note parts = abc [THEN try_concat_Ok]
  show "ops = concat (map (\<lambda>x. pushes (removed_field ident after x)) before) @
      concat (map (\<lambda>x. pushes (kept_field ident after x)) before) @
      concat (map (\<lambda>x. pushes (added_field ident before x)) after)"
    using parts ops by simp
  have mem: "bm_wf before" "bm_wf after" by (simp_all add: before_def after_def)
  show "bm_get before f = Some x \<Longrightarrow> removed_field ident after (f, x) = Ok (pushes (removed_field ident after (f, x)))" for f x
    using parts(1) bm_get_mem [OF mem(1), of f x] by blast
  show "bm_get before f = Some x \<Longrightarrow> kept_field ident after (f, x) = Ok (pushes (kept_field ident after (f, x)))" for f x
    using parts(2) bm_get_mem [OF mem(1), of f x] by blast
  show "bm_get after f = Some x \<Longrightarrow> added_field ident before (f, x) = Ok (pushes (added_field ident before (f, x)))" for f x
    using parts(3) bm_get_mem [OF mem(2), of f x] by blast
qed

lemma field_step_ops:
  "x \<in> set (pushes (removed_field ident after (f, old))) \<Longrightarrow> f_id old = f \<Longrightarrow>
     op_table x = ident \<and> op_field x = Some f \<and> \<not> whole_table x \<and> \<not> is_rekey x"
  "x \<in> set (pushes (kept_field ident after (f, old))) \<Longrightarrow>
     op_table x = ident \<and> op_field x = Some f \<and> \<not> whole_table x \<and> \<not> is_rekey x"
  "x \<in> set (pushes (added_field ident before (f, new))) \<Longrightarrow> f_id new = f \<Longrightarrow>
     op_table x = ident \<and> op_field x = Some f \<and> \<not> whole_table x \<and> \<not> is_rekey x"
  by (auto simp: removed_field_def kept_field_def added_field_def pushes_def whole_table_def is_rekey_def
      split: if_splits option.splits)

definition ops_at :: "('k, 'v) btree_map \<Rightarrow> ('k \<times> 'v \<Rightarrow> ('e, 'o list) result) \<Rightarrow> 'k \<Rightarrow> 'o list" where
  "ops_at m step k = (case bm_get m k of None \<Rightarrow> [] | Some v \<Rightarrow> pushes (step (k, v)))"

lemma field_ops_of_plan:
  assumes "compare_fields ident old new = Ok ops"
  shows "x \<in> set ops \<Longrightarrow> op_table x = ident \<and> op_field x \<noteq> None \<and> \<not> whole_table x \<and> \<not> is_rekey x"
    and "filter (\<lambda>x. op_field x = Some f) ops =
      ops_at (fields_by_id old) (removed_field ident (fields_by_id new)) f @
      ops_at (fields_by_id old) (kept_field ident (fields_by_id new)) f @
      ops_at (fields_by_id new) (added_field ident (fields_by_id old)) f"
proof -
  note ops = compare_fields_Ok(1) [OF assms]
  have mem: "(g, y) \<in> set (fields_by_id t) \<Longrightarrow> f_id y = g" for g y t
    using bm_get_mem [of "fields_by_id t" g y] fields_by_id_key [of t g y] by simp
  show "x \<in> set ops \<Longrightarrow> op_table x = ident \<and> op_field x \<noteq> None \<and> \<not> whole_table x \<and> \<not> is_rekey x"
    unfolding ops using mem field_step_ops by fastforce
  show "filter (\<lambda>x. op_field x = Some f) ops =
      ops_at (fields_by_id old) (removed_field ident (fields_by_id new)) f @
      ops_at (fields_by_id old) (kept_field ident (fields_by_id new)) f @
      ops_at (fields_by_id new) (added_field ident (fields_by_id old)) f"
    unfolding ops filter_append ops_at_def
    by (intro arg_cong2 [where f = "(@)"] filter_concat_key by_id_wf) (auto dest: field_step_ops fields_by_id_key)
qed

text \<open>
  A field of the target schema as a plan leaves it: a field that was already there keeps its old
  \<open>optional\<close> flag, since no operation carries a relaxed one.
\<close>

definition planned_field :: "field option \<Rightarrow> field option \<Rightarrow> field option" where
  "planned_field old new = (case (old, new) of
     (Some f, Some g) \<Rightarrow> Some (g\<lparr>f_optional := f_optional f\<rparr>) | _ \<Rightarrow> new)"

definition planned_table :: "table_content option \<Rightarrow> table_content option \<Rightarrow> table_content option" where
  "planned_table old new = (case (old, new) of
     (Some (_, _, fs), Some (n, e, gs)) \<Rightarrow> Some (n, e, \<lambda>f. planned_field (fs f) (gs f)) | _ \<Rightarrow> new)"

definition planned_content :: "schema \<Rightarrow> schema \<Rightarrow> schema_content" where
  "planned_content from_s to_s t = planned_table (content_of from_s t) (content_of to_s t)"

lemma field_result:
  assumes "compare_fields ident old new = Ok ops"
  shows "fold apply_field (sort_key k (filter (\<lambda>x. op_field x = Some f) ops)) (bm_get (fields_by_id old) f) =
    planned_field (bm_get (fields_by_id old) f) (bm_get (fields_by_id new) f)"
proof (cases "bm_get (fields_by_id old) f")
  case None
  then show ?thesis
    unfolding field_ops_of_plan(2) [OF assms] using compare_fields_Ok(4) [OF assms, of f]
    by (cases "bm_get (fields_by_id new) f")
      (auto simp: ops_at_def planned_field_def added_field_def bm_contains_get split: if_splits)
next
  case (Some x)
  note x = this
  show ?thesis
  proof (cases "bm_get (fields_by_id new) f")
    case None
    with x show ?thesis
      unfolding field_ops_of_plan(2) [OF assms] using compare_fields_Ok(2) [OF assms x]
      by (auto simp: ops_at_def planned_field_def removed_field_def kept_field_def bm_contains_get split: if_splits)
  next
    case (Some y)
    have ids: "f_id x = f_id y" using fields_by_id_key [OF x] fields_by_id_key [OF Some] by simp
    from x Some show ?thesis
      unfolding field_ops_of_plan(2) [OF assms] using compare_fields_Ok(3) [OF assms x] ids
      by (auto simp: ops_at_def planned_field_def removed_field_def kept_field_def added_field_def bm_contains_get
          split: if_splits)
  qed
qed

lemma plan_table_ops:
  assumes "plan_table new_tables (ident, old) = Ok ops" and "t_id old = ident"
  shows "\<forall>x \<in> set ops. op_table x = ident \<and> \<not> is_rekey x"
  using assms field_ops_of_plan(1)
  by (auto simp: plan_table_def is_rekey_def split: option.splits if_splits sum.splits)

lemma table_result:
  assumes p: "plan_table new_tables (ident, old) = Ok ops" and n: "bm_get new_tables ident = Some new"
  shows "fold apply_table (sort_key k ops) (Some (content_of_table old)) =
    planned_table (Some (content_of_table old)) (Some (content_of_table new))"
proof -
  from p n obtain fops where c: "compare_fields ident old new = Ok fops" and e: "t_explicit_key old = t_explicit_key new"
    and ops: "ops = (if t_name old \<noteq> t_name new then [RenameTable ident (t_name old) (t_name new)] else []) @ fops"
    by (auto simp: plan_table_def split: if_splits sum.splits)
  have fields: "filter (\<lambda>x. op_field x = Some f) ops = filter (\<lambda>x. op_field x = Some f) fops" for f
    by (simp add: ops)
  have "\<forall>x \<in> set fops. \<not> (\<exists>t a b. x = RenameTable t a b)"
    using field_ops_of_plan(1) [OF c] by fastforce
  then have "filter (\<lambda>x. \<exists>t a b. x = RenameTable t a b) ops =
      (if t_name old \<noteq> t_name new then [RenameTable ident (t_name old) (t_name new)] else [])"
    by (simp add: ops filter_empty_conv)
  then have name: "fold apply_name (sort_key k ops) (t_name old) = t_name new"
    by (subst fold_apply_name) (simp add: filter_sort)
  have "\<forall>x \<in> set (sort_key k ops). \<not> whole_table x"
    using field_ops_of_plan(1) [OF c] by (auto simp: ops whole_table_def split: if_splits)
  from fold_apply_parts [OF this] show ?thesis
    by (simp add: content_of_table_def planned_table_def e name filter_sort fields field_result [OF c])
qed

section \<open>Re-keys\<close>

definition rekey_source :: "tag_registry \<Rightarrow> rekey_intent \<Rightarrow> object_id \<times> string" where
  "rekey_source vtag rk = (rk_table rk, canonical_key vtag (rk_old_key rk))"

definition rekey_target :: "tag_registry \<Rightarrow> rekey_intent \<Rightarrow> object_id \<times> string" where
  "rekey_target vtag rk = (rk_table rk, canonical_key vtag (rk_new_key rk))"

definition rekey_op :: "rekey_intent \<Rightarrow> migration_operation" where
  "rekey_op rk = RekeyRow (rk_table rk) (rk_old_key rk) (rk_new_key rk)"

definition rekey_admitted :: "(object_id, table) btree_map \<Rightarrow> rekey_intent \<Rightarrow> bool" where
  "rekey_admitted tables rk \<longleftrightarrow> (\<exists>t. bm_get tables (rk_table rk) = Some t \<and> t_explicit_key t) \<and>
     \<not> contains_float (rk_old_key rk) \<and> \<not> contains_float (rk_new_key rk) \<and> rk_old_key rk \<noteq> rk_new_key rk"

definition rekeys_clear :: "tag_registry \<Rightarrow> (object_id \<times> string) set \<Rightarrow> rekey_intent list \<Rightarrow> bool" where
  "rekeys_clear vtag taken rks \<longleftrightarrow>
     distinct (map (rekey_source vtag) rks) \<and> distinct (map (rekey_target vtag) rks) \<and>
     rekey_source vtag ` set rks \<inter> taken = {} \<and> rekey_target vtag ` set rks \<inter> taken = {} \<and>
     (\<forall>a \<in> set rks. \<forall>b \<in> set rks. a \<noteq> b \<longrightarrow> rekey_source vtag a \<noteq> rekey_target vtag b)"

lemma validate_rekeys_Ok:
  "validate_rekeys vtag tables old_keys new_keys rks = Ok ops \<Longrightarrow>
    ops = map rekey_op rks \<and> (\<forall>rk \<in> set rks. rekey_admitted tables rk) \<and>
    rekeys_clear vtag (set old_keys \<union> set new_keys) rks"
proof (induction rks arbitrary: old_keys new_keys ops)
  case (Cons rk rks)
  let ?o = "rekey_source vtag rk" and ?n = "rekey_target vtag rk"
  from Cons.prems obtain ops' where step: "rekey_admitted tables rk" "?n \<notin> set old_keys" "?o \<notin> set new_keys"
      "?o \<notin> set old_keys" "?n \<notin> set new_keys"
    and rest: "validate_rekeys vtag tables (bs_insert ?o old_keys) (bs_insert ?n new_keys) rks = Ok ops'"
    and ops: "ops = rekey_op rk # ops'"
    by (auto simp: rekey_admitted_def rekey_source_def rekey_target_def rekey_op_def Let_def
        split: option.splits if_splits sum.splits)
  from Cons.IH [OF rest] have IH: "ops' = map rekey_op rks" "\<forall>rk \<in> set rks. rekey_admitted tables rk"
    and clear: "rekeys_clear vtag (insert ?o (insert ?n (set old_keys \<union> set new_keys))) rks"
    by (simp_all add: insert_commute)
  then have d: "distinct (map (rekey_source vtag) rks)" "distinct (map (rekey_target vtag) rks)"
    and disj: "\<forall>x \<in> set rks. rekey_source vtag x \<notin> insert ?o (insert ?n (set old_keys \<union> set new_keys))"
      "\<forall>x \<in> set rks. rekey_target vtag x \<notin> insert ?o (insert ?n (set old_keys \<union> set new_keys))"
    and cross: "\<forall>a \<in> set rks. \<forall>b \<in> set rks. a \<noteq> b \<longrightarrow> rekey_source vtag a \<noteq> rekey_target vtag b"
    unfolding rekeys_clear_def by blast+
  have "rekeys_clear vtag (set old_keys \<union> set new_keys) (rk # rks)"
    unfolding rekeys_clear_def
  proof (intro conjI)
    show "distinct (map (rekey_source vtag) (rk # rks))" using d(1) disj(1) by auto
    show "distinct (map (rekey_target vtag) (rk # rks))" using d(2) disj(2) by auto
    show "rekey_source vtag ` set (rk # rks) \<inter> (set old_keys \<union> set new_keys) = {}" using disj(1) step by auto
    show "rekey_target vtag ` set (rk # rks) \<inter> (set old_keys \<union> set new_keys) = {}" using disj(2) step by auto
    show "\<forall>a \<in> set (rk # rks). \<forall>b \<in> set (rk # rks). a \<noteq> b \<longrightarrow> rekey_source vtag a \<noteq> rekey_target vtag b"
      using cross disj by (metis insertCI set_ConsD)
  qed
  with IH step(1) ops show ?case by simp
qed (simp add: rekeys_clear_def)

section \<open>Plans\<close>

lemma plan_Ok:
  assumes "plan vtag from_s to_s request = Ok ops"
  defines "old_tables \<equiv> tables_by_id from_s" and "new_tables \<equiv> tables_by_id to_s"
  shows "ops = sort_key (sort_key_of vtag) (concat (map (\<lambda>x. pushes (plan_table new_tables x)) old_tables) @
      concat (map (create_table old_tables) new_tables) @ map rekey_op (rq_rekeys request))"
    and "\<And>t x. bm_get old_tables t = Some x \<Longrightarrow> plan_table new_tables (t, x) = Ok (pushes (plan_table new_tables (t, x)))"
    and "validate_rekeys vtag new_tables [] [] (rq_rekeys request) = Ok (map rekey_op (rq_rekeys request))"
    and "s_version from_s = V1_0" and "s_version to_s = V1_0"
proof -
  from assms obtain a b where ab: "try_concat (plan_table new_tables) old_tables = Ok a"
    and b: "validate_rekeys vtag new_tables [] [] (rq_rekeys request) = Ok b"
    and ops: "ops = sort_key (sort_key_of vtag) (a @ concat (map (create_table old_tables) new_tables) @ b)"
    and v: "s_version from_s = V1_0" "s_version to_s = V1_0"
    by (auto simp: plan_def Let_def split: sum.splits if_splits)
  note parts = try_concat_Ok [OF ab]
  show "ops = sort_key (sort_key_of vtag) (concat (map (\<lambda>x. pushes (plan_table new_tables x)) old_tables) @
      concat (map (create_table old_tables) new_tables) @ map rekey_op (rq_rekeys request))"
    using ops parts validate_rekeys_Ok [OF b] by simp
  show "bm_get old_tables t = Some x \<Longrightarrow> plan_table new_tables (t, x) = Ok (pushes (plan_table new_tables (t, x)))" for t x
    using parts bm_get_mem [of old_tables t x] by (auto simp: old_tables_def)
  show "validate_rekeys vtag new_tables [] [] (rq_rekeys request) = Ok (map rekey_op (rq_rekeys request))"
    using b validate_rekeys_Ok [OF b] by simp
  show "s_version from_s = V1_0" "s_version to_s = V1_0" by fact+
qed

lemma filter_conj_True: "\<forall>x \<in> set xs. Q x \<Longrightarrow> filter (\<lambda>x. P x \<and> Q x) xs = filter P xs"
  by (rule filter_cong) auto

lemma plan_parts:
  assumes "plan vtag from_s to_s request = Ok ops"
  defines "old_tables \<equiv> tables_by_id from_s" and "new_tables \<equiv> tables_by_id to_s"
  shows "bm_get old_tables k = Some x \<Longrightarrow> \<forall>y \<in> set (pushes (plan_table new_tables (k, x))). op_table y = k \<and> \<not> is_rekey y"
    and "t_id x = k \<Longrightarrow> \<forall>y \<in> set (create_table old_tables (k, x)). op_table y = k \<and> \<not> is_rekey y"
    and "\<forall>y \<in> set (concat (map (\<lambda>x. pushes (plan_table new_tables x)) old_tables)). \<not> is_rekey y"
    and "\<forall>y \<in> set (concat (map (create_table old_tables) new_tables)). \<not> is_rekey y"
proof -
  show 1: "bm_get old_tables k = Some x \<Longrightarrow> \<forall>y \<in> set (pushes (plan_table new_tables (k, x))). op_table y = k \<and> \<not> is_rekey y" for k x
    using plan_table_ops [OF plan_Ok(2) [OF assms(1)]] tables_by_id_key unfolding old_tables_def new_tables_def by blast
  show 2: "t_id x = k \<Longrightarrow> \<forall>y \<in> set (create_table old_tables (k, x)). op_table y = k \<and> \<not> is_rekey y" for k x
    by (auto simp: create_table_def is_rekey_def)
  have mem: "(k, x) \<in> set (tables_by_id s) \<Longrightarrow> bm_get (tables_by_id s) k = Some x \<and> t_id x = k" for k x s
    using bm_get_mem [of "tables_by_id s" k x] tables_by_id_key by auto
  show "\<forall>y \<in> set (concat (map (\<lambda>x. pushes (plan_table new_tables x)) old_tables)). \<not> is_rekey y"
    using 1 mem unfolding old_tables_def by fastforce
  show "\<forall>y \<in> set (concat (map (create_table old_tables) new_tables)). \<not> is_rekey y"
    using 2 mem unfolding new_tables_def by fastforce
qed

lemma plan_ops_of_table:
  assumes "plan vtag from_s to_s request = Ok ops"
  shows "filter (\<lambda>x. \<not> is_rekey x) (filter (\<lambda>x. op_table x = t) ops) = sort_key (sort_key_of vtag)
    (ops_at (tables_by_id from_s) (plan_table (tables_by_id to_s)) t @
     (case bm_get (tables_by_id to_s) t of None \<Rightarrow> [] | Some x \<Rightarrow> create_table (tables_by_id from_s) (t, x)))"
proof -
  let ?old = "tables_by_id from_s" and ?new = "tables_by_id to_s"
  have key: "(\<lambda>x. op_table x = t) = (\<lambda>x. Some (op_table x) = Some t)" by simp
  note planned = plan_parts(1) [OF assms] and created = plan_parts(2) [OF assms]
  let ?A = "concat (map (\<lambda>x. pushes (plan_table ?new x)) ?old)" and ?C = "concat (map (create_table ?old) ?new)"
  have norekey: "filter (\<lambda>x. \<not> is_rekey x) (filter P (?A @ ?C @ map rekey_op rks)) = filter P ?A @ filter P ?C" for P rks
  proof -
    have "filter (\<lambda>x. P x \<and> \<not> is_rekey x) ?A = filter P ?A" "filter (\<lambda>x. P x \<and> \<not> is_rekey x) ?C = filter P ?C"
      using plan_parts(3,4) [OF assms] by (simp_all only: filter_conj_True)
    moreover have "filter (\<lambda>x. P x \<and> \<not> is_rekey x) (map rekey_op rks) = []"
      by (simp add: filter_empty_conv rekey_op_def is_rekey_def)
    ultimately show ?thesis by simp
  qed
  have "filter (\<lambda>x. op_table x = t) ?A = ops_at ?old (plan_table ?new) t"
    unfolding key ops_at_def by (rule filter_concat_key) (use planned in auto)
  moreover have "filter (\<lambda>x. op_table x = t) ?C = (case bm_get ?new t of None \<Rightarrow> [] | Some x \<Rightarrow> create_table ?old (t, x))"
    unfolding key by (rule filter_concat_key) (use created in \<open>auto dest!: tables_by_id_key\<close>)
  ultimately show ?thesis
    by (simp add: plan_Ok(1) [OF assms] filter_sort norekey del: filter_append filter_filter)
qed

text \<open>
  C8. A plan does what it says. Applying the operations of a plan in their order to the source schema
  gives the target schema: every table and field, with its name, type, role and fallback. The one thing
  a plan does not carry is a relaxation: a field that was required and becomes optional stays required,
  since the planner emits no operation for it. Without such a relaxation the result is exactly the
  target.
\<close>

theorem plan_reaches_target:
  assumes "plan vtag from_s to_s request = Ok ops"
  shows "fold apply_op ops (content_of from_s) = planned_content from_s to_s \<and>
    ((\<forall>t x y f g h. bm_get (tables_by_id from_s) t = Some x \<and> bm_get (tables_by_id to_s) t = Some y \<and>
        bm_get (fields_by_id x) f = Some g \<and> bm_get (fields_by_id y) f = Some h \<longrightarrow> f_optional g = f_optional h) \<longrightarrow>
     fold apply_op ops (content_of from_s) = content_of to_s)"
proof -
  let ?old = "tables_by_id from_s" and ?new = "tables_by_id to_s"
  have result: "fold apply_op ops (content_of from_s) t = planned_content from_s to_s t" for t
  proof -
    have run: "fold apply_op ops (content_of from_s) t = fold apply_table (sort_key (sort_key_of vtag)
        (ops_at ?old (plan_table ?new) t @ (case bm_get ?new t of None \<Rightarrow> [] | Some x \<Rightarrow> create_table ?old (t, x)))) (content_of from_s t)"
      unfolding fold_apply_op by (subst fold_apply_no_rekey) (simp only: plan_ops_of_table [OF assms])
    show ?thesis
    proof (cases "bm_get ?old t")
      case None
      then show ?thesis
        unfolding run by (cases "bm_get ?new t")
          (auto simp: ops_at_def planned_content_def planned_table_def content_of_def create_table_def bm_contains_get)
    next
      case (Some x)
      note planned = plan_Ok(2) [OF assms Some]
      show ?thesis
      proof (cases "bm_get ?new t")
        case None
        with Some planned show ?thesis
          unfolding run by (auto simp: ops_at_def planned_content_def planned_table_def content_of_def plan_table_def)
      next
        case (Some y)
        from table_result [OF planned Some] \<open>bm_get ?old t = Some x\<close> Some show ?thesis
          unfolding run by (simp add: ops_at_def create_table_def bm_contains_get planned_content_def content_of_def)
      qed
    qed
  qed
  have "planned_content from_s to_s t = content_of to_s t"
    if same: "\<forall>t x y f g h. bm_get ?old t = Some x \<and> bm_get ?new t = Some y \<and>
        bm_get (fields_by_id x) f = Some g \<and> bm_get (fields_by_id y) f = Some h \<longrightarrow> f_optional g = f_optional h" for t
  proof (cases "bm_get ?old t")
    case (Some x)
    then show ?thesis
    proof (cases "bm_get ?new t")
      case (Some y)
      have "planned_field (bm_get (fields_by_id x) f) (bm_get (fields_by_id y) f) = bm_get (fields_by_id y) f" for f
        using same \<open>bm_get ?old t = Some x\<close> Some by (auto simp: planned_field_def split: option.splits)
      with Some \<open>bm_get ?old t = Some x\<close> show ?thesis
        by (simp add: planned_content_def content_of_def planned_table_def content_of_table_def)
    qed (simp add: planned_content_def content_of_def planned_table_def)
  qed (simp add: planned_content_def content_of_def planned_table_def)
  with result show ?thesis by (simp add: fun_eq_iff)
qed

lemma validate_fields_no_float_key:
  "validate_fields vtag side table seen fs = Ok u \<Longrightarrow> f \<in> set fs \<Longrightarrow> f_role f = Key \<Longrightarrow> f_ty f \<noteq> TyFloat"
  by (induction fs arbitrary: seen) (auto split: if_splits sum.splits)

lemma validate_tables_no_float_key:
  "validate_tables vtag side seen ts = Ok u \<Longrightarrow> t \<in> set ts \<Longrightarrow> f \<in> set (t_fields t) \<Longrightarrow> f_role f = Key \<Longrightarrow> f_ty f \<noteq> TyFloat"
  by (induction ts arbitrary: seen) (auto split: if_splits sum.splits dest: validate_fields_no_float_key)

lemma plan_validated: "plan vtag from_s to_s request = Ok ops \<Longrightarrow> \<exists>u. validate_tables vtag To [] (s_tables to_s) = Ok u"
  by (auto simp: plan_def validate_schema_def split: sum.splits if_splits)

definition key_type :: "field option \<Rightarrow> field_type option" where
  "key_type x = (case x of Some f \<Rightarrow> if f_role f = Key then Some (f_ty f) else None | None \<Rightarrow> None)"

text \<open>
  A plan never touches a primary key. A table that exists on both sides of an accepted plan has the
  same key mode, and exactly the same key fields with the same types. Key fields are never of type
  \<open>Float\<close>. The only way a row's key changes is an explicit re-key: those of an accepted plan name
  tables of the target that have explicit keys, and cannot collide: no two of them share a source or
  a target, and no target is the source of another.
\<close>

theorem plan_keeps_primary_keys:
  assumes "plan vtag from_s to_s request = Ok ops"
  shows "(\<forall>t x y. bm_get (tables_by_id from_s) t = Some x \<and> bm_get (tables_by_id to_s) t = Some y \<longrightarrow>
      t_explicit_key x = t_explicit_key y \<and>
      (\<forall>f. key_type (bm_get (fields_by_id x) f) = key_type (bm_get (fields_by_id y) f))) \<and>
    (\<forall>t y f. bm_get (tables_by_id to_s) t = Some y \<longrightarrow> key_type (bm_get (fields_by_id y) f) \<noteq> Some TyFloat) \<and>
    (\<forall>x \<in> set (filter is_rekey ops). \<exists>rk \<in> set (rq_rekeys request). x = rekey_op rk \<and> rekey_admitted (tables_by_id to_s) rk) \<and>
    rekeys_clear vtag {} (rq_rekeys request)"
proof -
  have keys: "t_explicit_key x = t_explicit_key y \<and> key_type (bm_get (fields_by_id x) f) = key_type (bm_get (fields_by_id y) f)"
    if x: "bm_get (tables_by_id from_s) t = Some x" and y: "bm_get (tables_by_id to_s) t = Some y" for t x y f
  proof -
    from plan_Ok(2) [OF assms x] y obtain fops where e: "t_explicit_key x = t_explicit_key y"
      and c: "compare_fields t x y = Ok fops"
      by (auto simp: plan_table_def split: if_splits sum.splits)
    show ?thesis
      using e compare_fields_Ok(2) [OF c, of f] compare_fields_Ok(3) [OF c, of f] compare_fields_Ok(4) [OF c, of f]
      by (cases "bm_get (fields_by_id x) f"; cases "bm_get (fields_by_id y) f")
        (auto simp: key_type_def removed_field_def kept_field_def added_field_def bm_contains_get split: if_splits)
  qed
  note rekeys = validate_rekeys_Ok [OF plan_Ok(3) [OF assms]]
  have "\<forall>x \<in> set (filter is_rekey ops). x \<in> rekey_op ` set (rq_rekeys request)"
    unfolding plan_Ok(1) [OF assms] using plan_parts(3,4) [OF assms] by auto
  moreover have "key_type (bm_get (fields_by_id y) f) \<noteq> Some TyFloat" if "bm_get (tables_by_id to_s) t = Some y" for t y f
    using plan_validated [OF assms] that
    by (auto simp: key_type_def tables_by_id_def fields_by_id_def validate_tables_no_float_key dest!: by_id_key
        split: option.splits if_splits)
  ultimately show ?thesis using keys rekeys by (auto simp: image_iff)
qed

section \<open>Execution\<close>

fun applied :: "(migration_operation \<Rightarrow> 's \<Rightarrow> ('e, unit) result \<times> 's) \<Rightarrow> migration_operation list \<Rightarrow> 's \<Rightarrow> 's \<Rightarrow> bool" where
  "applied app [] s s' \<longleftrightarrow> s' = s"
| "applied app (x # xs) s s' \<longleftrightarrow> (case app x s of (Inr _, t) \<Rightarrow> applied app xs t s' | (Inl _, _) \<Rightarrow> False)"

lemma apply_operations_prefix:
  "apply_operations app ops s = (res, s') \<Longrightarrow>
    \<exists>front rest u. ops = front @ rest \<and> applied app front s u \<and>
      (rest = [] \<and> res = Ok () \<and> s' = u \<or>
       (\<exists>x r e. rest = x # r \<and> app x u = (Err e, s') \<and> res = Err (Mutation e)))"
proof (induction ops arbitrary: s)
  case (Cons x ops)
  show ?case
  proof (cases "app x s")
    case (Pair a t)
    show ?thesis
    proof (cases a)
      case (Inl e)
      with Pair Cons.prems show ?thesis
        by (intro exI [of _ "[]"] exI [of _ "x # ops"] exI [of _ s]) simp
    next
      case (Inr u)
      with Pair Cons.prems have "apply_operations app ops t = (res, s')" by simp
      from Cons.IH [OF this] obtain front rest v where "ops = front @ rest \<and> applied app front t v \<and>
          (rest = [] \<and> res = Ok () \<and> s' = v \<or> (\<exists>x r e. rest = x # r \<and> app x v = (Err e, s') \<and> res = Err (Mutation e)))"
        by blast
      with Pair Inr show ?thesis
        by (intro exI [of _ "x # front"] exI [of _ rest] exI [of _ v]) simp
    qed
  qed
qed simp

text \<open>
  Nothing is applied without approval, and a failure stops at once. The target is asked exactly once,
  with the whole plan. If asking fails or approval is denied, the result says so and no operation has
  been applied: the target is as the approval call left it. Otherwise the operations are applied in the
  order of the plan: either all of them, or a prefix of them followed by the one whose failure is
  reported.
\<close>

theorem execute_needs_approval:
  "case execute approve app ops s of (res, s') \<Rightarrow>
     case approve ops s of
       (Inl e, t) \<Rightarrow> res = Err (Approval e) \<and> s' = t
     | (Inr approved, t) \<Rightarrow>
         if \<not> approved then res = Err Denied \<and> s' = t
         else \<exists>front rest u. ops = front @ rest \<and> applied app front t u \<and>
           (rest = [] \<and> res = Ok () \<and> s' = u \<or>
            (\<exists>x r e. rest = x # r \<and> app x u = (Err e, s') \<and> res = Err (Mutation e)))"
  using apply_operations_prefix [of app ops "snd (approve ops s)"]
  by (auto simp: execute_def split: prod.splits sum.splits)

section \<open>Witnesses\<close>

definition sample_id :: "u8 \<Rightarrow> object_id" where
  "sample_id n = replicate 16 n"

definition sample_field :: "u8 \<Rightarrow> string \<Rightarrow> field_role \<Rightarrow> bool \<Rightarrow> raw option \<Rightarrow> field" where
  "sample_field n nm role opt fb = \<lparr>f_id = sample_id n, f_name = nm, f_ty = TyInt, f_role = role, f_optional = opt, f_fallback = fb\<rparr>"

definition sample_from :: schema where
  "sample_from = \<lparr>s_version = V1_0, s_tables =
     [\<lparr>t_id = sample_id 1, t_name = ''Contact'', t_explicit_key = True, t_fields =
        [sample_field 1 ''number'' Key False None, sample_field 2 ''age'' Stored False None, sample_field 3 ''old'' Stored True None]\<rparr>,
      \<lparr>t_id = sample_id 2, t_name = ''Gone'', t_explicit_key = False, t_fields = []\<rparr>]\<rparr>"

definition sample_to :: schema where
  "sample_to = \<lparr>s_version = V1_0, s_tables =
     [\<lparr>t_id = sample_id 3, t_name = ''Fresh'', t_explicit_key = False, t_fields = [sample_field 1 ''n'' Stored True None]\<rparr>,
      \<lparr>t_id = sample_id 1, t_name = ''Person'', t_explicit_key = True, t_fields =
        [sample_field 1 ''number'' Key False None, sample_field 2 ''years'' Stored True None,
         sample_field 4 ''score'' Stored False (Some (RInt 0))]\<rparr>]\<rparr>"

definition sample_request :: planning_request where
  "sample_request = \<lparr>rq_fence = fence_V1, rq_rekeys =
     [\<lparr>rk_table = sample_id 1, rk_old_key = RInt 1, rk_new_key = RInt 7\<rparr>]\<rparr>"

definition closed_registry :: tag_registry where
  "closed_registry n v = Err InvalidTag"

definition sample_plan :: "migration_operation list" where
  "sample_plan = (case plan closed_registry sample_from sample_to sample_request of Inr ops \<Rightarrow> ops | Inl _ \<Rightarrow> [])"

lemma sample_plan_Ok: "plan closed_registry sample_from sample_to sample_request = Ok sample_plan"
  by code_simp

theorem plan_reaches_target_witness:
  "length sample_plan = 7 \<and> fold apply_op sample_plan (content_of sample_from) = planned_content sample_from sample_to"
proof -
  have "length sample_plan = 7" by code_simp
  with plan_reaches_target [OF sample_plan_Ok] show ?thesis by blast
qed

theorem plan_keeps_primary_keys_witness:
  "rekeys_clear closed_registry {} (rq_rekeys sample_request) \<and> length (filter is_rekey sample_plan) = 1"
proof -
  have "length (filter is_rekey sample_plan) = 1" by code_simp
  with plan_keeps_primary_keys [OF sample_plan_Ok] show ?thesis by blast
qed

end
