(* ===== verification/Orna_Merge.thy ===== *)
theory Orna_Merge
  imports Orna_Evolution
begin

text \<open>
  Three-way merge: \<open>crates/orna-evolution/src/merge.rs\<close>.

  Schemas, keyed rows, checkpoint generations and checkpoint snapshots are merged against a common
  base. A \<open>usize\<close> counter is an integer whose saturating increment is written out. The rendering
  \<open>dbg\<close> stands for the derived \<open>Debug\<close> text of a conflict, which the code uses only to order
  conflicts. Comparing row identities encodes their keys and panics when that fails: the row merges
  return \<open>None\<close> on that path.
\<close>

section \<open>Schema conflicts\<close>

datatype schema_merge_conflict =
    Version
  | InvalidInput
  | DuplicateTableName string "object_id list"
  | DuplicateFieldName object_id object_id string
  | TableAddition object_id
  | TableDeletionAndEdit object_id
  | TableProperty object_id string
  | FieldAddition object_id object_id
  | FieldDeletionAndEdit object_id object_id
  | FieldProperty object_id object_id string
  | InvalidMergedSchema

record schema_merge_failure =
  smf_conflicts :: "schema_merge_conflict list"
  smf_conflicts_lower_bound :: int

record schema_conflict_collector =
  cc_conflicts :: "schema_merge_conflict list"
  cc_count :: int
  cc_limit :: int

definition USIZE_MAX :: int where
  "USIZE_MAX = 2 ^ 64 - 1"

definition usize_succ :: "int \<Rightarrow> int" where
  "usize_succ n = min (n + 1) USIZE_MAX"

definition cc_new :: "int \<Rightarrow> schema_conflict_collector" where
  "cc_new limit = \<lparr>cc_conflicts = [], cc_count = 0, cc_limit = limit\<rparr>"

definition cc_exceeded :: "schema_conflict_collector \<Rightarrow> bool" where
  "cc_exceeded c \<longleftrightarrow> cc_count c > cc_limit c"

definition cc_has_conflicts :: "schema_conflict_collector \<Rightarrow> bool" where
  "cc_has_conflicts c \<longleftrightarrow> cc_count c \<noteq> 0"

definition cc_push :: "schema_merge_conflict \<Rightarrow> schema_conflict_collector \<Rightarrow> schema_conflict_collector" where
  "cc_push conflict c =
     (if cc_exceeded c then c
      else c\<lparr>cc_count := usize_succ (cc_count c),
             cc_conflicts := (if int (length (cc_conflicts c)) < cc_limit c
                              then cc_conflicts c @ [conflict] else cc_conflicts c)\<rparr>)"

definition cc_failure :: "(schema_merge_conflict \<Rightarrow> string) \<Rightarrow> schema_conflict_collector \<Rightarrow> schema_merge_failure" where
  "cc_failure dbg c =
     \<lparr>smf_conflicts = remdups_adj (sort_key dbg (cc_conflicts c)), smf_conflicts_lower_bound = cc_count c\<rparr>"

fun affected_tables :: "schema_merge_conflict \<Rightarrow> object_id list" where
  "affected_tables (DuplicateTableName _ tables) = tables"
| "affected_tables (DuplicateFieldName t _ _) = [t]"
| "affected_tables (TableAddition t) = [t]"
| "affected_tables (TableDeletionAndEdit t) = [t]"
| "affected_tables (TableProperty t _) = [t]"
| "affected_tables (FieldAddition t _) = [t]"
| "affected_tables (FieldDeletionAndEdit t _) = [t]"
| "affected_tables (FieldProperty t _ _) = [t]"
| "affected_tables Version = []"
| "affected_tables InvalidInput = []"
| "affected_tables InvalidMergedSchema = []"

section \<open>Choosing a side\<close>

definition choose_side :: "'a \<Rightarrow> 'a \<Rightarrow> 'a \<Rightarrow> (unit, 'a) result" where
  "choose_side base left right =
     (if left = right then Ok left else if left = base then Ok right
      else if right = base then Ok left else Err ())"

definition merge_optional :: "'a option \<Rightarrow> 'a option \<Rightarrow> 'a option \<Rightarrow> 'a option" where
  "merge_optional base left right =
     (if left = right then left else if left = base then right
      else if right = base then left else base)"

section \<open>Schemas\<close>

fun unique_ids :: "('a \<Rightarrow> object_id) \<Rightarrow> object_id btree_set \<Rightarrow> 'a list \<Rightarrow> bool" where
  "unique_ids ident seen [] = True"
| "unique_ids ident seen (x # xs) \<longleftrightarrow> \<not> bs_contains seen (ident x) \<and> unique_ids ident (bs_insert (ident x) seen) xs"

text \<open>\<open>all\<close> stops at the first table whose identity repeats or whose fields repeat one.\<close>

definition unique_schema :: "schema \<Rightarrow> bool" where
  "unique_schema s \<longleftrightarrow> unique_ids t_id [] (s_tables s) \<and> list_all (\<lambda>t. unique_ids f_id [] (t_fields t)) (s_tables s)"

definition merge_property :: "object_id \<Rightarrow> object_id \<Rightarrow> string \<Rightarrow> 'a \<Rightarrow> 'a \<Rightarrow> 'a \<Rightarrow>
    schema_conflict_collector \<Rightarrow> 'a \<times> schema_conflict_collector" where
  "merge_property table f name base left right c =
     (case choose_side base left right of
        Inr v \<Rightarrow> (v, c)
      | Inl _ \<Rightarrow> (base, cc_push (FieldProperty table f name) c))"

definition merge_field :: "object_id \<Rightarrow> field \<Rightarrow> field \<Rightarrow> field \<Rightarrow> schema_conflict_collector \<Rightarrow>
    field option \<times> schema_conflict_collector" where
  "merge_field table base left right c =
     (let (name, c) = merge_property table (f_id base) ''name'' (f_name base) (f_name left) (f_name right) c;
          (ty, c) = merge_property table (f_id base) ''type'' (f_ty base) (f_ty left) (f_ty right) c;
          (role, c) = merge_property table (f_id base) ''role'' (f_role base) (f_role left) (f_role right) c;
          (opt, c) = merge_property table (f_id base) ''optional'' (f_optional base) (f_optional left) (f_optional right) c;
          (fb, c) = merge_property table (f_id base) ''introduction_fallback''
            (f_fallback base) (f_fallback left) (f_fallback right) c
      in (Some \<lparr>f_id = f_id base, f_name = name, f_ty = ty, f_role = role, f_optional = opt, f_fallback = fb\<rparr>, c))"

definition union_ids :: "('k::linorder, 'v) btree_map \<Rightarrow> ('k, 'v) btree_map \<Rightarrow> ('k, 'v) btree_map \<Rightarrow> 'k btree_set" where
  "union_ids base left right = bs_collect (map fst base @ map fst left @ map fst right)"

definition merge_field_entry :: "object_id \<Rightarrow> object_id \<Rightarrow> field option \<Rightarrow> field option \<Rightarrow> field option \<Rightarrow>
    schema_conflict_collector \<Rightarrow> field option \<times> schema_conflict_collector" where
  "merge_field_entry table f b l r c =
     (case (b, l, r) of
        (None, None, None) \<Rightarrow> (None, c)
      | (None, Some x, None) \<Rightarrow> (Some x, c)
      | (None, None, Some x) \<Rightarrow> (Some x, c)
      | (None, Some x, Some y) \<Rightarrow> if x = y then (Some x, c) else (None, cc_push (FieldAddition table f) c)
      | (Some _, None, None) \<Rightarrow> (None, c)
      | (Some z, Some x, Some y) \<Rightarrow> merge_field table z x y c
      | (Some z, Some x, None) \<Rightarrow> if x = z then (None, c) else (None, cc_push (FieldDeletionAndEdit table f) c)
      | (Some z, None, Some y) \<Rightarrow> if y = z then (None, c) else (None, cc_push (FieldDeletionAndEdit table f) c))"

fun merge_field_loop :: "object_id \<Rightarrow> (object_id, field) btree_map \<Rightarrow> (object_id, field) btree_map \<Rightarrow>
    (object_id, field) btree_map \<Rightarrow> object_id list \<Rightarrow> schema_conflict_collector \<Rightarrow> field list \<times> schema_conflict_collector" where
  "merge_field_loop table base left right [] c = ([], c)"
| "merge_field_loop table base left right (f # fs) c =
     (let (x, c) = merge_field_entry table f (bm_get base f) (bm_get left f) (bm_get right f) c;
          pushed = (case x of None \<Rightarrow> [] | Some y \<Rightarrow> [y]) in
      if cc_exceeded c then (pushed, c)
      else let (rest, c) = merge_field_loop table base left right fs c in (pushed @ rest, c))"

definition merge_table :: "table \<Rightarrow> table \<Rightarrow> table \<Rightarrow> schema_conflict_collector \<Rightarrow> table option \<times> schema_conflict_collector" where
  "merge_table base left right c =
     (let (name, c) = (case choose_side (t_name base) (t_name left) (t_name right) of
              Inr v \<Rightarrow> (v, c) | Inl _ \<Rightarrow> (t_name base, cc_push (TableProperty (t_id base) ''name'') c));
          (explicit_key, c) = (case choose_side (t_explicit_key base) (t_explicit_key left) (t_explicit_key right) of
              Inr v \<Rightarrow> (v, c) | Inl _ \<Rightarrow> (t_explicit_key base, cc_push (TableProperty (t_id base) ''explicit_key'') c)) in
      if cc_exceeded c then (Some \<lparr>t_id = t_id base, t_name = name, t_explicit_key = explicit_key, t_fields = []\<rparr>, c)
      else
        let bf = fields_by_id base; lf = fields_by_id left; rf = fields_by_id right;
            (fs, c) = merge_field_loop (t_id base) bf lf rf (union_ids bf lf rf) c in
        (Some \<lparr>t_id = t_id base, t_name = name, t_explicit_key = explicit_key, t_fields = fs\<rparr>, c))"

definition merge_table_entry :: "object_id \<Rightarrow> table option \<Rightarrow> table option \<Rightarrow> table option \<Rightarrow>
    schema_conflict_collector \<Rightarrow> table option \<times> schema_conflict_collector" where
  "merge_table_entry t b l r c =
     (case (b, l, r) of
        (None, None, None) \<Rightarrow> (None, c)
      | (None, Some x, None) \<Rightarrow> (Some x, c)
      | (None, None, Some x) \<Rightarrow> (Some x, c)
      | (None, Some x, Some y) \<Rightarrow> if x = y then (Some x, c) else (None, cc_push (TableAddition t) c)
      | (Some _, None, None) \<Rightarrow> (None, c)
      | (Some z, Some x, Some y) \<Rightarrow> merge_table z x y c
      | (Some z, Some x, None) \<Rightarrow> if x = z then (None, c) else (None, cc_push (TableDeletionAndEdit t) c)
      | (Some z, None, Some y) \<Rightarrow> if y = z then (None, c) else (None, cc_push (TableDeletionAndEdit t) c))"

text \<open>The loop over the tables; \<open>Inl\<close> carries the collector of an early return.\<close>

fun merge_table_loop :: "(object_id, table) btree_map \<Rightarrow> (object_id, table) btree_map \<Rightarrow> (object_id, table) btree_map \<Rightarrow>
    object_id list \<Rightarrow> schema_conflict_collector \<Rightarrow>
    (schema_conflict_collector, table list \<times> schema_conflict_collector) result" where
  "merge_table_loop base left right [] c = Ok ([], c)"
| "merge_table_loop base left right (t # ts) c =
     (let (x, c) = merge_table_entry t (bm_get base t) (bm_get left t) (bm_get right t) c;
          pushed = (case x of None \<Rightarrow> [] | Some y \<Rightarrow> [y]) in
      if cc_exceeded c then Err c
      else (case merge_table_loop base left right ts c of
              Inl c \<Rightarrow> Err c
            | Inr (rest, c) \<Rightarrow> Ok (pushed @ rest, c)))"

fun field_name_loop :: "object_id \<Rightarrow> string btree_set \<Rightarrow> field list \<Rightarrow> schema_conflict_collector \<Rightarrow> schema_conflict_collector" where
  "field_name_loop table names [] c = c"
| "field_name_loop table names (f # fs) c =
     (if bs_contains names (f_name f)
      then field_name_loop table names fs (cc_push (DuplicateFieldName table (f_id f) (f_name f)) c)
      else field_name_loop table (bs_insert (f_name f) names) fs c)"

fun table_name_loop :: "(string, object_id) btree_map \<Rightarrow> table list \<Rightarrow> schema_conflict_collector \<Rightarrow>
    (schema_conflict_collector, schema_conflict_collector) result" where
  "table_name_loop names [] c = Ok c"
| "table_name_loop names (t # ts) c =
     (let c = (case bm_get names (t_name t) of
                 None \<Rightarrow> c
               | Some previous \<Rightarrow> cc_push (DuplicateTableName (t_name t) [previous, t_id t]) c);
          c = field_name_loop (t_id t) [] (t_fields t) c in
      if cc_exceeded c then Err c
      else table_name_loop (bm_insert (t_name t) (t_id t) names) ts c)"

definition merge_input_ok :: "tag_registry \<Rightarrow> schema \<Rightarrow> bool" where
  "merge_input_ok vtag s \<longleftrightarrow> unique_schema s \<and> is_ok (validate_schema vtag s From fence_V1)"

definition merge_schema_bounded :: "(schema_merge_conflict \<Rightarrow> string) \<Rightarrow> tag_registry \<Rightarrow> schema \<Rightarrow> schema \<Rightarrow> schema \<Rightarrow>
    int \<Rightarrow> (schema_merge_failure, schema) result" where
  "merge_schema_bounded dbg vtag base left right max_conflicts =
     (let c = cc_new max_conflicts in
      if list_ex (\<lambda>s. \<not> merge_input_ok vtag s) [base, left, right] then Err (cc_failure dbg (cc_push InvalidInput c))
      else case choose_side (s_version base) (s_version left) (s_version right) of
        Inl _ \<Rightarrow> Err (cc_failure dbg (cc_push Version c))
      | Inr version \<Rightarrow>
          let bt = tables_by_id base; lt = tables_by_id left; rt = tables_by_id right in
          (case merge_table_loop bt lt rt (union_ids bt lt rt) c of
             Inl c \<Rightarrow> Err (cc_failure dbg c)
           | Inr (tables, c) \<Rightarrow>
               (case table_name_loop [] tables c of
                  Inl c \<Rightarrow> Err (cc_failure dbg c)
                | Inr c \<Rightarrow>
                    let merged = \<lparr>s_version = version, s_tables = tables\<rparr>;
                        c = (if is_ok (validate_schema vtag merged To fence_V1) then c
                             else cc_push InvalidMergedSchema c) in
                    if cc_has_conflicts c then Err (cc_failure dbg c) else Ok merged)))"

definition merge_schema :: "(schema_merge_conflict \<Rightarrow> string) \<Rightarrow> tag_registry \<Rightarrow> schema \<Rightarrow> schema \<Rightarrow> schema \<Rightarrow>
    (schema_merge_conflict list, schema) result" where
  "merge_schema dbg vtag base left right =
     (case merge_schema_bounded dbg vtag base left right USIZE_MAX of
        Inl failure \<Rightarrow> Err (smf_conflicts failure)
      | Inr s \<Rightarrow> Ok s)"

section \<open>Keyed rows\<close>

datatype row_key_kind = Explicit | Automatic

record keyed_row =
  kr_table :: object_id
  kr_key :: raw
  kr_key_kind :: row_key_kind
  kr_fields :: "(object_id, raw) btree_map"

datatype row_merge_conflict =
    Identity object_id raw
  | DeleteAndEdit object_id raw
  | KeyCollision object_id raw
  | Fields object_id raw "object_id list"
  | AutomaticKeyCollision object_id raw

datatype row_snapshot_state =
    Present keyed_row
  | Absent
  | Tombstone object_id raw
  | Pruned

datatype row_snapshot_side = Base | Left | Right

datatype row_merge_operation =
    Upsert keyed_row
  | OpTombstone object_id raw
  | OpAbsent

datatype row_snapshot_merge_error =
    PrunedInput "row_snapshot_side list"
  | Conflict row_merge_conflict

type_synonym row_identity = "object_id \<times> raw"

text \<open>
  \<open>min_by\<close> over row identities: by table, then by the encoded key; of equal elements the first wins.
  \<open>None\<close> is the panic of a key that does not encode.
\<close>

definition identity_less :: "tag_registry \<Rightarrow> row_identity \<Rightarrow> row_identity \<Rightarrow> bool option" where
  "identity_less vtag a b =
     (if fst a \<noteq> fst b then Some (fst a < fst b)
      else case (encode_raw vtag (snd a), encode_raw vtag (snd b)) of
        (Inr x, Inr y) \<Rightarrow> Some (x < y)
      | _ \<Rightarrow> None)"

fun min_identity_from :: "tag_registry \<Rightarrow> row_identity \<Rightarrow> row_identity list \<Rightarrow> row_identity option" where
  "min_identity_from vtag best [] = Some best"
| "min_identity_from vtag best (x # xs) =
     (case identity_less vtag x best of
        None \<Rightarrow> None
      | Some lt \<Rightarrow> min_identity_from vtag (if lt then x else best) xs)"

definition min_identity :: "tag_registry \<Rightarrow> row_identity list \<Rightarrow> row_identity option option" where
  "min_identity vtag xs = (case xs of [] \<Rightarrow> Some None | x # xs \<Rightarrow> map_option Some (min_identity_from vtag x xs))"

definition row_identity_of :: "keyed_row \<Rightarrow> row_identity" where
  "row_identity_of r = (kr_table r, kr_key r)"

definition flatten :: "'a option list \<Rightarrow> 'a list" where
  "flatten xs = concat (map (\<lambda>x. case x of None \<Rightarrow> [] | Some y \<Rightarrow> [y]) xs)"

fun merge_row_fields :: "(object_id, raw) btree_map \<Rightarrow> (object_id, raw) btree_map \<Rightarrow> (object_id, raw) btree_map \<Rightarrow>
    object_id list \<Rightarrow> (object_id, raw) btree_map \<times> object_id list \<Rightarrow> (object_id, raw) btree_map \<times> object_id list" where
  "merge_row_fields base left right [] (merged, conflicts) = (merged, conflicts)"
| "merge_row_fields base left right (f # fs) (merged, conflicts) =
     (let v = merge_optional (bm_get base f) (bm_get left f) (bm_get right f) in
      merge_row_fields base left right fs
        (if bm_get left f \<noteq> bm_get right f \<and> bm_get left f \<noteq> bm_get base f \<and> bm_get right f \<noteq> bm_get base f
         then (merged, conflicts @ [f])
         else (case v of Some x \<Rightarrow> (bm_insert f x merged, conflicts) | None \<Rightarrow> (merged, conflicts))))"

definition merge_present_rows :: "keyed_row \<Rightarrow> keyed_row \<Rightarrow> keyed_row \<Rightarrow> (row_merge_conflict, keyed_row option) result" where
  "merge_present_rows base left right =
     (if kr_key_kind left \<noteq> kr_key_kind base \<or> kr_key_kind right \<noteq> kr_key_kind base
      then Err (Identity (kr_table base) (kr_key base))
      else
        let (merged, conflicts) = merge_row_fields (kr_fields base) (kr_fields left) (kr_fields right)
              (union_ids (kr_fields base) (kr_fields left) (kr_fields right)) ([], []) in
        if conflicts = [] then
          Ok (Some \<lparr>kr_table = kr_table base, kr_key = kr_key base, kr_key_kind = kr_key_kind base, kr_fields = merged\<rparr>)
        else Err (Fields (kr_table base) (kr_key base) conflicts))"

definition merge_row_cases :: "keyed_row option \<Rightarrow> keyed_row option \<Rightarrow> keyed_row option \<Rightarrow>
    (row_merge_conflict, keyed_row option) result" where
  "merge_row_cases base left right =
     (case (base, left, right) of
        (None, None, r) \<Rightarrow> Ok r
      | (None, Some l, None) \<Rightarrow> Ok (Some l)
      | (None, Some l, Some r) \<Rightarrow>
          if kr_key_kind l = Automatic \<or> kr_key_kind r = Automatic
          then Err (AutomaticKeyCollision (kr_table l) (kr_key l))
          else if l = r then Ok (Some l)
          else Err (KeyCollision (kr_table l) (kr_key l))
      | (Some b, None, None) \<Rightarrow> Ok None
      | (Some b, Some l, None) \<Rightarrow> if l = b then Ok None else Err (DeleteAndEdit (kr_table b) (kr_key b))
      | (Some b, None, Some r) \<Rightarrow> if r = b then Ok None else Err (DeleteAndEdit (kr_table b) (kr_key b))
      | (Some b, Some l, Some r) \<Rightarrow> merge_present_rows b l r)"

definition merge_keyed_row :: "tag_registry \<Rightarrow> keyed_row option \<Rightarrow> keyed_row option \<Rightarrow> keyed_row option \<Rightarrow>
    (row_merge_conflict, keyed_row option) result option" where
  "merge_keyed_row vtag base left right =
     (case min_identity vtag (map row_identity_of (flatten [left, right])) of
        None \<Rightarrow> None
      | Some least \<Rightarrow>
          (case (case base of Some b \<Rightarrow> Some (row_identity_of b) | None \<Rightarrow> least) of
             None \<Rightarrow> Some (Ok None)
           | Some (table, key) \<Rightarrow>
               if list_ex (\<lambda>r. row_identity_of r \<noteq> (table, key)) (flatten [base, left, right])
               then Some (Err (Identity table key))
               else if (case (base, left, right) of
                          (Some b, Some l, Some r) \<Rightarrow> kr_key_kind b \<noteq> kr_key_kind l \<or> kr_key_kind b \<noteq> kr_key_kind r
                        | _ \<Rightarrow> False)
               then Some (Err (Identity table key))
               else Some (merge_row_cases base left right)))"

definition state_identity :: "row_snapshot_state \<Rightarrow> row_identity option" where
  "state_identity st = (case st of
     Present row \<Rightarrow> Some (row_identity_of row)
   | Tombstone table key \<Rightarrow> Some (table, key)
   | Absent \<Rightarrow> None
   | Pruned \<Rightarrow> None)"

definition state_row :: "row_snapshot_state \<Rightarrow> keyed_row option" where
  "state_row st = (case st of Present row \<Rightarrow> Some row | _ \<Rightarrow> None)"

definition pruned_sides :: "row_snapshot_state \<Rightarrow> row_snapshot_state \<Rightarrow> row_snapshot_state \<Rightarrow> row_snapshot_side list" where
  "pruned_sides base left right = map fst (filter (\<lambda>(_, st). st = Pruned) [(Base, base), (Left, left), (Right, right)])"

definition merge_keyed_row_states :: "tag_registry \<Rightarrow> row_snapshot_state \<Rightarrow> row_snapshot_state \<Rightarrow> row_snapshot_state \<Rightarrow>
    (row_snapshot_merge_error, row_merge_operation) result option" where
  "merge_keyed_row_states vtag base left right =
     (if pruned_sides base left right \<noteq> [] then Some (Err (PrunedInput (pruned_sides base left right)))
      else
        let identities = flatten [state_identity base, state_identity left, state_identity right] in
        case min_identity vtag identities of
          None \<Rightarrow> None
        | Some least \<Rightarrow>
            let anchor = (case state_identity base of Some i \<Rightarrow> Some i | None \<Rightarrow> least) in
            if (case anchor of Some a \<Rightarrow> list_ex (\<lambda>x. x \<noteq> a) identities | None \<Rightarrow> False)
            then Some (Err (Conflict (Identity (fst (the anchor)) (snd (the anchor)))))
            else
              (case merge_keyed_row vtag (state_row base) (state_row left) (state_row right) of
                 None \<Rightarrow> None
               | Some (Inl conflict) \<Rightarrow> Some (Err (Conflict conflict))
               | Some (Inr (Some row)) \<Rightarrow> Some (Ok (Upsert row))
               | Some (Inr None) \<Rightarrow>
                   (case state_row base of
                      Some row \<Rightarrow> Some (Ok (OpTombstone (kr_table row) (kr_key row)))
                    | None \<Rightarrow> Some (Ok OpAbsent))))"

section \<open>Checkpoints\<close>

record checkpoint_generation =
  cg_generation :: u64
  cg_position :: "u8 list option"

record checkpoint_merge_conflict =
  cm_base :: "checkpoint_generation option"
  cm_left :: "checkpoint_generation option"
  cm_right :: "checkpoint_generation option"

definition merge_checkpoint_generation :: "checkpoint_generation option \<Rightarrow> checkpoint_generation option \<Rightarrow>
    checkpoint_generation option \<Rightarrow> (checkpoint_merge_conflict, checkpoint_generation option) result" where
  "merge_checkpoint_generation base left right =
     (if left = right then Ok left else if left = base then Ok right
      else if right = base then Ok left
      else Err \<lparr>cm_base = base, cm_left = left, cm_right = right\<rparr>)"

type_synonym checkpoint_identity = "u8 list \<times> string \<times> string option"

record checkpoint_position =
  cp_format :: string
  cp_format_version :: u32
  cp_canonical_payload :: "u8 list"

datatype checkpoint_position_error = InvalidFormat | InvalidCanonicalPayload

definition checkpoint_position_new :: "tag_registry \<Rightarrow> string \<Rightarrow> u32 \<Rightarrow> u8 list \<Rightarrow>
    (checkpoint_position_error, checkpoint_position) result" where
  "checkpoint_position_new vtag format version payload =
     (if format = [] \<or> version = 0 then Err InvalidFormat
      else case value_decode vtag payload of
        Inl _ \<Rightarrow> Err InvalidCanonicalPayload
      | Inr _ \<Rightarrow> Ok \<lparr>cp_format = format, cp_format_version = version, cp_canonical_payload = payload\<rparr>)"

type_synonym checkpoint_snapshot = "(checkpoint_identity, checkpoint_position) btree_map"

datatype checkpoint_snapshot_error = DuplicateIdentity

fun snapshot_new_from :: "checkpoint_snapshot \<Rightarrow> (checkpoint_identity \<times> checkpoint_position) list \<Rightarrow>
    (checkpoint_snapshot_error, checkpoint_snapshot) result" where
  "snapshot_new_from indexed [] = Ok indexed"
| "snapshot_new_from indexed ((ident, position) # rest) =
     (if bm_contains indexed ident then Err DuplicateIdentity
      else snapshot_new_from (bm_insert ident position indexed) rest)"

definition checkpoint_snapshot_new :: "(checkpoint_identity \<times> checkpoint_position) list \<Rightarrow>
    (checkpoint_snapshot_error, checkpoint_snapshot) result" where
  "checkpoint_snapshot_new checkpoints = snapshot_new_from [] checkpoints"

record checkpoint_snapshot_refs =
  sr_base :: "u8 list"
  sr_left :: "u8 list"
  sr_right :: "u8 list"

datatype checkpoint_conflict_reason = DivergentPosition | IncompatibleFormat | DeleteUpdate

record checkpoint_snapshot_merge_conflict =
  sc_identity :: checkpoint_identity
  sc_base :: "checkpoint_position option"
  sc_left :: "checkpoint_position option"
  sc_right :: "checkpoint_position option"
  sc_left_snapshot :: "u8 list"
  sc_right_snapshot :: "u8 list"
  sc_reason :: checkpoint_conflict_reason

record checkpoint_snapshot_merge_failure =
  sf_conflicts :: "checkpoint_snapshot_merge_conflict list"
  sf_conflicts_lower_bound :: int

fun format_mismatch :: "(string \<times> u32) option \<Rightarrow> checkpoint_position list \<Rightarrow> bool" where
  "format_mismatch expected [] = False"
| "format_mismatch expected (p # ps) =
     (if (case expected of None \<Rightarrow> False | Some e \<Rightarrow> e \<noteq> (cp_format p, cp_format_version p)) then True
      else format_mismatch (Some (cp_format p, cp_format_version p)) ps)"

definition checkpoint_conflict_reason_of :: "checkpoint_position option \<Rightarrow> checkpoint_position option \<Rightarrow>
    checkpoint_position option \<Rightarrow> checkpoint_conflict_reason" where
  "checkpoint_conflict_reason_of base left right =
     (if base \<noteq> None \<and> (left = None) \<noteq> (right = None) then DeleteUpdate
      else if format_mismatch None (flatten [base, left, right]) then IncompatibleFormat
      else DivergentPosition)"

definition merge_snapshot_position :: "checkpoint_position option \<Rightarrow> checkpoint_position option \<Rightarrow>
    checkpoint_position option \<Rightarrow> (checkpoint_conflict_reason, checkpoint_position option) result" where
  "merge_snapshot_position base left right =
     (if left = right then Ok left else if left = base then Ok right
      else if right = base then Ok left
      else Err (checkpoint_conflict_reason_of base left right))"

definition snapshot_conflict :: "checkpoint_snapshot_refs \<Rightarrow> checkpoint_snapshot \<Rightarrow> checkpoint_snapshot \<Rightarrow>
    checkpoint_snapshot \<Rightarrow> checkpoint_conflict_reason \<Rightarrow> checkpoint_identity \<Rightarrow> checkpoint_snapshot_merge_conflict" where
  "snapshot_conflict refs base left right reason ident =
     \<lparr>sc_identity = ident, sc_base = bm_get base ident, sc_left = bm_get left ident, sc_right = bm_get right ident,
      sc_left_snapshot = sr_left refs, sc_right_snapshot = sr_right refs, sc_reason = reason\<rparr>"

fun merge_snapshot_loop :: "checkpoint_snapshot_refs \<Rightarrow> int \<Rightarrow> checkpoint_snapshot \<Rightarrow> checkpoint_snapshot \<Rightarrow>
    checkpoint_snapshot \<Rightarrow> checkpoint_identity list \<Rightarrow> checkpoint_snapshot \<Rightarrow> checkpoint_snapshot_merge_conflict list \<Rightarrow>
    int \<Rightarrow> (checkpoint_snapshot_merge_failure, checkpoint_snapshot) result" where
  "merge_snapshot_loop refs max_conflicts base left right [] merged conflicts count =
     (if count \<noteq> 0 then Err \<lparr>sf_conflicts = sort_key sc_identity conflicts, sf_conflicts_lower_bound = count\<rparr>
      else Ok merged)"
| "merge_snapshot_loop refs max_conflicts base left right (ident # idents) merged conflicts count =
     (case merge_snapshot_position (bm_get base ident) (bm_get left ident) (bm_get right ident) of
        Inr (Some position) \<Rightarrow>
          merge_snapshot_loop refs max_conflicts base left right idents (bm_insert ident position merged) conflicts count
      | Inr None \<Rightarrow> merge_snapshot_loop refs max_conflicts base left right idents merged conflicts count
      | Inl reason \<Rightarrow>
          let count = usize_succ count;
              conflicts = (if int (length conflicts) < max_conflicts
                           then conflicts @ [snapshot_conflict refs base left right reason ident] else conflicts) in
          if count > max_conflicts then Err \<lparr>sf_conflicts = conflicts, sf_conflicts_lower_bound = count\<rparr>
          else merge_snapshot_loop refs max_conflicts base left right idents merged conflicts count)"

definition merge_checkpoint_snapshots_bounded :: "checkpoint_snapshot \<Rightarrow> checkpoint_snapshot \<Rightarrow> checkpoint_snapshot \<Rightarrow>
    checkpoint_snapshot_refs \<Rightarrow> int \<Rightarrow> (checkpoint_snapshot_merge_failure, checkpoint_snapshot) result" where
  "merge_checkpoint_snapshots_bounded base left right refs max_conflicts =
     merge_snapshot_loop refs max_conflicts base left right (union_ids base left right) [] [] 0"

definition merge_checkpoint_snapshots :: "checkpoint_snapshot \<Rightarrow> checkpoint_snapshot \<Rightarrow> checkpoint_snapshot \<Rightarrow>
    checkpoint_snapshot_refs \<Rightarrow> (checkpoint_snapshot_merge_conflict list, checkpoint_snapshot) result" where
  "merge_checkpoint_snapshots base left right refs =
     (case merge_checkpoint_snapshots_bounded base left right refs USIZE_MAX of
        Inl failure \<Rightarrow> Err (sf_conflicts failure)
      | Inr s \<Rightarrow> Ok s)"

end
