(* ===== verification/Orna_Merge_Laws.thy ===== *)
theory Orna_Merge_Laws
  imports Orna_Merge
begin

text \<open>
  The laws of the three-way merges. The locale \<open>three_way\<close> states what a three-way choice promises;
  the choice of a schema property, of a checkpoint generation and of a checkpoint position
  interpret it, and the merges of whole schemas, rows and snapshots are stated over them.
\<close>

section \<open>Three-way choices\<close>

locale three_way =
  fixes merge :: "'a \<Rightarrow> 'a \<Rightarrow> 'a \<Rightarrow> ('c, 'a) result"
  assumes agree: "merge b x x = Ok x"
    and left_unchanged: "merge b b y = Ok y"
    and right_unchanged: "merge b x b = Ok x"
    and both_changed: "x \<noteq> y \<Longrightarrow> x \<noteq> b \<Longrightarrow> y \<noteq> b \<Longrightarrow> \<not> is_ok (merge b x y)"
begin

lemma ok_iff:
  "merge b x y = Ok z \<longleftrightarrow> z = (if x = b then y else x) \<and> (x = y \<or> x = b \<or> y = b)"
proof (cases "x = y \<or> x = b \<or> y = b")
  case True
  then show ?thesis
    using agree [of b x] left_unchanged [of b y] right_unchanged [of b x] by (elim disjE) auto
next
  case False
  with both_changed [of x y b] show ?thesis by (auto simp: is_ok_def)
qed

lemma swap: "merge b x y = Ok z \<longleftrightarrow> merge b y x = Ok z"
  by (auto simp: ok_iff)

lemma conflict_iff: "\<not> is_ok (merge b x y) \<longleftrightarrow> x \<noteq> y \<and> x \<noteq> b \<and> y \<noteq> b"
  using agree [of b x] left_unchanged [of b y] right_unchanged [of b x] both_changed [of x y b]
  by (auto simp: is_ok_def)

lemma unchanged_iff: "merge b x y = Ok b \<longleftrightarrow> (x = b \<and> y = b)"
  by (auto simp: ok_iff)

end

interpretation side: three_way choose_side
  by unfold_locales (auto simp: choose_side_def is_ok_def)

interpretation generation: three_way merge_checkpoint_generation
  by unfold_locales (auto simp: merge_checkpoint_generation_def is_ok_def)

interpretation position: three_way merge_snapshot_position
  by unfold_locales (auto simp: merge_snapshot_position_def is_ok_def)

lemma choose_side_Err: "choose_side b x y = Err u \<longleftrightarrow> x \<noteq> y \<and> x \<noteq> b \<and> y \<noteq> b"
  by (auto simp: choose_side_def)

lemma choose_side_swap: "choose_side b x y = choose_side b y x"
  by (auto simp: choose_side_def)

lemma merge_optional_side: "choose_side b x y = Ok z \<Longrightarrow> merge_optional b x y = z"
  by (auto simp: choose_side_def merge_optional_def split: if_splits)

lemma union_ids_swap: "union_ids b l r = union_ids b r l"
proof -
  have "sorted_wrt (<) (union_ids b l r)" "sorted_wrt (<) (union_ids b r l)"
    using bs_wf_collect unfolding union_ids_def bs_wf_def by blast+
  moreover have "set (union_ids b l r) = set (union_ids b r l)"
    by (auto simp: union_ids_def)
  ultimately show ?thesis
    by (metis strict_sorted_equal)
qed

lemma union_ids_mem: "bm_get b k \<noteq> None \<or> bm_get l k \<noteq> None \<or> bm_get r k \<noteq> None \<longleftrightarrow> k \<in> set (union_ids b l r)"
  by (auto simp: union_ids_def bm_get_None_notin)

lemma union_ids_sorted: "sorted_wrt (<) (union_ids b l r)"
  using bs_wf_collect [of "map fst b @ map fst l @ map fst r"] by (simp add: union_ids_def bs_wf_def)

section \<open>Checkpoint snapshots\<close>

definition conflicting :: "checkpoint_snapshot \<Rightarrow> checkpoint_snapshot \<Rightarrow> checkpoint_snapshot \<Rightarrow> checkpoint_identity \<Rightarrow> bool" where
  "conflicting base left right i \<longleftrightarrow>
     \<not> is_ok (merge_snapshot_position (bm_get base i) (bm_get left i) (bm_get right i))"

definition conflict_at :: "checkpoint_snapshot_refs \<Rightarrow> checkpoint_snapshot \<Rightarrow> checkpoint_snapshot \<Rightarrow> checkpoint_snapshot \<Rightarrow>
    checkpoint_identity \<Rightarrow> checkpoint_snapshot_merge_conflict" where
  "conflict_at refs base left right i = snapshot_conflict refs base left right
     (checkpoint_conflict_reason_of (bm_get base i) (bm_get left i) (bm_get right i)) i"

lemma conflict_at_identity [simp]: "sc_identity (conflict_at refs base left right i) = i"
  by (simp add: conflict_at_def snapshot_conflict_def)

lemma conflicting_iff:
  "conflicting base left right i \<longleftrightarrow>
     merge_snapshot_position (bm_get base i) (bm_get left i) (bm_get right i) =
       Err (checkpoint_conflict_reason_of (bm_get base i) (bm_get left i) (bm_get right i))"
  by (auto simp: conflicting_def merge_snapshot_position_def is_ok_def)

text \<open>The loop, from the conflicts met so far to the end.\<close>

lemma snapshot_loop_conflicts:
  assumes "0 \<le> n" and "n + int (length (filter (conflicting base left right) ids)) \<le> USIZE_MAX"
    and "n \<le> mx" and "conflicts = map (conflict_at refs base left right) seen" and "int (length seen) = n"
    and "sorted_wrt (<) (seen @ ids)" and "n \<noteq> 0 \<or> filter (conflicting base left right) ids \<noteq> []"
  defines "all_conflicts \<equiv> seen @ filter (conflicting base left right) ids"
  shows "merge_snapshot_loop refs mx base left right ids merged conflicts n =
    Err \<lparr>sf_conflicts = map (conflict_at refs base left right) (take (nat mx) all_conflicts),
         sf_conflicts_lower_bound = min (int (length all_conflicts)) (mx + 1)\<rparr>"
  using assms(1-7) unfolding all_conflicts_def
proof (induction ids arbitrary: seen conflicts n merged)
  case Nil
  have "sorted (map sc_identity conflicts)"
    using Nil.prems(4,6) by (simp add: comp_def strict_sorted_imp_sorted)
  then have "sort_key sc_identity conflicts = conflicts" by (rule sort_key_id_if_sorted)
  with Nil.prems show ?case by simp
next
  case (Cons i ids)
  show ?case
  proof (cases "conflicting base left right i")
    case False
    then obtain p where "merge_snapshot_position (bm_get base i) (bm_get left i) (bm_get right i) = Ok p"
      by (auto simp: conflicting_def is_ok_def split: sum.splits)
    moreover have "sorted_wrt (<) (seen @ ids)"
      using Cons.prems(6) by (simp add: sorted_wrt_append)
    ultimately show ?thesis
      using Cons.IH [of n conflicts seen] Cons.prems False by (cases p) simp_all
  next
    case True
    have succ: "usize_succ n = n + 1" using Cons.prems(1,2) True by (simp add: usize_succ_def)
    from True have "merge_snapshot_position (bm_get base i) (bm_get left i) (bm_get right i) =
        Err (checkpoint_conflict_reason_of (bm_get base i) (bm_get left i) (bm_get right i))"
      by (simp add: conflicting_iff)
    note step = this [folded conflict_at_def] succ
    show ?thesis
    proof (cases "n < mx")
      case True
      let ?seen = "seen @ [i]"
      have c: "conflicts @ [conflict_at refs base left right i] = map (conflict_at refs base left right) ?seen"
        using Cons.prems(4) by simp
      have "merge_snapshot_loop refs mx base left right ids merged (conflicts @ [conflict_at refs base left right i]) (n + 1) =
        Err \<lparr>sf_conflicts = map (conflict_at refs base left right) (take (nat mx) (?seen @ filter (conflicting base left right) ids)),
         sf_conflicts_lower_bound = min (int (length (?seen @ filter (conflicting base left right) ids))) (mx + 1)\<rparr>"
        using Cons.prems True \<open>conflicting base left right i\<close> c by (intro Cons.IH) simp_all
      then show ?thesis
        using Cons.prems True step \<open>conflicting base left right i\<close> by (simp add: Let_def conflict_at_def)
    next
      case False
      then show ?thesis
        using Cons.prems step \<open>conflicting base left right i\<close> by (simp add: Let_def)
    qed
  qed
qed

lemma snapshot_loop_merges:
  assumes "filter (conflicting base left right) ids = []" and "bm_wf merged" and "distinct ids"
  shows "\<exists>m. merge_snapshot_loop refs mx base left right ids merged [] 0 = Ok m \<and> bm_wf m \<and>
    (\<forall>i. i \<notin> set ids \<longrightarrow> bm_get m i = bm_get merged i) \<and>
    (\<forall>i \<in> set ids. (i \<notin> fst ` set merged) \<longrightarrow>
       merge_snapshot_position (bm_get base i) (bm_get left i) (bm_get right i) = Ok (bm_get m i))"
  using assms
proof (induction ids arbitrary: merged)
  case Nil
  then show ?case by simp
next
  case (Cons i ids)
  then have "\<not> conflicting base left right i" and rest: "filter (conflicting base left right) ids = []"
    by (simp_all split: if_splits)
  then obtain p where p: "merge_snapshot_position (bm_get base i) (bm_get left i) (bm_get right i) = Ok p"
    by (auto simp: conflicting_def is_ok_def split: sum.splits)
  let ?merged = "case p of None \<Rightarrow> merged | Some x \<Rightarrow> bm_insert i x merged"
  have "bm_wf ?merged" using Cons.prems(2) by (simp add: bm_wf_insert split: option.splits)
  with Cons.IH [of ?merged] rest Cons.prems(3) obtain m where
    m: "merge_snapshot_loop refs mx base left right ids ?merged [] 0 = Ok m" "bm_wf m"
    and old: "\<forall>j. j \<notin> set ids \<longrightarrow> bm_get m j = bm_get ?merged j"
    and new: "\<forall>j \<in> set ids. (j \<notin> fst ` set ?merged) \<longrightarrow>
       merge_snapshot_position (bm_get base j) (bm_get left j) (bm_get right j) = Ok (bm_get m j)"
    by auto
  have "merge_snapshot_loop refs mx base left right (i # ids) merged [] 0 = Ok m"
    using p m(1) by (cases p) simp_all
  moreover have "bm_get m i = p" if "i \<notin> fst ` set merged"
  proof -
    from that have "bm_get merged i = None" by (simp add: bm_get_None_notin)
    with spec [OF old, of i] Cons.prems(3) show ?thesis by (cases p) (simp_all add: bm_get_insert)
  qed
  moreover have "bm_get m j = bm_get merged j" if "j \<notin> set (i # ids)" for j
    using spec [OF old, of j] that by (cases p) (simp_all add: bm_get_insert)
  moreover have "j \<notin> fst ` set ?merged" if "j \<in> set ids" "j \<notin> fst ` set merged" for j
    using that Cons.prems(3) by (auto simp: fst_set_insert split: option.splits)
  ultimately show ?case
    using m(2) new p by (intro exI [of _ m]) auto
qed

text \<open>
  C12. Merging checkpoint snapshots. Every identity is decided on its own: equal positions stay, a
  position changed on one branch only is taken over (deletions included), and positions changed on both
  branches are a conflict. Without conflicts the merge is the snapshot of these decisions. Otherwise it
  fails, with the first conflicts in identity order, as many as the budget admits, each with the three
  positions, the two snapshot references and its reason; and with a lower bound that is the number of
  conflicts when it is within the budget, and one above the budget when it is not.
\<close>

theorem snapshot_merge_decides:
  assumes "0 \<le> mx" and "int (length (union_ids base left right)) \<le> USIZE_MAX"
  defines "conflicts \<equiv> filter (conflicting base left right) (union_ids base left right)"
  shows "case merge_checkpoint_snapshots_bounded base left right refs mx of
     Inr m \<Rightarrow> conflicts = [] \<and> bm_wf m \<and>
       (\<forall>i. merge_snapshot_position (bm_get base i) (bm_get left i) (bm_get right i) = Ok (bm_get m i))
   | Inl failure \<Rightarrow> conflicts \<noteq> [] \<and>
       sf_conflicts failure = map (conflict_at refs base left right) (take (nat mx) conflicts) \<and>
       sf_conflicts_lower_bound failure = min (int (length conflicts)) (mx + 1)"
proof (cases "conflicts = []")
  case True
  have d: "distinct (union_ids base left right)"
    using union_ids_sorted strict_sorted_iff by blast
  from snapshot_loop_merges [OF True [unfolded conflicts_def] bm_wf_Nil d, of refs mx] obtain m where
    m: "merge_checkpoint_snapshots_bounded base left right refs mx = Ok m" "bm_wf m"
    and old: "\<forall>i. i \<notin> set (union_ids base left right) \<longrightarrow> bm_get m i = None"
    and new: "\<forall>i \<in> set (union_ids base left right).
      merge_snapshot_position (bm_get base i) (bm_get left i) (bm_get right i) = Ok (bm_get m i)"
    by (auto simp: merge_checkpoint_snapshots_bounded_def)
  have "merge_snapshot_position (bm_get base i) (bm_get left i) (bm_get right i) = Ok (bm_get m i)" for i
  proof (cases "i \<in> set (union_ids base left right)")
    case False
    with union_ids_mem [of base i left right] old [rule_format, OF False] show ?thesis
      using position.agree by simp
  qed (use new in blast)
  with True m show ?thesis by simp
next
  case False
  have "int (length conflicts) \<le> USIZE_MAX"
    using assms(2) length_filter_le [of "conflicting base left right" "union_ids base left right"]
    unfolding conflicts_def by linarith
  with False assms(1) union_ids_sorted [of base left right] show ?thesis
    unfolding merge_checkpoint_snapshots_bounded_def
    by (subst snapshot_loop_conflicts [where seen = "[]"]) (simp_all add: conflicts_def)
qed

section \<open>Rows\<close>

lemma merge_row_fields_spec:
  assumes "merge_row_fields base left right fs (merged, conflicts) = (m, cs)" and "bm_wf merged" and "distinct fs"
    and "\<forall>f \<in> set fs. bm_get merged f = None"
  shows "bm_wf m \<and> cs = conflicts @ filter (\<lambda>f. choose_side (bm_get base f) (bm_get left f) (bm_get right f) = Err ()) fs \<and>
    (\<forall>f. bm_get m f = (if f \<in> set fs then (case choose_side (bm_get base f) (bm_get left f) (bm_get right f) of
        Inl _ \<Rightarrow> None | Inr v \<Rightarrow> v) else bm_get merged f))"
  using assms
proof (induction fs arbitrary: merged conflicts)
  case Nil
  then show ?case by simp
next
  case (Cons f fs)
  show ?case
  proof (cases "choose_side (bm_get base f) (bm_get left f) (bm_get right f)")
    case (Inl u)
    then have "bm_get left f \<noteq> bm_get right f \<and> bm_get left f \<noteq> bm_get base f \<and> bm_get right f \<noteq> bm_get base f"
      by (simp add: choose_side_Err)
    with Cons.prems have "merge_row_fields base left right fs (merged, conflicts @ [f]) = (m, cs)"
      by (simp add: Let_def)
    from Cons.IH [OF this] Cons.prems Inl show ?thesis by auto
  next
    case (Inr v)
    then have nc: "\<not> (bm_get left f \<noteq> bm_get right f \<and> bm_get left f \<noteq> bm_get base f \<and> bm_get right f \<noteq> bm_get base f)"
      by (auto simp: choose_side_def split: if_splits)
    let ?merged = "case v of None \<Rightarrow> merged | Some x \<Rightarrow> bm_insert f x merged"
    from Cons.prems(1) have "merge_row_fields base left right fs
        (case v of Some x \<Rightarrow> (bm_insert f x merged, conflicts) | None \<Rightarrow> (merged, conflicts)) = (m, cs)"
      by (simp only: merge_row_fields.simps Let_def merge_optional_side [OF Inr] nc if_False)
    then have step: "merge_row_fields base left right fs (?merged, conflicts) = (m, cs)"
      by (cases v) simp_all
    have "bm_wf ?merged" "\<forall>g \<in> set fs. bm_get ?merged g = None"
      using Cons.prems by (auto simp: bm_wf_insert bm_get_insert split: option.splits)
    with Cons.IH [OF step] Cons.prems have IH: "bm_wf m"
      "cs = conflicts @ filter (\<lambda>f. choose_side (bm_get base f) (bm_get left f) (bm_get right f) = Err ()) fs"
      "\<And>g. bm_get m g = (if g \<in> set fs then (case choose_side (bm_get base g) (bm_get left g) (bm_get right g) of
          Inl _ \<Rightarrow> None | Inr v \<Rightarrow> v) else bm_get ?merged g)"
      by auto
    have "bm_get m f = v" using IH(3) [of f] Cons.prems by (cases v) (simp_all add: bm_get_insert)
    moreover have "g \<noteq> f \<Longrightarrow> bm_get ?merged g = bm_get merged g" for g
      by (cases v) (simp_all add: bm_get_insert)
    ultimately show ?thesis using IH Inr by auto
  qed
qed

lemma merge_present_rows_spec:
  assumes "kr_key_kind left = kr_key_kind base" and "kr_key_kind right = kr_key_kind base"
  defines "cs \<equiv> filter (\<lambda>f. choose_side (bm_get (kr_fields base) f) (bm_get (kr_fields left) f) (bm_get (kr_fields right) f) = Err ())
      (union_ids (kr_fields base) (kr_fields left) (kr_fields right))"
  shows "if cs = [] then \<exists>m. merge_present_rows base left right = Ok (Some m) \<and>
      row_identity_of m = row_identity_of base \<and> kr_key_kind m = kr_key_kind base \<and> bm_wf (kr_fields m) \<and>
      (\<forall>f. choose_side (bm_get (kr_fields base) f) (bm_get (kr_fields left) f) (bm_get (kr_fields right) f) = Ok (bm_get (kr_fields m) f))
    else merge_present_rows base left right = Err (Fields (kr_table base) (kr_key base) cs)"
proof -
  let ?ids = "union_ids (kr_fields base) (kr_fields left) (kr_fields right)"
  obtain m cs' where loop: "merge_row_fields (kr_fields base) (kr_fields left) (kr_fields right) ?ids ([], []) = (m, cs')"
    by (cases "merge_row_fields (kr_fields base) (kr_fields left) (kr_fields right) ?ids ([], [])")
  have d: "distinct ?ids" using union_ids_sorted strict_sorted_iff by blast
  from merge_row_fields_spec [OF loop _ d] have m: "bm_wf m" and cs': "cs' = cs"
    and get: "\<And>f. bm_get m f = (if f \<in> set ?ids then (case choose_side (bm_get (kr_fields base) f) (bm_get (kr_fields left) f) (bm_get (kr_fields right) f) of
        Inl _ \<Rightarrow> None | Inr v \<Rightarrow> v) else None)"
    by (simp_all add: cs_def)
  have "choose_side (bm_get (kr_fields base) f) (bm_get (kr_fields left) f) (bm_get (kr_fields right) f) = Ok (bm_get m f)"
    if "cs = []" for f
  proof (cases "f \<in> set ?ids")
    case True
    with that have "choose_side (bm_get (kr_fields base) f) (bm_get (kr_fields left) f) (bm_get (kr_fields right) f) \<noteq> Err ()"
      unfolding cs_def filter_empty_conv by blast
    with True get [of f] show ?thesis by (auto split: sum.splits)
  next
    case False
    with get [of f] union_ids_mem [of "kr_fields base" f "kr_fields left" "kr_fields right"] show ?thesis
      by (auto simp: choose_side_def)
  qed
  with loop cs' m assms(1,2) show ?thesis
    by (simp add: merge_present_rows_def row_identity_of_def)
qed

lemma merge_row_fields_swap: "merge_row_fields base left right fs acc = merge_row_fields base right left fs acc"
proof (induction fs arbitrary: acc)
  case (Cons f fs)
  obtain merged conflicts where acc: "acc = (merged, conflicts)" by (cases acc)
  have "merge_optional (bm_get base f) (bm_get left f) (bm_get right f) = merge_optional (bm_get base f) (bm_get right f) (bm_get left f)"
    by (auto simp: merge_optional_def)
  then show ?case unfolding acc by (simp add: Let_def Cons)
qed auto

lemma merge_present_rows_swap: "merge_present_rows base left right = merge_present_rows base right left"
  unfolding merge_present_rows_def merge_row_fields_swap [of _ "kr_fields left"] union_ids_swap [of _ "kr_fields left"]
  by auto

text \<open>A key that storage could have delivered: the decoding of some bytes.\<close>

definition stored_key :: "tag_registry \<Rightarrow> keyed_row \<Rightarrow> bool" where
  "stored_key vtag row \<longleftrightarrow> (\<exists>bs. value_decode vtag bs = Ok (kr_key row))"

lemma value_decode_encode: "value_decode vtag bs = Ok v \<Longrightarrow> encode_raw vtag v = Ok bs"
  by (auto simp: value_decode_def split: sum.splits if_splits)

lemma stored_key_encodes:
  "stored_key vtag row \<Longrightarrow> \<exists>bs. encode_raw vtag (kr_key row) = Ok bs \<and> value_decode vtag bs = Ok (kr_key row)"
  unfolding stored_key_def using value_decode_encode by blast

lemma stored_key_inj:
  assumes "stored_key vtag a" and "stored_key vtag b" and "encode_raw vtag (kr_key a) = encode_raw vtag (kr_key b)"
  shows "kr_key a = kr_key b"
  using stored_key_encodes [OF assms(1)] stored_key_encodes [OF assms(2)] assms(3) by auto

lemma least_identity_pair:
  assumes "stored_key vtag a" and "stored_key vtag b"
  obtains i where "min_identity vtag [row_identity_of a, row_identity_of b] = Some (Some i)"
    and "min_identity vtag [row_identity_of b, row_identity_of a] = Some (Some i)"
proof -
  obtain x y where x: "encode_raw vtag (kr_key a) = Ok x" and y: "encode_raw vtag (kr_key b) = Ok y"
    using stored_key_encodes assms by meson
  have "\<exists>i. min_identity vtag [row_identity_of a, row_identity_of b] = Some (Some i) \<and>
      min_identity vtag [row_identity_of b, row_identity_of a] = Some (Some i)"
  proof (cases "kr_table a = kr_table b")
    case True
    with x y stored_key_inj [OF assms] show ?thesis
      by (cases x y rule: linorder_cases) (auto simp: min_identity_def identity_less_def row_identity_of_def)
  next
    case False
    then show ?thesis
      by (cases "kr_table a" "kr_table b" rule: linorder_cases)
        (auto simp: min_identity_def identity_less_def row_identity_of_def)
  qed
  with that show thesis by blast
qed

lemma min_identity_single [simp]: "min_identity vtag [i] = Some (Some i)" "min_identity vtag [] = Some None"
  by (simp_all add: min_identity_def)

lemma flatten_simps [simp]: "flatten [] = []" "flatten (None # xs) = flatten xs" "flatten (Some x # xs) = x # flatten xs"
  by (simp_all add: flatten_def)

lemma merge_row_cases_swap:
  assumes "\<forall>l r. left = Some l \<and> right = Some r \<longrightarrow> row_identity_of l = row_identity_of r"
  shows "merge_row_cases base left right = merge_row_cases base right left"
  using assms merge_present_rows_swap
  by (cases base; cases left; cases right) (auto simp: merge_row_cases_def row_identity_of_def)

lemma merge_keyed_row_swap:
  assumes "\<forall>l. left = Some l \<longrightarrow> stored_key vtag l" and "\<forall>r. right = Some r \<longrightarrow> stored_key vtag r"
  shows "merge_keyed_row vtag base left right = merge_keyed_row vtag base right left \<and>
    merge_keyed_row vtag base left right \<noteq> None"
proof (cases "left = None \<or> right = None")
  case True
  then show ?thesis
    using merge_row_cases_swap [of left right base]
    by (cases base; cases left; cases right) (auto simp: merge_keyed_row_def row_identity_of_def)
next
  case False
  then obtain l r where lr: "left = Some l" "right = Some r" by auto
  from assms lr have "stored_key vtag l" "stored_key vtag r" by auto
  then obtain i where
    i: "min_identity vtag [row_identity_of l, row_identity_of r] = Some (Some i)"
       "min_identity vtag [row_identity_of r, row_identity_of l] = Some (Some i)"
    by (rule least_identity_pair)
  show ?thesis
  proof (cases "row_identity_of l = row_identity_of r")
    case True
    with merge_row_cases_swap [of left right base] i lr show ?thesis
      by (cases base; cases i) (auto simp: merge_keyed_row_def row_identity_of_def)
  next
    case False
    with i lr show ?thesis
      by (cases base; cases i) (auto simp: merge_keyed_row_def row_identity_of_def)
  qed
qed

definition same_row :: "keyed_row \<Rightarrow> keyed_row \<Rightarrow> bool" where
  "same_row a b \<longleftrightarrow> row_identity_of a = row_identity_of b \<and> kr_key_kind a = kr_key_kind b"

definition field_choice :: "keyed_row \<Rightarrow> keyed_row \<Rightarrow> keyed_row \<Rightarrow> object_id \<Rightarrow> (unit, raw option) result" where
  "field_choice b l r f = choose_side (bm_get (kr_fields b) f) (bm_get (kr_fields l) f) (bm_get (kr_fields r) f)"

lemma merge_keyed_row_present:
  assumes "stored_key vtag l" and "stored_key vtag r" and "same_row b l" and "same_row b r"
  shows "merge_keyed_row vtag (Some b) (Some l) (Some r) = Some (merge_present_rows b l r)"
proof -
  obtain i where "min_identity vtag [row_identity_of l, row_identity_of r] = Some (Some i)"
    using least_identity_pair [OF assms(1,2)] .
  with assms(3,4) show ?thesis
    by (cases i) (auto simp: merge_keyed_row_def row_identity_of_def same_row_def merge_row_cases_def)
qed

text \<open>
  C10. Merging one row. For keys that storage delivered, the merge never panics and does not depend on
  the order of the branches, in its result and in its conflict. When base and both branches hold the
  row, every field is decided on its own by the three-way choice, deletions of a field included: if no
  field conflicts the merged row has exactly the chosen fields; otherwise nothing is merged and the
  conflict lists exactly the fields changed on both sides to different values, in identity order.
\<close>

theorem row_merge_three_way:
  assumes "\<forall>l. left = Some l \<longrightarrow> stored_key vtag l" and "\<forall>r. right = Some r \<longrightarrow> stored_key vtag r"
  shows "merge_keyed_row vtag base left right = merge_keyed_row vtag base right left \<and>
    merge_keyed_row vtag base left right \<noteq> None \<and>
    (\<forall>b l r. base = Some b \<and> left = Some l \<and> right = Some r \<and> same_row b l \<and> same_row b r \<longrightarrow>
      (let cs = filter (\<lambda>f. field_choice b l r f = Err ()) (union_ids (kr_fields b) (kr_fields l) (kr_fields r)) in
       if cs = [] then \<exists>m. merge_keyed_row vtag base left right = Some (Ok (Some m)) \<and> same_row m b \<and>
         bm_wf (kr_fields m) \<and> (\<forall>f. field_choice b l r f = Ok (bm_get (kr_fields m) f))
       else merge_keyed_row vtag base left right = Some (Err (Fields (kr_table b) (kr_key b) cs))))"
proof -
  have "let cs = filter (\<lambda>f. field_choice b l r f = Err ()) (union_ids (kr_fields b) (kr_fields l) (kr_fields r)) in
       if cs = [] then \<exists>m. merge_keyed_row vtag base left right = Some (Ok (Some m)) \<and> same_row m b \<and>
         bm_wf (kr_fields m) \<and> (\<forall>f. field_choice b l r f = Ok (bm_get (kr_fields m) f))
       else merge_keyed_row vtag base left right = Some (Err (Fields (kr_table b) (kr_key b) cs))"
    if rows: "base = Some b" "left = Some l" "right = Some r" and same: "same_row b l" "same_row b r" for b l r
  proof -
    have m: "merge_keyed_row vtag base left right = Some (merge_present_rows b l r)"
      unfolding rows using assms rows same by (intro merge_keyed_row_present) simp_all
    have "kr_key_kind l = kr_key_kind b" "kr_key_kind r = kr_key_kind b"
      using same by (simp_all add: same_row_def)
    from merge_present_rows_spec [OF this] show ?thesis
      unfolding m Let_def field_choice_def same_row_def by (simp only: option.inject simp_thms split: if_split) auto
  qed
  with merge_keyed_row_swap [OF assms, of base] show ?thesis by blast
qed

lemma merge_row_cases_None:
  assumes "merge_row_cases base left right = Ok None" and "base = Some b"
  shows "left \<in> {None, Some b} \<and> right \<in> {None, Some b} \<and> (left = None \<or> right = None)"
  using assms
  by (cases left; cases right) (auto simp: merge_row_cases_def merge_present_rows_def split: if_splits prod.splits)

lemma merge_keyed_row_None:
  assumes "merge_keyed_row vtag (Some b) left right = Some (Ok None)"
  shows "left \<in> {None, Some b} \<and> right \<in> {None, Some b} \<and> (left = None \<or> right = None)"
  using assms merge_row_cases_None [of "Some b" left right b]
  by (auto simp: merge_keyed_row_def split: option.splits prod.splits if_splits)

text \<open>
  C11. Missing history never becomes a deletion. If any of the three states of a key is unavailable, the
  merge fails and names exactly the unavailable sides, whatever the others hold. A deletion is
  recorded only for a row that the base held under that identity, when at least one branch no longer has
  it and each branch that still has it left it unchanged. An absence without a record is reported only
  when the base did not hold the row.
\<close>

theorem no_fabricated_delete:
  "(Pruned \<in> {base, left, right} \<longrightarrow> merge_keyed_row_states vtag base left right =
      Some (Err (PrunedInput (map fst (filter (\<lambda>p. snd p = Pruned) [(Base, base), (Left, left), (Right, right)]))))) \<and>
   (merge_keyed_row_states vtag base left right = Some (Ok (OpTombstone t k)) \<longrightarrow>
      (\<exists>b. base = Present b \<and> row_identity_of b = (t, k) \<and>
        state_row left \<in> {None, Some b} \<and> state_row right \<in> {None, Some b} \<and>
        (state_row left = None \<or> state_row right = None) \<and> Pruned \<notin> {left, right})) \<and>
   (merge_keyed_row_states vtag base left right = Some (Ok OpAbsent) \<longrightarrow> state_row base = None \<and> Pruned \<notin> {base, left, right})"
proof -
  have pruned: "pruned_sides base left right = [] \<longleftrightarrow> Pruned \<notin> {base, left, right}"
    by (auto simp: pruned_sides_def)
  have sides: "pruned_sides base left right = map fst (filter (\<lambda>p. snd p = Pruned) [(Base, base), (Left, left), (Right, right)])"
    by (simp add: pruned_sides_def split_beta)
  have del: "\<exists>b. base = Present b \<and> row_identity_of b = (t, k) \<and> merge_keyed_row vtag (Some b) (state_row left) (state_row right) = Some (Ok None)"
    if "merge_keyed_row_states vtag base left right = Some (Ok (OpTombstone t k))"
    using that by (auto simp: merge_keyed_row_states_def state_row_def row_identity_of_def Let_def
        split: option.splits if_splits sum.splits row_snapshot_state.splits)
  have absent: "state_row base = None" if "merge_keyed_row_states vtag base left right = Some (Ok OpAbsent)"
    using that by (auto simp: merge_keyed_row_states_def Let_def split: option.splits if_splits sum.splits)
  have ok: "Pruned \<notin> {base, left, right}" if "merge_keyed_row_states vtag base left right = Some (Ok x)" for x
    using that pruned by (auto simp: merge_keyed_row_states_def split: if_splits)
  have pr: "Pruned \<in> {base, left, right} \<longrightarrow> merge_keyed_row_states vtag base left right = Some (Err (PrunedInput (pruned_sides base left right)))"
    using pruned by (auto simp: merge_keyed_row_states_def)
  show ?thesis
  proof (intro conjI impI)
    assume tomb: "merge_keyed_row_states vtag base left right = Some (Ok (OpTombstone t k))"
    from del [OF this] obtain b where b: "base = Present b" "row_identity_of b = (t, k)"
      and m: "merge_keyed_row vtag (Some b) (state_row left) (state_row right) = Some (Ok None)" by blast
    show "\<exists>b. base = Present b \<and> row_identity_of b = (t, k) \<and>
        state_row left \<in> {None, Some b} \<and> state_row right \<in> {None, Some b} \<and>
        (state_row left = None \<or> state_row right = None) \<and> Pruned \<notin> {left, right}"
      using b merge_keyed_row_None [OF m] ok [OF tomb] by (intro exI [of _ b]) simp
  qed (use absent ok pr sides in simp_all)
qed

section \<open>Witnesses\<close>

definition merge_registry :: tag_registry where
  "merge_registry n v = Err InvalidTag"

definition sample_position :: "u8 \<Rightarrow> checkpoint_position" where
  "sample_position n = \<lparr>cp_format = ''seq'', cp_format_version = 1, cp_canonical_payload = [n]\<rparr>"

definition sample_ident :: "string \<Rightarrow> checkpoint_identity" where
  "sample_ident s = ([1], s, None)"

definition snap_base :: checkpoint_snapshot where
  "snap_base = [(sample_ident ''a'', sample_position 1), (sample_ident ''b'', sample_position 1)]"

definition snap_left :: checkpoint_snapshot where
  "snap_left = [(sample_ident ''a'', sample_position 2), (sample_ident ''b'', sample_position 2)]"

definition snap_right :: checkpoint_snapshot where
  "snap_right = [(sample_ident ''a'', sample_position 1), (sample_ident ''b'', sample_position 3)]"

definition sample_refs :: checkpoint_snapshot_refs where
  "sample_refs = \<lparr>sr_base = [0], sr_left = [1], sr_right = [2]\<rparr>"

theorem snapshot_merge_decides_witness:
  "case merge_checkpoint_snapshots_bounded snap_base snap_left snap_right sample_refs 3 of
     Inr m \<Rightarrow> False
   | Inl failure \<Rightarrow> map sc_identity (sf_conflicts failure) = [sample_ident ''b''] \<and> sf_conflicts_lower_bound failure = 1"
proof -
  have "int (length (union_ids snap_base snap_left snap_right)) \<le> USIZE_MAX" by code_simp
  moreover have "filter (conflicting snap_base snap_left snap_right) (union_ids snap_base snap_left snap_right) = [sample_ident ''b'']"
    by code_simp
  ultimately show ?thesis
    using snapshot_merge_decides [of 3 snap_base snap_left snap_right sample_refs]
    by (auto split: sum.splits)
qed

definition sample_row :: "raw \<Rightarrow> raw \<Rightarrow> keyed_row" where
  "sample_row x y = \<lparr>kr_table = replicate 16 1, kr_key = RInt 7, kr_key_kind = Explicit,
     kr_fields = [(replicate 16 1, x), (replicate 16 2, y)]\<rparr>"

theorem row_merge_three_way_witness:
  "stored_key merge_registry (sample_row (RInt 1) (RInt 0)) \<and>
   merge_keyed_row merge_registry (Some (sample_row (RInt 0) (RInt 0))) (Some (sample_row (RInt 1) (RInt 0))) (Some (sample_row (RInt 0) (RInt 2))) =
     Some (Ok (Some (sample_row (RInt 1) (RInt 2)))) \<and>
   merge_keyed_row merge_registry (Some (sample_row (RInt 0) (RInt 0))) (Some (sample_row (RInt 0) (RInt 2))) (Some (sample_row (RInt 1) (RInt 0))) =
     Some (Ok (Some (sample_row (RInt 1) (RInt 2))))"
proof -
  have "value_decode merge_registry [7] = Ok (RInt 7)" by code_simp
  then have stored: "stored_key merge_registry (sample_row x y)" for x y
    by (auto simp: stored_key_def sample_row_def)
  have m: "merge_keyed_row merge_registry (Some (sample_row (RInt 0) (RInt 0))) (Some (sample_row (RInt 1) (RInt 0))) (Some (sample_row (RInt 0) (RInt 2))) =
     Some (Ok (Some (sample_row (RInt 1) (RInt 2))))" by code_simp
  have "merge_keyed_row merge_registry (Some (sample_row (RInt 0) (RInt 0))) (Some (sample_row (RInt 1) (RInt 0))) (Some (sample_row (RInt 0) (RInt 2))) =
     merge_keyed_row merge_registry (Some (sample_row (RInt 0) (RInt 0))) (Some (sample_row (RInt 0) (RInt 2))) (Some (sample_row (RInt 1) (RInt 0)))"
    using row_merge_three_way [of "Some (sample_row (RInt 1) (RInt 0))" merge_registry "Some (sample_row (RInt 0) (RInt 2))"
        "Some (sample_row (RInt 0) (RInt 0))"] stored by blast
  with stored m show ?thesis by metis
qed

theorem no_fabricated_delete_witness:
  "merge_keyed_row_states merge_registry (Present (sample_row (RInt 0) (RInt 0))) Pruned Absent = Some (Err (PrunedInput [Left])) \<and>
   merge_keyed_row_states merge_registry (Present (sample_row (RInt 0) (RInt 0))) Absent (Present (sample_row (RInt 0) (RInt 0))) =
     Some (Ok (OpTombstone (replicate 16 1) (RInt 7)))"
proof -
  have "merge_keyed_row_states merge_registry (Present (sample_row (RInt 0) (RInt 0))) Absent (Present (sample_row (RInt 0) (RInt 0))) =
     Some (Ok (OpTombstone (replicate 16 1) (RInt 7)))" by code_simp
  then show ?thesis
    using no_fabricated_delete [of "Present (sample_row (RInt 0) (RInt 0))" Pruned Absent merge_registry "[]" RNull] by simp
qed

end
