(* ===== verification/Orna_Merge_Schema.thy ===== *)
theory Orna_Merge_Schema
  imports Orna_Merge_Laws Orna_Evolution_Laws
begin

text \<open>
  Merging schemas: the merge does not depend on the order of the branches, and an accepted merge decides
  every property of every table and field by the three-way choice.
\<close>

section \<open>Swapping the branches\<close>

lemma merge_property_swap: "merge_property t f n b l r c = merge_property t f n b r l c"
  by (simp add: merge_property_def choose_side_swap [of b l r])

lemma merge_field_swap: "merge_field t b l r c = merge_field t b r l c"
  unfolding merge_field_def
  by (simp only: merge_property_swap [where l = "f_name l"] merge_property_swap [where l = "f_ty l"]
      merge_property_swap [where l = "f_role l"] merge_property_swap [where l = "f_optional l"]
      merge_property_swap [where l = "f_fallback l"])

lemma merge_field_entry_swap: "merge_field_entry t f b l r c = merge_field_entry t f b r l c"
  by (cases b; cases l; cases r) (auto simp: merge_field_entry_def merge_field_swap)

lemma merge_field_loop_swap: "merge_field_loop t b l r fs c = merge_field_loop t b r l fs c"
  by (induction fs arbitrary: c) (simp_all add: merge_field_entry_swap [of t _ _ "bm_get l _"] Let_def split_beta)

lemma merge_table_swap: "merge_table b l r c = merge_table b r l c"
  unfolding merge_table_def Let_def choose_side_swap [of "t_name b" "t_name l"]
    choose_side_swap [of "t_explicit_key b" "t_explicit_key l"]
    merge_field_loop_swap [of _ _ "fields_by_id l"] union_ids_swap [of _ "fields_by_id l"] by simp

lemma merge_table_entry_swap: "merge_table_entry t b l r c = merge_table_entry t b r l c"
  by (cases b; cases l; cases r) (auto simp: merge_table_entry_def merge_table_swap)

lemma merge_table_loop_swap: "merge_table_loop b l r ts c = merge_table_loop b r l ts c"
  by (induction ts arbitrary: c) (simp_all add: merge_table_entry_swap [of _ _ "bm_get l _"] Let_def split_beta)

lemma merge_schema_bounded_swap:
  "merge_schema_bounded dbg vtag base left right n = merge_schema_bounded dbg vtag base right left n"
  unfolding merge_schema_bounded_def Let_def choose_side_swap [of "s_version base" "s_version left"]
    merge_table_loop_swap [of _ "tables_by_id left"] union_ids_swap [of _ "tables_by_id left"]
  by (simp add: disj_commute)

section \<open>The collector\<close>

definition cc_ok :: "schema_conflict_collector \<Rightarrow> bool" where
  "cc_ok c \<longleftrightarrow> 0 \<le> cc_count c \<and> 0 \<le> cc_limit c"

definition later :: "schema_conflict_collector \<Rightarrow> schema_conflict_collector \<Rightarrow> bool" where
  "later c c' \<longleftrightarrow> cc_limit c' = cc_limit c \<and> (c' = c \<or> 0 < cc_count c')"

lemma later_refl [simp]: "later c c"
  by (simp add: later_def)

lemma later_trans: "later c c' \<Longrightarrow> later c' c'' \<Longrightarrow> later c c''"
  by (auto simp: later_def)

lemma later_ok: "later c c' \<Longrightarrow> cc_ok c \<Longrightarrow> cc_ok c'"
  by (auto simp: later_def cc_ok_def)

lemma later_clean: "later c c' \<Longrightarrow> cc_count c' = 0 \<Longrightarrow> c' = c"
  by (auto simp: later_def)

lemma later_push: "cc_ok c \<Longrightarrow> later c (cc_push x c)"
  by (auto simp: later_def cc_push_def cc_ok_def usize_succ_def USIZE_MAX_def)

lemma push_not_clean: "cc_ok c \<Longrightarrow> cc_count (cc_push x c) \<noteq> 0"
  by (auto simp: cc_push_def cc_exceeded_def cc_ok_def usize_succ_def USIZE_MAX_def)

lemma clean_not_exceeded: "cc_ok c \<Longrightarrow> cc_exceeded c \<Longrightarrow> cc_count c \<noteq> 0"
  by (auto simp: cc_exceeded_def cc_ok_def)

lemmas collector = later_push push_not_clean

section \<open>What an accepted merge decided\<close>

definition field_merged :: "field \<Rightarrow> field \<Rightarrow> field \<Rightarrow> field \<Rightarrow> bool" where
  "field_merged b l r w \<longleftrightarrow> f_id w = f_id b \<and>
     choose_side (f_name b) (f_name l) (f_name r) = Ok (f_name w) \<and>
     choose_side (f_ty b) (f_ty l) (f_ty r) = Ok (f_ty w) \<and>
     choose_side (f_role b) (f_role l) (f_role r) = Ok (f_role w) \<and>
     choose_side (f_optional b) (f_optional l) (f_optional r) = Ok (f_optional w) \<and>
     choose_side (f_fallback b) (f_fallback l) (f_fallback r) = Ok (f_fallback w)"

definition entry_merged :: "('a \<Rightarrow> 'a \<Rightarrow> 'a \<Rightarrow> 'a \<Rightarrow> bool) \<Rightarrow> 'a option \<Rightarrow> 'a option \<Rightarrow> 'a option \<Rightarrow> 'a option \<Rightarrow> bool" where
  "entry_merged parts b l r w \<longleftrightarrow> (case (b, l, r) of
     (Some z, Some x, Some y) \<Rightarrow> (\<exists>v. w = Some v \<and> parts z x y v)
   | _ \<Rightarrow> choose_side b l r = Ok w)"

definition table_merged :: "table \<Rightarrow> table \<Rightarrow> table \<Rightarrow> table \<Rightarrow> bool" where
  "table_merged b l r w \<longleftrightarrow> t_id w = t_id b \<and>
     choose_side (t_name b) (t_name l) (t_name r) = Ok (t_name w) \<and>
     choose_side (t_explicit_key b) (t_explicit_key l) (t_explicit_key r) = Ok (t_explicit_key w) \<and>
     (\<forall>f. entry_merged field_merged (bm_get (fields_by_id b) f) (bm_get (fields_by_id l) f)
        (bm_get (fields_by_id r) f) (bm_get (fields_by_id w) f))"

lemma merge_property_spec:
  assumes "merge_property t f n b l r c = (v, c')" and "cc_ok c"
  shows "later c c' \<and> (cc_count c' = 0 \<longrightarrow> choose_side b l r = Ok v)"
  using assms collector [OF assms(2)] by (auto simp: merge_property_def split: sum.splits)

lemma merge_field_spec:
  assumes "merge_field t b l r c = (x, c')" and ok: "cc_ok c"
  shows "later c c' \<and> (cc_count c' = 0 \<longrightarrow> (\<exists>w. x = Some w \<and> field_merged b l r w))"
proof -
  obtain v1 c1 where 1: "merge_property t (f_id b) ''name'' (f_name b) (f_name l) (f_name r) c = (v1, c1)" by fastforce
  obtain v2 c2 where 2: "merge_property t (f_id b) ''type'' (f_ty b) (f_ty l) (f_ty r) c1 = (v2, c2)" by fastforce
  obtain v3 c3 where 3: "merge_property t (f_id b) ''role'' (f_role b) (f_role l) (f_role r) c2 = (v3, c3)" by fastforce
  obtain v4 c4 where 4: "merge_property t (f_id b) ''optional'' (f_optional b) (f_optional l) (f_optional r) c3 = (v4, c4)" by fastforce
  obtain v5 c5 where 5: "merge_property t (f_id b) ''introduction_fallback'' (f_fallback b) (f_fallback l) (f_fallback r) c4 = (v5, c5)" by fastforce
  note p1 = merge_property_spec [OF 1 ok]
  note ok1 = later_ok [OF conjunct1 [OF p1] ok]
  note p2 = merge_property_spec [OF 2 ok1]
  note ok2 = later_ok [OF conjunct1 [OF p2] ok1]
  note p3 = merge_property_spec [OF 3 ok2]
  note ok3 = later_ok [OF conjunct1 [OF p3] ok2]
  note p4 = merge_property_spec [OF 4 ok3]
  note ok4 = later_ok [OF conjunct1 [OF p4] ok3]
  note p5 = merge_property_spec [OF 5 ok4]
  have res: "x = Some \<lparr>f_id = f_id b, f_name = v1, f_ty = v2, f_role = v3, f_optional = v4, f_fallback = v5\<rparr>" "c' = c5"
    using assms(1) by (simp_all add: merge_field_def 1 2 3 4 5)
  have "later c c'"
    unfolding res using p1 p2 p3 p4 p5 later_trans by meson
  moreover have "c4 = c5 \<and> c3 = c4 \<and> c2 = c3 \<and> c1 = c2" if "cc_count c5 = 0"
    using that p2 p3 p4 p5 later_clean by metis
  ultimately show ?thesis
    using p1 p2 p3 p4 p5 by (auto simp: res field_merged_def)
qed

lemma merge_field_entry_spec:
  assumes "merge_field_entry t f b l r c = (x, c')" and ok: "cc_ok c"
  shows "later c c' \<and> (cc_count c' = 0 \<longrightarrow> entry_merged field_merged b l r x)"
proof (cases "b \<noteq> None \<and> l \<noteq> None \<and> r \<noteq> None")
  case True
  then obtain z p q where "b = Some z" "l = Some p" "r = Some q" by auto
  with assms merge_field_spec [of t z p q c x c'] show ?thesis
    by (auto simp: merge_field_entry_def entry_merged_def)
next
  case False
  with assms collector [OF ok] show ?thesis
    by (cases b; cases l; cases r)
      (auto simp: merge_field_entry_def entry_merged_def choose_side_def split: if_splits)
qed

abbreviation kept :: "('k \<Rightarrow> 'a option) \<Rightarrow> 'k list \<Rightarrow> 'a list" where
  "kept out ks \<equiv> concat (map (\<lambda>k. case out k of None \<Rightarrow> [] | Some y \<Rightarrow> [y]) ks)"

lemma kept_by_id:
  assumes "distinct ks" and "\<And>k y. k \<in> set ks \<Longrightarrow> out k = Some y \<Longrightarrow> h y = k"
  shows "bm_get (bm_collect (map (\<lambda>y. (h y, y)) (kept out ks))) k = (if k \<in> set ks then out k else None)"
proof -
  have "map_of (rev (map (\<lambda>y. (h y, y)) (kept out ks))) k = (if k \<in> set ks then out k else None)"
    using assms
  proof (induction ks)
    case (Cons l ks)
    then have IH: "map_of (rev (map (\<lambda>y. (h y, y)) (kept out ks))) k = (if k \<in> set ks then out k else None)"
      by simp
    show ?case
    proof (cases "out l")
      case None
      with IH show ?thesis by auto
    next
      case (Some y)
      with Cons.prems(2) [of l y] have "h y = l" by simp
      with IH Some Cons.prems(1) show ?thesis
        by (auto simp: map_add_def split: option.splits)
    qed
  qed simp
  then show ?thesis by (simp add: bm_get_collect)
qed

lemma merge_field_loop_spec:
  assumes "merge_field_loop t b l r fs c = (out, c')" and "cc_ok c" and "distinct fs"
  shows "later c c' \<and> (cc_count c' = 0 \<longrightarrow> (\<exists>w. out = kept w fs \<and>
    (\<forall>f \<in> set fs. entry_merged field_merged (bm_get b f) (bm_get l f) (bm_get r f) (w f))))"
  using assms
proof (induction fs arbitrary: c c' out)
  case (Cons f fs)
  obtain x c1 where entry: "merge_field_entry t f (bm_get b f) (bm_get l f) (bm_get r f) c = (x, c1)" by fastforce
  note e = merge_field_entry_spec [OF entry Cons.prems(2)]
  then have ok1: "cc_ok c1" using later_ok Cons.prems(2) by blast
  show ?case
  proof (cases "cc_exceeded c1")
    case True
    with Cons.prems(1) entry have "c' = c1" by (simp add: Let_def)
    with e clean_not_exceeded [OF ok1 True] show ?thesis by simp
  next
    case False
    obtain rest c2 where loop: "merge_field_loop t b l r fs c1 = (rest, c2)" by fastforce
    from Cons.prems(1) entry False loop have out: "out = (case x of None \<Rightarrow> [] | Some y \<Rightarrow> [y]) @ rest" "c' = c2"
      by (simp_all add: Let_def)
    note IH = Cons.IH [OF loop ok1] 
    have d: "distinct fs" "f \<notin> set fs" using Cons.prems(3) by simp_all
    have "later c c'" using IH d e later_trans out(2) by blast
    moreover have "\<exists>w. out = kept w (f # fs) \<and>
        (\<forall>f \<in> set (f # fs). entry_merged field_merged (bm_get b f) (bm_get l f) (bm_get r f) (w f))" if clean: "cc_count c' = 0"
    proof -
      from IH d clean out(2) obtain w where w: "rest = kept w fs"
        "\<forall>f \<in> set fs. entry_merged field_merged (bm_get b f) (bm_get l f) (bm_get r f) (w f)" by blast
      have "c2 = c1" using IH d clean out(2) later_clean by blast
      with e clean out(2) have "entry_merged field_merged (bm_get b f) (bm_get l f) (bm_get r f) x" by simp
      moreover have "kept (w(f := x)) fs = kept w fs"
        using d(2) by (intro arg_cong [where f = concat] map_cong) auto
      ultimately show ?thesis
        using w d(2) out(1) by (intro exI [of _ "w(f := x)"]) auto
    qed
    ultimately show ?thesis by blast
  qed
qed simp

lemma entry_outside:
  "k \<notin> set (union_ids b l r) \<Longrightarrow> entry_merged parts (bm_get b k) (bm_get l k) (bm_get r k) None"
  using union_ids_mem [of b k l r] by (simp add: entry_merged_def choose_side_def)

lemma entry_id:
  assumes "entry_merged parts b l r (Some w)" and "\<And>z x y v. parts z x y v \<Longrightarrow> h v = h z"
    and "\<And>z. b = Some z \<Longrightarrow> h z = k" and "\<And>z. l = Some z \<Longrightarrow> h z = k" and "\<And>z. r = Some z \<Longrightarrow> h z = k"
  shows "h w = k"
  using assms by (cases b; cases l; cases r) (auto simp: entry_merged_def choose_side_def split: if_splits)

lemma merge_table_spec:
  assumes "merge_table b l r c = (x, c')" and ok: "cc_ok c"
  shows "later c c' \<and> (cc_count c' = 0 \<longrightarrow> (\<exists>w. x = Some w \<and> table_merged b l r w))"
proof -
  obtain v1 c1 where 1: "(case choose_side (t_name b) (t_name l) (t_name r) of
      Inr v \<Rightarrow> (v, c) | Inl _ \<Rightarrow> (t_name b, cc_push (TableProperty (t_id b) ''name'') c)) = (v1, c1)" by fastforce
  obtain v2 c2 where 2: "(case choose_side (t_explicit_key b) (t_explicit_key l) (t_explicit_key r) of
      Inr v \<Rightarrow> (v, c1) | Inl _ \<Rightarrow> (t_explicit_key b, cc_push (TableProperty (t_id b) ''explicit_key'') c1)) = (v2, c2)" by fastforce
  let ?bf = "fields_by_id b" and ?lf = "fields_by_id l" and ?rf = "fields_by_id r"
  obtain fs c3 where 3: "merge_field_loop (t_id b) ?bf ?lf ?rf (union_ids ?bf ?lf ?rf) c2 = (fs, c3)" by fastforce
  have p1: "later c c1 \<and> (cc_count c1 = 0 \<longrightarrow> choose_side (t_name b) (t_name l) (t_name r) = Ok v1)"
    using 1 collector [OF ok] by (auto split: sum.splits)
  then have ok1: "cc_ok c1" using later_ok ok by blast
  have p2: "later c1 c2 \<and> (cc_count c2 = 0 \<longrightarrow> choose_side (t_explicit_key b) (t_explicit_key l) (t_explicit_key r) = Ok v2)"
    using 2 collector [OF ok1] by (auto split: sum.splits)
  then have ok2: "cc_ok c2" using later_ok ok1 by blast
  have d: "distinct (union_ids ?bf ?lf ?rf)" using union_ids_sorted strict_sorted_iff by blast
  note p3 = merge_field_loop_spec [OF 3 ok2 d]
  show ?thesis
  proof (cases "cc_exceeded c2")
    case True
    with assms(1) 1 2 have "c' = c2" by (simp add: merge_table_def)
    with p1 p2 clean_not_exceeded [OF ok2 True] later_trans show ?thesis by blast
  next
    case False
    with assms(1) 1 2 3 have res: "x = Some \<lparr>t_id = t_id b, t_name = v1, t_explicit_key = v2, t_fields = fs\<rparr>" "c' = c3"
      by (simp_all add: merge_table_def)
    have "later c c'" unfolding res using p1 p2 p3 later_trans by meson
    moreover have "table_merged b l r \<lparr>t_id = t_id b, t_name = v1, t_explicit_key = v2, t_fields = fs\<rparr>" if clean: "cc_count c' = 0"
    proof -
      from clean res p2 p3 have same: "c2 = c3" "c1 = c2" using later_clean by metis+
      from p3 clean res obtain w where w: "fs = kept w (union_ids ?bf ?lf ?rf)"
        "\<forall>f \<in> set (union_ids ?bf ?lf ?rf). entry_merged field_merged (bm_get ?bf f) (bm_get ?lf f) (bm_get ?rf f) (w f)" by auto
      have ids: "f_id y = f" if "f \<in> set (union_ids ?bf ?lf ?rf)" "w f = Some y" for f y
      proof -
        from bspec [OF w(2) that(1)] that(2)
        have "entry_merged field_merged (bm_get ?bf f) (bm_get ?lf f) (bm_get ?rf f) (Some y)" by simp
        then show ?thesis
          by (rule entry_id) (simp add: field_merged_def | erule fields_by_id_key)+
      qed
      have "entry_merged field_merged (bm_get ?bf f) (bm_get ?lf f) (bm_get ?rf f)
          (if f \<in> set (union_ids ?bf ?lf ?rf) then w f else None)" for f
        using w(2) entry_outside [of f ?bf ?lf ?rf] by simp
      moreover have "bm_get (fields_by_id \<lparr>t_id = t_id b, t_name = v1, t_explicit_key = v2, t_fields = fs\<rparr>) f =
          (if f \<in> set (union_ids ?bf ?lf ?rf) then w f else None)" for f
        by (subst fields_by_id_def) (simp add: w(1) kept_by_id [OF d ids])
      ultimately show ?thesis
        using p1 p2 clean res same by (simp add: table_merged_def)
    qed
    ultimately show ?thesis using res by blast
  qed
qed

lemma merge_table_entry_spec:
  assumes "merge_table_entry t b l r c = (x, c')" and ok: "cc_ok c"
  shows "later c c' \<and> (cc_count c' = 0 \<longrightarrow> entry_merged table_merged b l r x)"
proof (cases "b \<noteq> None \<and> l \<noteq> None \<and> r \<noteq> None")
  case True
  then obtain z p q where "b = Some z" "l = Some p" "r = Some q" by auto
  with assms merge_table_spec [of z p q c x c'] show ?thesis
    by (auto simp: merge_table_entry_def entry_merged_def)
next
  case False
  with assms collector [OF ok] show ?thesis
    by (cases b; cases l; cases r)
      (auto simp: merge_table_entry_def entry_merged_def choose_side_def split: if_splits)
qed

lemma merge_table_loop_spec:
  assumes "merge_table_loop b l r ts c = Ok (out, c')" and "cc_ok c" and "distinct ts"
  shows "later c c' \<and> (cc_count c' = 0 \<longrightarrow> (\<exists>w. out = kept w ts \<and>
    (\<forall>t \<in> set ts. entry_merged table_merged (bm_get b t) (bm_get l t) (bm_get r t) (w t))))"
  using assms
proof (induction ts arbitrary: c c' out)
  case (Cons t ts)
  obtain x c1 where entry: "merge_table_entry t (bm_get b t) (bm_get l t) (bm_get r t) c = (x, c1)" by fastforce
  note e = merge_table_entry_spec [OF entry Cons.prems(2)]
  then have ok1: "cc_ok c1" using later_ok Cons.prems(2) by blast
  from Cons.prems(1) entry obtain rest where loop: "merge_table_loop b l r ts c1 = Ok (rest, c')"
    and out: "out = (case x of None \<Rightarrow> [] | Some y \<Rightarrow> [y]) @ rest"
    by (auto simp: Let_def split: if_splits sum.splits)
  have d: "distinct ts" "t \<notin> set ts" using Cons.prems(3) by simp_all
  note IH = Cons.IH [OF loop ok1 d(1)]
  have "\<exists>w. out = kept w (t # ts) \<and>
      (\<forall>t \<in> set (t # ts). entry_merged table_merged (bm_get b t) (bm_get l t) (bm_get r t) (w t))" if clean: "cc_count c' = 0"
  proof -
    from IH clean obtain w where w: "rest = kept w ts"
      "\<forall>t \<in> set ts. entry_merged table_merged (bm_get b t) (bm_get l t) (bm_get r t) (w t)" by blast
    have "c' = c1" using IH clean later_clean by blast
    with e clean have "entry_merged table_merged (bm_get b t) (bm_get l t) (bm_get r t) x" by simp
    moreover have "kept (w(t := x)) ts = kept w ts"
      using d(2) by (intro arg_cong [where f = concat] map_cong) auto
    ultimately show ?thesis
      using w d(2) out by (intro exI [of _ "w(t := x)"]) auto
  qed
  with IH e later_trans show ?case by blast
qed simp

lemma field_name_loop_spec:
  assumes "cc_ok c" and "set names \<subseteq> N"
  shows "later c (field_name_loop t names fs c) \<and> (cc_count (field_name_loop t names fs c) = 0 \<longrightarrow>
    distinct (map f_name fs) \<and> f_name ` set fs \<inter> set names = {})"
  using assms
proof (induction fs arbitrary: c names N)
  case (Cons f fs)
  show ?case
  proof (cases "f_name f \<in> set names")
    case True
    note p = collector [OF Cons.prems(1), of "DuplicateFieldName t (f_id f) (f_name f)"]
    from Cons.IH [OF later_ok [OF p(1) Cons.prems(1)] subset_refl, of names]
    show ?thesis using True p later_trans later_clean by (auto simp: later_def)
  next
    case False
    with Cons.IH [OF Cons.prems(1) subset_refl, of "bs_insert (f_name f) names"] show ?thesis by auto
  qed
qed simp

lemma table_name_loop_spec:
  assumes "table_name_loop names ts c = Ok c'" and "cc_ok c"
  shows "later c c' \<and> (cc_count c' = 0 \<longrightarrow> distinct (map t_name ts) \<and>
    (\<forall>t \<in> set ts. bm_get names (t_name t) = None \<and> distinct (map f_name (t_fields t))))"
  using assms
proof (induction ts arbitrary: names c)
  case (Cons t ts)
  define c1 where "c1 = (case bm_get names (t_name t) of None \<Rightarrow> c
      | Some previous \<Rightarrow> cc_push (DuplicateTableName (t_name t) [previous, t_id t]) c)"
  define c2 where "c2 = field_name_loop (t_id t) [] (t_fields t) c1"
  have p1: "later c c1 \<and> (cc_count c1 = 0 \<longrightarrow> bm_get names (t_name t) = None)"
    using collector [OF Cons.prems(2)] by (auto simp: c1_def split: option.splits)
  then have ok1: "cc_ok c1" using later_ok Cons.prems(2) by blast
  have p2: "later c1 c2 \<and> (cc_count c2 = 0 \<longrightarrow> distinct (map f_name (t_fields t)))"
    using field_name_loop_spec [OF ok1, of "[]" "{}" "t_id t" "t_fields t"] by (simp add: c2_def)
  then have ok2: "cc_ok c2" using later_ok ok1 by blast
  have loop: "table_name_loop (bm_insert (t_name t) (t_id t) names) ts c2 = Ok c'"
    using Cons.prems(1) by (simp add: Let_def c1_def c2_def split: if_splits)
  note IH = Cons.IH [OF loop ok2]
  have "later c c'" using p1 p2 IH later_trans by meson
  moreover have "c2 = c' \<and> c1 = c2" if "cc_count c' = 0"
    using that p2 IH later_clean by metis
  ultimately show ?case
    using p1 p2 IH by (auto simp: bm_get_insert split: if_splits)
qed simp

lemma merge_schema_Ok:
  assumes "merge_schema_bounded dbg vtag base left right n = Ok m" and "0 \<le> n"
  defines "bt \<equiv> tables_by_id base" and "lt \<equiv> tables_by_id left" and "rt \<equiv> tables_by_id right"
  obtains w where "s_tables m = kept w (union_ids bt lt rt)"
    and "\<forall>t \<in> set (union_ids bt lt rt). entry_merged table_merged (bm_get bt t) (bm_get lt t) (bm_get rt t) (w t)"
    and "distinct (map t_name (s_tables m))" and "\<forall>t \<in> set (s_tables m). distinct (map f_name (t_fields t))"
    and "is_ok (validate_schema vtag m To fence_V1)"
    and "choose_side (s_version base) (s_version left) (s_version right) = Ok (s_version m)"
proof -
  have ok: "cc_ok (cc_new n)" using assms(2) by (simp add: cc_ok_def cc_new_def)
  from assms(1) obtain version tables c1 c2 where
    v: "choose_side (s_version base) (s_version left) (s_version right) = Ok version"
    and tl: "merge_table_loop bt lt rt (union_ids bt lt rt) (cc_new n) = Ok (tables, c1)"
    and nl: "table_name_loop [] tables c1 = Ok c2"
    and m: "m = \<lparr>s_version = version, s_tables = tables\<rparr>"
    and fin: "\<not> cc_has_conflicts (if is_ok (validate_schema vtag m To fence_V1) then c2 else cc_push InvalidMergedSchema c2)"
    by (auto simp: merge_schema_bounded_def Let_def bt_def lt_def rt_def split: sum.splits if_splits)
  have d: "distinct (union_ids bt lt rt)" using union_ids_sorted strict_sorted_iff by blast
  note p1 = merge_table_loop_spec [OF tl ok d]
  have ok1: "cc_ok c1" using p1 later_ok ok by blast
  note p2 = table_name_loop_spec [OF nl ok1]
  have ok2: "cc_ok c2" using p2 later_ok ok1 by blast
  have valid: "is_ok (validate_schema vtag m To fence_V1)" and clean: "cc_count c2 = 0"
    using fin push_not_clean [OF ok2] by (auto simp: cc_has_conflicts_def split: if_splits)
  have "c2 = c1" using p2 clean later_clean by blast
  with p1 p2 clean obtain w where "tables = kept w (union_ids bt lt rt)"
    "\<forall>t \<in> set (union_ids bt lt rt). entry_merged table_merged (bm_get bt t) (bm_get lt t) (bm_get rt t) (w t)"
    "distinct (map t_name tables)" "\<forall>t \<in> set tables. distinct (map f_name (t_fields t))" by auto
  with that valid v show thesis by (simp add: m)
qed

text \<open>
  C9. Merging schemas. The merge treats its branches alike: swapping them changes neither the
  merged schema nor the failure. An accepted merge is a valid schema in which no two tables share a name
  and no two fields of a table do. It decided every table and every field by the three-way
  choice: what only one branch added, removed or changed is taken over, what both branches left alone
  stays, what both changed alike is taken once, and a table or field that all three have is
  decided property by property.
\<close>

theorem schema_merge_three_way:
  "merge_schema_bounded dbg vtag base left right n = merge_schema_bounded dbg vtag base right left n \<and>
   (0 \<le> n \<and> merge_schema_bounded dbg vtag base left right n = Ok m \<longrightarrow>
      is_ok (validate_schema vtag m To fence_V1) \<and>
      distinct (map t_name (s_tables m)) \<and> (\<forall>t \<in> set (s_tables m). distinct (map f_name (t_fields t))) \<and>
      (\<forall>t. entry_merged table_merged (bm_get (tables_by_id base) t) (bm_get (tables_by_id left) t)
         (bm_get (tables_by_id right) t) (bm_get (tables_by_id m) t)))"
proof (intro conjI impI merge_schema_bounded_swap; (elim conjE)?)
  assume n: "0 \<le> n" and m: "merge_schema_bounded dbg vtag base left right n = Ok m"
  let ?bt = "tables_by_id base" and ?lt = "tables_by_id left" and ?rt = "tables_by_id right"
  from merge_schema_Ok [OF m n] obtain w where w: "s_tables m = kept w (union_ids ?bt ?lt ?rt)"
    "\<forall>t \<in> set (union_ids ?bt ?lt ?rt). entry_merged table_merged (bm_get ?bt t) (bm_get ?lt t) (bm_get ?rt t) (w t)"
    and names: "distinct (map t_name (s_tables m))" "\<forall>t \<in> set (s_tables m). distinct (map f_name (t_fields t))"
    and valid: "is_ok (validate_schema vtag m To fence_V1)" by metis
  show "is_ok (validate_schema vtag m To fence_V1)" "distinct (map t_name (s_tables m))"
    "\<forall>t \<in> set (s_tables m). distinct (map f_name (t_fields t))" by fact+
  have d: "distinct (union_ids ?bt ?lt ?rt)" using union_ids_sorted strict_sorted_iff by blast
  have ids: "t_id y = t" if "t \<in> set (union_ids ?bt ?lt ?rt)" "w t = Some y" for t y
  proof -
    from bspec [OF w(2) that(1)] that(2)
    have "entry_merged table_merged (bm_get ?bt t) (bm_get ?lt t) (bm_get ?rt t) (Some y)" by simp
    then show ?thesis
      by (rule entry_id) (simp add: table_merged_def | erule tables_by_id_key)+
  qed
  have "bm_get (tables_by_id m) t = (if t \<in> set (union_ids ?bt ?lt ?rt) then w t else None)" for t
    unfolding tables_by_id_def [of m] w(1) by (rule kept_by_id [OF d ids])
  then show "\<forall>t. entry_merged table_merged (bm_get ?bt t) (bm_get ?lt t) (bm_get ?rt t) (bm_get (tables_by_id m) t)"
    using w(2) entry_outside [of _ ?bt ?lt ?rt] by simp
qed

section \<open>Witness\<close>

definition merge_left :: schema where
  "merge_left = sample_from\<lparr>s_tables := map (\<lambda>t. t\<lparr>t_name := t_name t @ ''s''\<rparr>) (s_tables sample_from)\<rparr>"

definition merge_right :: schema where
  "merge_right = sample_from\<lparr>s_tables := map (\<lambda>t. t\<lparr>t_fields := t_fields t @ [sample_field 9 ''note'' Stored True None]\<rparr>)
     (s_tables sample_from)\<rparr>"

definition merged_sample :: schema where
  "merged_sample = (case merge_schema_bounded (\<lambda>_. []) closed_registry sample_from merge_left merge_right 5 of
     Inr m \<Rightarrow> m | Inl _ \<Rightarrow> sample_from)"

theorem schema_merge_three_way_witness:
  "map t_name (s_tables merged_sample) = [''Contacts'', ''Gones''] \<and>
   entry_merged table_merged (bm_get (tables_by_id sample_from) (sample_id 1)) (bm_get (tables_by_id merge_left) (sample_id 1))
     (bm_get (tables_by_id merge_right) (sample_id 1)) (bm_get (tables_by_id merged_sample) (sample_id 1))"
proof -
  have "merge_schema_bounded (\<lambda>_. []) closed_registry sample_from merge_left merge_right 5 = Ok merged_sample"
    by code_simp
  moreover have "map t_name (s_tables merged_sample) = [''Contacts'', ''Gones'']" by code_simp
  ultimately show ?thesis
    using schema_merge_three_way [of "\<lambda>_. []" closed_registry sample_from merge_left merge_right 5 merged_sample] by simp
qed

end
