(* ===== verification/Orna_Serving.thy ===== *)
theory Orna_Serving
  imports Orna_Prelude
begin

text \<open>
  Bounded serving state: \<open>crates/orna-serving/src/lib.rs\<close>.

  A \<open>Serving\<close> value maps session identities to sessions; a session holds its page, the retained page
  revisions, its watches and its requests. Every method takes the state and returns its result with
  the state it leaves behind. \<open>with_session\<close> is the \<open>session_mut\<close> borrow followed by the body of the
  method: the body may change the session and still fail, as the deletion reports do.

  A \<open>usize\<close> limit is a \<open>nat\<close>: it is compared with container lengths only. Revisions and action sequences are
  \<open>u64\<close>. Of a protocol message the crate inspects the constructor, and the target of a
  cancellation; the remaining payloads are the type parameter \<open>'p\<close>.
\<close>

section \<open>Data\<close>

type_synonym serving_id = "u8 list"

record limits =
  max_sessions :: nat
  max_replay :: nat
  max_page_entries :: nat
  max_watches_per_session :: nat
  max_requests_per_session :: nat
  max_actions_per_watch :: u64

datatype serving_error =
  InvalidLimits | MalformedAdmission | SessionExists | SessionUnknown | SessionClosed
  | CredentialRejected | CredentialDeletionFailed | OriginDeletionFailed | SessionLimit | WatchLimit
  | WatchUnknown | ReplayRequired | RevisionMismatch | ActionSequenceMismatch | ActionLimit
  | RequestUnknown | RequestTerminal | RequestLimit | PatchMalformed | PageLimit

definition limits_default :: limits where
  "limits_default =
     \<lparr>max_sessions = 1024, max_replay = 256, max_page_entries = 10000, max_watches_per_session = 64,
      max_requests_per_session = 4096, max_actions_per_watch = 1000000\<rparr>"

definition limits_validate :: "limits \<Rightarrow> (serving_error, limits) result" where
  "limits_validate l =
     (if max_sessions l = 0 \<or> max_replay l = 0 \<or> max_page_entries l = 0
         \<or> max_watches_per_session l = 0 \<or> max_requests_per_session l = 0 \<or> max_actions_per_watch l = 0
      then Err InvalidLimits else Ok l)"

fun serving_error_code :: "serving_error \<Rightarrow> string" where
  "serving_error_code InvalidLimits = ''serving.invalid_limits''"
| "serving_error_code MalformedAdmission = ''serving.malformed_admission''"
| "serving_error_code SessionExists = ''serving.session_exists''"
| "serving_error_code SessionUnknown = ''serving.session_unknown''"
| "serving_error_code SessionClosed = ''serving.session_closed''"
| "serving_error_code CredentialRejected = ''serving.credential_rejected''"
| "serving_error_code CredentialDeletionFailed = ''serving.credential_deletion_failed''"
| "serving_error_code OriginDeletionFailed = ''serving.origin_deletion_failed''"
| "serving_error_code SessionLimit = ''serving.session_limit''"
| "serving_error_code WatchLimit = ''serving.watch_limit''"
| "serving_error_code WatchUnknown = ''serving.watch_unknown''"
| "serving_error_code ReplayRequired = ''serving.replay_required''"
| "serving_error_code RevisionMismatch = ''serving.revision_mismatch''"
| "serving_error_code ActionSequenceMismatch = ''serving.action_sequence_mismatch''"
| "serving_error_code ActionLimit = ''serving.action_limit''"
| "serving_error_code RequestUnknown = ''serving.request_unknown''"
| "serving_error_code RequestTerminal = ''serving.request_terminal''"
| "serving_error_code RequestLimit = ''serving.request_limit''"
| "serving_error_code PatchMalformed = ''serving.patch_malformed''"
| "serving_error_code PageLimit = ''serving.page_limit''"

type_synonym serving_credential = "u8 list"

fun credential_difference :: "u8 \<Rightarrow> u8 list \<Rightarrow> u8 list \<Rightarrow> u8" where
  "credential_difference d (a # as) (b # bs) = credential_difference (or d (xor a b)) as bs"
| "credential_difference d _ _ = d"

definition credentials_equal :: "serving_credential \<Rightarrow> serving_credential \<Rightarrow> bool" where
  "credentials_equal left right \<longleftrightarrow> credential_difference 0 left right = 0"

datatype serving_patch = Set (patch_key: string) string | Remove (patch_key: string)

record retained_pin =
  pin_revision :: u64
  pin_fingerprint :: "u8 list"

type_synonym page = "(string, string) btree_map"

record page_revision =
  revision :: u64
  page_of :: page
  pin :: retained_pin

datatype request_state = Reserved | Running | Cancelled | Completed

fun terminal :: "request_state \<Rightarrow> bool" where
  "terminal Cancelled = True"
| "terminal Completed = True"
| "terminal _ = False"

record watch =
  watch_revision :: u64
  next_action :: u64

record served_session =
  credential :: serving_credential
  origin :: serving_id
  connected :: bool
  closed :: bool
  page :: page
  retained :: "page_revision list"
  watches :: "(serving_id, watch) btree_map"
  requests :: "(serving_id, request_state) btree_map"

record serving =
  serving_limits :: limits
  sessions :: "(serving_id, served_session) btree_map"

text \<open>The protocol vocabulary the crate consumes: \<open>orna_protocol::{Envelope, Message, TargetKind}\<close>.\<close>

datatype target_kind = TargetRequest | TargetWatch

datatype 'p message =
  Subscribe 'p | Unsubscribe | Resync | Event 'p | Eval 'p | Watch 'p | Cancel target_kind serving_id
  | RequestStatus 'p | Snapshot 'p | Delta 'p | ResultMessage 'p | Diagnostic 'p | RequestStatusResult 'p

record 'p envelope =
  env_request :: "serving_id option"
  env_watch :: "serving_id option"
  env_message :: "'p message"

section \<open>Operations\<close>

definition serving_new :: "limits \<Rightarrow> (serving_error, serving) result" where
  "serving_new l =
     (case limits_validate l of Inl e \<Rightarrow> Err e | Inr v \<Rightarrow> Ok \<lparr>serving_limits = v, sessions = []\<rparr>)"

definition serving_session :: "serving \<Rightarrow> serving_id \<Rightarrow> (serving_error, served_session) result" where
  "serving_session st sid =
     (case bm_get (sessions st) sid of
        None \<Rightarrow> Err SessionUnknown
      | Some s \<Rightarrow> if closed s then Err SessionClosed else Ok s)"

definition with_session ::
  "serving_id \<Rightarrow> (served_session \<Rightarrow> (serving_error, 'r) result \<times> served_session) \<Rightarrow> serving
     \<Rightarrow> (serving_error, 'r) result \<times> serving" where
  "with_session sid body st =
     (case serving_session st sid of
        Inl e \<Rightarrow> (Err e, st)
      | Inr s \<Rightarrow> (case body s of (r, s') \<Rightarrow> (r, st\<lparr>sessions := bm_insert sid s' (sessions st)\<rparr>)))"

fun is_subscribe :: "'p message \<Rightarrow> bool" where
  "is_subscribe (Subscribe _) = True"
| "is_subscribe _ = False"

definition serving_admit ::
  "serving_id \<Rightarrow> serving_credential \<Rightarrow> serving_id \<Rightarrow> 'p envelope \<Rightarrow> serving
     \<Rightarrow> (serving_error, unit) result \<times> serving" where
  "serving_admit sid cred orig envelope st =
     (if \<not> is_subscribe (env_message envelope) \<or> env_request envelope = None \<or> env_watch envelope \<noteq> None
      then (Err MalformedAdmission, st)
      else if bm_contains (sessions st) sid then (Err SessionExists, st)
      else if length (sessions st) = max_sessions (serving_limits st) then (Err SessionLimit, st)
      else (Ok (),
            st\<lparr>sessions := bm_insert sid
                 \<lparr>credential = cred, origin = orig, connected = True, closed = False, page = [],
                  retained = [], watches = [], requests = []\<rparr> (sessions st)\<rparr>))"

definition serving_disconnect :: "serving_id \<Rightarrow> serving \<Rightarrow> (serving_error, unit) result \<times> serving" where
  "serving_disconnect sid = with_session sid (\<lambda>s. (Ok (), s\<lparr>connected := False\<rparr>))"

definition serving_reconnect ::
  "serving_id \<Rightarrow> serving_credential \<Rightarrow> serving \<Rightarrow> (serving_error, unit) result \<times> serving" where
  "serving_reconnect sid cred = with_session sid (\<lambda>s.
     if \<not> credentials_equal (credential s) cred then (Err CredentialRejected, s)
     else (Ok (), s\<lparr>connected := True\<rparr>))"

definition serving_validate_reconnect ::
  "serving_id \<Rightarrow> serving_credential \<Rightarrow> serving \<Rightarrow> (serving_error, unit) result" where
  "serving_validate_reconnect sid cred st =
     (case serving_session st sid of
        Inl e \<Rightarrow> Err e
      | Inr s \<Rightarrow> if \<not> credentials_equal (credential s) cred then Err CredentialRejected else Ok ())"

definition serving_rotate_credential ::
  "serving_id \<Rightarrow> serving_credential \<Rightarrow> serving_credential \<Rightarrow> serving
     \<Rightarrow> (serving_error, unit) result \<times> serving" where
  "serving_rotate_credential sid current replacement = with_session sid (\<lambda>s.
     if \<not> credentials_equal (credential s) current then (Err CredentialRejected, s)
     else (Ok (), s\<lparr>credential := replacement\<rparr>))"

definition deque_back :: "'a list \<Rightarrow> 'a option" where
  "deque_back xs = (if xs = [] then None else Some (last xs))"

definition deque_front :: "'a list \<Rightarrow> 'a option" where
  "deque_front xs = (if xs = [] then None else Some (hd xs))"

definition current_revision :: "served_session \<Rightarrow> u64" where
  "current_revision s = (case deque_back (retained s) of None \<Rightarrow> 0 | Some entry \<Rightarrow> revision entry)"

definition serving_retain_pin :: "serving_id \<Rightarrow> serving \<Rightarrow> (serving_error, retained_pin option) result" where
  "serving_retain_pin sid st =
     (case serving_session st sid of
        Inl e \<Rightarrow> Err e
      | Inr s \<Rightarrow> Ok (map_option pin (deque_back (retained s))))"

definition serving_resync ::
  "serving_id \<Rightarrow> u64 \<Rightarrow> serving \<Rightarrow> (serving_error, page_revision list) result \<times> serving" where
  "serving_resync sid after = with_session sid (\<lambda>s.
     if \<not> connected s then (Err SessionClosed, s)
     else if (case deque_front (retained s) of None \<Rightarrow> False
              | Some entry \<Rightarrow> saturating_add after 1 < revision entry)
     then (Err ReplayRequired, s)
     else (Ok (filter (\<lambda>entry. after < revision entry) (retained s)), s))"

text \<open>The patch loop: the candidate page and the set of touched keys.\<close>

fun patch_loop :: "serving_patch list \<Rightarrow> page \<Rightarrow> string btree_set \<Rightarrow> (serving_error, page) result" where
  "patch_loop [] candidate touched = Ok candidate"
| "patch_loop (p # ps) candidate touched =
     (if patch_key p = [] \<or> bs_contains touched (patch_key p) then Err PatchMalformed
      else (case p of
              Set key v \<Rightarrow> patch_loop ps (bm_insert key v candidate) (bs_insert key touched)
            | Remove key \<Rightarrow>
                if \<not> bm_contains candidate key then Err PatchMalformed
                else patch_loop ps (bm_remove key candidate) (bs_insert key touched)))"

definition serving_apply_patch ::
  "serving_id \<Rightarrow> u64 \<Rightarrow> u64 \<Rightarrow> serving_patch list \<Rightarrow> retained_pin \<Rightarrow> serving
     \<Rightarrow> (serving_error, unit) result \<times> serving" where
  "serving_apply_patch sid base new patches p st = with_session sid (\<lambda>s.
     if base \<noteq> current_revision s \<or> new \<le> base then (Err RevisionMismatch, s)
     else if pin_revision p \<noteq> new then (Err RevisionMismatch, s)
     else (case patch_loop patches (page s) [] of
             Inl e \<Rightarrow> (Err e, s)
           | Inr candidate \<Rightarrow>
               if max_page_entries (serving_limits st) < length candidate then (Err PageLimit, s)
               else
                 let pushed = retained s @ [\<lparr>revision = new, page_of = candidate, pin = p\<rparr>]
                 in (Ok (),
                     s\<lparr>page := candidate,
                       watches := map (\<lambda>(w, x). (w, x\<lparr>watch_revision := new\<rparr>)) (watches s),
                       retained := (if max_replay (serving_limits st) < length pushed then tl pushed else pushed)\<rparr>)))
     st"

definition serving_open_watch ::
  "serving_id \<Rightarrow> serving_id \<Rightarrow> u64 \<Rightarrow> serving \<Rightarrow> (serving_error, unit) result \<times> serving" where
  "serving_open_watch sid wid at st = with_session sid (\<lambda>s.
     if \<not> connected s then (Err SessionClosed, s)
     else if bm_contains (watches s) wid \<or> length (watches s) = max_watches_per_session (serving_limits st)
     then (Err WatchLimit, s)
     else if at \<noteq> current_revision s then (Err RevisionMismatch, s)
     else (Ok (), s\<lparr>watches := bm_insert wid \<lparr>watch_revision = at, next_action = 0\<rparr> (watches s)\<rparr>)) st"

definition serving_close_watch ::
  "serving_id \<Rightarrow> serving_id \<Rightarrow> serving \<Rightarrow> (serving_error, unit) result \<times> serving" where
  "serving_close_watch sid wid = with_session sid (\<lambda>s. (Ok (), s\<lparr>watches := bm_remove wid (watches s)\<rparr>))"

definition serving_action ::
  "serving_id \<Rightarrow> serving_id \<Rightarrow> u64 \<Rightarrow> u64 \<Rightarrow> serving \<Rightarrow> (serving_error, unit) result \<times> serving" where
  "serving_action sid wid at sequence st = with_session sid (\<lambda>s.
     if \<not> connected s then (Err SessionClosed, s)
     else (case bm_get (watches s) wid of
             None \<Rightarrow> (Err WatchUnknown, s)
           | Some w \<Rightarrow>
               if at \<noteq> watch_revision w then (Err RevisionMismatch, s)
               else if sequence \<noteq> next_action w then (Err ActionSequenceMismatch, s)
               else if max_actions_per_watch (serving_limits st) \<le> sequence then (Err ActionLimit, s)
               else (Ok (), s\<lparr>watches := bm_insert wid (w\<lparr>next_action := next_action w + 1\<rparr>) (watches s)\<rparr>))) st"

definition serving_reserve_request ::
  "serving_id \<Rightarrow> serving_id \<Rightarrow> serving \<Rightarrow> (serving_error, unit) result \<times> serving" where
  "serving_reserve_request sid rid st = with_session sid (\<lambda>s.
     if \<not> connected s then (Err SessionClosed, s)
     else if bm_contains (requests s) rid then (Err RequestTerminal, s)
     else if max_requests_per_session (serving_limits st) \<le> length (requests s) then (Err RequestLimit, s)
     else (Ok (), s\<lparr>requests := bm_insert rid Reserved (requests s)\<rparr>)) st"

text \<open>The three request transitions share the borrow of the request's state.\<close>

definition with_request ::
  "serving_id \<Rightarrow> (request_state \<Rightarrow> bool) \<Rightarrow> request_state \<Rightarrow> served_session \<Rightarrow> (serving_error, unit) result \<times> served_session" where
  "with_request rid admits becomes s =
     (case bm_get (requests s) rid of
        None \<Rightarrow> (Err RequestUnknown, s)
      | Some r \<Rightarrow>
          if \<not> admits r then (Err RequestTerminal, s)
          else (Ok (), s\<lparr>requests := bm_insert rid becomes (requests s)\<rparr>))"

definition serving_start_request ::
  "serving_id \<Rightarrow> serving_id \<Rightarrow> serving \<Rightarrow> (serving_error, unit) result \<times> serving" where
  "serving_start_request sid rid = with_session sid (with_request rid (\<lambda>r. r = Reserved) Running)"

definition serving_complete_request ::
  "serving_id \<Rightarrow> serving_id \<Rightarrow> serving \<Rightarrow> (serving_error, unit) result \<times> serving" where
  "serving_complete_request sid rid =
     with_session sid (with_request rid (\<lambda>r. r = Reserved \<or> r = Running) Completed)"

definition serving_cancel_request ::
  "serving_id \<Rightarrow> serving_id \<Rightarrow> serving \<Rightarrow> (serving_error, unit) result \<times> serving" where
  "serving_cancel_request sid rid = with_session sid (with_request rid (\<lambda>r. \<not> terminal r) Cancelled)"

definition serving_request_state ::
  "serving_id \<Rightarrow> serving_id \<Rightarrow> serving \<Rightarrow> (serving_error, request_state) result" where
  "serving_request_state sid rid st =
     (case serving_session st sid of
        Inl e \<Rightarrow> Err e
      | Inr s \<Rightarrow> (case bm_get (requests s) rid of None \<Rightarrow> Err RequestUnknown | Some r \<Rightarrow> Ok r))"

definition serving_credential_deleted ::
  "serving_id \<Rightarrow> bool \<Rightarrow> serving \<Rightarrow> (serving_error, unit) result \<times> serving" where
  "serving_credential_deleted sid deleted = with_session sid (\<lambda>s.
     if \<not> deleted then (Err CredentialDeletionFailed, s\<lparr>closed := True, connected := False\<rparr>)
     else (Ok (), s\<lparr>closed := True, connected := False\<rparr>))"

definition serving_origin_deleted ::
  "serving_id \<Rightarrow> serving_id \<Rightarrow> bool \<Rightarrow> serving \<Rightarrow> (serving_error, unit) result \<times> serving" where
  "serving_origin_deleted sid orig deleted = with_session sid (\<lambda>s.
     if origin s \<noteq> orig \<or> \<not> deleted then (Err OriginDeletionFailed, s\<lparr>closed := True, connected := False\<rparr>)
     else (Ok (), s\<lparr>closed := True, connected := False\<rparr>))"

definition cancel_addressed :: "'p envelope \<Rightarrow> serving_id \<Rightarrow> bool" where
  "cancel_addressed envelope target \<longleftrightarrow>
     env_request envelope \<noteq> None \<and> env_watch envelope = None \<and> env_request envelope \<noteq> Some target"

definition serving_cancel_envelope ::
  "serving_id \<Rightarrow> 'p envelope \<Rightarrow> serving \<Rightarrow> (serving_error, unit) result \<times> serving" where
  "serving_cancel_envelope sid envelope st =
     (case env_message envelope of
        Cancel kind target \<Rightarrow>
          if cancel_addressed envelope target then
            (case kind of
               TargetRequest \<Rightarrow> serving_cancel_request sid target st
             | TargetWatch \<Rightarrow> serving_close_watch sid target st)
          else (Err MalformedAdmission, st)
      | _ \<Rightarrow> (Err MalformedAdmission, st))"

end
