(* ===== verification/Orna_Serving_Laws.thy ===== *)
theory Orna_Serving_Laws
  imports Orna_Serving
begin

text \<open>
  Laws of the serving state.

  \<open>session_step\<close> is the abstract life of one session: a step relation labelled with the page revisions
  the step publishes. Every call of the API moves each session by at most one such step
  (\<open>serving_do_moves\<close>), so the properties are proved by cases on the step rules: the bounded-state
  invariant, the completeness of a resynchronisation, and what never changes again.
\<close>

section \<open>Calls\<close>

datatype 'p serving_call =
  Admit serving_id serving_credential serving_id "'p envelope"
  | Disconnect serving_id
  | Reconnect serving_id serving_credential
  | RotateCredential serving_id serving_credential serving_credential
  | ResyncCall serving_id u64
  | ApplyPatch serving_id u64 u64 "serving_patch list" retained_pin
  | OpenWatch serving_id serving_id u64
  | CloseWatch serving_id serving_id
  | Action serving_id serving_id u64 u64
  | ReserveRequest serving_id serving_id
  | StartRequest serving_id serving_id
  | CompleteRequest serving_id serving_id
  | CancelRequest serving_id serving_id
  | CredentialDeleted serving_id bool
  | OriginDeleted serving_id serving_id bool
  | CancelEnvelope serving_id "'p envelope"

fun serving_do :: "'p serving_call \<Rightarrow> serving \<Rightarrow> serving" where
  "serving_do (Admit sid cred orig envelope) st = snd (serving_admit sid cred orig envelope st)"
| "serving_do (Disconnect sid) st = snd (serving_disconnect sid st)"
| "serving_do (Reconnect sid cred) st = snd (serving_reconnect sid cred st)"
| "serving_do (RotateCredential sid c d) st = snd (serving_rotate_credential sid c d st)"
| "serving_do (ResyncCall sid n) st = snd (serving_resync sid n st)"
| "serving_do (ApplyPatch sid base new ps p) st = snd (serving_apply_patch sid base new ps p st)"
| "serving_do (OpenWatch sid wid at) st = snd (serving_open_watch sid wid at st)"
| "serving_do (CloseWatch sid wid) st = snd (serving_close_watch sid wid st)"
| "serving_do (Action sid wid at n) st = snd (serving_action sid wid at n st)"
| "serving_do (ReserveRequest sid rid) st = snd (serving_reserve_request sid rid st)"
| "serving_do (StartRequest sid rid) st = snd (serving_start_request sid rid st)"
| "serving_do (CompleteRequest sid rid) st = snd (serving_complete_request sid rid st)"
| "serving_do (CancelRequest sid rid) st = snd (serving_cancel_request sid rid st)"
| "serving_do (CredentialDeleted sid d) st = snd (serving_credential_deleted sid d st)"
| "serving_do (OriginDeleted sid orig d) st = snd (serving_origin_deleted sid orig d st)"
| "serving_do (CancelEnvelope sid envelope) st = snd (serving_cancel_envelope sid envelope st)"

text \<open>The page revisions a call publishes to a session, and those of a sequence of calls.\<close>

fun published :: "serving_id \<Rightarrow> 'p serving_call \<Rightarrow> serving \<Rightarrow> page_revision list" where
  "published x (ApplyPatch sid base new ps p) st =
     (case serving_apply_patch sid base new ps p st of
        (Inr _, st') \<Rightarrow>
          if x = sid then
            (case bm_get (sessions st') sid of
               None \<Rightarrow> []
             | Some s \<Rightarrow> [\<lparr>revision = new, page_of = page s, pin = p\<rparr>])
          else []
      | (Inl _, _) \<Rightarrow> [])"
| "published x _ st = []"

fun publications :: "serving_id \<Rightarrow> 'p serving_call list \<Rightarrow> serving \<Rightarrow> page_revision list" where
  "publications x [] st = []"
| "publications x (c # cs) st = published x c st @ publications x cs (serving_do c st)"

section \<open>The life of a session\<close>

definition publish :: "limits \<Rightarrow> page_revision \<Rightarrow> served_session \<Rightarrow> served_session" where
  "publish l e s = s\<lparr>page := page_of e,
     watches := map (\<lambda>(w, x). (w, x\<lparr>watch_revision := revision e\<rparr>)) (watches s),
     retained := (if max_replay l < length (retained s @ [e]) then tl (retained s @ [e]) else retained s @ [e])\<rparr>"

inductive session_step :: "limits \<Rightarrow> page_revision list \<Rightarrow> served_session \<Rightarrow> served_session \<Rightarrow> bool" for l where
  step_disconnect: "session_step l [] s (s\<lparr>connected := False\<rparr>)"
| step_reconnect: "credentials_equal (credential s) c \<Longrightarrow> session_step l [] s (s\<lparr>connected := True\<rparr>)"
| step_rotate: "credentials_equal (credential s) c \<Longrightarrow> session_step l [] s (s\<lparr>credential := d\<rparr>)"
| step_publish:
    "current_revision s < revision e \<Longrightarrow> pin_revision (pin e) = revision e \<Longrightarrow>
     patch_loop ps (page s) [] = Ok (page_of e) \<Longrightarrow> length (page_of e) \<le> max_page_entries l \<Longrightarrow>
     session_step l [e] s (publish l e s)"
| step_open_watch:
    "connected s \<Longrightarrow> \<not> bm_contains (watches s) w \<Longrightarrow> length (watches s) \<noteq> max_watches_per_session l \<Longrightarrow>
     session_step l [] s
       (s\<lparr>watches := bm_insert w \<lparr>watch_revision = current_revision s, next_action = 0\<rparr> (watches s)\<rparr>)"
| step_close_watch: "session_step l [] s (s\<lparr>watches := bm_remove w (watches s)\<rparr>)"
| step_action:
    "connected s \<Longrightarrow> bm_get (watches s) w = Some x \<Longrightarrow> next_action x < max_actions_per_watch l \<Longrightarrow>
     session_step l [] s (s\<lparr>watches := bm_insert w (x\<lparr>next_action := next_action x + 1\<rparr>) (watches s)\<rparr>)"
| step_reserve:
    "connected s \<Longrightarrow> \<not> bm_contains (requests s) r \<Longrightarrow> length (requests s) < max_requests_per_session l \<Longrightarrow>
     session_step l [] s (s\<lparr>requests := bm_insert r Reserved (requests s)\<rparr>)"
| step_request:
    "bm_get (requests s) r = Some a \<Longrightarrow> \<not> terminal a \<Longrightarrow> a = Reserved \<or> terminal b \<Longrightarrow> b \<noteq> Reserved \<Longrightarrow>
     session_step l [] s (s\<lparr>requests := bm_insert r b (requests s)\<rparr>)"
| step_close: "session_step l [] s (s\<lparr>closed := True, connected := False\<rparr>)"

inductive_cases session_step_emitsE: "session_step l [e] s t"

definition moves :: "limits \<Rightarrow> page_revision list \<Rightarrow> served_session \<Rightarrow> served_session \<Rightarrow> bool" where
  "moves l out s t \<longleftrightarrow> t = s \<and> out = [] \<or> \<not> closed s \<and> session_step l out s t"

definition fresh_session :: "served_session \<Rightarrow> bool" where
  "fresh_session s \<longleftrightarrow>
     \<not> closed s \<and> page s = [] \<and> retained s = [] \<and> watches s = [] \<and> requests s = []"

text \<open>How one session appears, stays or moves under a call.\<close>

definition session_moves :: "limits \<Rightarrow> page_revision list \<Rightarrow> served_session option \<Rightarrow> served_session option \<Rightarrow> bool" where
  "session_moves l out before after =
     (case before of
        None \<Rightarrow> out = [] \<and> (case after of None \<Rightarrow> True | Some t \<Rightarrow> fresh_session t)
      | Some s \<Rightarrow> (case after of None \<Rightarrow> False | Some t \<Rightarrow> moves l out s t))"

lemma session_moves_refl [simp]: "session_moves l [] x x"
  by (simp add: session_moves_def moves_def split: option.splits)

lemma with_session_moves:
  assumes "\<And>s. \<not> closed s \<Longrightarrow> moves l [] s (snd (body s))"
  shows "session_moves l [] (bm_get (sessions st) x) (bm_get (sessions (snd (with_session sid body st))) x)"
  using assms
  by (auto simp: with_session_def serving_session_def session_moves_def bm_get_insert moves_def
      split: option.splits sum.splits prod.splits) (metis snd_conv)+

lemma with_request_moves:
  assumes "\<And>a. admits a \<Longrightarrow> \<not> terminal a \<and> (a = Reserved \<or> terminal b)" and "b \<noteq> Reserved" and "\<not> closed s"
  shows "moves l [] s (snd (with_request r admits b s))"
  using assms by (auto simp: with_request_def moves_def split: option.splits intro: step_request)

lemma cancel_envelope_cases:
  "snd (serving_cancel_envelope sid envelope st) = st
   \<or> (\<exists>r. snd (serving_cancel_envelope sid envelope st) = snd (serving_cancel_request sid r st))
   \<or> (\<exists>w. snd (serving_cancel_envelope sid envelope st) = snd (serving_close_watch sid w st))"
  by (auto simp: serving_cancel_envelope_def split: message.splits target_kind.splits)

lemma close_watch_moves:
  "session_moves l [] (bm_get (sessions st) x) (bm_get (sessions (snd (serving_close_watch sid w st))) x)"
  unfolding serving_close_watch_def
  by (rule with_session_moves) (auto simp: moves_def intro: step_close_watch)

lemma cancel_request_moves:
  "session_moves l [] (bm_get (sessions st) x) (bm_get (sessions (snd (serving_cancel_request sid r st))) x)"
  unfolding serving_cancel_request_def
  by (rule with_session_moves, rule with_request_moves) auto

lemma cancel_envelope_moves:
  "session_moves l [] (bm_get (sessions st) x) (bm_get (sessions (snd (serving_cancel_envelope sid envelope st))) x)"
  using cancel_envelope_cases [of sid envelope st] close_watch_moves cancel_request_moves by auto

lemma admit_moves:
  "session_moves l [] (bm_get (sessions st) x) (bm_get (sessions (snd (serving_admit sid c orig envelope st))) x)"
  by (auto simp: serving_admit_def session_moves_def moves_def bm_get_insert bm_contains_get fresh_session_def
      split: option.splits)

lemma apply_patch_moves:
  "session_moves (serving_limits st) (published x (ApplyPatch sid base new ps p) st) (bm_get (sessions st) x)
     (bm_get (sessions (snd (serving_apply_patch sid base new ps p st))) x)"
proof (cases "serving_session st sid")
  case (Inl e)
  then show ?thesis by (simp add: serving_apply_patch_def with_session_def)
next
  case (Inr s)
  then have get: "bm_get (sessions st) sid = Some s" and s: "\<not> closed s"
    by (auto simp: serving_session_def split: option.splits if_splits)
  show ?thesis
  proof (cases "fst (serving_apply_patch sid base new ps p st)")
    case (Inl e)
    with Inr get show ?thesis
      by (auto simp: serving_apply_patch_def with_session_def session_moves_def moves_def bm_get_insert Let_def
          split: option.splits if_splits sum.splits)
  next
    case r: (Inr u)
    let ?l = "serving_limits st"
    from r Inr obtain c where ok: "base = current_revision s" "base < new" "pin_revision p = new"
        "patch_loop ps (page s) [] = Ok c" "length c \<le> max_page_entries ?l"
      by (auto simp: serving_apply_patch_def with_session_def split: if_splits sum.splits)
    define e where "e = \<lparr>revision = new, page_of = c, pin = p\<rparr>"
    define t where "t = publish ?l e s"
    have eq: "serving_apply_patch sid base new ps p st = (Ok (), st\<lparr>sessions := bm_insert sid t (sessions st)\<rparr>)"
      using Inr ok by (simp add: serving_apply_patch_def with_session_def t_def publish_def e_def Let_def)
    have "session_step ?l [e] s t"
      unfolding t_def using ok by (intro step_publish) (auto simp: e_def)
    moreover have "page t = c" by (simp add: t_def publish_def e_def)
    ultimately show ?thesis
      using s get by (auto simp: eq session_moves_def moves_def bm_get_insert e_def split: option.splits)
  qed
qed

theorem serving_do_moves:
  "session_moves (serving_limits st) (published x c st) (bm_get (sessions st) x)
     (bm_get (sessions (serving_do c st)) x)"
proof (cases c)
  case (ApplyPatch sid base new ps p)
  then show ?thesis using apply_patch_moves [of st x sid base new ps p] by simp
next
  case (Admit sid cr orig envelope)
  then show ?thesis by (simp add: admit_moves)
next
  case (CancelEnvelope sid envelope)
  then show ?thesis by (simp add: cancel_envelope_moves)
next
  case (CancelRequest sid r)
  then show ?thesis by (simp add: cancel_request_moves)
next
  case (CloseWatch sid w)
  then show ?thesis by (simp add: close_watch_moves)
qed (auto simp: serving_disconnect_def serving_reconnect_def serving_rotate_credential_def serving_resync_def
    serving_open_watch_def serving_action_def serving_reserve_request_def serving_start_request_def
    serving_complete_request_def serving_credential_deleted_def serving_origin_deleted_def moves_def not_le
    intro!: with_session_moves with_request_moves session_step.intros split: option.splits)

lemma serving_do_limits [simp]: "serving_limits (serving_do c st) = serving_limits st"
proof -
  have w: "serving_limits (snd (with_session sid body st)) = serving_limits st"
    for sid and body :: "served_session \<Rightarrow> (serving_error, 'r) result \<times> served_session"
    by (auto simp: with_session_def split: sum.splits prod.splits)
  show ?thesis
    using cancel_envelope_cases [where st = st]
    by (cases c) (auto simp: w serving_admit_def serving_disconnect_def serving_reconnect_def
      serving_rotate_credential_def serving_resync_def serving_apply_patch_def serving_open_watch_def
      serving_close_watch_def serving_action_def serving_reserve_request_def serving_start_request_def
      serving_complete_request_def serving_cancel_request_def serving_credential_deleted_def
      serving_origin_deleted_def serving_cancel_envelope_def split: message.splits target_kind.splits)
qed

section \<open>Bounded state\<close>

definition pages_ok :: "limits \<Rightarrow> served_session \<Rightarrow> bool" where
  "pages_ok l s \<longleftrightarrow>
     bm_wf (page s) \<and> length (page s) \<le> max_page_entries l
     \<and> length (retained s) \<le> max_replay l
     \<and> sorted_wrt (<) (map revision (retained s))
     \<and> list_all (\<lambda>e. 0 < revision e \<and> pin_revision (pin e) = revision e
          \<and> length (page_of e) \<le> max_page_entries l) (retained s)
     \<and> page s = (case deque_back (retained s) of None \<Rightarrow> [] | Some e \<Rightarrow> page_of e)"

definition watches_ok :: "limits \<Rightarrow> served_session \<Rightarrow> bool" where
  "watches_ok l s \<longleftrightarrow>
     bm_wf (watches s) \<and> length (watches s) \<le> max_watches_per_session l
     \<and> list_all (\<lambda>(w, x). watch_revision x = current_revision s
          \<and> next_action x \<le> max_actions_per_watch l) (watches s)"

definition requests_ok :: "limits \<Rightarrow> served_session \<Rightarrow> bool" where
  "requests_ok l s \<longleftrightarrow> bm_wf (requests s) \<and> length (requests s) \<le> max_requests_per_session l"

definition session_ok :: "limits \<Rightarrow> served_session \<Rightarrow> bool" where
  "session_ok l s \<longleftrightarrow> pages_ok l s \<and> watches_ok l s \<and> requests_ok l s"

definition serving_ok :: "serving \<Rightarrow> bool" where
  "serving_ok st \<longleftrightarrow>
     limits_validate (serving_limits st) = Ok (serving_limits st)
     \<and> bm_wf (sessions st) \<and> length (sessions st) \<le> max_sessions (serving_limits st)
     \<and> list_all (\<lambda>(x, s). session_ok (serving_limits st) s) (sessions st)"

text \<open>The containers: sizes and entries after an insertion, a removal and the update of all values.\<close>

lemma length_bm_insert:
  "bm_wf m \<Longrightarrow> length (bm_insert k v m) = (if bm_contains m k then length m else Suc (length m))"
  by (induction k v m rule: bm_insert.induct)
    (auto simp: bm_wf_Cons bm_contains_get bm_get_def map_of_eq_None_iff)

lemma length_bm_remove: "length (bm_remove k m) \<le> length m"
  by (induction k m rule: bm_remove.induct) auto

lemma set_bm_insert: "set (bm_insert k v m) \<subseteq> insert (k, v) (set m)"
  by (induction k v m rule: bm_insert.induct) auto

lemma set_bm_remove: "set (bm_remove k m) \<subseteq> set m"
  by (induction k m rule: bm_remove.induct) auto

lemma bm_wf_map_values [wf_intros]: "bm_wf (map (\<lambda>(k, v). (k, f v)) m) \<longleftrightarrow> bm_wf m"
proof -
  have "map fst (map (\<lambda>(k, v). (k, f v)) m) = map fst m" by (induction m) auto
  then show ?thesis by (simp only: bm_wf_def)
qed

lemma patch_loop_wf: "patch_loop ps c touched = Ok d \<Longrightarrow> bm_wf c \<Longrightarrow> bm_wf d"
  by (induction ps c touched rule: patch_loop.induct)
    (auto intro: wf_intros split: if_splits serving_patch.splits)

lemma current_revision_top:
  assumes "pages_ok l s" and "e \<in> set (retained s)"
  shows "revision e \<le> current_revision s"
proof -
  from assms have "retained s \<noteq> []" by auto
  then obtain es f where es: "retained s = es @ [f]" by (metis rev_exhaust)
  with assms show ?thesis
    by (auto simp: pages_ok_def current_revision_def deque_back_def sorted_wrt_append intro: less_imp_le)
qed

lemma pages_ok_publish:
  assumes ok: "pages_ok l s" and r: "max_replay l \<noteq> 0" and step: "session_step l [e] s t"
  shows "pages_ok l t \<and> current_revision t = revision e"
proof -
  let ?q = "retained s @ [e]"
  define kept where "kept = (if max_replay l < length ?q then tl ?q else ?q)"
  obtain ps where 1: "current_revision s < revision e" "pin_revision (pin e) = revision e"
      "patch_loop ps (page s) [] = Ok (page_of e)" "length (page_of e) \<le> max_page_entries l"
      "t = publish l e s"
    using step by (elim session_step_emitsE)
  have t: "page t = page_of e" "retained t = kept" by (simp_all add: 1 publish_def kept_def)
  have fresh: "\<forall>f \<in> set (retained s). revision f < revision e"
    using 1 ok current_revision_top by fastforce
  have pos: "0 < revision e"
    using 1 by (simp add: word_gt_0) (metis word_not_simps(1))
  have sorted: "sorted_wrt (<) (map revision ?q)"
    using ok fresh by (auto simp: pages_ok_def sorted_wrt_append)
  have all: "list_all (\<lambda>e. 0 < revision e \<and> pin_revision (pin e) = revision e
        \<and> length (page_of e) \<le> max_page_entries l) ?q"
    using ok 1 pos by (simp add: pages_ok_def)
  have kept: "kept = ?q \<and> length ?q \<le> max_replay l \<or> kept = tl ?q \<and> length kept \<le> max_replay l \<and> retained s \<noteq> []"
    using ok r by (auto simp: pages_ok_def kept_def)
  have newest: "deque_back kept = Some e"
    using kept by (auto simp: deque_back_def last_tl)
  have suffix: "kept = ?q \<or> kept = tl ?q" using kept by blast
  have "set (tl ?q) \<subseteq> set ?q" and "sorted_wrt (<) (map revision (tl ?q))"
    using sorted by (cases ?q; simp; blast)+
  then have "sorted_wrt (<) (map revision kept)" and "set kept \<subseteq> set ?q"
    using suffix sorted by (elim disjE; simp only: subset_refl)+
  moreover from this all have "list_all (\<lambda>e. 0 < revision e \<and> pin_revision (pin e) = revision e
        \<and> length (page_of e) \<le> max_page_entries l) kept"
    unfolding list_all_iff by blast
  moreover have "bm_wf (page_of e)"
    using 1 ok patch_loop_wf by (auto simp: pages_ok_def)
  ultimately show ?thesis
    using kept newest 1(1-4) by (auto simp: pages_ok_def current_revision_def t)
qed

lemma watches_ok_publish:
  assumes "watches_ok l s" and "current_revision (publish l e s) = revision e"
  shows "watches_ok l (publish l e s)"
  using assms by (auto simp: watches_ok_def publish_def bm_wf_map_values list_all_iff)

lemma watches_ok_insert:
  assumes "watches_ok l s" and "watch_revision x = current_revision s" and "next_action x \<le> max_actions_per_watch l"
    and "bm_contains (watches s) w \<or> length (watches s) < max_watches_per_session l"
  shows "watches_ok l (s\<lparr>watches := bm_insert w x (watches s)\<rparr>)"
proof -
  have "list_all (\<lambda>(w, x). watch_revision x = current_revision s \<and> next_action x \<le> max_actions_per_watch l)
      (bm_insert w x (watches s))"
    using assms set_bm_insert [of w x "watches s"] by (fastforce simp: watches_ok_def list_all_iff)
  then show ?thesis
    using assms by (auto simp: watches_ok_def current_revision_def bm_wf_insert length_bm_insert)
qed

lemma requests_ok_insert:
  assumes "requests_ok l s"
    and "bm_contains (requests s) r \<or> length (requests s) < max_requests_per_session l"
  shows "requests_ok l (s\<lparr>requests := bm_insert r a (requests s)\<rparr>)"
  using assms by (auto simp: requests_ok_def bm_wf_insert length_bm_insert)

lemma session_ok_updates:
  assumes "session_ok l s"
  shows "session_ok l (s\<lparr>connected := b\<rparr>)" and "session_ok l (s\<lparr>credential := c\<rparr>)"
    and "session_ok l (s\<lparr>closed := d, connected := b\<rparr>)"
    and "watches_ok l (s\<lparr>watches := m\<rparr>) \<Longrightarrow> session_ok l (s\<lparr>watches := m\<rparr>)"
    and "requests_ok l (s\<lparr>requests := q\<rparr>) \<Longrightarrow> session_ok l (s\<lparr>requests := q\<rparr>)"
  using assms
  by (auto simp: session_ok_def pages_ok_def watches_ok_def requests_ok_def current_revision_def)

lemma session_ok_step:
  assumes ok: "session_ok l s" and r: "max_replay l \<noteq> 0" and step: "session_step l out s t"
  shows "session_ok l t"
proof -
  from ok have parts: "pages_ok l s" "watches_ok l s" "requests_ok l s" by (simp_all add: session_ok_def)
  from step show ?thesis
  proof cases
    case (step_publish e ps)
    have "pages_ok l t \<and> current_revision t = revision e"
      using pages_ok_publish [of l s e t] ok r step step_publish by (simp add: session_ok_def)
    moreover have "requests_ok l t"
      using ok step_publish by (simp add: session_ok_def requests_ok_def publish_def)
    ultimately show ?thesis
      using ok step_publish watches_ok_publish by (auto simp: session_ok_def)
  next
    case (step_open_watch w)
    have "length (watches s) < max_watches_per_session l"
      using step_open_watch parts by (simp add: watches_ok_def)
    then have "watches_ok l t"
      unfolding step_open_watch using parts by (intro watches_ok_insert) simp_all
    with step_open_watch ok show ?thesis by (simp add: session_ok_updates)
  next
    case (step_close_watch w)
    have "watches_ok l t"
      using ok set_bm_remove [of w "watches s"] length_bm_remove [of w "watches s"] step_close_watch
      by (auto simp: session_ok_def watches_ok_def current_revision_def bm_wf_remove list_all_iff)
    with step_close_watch ok show ?thesis by (simp add: session_ok_updates)
  next
    case (step_action w x)
    have "(w, x) \<in> set (watches s)"
      using ok step_action by (simp add: session_ok_def watches_ok_def bm_get_mem)
    then have "watch_revision x = current_revision s"
      using parts by (auto simp: watches_ok_def list_all_iff)
    then have "watches_ok l t"
      unfolding step_action using parts step_action inc_le [of "next_action x"]
      by (intro watches_ok_insert) (simp_all add: bm_contains_get)
    with step_action ok show ?thesis by (simp add: session_ok_updates)
  next
    case (step_reserve q)
    then show ?thesis
      using ok parts by (auto intro!: session_ok_updates requests_ok_insert)
  next
    case (step_request q a b)
    then show ?thesis
      using ok parts by (auto simp: bm_contains_get intro!: session_ok_updates requests_ok_insert)
  qed (use ok in \<open>auto intro: session_ok_updates\<close>)
qed

lemma fresh_session_ok: "fresh_session s \<Longrightarrow> session_ok l s"
  by (simp add: fresh_session_def session_ok_def pages_ok_def watches_ok_def requests_ok_def deque_back_def)

lemma sessions_wf_length:
  assumes "bm_wf (sessions st)" and "length (sessions st) \<le> max_sessions (serving_limits st)"
  shows "bm_wf (sessions (serving_do c st)) \<and> length (sessions (serving_do c st)) \<le> max_sessions (serving_limits st)"
proof -
  have w: "bm_wf (sessions (snd (with_session sid body st)))
      \<and> length (sessions (snd (with_session sid body st))) \<le> max_sessions (serving_limits st)"
    for sid and body :: "served_session \<Rightarrow> (serving_error, 'r) result \<times> served_session"
    using assms
    by (auto simp: with_session_def serving_session_def bm_contains_get bm_wf_insert length_bm_insert
        split: sum.splits prod.splits option.splits if_splits)
  show ?thesis
  proof (cases c)
    case (Admit sid cr orig envelope)
    then show ?thesis
      using assms by (auto simp: serving_admit_def bm_wf_insert length_bm_insert)
  next
    case (CancelEnvelope sid envelope)
    then show ?thesis
      using assms cancel_envelope_cases [of sid envelope st]
      by (auto simp: serving_close_watch_def serving_cancel_request_def w)
  qed (simp_all only: serving_do.simps w serving_disconnect_def serving_reconnect_def
      serving_rotate_credential_def serving_resync_def serving_apply_patch_def serving_open_watch_def
      serving_close_watch_def serving_action_def serving_reserve_request_def serving_start_request_def
      serving_complete_request_def serving_cancel_request_def serving_credential_deleted_def
      serving_origin_deleted_def)
qed

lemma serving_ok_do:
  assumes ok: "serving_ok st"
  shows "serving_ok (serving_do c st)"
proof -
  let ?l = "serving_limits st"
  have r: "max_replay ?l \<noteq> 0" and wf: "bm_wf (sessions st)"
    using ok by (auto simp: serving_ok_def limits_validate_def split: if_splits)
  have outer: "bm_wf (sessions (serving_do c st)) \<and> length (sessions (serving_do c st)) \<le> max_sessions ?l"
    using ok by (intro sessions_wf_length) (simp_all add: serving_ok_def)
  have "session_ok ?l t" if "(x, t) \<in> set (sessions (serving_do c st))" for x t
  proof -
    from that outer have t: "bm_get (sessions (serving_do c st)) x = Some t" by (simp add: bm_get_mem)
    have m: "session_moves ?l (published x c st) (bm_get (sessions st) x) (Some t)"
      using serving_do_moves [of st x c] t by simp
    show ?thesis
    proof (cases "bm_get (sessions st) x")
      case None
      with m show ?thesis by (simp add: session_moves_def fresh_session_ok)
    next
      case (Some s)
      then have "(x, s) \<in> set (sessions st)" using wf by (simp add: bm_get_mem)
      then have "session_ok ?l s" using ok by (auto simp: serving_ok_def list_all_iff)
      with m Some r show ?thesis by (auto simp: session_moves_def moves_def intro: session_ok_step)
    qed
  qed
  with outer ok show ?thesis by (auto simp: serving_ok_def list_all_iff)
qed

lemma serving_ok_run: "serving_ok st \<Longrightarrow> serving_ok (fold serving_do calls st)"
  by (induction calls arbitrary: st) (simp_all add: serving_ok_do)

lemma serving_ok_new: "serving_new l = Ok st \<Longrightarrow> serving_ok st \<and> sessions st = []"
  by (auto simp: serving_new_def serving_ok_def limits_validate_def split: sum.splits if_splits)

text \<open>
  C18. Whatever calls are made on a new serving state, its sessions, pages, retained revisions, watches and
  requests stay within the configured limits; the retained revisions of a session ascend strictly, each
  under the pin of its own revision, the visible page is the newest retained one, every watch stands at
  that revision and no watch has accepted more actions than allowed.
\<close>

theorem serving_state_bounded:
  assumes "serving_new l = Ok st"
  shows "serving_ok (fold serving_do calls st)"
  using assms by (simp add: serving_ok_run serving_ok_new)

definition sample_limits :: limits where
  "sample_limits =
     \<lparr>max_sessions = 1, max_replay = 2, max_page_entries = 2, max_watches_per_session = 1,
      max_requests_per_session = 1, max_actions_per_watch = 1\<rparr>"

definition sample_serving :: serving where
  "sample_serving = \<lparr>serving_limits = sample_limits, sessions = []\<rparr>"

definition sample_pin :: "u64 \<Rightarrow> retained_pin" where
  "sample_pin n = \<lparr>pin_revision = n, pin_fingerprint = []\<rparr>"

definition sample_calls :: "unit serving_call list" where
  "sample_calls =
     [Admit [1] [7] [9] \<lparr>env_request = Some [2], env_watch = None, env_message = Subscribe ()\<rparr>,
      OpenWatch [1] [3] 0,
      ReserveRequest [1] [4],
      ApplyPatch [1] 0 1 [Set ''a'' ''x'', Set ''b'' ''y''] (sample_pin 1),
      ApplyPatch [1] 1 3 [Remove ''a''] (sample_pin 3),
      Action [1] [3] 3 0,
      ApplyPatch [1] 3 4 [Set ''b'' ''z''] (sample_pin 4),
      CompleteRequest [1] [4]]"

lemma sample_serving_new: "serving_new sample_limits = Ok sample_serving"
  by code_simp

theorem serving_state_bounded_witness:
  "serving_ok (fold serving_do sample_calls sample_serving)
   \<and> length (retained (the (bm_get (sessions (fold serving_do sample_calls sample_serving)) [1]))) = 2"
proof (rule conjI)
  show "serving_ok (fold serving_do sample_calls sample_serving)"
    by (rule serving_state_bounded [OF sample_serving_new])
qed code_simp

section \<open>Replay\<close>

definition recent :: "limits \<Rightarrow> 'a list \<Rightarrow> 'a list" where
  "recent l log = drop (length log - max_replay l) log"

definition history :: "limits \<Rightarrow> page_revision list \<Rightarrow> served_session option \<Rightarrow> bool" where
  "history l log x =
     (case x of
        None \<Rightarrow> log = []
      | Some s \<Rightarrow> retained s = recent l log \<and> sorted_wrt (<) (map revision log))"

lemma recent_snoc:
  assumes r: "max_replay l \<noteq> 0"
  shows "recent l (log @ [e]) =
     (if max_replay l < length (recent l log @ [e]) then tl (recent l log @ [e]) else recent l log @ [e])"
proof (cases "max_replay l \<le> length log")
  case True
  then have "recent l log \<noteq> []" using r by (simp add: recent_def)
  moreover have "tl (recent l log) = drop (Suc (length log - max_replay l)) log"
    by (simp add: recent_def tl_drop drop_Suc)
  moreover have "length (recent l log) = max_replay l" using True by (simp add: recent_def)
  ultimately show ?thesis using True r by (simp add: recent_def Suc_diff_le)
next
  case False
  then show ?thesis by (simp add: recent_def)
qed

lemma current_revision_recent:
  assumes "retained s = recent l log" and "max_replay l \<noteq> 0" and "sorted_wrt (<) (map revision log)"
  shows "\<forall>e \<in> set log. revision e \<le> current_revision s"
proof (cases log rule: rev_cases)
  case (snoc es e)
  then have "length log - max_replay l < length log" using assms(2) by simp
  then have "deque_back (retained s) = Some e"
    using assms(1) snoc by (simp add: deque_back_def recent_def last_drop)
  with assms(3) snoc show ?thesis
    by (auto simp: current_revision_def sorted_wrt_append intro: less_imp_le)
qed simp

lemma retained_quiet: "session_step l [] s t \<Longrightarrow> retained t = retained s"
  by (cases rule: session_step.cases) auto

lemma session_step_out: "session_step l out s t \<Longrightarrow> out = [] \<or> (\<exists>e. out = [e])"
  by (cases rule: session_step.cases) auto

lemma history_step:
  assumes m: "session_step l out s t" and h: "history l log (Some s)" and r: "max_replay l \<noteq> 0"
  shows "history l (log @ out) (Some t)"
  using session_step_out [OF m]
proof
  assume "out = []"
  with m h show ?thesis by (auto simp: history_def dest: retained_quiet)
next
  assume "\<exists>e. out = [e]"
  then obtain e where e: "out = [e]" ..
  have t: "t = publish l e s" and new: "current_revision s < revision e"
    using m unfolding e by (auto elim: session_step_emitsE)
  have "\<forall>f \<in> set log. revision f < revision e"
    using current_revision_recent [of s l log] h r new by (fastforce simp: history_def)
  with h show ?thesis
    by (simp add: history_def e t publish_def recent_snoc [OF r] sorted_wrt_append)
qed

lemma history_do:
  assumes "history (serving_limits st) log (bm_get (sessions st) x)" and "max_replay (serving_limits st) \<noteq> 0"
  shows "history (serving_limits st) (log @ published x c st) (bm_get (sessions (serving_do c st)) x)"
proof -
  have m: "session_moves (serving_limits st) (published x c st) (bm_get (sessions st) x)
      (bm_get (sessions (serving_do c st)) x)"
    by (rule serving_do_moves)
  show ?thesis
  proof (cases "bm_get (sessions st) x")
    case None
    with m assms show ?thesis
      by (auto simp: session_moves_def history_def fresh_session_def recent_def split: option.splits)
  next
    case (Some s)
    with m obtain t where t: "bm_get (sessions (serving_do c st)) x = Some t"
        and "moves (serving_limits st) (published x c st) s t"
      by (auto simp: session_moves_def split: option.splits)
    then show ?thesis
      using assms Some history_step [of "serving_limits st" "published x c st" s t log]
      by (auto simp: moves_def)
  qed
qed

lemma history_run:
  assumes "history (serving_limits st) log (bm_get (sessions st) x)" and "max_replay (serving_limits st) \<noteq> 0"
  shows "history (serving_limits st) (log @ publications x calls st)
    (bm_get (sessions (fold serving_do calls st)) x)"
  using assms
proof (induction calls arbitrary: st log)
  case (Cons c calls)
  from Cons.IH [of "serving_do c st" "log @ published x c st"] history_do [OF Cons.prems, of c] Cons.prems(2)
  show ?case by simp
qed simp

lemma run_limits: "serving_limits (fold serving_do calls st) = serving_limits st"
  by (induction calls arbitrary: st) simp_all

lemma recent_misses_nothing:
  assumes sorted: "sorted_wrt (<) (map revision log)" and r: "max_replay l \<noteq> 0"
    and near: "recent l log \<noteq> [] \<Longrightarrow> uint (revision (hd (recent l log))) \<le> uint n + 1"
  shows "filter (\<lambda>e. n < revision e) (recent l log) = filter (\<lambda>e. n < revision e) log"
proof -
  let ?k = "length log - max_replay l"
  have split: "log = take ?k log @ recent l log" by (simp add: recent_def)
  have "\<not> n < revision e" if e: "e \<in> set (take ?k log)" for e
  proof -
    from e have "0 < ?k" by (cases ?k) auto
    then have ne: "recent l log \<noteq> []" using r by (simp add: recent_def)
    have "sorted_wrt (<) (map revision (take ?k log @ recent l log))" using sorted split by simp
    with e ne have "revision e < revision (hd (recent l log))" by (simp add: sorted_wrt_append)
    with near [OF ne] show ?thesis by (simp add: word_less_alt)
  qed
  then have "filter (\<lambda>e. n < revision e) (take ?k log) = []" by (simp add: filter_empty_conv)
  then show ?thesis by (subst (2) split) simp
qed

lemma saturating_successor_less: "saturating_add n 1 < m \<longleftrightarrow> uint n + 1 < uint m"
proof (cases "uint n + 1 < 2 ^ 64")
  case True
  then have "uint (n + 1) = uint n + 1" by (simp add: uint_word_ariths)
  with True show ?thesis by (simp add: saturating_add_def word_less_alt)
next
  case False
  moreover have "uint m < 2 ^ 64" using uint_lt2p [of m] by simp
  moreover have "uint (- 1 :: u64) = 2 ^ 64 - 1" by (simp add: unsigned_minus_1_eq_mask mask_eq_exp_minus_1)
  ultimately show ?thesis by (simp add: saturating_add_def word_less_alt)
qed

text \<open>
  C19. A session retains exactly the last \<open>max_replay\<close> of the page revisions published to it over any calls.
  A connected client that has seen revision \<open>after\<close> is refused a resynchronisation exactly when the oldest
  retained revision leaves a gap after \<open>after\<close>; otherwise it gets every revision ever published after that one,
  in order: nothing is skipped silently.
\<close>

theorem resync_is_complete:
  assumes "serving_new l = Ok st0"
    and "bm_get (sessions (fold serving_do calls st0)) sid = Some s" and "\<not> closed s" and "connected s"
  shows "retained s = recent l (publications sid calls st0)
    \<and> fst (serving_resync sid after (fold serving_do calls st0)) =
        (if retained s \<noteq> [] \<and> uint after + 1 < uint (revision (hd (retained s))) then Err ReplayRequired
         else Ok (filter (\<lambda>e. after < revision e) (publications sid calls st0)))"
proof -
  let ?log = "publications sid calls st0"
  have st0: "serving_limits st0 = l" "sessions st0 = []" and r: "max_replay l \<noteq> 0"
    using assms(1) by (auto simp: serving_new_def limits_validate_def split: sum.splits if_splits)
  then have "history l ([] @ ?log) (Some s)"
    using history_run [of st0 "[]" sid calls] assms(2) by (simp add: history_def)
  then have h: "retained s = recent l ?log" "sorted_wrt (<) (map revision ?log)" by (auto simp: history_def)
  moreover have "filter (\<lambda>e. after < revision e) (retained s) = filter (\<lambda>e. after < revision e) ?log"
    if "\<not> (retained s \<noteq> [] \<and> uint after + 1 < uint (revision (hd (retained s))))"
    using recent_misses_nothing [of ?log l after] h r that by auto
  ultimately show ?thesis
    using assms(2-4)
    by (auto simp: serving_resync_def with_session_def serving_session_def deque_front_def saturating_successor_less)
qed

definition sample_session :: served_session where
  "sample_session = the (bm_get (sessions (fold serving_do sample_calls sample_serving)) [1])"

theorem resync_is_complete_witness:
  "fst (serving_resync [1] 1 (fold serving_do sample_calls sample_serving)) = Err ReplayRequired
   \<and> fst (serving_resync [1] 3 (fold serving_do sample_calls sample_serving)) =
       Ok [\<lparr>revision = 4, page_of = [(''b'', ''z'')], pin = sample_pin 4\<rparr>]
   \<and> map revision (publications [1] sample_calls sample_serving) = [1, 3, 4]"
proof -
  have s: "bm_get (sessions (fold serving_do sample_calls sample_serving)) [1] = Some sample_session"
    "\<not> closed sample_session" "connected sample_session"
    by code_simp+
  have "(if retained sample_session \<noteq> [] \<and> uint (1 :: u64) + 1 < uint (revision (hd (retained sample_session)))
         then Err ReplayRequired
         else Ok (filter (\<lambda>e. (1 :: u64) < revision e) (publications [1] sample_calls sample_serving)))
      = Err ReplayRequired"
    and "(if retained sample_session \<noteq> [] \<and> uint (3 :: u64) + 1 < uint (revision (hd (retained sample_session)))
         then Err ReplayRequired
         else Ok (filter (\<lambda>e. (3 :: u64) < revision e) (publications [1] sample_calls sample_serving)))
      = Ok [\<lparr>revision = 4, page_of = [(''b'', ''z'')], pin = sample_pin 4\<rparr>]"
    and "map revision (publications [1] sample_calls sample_serving) = [1, 3, 4]"
    by code_simp+
  then show ?thesis
    using resync_is_complete [OF sample_serving_new s, of 1] resync_is_complete [OF sample_serving_new s, of 3]
    by simp
qed

section \<open>What never changes again\<close>

fun request_advances :: "request_state \<Rightarrow> request_state \<Rightarrow> bool" where
  "request_advances Reserved _ = True"
| "request_advances Running r = (r \<noteq> Reserved)"
| "request_advances Cancelled r = (r = Cancelled)"
| "request_advances Completed r = (r = Completed)"

definition session_keeps :: "served_session \<Rightarrow> served_session \<Rightarrow> bool" where
  "session_keeps s t \<longleftrightarrow>
     (closed s \<longrightarrow> t = s) \<and> origin t = origin s \<and> current_revision s \<le> current_revision t
     \<and> (\<forall>r a. bm_get (requests s) r = Some a \<longrightarrow>
          (\<exists>b. bm_get (requests t) r = Some b \<and> request_advances a b))"

definition serving_keeps :: "serving \<Rightarrow> serving \<Rightarrow> bool" where
  "serving_keeps st st' \<longleftrightarrow>
     serving_limits st' = serving_limits st
     \<and> (max_replay (serving_limits st) \<noteq> 0 \<longrightarrow> (\<forall>x s. bm_get (sessions st) x = Some s \<longrightarrow>
          (\<exists>t. bm_get (sessions st') x = Some t \<and> session_keeps s t)))"

lemma request_advances_refl [simp]: "request_advances a a"
  by (cases a) auto

lemma request_advances_trans: "request_advances a b \<Longrightarrow> request_advances b c \<Longrightarrow> request_advances a c"
  by (cases a; cases b; cases c) auto

lemma session_keeps_trans: "session_keeps s t \<Longrightarrow> session_keeps t u \<Longrightarrow> session_keeps s u"
  unfolding session_keeps_def by (intro conjI) (auto intro: order_trans, blast intro: request_advances_trans)

lemma current_revision_publish:
  assumes "max_replay l \<noteq> 0"
  shows "current_revision (publish l e s) = revision e"
  using assms by (cases "retained s") (auto simp: current_revision_def publish_def deque_back_def)

lemma session_step_keeps:
  assumes step: "session_step l out s t" and r: "max_replay l \<noteq> 0" and s: "\<not> closed s"
  shows "session_keeps s t"
  using step
proof cases
  case (step_publish e ps)
  then show ?thesis
    using s current_revision_publish [OF r, of e s] by (simp add: session_keeps_def) (simp add: publish_def)
next
  case (step_request q a b)
  then have "request_advances a b" by (cases a; cases b) auto
  with step_request s show ?thesis by (auto simp: session_keeps_def bm_get_insert current_revision_def)
next
  case (step_reserve q)
  with s show ?thesis by (auto simp: session_keeps_def bm_get_insert bm_contains_get current_revision_def)
qed (use s in \<open>auto simp: session_keeps_def current_revision_def\<close>)

lemma session_keeps_refl [simp]: "session_keeps s s"
  by (auto simp: session_keeps_def)

interpretation serving_life: stable_step serving_do serving_keeps
proof
  show "serving_keeps st st" for st by (simp add: serving_keeps_def)
next
  fix a b c :: serving
  assume ab: "serving_keeps a b" and bc: "serving_keeps b c"
  show "serving_keeps a c"
    unfolding serving_keeps_def
  proof (intro conjI impI allI)
    fix x s
    assume r: "max_replay (serving_limits a) \<noteq> 0" and s: "bm_get (sessions a) x = Some s"
    with ab obtain t where t: "bm_get (sessions b) x = Some t" "session_keeps s t"
      unfolding serving_keeps_def by blast
    moreover from ab r have "max_replay (serving_limits b) \<noteq> 0" by (simp add: serving_keeps_def)
    ultimately obtain u where "bm_get (sessions c) x = Some u" "session_keeps t u"
      using bc unfolding serving_keeps_def by blast
    with t show "\<exists>t. bm_get (sessions c) x = Some t \<and> session_keeps s t"
      by (blast intro: session_keeps_trans)
  qed (use ab bc in \<open>simp add: serving_keeps_def\<close>)
next
  fix st and c :: "'p serving_call"
  show "serving_keeps st (serving_do c st)"
    unfolding serving_keeps_def
  proof (intro conjI impI allI)
    fix x s
    assume r: "max_replay (serving_limits st) \<noteq> 0" and s: "bm_get (sessions st) x = Some s"
    with serving_do_moves [of st x c] obtain t where "bm_get (sessions (serving_do c st)) x = Some t"
        and "moves (serving_limits st) (published x c st) s t"
      by (auto simp: session_moves_def split: option.splits)
    with r show "\<exists>t. bm_get (sessions (serving_do c st)) x = Some t \<and> session_keeps s t"
      by (auto simp: moves_def intro: session_step_keeps)
  qed simp
qed

text \<open>
  Over any calls on valid limits a session, once admitted, never disappears and keeps its origin, and
  its revision never goes back; once closed it never changes again, so it can be neither
  reconnected nor re-admitted. A request identity is never forgotten: its state only advances from
  reserved over running to one terminal state, which is final.
\<close>

theorem serving_life_is_monotone:
  assumes "serving_new l = Ok st0" and "bm_get (sessions (fold serving_do before st0)) x = Some s"
  shows "\<exists>t. bm_get (sessions (fold serving_do (before @ later) st0)) x = Some t
    \<and> (closed s \<longrightarrow> t = s) \<and> origin t = origin s \<and> current_revision s \<le> current_revision t
    \<and> (\<forall>r a. bm_get (requests s) r = Some a \<longrightarrow>
         (\<exists>b. bm_get (requests t) r = Some b \<and> request_advances a b \<and> (terminal a \<longrightarrow> b = a)))"
proof -
  let ?st = "fold serving_do before st0"
  have "max_replay (serving_limits ?st) \<noteq> 0"
    using assms(1) by (auto simp: run_limits serving_new_def limits_validate_def split: sum.splits if_splits)
  moreover have "serving_keeps ?st (fold serving_do later ?st)" by (rule serving_life.keeps_run)
  ultimately obtain t where "bm_get (sessions (fold serving_do later ?st)) x = Some t" and "session_keeps s t"
    using assms(2) unfolding serving_keeps_def by blast
  moreover have "terminal a \<Longrightarrow> request_advances a b \<Longrightarrow> b = a" for a b by (cases a) auto
  ultimately show ?thesis by (auto simp: session_keeps_def) blast
qed

definition sample_later :: "unit serving_call list" where
  "sample_later = [CancelRequest [1] [4], CredentialDeleted [1] False, Reconnect [1] [7]]"

theorem serving_life_is_monotone_witness:
  "bm_get (requests sample_session) [4] = Some Completed
   \<and> (\<exists>t. bm_get (sessions (fold serving_do (sample_calls @ sample_later) sample_serving)) [1] = Some t
        \<and> bm_get (requests t) [4] = Some Completed)"
proof -
  have "bm_get (sessions (fold serving_do sample_calls sample_serving)) [1] = Some sample_session"
    and r: "bm_get (requests sample_session) [4] = Some Completed"
    by code_simp+
  from serving_life_is_monotone [OF sample_serving_new this(1), of sample_later] r show ?thesis
    by fastforce
qed

section \<open>Patches\<close>

text \<open>The effect of a patch list on a page, read key by key: no order of the patches is involved.\<close>

definition patched :: "serving_patch list \<Rightarrow> (string \<rightharpoonup> string) \<Rightarrow> string \<rightharpoonup> string" where
  "patched ps m k =
     (case find (\<lambda>p. patch_key p = k) ps of
        None \<Rightarrow> m k
      | Some (Set _ v) \<Rightarrow> Some v
      | Some (Remove _) \<Rightarrow> None)"

definition patches_fit :: "serving_patch list \<Rightarrow> (string \<rightharpoonup> string) \<Rightarrow> bool" where
  "patches_fit ps m \<longleftrightarrow>
     distinct (map patch_key ps) \<and> [] \<notin> patch_key ` set ps \<and> (\<forall>k. Remove k \<in> set ps \<longrightarrow> m k \<noteq> None)"

lemma find_patch_None: "k \<notin> patch_key ` set ps \<Longrightarrow> find (\<lambda>p. patch_key p = k) ps = None"
  by (auto simp: find_None_iff)

lemma patch_key_Remove: "Remove k \<in> set ps \<Longrightarrow> k \<in> patch_key ` set ps"
  by force

lemma patch_loop_accepts:
  "bm_wf c \<Longrightarrow>
   (\<exists>d. patch_loop ps c touched = Ok d) \<longleftrightarrow> patches_fit ps (bm_get c) \<and> patch_key ` set ps \<inter> set touched = {}"
proof (induction ps arbitrary: c touched)
  case Nil
  then show ?case by (simp add: patches_fit_def)
next
  case (Cons p ps)
  show ?case
  proof (cases p)
    case (Set k v)
    with Cons.IH [of "bm_insert k v c" "bs_insert k touched"] Cons.prems show ?thesis
      by (auto simp: patches_fit_def bm_wf_insert bm_get_insert dest: patch_key_Remove)
  next
    case (Remove k)
    with Cons.IH [of "bm_remove k c" "bs_insert k touched"] Cons.prems show ?thesis
      by (auto simp: patches_fit_def bm_wf_remove bm_get_remove bm_contains_get dest: patch_key_Remove)
  qed
qed

lemma patch_loop_keys:
  "patch_loop ps c touched = Ok d \<Longrightarrow> distinct (map patch_key ps) \<and> patch_key ` set ps \<inter> set touched = {}"
  by (induction ps c touched rule: patch_loop.induct) (auto split: if_splits serving_patch.splits)

lemma patch_loop_result:
  "patch_loop ps c touched = Ok d \<Longrightarrow> bm_wf c \<Longrightarrow> bm_get d = patched ps (bm_get c)"
proof (induction ps arbitrary: c touched)
  case Nil
  then show ?case by (simp add: patched_def fun_eq_iff)
next
  case (Cons p ps)
  have keys: "patch_key p \<notin> patch_key ` set ps"
    using patch_loop_keys [OF Cons.prems(1)] by simp
  show ?case
  proof (cases p)
    case (Set k v)
    with Cons.prems have "patch_loop ps (bm_insert k v c) (bs_insert k touched) = Ok d"
      by (simp split: if_splits)
    from Cons.IH [OF this bm_wf_insert [OF Cons.prems(2)]] have "bm_get d = patched ps ((bm_get c)(k \<mapsto> v))"
      unfolding bm_get_insert .
    with Set keys show ?thesis
      by (auto simp: patched_def fun_eq_iff find_patch_None split: option.splits)
  next
    case (Remove k)
    with Cons.prems have "patch_loop ps (bm_remove k c) (bs_insert k touched) = Ok d"
      by (simp split: if_splits)
    from Cons.IH [OF this bm_wf_remove [OF Cons.prems(2)]] have "bm_get d = patched ps ((bm_get c)(k := None))"
      unfolding bm_get_remove [OF Cons.prems(2)] .
    with Remove keys show ?thesis
      by (auto simp: patched_def fun_eq_iff find_patch_None split: option.splits)
  qed
qed

lemma length_card_dom: "bm_wf m \<Longrightarrow> length m = card (dom (bm_get m))"
proof -
  assume "bm_wf m"
  then have "distinct (map fst m)" by (simp add: bm_wf_def strict_sorted_iff)
  then have "card (fst ` set m) = length m" using distinct_card [of "map fst m"] by simp
  moreover have "dom (bm_get m) = fst ` set m" unfolding bm_get_def by (rule dom_map_of_conv_image_fst)
  ultimately show ?thesis by simp
qed

lemma bm_insert_same: "bm_wf m \<Longrightarrow> bm_get m k = Some v \<Longrightarrow> bm_insert k v m = m"
  by (intro bm_ext) (auto simp: bm_wf_insert bm_get_insert)

text \<open>
  C20. A patch list is accepted exactly when it starts at the session's current revision and moves
  forward, its pin names the new revision, its keys are non-empty and pairwise distinct, it removes only
  keys of the page and the patched page is within the limit. It then publishes exactly the page in which
  each patched key has its new content and every other key its old one. A refused list changes nothing at
  all, and other sessions are never touched.
\<close>

theorem apply_patch_all_or_nothing:
  assumes "serving_ok st" and "serving_session st sid = Ok s"
    and "serving_apply_patch sid base new ps p st = (r, st')"
  shows "(r = Ok () \<longleftrightarrow> base = current_revision s \<and> base < new \<and> pin_revision p = new
           \<and> patches_fit ps (bm_get (page s))
           \<and> card (dom (patched ps (bm_get (page s)))) \<le> max_page_entries (serving_limits st))
    \<and> (r = Ok () \<longrightarrow> (\<exists>t. bm_get (sessions st') sid = Some t
         \<and> bm_get (page t) = patched ps (bm_get (page s)) \<and> current_revision t = new
         \<and> (\<forall>x. x \<noteq> sid \<longrightarrow> bm_get (sessions st') x = bm_get (sessions st) x)))
    \<and> (r \<noteq> Ok () \<longrightarrow> st' = st)"
proof -
  let ?l = "serving_limits st"
  have get: "bm_get (sessions st) sid = Some s" and wfs: "bm_wf (sessions st)" and lim: "max_replay ?l \<noteq> 0"
    using assms(1,2)
    by (auto simp: serving_session_def serving_ok_def limits_validate_def split: option.splits if_splits)
  then have "(sid, s) \<in> set (sessions st)" by (simp add: bm_get_mem)
  then have wf: "bm_wf (page s)"
    using assms(1) by (auto simp: serving_ok_def session_ok_def pages_ok_def list_all_iff)
  have same: "st\<lparr>sessions := bm_insert sid s (sessions st)\<rparr> = st" using bm_insert_same [OF wfs get] by simp
  show ?thesis
  proof (cases "patch_loop ps (page s) []")
    case (Inl e)
    then have "\<not> patches_fit ps (bm_get (page s))" using patch_loop_accepts [OF wf, of ps "[]"] by auto
    with Inl assms same show ?thesis
      by (auto simp: serving_apply_patch_def with_session_def split: if_splits)
  next
    case (Inr d)
    then have fit: "patches_fit ps (bm_get (page s))" using patch_loop_accepts [OF wf, of ps "[]"] by auto
    have d: "bm_get d = patched ps (bm_get (page s))" using patch_loop_result [OF Inr wf] .
    have card: "card (dom (patched ps (bm_get (page s)))) = length d"
      using length_card_dom [OF patch_loop_wf [OF Inr wf]] d by simp
    define t where "t = publish ?l \<lparr>revision = new, page_of = d, pin = p\<rparr> s"
    have t: "page t = d" "current_revision t = new"
      by (simp_all add: t_def current_revision_publish [OF lim]) (simp add: publish_def)
    have "(r, st') =
        (if base \<noteq> current_revision s \<or> new \<le> base \<or> pin_revision p \<noteq> new then (Err RevisionMismatch, st)
         else if max_page_entries ?l < length d then (Err PageLimit, st)
         else (Ok (), st\<lparr>sessions := bm_insert sid t (sessions st)\<rparr>))"
      using assms(2,3) Inr same
      by (auto simp: serving_apply_patch_def with_session_def t_def publish_def Let_def split: if_splits)
    then show ?thesis
      using fit d card t by (auto simp: bm_get_insert split: if_splits)
  qed
qed

theorem apply_patch_all_or_nothing_witness:
  "\<exists>t. bm_get (sessions (snd (serving_apply_patch [1] 4 5 [Set ''c'' ''w'', Remove ''b''] (sample_pin 5)
       (fold serving_do sample_calls sample_serving)))) [1] = Some t
     \<and> bm_get (page t) = patched [Set ''c'' ''w'', Remove ''b''] (bm_get (page sample_session))
     \<and> current_revision t = 5"
proof -
  let ?st = "fold serving_do sample_calls sample_serving"
  let ?ps = "[Set ''c'' ''w'', Remove ''b'']"
  have "serving_ok ?st" and "serving_session ?st [1] = Ok sample_session"
    and "fst (serving_apply_patch [1] 4 5 ?ps (sample_pin 5) ?st) = Ok ()"
    by code_simp+
  then show ?thesis
    using apply_patch_all_or_nothing [of ?st "[1]" sample_session 4 5 ?ps "sample_pin 5"]
    by (metis prod.collapse)
qed

end
