(* ===== verification/Orna_Wave.thy ===== *)
theory Orna_Wave
  imports Orna_Prelude
begin

text \<open>
  PCM WAVE inspection: \<open>inspect_pcm_wave\<close> and \<open>parse_pcm_wave\<close> of
  \<open>crates/orna-serving/src/media_preview.rs\<close>.

  The parser runs in the option type: \<open>None\<close> is a panic (a slice out of range, a division by zero) or a
  loop that does not return, \<open>Some\<close> carries the \<open>Result\<close>. The chunk loop is a
  \<open>partial_function\<close>, so that its termination is a theorem. Machine integers are \<open>int\<close>, with the
  checked operations testing the width; \<open>usize\<close> has 64 bits. A blob is its length and
  its \<open>read\<close> operation, which belongs to the value crate's resolver.
\<close>

section \<open>Checked operations\<close>

definition checked_add :: "int \<Rightarrow> int \<Rightarrow> int \<Rightarrow> int option" where
  "checked_add w a b = (if a + b < w then Some (a + b) else None)"

definition checked_mul :: "int \<Rightarrow> int \<Rightarrow> int \<Rightarrow> int option" where
  "checked_mul w a b = (if a * b < w then Some (a * b) else None)"

abbreviation usize_width :: int where "usize_width \<equiv> 18446744073709551616"
abbreviation u32_width :: int where "u32_width \<equiv> 4294967296"
abbreviation u16_width :: int where "u16_width \<equiv> 65536"

definition byte_slice :: "'a list \<Rightarrow> int \<Rightarrow> int \<Rightarrow> 'a list option" where
  "byte_slice xs a b =
     (if 0 \<le> a \<and> a \<le> b \<and> b \<le> int (length xs) then Some (take (nat (b - a)) (drop (nat a) xs)) else None)"

definition int_rem :: "int \<Rightarrow> int \<Rightarrow> int option" where
  "int_rem a b = (if b = 0 then None else Some (a mod b))"

definition int_quot :: "int \<Rightarrow> int \<Rightarrow> int option" where
  "int_quot a b = (if b = 0 then None else Some (a div b))"

fun from_le_bytes :: "u8 list \<Rightarrow> int" where
  "from_le_bytes [] = 0"
| "from_le_bytes (b # bs) = uint b + 256 * from_le_bytes bs"

section \<open>The parser\<close>

datatype wave_error = UnsupportedFormat | MalformedContent | ResourceLimit | ContentUnavailable

record pcm_wave_properties =
  channels :: int
  sample_rate :: int
  bits_per_sample :: int
  frame_count :: int
  duration_nanos :: int
  embedded_title :: "string option"

definition MAX_WAVE_INPUT_BYTES :: int where "MAX_WAVE_INPUT_BYTES = 8 * 1024 * 1024"
definition MAX_WAVE_CHANNELS :: int where "MAX_WAVE_CHANNELS = 32"
definition MAX_WAVE_SAMPLE_RATE :: int where "MAX_WAVE_SAMPLE_RATE = 384000"

type_synonym 'a wave = "(wave_error, 'a) result option"

text \<open>The chunk loop; its state is the cursor, the format chunk and the length of the data chunk.\<close>

partial_function (option) wave_chunks ::
  "u8 list \<Rightarrow> int \<Rightarrow> int \<Rightarrow> u8 list option \<Rightarrow> int option \<Rightarrow> (u8 list option \<times> int option) wave" where
  "wave_chunks bytes riff_end cursor fmt data_len =
     (if \<not> cursor < riff_end then Some (Ok (fmt, data_len))
      else (case checked_add usize_width cursor 8 of
        None \<Rightarrow> Some (Err MalformedContent)
      | Some header_end \<Rightarrow>
          if header_end > riff_end then Some (Err MalformedContent)
          else (case byte_slice bytes cursor (cursor + 4) of
            None \<Rightarrow> None
          | Some chunk_id \<Rightarrow> (case byte_slice bytes (cursor + 4) header_end of
              None \<Rightarrow> None
            | Some size_field \<Rightarrow> (case checked_add usize_width header_end (from_le_bytes size_field) of
                None \<Rightarrow> Some (Err MalformedContent)
              | Some payload_end \<Rightarrow> (case checked_add usize_width payload_end (from_le_bytes size_field mod 2) of
                  None \<Rightarrow> Some (Err MalformedContent)
                | Some padded_end \<Rightarrow>
                    if payload_end > riff_end \<or> padded_end > riff_end then Some (Err MalformedContent)
                    else if chunk_id = byte_string ''fmt '' then
                      (if fmt \<noteq> None \<or> from_le_bytes size_field < 16 then Some (Err MalformedContent)
                       else (case byte_slice bytes header_end payload_end of
                               None \<Rightarrow> None
                             | Some body \<Rightarrow> wave_chunks bytes riff_end padded_end (Some body) data_len))
                    else if chunk_id = byte_string ''data'' then
                      (if data_len \<noteq> None then Some (Err MalformedContent)
                       else wave_chunks bytes riff_end padded_end fmt (Some (from_le_bytes size_field)))
                    else wave_chunks bytes riff_end padded_end fmt data_len))))))"

text \<open>The format chunk, checked against the data length; \<open>le_field\<close> reads an integer of the chunk.\<close>

definition le_field :: "u8 list \<Rightarrow> int \<Rightarrow> int \<Rightarrow> int option" where
  "le_field fmt a b = map_option from_le_bytes (byte_slice fmt a b)"

definition wave_frames :: "int \<Rightarrow> int \<Rightarrow> int \<Rightarrow> int \<Rightarrow> int \<Rightarrow> pcm_wave_properties wave" where
  "wave_frames ch rate bits block_align data_len =
     (case int_quot data_len block_align of
        None \<Rightarrow> None
      | Some frames \<Rightarrow>
          if \<not> frames < 18446744073709551616 then Some (Err ResourceLimit)
          else (case checked_mul 18446744073709551616 frames 1000000000 of
                  None \<Rightarrow> Some (Err ResourceLimit)
                | Some nanos \<Rightarrow> (case int_quot nanos rate of
                    None \<Rightarrow> None
                  | Some duration \<Rightarrow>
                      Some (Ok \<lparr>channels = ch, sample_rate = rate, bits_per_sample = bits, frame_count = frames,
                                duration_nanos = duration, embedded_title = None\<rparr>))))"

definition wave_layout :: "int \<Rightarrow> int \<Rightarrow> int \<Rightarrow> int \<Rightarrow> int \<Rightarrow> int \<Rightarrow> pcm_wave_properties wave" where
  "wave_layout ch rate byte_rate block_align bits data_len =
     (if ch = 0 \<or> ch > MAX_WAVE_CHANNELS \<or> rate = 0 \<or> rate > MAX_WAVE_SAMPLE_RATE then Some (Err ResourceLimit)
      else if bits \<notin> {8, 16, 24, 32} then Some (Err UnsupportedFormat)
      else (case checked_mul u16_width ch (bits div 8) of
              None \<Rightarrow> Some (Err MalformedContent)
            | Some expected_align \<Rightarrow> (case checked_mul u32_width rate expected_align of
                None \<Rightarrow> Some (Err MalformedContent)
              | Some expected_rate \<Rightarrow>
                  if block_align \<noteq> expected_align \<or> byte_rate \<noteq> expected_rate then Some (Err MalformedContent)
                  else (case int_rem data_len block_align of
                          None \<Rightarrow> None
                        | Some r \<Rightarrow> if r \<noteq> 0 then Some (Err MalformedContent)
                                    else wave_frames ch rate bits block_align data_len))))"

definition wave_format :: "u8 list \<Rightarrow> int \<Rightarrow> pcm_wave_properties wave" where
  "wave_format fmt data_len =
     (case le_field fmt 0 2 of None \<Rightarrow> None | Some tag \<Rightarrow>
      if tag \<noteq> 1 then Some (Err UnsupportedFormat)
      else (case le_field fmt 2 4 of None \<Rightarrow> None | Some ch \<Rightarrow>
      case le_field fmt 4 8 of None \<Rightarrow> None | Some rate \<Rightarrow>
      case le_field fmt 8 12 of None \<Rightarrow> None | Some byte_rate \<Rightarrow>
      case le_field fmt 12 14 of None \<Rightarrow> None | Some block_align \<Rightarrow>
      case le_field fmt 14 16 of None \<Rightarrow> None | Some bits \<Rightarrow>
      wave_layout ch rate byte_rate block_align bits data_len))"

definition wave_finish :: "u8 list option \<times> int option \<Rightarrow> pcm_wave_properties wave" where
  "wave_finish found =
     (case found of
        (None, _) \<Rightarrow> Some (Err MalformedContent)
      | (Some fmt, None) \<Rightarrow> Some (Err MalformedContent)
      | (Some fmt, Some data_len) \<Rightarrow> wave_format fmt data_len)"

definition parse_pcm_wave :: "u8 list \<Rightarrow> pcm_wave_properties wave" where
  "parse_pcm_wave bytes =
     (if length bytes < 12 then Some (Err UnsupportedFormat)
      else if byte_slice bytes 0 4 \<noteq> Some (byte_string ''RIFF'') then
        (if byte_slice bytes 0 4 = None then None else Some (Err UnsupportedFormat))
      else if byte_slice bytes 8 12 \<noteq> Some (byte_string ''WAVE'') then
        (if byte_slice bytes 8 12 = None then None else Some (Err UnsupportedFormat))
      else (case le_field bytes 4 8 of
              None \<Rightarrow> None
            | Some riff_size \<Rightarrow> (case checked_add usize_width riff_size 8 of
                None \<Rightarrow> Some (Err MalformedContent)
              | Some riff_end \<Rightarrow>
                  if riff_end < 12 \<or> riff_end \<noteq> int (length bytes) then Some (Err MalformedContent)
                  else (case wave_chunks bytes riff_end 12 None None of
                          None \<Rightarrow> None
                        | Some (Inl e) \<Rightarrow> Some (Err e)
                        | Some (Inr found) \<Rightarrow> wave_finish found))))"

definition inspect_pcm_wave ::
  "int \<Rightarrow> (int \<Rightarrow> int \<Rightarrow> ('e, u8 list) result) \<Rightarrow> pcm_wave_properties wave" where
  "inspect_pcm_wave len read =
     (if len > MAX_WAVE_INPUT_BYTES then Some (Err ResourceLimit)
      else (case read 0 len of
              Inl _ \<Rightarrow> Some (Err ContentUnavailable)
            | Inr bytes \<Rightarrow> parse_pcm_wave bytes))"

section \<open>Image previews\<close>

text \<open>
  \<open>decode_image_preview\<close> hands the bytes to the \<open>image\<close> crate, whose decoder is the argument \<open>decode\<close>: it
  takes the format, the width, height and allocation limits and the bytes, and returns width, height and
  RGBA bytes, or a failure.
\<close>

datatype preview_error = UnsupportedMediaType | InputTooLarge | PreviewUnavailable | Malformed | PreviewResourceLimit

datatype image_format = Png | Jpeg | Gif | WebP

datatype image_error =
  LimitsError | UnsupportedError | UnexpectedEof | OtherIoError | DecodingError | EncodingError | ParameterError

record decoded_image =
  width :: u32
  height :: u32
  rgba :: "u8 list"

definition MAX_PREVIEW_INPUT_BYTES :: int where "MAX_PREVIEW_INPUT_BYTES = 8 * 1024 * 1024"
definition MAX_PREVIEW_DIMENSION :: u32 where "MAX_PREVIEW_DIMENSION = 4096"
definition MAX_PREVIEW_PIXELS :: u64 where "MAX_PREVIEW_PIXELS = 4 * 1024 * 1024"
definition MAX_DECODER_ALLOCATION :: u64 where "MAX_DECODER_ALLOCATION = 16 * 1024 * 1024"

fun preview_error_of :: "image_error \<Rightarrow> preview_error" where
  "preview_error_of LimitsError = PreviewResourceLimit"
| "preview_error_of UnsupportedError = UnsupportedMediaType"
| "preview_error_of UnexpectedEof = Malformed"
| "preview_error_of OtherIoError = PreviewUnavailable"
| "preview_error_of DecodingError = Malformed"
| "preview_error_of EncodingError = Malformed"
| "preview_error_of ParameterError = Malformed"

definition preview_format :: "string \<Rightarrow> image_format option" where
  "preview_format essence =
     (if essence = ''image/png'' then Some Png
      else if essence = ''image/jpeg'' then Some Jpeg
      else if essence = ''image/gif'' then Some Gif
      else if essence = ''image/webp'' then Some WebP
      else None)"

definition decode_image_preview ::
  "string \<Rightarrow> int \<Rightarrow> (int \<Rightarrow> int \<Rightarrow> ('e, u8 list) result)
   \<Rightarrow> (image_format \<Rightarrow> u32 \<Rightarrow> u32 \<Rightarrow> u64 \<Rightarrow> u8 list \<Rightarrow> (image_error, decoded_image) result)
   \<Rightarrow> (preview_error, decoded_image) result" where
  "decode_image_preview essence len read decode =
     (case preview_format essence of
        None \<Rightarrow> Err UnsupportedMediaType
      | Some format \<Rightarrow>
          if len > MAX_PREVIEW_INPUT_BYTES then Err InputTooLarge
          else (case read 0 len of
                  Inl _ \<Rightarrow> Err PreviewUnavailable
                | Inr bytes \<Rightarrow>
                    (case decode format MAX_PREVIEW_DIMENSION MAX_PREVIEW_DIMENSION MAX_DECODER_ALLOCATION bytes of
                       Inl e \<Rightarrow> Err (preview_error_of e)
                     | Inr decoded \<Rightarrow>
                         if width decoded = 0 \<or> height decoded = 0 then Err Malformed
                         else if width decoded > MAX_PREVIEW_DIMENSION \<or> height decoded > MAX_PREVIEW_DIMENSION
                                 \<or> (ucast (width decoded) :: u64) * ucast (height decoded) > MAX_PREVIEW_PIXELS
                         then Err PreviewResourceLimit
                         else Ok decoded)))"

section \<open>Bytes and fields\<close>

lemma from_le_bytes_bounds: "0 \<le> from_le_bytes bs \<and> from_le_bytes bs < 256 ^ length bs"
proof (induction bs)
  case (Cons b bs)
  moreover have "uint b < 256" using uint_lt2p [of b] by simp
  ultimately show ?case by simp
qed simp

lemma byte_slice_Some:
  "0 \<le> a \<Longrightarrow> a \<le> b \<Longrightarrow> b \<le> int (length xs) \<Longrightarrow>
   byte_slice xs a b = Some (take (nat (b - a)) (drop (nat a) xs))"
  by (simp add: byte_slice_def)

lemma byte_slice_length: "byte_slice xs a b = Some ys \<Longrightarrow> int (length ys) = b - a"
  by (auto simp: byte_slice_def split: if_splits)

lemma byte_slice_append:
  "byte_slice (xs @ ys @ zs) (int (length xs)) (int (length xs) + int (length ys)) = Some ys"
  by (simp add: byte_slice_def)

lemma field_total:
  assumes "0 \<le> a" and "a \<le> b" and "b \<le> int (length xs)"
  shows "\<exists>v. le_field xs a b = Some v \<and> 0 \<le> v \<and> v < 256 ^ nat (b - a)"
proof -
  let ?bs = "take (nat (b - a)) (drop (nat a) xs)"
  have "length ?bs = nat (b - a)" using assms by auto
  with from_le_bytes_bounds [of ?bs] assms show ?thesis by (simp add: le_field_def byte_slice_Some)
qed

section \<open>The chunk loop reads the chunks\<close>

text \<open>
  The body of a RIFF file as its list of chunks, identifier and payload. The length field has four bytes, and a payload
  of odd length is followed by one byte of padding, whatever its value.
\<close>

type_synonym chunk = "u8 list \<times> u8 list"

inductive riff_chunks :: "u8 list \<Rightarrow> chunk list \<Rightarrow> bool" where
  chunks_end: "riff_chunks [] []"
| chunks_more: "riff_chunks tail cs \<Longrightarrow> length i = 4 \<Longrightarrow> length len = 4 \<Longrightarrow> from_le_bytes len = int (length p)
    \<Longrightarrow> length pad = length p mod 2 \<Longrightarrow> riff_chunks (i @ len @ p @ pad @ tail) ((i, p) # cs)"

definition payloads :: "string \<Rightarrow> chunk list \<Rightarrow> u8 list list" where
  "payloads i cs = map snd (filter (\<lambda>c. fst c = byte_string i) cs)"

text \<open>The rules of the loop, read off the list of chunks.\<close>

fun scan_chunks :: "chunk list \<Rightarrow> u8 list option \<Rightarrow> int option \<Rightarrow>
    (wave_error, u8 list option \<times> int option) result" where
  "scan_chunks [] fmt data_len = Ok (fmt, data_len)"
| "scan_chunks ((i, p) # cs) fmt data_len =
     (if i = byte_string ''fmt '' then
        (if fmt \<noteq> None \<or> length p < 16 then Err MalformedContent else scan_chunks cs (Some p) data_len)
      else if i = byte_string ''data'' then
        (if data_len \<noteq> None then Err MalformedContent else scan_chunks cs fmt (Some (int (length p))))
      else scan_chunks cs fmt data_len)"

lemma chunk_at:
  assumes "a + 8 + m + m mod 2 \<le> length bytes" and "from_le_bytes (take 4 (drop (a + 4) bytes)) = int m"
    and "riff_chunks (drop (a + 8 + m + m mod 2) bytes) cs"
  shows "riff_chunks (drop a bytes) ((take 4 (drop a bytes), take m (drop (a + 8) bytes)) # cs)"
proof -
  have cut: "take y (drop x bytes) @ drop z bytes = drop x bytes" if "z = x + y" for x y z
    using append_take_drop_id [of y "drop x bytes"] that by (simp add: add.commute)
  have "drop a bytes = take 4 (drop a bytes) @ take 4 (drop (a + 4) bytes) @ take m (drop (a + 8) bytes)
      @ take (m mod 2) (drop (a + 8 + m) bytes) @ drop (a + 8 + m + m mod 2) bytes"
    by (simp only: cut [OF refl] cut [of "a + 8" "a + 4" 4, simplified])
  moreover have "riff_chunks \<dots> ((take 4 (drop a bytes), take m (drop (a + 8) bytes)) # cs)"
    using assms by (intro chunks_more) simp_all
  ultimately show ?thesis by simp
qed

lemma scan_chunks_Ok:
  "scan_chunks cs fmt data_len = Ok (Some f, Some n) \<longleftrightarrow>
     (case fmt of None \<Rightarrow> [] | Some g \<Rightarrow> [g]) @ payloads ''fmt '' cs = [f]
     \<and> list_all (\<lambda>p. 16 \<le> length p) (payloads ''fmt '' cs)
     \<and> (case data_len of None \<Rightarrow> [] | Some k \<Rightarrow> [k]) @ map (\<lambda>p. int (length p)) (payloads ''data'' cs) = [n]"
proof -
  have ne: "byte_string ''fmt '' \<noteq> byte_string ''data''" by code_simp
  show ?thesis
    unfolding payloads_def
    by (induction cs fmt data_len rule: scan_chunks.induct) (auto simp: ne ne [symmetric] split: option.splits)
qed

text \<open>One iteration of the loop, once the header of the chunk is known to be there.\<close>

lemma wave_chunks_step:
  assumes cursor: "cursor < riff_end" "\<not> riff_end < cursor + 8" and width: "riff_end < usize_width"
    and fields: "byte_slice bytes cursor (cursor + 4) = Some chunk_id"
      "byte_slice bytes (cursor + 4) (cursor + 8) = Some size_field"
    and size: "from_le_bytes size_field = n" "n mod 2 = k" and pos: "0 \<le> n" "0 \<le> k"
  shows "wave_chunks bytes riff_end cursor fmt data_len =
    (if riff_end < cursor + 8 + n + k then Some (Err MalformedContent)
     else if chunk_id = byte_string ''fmt '' then
       (if fmt \<noteq> None \<or> n < 16 then Some (Err MalformedContent)
        else (case byte_slice bytes (cursor + 8) (cursor + 8 + n) of
                None \<Rightarrow> None
              | Some body \<Rightarrow> wave_chunks bytes riff_end (cursor + 8 + n + k) (Some body) data_len))
     else if chunk_id = byte_string ''data'' then
       (if data_len \<noteq> None then Some (Err MalformedContent)
        else wave_chunks bytes riff_end (cursor + 8 + n + k) fmt (Some n))
     else wave_chunks bytes riff_end (cursor + 8 + n + k) fmt data_len)"
proof -
  have head: "checked_add usize_width cursor 8 = Some (cursor + 8)"
    using cursor width by (simp add: checked_add_def)
  show ?thesis
  proof (cases "riff_end < cursor + 8 + n + k")
    case True
    show ?thesis
    proof (cases "checked_add usize_width (cursor + 8) n")
      case None
      with True show ?thesis
        by (subst wave_chunks.simps) (simp add: head cursor fields size)
    next
      case (Some e)
      then have "e = cursor + 8 + n" by (simp add: checked_add_def split: if_splits)
      with Some True show ?thesis
        by (subst wave_chunks.simps) (simp add: head cursor fields size checked_add_def)
    qed
  next
    case False
    then have "checked_add usize_width (cursor + 8) n = Some (cursor + 8 + n)"
      and "checked_add usize_width (cursor + 8 + n) k = Some (cursor + 8 + n + k)"
      and "\<not> riff_end < cursor + 8 + n"
      using width pos by (simp_all add: checked_add_def)
    with False show ?thesis
      by (subst wave_chunks.simps) (simp add: head cursor fields size)
  qed
qed

text \<open>The loop ends, and what it accepts is a list of chunks that the rules accept.\<close>

lemma wave_chunks_sound:
  assumes "12 \<le> cursor" and "riff_end = int (length bytes)" and "riff_end < usize_width"
  shows "\<exists>r. wave_chunks bytes riff_end cursor fmt data_len = Some r
    \<and> (\<forall>found. r = Ok found \<longrightarrow>
         (\<exists>cs. riff_chunks (drop (nat cursor) bytes) cs \<and> scan_chunks cs fmt data_len = Ok found))"
  using assms
proof (induction "nat (riff_end - cursor)" arbitrary: cursor fmt data_len rule: less_induct)
  case less
  show ?case
  proof (cases "cursor < riff_end \<and> \<not> riff_end < cursor + 8")
    case False
    show ?thesis
    proof (cases "cursor < riff_end")
      case True
      with False have "wave_chunks bytes riff_end cursor fmt data_len = Some (Err MalformedContent)"
        by (subst wave_chunks.simps) (simp add: checked_add_def)
      then show ?thesis by simp
    next
      case False
      then have "wave_chunks bytes riff_end cursor fmt data_len = Some (Ok (fmt, data_len))"
        by (subst wave_chunks.simps) simp
      moreover have "drop (nat cursor) bytes = []" using False less.prems by simp
      ultimately show ?thesis
        by (auto intro!: exI [of _ "[]"] chunks_end)
    qed
  next
    case True
    define a where "a = nat cursor"
    define i where "i = take 4 (drop a bytes)"
    define m where "m = nat (from_le_bytes (take 4 (drop (a + 4) bytes)))"
    define body where "body = take m (drop (a + 8) bytes)"
    have c: "cursor = int a" using less.prems(1) by (simp add: a_def)
    have m: "from_le_bytes (take 4 (drop (a + 4) bytes)) = int m"
      using from_le_bytes_bounds by (simp add: m_def)
    have pos: "0 \<le> int m" "0 \<le> int m mod 2" by simp_all
    have fields: "byte_slice bytes cursor (cursor + 4) = Some i"
      "byte_slice bytes (cursor + 4) (cursor + 8) = Some (take 4 (drop (a + 4) bytes))"
      using True less.prems by (simp_all add: byte_slice_Some c i_def nat_add_distrib)
    note step = wave_chunks_step [OF _ _ less.prems(3) fields m refl pos]
    show ?thesis
    proof (cases "riff_end < cursor + 8 + int m + int m mod 2")
      case out: True
      with True show ?thesis by (subst step) simp_all
    next
      case False
      moreover have "int m mod 2 = int (m mod 2)" by (simp add: zmod_int)
      ultimately have inside: "a + 8 + m + m mod 2 \<le> length bytes"
        using less.prems(2) unfolding c by linarith
      have body: "byte_slice bytes (cursor + 8) (cursor + 8 + int m) = Some body" "length body = m"
        using inside by (simp_all add: byte_slice_Some c body_def nat_add_distrib)
      have end_at: "nat (cursor + 8 + int m + int m mod 2) = a + 8 + m + m mod 2"
        by (simp add: c nat_add_distrib nat_mod_distrib)
      have IH: "\<exists>r. wave_chunks bytes riff_end (cursor + 8 + int m + int m mod 2) f d = Some r
          \<and> (\<forall>found. r = Ok found \<longrightarrow>
               (\<exists>cs. riff_chunks (drop a bytes) ((i, body) # cs) \<and> scan_chunks cs f d = Ok found))" for f d
        using less.hyps [of "cursor + 8 + int m + int m mod 2" f d] True less.prems chunk_at [OF inside m]
        unfolding end_at i_def body_def by fastforce
      show ?thesis
        using True False IH [of "Some body" data_len] IH [of fmt "Some (int m)"] IH [of fmt data_len] body
        by (subst step) (fastforce simp: a_def [symmetric])+
    qed
  qed
qed

text \<open>What the format chunk admits: the numbers of an accepted file fit together.\<close>

definition wave_ok :: "int \<Rightarrow> pcm_wave_properties \<Rightarrow> bool" where
  "wave_ok data_len p \<longleftrightarrow>
     1 \<le> channels p \<and> channels p \<le> 32 \<and> 1 \<le> sample_rate p \<and> sample_rate p \<le> 384000
     \<and> bits_per_sample p \<in> {8, 16, 24, 32}
     \<and> frame_count p * (channels p * (bits_per_sample p div 8)) = data_len
     \<and> duration_nanos p = frame_count p * 1000000000 div sample_rate p"

definition format_fits :: "u8 list \<Rightarrow> pcm_wave_properties \<Rightarrow> bool" where
  "format_fits fmt p \<longleftrightarrow>
     le_field fmt 0 2 = Some 1 \<and> le_field fmt 2 4 = Some (channels p) \<and> le_field fmt 4 8 = Some (sample_rate p)
     \<and> le_field fmt 8 12 = Some (sample_rate p * (channels p * (bits_per_sample p div 8)))
     \<and> le_field fmt 12 14 = Some (channels p * (bits_per_sample p div 8))
     \<and> le_field fmt 14 16 = Some (bits_per_sample p) \<and> embedded_title p = None"

text \<open>The checks on the numbers, without the failures that cannot happen.\<close>

lemma wave_layout_eq:
  assumes "1 \<le> ch" and "ch \<le> 32" and "1 \<le> rate" and "rate \<le> 384000" and "bits \<in> {8, 16, 24, 32}"
    and "0 \<le> data_len" and "data_len < 4294967296 * 2"
  defines "a \<equiv> ch * (bits div 8)"
  shows "0 < a" and "wave_layout ch rate byte_rate block_align bits data_len =
    (if block_align \<noteq> a \<or> byte_rate \<noteq> rate * a \<or> data_len mod a \<noteq> 0 then Some (Err MalformedContent)
     else Some (Ok \<lparr>channels = ch, sample_rate = rate, bits_per_sample = bits, frame_count = data_len div a,
       duration_nanos = data_len div a * 1000000000 div rate, embedded_title = None\<rparr>))"
proof -
  define w where "w = bits div 8"
  have w: "1 \<le> w" "w \<le> 4" using assms(5) by (auto simp: w_def)
  have align: "1 \<le> a" "a \<le> 128"
    using mult_mono [of ch 32 w 4] mult_mono [of 1 ch 1 w] assms(1,2) w by (simp_all add: a_def w_def)
  show "0 < a" using align by simp
  have rate: "rate * a \<le> 384000 * 128" using mult_mono [of rate 384000 a 128] assms(3,4) align by simp
  have small: "data_len div a \<le> data_len" using zdiv_mono2 [of data_len 1 a] assms(6) align by simp
  then have frames: "data_len div a * 1000000000 < 18446744073709551616" using assms(7) by simp
  have steps: "checked_mul u16_width ch (bits div 8) = Some a" "checked_mul u32_width rate a = Some (rate * a)"
    using align rate by (simp_all add: checked_mul_def a_def)
  show "wave_layout ch rate byte_rate block_align bits data_len =
    (if block_align \<noteq> a \<or> byte_rate \<noteq> rate * a \<or> data_len mod a \<noteq> 0 then Some (Err MalformedContent)
     else Some (Ok \<lparr>channels = ch, sample_rate = rate, bits_per_sample = bits, frame_count = data_len div a,
       duration_nanos = data_len div a * 1000000000 div rate, embedded_title = None\<rparr>))"
    using assms(1-5) steps frames small assms(7) align
    by (auto simp: wave_layout_def wave_frames_def MAX_WAVE_CHANNELS_def MAX_WAVE_SAMPLE_RATE_def
        int_rem_def int_quot_def checked_mul_def)
qed

lemma wave_layout_iff:
  assumes "0 \<le> ch" and "0 \<le> rate" and "0 \<le> data_len" and "data_len < 4294967296 * 2"
  shows "wave_layout ch rate byte_rate block_align bits data_len \<noteq> None"
    and "wave_layout ch rate byte_rate block_align bits data_len = Some (Ok p) \<longleftrightarrow>
      ch = channels p \<and> rate = sample_rate p \<and> bits = bits_per_sample p \<and> block_align = ch * (bits div 8)
      \<and> byte_rate = rate * (ch * (bits div 8)) \<and> embedded_title p = None \<and> wave_ok data_len p"
proof -
  let ?run = "wave_layout ch rate byte_rate block_align bits data_len"
  have both: "?run \<noteq> None \<and> (?run = Some (Ok p) \<longleftrightarrow>
      ch = channels p \<and> rate = sample_rate p \<and> bits = bits_per_sample p \<and> block_align = ch * (bits div 8)
      \<and> byte_rate = rate * (ch * (bits div 8)) \<and> embedded_title p = None \<and> wave_ok data_len p)"
  proof (cases "(ch = 0 \<or> ch > 32 \<or> rate = 0 \<or> rate > 384000) \<or> bits \<notin> {8, 16, 24, 32}")
    case True
    then show ?thesis
      by (auto simp: wave_layout_def MAX_WAVE_CHANNELS_def MAX_WAVE_SAMPLE_RATE_def wave_ok_def)
  next
    case False
    with assms have small: "1 \<le> ch" "ch \<le> 32" "1 \<le> rate" "rate \<le> 384000" "bits \<in> {8, 16, 24, 32}" by auto
    define a where "a = ch * (bits div 8)"
    note layout = wave_layout_eq [OF small assms(3,4), folded a_def]
    have ok: "ch = channels p \<and> rate = sample_rate p \<and> bits = bits_per_sample p \<and> embedded_title p = None
        \<and> wave_ok data_len p \<longleftrightarrow> data_len mod a = 0 \<and>
        \<lparr>channels = ch, sample_rate = rate, bits_per_sample = bits, frame_count = data_len div a,
          duration_nanos = data_len div a * 1000000000 div rate, embedded_title = None\<rparr> = p"
      (is "?l \<longleftrightarrow> _ \<and> ?q = p")
    proof
      assume l: ?l
      then have whole: "frame_count p * a = data_len" and time: "duration_nanos p = frame_count p * 1000000000 div rate"
        by (auto simp: wave_ok_def a_def)
      from whole layout(1) have "data_len mod a = 0" "frame_count p = data_len div a" by auto
      with l time show "data_len mod a = 0 \<and> ?q = p" by (intro conjI pcm_wave_properties.equality) simp_all
    next
      assume r: "data_len mod a = 0 \<and> ?q = p"
      then have "data_len div a * (ch * (bits div 8)) = data_len" unfolding a_def by auto
      with r small show ?l unfolding wave_ok_def by (elim conjE) (drule sym, simp)
    qed
    show ?thesis
    proof (cases "block_align = a \<and> byte_rate = rate * a")
      case True
      then have "?run \<noteq> None" and "?run = Some (Ok p) \<longleftrightarrow> data_len mod a = 0 \<and>
          \<lparr>channels = ch, sample_rate = rate, bits_per_sample = bits, frame_count = data_len div a,
            duration_nanos = data_len div a * 1000000000 div rate, embedded_title = None\<rparr> = p"
        by (simp_all add: layout(2))
      with ok True show ?thesis unfolding a_def by blast
    next
      case False
      then show ?thesis by (auto simp: layout(2) a_def [symmetric])
    qed
  qed
  from both show "?run \<noteq> None" by blast
  from both show "?run = Some (Ok p) \<longleftrightarrow>
      ch = channels p \<and> rate = sample_rate p \<and> bits = bits_per_sample p \<and> block_align = ch * (bits div 8)
      \<and> byte_rate = rate * (ch * (bits div 8)) \<and> embedded_title p = None \<and> wave_ok data_len p" by blast
qed

lemma wave_format_iff:
  assumes "16 \<le> length fmt" and "0 \<le> data_len" and "data_len < 4294967296 * 2"
  shows "wave_format fmt data_len \<noteq> None"
    and "wave_format fmt data_len = Some (Ok p) \<longleftrightarrow> format_fits fmt p \<and> wave_ok data_len p"
proof -
  have f: "\<exists>v. le_field fmt a b = Some v \<and> 0 \<le> v" if "0 \<le> a" "a \<le> b" "b \<le> 16" for a b
    using field_total [of a b fmt] that assms(1) by fastforce
  obtain tag ch rate br ba bits where fields: "le_field fmt 0 2 = Some tag" "le_field fmt 2 4 = Some ch"
      "le_field fmt 4 8 = Some rate" "le_field fmt 8 12 = Some br" "le_field fmt 12 14 = Some ba"
      "le_field fmt 14 16 = Some bits" and pos: "0 \<le> ch" "0 \<le> rate"
    using f [of 0 2] f [of 2 4] f [of 4 8] f [of 8 12] f [of 12 14] f [of 14 16] by auto
  note layout = wave_layout_iff [OF pos assms(2,3)]
  show "wave_format fmt data_len \<noteq> None" using layout(1) by (simp add: wave_format_def fields)
  show "wave_format fmt data_len = Some (Ok p) \<longleftrightarrow> format_fits fmt p \<and> wave_ok data_len p"
    by (auto simp: wave_format_def fields layout(2) format_fits_def)
qed

section \<open>The accepted files\<close>

text \<open>The loop on a list of chunks, wherever it stands in the bytes.\<close>

lemma wave_chunks_complete:
  assumes "riff_chunks tail cs" and "int (length (pre @ tail)) < usize_width"
  shows "wave_chunks (pre @ tail) (int (length (pre @ tail))) (int (length pre)) fmt data_len
    = Some (scan_chunks cs fmt data_len)"
  using assms
proof (induction tail cs arbitrary: pre fmt data_len rule: riff_chunks.induct)
  case chunks_end
  then show ?case by (subst wave_chunks.simps) simp
next
  case (chunks_more tail cs i len p pad)
  let ?bytes = "pre @ i @ len @ p @ pad @ tail"
  have pad: "int (length p) mod 2 = int (length pad)" using chunks_more.hyps by (simp add: zmod_int)
  have IH: "wave_chunks ?bytes (int (length ?bytes)) (int (length pre) + 8 + int (length p) + int (length pad)) f d
      = Some (scan_chunks cs f d)" for f d
    using chunks_more.IH [of "pre @ i @ len @ p @ pad" f d] chunks_more.prems chunks_more.hyps
    by (simp add: add.assoc)
  have slices: "byte_slice ?bytes (int (length pre)) (int (length pre) + 4) = Some i"
      "byte_slice ?bytes (int (length pre) + 4) (int (length pre) + 8) = Some len"
      "byte_slice ?bytes (int (length pre) + 8) (int (length pre) + 8 + int (length p)) = Some p"
    using byte_slice_append [of pre i "len @ p @ pad @ tail"] byte_slice_append [of "pre @ i" len "p @ pad @ tail"]
      byte_slice_append [of "pre @ i @ len" p "pad @ tail"] chunks_more.hyps
    by (simp_all add: add.assoc)
  have total: "int (length ?bytes) = int (length pre) + 8 + int (length p) + int (length pad) + int (length tail)"
    using chunks_more.hyps by simp
  show ?case
    using slices(3) total IH
    by (subst wave_chunks_step [OF _ _ chunks_more.prems slices(1,2) chunks_more.hyps(4) pad]) auto
qed

lemma payload_length:
  assumes "riff_chunks tail cs" and "samples \<in> set (payloads i cs)"
  shows "length samples \<le> length tail"
proof -
  have "c \<in> set cs \<Longrightarrow> length (snd c) \<le> length tail" for c
    using assms(1) by (induction rule: riff_chunks.induct) auto
  with assms(2) show ?thesis by (auto simp: payloads_def)
qed

lemma wave_finish_iff:
  assumes scan: "scan_chunks cs None None = Ok found" and tail: "riff_chunks tail cs" "int (length tail) < 4294967296 * 2"
  shows "wave_finish found \<noteq> None"
    and "wave_finish found = Some (Ok p) \<longleftrightarrow>
      (\<exists>fmt samples. payloads ''fmt '' cs = [fmt] \<and> payloads ''data'' cs = [samples] \<and> 16 \<le> length fmt
         \<and> format_fits fmt p \<and> wave_ok (int (length samples)) p)"
proof -
  have both: "wave_finish found \<noteq> None \<and> (wave_finish found = Some (Ok p) \<longleftrightarrow>
      (\<exists>fmt samples. payloads ''fmt '' cs = [fmt] \<and> payloads ''data'' cs = [samples] \<and> 16 \<le> length fmt
         \<and> format_fits fmt p \<and> wave_ok (int (length samples)) p))"
  proof (cases "\<exists>fmt samples. payloads ''fmt '' cs = [fmt] \<and> payloads ''data'' cs = [samples] \<and> 16 \<le> length fmt")
    case True
    then obtain fmt samples where one: "payloads ''fmt '' cs = [fmt]" "payloads ''data'' cs = [samples]" "16 \<le> length fmt"
      by blast
    then have "found = (Some fmt, Some (int (length samples)))"
      using scan_chunks_Ok [of cs None None fmt "int (length samples)"] scan by simp
    moreover have "length samples \<le> length tail" using payload_length [OF tail(1), of samples "''data''"] one(2) by simp
    ultimately show ?thesis
      using wave_format_iff [OF one(3), of "int (length samples)"] tail(2) one by (simp add: wave_finish_def)
  next
    case False
    have "\<not> (\<exists>fmt n. found = (Some fmt, Some n))"
    proof
      assume "\<exists>fmt n. found = (Some fmt, Some n)"
      then obtain fmt n where "payloads ''fmt '' cs = [fmt]" "list_all (\<lambda>p. 16 \<le> length p) (payloads ''fmt '' cs)"
          "map (\<lambda>p. int (length p)) (payloads ''data'' cs) = [n]"
        using scan scan_chunks_Ok [of cs None None] by auto
      with False show False by auto
    qed
    then have "wave_finish found = Some (Err MalformedContent)"
      by (cases found) (auto simp: wave_finish_def split: option.splits)
    with False show ?thesis by auto
  qed
  from both show "wave_finish found \<noteq> None" by blast
  from both show "wave_finish found = Some (Ok p) \<longleftrightarrow>
      (\<exists>fmt samples. payloads ''fmt '' cs = [fmt] \<and> payloads ''data'' cs = [samples] \<and> 16 \<le> length fmt
         \<and> format_fits fmt p \<and> wave_ok (int (length samples)) p)" by blast
qed

text \<open>The header in front of the chunks.\<close>

definition riff_wave :: "u8 list \<Rightarrow> u8 list \<Rightarrow> bool" where
  "riff_wave bytes tail \<longleftrightarrow> (\<exists>len. bytes = byte_string ''RIFF'' @ len @ byte_string ''WAVE'' @ tail
     \<and> length len = 4 \<and> from_le_bytes len = int (length tail) + 4)"

lemma four_letters: "length (byte_string ''RIFF'') = 4" "length (byte_string ''WAVE'') = 4"
  by (simp_all add: byte_string_def)

lemma parse_after_header:
  assumes "riff_wave bytes tail"
  shows "parse_pcm_wave bytes = (case wave_chunks bytes (int (length bytes)) 12 None None of
     None \<Rightarrow> None | Some (Inl e) \<Rightarrow> Some (Err e) | Some (Inr found) \<Rightarrow> wave_finish found)"
    and "int (length bytes) = int (length tail) + 12" and "int (length tail) < 4294967296"
proof -
  obtain len where bytes: "bytes = byte_string ''RIFF'' @ len @ byte_string ''WAVE'' @ tail"
    and len: "length len = 4" "from_le_bytes len = int (length tail) + 4"
    using assms by (auto simp: riff_wave_def)
  show total: "int (length bytes) = int (length tail) + 12" by (simp add: bytes len four_letters)
  show small: "int (length tail) < 4294967296" using from_le_bytes_bounds [of len] by (simp add: len)
  have "byte_slice bytes 0 4 = Some (byte_string ''RIFF'')" "byte_slice bytes 8 12 = Some (byte_string ''WAVE'')"
      "le_field bytes 4 8 = Some (int (length tail) + 4)"
    using byte_slice_append [of "[]" "byte_string ''RIFF''" "len @ byte_string ''WAVE'' @ tail"]
      byte_slice_append [of "byte_string ''RIFF''" len "byte_string ''WAVE'' @ tail"]
      byte_slice_append [of "byte_string ''RIFF'' @ len" "byte_string ''WAVE''" tail]
    by (simp_all add: bytes len four_letters le_field_def)
  moreover have "\<not> length bytes < 12" using total by linarith
  ultimately show "parse_pcm_wave bytes = (case wave_chunks bytes (int (length bytes)) 12 None None of
     None \<Rightarrow> None | Some (Inl e) \<Rightarrow> Some (Err e) | Some (Inr found) \<Rightarrow> wave_finish found)"
    using total small by (simp add: parse_pcm_wave_def checked_add_def add.commute)
qed

lemma parse_without_header:
  assumes "\<nexists>tail. riff_wave bytes tail"
  shows "\<exists>e. parse_pcm_wave bytes = Some (Err e)"
proof (cases "length bytes < 12")
  case True
  then show ?thesis by (simp add: parse_pcm_wave_def)
next
  case False
  define riff where "riff = take 4 bytes"
  define len where "len = take 4 (drop 4 bytes)"
  define form where "form = take 4 (drop 8 bytes)"
  have slices: "byte_slice bytes 0 4 = Some riff" "byte_slice bytes 8 12 = Some form"
      "le_field bytes 4 8 = Some (from_le_bytes len)"
    using False by (simp_all add: byte_slice_Some le_field_def riff_def len_def form_def)
  have cut: "take y (drop x bytes) @ drop z bytes = drop x bytes" if "z = x + y" for x y z
    using append_take_drop_id [of y "drop x bytes"] that by (simp add: add.commute)
  have bytes: "bytes = riff @ len @ form @ drop 12 bytes"
    using cut [of 4 0 4] cut [of 8 4 4] cut [of 12 8 4] by (simp add: riff_def len_def form_def)
  have "length len = 4" "0 \<le> from_le_bytes len" "from_le_bytes len < 4294967296"
    using False from_le_bytes_bounds [of len] by (simp_all add: len_def)
  then have add: "checked_add usize_width (from_le_bytes len) 8 = Some (from_le_bytes len + 8)"
    by (simp add: checked_add_def)
  have "\<not> (riff = byte_string ''RIFF'' \<and> form = byte_string ''WAVE'' \<and> from_le_bytes len + 8 = int (length bytes))"
  proof
    assume h: "riff = byte_string ''RIFF'' \<and> form = byte_string ''WAVE'' \<and> from_le_bytes len + 8 = int (length bytes)"
    then have "from_le_bytes len = int (length (drop 12 bytes)) + 4" using False by simp
    with h bytes \<open>length len = 4\<close> have "riff_wave bytes (drop 12 bytes)" unfolding riff_wave_def by metis
    with assms show False by blast
  qed
  then show ?thesis using False slices add by (auto simp: parse_pcm_wave_def)
qed

lemma riff_wave_drop: "riff_wave bytes tail \<Longrightarrow> tail = drop 12 bytes"
  by (auto simp: riff_wave_def four_letters)

text \<open>Behind a header, the parser decides on the one list of chunks that the bytes are, or refuses.\<close>

lemma parse_chunks:
  assumes riff: "riff_wave bytes tail"
  shows "(\<exists>cs found. riff_chunks tail cs \<and> parse_pcm_wave bytes = wave_finish found
       \<and> (\<forall>ds. riff_chunks tail ds \<longrightarrow> scan_chunks ds None None = Ok found))
     \<or> (\<exists>e. parse_pcm_wave bytes = Some (Err e)) \<and> (\<forall>ds found. riff_chunks tail ds \<longrightarrow> scan_chunks ds None None \<noteq> Ok found)"
proof -
  let ?run = "wave_chunks bytes (int (length bytes)) 12 None None"
  note parse = parse_after_header [OF riff]
  have width: "int (length bytes) < usize_width" using parse(2,3) by linarith
  have tail: "drop 12 bytes = tail" using riff_wave_drop [OF riff] by simp
  have bytes: "take 12 bytes @ tail = bytes" "int (length (take 12 bytes)) = 12"
    using append_take_drop_id [of 12 bytes] parse(2) by (simp_all add: tail)
  have complete: "?run = Some (scan_chunks ds None None)" if "riff_chunks tail ds" for ds
    using wave_chunks_complete [OF that, of "take 12 bytes" None None] width unfolding bytes by blast
  obtain r where r: "?run = Some r"
      "\<forall>found. r = Ok found \<longrightarrow> (\<exists>cs. riff_chunks tail cs \<and> scan_chunks cs None None = Ok found)"
    using wave_chunks_sound [OF _ refl width, of 12 None None] by (auto simp: tail)
  show ?thesis
  proof (cases r)
    case (Inl e)
    with r(1) complete have "scan_chunks ds None None \<noteq> Ok found" if "riff_chunks tail ds" for ds found
      using that by fastforce
    with Inl r(1) show ?thesis by (simp add: parse(1))
  next
    case (Inr found)
    with r obtain cs where cs: "riff_chunks tail cs" by blast
    have "parse_pcm_wave bytes = wave_finish found" using Inr r(1) by (simp add: parse(1))
    moreover have "scan_chunks ds None None = Ok found" if "riff_chunks tail ds" for ds
      using complete [OF that] r(1) Inr by simp
    ultimately show ?thesis using cs by blast
  qed
qed

section \<open>Properties\<close>

text \<open>
  C39. The WAVE parser always returns, and accepts exactly the well-formed PCM files. On every byte sequence the chunk
  loop ends, no slice is out of range and no division is by zero. It accepts a sequence with the properties
  \<open>p\<close> exactly when that is a \<open>RIFF\<close> \<open>WAVE\<close> header with the length of the file followed
  by chunks, of which exactly one is a format chunk of at least sixteen bytes and exactly one a data chunk; the format
  chunk has the PCM tag, the channel count, sample rate and sample width of \<open>p\<close> and the block alignment
  and byte rate that follow from them; and the numbers fit: they are in the admitted ranges, the frames account for
  every byte of the data chunk, and the duration is the frame count at the sample rate.
\<close>

theorem parse_pcm_wave_exact:
  "(\<exists>r. parse_pcm_wave bytes = Some r)
   \<and> (parse_pcm_wave bytes = Some (Ok p) \<longleftrightarrow>
      (\<exists>tail cs fmt samples. riff_wave bytes tail \<and> riff_chunks tail cs
         \<and> payloads ''fmt '' cs = [fmt] \<and> payloads ''data'' cs = [samples] \<and> 16 \<le> length fmt
         \<and> format_fits fmt p \<and> wave_ok (int (length samples)) p))" (is "_ \<and> (_ \<longleftrightarrow> ?wf)")
proof (cases "\<exists>tail. riff_wave bytes tail")
  case False
  with parse_without_header show ?thesis by fastforce
next
  case True
  then obtain tail where riff: "riff_wave bytes tail" by blast
  have one: "rest = tail" if "riff_wave bytes rest" for rest using riff_wave_drop that riff by metis
  have small: "int (length tail) < 4294967296 * 2" using parse_after_header(3) [OF riff] by simp
  consider (found) cs found where "riff_chunks tail cs" "parse_pcm_wave bytes = wave_finish found"
      "\<And>ds. riff_chunks tail ds \<Longrightarrow> scan_chunks ds None None = Ok found"
    | (refused) e where "parse_pcm_wave bytes = Some (Err e)"
      "\<And>ds found. riff_chunks tail ds \<Longrightarrow> scan_chunks ds None None \<noteq> Ok found"
    using parse_chunks [OF riff] by blast
  then show ?thesis
  proof cases
    case found
    note finish = wave_finish_iff [OF found(3) _ small]
    have "parse_pcm_wave bytes = Some (Ok p)" if ?wf
    proof -
      from that obtain rest ds fmt samples where "riff_wave bytes rest" and ds: "riff_chunks rest ds"
          "payloads ''fmt '' ds = [fmt]" "payloads ''data'' ds = [samples]" "16 \<le> length fmt"
          "format_fits fmt p" "wave_ok (int (length samples)) p" by blast
      then have "rest = tail" by (intro one)
      with ds(1) finish(2) [of ds p] ds(2-) show ?thesis unfolding found(2) by blast
    qed
    moreover have ?wf if "parse_pcm_wave bytes = Some (Ok p)"
      using that finish(2) [OF found(1) found(1), of p] found(1) riff unfolding found(2) by blast
    ultimately show ?thesis using finish(1) [OF found(1) found(1)] found(2) by auto
  next
    case refused
    have "\<not> ?wf"
    proof
      assume ?wf
      then obtain rest ds fmt samples where "riff_wave bytes rest" and ds: "riff_chunks rest ds"
          "payloads ''fmt '' ds = [fmt]" "payloads ''data'' ds = [samples]" "16 \<le> length fmt" by blast
      then have "rest = tail" by (intro one)
      with ds refused(2) [of ds] scan_chunks_Ok [of ds None None fmt "int (length samples)"] show False by simp
    qed
    with refused(1) show ?thesis by auto
  qed
qed

section \<open>Written files are read back\<close>

fun to_le_bytes :: "nat \<Rightarrow> int \<Rightarrow> u8 list" where
  "to_le_bytes 0 v = []"
| "to_le_bytes (Suc k) v = word_of_int v # to_le_bytes k (v div 256)"

definition render_chunk :: "chunk \<Rightarrow> u8 list" where
  "render_chunk c =
     fst c @ to_le_bytes 4 (int (length (snd c))) @ snd c @ (if odd (length (snd c)) then [0] else [])"

definition render_chunks :: "chunk list \<Rightarrow> u8 list" where
  "render_chunks cs = concat (map render_chunk cs)"

definition wave_file :: "chunk list \<Rightarrow> u8 list" where
  "wave_file cs =
     byte_string ''RIFF'' @ to_le_bytes 4 (int (length (render_chunks cs)) + 4) @ byte_string ''WAVE'' @ render_chunks cs"

definition pcm_format :: "int \<Rightarrow> int \<Rightarrow> int \<Rightarrow> u8 list" where
  "pcm_format ch rate bits =
     to_le_bytes 2 1 @ to_le_bytes 2 ch @ to_le_bytes 4 rate @ to_le_bytes 4 (rate * (ch * (bits div 8)))
     @ to_le_bytes 2 (ch * (bits div 8)) @ to_le_bytes 2 bits"

definition chunks_fit :: "chunk list \<Rightarrow> bool" where
  "chunks_fit cs \<longleftrightarrow> list_all (\<lambda>c. length (fst c) = 4) cs \<and> int (length (render_chunks cs)) + 4 < u32_width"

lemma length_to_le_bytes [simp]: "length (to_le_bytes k v) = k"
  by (induction k v rule: to_le_bytes.induct) auto

lemma from_to_le_bytes: "0 \<le> v \<Longrightarrow> v < 256 ^ k \<Longrightarrow> from_le_bytes (to_le_bytes k v) = v"
proof (induction k v rule: to_le_bytes.induct)
  case (2 k v)
  have "v div 256 < 256 ^ k" using "2.prems" by (simp add: div_less_iff_less_mult)
  with 2 have "from_le_bytes (to_le_bytes k (v div 256)) = v div 256" by simp
  moreover have "uint (word_of_int v :: u8) = v mod 256" by (simp add: uint_word_of_int)
  ultimately show ?case by simp
qed simp

lemma riff_chunks_render: "chunks_fit cs \<Longrightarrow> riff_chunks (render_chunks cs) cs"
proof (induction cs)
  case Nil
  then show ?case by (simp add: render_chunks_def chunks_end)
next
  case (Cons c cs)
  obtain i p where c: "c = (i, p)" by (cases c)
  have fit: "length i = 4" "chunks_fit cs" "int (length p) < 256 ^ 4"
    using Cons.prems by (auto simp: chunks_fit_def c render_chunks_def render_chunk_def)
  have pad: "length (if odd (length p) then [0 :: u8] else []) = length p mod 2" by (simp add: odd_iff_mod_2_eq_one)
  show ?case
    using chunks_more [OF Cons.IH [OF fit(2)] fit(1) _ from_to_le_bytes [OF _ fit(3)] pad]
    by (simp add: render_chunks_def render_chunk_def c)
qed

lemma riff_wave_file: "chunks_fit cs \<Longrightarrow> riff_wave (wave_file cs) (render_chunks cs)"
  by (auto simp: riff_wave_def wave_file_def chunks_fit_def from_to_le_bytes)

lemma field_append:
  assumes "a = int (length xs)" and "b = a + int k" and "0 \<le> v" and "v < 256 ^ k"
  shows "le_field (xs @ to_le_bytes k v @ zs) a b = Some v"
  using byte_slice_append [of xs "to_le_bytes k v" zs] assms by (simp add: le_field_def from_to_le_bytes)

lemma format_fits_pcm:
  assumes "1 \<le> ch" and "ch \<le> 32" and "1 \<le> rate" and "rate \<le> 384000" and "bits \<in> {8, 16, 24, 32}"
    and "channels p = ch" "sample_rate p = rate" "bits_per_sample p = bits" "embedded_title p = None"
  shows "format_fits (pcm_format ch rate bits @ extra) p"
proof -
  define a where "a = ch * (bits div 8)"
  have a: "0 < a" "a \<le> 128"
    using mult_mono [of ch 32 "bits div 8" 4] assms(1,2,5) by (auto simp: a_def)
  have r: "rate * a \<le> 384000 * 128" "0 \<le> rate * a" using mult_mono [of rate 384000 a 128] assms(3,4) a by simp_all
  let ?f = "pcm_format ch rate bits @ extra"
  note pcm = pcm_format_def a_def [symmetric]
  have "le_field ?f 0 2 = Some 1"
    using field_append [of 0 "[]" 2 2 1] by (simp add: pcm)
  moreover have "le_field ?f 2 4 = Some ch"
    using field_append [of 2 "to_le_bytes 2 1" 4 2 ch] assms by (simp add: pcm)
  moreover have "le_field ?f 4 8 = Some rate"
    using field_append [of 4 "to_le_bytes 2 1 @ to_le_bytes 2 ch" 8 4 rate] assms by (simp add: pcm)
  moreover have "le_field ?f 8 12 = Some (rate * a)"
    using field_append [of 8 "to_le_bytes 2 1 @ to_le_bytes 2 ch @ to_le_bytes 4 rate" 12 4 "rate * a"] r
    by (simp add: pcm)
  moreover have "le_field ?f 12 14 = Some a"
    using field_append [of 12 "to_le_bytes 2 1 @ to_le_bytes 2 ch @ to_le_bytes 4 rate @ to_le_bytes 4 (rate * a)" 14 2 a] a
    by (simp add: pcm)
  moreover have "le_field ?f 14 16 = Some bits"
    using field_append [of 14 "to_le_bytes 2 1 @ to_le_bytes 2 ch @ to_le_bytes 4 rate @ to_le_bytes 4 (rate * a)
        @ to_le_bytes 2 a" 16 2 bits] assms(5)
    by (auto simp: pcm)
  ultimately show ?thesis using assms(6-9) by (simp add: format_fits_def a_def)
qed

text \<open>
  A WAVE file is read back: whatever other chunks it holds and in whatever order, a file
  with one PCM format chunk and one data chunk of whole frames has exactly the written
  channel count, sample rate, sample width and number of frames.
\<close>

lemma wave_file_is_well_formed:
  assumes "chunks_fit cs"
    and "payloads ''fmt '' cs = [pcm_format ch rate bits @ extra]" and "payloads ''data'' cs = [samples]"
    and "1 \<le> ch" and "ch \<le> 32" and "1 \<le> rate" and "rate \<le> 384000" and "bits \<in> {8, 16, 24, 32}"
    and "int (length samples) = frames * (ch * (bits div 8))"
  defines "p \<equiv> \<lparr>channels = ch, sample_rate = rate, bits_per_sample = bits, frame_count = frames,
      duration_nanos = frames * 1000000000 div rate, embedded_title = None\<rparr>"
  shows "riff_wave (wave_file cs) (render_chunks cs)" and "riff_chunks (render_chunks cs) cs"
    and "format_fits (pcm_format ch rate bits @ extra) p" and "wave_ok (int (length samples)) p"
proof -
  show "riff_wave (wave_file cs) (render_chunks cs)" and "riff_chunks (render_chunks cs) cs"
    using riff_wave_file [OF assms(1)] riff_chunks_render [OF assms(1)] by simp_all
  show "format_fits (pcm_format ch rate bits @ extra) p"
    by (rule format_fits_pcm [OF assms(4-8)]) (simp_all add: p_def)
  show "wave_ok (int (length samples)) p"
    unfolding wave_ok_def assms(9) using assms(4-8) by (simp add: p_def)
qed

declare wave_chunks.simps [code]

definition sample_wave :: "chunk list" where
  "sample_wave =
     [(byte_string ''LIST'', [1, 2, 3]),
      (byte_string ''data'', [0, 0, 1, 0, 2, 0, 3, 0]),
      (byte_string ''fmt '', pcm_format 2 8000 16)]"

definition sample_properties :: pcm_wave_properties where
  "sample_properties = \<lparr>channels = 2, sample_rate = 8000, bits_per_sample = 16, frame_count = 2,
     duration_nanos = 250000, embedded_title = None\<rparr>"

theorem parse_pcm_wave_exact_witness:
  "parse_pcm_wave (wave_file sample_wave) = Some (Ok sample_properties)"
proof -
  have cs: "chunks_fit sample_wave" "payloads ''fmt '' sample_wave = [pcm_format 2 8000 16 @ []]"
      "payloads ''data'' sample_wave = [[0, 0, 1, 0, 2, 0, 3, 0]]"
    by code_simp+
  have p: "\<lparr>channels = 2, sample_rate = 8000, bits_per_sample = 16, frame_count = 2,
      duration_nanos = 2 * 1000000000 div 8000, embedded_title = None\<rparr> = sample_properties"
    by (simp add: sample_properties_def)
  have numbers: "(1 :: int) \<le> 2" "(2 :: int) \<le> 32" "(1 :: int) \<le> 8000" "(8000 :: int) \<le> 384000"
      "(16 :: int) \<in> {8, 16, 24, 32}" "int (length [0, 0, 1, 0, 2, 0, 3, 0 :: u8]) = 2 * (2 * (16 div 8))"
    by simp_all
  note parts = wave_file_is_well_formed [OF cs numbers, unfolded p]
  have "16 \<le> length (pcm_format 2 8000 16 @ [])" by (simp add: pcm_format_def)
  with parts cs(2,3) show ?thesis
    by (intro parse_pcm_wave_exact [THEN conjunct2, THEN iffD2]) blast
qed

section \<open>Preview bounds\<close>

text \<open>A preview that is handed out has at least one and at most \<open>MAX_PREVIEW_PIXELS\<close> pixels, without wrap-around.\<close>

lemma preview_is_bounded:
  assumes "decode_image_preview essence len read decode = Ok p"
  shows "0 < unat (width p) * unat (height p) \<and> unat (width p) * unat (height p) \<le> 4 * 1024 * 1024
    \<and> len \<le> 8 * 1024 * 1024"
proof -
  have w: "width p \<noteq> 0" "height p \<noteq> 0" "width p \<le> 4096" "height p \<le> 4096"
    and px: "(ucast (width p) :: u64) * ucast (height p) \<le> 4 * 1024 * 1024" and len: "len \<le> 8 * 1024 * 1024"
    using assms
    by (auto simp: decode_image_preview_def MAX_PREVIEW_DIMENSION_def MAX_PREVIEW_PIXELS_def
        MAX_PREVIEW_INPUT_BYTES_def not_less split: option.splits if_splits sum.splits)
  have b: "unat (width p) \<le> 4096" "unat (height p) \<le> 4096"
    using w(3,4) by (simp_all add: word_le_nat_alt)
  have "unat (width p) * unat (height p) \<le> 4096 * 4096" using mult_le_mono [OF b] .
  moreover have "unat (ucast x :: u64) = unat x" for x :: u32
    using unsigned_less [of x, where ?'a = nat] by (simp add: unsigned_ucast_eq take_bit_nat_eq_self_iff)
  ultimately have "unat ((ucast (width p) :: u64) * ucast (height p)) = unat (width p) * unat (height p)"
    by (simp add: unat_word_ariths)
  with px have "unat (width p) * unat (height p) \<le> 4 * 1024 * 1024" by (simp add: word_le_nat_alt)
  moreover have "0 < unat (width p)" "0 < unat (height p)" using w(1,2) by (simp_all add: unat_gt_0)
  ultimately show ?thesis using len by simp
qed

end
