(* ===== verification/Orna_Path.thy ===== *)
theory Orna_Path
  imports Orna_Value
begin

text \<open>
  The repository key path codec of \<open>crates/orna-value/src/lib.rs\<close> (\<open>path_encode_component\<close> to
  \<open>reserved_name\<close>): a key component becomes a file name that every supported file system can hold.

  A \<open>String\<close> is its UTF-8 byte sequence. Encoded names are plain ASCII; \<open>~xx\<close> escapes a byte, and \<open>~ff\<close>,
  which no UTF-8 text contains, stands for the empty component.
\<close>

section \<open>Names\<close>

definition path_plain :: "u8 \<Rightarrow> bool" where
  "path_plain b \<longleftrightarrow>
     65 \<le> b \<and> b \<le> 90 \<or> 97 \<le> b \<and> b \<le> 122 \<or> 48 \<le> b \<and> b \<le> 57 \<or> b = 46 \<or> b = 95 \<or> b = 45"

definition byte_lowercase :: "u8 \<Rightarrow> u8" where
  "byte_lowercase b = (if 65 \<le> b \<and> b \<le> 90 then b + 32 else b)"

definition trim_name_end :: "u8 list \<Rightarrow> u8 list" where
  "trim_name_end s = rev (dropWhile (\<lambda>b. b = 32 \<or> b = 46) (rev s))"

definition device_name :: "u8 list \<Rightarrow> bool" where
  "device_name first \<longleftrightarrow>
     first \<in> set (map byte_string [''con'', ''prn'', ''aux'', ''nul'', ''clock$'', ''conin$'', ''conout$''])
     \<or> length first = 4
       \<and> (take 3 first = byte_string ''com'' \<or> take 3 first = byte_string ''lpt'')
       \<and> 49 \<le> first ! 3 \<and> first ! 3 \<le> 57"

definition reserved_name :: "u8 list \<Rightarrow> bool" where
  "reserved_name s \<longleftrightarrow>
     s = byte_string ''.'' \<or> s = byte_string ''..''
     \<or> (let lower = map byte_lowercase (trim_name_end s)
         in lower = byte_string ''.git'' \<or> device_name (takeWhile (\<lambda>b. b \<noteq> 46) lower))"

section \<open>Components\<close>

definition path_hex_digit :: "u8 \<Rightarrow> u8" where
  "path_hex_digit d = (if d < 10 then 48 + d else 87 + d)"

definition escape_byte :: "u8 \<Rightarrow> u8 list" where
  "escape_byte b = [126, path_hex_digit (b div 16), path_hex_digit (b mod 16)]"

text \<open>The index just past the last byte that is not a dot.\<close>

definition dots_from :: "u8 list \<Rightarrow> nat" where
  "dots_from text = length text - length (takeWhile (\<lambda>b. b = 46) (rev text))"

definition encode_byte :: "bool \<Rightarrow> nat \<Rightarrow> nat \<Rightarrow> u8 \<Rightarrow> u8 list" where
  "encode_byte reserved trailing i b =
     (let force = reserved \<and> i = 0 \<or> b = 46 \<and> trailing \<le> i
      in if \<not> force \<and> path_plain b then [b] else escape_byte b)"

fun encode_bytes_from :: "bool \<Rightarrow> nat \<Rightarrow> nat \<Rightarrow> u8 list \<Rightarrow> u8 list" where
  "encode_bytes_from reserved trailing i [] = []"
| "encode_bytes_from reserved trailing i (b # bs) =
     encode_byte reserved trailing i b @ encode_bytes_from reserved trailing (Suc i) bs"

definition path_encode_component :: "u8 list \<Rightarrow> (ovb_error, u8 list) result" where
  "path_encode_component text =
     (if text = [] then Ok (byte_string ''~ff'')
      else
        let out = encode_bytes_from (reserved_name text) (dots_from text) 0 text
        in if length out > 200 then Err InvalidPath else Ok out)"

fun contains_bytes :: "u8 list \<Rightarrow> u8 list \<Rightarrow> bool" where
  "contains_bytes pat [] \<longleftrightarrow> pat = []"
| "contains_bytes pat (b # bs) \<longleftrightarrow> take (length pat) (b # bs) = pat \<or> contains_bytes pat bs"

definition is_hex :: "u8 \<Rightarrow> bool" where
  "is_hex b \<longleftrightarrow> 48 \<le> b \<and> b \<le> 57 \<or> 97 \<le> b \<and> b \<le> 102"

definition hex_value :: "u8 \<Rightarrow> u8" where
  "hex_value b = (if b \<le> 57 then b - 48 else b - 87)"

fun decode_bytes :: "u8 list \<Rightarrow> (ovb_error, u8 list) result" where
  "decode_bytes [] = Ok []"
| "decode_bytes (b # bs) =
     (if b = 126 then
        (case bs of
           h1 # h2 # rest \<Rightarrow>
             if is_hex h1 \<and> is_hex h2 then
               (case decode_bytes rest of
                  Inl e \<Rightarrow> Err e
                | Inr out \<Rightarrow> Ok ((16 * hex_value h1 + hex_value h2) # out))
             else Err InvalidPath
         | _ \<Rightarrow> Err InvalidPath)
      else if \<not> path_plain b then Err InvalidPath
      else (case decode_bytes bs of Inl e \<Rightarrow> Err e | Inr out \<Rightarrow> Ok (b # out)))"

definition path_decode_component :: "u8 list \<Rightarrow> (ovb_error, u8 list) result" where
  "path_decode_component encoded =
     (if \<not> list_all (\<lambda>b. b < 128) encoded \<or> length encoded > 200 then Err InvalidPath
      else if encoded = byte_string ''~ff'' then Ok []
      else if contains_bytes (byte_string ''~ff'') encoded then Err InvalidPath
      else (case decode_bytes encoded of
              Inl e \<Rightarrow> Err e
            | Inr s \<Rightarrow>
                if \<not> utf8_valid s then Err InvalidPath
                else (case path_encode_component s of
                        Inl e \<Rightarrow> Err e
                      | Inr again \<Rightarrow> if again \<noteq> encoded then Err NonCanonical else Ok s)))"

definition path_collision_key :: "u8 list \<Rightarrow> u8 list" where
  "path_collision_key encoded = map byte_lowercase encoded"

section \<open>Keys\<close>

fun join_path :: "u8 list list \<Rightarrow> u8 list" where
  "join_path [] = []"
| "join_path [c] = c"
| "join_path (c # cs) = c @ 47 # join_path cs"

fun try_map :: "('a \<Rightarrow> ('e, 'b) result) \<Rightarrow> 'a list \<Rightarrow> ('e, 'b list) result" where
  "try_map f [] = Ok []"
| "try_map f (x # xs) =
     (case f x of
        Inl e \<Rightarrow> Err e
      | Inr y \<Rightarrow> (case try_map f xs of Inl e \<Rightarrow> Err e | Inr ys \<Rightarrow> Ok (y # ys)))"

definition path_encode_key_components :: "u8 list list \<Rightarrow> (ovb_error, u8 list list) result" where
  "path_encode_key_components components =
     (if components = [] then Err InvalidPath
      else (case try_map path_encode_component components of
              Inl e \<Rightarrow> Err e
            | Inr output \<Rightarrow>
                let output = butlast output @ [last output @ byte_string ''.orna'']
                in if length (join_path output) > 1024 then Err InvalidPath else Ok output))"

definition path_validate_relative_components :: "u8 list list \<Rightarrow> (ovb_error, unit) result" where
  "path_validate_relative_components components =
     (if components = []
         \<or> list_ex (\<lambda>c. c = [] \<or> c = byte_string ''.'' \<or> c = byte_string ''..'' \<or> 47 \<in> set c \<or> 92 \<in> set c) components
      then Err InvalidPath
      else if length (join_path components) > 1024 then Err InvalidPath
      else Ok ())"

fun path_length_from :: "nat \<Rightarrow> nat \<Rightarrow> u8 list list \<Rightarrow> (ovb_error, nat) result" where
  "path_length_from index acc [] = Ok acc"
| "path_length_from index acc (c # cs) =
     (let acc' = acc + length c + (if index \<noteq> 0 then 1 else 0)
      in if acc' \<le> 1024 then path_length_from (Suc index) acc' cs else Err InvalidPath)"

definition strip_suffix :: "u8 list \<Rightarrow> u8 list \<Rightarrow> u8 list option" where
  "strip_suffix suffix s =
     (if length suffix \<le> length s \<and> drop (length s - length suffix) s = suffix
      then Some (take (length s - length suffix) s) else None)"

definition path_decode_key_components :: "u8 list list \<Rightarrow> (ovb_error, u8 list list) result" where
  "path_decode_key_components components =
     (if components = [] then Err InvalidPath
      else (case path_length_from 0 0 components of
              Inl e \<Rightarrow> Err e
            | Inr _ \<Rightarrow> (case path_validate_relative_components components of
                Inl e \<Rightarrow> Err e
              | Inr _ \<Rightarrow> (case try_map path_decode_component (butlast components) of
                  Inl e \<Rightarrow> Err e
                | Inr decoded \<Rightarrow> (case strip_suffix (byte_string ''.orna'') (last components) of
                    None \<Rightarrow> Err InvalidPath
                  | Some stem \<Rightarrow> (case path_decode_component stem of
                      Inl e \<Rightarrow> Err e
                    | Inr l \<Rightarrow> Ok (decoded @ [l])))))))"

section \<open>Bytes\<close>

text \<open>A property of all bytes, by looking at each of them.\<close>

lemma all_bytes:
  assumes "list_all (\<lambda>n. P (word_of_int n)) [0..255]"
  shows "P (b :: u8)"
proof -
  have "uint b \<in> set [0..255]" using uint_lt2p [of b] by simp
  with assms have "P (word_of_int (uint b))" unfolding list_all_iff by blast
  then show ?thesis by simp
qed

definition byte_facts :: "u8 \<Rightarrow> bool" where
  "byte_facts b \<longleftrightarrow>
     is_hex (path_hex_digit (b div 16)) \<and> is_hex (path_hex_digit (b mod 16))
     \<and> 16 * hex_value (path_hex_digit (b div 16)) + hex_value (path_hex_digit (b mod 16)) = b
     \<and> path_plain (path_hex_digit (b div 16)) \<and> path_plain (path_hex_digit (b mod 16))
     \<and> path_hex_digit (b div 16) \<noteq> 46 \<and> path_hex_digit (b mod 16) \<noteq> 46
     \<and> (path_hex_digit (b div 16) = 102 \<and> path_hex_digit (b mod 16) = 102 \<longrightarrow> b = 255)
     \<and> (path_plain b \<longrightarrow> b < 128 \<and> b \<noteq> 126 \<and> b \<noteq> 47 \<and> b \<noteq> 92 \<and> b \<noteq> 32)
     \<and> (byte_lowercase b = 46 \<longleftrightarrow> b = 46) \<and> (byte_lowercase b = 126 \<longleftrightarrow> b = 126)
     \<and> (byte_lowercase b = 32 \<longleftrightarrow> b = 32)"

lemma byte_facts: "byte_facts b"
  by (rule all_bytes) code_simp

lemma escape_decodes [simp]:
  "decode_bytes (escape_byte b @ rest) =
     (case decode_bytes rest of Inl e \<Rightarrow> Err e | Inr out \<Rightarrow> Ok (b # out))"
  using byte_facts [of b] by (simp add: escape_byte_def byte_facts_def split: sum.splits)

lemma escape_byte_Cons: "\<exists>h1 h2. escape_byte b = [126, h1, h2] \<and> path_plain h1 \<and> path_plain h2 \<and> h1 \<noteq> 46 \<and> h2 \<noteq> 46
    \<and> h1 \<noteq> 126 \<and> h2 \<noteq> 126 \<and> (h1 = 102 \<and> h2 = 102 \<longrightarrow> b = 255)"
  using byte_facts [of b] byte_facts [of "path_hex_digit (b div 16)"] byte_facts [of "path_hex_digit (b mod 16)"]
  by (auto simp: escape_byte_def byte_facts_def)

lemma plain_byte: "path_plain b \<Longrightarrow> b < 128 \<and> b \<noteq> 126 \<and> b \<noteq> 47 \<and> b \<noteq> 92 \<and> b \<noteq> 32"
  using byte_facts [of b] by (simp add: byte_facts_def)

text \<open>An encoded byte is the byte itself or its escape.\<close>

lemma encode_byte_cases:
  obtains (plain) "encode_byte r t i b = [b]" "path_plain b" "\<not> (r \<and> i = 0)" "b = 46 \<longrightarrow> i < t"
    | (escaped) "encode_byte r t i b = escape_byte b"
proof (cases "path_plain b \<and> \<not> (r \<and> i = 0) \<and> (b = 46 \<longrightarrow> i < t)")
  case True
  then show ?thesis by (intro plain) (auto simp: encode_byte_def)
next
  case False
  then show ?thesis by (intro escaped) (auto simp: encode_byte_def)
qed

section \<open>Round trip of a component\<close>

lemma decode_encode_bytes: "decode_bytes (encode_bytes_from r t i xs) = Ok xs"
proof (induction xs arbitrary: i)
  case (Cons b bs)
  show ?case
  proof (cases rule: encode_byte_cases [where r = r and t = t and i = i and b = b])
    case plain
    then show ?thesis using Cons plain_byte [of b] by simp
  next
    case escaped
    then show ?thesis using Cons by simp
  qed
qed simp

definition name_bytes :: "u8 list \<Rightarrow> bool" where
  "name_bytes e \<longleftrightarrow> list_all (\<lambda>b. path_plain b \<or> b = 126) e"

lemma encode_bytes_name: "name_bytes (encode_bytes_from r t i xs)"
proof (induction xs arbitrary: i)
  case (Cons b bs)
  then show ?case
    using escape_byte_Cons [of b] by (cases rule: encode_byte_cases [where r = r and t = t and i = i and b = b]) (auto simp: name_bytes_def)
qed (simp add: name_bytes_def)

lemma name_bytes_ascii: "name_bytes e \<Longrightarrow> list_all (\<lambda>b. b < 128) e"
  using plain_byte by (fastforce simp: name_bytes_def list_all_iff)

lemma tilde_literal [simp]: "byte_string ''~ff'' = [126, 102, 102]"
  by code_simp

lemma no_empty_mark:
  "contains_bytes [126, 102, 102] (encode_bytes_from r t i xs) \<Longrightarrow> 255 \<in> set xs"
proof (induction xs arbitrary: i)
  case (Cons b bs)
  show ?case
  proof (cases rule: encode_byte_cases [where r = r and t = t and i = i and b = b])
    case plain
    then show ?thesis using Cons plain_byte [of b] by auto
  next
    case escaped
    obtain h1 h2 where "escape_byte b = [126, h1, h2]" "h1 \<noteq> 126" "h2 \<noteq> 126" "h1 = 102 \<and> h2 = 102 \<longrightarrow> b = 255"
      using escape_byte_Cons by blast
    with escaped Cons show ?thesis by auto
  qed
qed simp

lemma utf8_no_ff: "utf8_valid s \<Longrightarrow> 255 \<notin> set s"
  by (induction s rule: utf8_valid.induct)
    (auto simp: utf8_tail_def split: if_splits list.splits)

lemma component_iff:
  "path_decode_component e = Ok s \<longleftrightarrow> utf8_valid s \<and> path_encode_component s = Ok e"
proof
  assume "path_decode_component e = Ok s"
  then show "utf8_valid s \<and> path_encode_component s = Ok e"
    by (auto simp: path_decode_component_def path_encode_component_def Let_def split: if_splits sum.splits)
next
  assume s: "utf8_valid s \<and> path_encode_component s = Ok e"
  show "path_decode_component e = Ok s"
  proof (cases "s = []")
    case True
    with s show ?thesis by (auto simp: path_encode_component_def path_decode_component_def)
  next
    case False
    then have e: "e = encode_bytes_from (reserved_name s) (dots_from s) 0 s" and len: "length e \<le> 200"
      using s by (auto simp: path_encode_component_def Let_def split: if_splits)
    have "\<not> contains_bytes [126, 102, 102] e"
      using no_empty_mark utf8_no_ff s e by blast
    moreover from this have "e \<noteq> [126, 102, 102]" by auto
    moreover have "list_all (\<lambda>b. b < 128) e" unfolding e by (rule name_bytes_ascii [OF encode_bytes_name])
    moreover have "decode_bytes e = Ok s" unfolding e by (rule decode_encode_bytes)
    ultimately show ?thesis using s len by (simp add: path_decode_component_def)
  qed
qed

section \<open>Portable names\<close>

lemma trim_name_end_prefix:
  obtains u where "s = trim_name_end s @ u" and "\<forall>b \<in> set u. b = 32 \<or> b = 46"
    and "trim_name_end s = [] \<or> last (trim_name_end s) \<noteq> 32 \<and> last (trim_name_end s) \<noteq> 46"
proof
  let ?P = "\<lambda>b :: u8. b = 32 \<or> b = 46"
  have "rev s = takeWhile ?P (rev s) @ dropWhile ?P (rev s)" by simp
  then have "rev (rev s) = rev (takeWhile ?P (rev s) @ dropWhile ?P (rev s))" by (rule arg_cong)
  then show "s = trim_name_end s @ rev (takeWhile ?P (rev s))"
    by (simp only: rev_rev_ident rev_append trim_name_end_def)
  show "\<forall>b \<in> set (rev (takeWhile ?P (rev s))). b = 32 \<or> b = 46"
    by (auto dest: set_takeWhileD)
  have "dropWhile ?P (rev s) = [] \<or> \<not> ?P (hd (dropWhile ?P (rev s)))" using hd_dropWhile by blast
  then show "trim_name_end s = [] \<or> last (trim_name_end s) \<noteq> 32 \<and> last (trim_name_end s) \<noteq> 46"
    by (auto simp: trim_name_end_def last_rev)
qed

lemma trim_name_end_same:
  assumes "s = [] \<or> last s \<noteq> 32 \<and> last s \<noteq> 46"
  shows "trim_name_end s = s"
proof -
  obtain u where u: "s = trim_name_end s @ u" "\<forall>b \<in> set u. b = 32 \<or> b = 46"
    by (rule trim_name_end_prefix)
  have "u = []"
  proof (rule ccontr)
    assume "u \<noteq> []"
    then have "last s = last u" "last u \<in> set u" "s \<noteq> []" using u(1) by (metis last_appendR, simp, metis append_is_Nil_conv)
    with u(2) assms show False by auto
  qed
  with u show ?thesis by simp
qed

lemma encode_bytes_append:
  "encode_bytes_from r t i (xs @ ys) = encode_bytes_from r t i xs @ encode_bytes_from r t (i + length xs) ys"
  by (induction xs arbitrary: i) simp_all

lemma escape_last: "last (escape_byte b) \<noteq> 46 \<and> last (escape_byte b) \<noteq> 32 \<and> escape_byte b \<noteq> []"
  using escape_byte_Cons [of b] plain_byte by fastforce

lemma encode_bytes_last:
  assumes "xs \<noteq> []"
  shows "last (encode_bytes_from r (dots_from xs) 0 xs) \<noteq> 46 \<and> last (encode_bytes_from r (dots_from xs) 0 xs) \<noteq> 32
    \<and> encode_bytes_from r (dots_from xs) 0 xs \<noteq> []"
proof -
  obtain ys b where xs: "xs = ys @ [b]" using assms by (metis rev_exhaust)
  have dots: "b = 46 \<Longrightarrow> dots_from xs \<le> length ys" by (simp add: dots_from_def xs)
  show ?thesis
  proof (cases rule: encode_byte_cases [where r = r and t = "dots_from xs" and i = "length ys" and b = b])
    case plain
    then have "b \<noteq> 46" using dots by auto
    with plain plain_byte [of b] show ?thesis by (simp add: xs encode_bytes_append)
  next
    case escaped
    with escape_last [of b] show ?thesis by (simp add: xs encode_bytes_append)
  qed
qed

lemma encode_no_escape: "126 \<notin> set (encode_bytes_from r t i xs) \<Longrightarrow> encode_bytes_from r t i xs = xs"
proof (induction xs arbitrary: i)
  case (Cons b bs)
  then show ?case
    using escape_byte_Cons [of b]
    by (cases rule: encode_byte_cases [where r = r and t = t and i = i and b = b]) auto
qed simp

lemma encode_first_segment:
  "126 \<notin> set (takeWhile (\<lambda>b. b \<noteq> 46) (encode_bytes_from r t i xs)) \<Longrightarrow>
   takeWhile (\<lambda>b. b \<noteq> 46) (encode_bytes_from r t i xs) = takeWhile (\<lambda>b. b \<noteq> 46) xs"
proof (induction xs arbitrary: i)
  case (Cons b bs)
  then show ?case
    using escape_byte_Cons [of b]
    by (cases rule: encode_byte_cases [where r = r and t = t and i = i and b = b]) (auto split: if_splits)
qed simp

lemma lower_segment:
  "takeWhile (\<lambda>b. b \<noteq> 46) (map byte_lowercase xs) = map byte_lowercase (takeWhile (\<lambda>b. b \<noteq> 46) xs)"
  using byte_facts by (simp add: takeWhile_map comp_def byte_facts_def)

lemma trimmed_segment:
  assumes "32 \<notin> set (takeWhile (\<lambda>b. b \<noteq> 46) xs)"
  shows "takeWhile (\<lambda>b. b \<noteq> 46) (trim_name_end xs) = takeWhile (\<lambda>b. b \<noteq> 46) xs"
proof -
  obtain u where u: "xs = trim_name_end xs @ u" "\<forall>b \<in> set u. b = 32 \<or> b = 46"
    by (rule trim_name_end_prefix)
  show ?thesis
  proof (cases "46 \<in> set (trim_name_end xs)")
    case True
    then have "takeWhile (\<lambda>b. b \<noteq> 46) (trim_name_end xs @ u) = takeWhile (\<lambda>b. b \<noteq> 46) (trim_name_end xs)"
      by (intro takeWhile_append1) auto
    then show ?thesis using u(1) by simp
  next
    case False
    then have seg: "takeWhile (\<lambda>b. b \<noteq> 46) xs = trim_name_end xs @ takeWhile (\<lambda>b. b \<noteq> 46) u"
      by (subst u(1)) (auto intro: takeWhile_append2)
    with assms u(2) have "takeWhile (\<lambda>b. b \<noteq> 46) u = []"
      by (cases u) auto
    with seg False show ?thesis by (auto simp: takeWhile_eq_all_conv)
  qed
qed

lemma device_name_plain: "device_name f \<Longrightarrow> 126 \<notin> set f"
proof -
  assume "device_name f"
  then consider (named) "f \<in> set (map byte_string [''con'', ''prn'', ''aux'', ''nul'', ''clock$'', ''conin$'', ''conout$''])"
    | (numbered) "length f = 4" "take 3 f = byte_string ''com'' \<or> take 3 f = byte_string ''lpt''" "f ! 3 \<le> 57"
    by (auto simp: device_name_def)
  then show ?thesis
  proof cases
    case named
    have "list_all (\<lambda>g. 126 \<notin> set g)
        (map byte_string [''con'', ''prn'', ''aux'', ''nul'', ''clock$'', ''conin$'', ''conout$''])" by code_simp
    with named show ?thesis unfolding list_all_iff by blast
  next
    case numbered
    then obtain a b c d where f: "f = [a, b, c, d]" by (auto simp: numeral_eq_Suc length_Suc_conv)
    have "126 \<notin> set (byte_string ''com'')" "126 \<notin> set (byte_string ''lpt'')" by code_simp+
    then have "126 \<notin> set (take 3 f)" using numbered(2) by metis
    moreover have "d \<noteq> 126" using numbered(3) f by auto
    ultimately show ?thesis using f by auto
  qed
qed

lemma encoded_not_reserved:
  assumes ne: "xs \<noteq> []" and e: "e = encode_bytes_from (reserved_name xs) (dots_from xs) 0 xs"
  shows "\<not> reserved_name e"
proof
  assume res: "reserved_name e"
  have end_e: "last e \<noteq> 46" "last e \<noteq> 32" "e \<noteq> []" using encode_bytes_last [OF ne] e by auto
  then have trim: "trim_name_end e = e" by (intro trim_name_end_same) simp
  have first: "reserved_name xs \<Longrightarrow> hd e = 126"
    using ne by (cases xs) (auto simp: e encode_byte_def escape_byte_def)
  let ?seg = "takeWhile (\<lambda>b. b \<noteq> 46) e"
  have dots: "e \<noteq> byte_string ''.''" "e \<noteq> byte_string ''..''" using end_e(1) by (auto simp: byte_string_def)
  consider (git) "map byte_lowercase e = byte_string ''.git''" | (device) "device_name (map byte_lowercase ?seg)"
    using res dots by (auto simp: reserved_name_def Let_def trim lower_segment)
  then show False
  proof cases
    case git
    have "126 \<notin> set (byte_string ''.git'')" by code_simp
    then have "126 \<notin> byte_lowercase ` set e" using git by (metis set_map)
    moreover have "byte_lowercase 126 = 126" by code_simp
    ultimately have plain: "126 \<notin> set e" by force
    then have "e = xs" using encode_no_escape e by blast
    then have "reserved_name xs" using git trim by (simp add: reserved_name_def)
    with first plain end_e(3) show False by (cases e) auto
  next
    case device
    have "126 \<notin> byte_lowercase ` set ?seg" using device_name_plain [OF device] by simp
    moreover have "byte_lowercase 126 = 126" by code_simp
    ultimately have plain: "126 \<notin> set ?seg" by force
    then have seg: "?seg = takeWhile (\<lambda>b. b \<noteq> 46) xs" using encode_first_segment e by blast
    have "32 \<notin> set ?seg"
      using encode_bytes_name [of "reserved_name xs" "dots_from xs" 0 xs] plain_byte
      by (fastforce simp: e name_bytes_def list_all_iff dest: set_takeWhileD)
    then have "takeWhile (\<lambda>b. b \<noteq> 46) (trim_name_end xs) = ?seg" using seg trimmed_segment by metis
    with device have "reserved_name xs" by (simp add: reserved_name_def Let_def lower_segment)
    with first have "hd e = 126" by simp
    with end_e(3) plain show False by (cases e) auto
  qed
qed

definition portable_name :: "u8 list \<Rightarrow> bool" where
  "portable_name e \<longleftrightarrow>
     e \<noteq> [] \<and> length e \<le> 200 \<and> name_bytes e \<and> last e \<noteq> 46 \<and> \<not> reserved_name e"

lemma encoded_portable:
  assumes "path_encode_component xs = Ok e"
  shows "portable_name e"
proof (cases "xs = []")
  case True
  with assms have "e = [126, 102, 102]" by (simp add: path_encode_component_def)
  moreover have "portable_name [126, 102, 102]" by code_simp
  ultimately show ?thesis by simp
next
  case False
  with assms have e: "e = encode_bytes_from (reserved_name xs) (dots_from xs) 0 xs" and len: "length e \<le> 200"
    by (auto simp: path_encode_component_def Let_def split: if_splits)
  show ?thesis
    using encode_bytes_last [OF False] encoded_not_reserved [OF False e] encode_bytes_name len
    by (simp add: portable_name_def e)
qed

section \<open>Keys\<close>

lemma try_map_Ok: "try_map f xs = Ok ys \<longleftrightarrow> list_all2 (\<lambda>x y. f x = Ok y) xs ys"
proof (induction xs arbitrary: ys)
  case Nil
  then show ?case by auto
next
  case (Cons x xs)
  then show ?case
    by (cases "f x"; cases "try_map f xs") (auto simp: list_all2_Cons1)
qed

lemma try_map_append:
  "try_map f (xs @ [x]) =
     (case try_map f xs of Inl e \<Rightarrow> Err e | Inr ys \<Rightarrow> (case f x of Inl e \<Rightarrow> Err e | Inr y \<Rightarrow> Ok (ys @ [y])))"
  by (induction xs) (auto split: sum.splits)

lemma path_length_from_Ok:
  "acc \<le> 1024 \<Longrightarrow> (\<exists>n. path_length_from i acc cs = Ok n) \<longleftrightarrow>
   acc + length (join_path cs) + (if i \<noteq> 0 \<and> cs \<noteq> [] then 1 else 0) \<le> 1024"
proof (induction i acc cs rule: path_length_from.induct)
  case (2 i acc c cs)
  show ?case
  proof (cases "acc + length c + (if i \<noteq> 0 then 1 else 0) \<le> 1024")
    case True
    with 2 show ?thesis by (cases cs) (auto simp: Let_def)
  next
    case False
    then show ?thesis by (cases cs) (auto simp: Let_def)
  qed
qed simp

lemma strip_suffix_append [simp]: "strip_suffix x (s @ x) = Some s"
  by (simp add: strip_suffix_def)

lemma strip_suffix_Some: "strip_suffix x s = Some y \<Longrightarrow> s = y @ x"
  by (auto simp: strip_suffix_def split: if_splits) (metis append_take_drop_id)

lemma portable_relative:
  assumes "portable_name c"
  shows "c \<noteq> []" "c \<noteq> byte_string ''.''" "c \<noteq> byte_string ''..''" "47 \<notin> set c" "92 \<notin> set c"
proof -
  show "c \<noteq> []" using assms by (simp add: portable_name_def)
  show "c \<noteq> byte_string ''.''" "c \<noteq> byte_string ''..''" using assms by (auto simp: portable_name_def reserved_name_def)
  show "47 \<notin> set c" "92 \<notin> set c"
    using assms plain_byte [of 47] plain_byte [of 92] by (auto simp: portable_name_def name_bytes_def list_all_iff)
qed

lemma orna_suffix: "byte_string ''.orna'' = [46, 111, 114, 110, 97]"
  by code_simp

definition relative_name :: "u8 list \<Rightarrow> bool" where
  "relative_name c \<longleftrightarrow>
     c \<noteq> [] \<and> c \<noteq> byte_string ''.'' \<and> c \<noteq> byte_string ''..'' \<and> 47 \<notin> set c \<and> 92 \<notin> set c"

lemma relative_names: "portable_name c \<Longrightarrow> relative_name c" "portable_name c \<Longrightarrow> relative_name (c @ byte_string ''.orna'')"
  using portable_relative by (auto simp: relative_name_def orna_suffix byte_string_def append_eq_Cons_conv)

lemma validate_relative:
  "path_validate_relative_components cs = Ok () \<longleftrightarrow>
     cs \<noteq> [] \<and> list_all relative_name cs \<and> length (join_path cs) \<le> 1024"
  by (auto simp: path_validate_relative_components_def relative_name_def list_all_iff list_ex_iff)

lemma encode_key_snoc:
  "path_encode_key_components (ks @ [k]) = Ok cs \<longleftrightarrow>
     (\<exists>es e. try_map path_encode_component ks = Ok es \<and> path_encode_component k = Ok e
        \<and> cs = es @ [e @ byte_string ''.orna''] \<and> length (join_path cs) \<le> 1024)"
  by (auto simp: path_encode_key_components_def try_map_append Let_def split: sum.splits if_splits)

lemma decode_key_snoc:
  "path_decode_key_components (ds @ [d]) = Ok ks \<longleftrightarrow>
     (\<exists>us u stem. path_validate_relative_components (ds @ [d]) = Ok () \<and> d = stem @ byte_string ''.orna''
        \<and> try_map path_decode_component ds = Ok us \<and> path_decode_component stem = Ok u \<and> ks = us @ [u])"
proof -
  have len: "(\<exists>n. path_length_from 0 0 (ds @ [d]) = Ok n) \<longleftrightarrow> length (join_path (ds @ [d])) \<le> 1024"
    using path_length_from_Ok [of 0 0 "ds @ [d]"] by simp
  show ?thesis
  proof (cases "path_validate_relative_components (ds @ [d])")
    case (Inl e)
    then show ?thesis by (simp add: path_decode_key_components_def split: sum.splits)
  next
    case (Inr u)
    then have "length (join_path (ds @ [d])) \<le> 1024" using validate_relative [of "ds @ [d]"] by simp
    with len obtain n where n: "path_length_from 0 0 (ds @ [d]) = Ok n" by blast
    show ?thesis
    proof (cases "strip_suffix (byte_string ''.orna'') d")
      case None
      then have "\<nexists>stem. d = stem @ byte_string ''.orna''" by auto
      moreover have "\<exists>e. path_decode_key_components (ds @ [d]) = Err e"
        using Inr n None by (simp add: path_decode_key_components_def split: sum.splits)
      ultimately show ?thesis by auto
    next
      case (Some stem)
      then have d: "d = stem @ byte_string ''.orna''" by (rule strip_suffix_Some)
      have "path_decode_key_components (ds @ [d]) =
          (case try_map path_decode_component ds of Inl e \<Rightarrow> Err e
           | Inr us \<Rightarrow> (case path_decode_component stem of Inl e \<Rightarrow> Err e | Inr u \<Rightarrow> Ok (us @ [u])))"
        using Inr n Some by (cases "try_map path_decode_component ds") (simp_all add: path_decode_key_components_def)
      then show ?thesis
        using Inr d by (cases "try_map path_decode_component ds"; cases "path_decode_component stem") auto
    qed
  qed
qed

lemma try_map_component:
  "try_map path_decode_component es = Ok ks \<longleftrightarrow> list_all utf8_valid ks \<and> try_map path_encode_component ks = Ok es"
  by (auto simp: try_map_Ok list_all2_conv_all_nth list_all_length component_iff)


text \<open>
  C32. The row path of a key is reversible: path components decode to a key exactly when the key's
  texts are UTF-8 and the components are its encoding. So every key has at most one path, two keys never
  share one, and a path that is not in canonical form is refused.
\<close>

theorem key_path_round_trip:
  "path_decode_key_components cs = Ok ks \<longleftrightarrow> list_all utf8_valid ks \<and> path_encode_key_components ks = Ok cs"
proof
  assume dec: "path_decode_key_components cs = Ok ks"
  then have "cs \<noteq> []" by (auto simp: path_decode_key_components_def)
  then obtain ds d where cs: "cs = ds @ [d]" by (metis rev_exhaust)
  with dec obtain us u stem where valid: "path_validate_relative_components (ds @ [d]) = Ok ()"
      and d: "d = stem @ byte_string ''.orna''" and "try_map path_decode_component ds = Ok us"
      and "path_decode_component stem = Ok u" and ks: "ks = us @ [u]"
    by (auto simp: decode_key_snoc)
  then have "list_all utf8_valid us \<and> try_map path_encode_component us = Ok ds"
    and "utf8_valid u \<and> path_encode_component u = Ok stem"
    by (simp_all add: try_map_component component_iff)
  with valid d ks cs show "list_all utf8_valid ks \<and> path_encode_key_components ks = Ok cs"
    by (simp add: encode_key_snoc validate_relative)
next
  assume enc: "list_all utf8_valid ks \<and> path_encode_key_components ks = Ok cs"
  then have "ks \<noteq> []" by (auto simp: path_encode_key_components_def)
  then obtain us u where ks: "ks = us @ [u]" by (metis rev_exhaust)
  with enc obtain es e where es: "try_map path_encode_component us = Ok es" "path_encode_component u = Ok e"
      "cs = es @ [e @ byte_string ''.orna'']" "length (join_path cs) \<le> 1024"
    by (auto simp: encode_key_snoc)
  have "list_all portable_name es"
    using es(1) encoded_portable by (auto simp: try_map_Ok list_all2_conv_all_nth list_all_length)
  then have "list_all relative_name es" using relative_names(1) by (auto simp: list_all_iff)
  moreover have "relative_name (e @ byte_string ''.orna'')" using relative_names(2) encoded_portable es(2) by blast
  ultimately have "path_validate_relative_components cs = Ok ()" using es(3,4) by (simp add: validate_relative)
  moreover have "try_map path_decode_component es = Ok us" "path_decode_component e = Ok u"
    using enc ks es(1,2) by (simp_all add: try_map_component component_iff)
  ultimately show "path_decode_key_components cs = Ok ks" using ks es(3) by (auto simp: decode_key_snoc)
qed

text \<open>
  Every encoded component is a portable file name: not empty, at most 200 bytes, only letters, digits,
  dot, underscore, hyphen and tilde, no trailing dot, and neither a relative directory, nor the git directory,
  nor a reserved device name in any case or with any extension. Distinct components of UTF-8 texts have
  distinct names, and a path built from them has no traversal component.
\<close>

theorem component_is_portable:
  assumes "path_encode_component a = Ok x"
  shows "portable_name x \<and> relative_name x
    \<and> (\<forall>b. utf8_valid a \<longrightarrow> utf8_valid b \<longrightarrow> path_encode_component b = Ok x \<longrightarrow> b = a)"
proof (intro conjI allI impI)
  show "portable_name x" using encoded_portable [OF assms] .
  then show "relative_name x" by (rule relative_names(1))
  fix b
  assume "utf8_valid a" and "utf8_valid b" and "path_encode_component b = Ok x"
  then have "path_decode_component x = Ok a" and "path_decode_component x = Ok b"
    using assms by (simp_all add: component_iff)
  then show "b = a" by simp
qed

theorem component_is_portable_witness:
  "path_encode_component (byte_string ''Con.txt'') = Ok (byte_string ''~43on.txt'')
   \<and> portable_name (byte_string ''~43on.txt'')"
proof (rule conjI)
  show *: "path_encode_component (byte_string ''Con.txt'') = Ok (byte_string ''~43on.txt'')" by code_simp
  show "portable_name (byte_string ''~43on.txt'')" using component_is_portable [OF *] by simp
qed

end
