(* ===== verification/Orna_Key.thy ===== *)
theory Orna_Key
  imports Orna_Value
begin

text \<open>
  Compact key admission: the profile of a table in \<open>crates/orna-storage/src/compact.rs\<close>.

  A profile is built from the canonical schema of a table (\<open>from_canonical_schema\<close>) and admits the
  canonical encodings of its primary keys (\<open>decode_key\<close>), each component against its declared type
  (\<open>validate_value\<close>). Exact-key indexes collect admitted keys (\<open>exact_key_index\<close>).

  A \<open>CompactKeyIdentity\<close> is a canonical key encoding with the logical key order of its table. Here
  it is a value of a linearly ordered type \<open>'k\<close>: \<open>p_identity\<close> and \<open>p_encoded\<close> go between identities
  and their bytes, and \<open>profile_ok\<close> says that they are inverse to each other. An index that the code takes without a
  bounds check, a panic when it is out of range, is the error \<open>OutOfBounds\<close>.
\<close>

section \<open>Readers of canonical values\<close>

datatype compact_key_error =
    InvalidProfile | InvalidOvb | KeyWrongTable | KeyWrongSchema | IndexProfileMismatch | ProhibitedKeyType
  | KeyArity | KeyTypeMismatch | UnsupportedKeyType | RecordIsNotKey | DuplicateKey | OutOfBounds

fun raw_array :: "raw \<Rightarrow> raw list option" where
  "raw_array (RArray values) = Some values"
| "raw_array _ = None"

fun raw_uuid :: "raw \<Rightarrow> u8 list option" where
  "raw_uuid (RTag n (RBytes bytes)) = (if n = 37 \<and> length bytes = 16 then Some bytes else None)"
| "raw_uuid _ = None"

fun integer_value :: "raw \<Rightarrow> u64 option" where
  "integer_value (RInt i) = (if 0 \<le> i \<and> i < 18446744073709551616 then Some (word_of_int i) else None)"
| "integer_value _ = None"

fun integer_map_from :: "(u64, raw) btree_map \<Rightarrow> (raw \<times> raw) list \<Rightarrow> (u64, raw) btree_map option" where
  "integer_map_from m [] = Some m"
| "integer_map_from m ((k, v) # entries) =
     (case integer_value k of
        None \<Rightarrow> None
      | Some i \<Rightarrow> if bm_contains m i then None else integer_map_from (bm_insert i v m) entries)"

fun integer_map :: "raw \<Rightarrow> (u64, raw) btree_map option" where
  "integer_map (RMap entries) = integer_map_from [] entries"
| "integer_map _ = None"

fun type_code :: "raw \<Rightarrow> u64 option" where
  "type_code (RArray (code # _)) = integer_value code"
| "type_code _ = None"

section \<open>Key types and key values\<close>

record nominal_definition =
  nd_kind :: u64
  nd_body :: raw

type_synonym definitions = "(u8 list, nominal_definition) btree_map"

text \<open>\<open>node[i]\<close> followed by \<open>array(..).ok_or(InvalidProfile)\<close>.\<close>

definition node_array :: "raw list \<Rightarrow> nat \<Rightarrow> (compact_key_error, raw list) result" where
  "node_array node i =
     (if i < length node
      then (case raw_array (node ! i) of None \<Rightarrow> Err InvalidProfile | Some xs \<Rightarrow> Ok xs)
      else Err OutOfBounds)"

definition node_uuid :: "raw list \<Rightarrow> nat \<Rightarrow> (compact_key_error, u8 list) result" where
  "node_uuid node i =
     (if i < length node
      then (case raw_uuid (node ! i) of None \<Rightarrow> Err InvalidProfile | Some u \<Rightarrow> Ok u)
      else Err OutOfBounds)"

definition scalar_key_type :: "raw list \<Rightarrow> (compact_key_error, unit) result" where
  "scalar_key_type node =
     (case drop 1 node of
        RText name # _ \<Rightarrow>
          if name = byte_string ''Float'' \<or> name = byte_string ''Blob'' then Err ProhibitedKeyType
          else if name \<in> set (map byte_string [''Bool'', ''Int'', ''Decimal'', ''Str'', ''Uuid'', ''Date'', ''Instant''])
          then Ok () else Err UnsupportedKeyType
      | _ \<Rightarrow> Err InvalidProfile)"

definition has_fields :: "raw \<Rightarrow> bool" where
  "has_fields variant =
     (case raw_array variant of
        Some parts \<Rightarrow> (case drop 2 parts of RArray declared # _ \<Rightarrow> declared \<noteq> [] | _ \<Rightarrow> False)
      | None \<Rightarrow> False)"

definition enum_key_type :: "definitions \<Rightarrow> raw list \<Rightarrow> (compact_key_error, unit) result" where
  "enum_key_type defs node =
     (case node_uuid node 1 of
        Inl e \<Rightarrow> Err e
      | Inr type_id \<Rightarrow> (case bm_get defs type_id of
          None \<Rightarrow> Err InvalidProfile
        | Some d \<Rightarrow>
            if nd_kind d \<noteq> 1 then Err UnsupportedKeyType
            else (case raw_array (nd_body d) of
                    None \<Rightarrow> Err InvalidProfile
                  | Some variants \<Rightarrow> if list_all has_fields variants then Err UnsupportedKeyType else Ok ())))"

lemma size_node_array: "node_array node i = Ok xs \<Longrightarrow> size_list size xs < size_list size node"
proof -
  assume "node_array node i = Ok xs"
  then have "i < length node" and "node ! i = RArray xs"
    by (auto simp: node_array_def split: if_splits option.splits elim: raw_array.elims)
  then have "RArray xs \<in> set node" by (metis nth_mem)
  then have "size (RArray xs) \<le> size_list size node" by (rule size_list_estimation') simp
  then show ?thesis by simp
qed

function
  validate_key_type :: "definitions \<Rightarrow> raw \<Rightarrow> (compact_key_error, unit) result" and
  validate_key_types :: "definitions \<Rightarrow> raw list \<Rightarrow> (compact_key_error, unit) result" where
  "validate_key_type defs raw =
     (case raw_array raw of
        None \<Rightarrow> Err InvalidProfile
      | Some node \<Rightarrow> (case type_code raw of
          None \<Rightarrow> Err InvalidProfile
        | Some code \<Rightarrow>
            if code = 0 then scalar_key_type node
            else if code = 3 then
              (case node_array node 1 of
                 Inl e \<Rightarrow> Err e
               | Inr components \<Rightarrow>
                   if components = [] then Err UnsupportedKeyType else validate_key_types defs components)
            else if code = 5 then enum_key_type defs node
            else if code = 6 then
              (case node_uuid node 1 of
                 Inl e \<Rightarrow> Err e
               | Inr _ \<Rightarrow> (case node_uuid node 2 of
                   Inl e \<Rightarrow> Err e
                 | Inr _ \<Rightarrow> (case node_array node 3 of
                     Inl e \<Rightarrow> Err e
                   | Inr components \<Rightarrow>
                       if components = [] then Err UnsupportedKeyType else validate_key_types defs components)))
            else if code \<in> {1, 2, 4, 7, 8, 9} then Err UnsupportedKeyType
            else Err InvalidProfile))"
| "validate_key_types defs [] = Ok ()"
| "validate_key_types defs (ty # types) =
     (case validate_key_type defs ty of Inl e \<Rightarrow> Err e | Inr _ \<Rightarrow> validate_key_types defs types)"
  by pat_completeness auto

termination
  by (relation "measure (case_sum (\<lambda>(defs, raw). size raw) (\<lambda>(defs, types). size_list size types))")
    (auto elim!: raw_array.elims dest: size_node_array)

definition scalar_value :: "raw \<Rightarrow> u8 list \<Rightarrow> (compact_key_error, unit) result" where
  "scalar_value v name =
     (case find (\<lambda>(n, _). byte_string n = name)
        [(''Bool'', case v of RBool _ \<Rightarrow> True | _ \<Rightarrow> False),
         (''Int'', case v of RInt _ \<Rightarrow> True | _ \<Rightarrow> False),
         (''Decimal'', case v of RTag n _ \<Rightarrow> n = 60000 | _ \<Rightarrow> False),
         (''Str'', case v of RText _ \<Rightarrow> True | _ \<Rightarrow> False),
         (''Uuid'', case v of RTag n _ \<Rightarrow> n = 37 | _ \<Rightarrow> False),
         (''Date'', case v of RTag n _ \<Rightarrow> n = 60001 | _ \<Rightarrow> False),
         (''Instant'', case v of RTag n _ \<Rightarrow> n = 60002 | _ \<Rightarrow> False)] of
        None \<Rightarrow> Err UnsupportedKeyType
      | Some (_, valid) \<Rightarrow> if valid then Ok () else Err KeyTypeMismatch)"

text \<open>The payload array of a value with the given tag.\<close>

fun tagged_array :: "u64 \<Rightarrow> raw \<Rightarrow> raw list option" where
  "tagged_array n (RTag m (RArray values)) = (if m = n then Some values else None)"
| "tagged_array n _ = None"

fun find_variant :: "u8 list \<Rightarrow> raw list \<Rightarrow> (compact_key_error, raw list) result" where
  "find_variant variant_id [] = Err KeyTypeMismatch"
| "find_variant variant_id (v # variants) =
     (case raw_array v of
        None \<Rightarrow> Err InvalidProfile
      | Some [] \<Rightarrow> Err OutOfBounds
      | Some (u # parts) \<Rightarrow>
          if raw_uuid u = Some variant_id then Ok (u # parts) else find_variant variant_id variants)"

definition validate_enum :: "raw \<Rightarrow> u8 list \<Rightarrow> nominal_definition \<Rightarrow> (compact_key_error, unit) result" where
  "validate_enum v type_id d =
     (case tagged_array 60008 v of
        Some [t, i, payload] \<Rightarrow>
          (case raw_uuid t of
             None \<Rightarrow> Err InvalidProfile
           | Some t' \<Rightarrow>
               if t' \<noteq> type_id then Err KeyTypeMismatch
               else (case raw_uuid i of
                       None \<Rightarrow> Err InvalidProfile
                     | Some variant_id \<Rightarrow> (case raw_array (nd_body d) of
                         None \<Rightarrow> Err InvalidProfile
                       | Some variants \<Rightarrow> (case find_variant variant_id variants of
                           Inl e \<Rightarrow> Err e
                         | Inr variant \<Rightarrow> (case node_array variant 2 of
                             Inl e \<Rightarrow> Err e
                           | Inr declared \<Rightarrow>
                               if declared = [] \<and> payload = RNull then Ok ()
                               else if declared = [] then Err KeyTypeMismatch
                               else Err UnsupportedKeyType)))))
      | _ \<Rightarrow> Err KeyTypeMismatch)"

text \<open>One comparison \<open>uuid(..)? != uuid(&node[i])?\<close> of a reference with its declared table.\<close>

definition key_uuid_is :: "raw \<Rightarrow> raw list \<Rightarrow> nat \<Rightarrow> (compact_key_error, unit) result" where
  "key_uuid_is v node i =
     (case raw_uuid v of
        None \<Rightarrow> Err InvalidProfile
      | Some u \<Rightarrow> (case node_uuid node i of
          Inl e \<Rightarrow> Err e
        | Inr expected \<Rightarrow> if u = expected then Ok () else Err KeyTypeMismatch))"

function
  validate_value :: "definitions \<Rightarrow> raw \<Rightarrow> raw \<Rightarrow> (compact_key_error, unit) result" and
  validate_values :: "definitions \<Rightarrow> raw list \<Rightarrow> raw list \<Rightarrow> (compact_key_error, unit) result" and
  validate_key_components :: "definitions \<Rightarrow> raw \<Rightarrow> raw list \<Rightarrow> (compact_key_error, unit) result" where
  "validate_value defs ty v =
     (case raw_array ty of
        None \<Rightarrow> Err InvalidProfile
      | Some node \<Rightarrow> (case type_code ty of
          None \<Rightarrow> Err InvalidProfile
        | Some code \<Rightarrow>
            if code = 0 then (case drop 1 node of RText name # _ \<Rightarrow> scalar_value v name | _ \<Rightarrow> Err InvalidProfile)
            else if code = 3 then
              (case node_array node 1 of
                 Inl e \<Rightarrow> Err e
               | Inr types \<Rightarrow> (case tagged_array 60015 v of
                   None \<Rightarrow> Err KeyTypeMismatch
                 | Some tuple \<Rightarrow>
                     if length tuple \<noteq> length types then Err KeyTypeMismatch else validate_values defs types tuple))
            else if code = 5 then
              (case node_uuid node 1 of
                 Inl e \<Rightarrow> Err e
               | Inr type_id \<Rightarrow> (case bm_get defs type_id of
                   None \<Rightarrow> Err InvalidProfile
                 | Some d \<Rightarrow> if nd_kind d \<noteq> 1 then Err UnsupportedKeyType else validate_enum v type_id d))
            else if code = 6 then
              (case tagged_array 60021 v of
                 Some [database, table, key] \<Rightarrow>
                   (case key_uuid_is database node 1 of
                      Inl e \<Rightarrow> Err e
                    | Inr _ \<Rightarrow> (case key_uuid_is table node 2 of
                        Inl e \<Rightarrow> Err e
                      | Inr _ \<Rightarrow> (case node_array node 3 of
                          Inl e \<Rightarrow> Err e
                        | Inr types \<Rightarrow> validate_key_components defs key types)))
               | _ \<Rightarrow> Err KeyTypeMismatch)
            else Err InvalidProfile))"
| "validate_values defs (ty # types) (v # values) =
     (case validate_value defs ty v of Inl e \<Rightarrow> Err e | Inr _ \<Rightarrow> validate_values defs types values)"
| "validate_values defs [] values = Ok ()"
| "validate_values defs (ty # types) [] = Ok ()"
| "validate_key_components defs v types =
     (if types = [] then (if tagged_array 60014 v = Some [] then Ok () else Err KeyArity)
      else if length types = 1 then validate_value defs (hd types) v
      else (case tagged_array 60015 v of
              None \<Rightarrow> Err KeyArity
            | Some tuple \<Rightarrow> if length tuple \<noteq> length types then Err KeyArity else validate_values defs types tuple))"
  by pat_completeness auto

termination
  by (relation "measure (case_sum (\<lambda>(defs, ty, v). 2 * size ty)
      (case_sum (\<lambda>(defs, types, vs). 2 * size_list size types) (\<lambda>(defs, v, types). 2 * size_list size types + 1)))")
    (auto elim!: raw_array.elims dest: size_node_array simp: neq_Nil_conv length_Suc_conv)

declare validate_key_type.simps [simp del] validate_value.simps [simp del] validate_key_components.simps [simp del]

section \<open>The profile\<close>

record key_field =
  kf_id :: "u8 list"
  kf_ty :: raw

record 'k profile =
  p_schema :: raw
  p_table_id :: "u8 list"
  p_key_fields :: "key_field list"
  p_definitions :: definitions
  p_schema_fingerprint :: "u8 list"
  p_identity :: "u8 list \<Rightarrow> 'k"
  p_encoded :: "'k \<Rightarrow> u8 list"

definition key_field_ids :: "'k profile \<Rightarrow> u8 list list" where
  "key_field_ids p = map kf_id (p_key_fields p)"

definition profile_ok :: "'k profile \<Rightarrow> bool" where
  "profile_ok p \<longleftrightarrow> (\<forall>k. p_identity p (p_encoded p k) = k) \<and> (\<forall>b. p_encoded p (p_identity p b) = b)"

fun profile_uuids :: "raw list \<Rightarrow> (compact_key_error, u8 list list) result" where
  "profile_uuids [] = Ok []"
| "profile_uuids (v # vs) =
     (case raw_uuid v of
        None \<Rightarrow> Err InvalidProfile
      | Some u \<Rightarrow> (case profile_uuids vs of Inl e \<Rightarrow> Err e | Inr us \<Rightarrow> Ok (u # us)))"

fun profile_definitions :: "raw list \<Rightarrow> definitions \<Rightarrow> (compact_key_error, definitions) result" where
  "profile_definitions [] defs = Ok defs"
| "profile_definitions (d # ds) defs =
     (case raw_array d of
        Some [ident, kind, body] \<Rightarrow>
          (case (raw_uuid ident, integer_value kind) of
             (Some i, Some k) \<Rightarrow>
               if bm_contains defs i then Err InvalidProfile
               else profile_definitions ds (bm_insert i \<lparr>nd_kind = k, nd_body = body\<rparr> defs)
           | _ \<Rightarrow> Err InvalidProfile)
      | _ \<Rightarrow> Err InvalidProfile)"

fun profile_fields :: "raw list \<Rightarrow> (u8 list, key_field) btree_map \<Rightarrow> (compact_key_error, (u8 list, key_field) btree_map) result" where
  "profile_fields [] by_id = Ok by_id"
| "profile_fields (f # fs) by_id =
     (case raw_array f of
        Some [ident, _, ty, _, _] \<Rightarrow>
          (case raw_uuid ident of
             None \<Rightarrow> Err InvalidProfile
           | Some i \<Rightarrow>
               if bm_contains by_id i then Err InvalidProfile
               else profile_fields fs (bm_insert i \<lparr>kf_id = i, kf_ty = ty\<rparr> by_id))
      | _ \<Rightarrow> Err InvalidProfile)"

text \<open>Each key field is taken out of the declared fields, so a field cannot be a key component twice.\<close>

fun profile_key_fields :: "u8 list list \<Rightarrow> (u8 list, key_field) btree_map \<Rightarrow> (compact_key_error, key_field list) result" where
  "profile_key_fields [] by_id = Ok []"
| "profile_key_fields (i # is) by_id =
     (case bm_get by_id i of
        None \<Rightarrow> Err InvalidProfile
      | Some f \<Rightarrow> (case profile_key_fields is (bm_remove i by_id) of Inl e \<Rightarrow> Err e | Inr fs \<Rightarrow> Ok (f # fs)))"

definition domain_digest ::
  "(u8 list \<Rightarrow> u8 list) \<Rightarrow> tag_registry \<Rightarrow> string \<Rightarrow> raw \<Rightarrow> (ovb_error, u8 list) result" where
  "domain_digest sha256 vtag domain payload =
     (if \<not> list_all (\<lambda>c. of_char c < (128 :: nat)) domain \<or> CHR 0x00 \<in> set domain then Err InvalidValue
      else (case encode_raw vtag payload of
              Inl e \<Rightarrow> Err e
            | Inr bytes \<Rightarrow> Ok (sha256 (byte_string domain @ [0] @ bytes))))"

text \<open>One member of the schema map: \<open>fields.get(&i)\<close>, which has to be an array.\<close>

definition schema_array :: "(u64, raw) btree_map \<Rightarrow> u64 \<Rightarrow> (compact_key_error, raw list) result" where
  "schema_array m i = (case Option.bind (bm_get m i) raw_array of None \<Rightarrow> Err InvalidProfile | Some xs \<Rightarrow> Ok xs)"

definition from_canonical_schema ::
  "(u8 list \<Rightarrow> u8 list) \<Rightarrow> tag_registry \<Rightarrow> (u8 list \<Rightarrow> 'k) \<Rightarrow> ('k \<Rightarrow> u8 list) \<Rightarrow> raw
     \<Rightarrow> (compact_key_error, 'k profile) result" where
  "from_canonical_schema sha256 vtag identity encoded schema =
     (case integer_map schema of
        None \<Rightarrow> Err InvalidProfile
      | Some m \<Rightarrow> (case Option.bind (bm_get m 1) raw_uuid of
          None \<Rightarrow> Err InvalidProfile
        | Some table_id \<Rightarrow> (case schema_array m 2 of
            Inl e \<Rightarrow> Err e
          | Inr keys \<Rightarrow> (case profile_uuids keys of
              Inl e \<Rightarrow> Err e
            | Inr key_ids \<Rightarrow> (case schema_array m 4 of
                Inl e \<Rightarrow> Err e
              | Inr ds \<Rightarrow> (case profile_definitions ds [] of
                  Inl e \<Rightarrow> Err e
                | Inr defs \<Rightarrow> (case schema_array m 3 of
                    Inl e \<Rightarrow> Err e
                  | Inr declared \<Rightarrow> (case profile_fields declared [] of
                      Inl e \<Rightarrow> Err e
                    | Inr by_id \<Rightarrow> (case profile_key_fields key_ids by_id of
                        Inl e \<Rightarrow> Err e
                      | Inr key_fields \<Rightarrow> (case validate_key_types defs (map kf_ty key_fields) of
                          Inl e \<Rightarrow> Err e
                        | Inr _ \<Rightarrow> (case domain_digest sha256 vtag ''orna.schema.v1'' schema of
                            Inl _ \<Rightarrow> Err InvalidProfile
                          | Inr fingerprint \<Rightarrow>
                              Ok \<lparr>p_schema = schema, p_table_id = table_id, p_key_fields = key_fields,
                                  p_definitions = defs, p_schema_fingerprint = fingerprint,
                                  p_identity = identity, p_encoded = encoded\<rparr>)))))))))))"

fun is_record :: "raw \<Rightarrow> bool" where
  "is_record (RTag n _) \<longleftrightarrow> n = 60009"
| "is_record _ \<longleftrightarrow> False"

text \<open>The guard against rows in key position.\<close>

definition record_key_check :: "'k profile \<Rightarrow> raw \<Rightarrow> (compact_key_error, unit) result" where
  "record_key_check p v =
     (if \<not> is_record v then Ok ()
      else (case p_key_fields p of
              [f] \<Rightarrow> (case type_code (kf_ty f) of
                  None \<Rightarrow> Err InvalidProfile
                | Some code \<Rightarrow> if code \<noteq> 4 then Err RecordIsNotKey else Ok ())
            | _ \<Rightarrow> Err RecordIsNotKey))"

definition decode_key :: "tag_registry \<Rightarrow> 'k profile \<Rightarrow> u8 list \<Rightarrow> (compact_key_error, 'k) result" where
  "decode_key vtag p bytes =
     (case value_decode vtag bytes of
        Inl _ \<Rightarrow> Err InvalidOvb
      | Inr v \<Rightarrow> (case record_key_check p v of
          Inl e \<Rightarrow> Err e
        | Inr _ \<Rightarrow>
            (case
               (case p_key_fields p of
                  [] \<Rightarrow> (if tagged_array 60014 v = Some [] then Ok () else Err KeyArity)
                | [f] \<Rightarrow> validate_value (p_definitions p) (kf_ty f) v
                | fs \<Rightarrow> (case tagged_array 60015 v of
                    None \<Rightarrow> Err KeyArity
                  | Some tuple \<Rightarrow>
                      if length tuple \<noteq> length fs then Err KeyArity
                      else validate_values (p_definitions p) (map kf_ty fs) tuple)) of
               Inl e \<Rightarrow> Err e
             | Inr _ \<Rightarrow> Ok (p_identity p bytes))))"

lemma decode_key_Ok:
  assumes "decode_key vtag p bytes = Ok k"
  shows "k = p_identity p bytes \<and> (\<exists>v. value_decode vtag bytes = Ok v)"
  using assms by (auto simp: decode_key_def split: sum.splits)

section \<open>Exact-key indexes\<close>

record 'k compact_key_index =
  xi_table_id :: "u8 list"
  xi_schema_fingerprint :: "u8 list"
  xi_keys :: "'k btree_set"

fun index_keys :: "tag_registry \<Rightarrow> ('k::linorder) profile \<Rightarrow> u8 list list \<Rightarrow> 'k btree_set \<Rightarrow> (compact_key_error, 'k btree_set) result" where
  "index_keys vtag p [] keys = Ok keys"
| "index_keys vtag p (bytes # rest) keys =
     (case decode_key vtag p bytes of
        Inl e \<Rightarrow> Err e
      | Inr key \<Rightarrow> if bs_contains keys key then Err DuplicateKey else index_keys vtag p rest (bs_insert key keys))"

definition exact_key_index ::
  "tag_registry \<Rightarrow> ('k::linorder) profile \<Rightarrow> u8 list list \<Rightarrow> (compact_key_error, 'k compact_key_index) result" where
  "exact_key_index vtag p keys =
     (case index_keys vtag p keys [] of
        Inl e \<Rightarrow> Err e
      | Inr ks \<Rightarrow> Ok \<lparr>xi_table_id = p_table_id p, xi_schema_fingerprint = p_schema_fingerprint p, xi_keys = ks\<rparr>)"

definition validate_against_index ::
  "tag_registry \<Rightarrow> ('k::linorder) profile \<Rightarrow> u8 list \<Rightarrow> 'k compact_key_index \<Rightarrow> (compact_key_error, 'k) result" where
  "validate_against_index vtag p candidate index =
     (if xi_table_id index \<noteq> p_table_id p \<or> xi_schema_fingerprint index \<noteq> p_schema_fingerprint p
      then Err IndexProfileMismatch
      else (case decode_key vtag p candidate of
              Inl e \<Rightarrow> Err e
            | Inr key \<Rightarrow> if bs_contains (xi_keys index) key then Err DuplicateKey else Ok key))"

definition reject_exact_duplicate ::
  "tag_registry \<Rightarrow> ('k::linorder) profile \<Rightarrow> u8 list \<Rightarrow> u8 list list \<Rightarrow> (compact_key_error, 'k) result" where
  "reject_exact_duplicate vtag p candidate existing =
     (case exact_key_index vtag p existing of Inl e \<Rightarrow> Err e | Inr index \<Rightarrow> validate_against_index vtag p candidate index)"

section \<open>The logical key index of a manifest\<close>

datatype segment_role = Data | Replacement | Deletion

record manifest_entry =
  me_segment_id :: "u8 list"
  me_role :: segment_role
  me_generation :: u64
  me_schema :: "u8 list"
  me_encoder_version :: string
  me_relative_path :: string
  me_git_object_id :: string
  me_sha256 :: "u8 list"
  me_min_key :: "u8 list"
  me_max_key :: "u8 list"
  me_min_event_time :: "string option"
  me_max_event_time :: "string option"
  me_row_count :: u64
  me_compressed_bytes :: u64
  me_columns :: "u8 list"
  me_row_group_index :: bool
  me_bloom :: bool

record manifest =
  mf_table :: "u8 list"
  mf_schema :: "u8 list"
  mf_next_generation :: u64
  mf_entries :: "manifest_entry list"

datatype 'e logical_key_error =
    Key compact_key_error | Source 'e | KeyBudgetExceeded nat | DuplicateGeneration | KeyCountMismatch u64 u64 u64

record logical_key_state =
  ks_generation :: u64
  ks_role :: segment_role

record 'k key_accumulator =
  ka_budget :: nat
  ka_observed :: nat
  ka_keys :: "('k, logical_key_state) btree_map"
  ka_seen :: "('k \<times> u64) btree_set"

definition accumulator_new :: "nat \<Rightarrow> 'k key_accumulator" where
  "accumulator_new budget = \<lparr>ka_budget = budget, ka_observed = 0, ka_keys = [], ka_seen = []\<rparr>"

definition accumulator_add ::
  "u64 \<Rightarrow> segment_role \<Rightarrow> ('k::linorder) \<Rightarrow> 'k key_accumulator \<Rightarrow> ('e logical_key_error, 'k key_accumulator) result" where
  "accumulator_add generation role key a =
     (if ka_observed a = ka_budget a then Err (KeyBudgetExceeded (ka_budget a))
      else if bs_contains (ka_seen a) (key, generation) then Err DuplicateGeneration
      else
        let a' = a\<lparr>ka_observed := ka_observed a + 1, ka_seen := bs_insert (key, generation) (ka_seen a)\<rparr>;
            state = \<lparr>ks_generation = generation, ks_role = role\<rparr>
        in (case bm_get (ka_keys a) key of
              None \<Rightarrow> Ok (a'\<lparr>ka_keys := bm_insert key state (ka_keys a)\<rparr>)
            | Some old \<Rightarrow>
                if ks_generation old = generation then Err DuplicateGeneration
                else if ks_generation old < generation then Ok (a'\<lparr>ka_keys := bm_insert key state (ka_keys a)\<rparr>)
                else Ok a'))"

definition accumulator_finish :: "'k key_accumulator \<Rightarrow> 'k btree_set" where
  "accumulator_finish a = map fst (filter (\<lambda>(_, st). ks_role st \<noteq> Deletion) (ka_keys a))"

fun consume_keys ::
  "tag_registry \<Rightarrow> ('k::linorder) profile \<Rightarrow> u64 \<Rightarrow> segment_role \<Rightarrow> u64 \<Rightarrow> ('e, u8 list) result list \<Rightarrow> u64
     \<Rightarrow> 'k key_accumulator \<Rightarrow> ('e logical_key_error, 'k key_accumulator) result" where
  "consume_keys vtag p generation role expected [] observed a =
     (if observed \<noteq> expected then Err (KeyCountMismatch generation expected observed) else Ok a)"
| "consume_keys vtag p generation role expected (item # items) observed a =
     (case item of
        Inl e \<Rightarrow> Err (Source e)
      | Inr bytes \<Rightarrow>
          if observed = - 1 then Err (KeyCountMismatch generation expected (- 1))
          else (case decode_key vtag p bytes of
                  Inl e \<Rightarrow> Err (Key e)
                | Inr key \<Rightarrow> (case accumulator_add generation role key a of
                    Inl e \<Rightarrow> Err e
                  | Inr a' \<Rightarrow> consume_keys vtag p generation role expected items (observed + 1) a')))"

definition consume_entry_keys ::
  "tag_registry \<Rightarrow> ('k::linorder) profile \<Rightarrow> u64 \<Rightarrow> segment_role \<Rightarrow> u64 \<Rightarrow> ('e, u8 list) result list
     \<Rightarrow> 'k key_accumulator \<Rightarrow> ('e logical_key_error, 'k key_accumulator) result" where
  "consume_entry_keys vtag p generation role expected keys a =
     consume_keys vtag p generation role expected keys 0 a"

fun consume_entries ::
  "tag_registry \<Rightarrow> ('k::linorder) profile \<Rightarrow> (manifest_entry \<Rightarrow> ('e, ('e, u8 list) result list) result) \<Rightarrow> manifest_entry list
     \<Rightarrow> 'k key_accumulator \<Rightarrow> ('e logical_key_error, 'k key_accumulator) result" where
  "consume_entries vtag p source [] a = Ok a"
| "consume_entries vtag p source (entry # entries) a =
     (case source entry of
        Inl e \<Rightarrow> Err (Source e)
      | Inr keys \<Rightarrow>
          (case consume_entry_keys vtag p (me_generation entry) (me_role entry) (me_row_count entry) keys a of
             Inl e \<Rightarrow> Err e
           | Inr a' \<Rightarrow> consume_entries vtag p source entries a'))"

definition logical_key_index ::
  "tag_registry \<Rightarrow> ('k::linorder) profile \<Rightarrow> manifest \<Rightarrow> (manifest_entry \<Rightarrow> ('e, ('e, u8 list) result list) result) \<Rightarrow> nat
     \<Rightarrow> ('e logical_key_error, 'k compact_key_index) result" where
  "logical_key_index vtag p mf source key_budget =
     (if mf_table mf \<noteq> p_table_id p then Err (Key KeyWrongTable)
      else if mf_schema mf \<noteq> p_schema_fingerprint p then Err (Key KeyWrongSchema)
      else (case consume_entries vtag p source (mf_entries mf) (accumulator_new key_budget) of
              Inl e \<Rightarrow> Err e
            | Inr a \<Rightarrow> Ok \<lparr>xi_table_id = p_table_id p, xi_schema_fingerprint = p_schema_fingerprint p,
                            xi_keys = accumulator_finish a\<rparr>))"

end
