(* ===== verification/Orna_Compact.thy ===== *)
theory Orna_Compact
  imports Orna_Key
begin

text \<open>
  The compact storage base: \<open>crates/orna-storage/src/compact.rs\<close>.

  Committed segments are folded by generation into the logical base of a table
  (\<open>fold_compact_committed_base\<close>). A writer folds an ordered batch of mutations against that base
  (\<open>fold_writer_input\<close>), classifies each surviving mutation by its physical role
  (\<open>prepare_writer_batch\<close>) and can apply the batch (\<open>apply_writer_batch\<close>).

  Keys are admitted by the table's profile (\<open>Orna_Key\<close>); all failures of admission are alike to the
  callers here. Canonical values are \<open>raw\<close> values under the tag registry \<open>vtag\<close>.
\<close>

definition COMPACT_STORAGE_PROFILE :: string where
  "COMPACT_STORAGE_PROFILE = ''compact-storage-v1''"

section \<open>Committed base\<close>

datatype projection_error =
  Empty | WrongTable | WrongSchema | WrongProfile | InvalidManifestGeneration | DuplicateKeyGeneration
  | SequenceOutOfOrder | StaleGeneration | EvolutionInputMismatch | UnsupportedEvolutionOperation
  | InvalidEvolutionKey | InvalidEvolutionValue | MissingBaseKey | MissingBaseValue | DuplicateEvolutionKey
  | InvalidWriterRole | DuplicateHybridKey | MissingHybridKey | InvalidEditablePlacement

record base_row =
  br_key :: raw
  br_value :: "raw option"
  br_generation :: u64
  br_role :: segment_role

record 'k base_state =
  cb_table_id :: "u8 list"
  cb_schema_fingerprint :: "u8 list"
  cb_next_generation :: u64
  cb_rows :: "('k, base_row) btree_map"

record segment =
  sg_table_id :: "u8 list"
  sg_schema_id :: "u8 list"
  sg_profile :: string
  sg_generation :: u64
  sg_role :: segment_role
  sg_rows :: "(raw \<times> raw option) list"

record 'k base_fold =
  fd_rows :: "('k, base_row) btree_map"
  fd_seen :: "('k \<times> u64) btree_set"
  fd_greatest :: u64

definition visible :: "('k, base_row) btree_map \<Rightarrow> 'k \<Rightarrow> bool" where
  "visible rows k = (case bm_get rows k of None \<Rightarrow> False | Some row \<Rightarrow> br_value row \<noteq> None)"

definition fold_new :: "'k base_fold" where
  "fold_new = \<lparr>fd_rows = [], fd_seen = [], fd_greatest = 0\<rparr>"

fun role_matches_lineage :: "segment_role \<Rightarrow> raw option \<Rightarrow> bool \<Rightarrow> bool" where
  "role_matches_lineage Data (Some _) False = True"
| "role_matches_lineage Replacement (Some _) True = True"
| "role_matches_lineage Deletion None True = True"
| "role_matches_lineage _ _ _ = False"

definition fold_push ::
  "tag_registry \<Rightarrow> ('k::linorder) profile \<Rightarrow> u64 \<Rightarrow> segment_role \<Rightarrow> raw \<Rightarrow> raw option \<Rightarrow> 'k base_fold
     \<Rightarrow> (projection_error, 'k base_fold) result" where
  "fold_push vtag p generation role key_value v f =
     (if generation = 0 then Err InvalidManifestGeneration
      else (case encode_raw vtag key_value of
              Inl _ \<Rightarrow> Err WrongSchema
            | Inr key_bytes \<Rightarrow> (case decode_key vtag p key_bytes of
                Inl _ \<Rightarrow> Err WrongSchema
              | Inr key \<Rightarrow>
                  if bs_contains (fd_seen f) (key, generation) then Err DuplicateKeyGeneration
                  else if \<not> role_matches_lineage role v (visible (fd_rows f) key) then Err InvalidWriterRole
                  else Ok \<lparr>fd_rows = bm_insert key
                             \<lparr>br_key = key_value, br_value = v, br_generation = generation, br_role = role\<rparr> (fd_rows f),
                           fd_seen = bs_insert (key, generation) (fd_seen f),
                           fd_greatest = max (fd_greatest f) generation\<rparr>)))"

definition fold_finish ::
  "('k::linorder) profile \<Rightarrow> u64 \<Rightarrow> 'k base_fold \<Rightarrow> (projection_error, 'k base_state) result" where
  "fold_finish p next_generation f =
     (if next_generation = 0 \<or> next_generation \<le> fd_greatest f then Err InvalidManifestGeneration
      else Ok \<lparr>cb_table_id = p_table_id p, cb_schema_fingerprint = p_schema_fingerprint p,
               cb_next_generation = next_generation, cb_rows = fd_rows f\<rparr>)"

fun check_segments :: "'k profile \<Rightarrow> segment list \<Rightarrow> (projection_error, unit) result" where
  "check_segments p [] = Ok ()"
| "check_segments p (s # segments) =
     (if sg_table_id s \<noteq> p_table_id p then Err WrongTable
      else if sg_schema_id s \<noteq> p_schema_fingerprint p then Err WrongSchema
      else if sg_profile s \<noteq> COMPACT_STORAGE_PROFILE then Err WrongProfile
      else check_segments p segments)"

text \<open>The two nested loops: the rows of the segments, one after the other.\<close>

fun fold_rows ::
  "tag_registry \<Rightarrow> ('k::linorder) profile \<Rightarrow> (u64 \<times> segment_role \<times> raw \<times> raw option) list \<Rightarrow> 'k base_fold
     \<Rightarrow> (projection_error, 'k base_fold) result" where
  "fold_rows vtag p [] f = Ok f"
| "fold_rows vtag p ((generation, role, key, v) # rows) f =
     (case fold_push vtag p generation role key v f of
        Inl e \<Rightarrow> Err e
      | Inr f' \<Rightarrow> fold_rows vtag p rows f')"

definition segment_rows :: "segment \<Rightarrow> (u64 \<times> segment_role \<times> raw \<times> raw option) list" where
  "segment_rows s = map (\<lambda>(k, v). (sg_generation s, sg_role s, k, v)) (sg_rows s)"

definition fold_compact_committed_base ::
  "tag_registry \<Rightarrow> ('k::linorder) profile \<Rightarrow> segment list \<Rightarrow> u64 \<Rightarrow> (projection_error, 'k base_state) result" where
  "fold_compact_committed_base vtag p projections next_generation =
     (case check_segments p projections of
        Inl e \<Rightarrow> Err e
      | Inr _ \<Rightarrow>
          (case fold_rows vtag p (concat (map segment_rows (sort_key sg_generation projections))) fold_new of
             Inl e \<Rightarrow> Err e
           | Inr f \<Rightarrow> fold_finish p next_generation f))"

section \<open>Writer\<close>

datatype writer_mutation_state = MReplacement "u8 list" | MDeletion

record 'k writer_mutation =
  wm_sequence :: u64
  wm_mutation_id :: "u8 list"
  wm_key :: 'k
  wm_state :: writer_mutation_state

datatype publication_row_encoding = CompactOvb1
datatype publication_value_encoding = Ovb1

record 'k writer_input =
  wi_table_id :: "u8 list"
  wi_schema_fingerprint :: "u8 list"
  wi_candidate_generation :: u64
  wi_row_encoding_identity :: publication_row_encoding
  wi_value_encoding_identity :: publication_value_encoding
  wi_mutations :: "'k writer_mutation list"
  wi_candidate_digest :: "u8 list"

record writer_row =
  wr_key :: "u8 list"
  wr_value :: "u8 list option"
  wr_role :: segment_role

record writer_batch =
  wb_table_id :: "u8 list"
  wb_schema_fingerprint :: "u8 list"
  wb_generation :: u64
  wb_rows :: "writer_row list"

definition validate_writer_input_identity ::
  "'k base_state \<Rightarrow> 'k writer_input \<Rightarrow> (projection_error, unit) result" where
  "validate_writer_input_identity b i =
     (if wi_table_id i \<noteq> cb_table_id b then Err WrongTable
      else if wi_schema_fingerprint i \<noteq> cb_schema_fingerprint b then Err WrongSchema
      else if wi_candidate_generation i \<noteq> cb_next_generation b then Err StaleGeneration
      else Ok ())"

fun distinct_keys :: "'k::linorder btree_set \<Rightarrow> 'k list \<Rightarrow> bool" where
  "distinct_keys keys [] = True"
| "distinct_keys keys (k # ks) = (\<not> bs_contains keys k \<and> distinct_keys (bs_insert k keys) ks)"

definition validate_writer_input ::
  "('k::linorder) base_state \<Rightarrow> 'k writer_input \<Rightarrow> (projection_error, unit) result" where
  "validate_writer_input b i =
     (case validate_writer_input_identity b i of
        Inl e \<Rightarrow> Err e
      | Inr _ \<Rightarrow> if distinct_keys [] (map wm_key (wi_mutations i)) then Ok () else Err DuplicateKeyGeneration)"

fun latest_mutations ::
  "u64 \<Rightarrow> ('k::linorder, 'k writer_mutation) btree_map \<Rightarrow> 'k writer_mutation list
     \<Rightarrow> (projection_error, ('k, 'k writer_mutation) btree_map) result" where
  "latest_mutations previous latest [] = Ok latest"
| "latest_mutations previous latest (m # ms) =
     (if wm_sequence m = 0 \<or> wm_sequence m \<le> previous then Err SequenceOutOfOrder
      else latest_mutations (wm_sequence m) (bm_insert (wm_key m) m latest) ms)"

definition mutation_matters :: "('k, base_row) btree_map \<Rightarrow> 'k writer_mutation \<Rightarrow> bool" where
  "mutation_matters rows m =
     (case wm_state m of MReplacement _ \<Rightarrow> True | MDeletion \<Rightarrow> visible rows (wm_key m))"

definition fold_writer_input ::
  "('k::linorder) base_state \<Rightarrow> 'k writer_input \<Rightarrow> (projection_error, 'k writer_input) result" where
  "fold_writer_input b i =
     (case validate_writer_input_identity b i of
        Inl e \<Rightarrow> Err e
      | Inr _ \<Rightarrow>
          (case latest_mutations 0 [] (wi_mutations i) of
             Inl e \<Rightarrow> Err e
           | Inr latest \<Rightarrow>
               let folded = i\<lparr>wi_mutations :=
                     sort_key wm_sequence (filter (mutation_matters (cb_rows b)) (map snd latest))\<rparr>
               in (case validate_writer_input b folded of Inl e \<Rightarrow> Err e | Inr _ \<Rightarrow> Ok folded)))"

text \<open>Admission of a complete row: its key fields agree with the key, and its fields are the schema's.\<close>

definition decode_key_components :: "tag_registry \<Rightarrow> 'k profile \<Rightarrow> 'k \<Rightarrow> raw list option" where
  "decode_key_components vtag p key =
     (case decode_key vtag p (p_encoded p key) of
        Inl _ \<Rightarrow> None
      | Inr _ \<Rightarrow> (case value_decode vtag (p_encoded p key) of
          Inl _ \<Rightarrow> None
        | Inr v \<Rightarrow>
            if length (key_field_ids p) = 0 then Some []
            else if length (key_field_ids p) = 1 then Some [v]
            else (case v of
                    RTag n payload \<Rightarrow>
                      if n \<noteq> 60015 then None
                      else (case raw_array payload of
                              None \<Rightarrow> None
                            | Some components \<Rightarrow>
                                if length components \<noteq> length (key_field_ids p) then None else Some components)
                  | _ \<Rightarrow> None)))"

fun row_fields_from :: "(u8 list, raw) btree_map \<Rightarrow> raw list \<Rightarrow> (u8 list, raw) btree_map option" where
  "row_fields_from m [] = Some m"
| "row_fields_from m (f # fs) =
     (case f of
        RArray [field_id, field_value] \<Rightarrow>
          (case raw_uuid field_id of
             None \<Rightarrow> None
           | Some i \<Rightarrow> if bm_contains m i then None else row_fields_from (bm_insert i field_value m) fs)
      | _ \<Rightarrow> None)"

fun declared_fields_from :: "(u8 list, raw) btree_map \<Rightarrow> u8 list btree_set \<Rightarrow> raw list \<Rightarrow> u8 list btree_set option" where
  "declared_fields_from row declared [] = Some declared"
| "declared_fields_from row declared (f # fs) =
     (case f of
        RArray [field_id, _, _, role, _] \<Rightarrow>
          (case integer_value role of
             None \<Rightarrow> None
           | Some r \<Rightarrow> (case raw_uuid field_id of
               None \<Rightarrow> None
             | Some i \<Rightarrow>
                 if bs_contains declared i \<or> (r = 0 \<or> r = 1) \<and> \<not> bm_contains row i then None
                 else declared_fields_from row (bs_insert i declared) fs))
      | _ \<Rightarrow> None)"

definition complete_writer_row_fields ::
  "tag_registry \<Rightarrow> 'k profile \<Rightarrow> 'k \<Rightarrow> raw \<Rightarrow> (projection_error, (u8 list, raw) btree_map) result" where
  "complete_writer_row_fields vtag p key v =
     (case decode_key_components vtag p key of
        None \<Rightarrow> Err InvalidEvolutionKey
      | Some key_components \<Rightarrow>
          (case v of
             RTag n (RArray [_, RArray row]) \<Rightarrow>
               if n \<noteq> 60009 then Err InvalidEvolutionValue
               else (case row_fields_from [] row of
                       None \<Rightarrow> Err InvalidEvolutionValue
                     | Some row_fields \<Rightarrow>
                         if list_ex (\<lambda>(f, expected). bm_get row_fields f \<noteq> Some expected) (zip (key_field_ids p) key_components)
                         then Err InvalidEvolutionKey
                         else (case Option.bind (Option.bind (integer_map (p_schema p)) (\<lambda>m. bm_get m 3)) raw_array of
                                 None \<Rightarrow> Err InvalidEvolutionValue
                               | Some schema_fields \<Rightarrow> (case declared_fields_from row_fields [] schema_fields of
                                   None \<Rightarrow> Err InvalidEvolutionValue
                                 | Some declared \<Rightarrow>
                                     if list_ex (\<lambda>(f, _). \<not> bs_contains declared f) row_fields
                                     then Err InvalidEvolutionValue else Ok row_fields)))
           | _ \<Rightarrow> Err InvalidEvolutionValue))"

definition validate_complete_writer_row ::
  "tag_registry \<Rightarrow> 'k profile \<Rightarrow> 'k \<Rightarrow> u8 list \<Rightarrow> (projection_error, unit) result" where
  "validate_complete_writer_row vtag p key v =
     (case value_decode vtag v of
        Inl _ \<Rightarrow> Err InvalidEvolutionValue
      | Inr row \<Rightarrow> (case complete_writer_row_fields vtag p key row of Inl e \<Rightarrow> Err e | Inr _ \<Rightarrow> Ok ()))"

definition writer_row_of ::
  "tag_registry \<Rightarrow> 'k profile \<Rightarrow> ('k, base_row) btree_map \<Rightarrow> 'k writer_mutation \<Rightarrow> (projection_error, writer_row) result" where
  "writer_row_of vtag p rows m =
     (case wm_state m of
        MReplacement bytes \<Rightarrow>
          (case value_decode vtag bytes of
             Inl _ \<Rightarrow> Err InvalidEvolutionValue
           | Inr v \<Rightarrow> (case encode_raw vtag v of
               Inl _ \<Rightarrow> Err InvalidEvolutionValue
             | Inr again \<Rightarrow> (case validate_complete_writer_row vtag p (wm_key m) again of
                 Inl e \<Rightarrow> Err e
               | Inr _ \<Rightarrow>
                   Ok \<lparr>wr_key = p_encoded p (wm_key m), wr_value = Some again,
                       wr_role = (if visible rows (wm_key m) then Replacement else Data)\<rparr>)))
      | MDeletion \<Rightarrow> Ok \<lparr>wr_key = p_encoded p (wm_key m), wr_value = None, wr_role = Deletion\<rparr>)"

fun writer_rows ::
  "tag_registry \<Rightarrow> 'k profile \<Rightarrow> ('k, base_row) btree_map \<Rightarrow> 'k writer_mutation list
     \<Rightarrow> (projection_error, writer_row list) result" where
  "writer_rows vtag p rows [] = Ok []"
| "writer_rows vtag p rows (m # ms) =
     (case writer_row_of vtag p rows m of
        Inl e \<Rightarrow> Err e
      | Inr r \<Rightarrow> (case writer_rows vtag p rows ms of Inl e \<Rightarrow> Err e | Inr rs \<Rightarrow> Ok (r # rs)))"

definition prepare_writer_batch ::
  "tag_registry \<Rightarrow> ('k::linorder) profile \<Rightarrow> 'k base_state \<Rightarrow> 'k writer_input \<Rightarrow> (projection_error, writer_batch) result" where
  "prepare_writer_batch vtag p b i =
     (if p_table_id p \<noteq> cb_table_id b then Err WrongTable
      else if p_schema_fingerprint p \<noteq> cb_schema_fingerprint b then Err WrongSchema
      else (case fold_writer_input b i of
              Inl e \<Rightarrow> Err e
            | Inr folded \<Rightarrow> (case writer_rows vtag p (cb_rows b) (wi_mutations folded) of
                Inl e \<Rightarrow> Err e
              | Inr rows \<Rightarrow>
                  Ok \<lparr>wb_table_id = cb_table_id b, wb_schema_fingerprint = cb_schema_fingerprint b,
                      wb_generation = cb_next_generation b, wb_rows = rows\<rparr>)))"

definition consume_writer_input ::
  "('k::linorder) base_state \<Rightarrow> 'k writer_input \<Rightarrow> (projection_error, unit) result" where
  "consume_writer_input = validate_writer_input"

fun apply_mutations ::
  "tag_registry \<Rightarrow> ('k::linorder) profile \<Rightarrow> u64 \<Rightarrow> 'k writer_mutation list \<Rightarrow> ('k, base_row) btree_map
     \<Rightarrow> (projection_error, ('k, base_row) btree_map) result" where
  "apply_mutations vtag p generation [] rows = Ok rows"
| "apply_mutations vtag p generation (m # ms) rows =
     (case value_decode vtag (p_encoded p (wm_key m)) of
        Inl _ \<Rightarrow> Err InvalidEvolutionKey
      | Inr key_value \<Rightarrow>
          (case wm_state m of
             MReplacement bytes \<Rightarrow>
               (case value_decode vtag bytes of
                  Inl _ \<Rightarrow> Err InvalidEvolutionValue
                | Inr v \<Rightarrow>
                    apply_mutations vtag p generation ms (bm_insert (wm_key m)
                      \<lparr>br_key = key_value, br_value = Some v, br_generation = generation, br_role = Replacement\<rparr> rows))
           | MDeletion \<Rightarrow> apply_mutations vtag p generation ms (bm_remove (wm_key m) rows)))"

definition apply_writer_input ::
  "tag_registry \<Rightarrow> ('k::linorder) profile \<Rightarrow> 'k base_state \<Rightarrow> 'k writer_input \<Rightarrow> (projection_error, 'k base_state) result" where
  "apply_writer_input vtag p b i =
     (case validate_writer_input b i of
        Inl e \<Rightarrow> Err e
      | Inr _ \<Rightarrow> (case apply_mutations vtag p (wi_candidate_generation i) (wi_mutations i) (cb_rows b) of
          Inl e \<Rightarrow> Err e
        | Inr rows \<Rightarrow> Ok (b\<lparr>cb_rows := rows\<rparr>)))"

fun apply_batch_rows ::
  "tag_registry \<Rightarrow> ('k::linorder) profile \<Rightarrow> ('k, base_row) btree_map \<Rightarrow> u64 \<Rightarrow> 'k btree_set \<Rightarrow> writer_row list
     \<Rightarrow> ('k, base_row) btree_map \<Rightarrow> (projection_error, ('k, base_row) btree_map) result" where
  "apply_batch_rows vtag p base generation seen [] rows = Ok rows"
| "apply_batch_rows vtag p base generation seen (op # ops) rows =
     (let k = p_identity p (wr_key op) in
      if bs_contains seen k then Err DuplicateKeyGeneration
      else (case value_decode vtag (wr_key op) of
              Inl _ \<Rightarrow> Err InvalidEvolutionKey
            | Inr key \<Rightarrow>
                (case (wr_role op, wr_value op, visible base k) of
                   (Deletion, None, True) \<Rightarrow>
                     apply_batch_rows vtag p base generation (bs_insert k seen) ops (bm_remove k rows)
                 | (role, Some bytes, existing) \<Rightarrow>
                     if role = Data \<and> \<not> existing \<or> role = Replacement \<and> existing then
                       (case value_decode vtag bytes of
                          Inl _ \<Rightarrow> Err InvalidEvolutionValue
                        | Inr v \<Rightarrow>
                            apply_batch_rows vtag p base generation (bs_insert k seen) ops (bm_insert k
                              \<lparr>br_key = key, br_value = Some v, br_generation = generation, br_role = role\<rparr> rows))
                     else Err InvalidWriterRole
                 | _ \<Rightarrow> Err InvalidWriterRole)))"

definition apply_writer_batch ::
  "tag_registry \<Rightarrow> ('k::linorder) profile \<Rightarrow> 'k base_state \<Rightarrow> writer_batch \<Rightarrow> (projection_error, 'k base_state) result" where
  "apply_writer_batch vtag p b batch =
     (if wb_table_id batch \<noteq> cb_table_id b then Err WrongTable
      else if wb_schema_fingerprint batch \<noteq> cb_schema_fingerprint b then Err WrongSchema
      else if wb_generation batch \<noteq> cb_next_generation b then Err StaleGeneration
      else (case apply_batch_rows vtag p (cb_rows b) (wb_generation batch) [] (wb_rows batch) (cb_rows b) of
              Inl e \<Rightarrow> Err e
            | Inr rows \<Rightarrow> Ok (b\<lparr>cb_rows := rows\<rparr>)))"

definition visible_rows :: "'k base_state \<Rightarrow> ('k \<times> raw) list" where
  "visible_rows b =
     List.map_filter (\<lambda>(k, row). map_option (Pair k) (br_value row)) (cb_rows b)"

definition has_same_logical_rows :: "'k base_state \<Rightarrow> 'k base_state \<Rightarrow> bool" where
  "has_same_logical_rows a b \<longleftrightarrow> visible_rows a = visible_rows b"

section \<open>Hybrid base\<close>

record 'k hybrid_base =
  hb_compact :: "'k base_state"
  hb_editable :: "('k, raw) btree_map"

fun admit_editable ::
  "tag_registry \<Rightarrow> ('k::linorder) profile \<Rightarrow> ('k, base_row) btree_map \<Rightarrow> (raw \<times> raw) list \<Rightarrow> ('k, raw) btree_map
     \<Rightarrow> (projection_error, ('k, raw) btree_map) result" where
  "admit_editable vtag p compact [] editable = Ok editable"
| "admit_editable vtag p compact ((key, v) # rows) editable =
     (case encode_raw vtag key of
        Inl _ \<Rightarrow> Err InvalidEvolutionKey
      | Inr key_bytes \<Rightarrow> (case decode_key vtag p key_bytes of
          Inl _ \<Rightarrow> Err InvalidEvolutionKey
        | Inr k \<Rightarrow> (case encode_raw vtag v of
            Inl _ \<Rightarrow> Err InvalidEvolutionValue
          | Inr bytes \<Rightarrow> (case validate_complete_writer_row vtag p k bytes of
              Inl e \<Rightarrow> Err e
            | Inr _ \<Rightarrow>
                if visible compact k \<or> bm_contains editable k then Err DuplicateHybridKey
                else admit_editable vtag p compact rows (bm_insert k v editable)))))"

definition hybrid_new ::
  "tag_registry \<Rightarrow> ('k::linorder) profile \<Rightarrow> 'k base_state \<Rightarrow> (raw \<times> raw) list \<Rightarrow> (projection_error, 'k hybrid_base) result" where
  "hybrid_new vtag p compact editable_rows =
     (if cb_table_id compact \<noteq> p_table_id p then Err WrongTable
      else if cb_schema_fingerprint compact \<noteq> p_schema_fingerprint p then Err WrongSchema
      else (case admit_editable vtag p (cb_rows compact) editable_rows [] of
              Inl e \<Rightarrow> Err e
            | Inr editable \<Rightarrow> Ok \<lparr>hb_compact = compact, hb_editable = editable\<rparr>))"

end
