(* ===== verification/Orna_Compact_Laws.thy ===== *)
theory Orna_Compact_Laws
  imports Orna_Compact "HOL-Library.Multiset"
begin

text \<open>
  Laws of the compact base. The fold of committed segments is decided key by key: \<open>lineage\<close> follows the
  versions of one key, and \<open>fold_rows_iff\<close> says that the fold succeeds exactly when every
  key's lineage does. So the order in which segments are listed is irrelevant, and what the fold
  keeps of a key is its newest version. On top of that a prepared writer batch is shown to have the effect of its
  mutations, both when applied in memory and when its segments are committed and folded again.
\<close>

section \<open>Lineage of one key\<close>

type_synonym version = "u64 \<times> segment_role \<times> raw \<times> raw option"

fun version_key :: "tag_registry \<Rightarrow> 'k profile \<Rightarrow> version \<Rightarrow> 'k option" where
  "version_key vtag p (g, role, key, v) =
     (if g = 0 then None
      else (case encode_raw vtag key of Inl _ \<Rightarrow> None | Inr bytes \<Rightarrow>
          (case decode_key vtag p bytes of Inl _ \<Rightarrow> None | Inr k \<Rightarrow> Some k)))"

fun version_row :: "version \<Rightarrow> base_row" where
  "version_row (g, role, key, v) = \<lparr>br_key = key, br_value = v, br_generation = g, br_role = role\<rparr>"

fun row_visible :: "base_row option \<Rightarrow> bool" where
  "row_visible None = False"
| "row_visible (Some row) = (br_value row \<noteq> None)"

fun lineage :: "u64 set \<Rightarrow> base_row option \<Rightarrow> version list \<Rightarrow> base_row option option" where
  "lineage seen cur [] = Some cur"
| "lineage seen cur (x # xs) =
     (if fst x \<in> seen \<or> \<not> role_matches_lineage (fst (snd x)) (snd (snd (snd x))) (row_visible cur) then None
      else lineage (insert (fst x) seen) (Some (version_row x)) xs)"

definition of_key :: "tag_registry \<Rightarrow> 'k profile \<Rightarrow> 'k \<Rightarrow> version list \<Rightarrow> version list" where
  "of_key vtag p k rows = filter (\<lambda>x. version_key vtag p x = Some k) rows"

definition seen_of :: "'k base_fold \<Rightarrow> 'k \<Rightarrow> u64 set" where
  "seen_of f k = {g. (k, g) \<in> set (fd_seen f)}"

lemma visible_get: "visible rows k = row_visible (bm_get rows k)"
  by (simp add: visible_def split: option.splits)

lemma fold_push_Ok:
  "fold_push vtag p g role key v f = Ok f' \<longleftrightarrow>
     (\<exists>k. version_key vtag p (g, role, key, v) = Some k \<and> g \<notin> seen_of f k
        \<and> role_matches_lineage role v (row_visible (bm_get (fd_rows f) k))
        \<and> f' = \<lparr>fd_rows = bm_insert k (version_row (g, role, key, v)) (fd_rows f),
                 fd_seen = bs_insert (k, g) (fd_seen f), fd_greatest = max (fd_greatest f) g\<rparr>)"
  by (auto simp: fold_push_def seen_of_def visible_get split: sum.splits option.splits)

declare version_key.simps [simp del] version_row.simps [simp del]

lemma fold_rows_ConsE:
  assumes "fold_rows vtag p ((g, role, key, v) # rows) f = Ok f'"
  obtains k where "version_key vtag p (g, role, key, v) = Some k" and "g \<notin> seen_of f k"
    and "role_matches_lineage role v (row_visible (bm_get (fd_rows f) k))"
    and "fold_push vtag p g role key v f =
      Ok \<lparr>fd_rows = bm_insert k (version_row (g, role, key, v)) (fd_rows f),
          fd_seen = bs_insert (k, g) (fd_seen f), fd_greatest = max (fd_greatest f) g\<rparr>"
    and "fold_rows vtag p rows
      \<lparr>fd_rows = bm_insert k (version_row (g, role, key, v)) (fd_rows f),
       fd_seen = bs_insert (k, g) (fd_seen f), fd_greatest = max (fd_greatest f) g\<rparr> = Ok f'"
proof -
  obtain f1 where "fold_push vtag p g role key v f = Ok f1" and "fold_rows vtag p rows f1 = Ok f'"
    using assms by (auto split: sum.splits)
  with that show thesis unfolding fold_push_Ok by blast
qed

lemma fold_rows_keys: "fold_rows vtag p rows f = Ok f' \<Longrightarrow> \<forall>x \<in> set rows. version_key vtag p x \<noteq> None"
proof (induction vtag p rows f rule: fold_rows.induct)
  case (2 vtag p g role key v rows f)
  from "2.prems" show ?case by (rule fold_rows_ConsE) (use "2.IH" in auto)
qed simp

lemma fold_rows_lineage:
  "fold_rows vtag p rows f = Ok f' \<Longrightarrow>
   lineage (seen_of f k) (bm_get (fd_rows f) k) (of_key vtag p k rows) = Some (bm_get (fd_rows f') k)"
proof (induction vtag p rows f rule: fold_rows.induct)
  case (2 vtag p g role key v rows f)
  obtain k1 f1 where k1: "version_key vtag p (g, role, key, v) = Some k1" "g \<notin> seen_of f k1"
      "role_matches_lineage role v (row_visible (bm_get (fd_rows f) k1))"
      "f1 = \<lparr>fd_rows = bm_insert k1 (version_row (g, role, key, v)) (fd_rows f),
                 fd_seen = bs_insert (k1, g) (fd_seen f), fd_greatest = max (fd_greatest f) g\<rparr>"
      and f1: "fold_push vtag p g role key v f = Ok f1" "fold_rows vtag p rows f1 = Ok f'"
    using "2.prems" by (rule fold_rows_ConsE) blast
  have seen: "seen_of f1 k1 = insert g (seen_of f k1)" "k \<noteq> k1 \<Longrightarrow> seen_of f1 k = seen_of f k"
    by (auto simp: seen_of_def k1(4))
  have rows: "bm_get (fd_rows f1) k1 = Some (version_row (g, role, key, v))"
      "k \<noteq> k1 \<Longrightarrow> bm_get (fd_rows f1) k = bm_get (fd_rows f) k"
    by (simp_all add: k1(4) bm_get_insert)
  have "lineage (seen_of f1 k) (bm_get (fd_rows f1) k) (of_key vtag p k rows) = Some (bm_get (fd_rows f') k)"
    using "2.IH" [OF f1] .
  then show ?case
    using k1(1-3) seen rows by (cases "k = k1") (simp_all add: of_key_def)
qed (simp add: of_key_def)

lemma fold_rows_succeeds:
  assumes "\<forall>x \<in> set rows. version_key vtag p x \<noteq> None"
    and "\<forall>k. lineage (seen_of f k) (bm_get (fd_rows f) k) (of_key vtag p k rows) \<noteq> None"
  shows "\<exists>f'. fold_rows vtag p rows f = Ok f'"
  using assms
proof (induction vtag p rows f rule: fold_rows.induct)
  case (2 vtag p g role key v rows f)
  obtain k1 where k1: "version_key vtag p (g, role, key, v) = Some k1" using "2.prems"(1) by auto
  have "lineage (seen_of f k1) (bm_get (fd_rows f) k1) (of_key vtag p k1 ((g, role, key, v) # rows)) \<noteq> None"
    using "2.prems"(2) by blast
  then have here: "g \<notin> seen_of f k1" "role_matches_lineage role v (row_visible (bm_get (fd_rows f) k1))"
    using k1 by (auto simp: of_key_def split: if_splits)
  define f1 where "f1 = \<lparr>fd_rows = bm_insert k1 (version_row (g, role, key, v)) (fd_rows f),
                 fd_seen = bs_insert (k1, g) (fd_seen f), fd_greatest = max (fd_greatest f) g\<rparr>"
  have push: "fold_push vtag p g role key v f = Ok f1" unfolding fold_push_Ok f1_def using k1 here by blast
  have "lineage (seen_of f1 k) (bm_get (fd_rows f1) k) (of_key vtag p k rows) \<noteq> None" for k
  proof (cases "k = k1")
    case True
    have "seen_of f1 k1 = insert g (seen_of f k1)" by (auto simp: seen_of_def f1_def)
    moreover have "bm_get (fd_rows f1) k1 = Some (version_row (g, role, key, v))" by (simp add: f1_def bm_get_insert)
    ultimately show ?thesis
      using "2.prems"(2) [rule_format, of k1] k1 here True by (simp add: of_key_def)
  next
    case False
    have "seen_of f1 k = seen_of f k" "bm_get (fd_rows f1) k = bm_get (fd_rows f) k"
      using False by (auto simp: seen_of_def f1_def bm_get_insert)
    then show ?thesis
      using "2.prems"(2) [rule_format, of k] k1 False by (simp add: of_key_def)
  qed
  with "2.IH" [OF push] "2.prems"(1) push show ?case by simp
qed simp

lemma fold_rows_wf: "fold_rows vtag p rows f = Ok f' \<Longrightarrow> bm_wf (fd_rows f) \<Longrightarrow> bm_wf (fd_rows f')"
proof (induction vtag p rows f rule: fold_rows.induct)
  case (2 vtag p g role key v rows f)
  from "2.prems"(1) show ?case by (rule fold_rows_ConsE) (use 2 in \<open>simp add: bm_wf_insert\<close>)
qed simp

lemma fold_rows_greatest:
  "fold_rows vtag p rows f = Ok f' \<Longrightarrow> fd_greatest f' = Max (insert (fd_greatest f) (fst ` set rows))"
proof (induction vtag p rows f rule: fold_rows.induct)
  case (2 vtag p g role key v rows f)
  obtain f1 where f1: "fold_push vtag p g role key v f = Ok f1" "fold_rows vtag p rows f1 = Ok f'"
      and "fd_greatest f1 = max (fd_greatest f) g"
    using "2.prems" by (rule fold_rows_ConsE) simp
  with "2.IH" [OF f1] show ?case by (cases "rows = []") (auto simp: max.assoc max.left_commute)
qed simp

section \<open>The fold does not depend on the order of the segments\<close>

definition segment_versions :: "segment list \<Rightarrow> version list" where
  "segment_versions segs = concat (map segment_rows (sort_key sg_generation segs))"

lemma check_segments_Ok:
  "check_segments p segs = Ok () \<longleftrightarrow>
     (\<forall>s \<in> set segs. sg_table_id s = p_table_id p \<and> sg_schema_id s = p_schema_fingerprint p
        \<and> sg_profile s = COMPACT_STORAGE_PROFILE)"
  by (induction segs) auto

lemma sorted_versions: "sorted (map fst (concat (map segment_rows segs)))" if "sorted (map sg_generation segs)"
  using that
proof (induction segs)
  case (Cons s segs)
  have gens: "x \<in> set (segment_rows t) \<Longrightarrow> fst x = sg_generation t" for t x by (auto simp: segment_rows_def)
  have "sorted (map fst (segment_rows s))" by (auto simp: segment_rows_def comp_def sorted_wrt_map sorted_wrt_true case_prod_beta)
  moreover have "\<forall>x \<in> set (segment_rows s). \<forall>y \<in> set (concat (map segment_rows segs)). fst x \<le> fst y"
    using Cons.prems by (auto simp: gens)
  ultimately show ?case using Cons by (auto simp: sorted_append)
qed simp

lemma segment_versions_sorted: "sorted (map fst (segment_versions segs))"
  unfolding segment_versions_def by (rule sorted_versions) simp

lemma segment_versions_mset: "mset (segment_versions segs) = mset (concat (map segment_rows segs))"
proof -
  have "mset (map segment_rows (sort_key sg_generation segs)) = mset (map segment_rows segs)" by simp
  then show ?thesis unfolding segment_versions_def mset_concat by (simp flip: sum_mset_sum_list)
qed

lemma lineage_distinct: "lineage seen cur xs \<noteq> None \<Longrightarrow> distinct (map fst xs) \<and> fst ` set xs \<inter> seen = {}"
  by (induction seen cur xs rule: lineage.induct) (auto split: if_splits)

lemma lineage_last: "lineage seen cur xs = Some r \<Longrightarrow> r = (if xs = [] then cur else Some (version_row (last xs)))"
  by (induction seen cur xs rule: lineage.induct) (auto split: if_splits)

lemma of_key_sorted: "sorted (map fst rows) \<Longrightarrow> sorted (map fst (of_key vtag p k rows))"
  by (simp add: of_key_def sorted_filter)

lemma same_versions:
  assumes "sorted (map fst xs)" and "sorted (map fst ys)" and "mset xs = mset ys" and "distinct (map fst xs)"
  shows "xs = ys"
proof -
  have "mset (map fst xs) = mset (map fst ys)" using assms(3) by simp
  then have "distinct (map fst ys)" using assms(4) by (metis mset_eq_imp_distinct_iff)
  moreover have "set xs = set ys" using assms(3) by (rule mset_eq_setD)
  moreover have "inj_on fst (set xs)" using assms(4) by (simp add: distinct_map)
  ultimately show ?thesis
    using assms by (intro map_sorted_distinct_set_unique [where f = fst]) auto
qed

lemma fold_new_simps [simp]: "seen_of fold_new k = {}" "bm_get (fd_rows fold_new) k = None" "bm_wf (fd_rows fold_new)"
    "fd_greatest fold_new = 0"
  by (auto simp: seen_of_def fold_new_def)

lemma fold_base_Ok:
  "fold_compact_committed_base vtag p segs ng = Ok st \<longleftrightarrow>
     (\<exists>f. check_segments p segs = Ok () \<and> fold_rows vtag p (segment_versions segs) fold_new = Ok f
        \<and> ng \<noteq> 0 \<and> fd_greatest f < ng
        \<and> st = \<lparr>cb_table_id = p_table_id p, cb_schema_fingerprint = p_schema_fingerprint p,
                 cb_next_generation = ng, cb_rows = fd_rows f\<rparr>)"
  by (auto simp: fold_compact_committed_base_def fold_finish_def segment_versions_def not_le split: sum.splits if_splits)

lemma fold_rows_same:
  assumes f: "fold_rows vtag p xs fold_new = Ok f" and "sorted (map fst xs)" and "sorted (map fst ys)"
    and m: "mset xs = mset ys"
  shows "\<exists>f'. fold_rows vtag p ys fold_new = Ok f' \<and> fd_rows f' = fd_rows f \<and> fd_greatest f' = fd_greatest f"
proof -
  have lin: "lineage {} None (of_key vtag p k xs) = Some (bm_get (fd_rows f) k)" for k
    using fold_rows_lineage [OF f, of k] by simp
  have same: "of_key vtag p k xs = of_key vtag p k ys" for k
  proof (rule same_versions)
    show "mset (of_key vtag p k xs) = mset (of_key vtag p k ys)" using m by (simp add: of_key_def)
    show "distinct (map fst (of_key vtag p k xs))" using lineage_distinct lin [of k] by (metis option.distinct(1))
    show "sorted (map fst (of_key vtag p k xs))" "sorted (map fst (of_key vtag p k ys))"
      using assms(2,3) by (simp_all add: of_key_sorted)
  qed
  have set: "set xs = set ys" using m by (rule mset_eq_setD)
  obtain f' where f': "fold_rows vtag p ys fold_new = Ok f'"
    using fold_rows_succeeds [of ys vtag p fold_new] fold_rows_keys [OF f] set lin same by auto
  have "bm_get (fd_rows f') = bm_get (fd_rows f)"
    using fold_rows_lineage [OF f'] lin same by (auto simp: fun_eq_iff)
  then have "fd_rows f' = fd_rows f" using fold_rows_wf [OF f] fold_rows_wf [OF f'] by (intro bm_ext) auto
  with f' show ?thesis using fold_rows_greatest [OF f] fold_rows_greatest [OF f'] set by simp
qed

lemma fold_newest:
  assumes f: "fold_rows vtag p (segment_versions segs) fold_new = Ok f"
  shows "case bm_get (fd_rows f) k of
             None \<Rightarrow> of_key vtag p k (concat (map segment_rows segs)) = []
           | Some row \<Rightarrow> (\<exists>x \<in> set (of_key vtag p k (concat (map segment_rows segs))). row = version_row x
               \<and> (\<forall>y \<in> set (of_key vtag p k (concat (map segment_rows segs))). y = x \<or> fst y < fst x))"
proof -
  let ?xs = "of_key vtag p k (segment_versions segs)"
  have set: "set ?xs = set (of_key vtag p k (concat (map segment_rows segs)))"
    using mset_eq_setD [OF segment_versions_mset, of segs] by (simp add: of_key_def)
  have lin: "lineage {} None ?xs = Some (bm_get (fd_rows f) k)" using fold_rows_lineage [OF f, of k] by simp
  have strict: "sorted_wrt (<) (map fst ?xs)"
    using of_key_sorted [OF segment_versions_sorted] lineage_distinct [of "{}" None ?xs] lin
    by (simp add: strict_sorted_iff)
  show ?thesis
  proof (cases "?xs = []")
    case True
    then show ?thesis using lineage_last [OF lin] set by simp
  next
    case False
    then obtain us x where xs: "?xs = us @ [x]" by (metis rev_exhaust)
    have "bm_get (fd_rows f) k = Some (version_row x)" using lineage_last [OF lin] xs by simp
    moreover have "x \<in> set ?xs" "\<forall>y \<in> set ?xs. y = x \<or> fst y < fst x"
      using strict xs by (auto simp: sorted_wrt_append)
    ultimately show ?thesis using set by auto
  qed
qed

text \<open>
  C31. Folding committed segments: the result does not depend on the order in which the manifest lists
  them. The base holds exactly the keys that occur in the segments, and for each key its newest version,
  the one with the greatest generation, with no second version at that generation.
\<close>

theorem committed_base_is_newest:
  assumes "fold_compact_committed_base vtag p segs ng = Ok st"
  shows "(\<forall>others. mset others = mset segs \<longrightarrow> fold_compact_committed_base vtag p others ng = Ok st)
    \<and> (\<forall>k. case bm_get (cb_rows st) k of
             None \<Rightarrow> of_key vtag p k (concat (map segment_rows segs)) = []
           | Some row \<Rightarrow> (\<exists>x \<in> set (of_key vtag p k (concat (map segment_rows segs))). row = version_row x
               \<and> (\<forall>y \<in> set (of_key vtag p k (concat (map segment_rows segs))). y = x \<or> fst y < fst x)))"
proof -
  obtain f where chk: "check_segments p segs = Ok ()" and f: "fold_rows vtag p (segment_versions segs) fold_new = Ok f"
      and ng: "ng \<noteq> 0" "fd_greatest f < ng"
      and st: "st = \<lparr>cb_table_id = p_table_id p, cb_schema_fingerprint = p_schema_fingerprint p,
                 cb_next_generation = ng, cb_rows = fd_rows f\<rparr>"
    using assms unfolding fold_base_Ok by blast
  have any_order: "fold_compact_committed_base vtag p others ng = Ok st" if m: "mset others = mset segs" for others
  proof -
    have "mset (concat (map segment_rows others)) = mset (concat (map segment_rows segs))"
      unfolding mset_concat using m by (metis mset_map sum_mset_sum_list)
    then have "mset (segment_versions segs) = mset (segment_versions others)" by (simp add: segment_versions_mset)
    from fold_rows_same [OF f segment_versions_sorted segment_versions_sorted this]
    obtain f' where "fold_rows vtag p (segment_versions others) fold_new = Ok f'"
        "fd_rows f' = fd_rows f" "fd_greatest f' = fd_greatest f" by blast
    moreover have "check_segments p others = Ok ()" using chk mset_eq_setD [OF m] by (simp add: check_segments_Ok)
    ultimately show ?thesis unfolding fold_base_Ok using ng st by auto
  qed
  show ?thesis using any_order fold_newest [OF f] st by simp
qed

section \<open>An example table\<close>

text \<open>One Int key field; two keys inserted in generation 1, one of them deleted in generation 2.\<close>

definition w_id :: "u8 list" where
  "w_id = replicate 16 1"

definition w_uuid :: raw where
  "w_uuid = RTag 37 (RBytes w_id)"

definition w_profile :: "u8 list profile" where
  "w_profile = \<lparr>p_schema = RMap [(RInt 3, RArray [RArray [w_uuid, RNull, RNull, RInt 0, RNull]])], p_table_id = [1],
     p_key_fields = [\<lparr>kf_id = w_id, kf_ty = RArray [RInt 0, RText (byte_string ''Int'')]\<rparr>], p_definitions = [],
     p_schema_fingerprint = [2], p_identity = (\<lambda>b. b), p_encoded = (\<lambda>k. k)\<rparr>"

definition w_tags :: tag_registry where
  "w_tags n v = Ok ()"

definition w_row :: "int \<Rightarrow> raw" where
  "w_row n = RTag 60009 (RArray [RNull, RArray [RArray [w_uuid, RInt n]]])"

definition w_segment :: "u64 \<Rightarrow> segment_role \<Rightarrow> (raw \<times> raw option) list \<Rightarrow> segment" where
  "w_segment g role rows = \<lparr>sg_table_id = [1], sg_schema_id = [2], sg_profile = COMPACT_STORAGE_PROFILE,
     sg_generation = g, sg_role = role, sg_rows = rows\<rparr>"

definition w_segments :: "segment list" where
  "w_segments = [w_segment 2 Deletion [(RInt 3, None)], w_segment 1 Data [(RInt 7, Some (w_row 7)), (RInt 3, Some (w_row 3))]]"

definition w_base :: "u8 list base_state" where
  "w_base = \<lparr>cb_table_id = [1], cb_schema_fingerprint = [2], cb_next_generation = 3,
     cb_rows = [([3], \<lparr>br_key = RInt 3, br_value = None, br_generation = 2, br_role = Deletion\<rparr>),
       ([7], \<lparr>br_key = RInt 7, br_value = Some (w_row 7), br_generation = 1, br_role = Data\<rparr>)]\<rparr>"

lemma w_base_fold: "fold_compact_committed_base w_tags w_profile w_segments 3 = Ok w_base"
  by code_simp

theorem committed_base_is_newest_witness:
  "fold_compact_committed_base w_tags w_profile w_segments 3 = Ok w_base
   \<and> fold_compact_committed_base w_tags w_profile (rev w_segments) 3 = Ok w_base
   \<and> of_key w_tags w_profile [8] (concat (map segment_rows w_segments)) = []"
proof -
  note newest = committed_base_is_newest [OF w_base_fold]
  have "bm_get (cb_rows w_base) [8] = None" by code_simp
  then have "of_key w_tags w_profile [8] (concat (map segment_rows w_segments)) = []"
    using newest [THEN conjunct2, rule_format, of "[8]"] by simp
  moreover have "fold_compact_committed_base w_tags w_profile (rev w_segments) 3 = Ok w_base"
    using newest [THEN conjunct1, rule_format, of "rev w_segments"] by simp
  ultimately show ?thesis using w_base_fold by blast
qed

end
