(* ===== verification/Orna_Publication.thy ===== *)
theory Orna_Publication
  imports Orna_Compact_Laws
begin

text \<open>
  Publishing to compact storage. A writer batch prepared against a committed base has the
  effect of its mutations in order, whether it is applied in memory or committed as segments
  and folded again with the segments before it.
\<close>

section \<open>Logical rows\<close>

definition row_value :: "base_row option \<Rightarrow> raw option" where
  "row_value x = Option.bind x br_value"

definition logical :: "'k base_state \<Rightarrow> 'k \<Rightarrow> raw option" where
  "logical b k = row_value (bm_get (cb_rows b) k)"

lemma row_value_simps [simp]: "row_value None = None" "row_value (Some r) = br_value r"
  by (simp_all add: row_value_def)

lemma row_visible_value: "row_visible x \<longleftrightarrow> row_value x \<noteq> None"
  by (cases x) auto

lemma visible_value: "visible rows k \<longleftrightarrow> row_value (bm_get rows k) \<noteq> None"
  by (simp add: visible_get row_visible_value)

lemma visible_rows_get:
  assumes "bm_wf (cb_rows b)"
  shows "bm_wf (visible_rows b) \<and> bm_get (visible_rows b) = logical b"
proof -
  define live where "live = (\<lambda>(k :: 'a, row :: base_row). map_option (Pair k) (br_value row))"
  have "bm_wf (List.map_filter live m) \<and> fst ` set (List.map_filter live m) \<subseteq> fst ` set m
      \<and> bm_get (List.map_filter live m) k = row_value (bm_get m k)" if "bm_wf m" for m k
    using that
  proof (induction m)
    case (Cons x m)
    obtain l r where x: "x = (l, r)" by (cases x)
    with Cons.prems have wf: "bm_wf m" and lt: "\<forall>j \<in> fst ` set m. l < j" by (auto simp: bm_wf_Cons)
    have l: "bm_get m l = None" using lt by (auto simp: bm_get_None_notin)
    have step: "List.map_filter live (x # m) =
        (case br_value r of None \<Rightarrow> List.map_filter live m | Some v \<Rightarrow> (l, v) # List.map_filter live m)"
      by (simp add: x live_def List.map_filter_simps split: option.splits)
    have "\<forall>j \<in> fst ` set (List.map_filter live m). l < j" using Cons.IH [OF wf] lt by blast
    with Cons.IH [OF wf] l show ?case
      unfolding step
      by (cases "br_value r") (auto simp: x bm_wf_Cons bm_get_def)
  qed (simp add: List.map_filter_simps)
  from this [OF assms] show ?thesis
    by (auto simp: visible_rows_def live_def logical_def fun_eq_iff)
qed

lemma same_logical_rows:
  assumes "bm_wf (cb_rows a)" and "bm_wf (cb_rows b)"
  shows "has_same_logical_rows a b \<longleftrightarrow> logical a = logical b"
  unfolding has_same_logical_rows_def
  using visible_rows_get [OF assms(1)] visible_rows_get [OF assms(2)] bm_ext by metis

section \<open>Folding the mutations\<close>

fun mutation_value :: "tag_registry \<Rightarrow> writer_mutation_state \<Rightarrow> raw option" where
  "mutation_value vtag (MReplacement bytes) = (case value_decode vtag bytes of Inl _ \<Rightarrow> None | Inr v \<Rightarrow> Some v)"
| "mutation_value vtag MDeletion = None"

text \<open>The mutations in order, each overwriting its key.\<close>

fun run_mutations :: "tag_registry \<Rightarrow> 'k writer_mutation list \<Rightarrow> ('k \<Rightarrow> raw option) \<Rightarrow> 'k \<Rightarrow> raw option" where
  "run_mutations vtag [] rows = rows"
| "run_mutations vtag (m # ms) rows = run_mutations vtag ms (rows(wm_key m := mutation_value vtag (wm_state m)))"

definition last_mutation :: "'k writer_mutation list \<Rightarrow> 'k \<Rightarrow> 'k writer_mutation option" where
  "last_mutation ms k = find (\<lambda>m. wm_key m = k) (rev ms)"

lemma find_append: "find P (xs @ ys) = (case find P xs of None \<Rightarrow> find P ys | Some x \<Rightarrow> Some x)"
  by (induction xs) auto

lemma last_mutation_simps [simp]:
  "last_mutation [] k = None"
  "last_mutation (m # ms) k =
     (case last_mutation ms k of None \<Rightarrow> if wm_key m = k then Some m else None | Some x \<Rightarrow> Some x)"
  by (simp_all add: last_mutation_def find_append split: option.splits)

lemma run_mutations_last:
  "run_mutations vtag ms rows k =
     (case last_mutation ms k of None \<Rightarrow> rows k | Some m \<Rightarrow> mutation_value vtag (wm_state m))"
  by (induction ms arbitrary: rows) (auto split: option.splits)

lemma latest_mutations_get:
  "latest_mutations previous latest ms = Ok l \<Longrightarrow> bm_wf latest \<Longrightarrow>
   bm_wf l \<and> bm_get l k = (case last_mutation ms k of None \<Rightarrow> bm_get latest k | Some m \<Rightarrow> Some m)"
  by (induction previous latest ms rule: latest_mutations.induct)
    (auto simp: bm_wf_insert bm_get_insert split: if_splits option.splits)

lemma last_mutation_key: "last_mutation ms k = Some m \<Longrightarrow> wm_key m = k"
  by (auto simp: last_mutation_def find_Some_iff)

definition folded :: "('k::linorder) base_state \<Rightarrow> 'k writer_mutation list \<Rightarrow> 'k writer_mutation list \<Rightarrow> bool" where
  "folded b ms fs \<longleftrightarrow>
     distinct (map wm_key fs)
     \<and> (\<forall>m. m \<in> set fs \<longleftrightarrow> last_mutation ms (wm_key m) = Some m \<and> mutation_matters (cb_rows b) m)"

lemma latest_distinct:
  assumes l: "latest_mutations 0 [] ms = Ok l"
  shows "distinct (map wm_key (sort_key wm_sequence (filter P (map snd l))))"
proof -
  have wf: "bm_wf l" and get: "bm_get l k = last_mutation ms k" for k
    using latest_mutations_get [OF l] by (auto split: option.splits)
  have "(k, m) \<in> set l \<longleftrightarrow> last_mutation ms k = Some m" for k m
    using bm_get_mem [OF wf] get by simp
  then have own: "map wm_key (map snd l) = map fst l" by (auto dest: last_mutation_key)
  have "distinct (map fst l)" using wf by (simp add: bm_wf_def strict_sorted_iff)
  then have "distinct (map wm_key (map snd l))" unfolding own .
  then have "distinct (map wm_key (filter P (map snd l)))" by (rule distinct_map_filter)
  then show ?thesis by (metis mset_eq_imp_distinct_iff mset_map mset_sort)
qed

lemma fold_writer_input_folded:
  assumes "fold_writer_input b i = Ok o'"
  shows "folded b (wi_mutations i) (wi_mutations o')"
proof -
  from assms obtain l where l: "latest_mutations 0 [] (wi_mutations i) = Ok l"
      and fs: "wi_mutations o' = sort_key wm_sequence (filter (mutation_matters (cb_rows b)) (map snd l))"
    by (auto simp: fold_writer_input_def Let_def split: sum.splits)
  have wf: "bm_wf l" and get: "bm_get l k = last_mutation (wi_mutations i) k" for k
    using latest_mutations_get [OF l] by (auto split: option.splits)
  have key: "(k, m) \<in> set l \<longleftrightarrow> last_mutation (wi_mutations i) k = Some m" for k m
    using bm_get_mem [OF wf] get by simp
  have "distinct (map wm_key (wi_mutations o'))" unfolding fs by (rule latest_distinct [OF l])
  moreover have "m \<in> set (wi_mutations o') \<longleftrightarrow>
      last_mutation (wi_mutations i) (wm_key m) = Some m \<and> mutation_matters (cb_rows b) m" for m
  proof -
    have "m \<in> snd ` set l \<longleftrightarrow> last_mutation (wi_mutations i) (wm_key m) = Some m"
    proof
      assume "m \<in> snd ` set l"
      then obtain k where "last_mutation (wi_mutations i) k = Some m" using key by auto
      with last_mutation_key show "last_mutation (wi_mutations i) (wm_key m) = Some m" by fastforce
    next
      assume "last_mutation (wi_mutations i) (wm_key m) = Some m"
      then have "(wm_key m, m) \<in> set l" using key by simp
      then show "m \<in> snd ` set l" by force
    qed
    then show ?thesis by (auto simp: fs)
  qed
  ultimately show ?thesis by (simp add: folded_def)
qed

section \<open>Rows of a batch\<close>

definition decoded :: "tag_registry \<Rightarrow> u8 list \<Rightarrow> raw" where
  "decoded vtag b = (case value_decode vtag b of Inl _ \<Rightarrow> RNull | Inr v \<Rightarrow> v)"

definition row_fits :: "tag_registry \<Rightarrow> 'k profile \<Rightarrow> ('k, base_row) btree_map \<Rightarrow> writer_row \<Rightarrow> bool" where
  "row_fits vtag p base r \<longleftrightarrow>
     decode_key vtag p (wr_key r) = Ok (p_identity p (wr_key r))
     \<and> value_decode vtag (wr_key r) = Ok (decoded vtag (wr_key r))
     \<and> (\<forall>b. wr_value r = Some b \<longrightarrow> value_decode vtag b = Ok (decoded vtag b))
     \<and> role_matches_lineage (wr_role r) (map_option (decoded vtag) (wr_value r)) (visible base (p_identity p (wr_key r)))"

definition row_at :: "'k profile \<Rightarrow> writer_row list \<Rightarrow> 'k \<Rightarrow> writer_row option" where
  "row_at p rs k = find (\<lambda>r. p_identity p (wr_key r) = k) rs"

definition row_key :: "'k profile \<Rightarrow> writer_row \<Rightarrow> 'k" where
  "row_key p r = p_identity p (wr_key r)"

lemma role_matches_cases:
  "role_matches_lineage role v vis \<longleftrightarrow>
     role = Data \<and> v \<noteq> None \<and> \<not> vis \<or> role = Replacement \<and> v \<noteq> None \<and> vis \<or> role = Deletion \<and> v = None \<and> vis"
  by (cases role; cases v; cases vis) auto

lemma row_at_notin: "k \<notin> row_key p ` set rs \<Longrightarrow> row_at p rs k = None"
  by (auto simp: row_at_def row_key_def find_None_iff)

lemma apply_batch_rows_spec:
  assumes "list_all (row_fits vtag p base) rs" and "distinct (map (row_key p) rs)"
    and "row_key p ` set rs \<inter> set seen = {}" and "bm_wf rows"
  shows "\<exists>rows'. apply_batch_rows vtag p base g seen rs rows = Ok rows' \<and> bm_wf rows'
    \<and> (\<forall>k. row_value (bm_get rows' k) =
          (case row_at p rs k of None \<Rightarrow> row_value (bm_get rows k) | Some r \<Rightarrow> map_option (decoded vtag) (wr_value r)))"
  using assms
proof (induction rs arbitrary: seen rows)
  case Nil
  then show ?case by (simp add: row_at_def)
next
  case (Cons r rs)
  let ?k = "row_key p r"
  have fits: "row_fits vtag p base r" using Cons.prems(1) by simp
  define rows1 where "rows1 = (case wr_value r of
      None \<Rightarrow> bm_remove ?k rows
    | Some b \<Rightarrow> bm_insert ?k \<lparr>br_key = decoded vtag (wr_key r), br_value = Some (decoded vtag b), br_generation = g,
        br_role = wr_role r\<rparr> rows)"
  have step: "apply_batch_rows vtag p base g seen (r # rs) rows =
      apply_batch_rows vtag p base g (bs_insert ?k seen) rs rows1"
    using fits Cons.prems(3)
    by (cases "wr_value r")
      (auto simp: row_fits_def role_matches_cases rows1_def row_key_def [symmetric] Let_def split: segment_role.splits)
  have wf: "bm_wf rows1" using Cons.prems(4) by (simp add: rows1_def bm_wf_insert bm_wf_remove split: option.splits)
  have value1: "row_value (bm_get rows1 k) =
      (if k = ?k then map_option (decoded vtag) (wr_value r) else row_value (bm_get rows k))" for k
    using Cons.prems(4) by (simp add: rows1_def bm_get_insert bm_get_remove split: option.splits)
  have rest: "list_all (row_fits vtag p base) rs" "distinct (map (row_key p) rs)"
      "row_key p ` set rs \<inter> set (bs_insert ?k seen) = {}"
    using Cons.prems by auto
  obtain rows' where rows': "apply_batch_rows vtag p base g (bs_insert ?k seen) rs rows1 = Ok rows'" "bm_wf rows'"
      and get: "\<forall>k. row_value (bm_get rows' k) =
        (case row_at p rs k of None \<Rightarrow> row_value (bm_get rows1 k) | Some r \<Rightarrow> map_option (decoded vtag) (wr_value r))"
    using Cons.IH [OF rest wf] by blast
  have "row_at p rs ?k = None" using Cons.prems(2) by (intro row_at_notin) auto
  then have "row_value (bm_get rows' k) =
      (case row_at p (r # rs) k of None \<Rightarrow> row_value (bm_get rows k) | Some r \<Rightarrow> map_option (decoded vtag) (wr_value r))" for k
    using get [rule_format, of k] value1 [of k] by (auto simp: row_at_def row_key_def split: option.splits)
  with rows' step show ?case by auto
qed

section \<open>Committing the batch\<close>

definition batch_segment :: "tag_registry \<Rightarrow> writer_batch \<Rightarrow> segment_role \<Rightarrow> segment" where
  "batch_segment vtag batch role =
     \<lparr>sg_table_id = wb_table_id batch, sg_schema_id = wb_schema_fingerprint batch, sg_profile = COMPACT_STORAGE_PROFILE,
      sg_generation = wb_generation batch, sg_role = role,
      sg_rows = map (\<lambda>r. (decoded vtag (wr_key r), map_option (decoded vtag) (wr_value r)))
        (filter (\<lambda>r. wr_role r = role) (wb_rows batch))\<rparr>"

text \<open>The committed form of a batch: one segment per physical role, all at the batch's generation.\<close>

definition batch_segments :: "tag_registry \<Rightarrow> writer_batch \<Rightarrow> segment list" where
  "batch_segments vtag batch = map (batch_segment vtag batch) [Data, Replacement, Deletion]"

definition batch_version :: "tag_registry \<Rightarrow> u64 \<Rightarrow> writer_row \<Rightarrow> version" where
  "batch_version vtag g r = (g, wr_role r, decoded vtag (wr_key r), map_option (decoded vtag) (wr_value r))"

lemma batch_versions:
  "concat (map segment_rows (batch_segments vtag batch)) =
     map (batch_version vtag (wb_generation batch))
       (filter (\<lambda>r. wr_role r = Data) (wb_rows batch) @ filter (\<lambda>r. wr_role r = Replacement) (wb_rows batch)
        @ filter (\<lambda>r. wr_role r = Deletion) (wb_rows batch))"
  by (simp add: batch_segments_def batch_segment_def segment_rows_def batch_version_def comp_def)

lemma by_role_mset:
  "mset (filter (\<lambda>r. wr_role r = Data) rs @ filter (\<lambda>r. wr_role r = Replacement) rs
     @ filter (\<lambda>r. wr_role r = Deletion) rs) = mset rs"
proof (induction rs)
  case (Cons r rs)
  then show ?case by (cases "wr_role r") simp_all
qed simp

lemma fold_rows_append:
  "fold_rows vtag p (xs @ ys) f =
     (case fold_rows vtag p xs f of Inl e \<Rightarrow> Err e | Inr f' \<Rightarrow> fold_rows vtag p ys f')"
  by (induction vtag p xs f rule: fold_rows.induct) (auto split: sum.splits)

lemma filter_row_key:
  assumes "mset qs = mset rs" and "distinct (map (row_key p) rs)"
  shows "filter (\<lambda>r. row_key p r = k) qs = (case row_at p rs k of None \<Rightarrow> [] | Some r \<Rightarrow> [r])"
proof -
  have "filter (\<lambda>r. row_key p r = k) rs = (case row_at p rs k of None \<Rightarrow> [] | Some r \<Rightarrow> [r])"
    using assms(2)
  proof (induction rs)
    case (Cons r rs)
    show ?case
    proof (cases "row_key p r = k")
      case True
      with Cons.prems have "k \<notin> row_key p ` set rs" by auto
      then have "filter (\<lambda>r. row_key p r = k) rs = []" by (auto simp: filter_empty_conv)
      with True show ?thesis by (simp add: row_at_def row_key_def)
    next
      case False
      with Cons show ?thesis by (simp add: row_at_def row_key_def)
    qed
  qed (simp add: row_at_def)
  moreover have "mset (filter (\<lambda>r. row_key p r = k) qs) = mset (filter (\<lambda>r. row_key p r = k) rs)"
    using assms(1) by simp
  ultimately show ?thesis by (cases "row_at p rs k") (simp_all only: option.case mset.simps mset_zero_iff mset_single_iff)
qed

lemma fold_rows_seen: "fold_rows vtag p rows f = Ok f' \<Longrightarrow> seen_of f' k \<subseteq> seen_of f k \<union> fst ` set rows"
proof (induction vtag p rows f rule: fold_rows.induct)
  case (2 vtag p g role key v rows f)
  from "2.prems" obtain k1 where push: "fold_push vtag p g role key v f =
      Ok \<lparr>fd_rows = bm_insert k1 (version_row (g, role, key, v)) (fd_rows f),
          fd_seen = bs_insert (k1, g) (fd_seen f), fd_greatest = max (fd_greatest f) g\<rparr>"
    and rest: "fold_rows vtag p rows
      \<lparr>fd_rows = bm_insert k1 (version_row (g, role, key, v)) (fd_rows f),
       fd_seen = bs_insert (k1, g) (fd_seen f), fd_greatest = max (fd_greatest f) g\<rparr> = Ok f'"
    by (rule fold_rows_ConsE)
  from "2.IH" [OF push rest] show ?case by (auto simp: seen_of_def)
qed simp

section \<open>Rows prepared against a base\<close>

lemma writer_rows_all2:
  "writer_rows vtag p rows ms = Ok rs \<Longrightarrow> list_all2 (\<lambda>m r. writer_row_of vtag p rows m = Ok r) ms rs"
  by (induction ms arbitrary: rs) (auto split: sum.splits)

text \<open>A mutation becomes a row unless its replacement is not a complete row of its key.\<close>

lemma writer_row_of_eq:
  "writer_row_of vtag p rows m =
     (case wm_state m of
        MReplacement bytes \<Rightarrow>
          (case validate_complete_writer_row vtag p (wm_key m) bytes of
             Inl e \<Rightarrow> Err e
           | Inr _ \<Rightarrow> Ok \<lparr>wr_key = p_encoded p (wm_key m), wr_value = Some bytes,
                           wr_role = (if visible rows (wm_key m) then Replacement else Data)\<rparr>)
      | MDeletion \<Rightarrow> Ok \<lparr>wr_key = p_encoded p (wm_key m), wr_value = None, wr_role = Deletion\<rparr>)"
proof (cases "wm_state m")
  case (MReplacement bytes)
  then show ?thesis
    by (cases "value_decode vtag bytes")
      (simp_all add: writer_row_of_def validate_complete_writer_row_def decoded_encodes_back)
qed (simp add: writer_row_of_def)

lemma writer_rows_refusal:
  "(\<exists>rs. writer_rows vtag p rows ms = Ok rs) \<longleftrightarrow> (\<forall>m \<in> set ms. \<exists>r. writer_row_of vtag p rows m = Ok r)"
  "writer_rows vtag p rows ms = Err e \<Longrightarrow> \<exists>m \<in> set ms. writer_row_of vtag p rows m = Err e"
  by (induction ms) (auto split: sum.splits)

definition final_rows_complete :: "tag_registry \<Rightarrow> 'k profile \<Rightarrow> 'k writer_mutation list \<Rightarrow> bool" where
  "final_rows_complete vtag p ms \<longleftrightarrow>
     (\<forall>m \<in> set ms. last_mutation ms (wm_key m) = Some m \<longrightarrow>
        (case wm_state m of
           MReplacement bytes \<Rightarrow> validate_complete_writer_row vtag p (wm_key m) bytes = Ok ()
         | MDeletion \<Rightarrow> True))"

lemma last_mutation_mem: "last_mutation ms k = Some m \<Longrightarrow> m \<in> set ms"
  by (auto simp: last_mutation_def find_Some_iff) (metis nth_mem length_rev set_rev)

lemma prepare_decides:
  assumes fold: "fold_writer_input b i = Ok o'"
    and "p_table_id p = cb_table_id b" and "p_schema_fingerprint p = cb_schema_fingerprint b"
  shows "(\<exists>batch. prepare_writer_batch vtag p b i = Ok batch) \<longleftrightarrow> final_rows_complete vtag p (wi_mutations i)"
    and "prepare_writer_batch vtag p b i = Err e \<Longrightarrow> \<exists>m bytes. last_mutation (wi_mutations i) (wm_key m) = Some m
      \<and> wm_state m = MReplacement bytes \<and> validate_complete_writer_row vtag p (wm_key m) bytes = Err e"
proof -
  have mem: "m \<in> set (wi_mutations o') \<longleftrightarrow>
      last_mutation (wi_mutations i) (wm_key m) = Some m \<and> mutation_matters (cb_rows b) m" for m
    using fold_writer_input_folded [OF fold] by (simp add: folded_def)
  have run: "prepare_writer_batch vtag p b i = (case writer_rows vtag p (cb_rows b) (wi_mutations o') of
      Inl e \<Rightarrow> Err e
    | Inr rows \<Rightarrow> Ok \<lparr>wb_table_id = cb_table_id b, wb_schema_fingerprint = cb_schema_fingerprint b,
                      wb_generation = cb_next_generation b, wb_rows = rows\<rparr>)"
    by (simp add: prepare_writer_batch_def assms)
  have row: "(\<exists>r. writer_row_of vtag p (cb_rows b) m = Ok r) \<longleftrightarrow> (case wm_state m of
           MReplacement bytes \<Rightarrow> validate_complete_writer_row vtag p (wm_key m) bytes = Ok () | MDeletion \<Rightarrow> True)" for m
    by (auto simp: writer_row_of_eq split: writer_mutation_state.splits sum.splits)
  have matters: "mutation_matters (cb_rows b) m" if "wm_state m = MReplacement bytes" for m bytes
    by (simp add: mutation_matters_def that)
  have "(\<exists>batch. prepare_writer_batch vtag p b i = Ok batch) \<longleftrightarrow>
      (\<forall>m \<in> set (wi_mutations o'). \<exists>r. writer_row_of vtag p (cb_rows b) m = Ok r)"
    unfolding run writer_rows_refusal(1) [symmetric] by (auto split: sum.splits)
  then show "(\<exists>batch. prepare_writer_batch vtag p b i = Ok batch) \<longleftrightarrow> final_rows_complete vtag p (wi_mutations i)"
    unfolding row final_rows_complete_def Ball_def mem
    using last_mutation_mem [of "wi_mutations i"] matters by (auto split: writer_mutation_state.splits)
  assume "prepare_writer_batch vtag p b i = Err e"
  then have "writer_rows vtag p (cb_rows b) (wi_mutations o') = Err e" by (simp add: run split: sum.splits)
  then obtain m where "m \<in> set (wi_mutations o')" "writer_row_of vtag p (cb_rows b) m = Err e"
    using writer_rows_refusal(2) by blast
  then show "\<exists>m bytes. last_mutation (wi_mutations i) (wm_key m) = Some m
      \<and> wm_state m = MReplacement bytes \<and> validate_complete_writer_row vtag p (wm_key m) bytes = Err e"
    unfolding mem by (auto simp: writer_row_of_eq split: writer_mutation_state.splits sum.splits)
qed

lemma complete_row_key:
  assumes "validate_complete_writer_row vtag p k bytes = Ok ()"
  shows "\<exists>k'. decode_key vtag p (p_encoded p k) = Ok k'"
proof (rule ccontr)
  assume "\<not> ?thesis"
  then obtain e where "decode_key vtag p (p_encoded p k) = Err e" by (cases "decode_key vtag p (p_encoded p k)") auto
  then have "decode_key_components vtag p k = None" by (simp add: decode_key_components_def)
  with assms show False
    by (simp add: validate_complete_writer_row_def complete_writer_row_fields_def split: sum.splits)
qed

lemma writer_row_fits:
  assumes r: "writer_row_of vtag p base m = Ok r" and "mutation_matters base m" and p: "profile_ok p"
    and base: "\<And>k. visible base k \<Longrightarrow> decode_key vtag p (p_encoded p k) = Ok k"
  shows "row_fits vtag p base r \<and> row_key p r = wm_key m
    \<and> map_option (decoded vtag) (wr_value r) = mutation_value vtag (wm_state m)"
proof -
  have inv: "p_identity p (p_encoded p k) = k" for k using p by (simp add: profile_ok_def)
  have key: "row_fits vtag p base r"
    if "decode_key vtag p (p_encoded p (wm_key m)) = Ok (wm_key m)" and "wr_key r = p_encoded p (wm_key m)"
      and "\<forall>b. wr_value r = Some b \<longrightarrow> value_decode vtag b = Ok (decoded vtag b)"
      and "role_matches_lineage (wr_role r) (map_option (decoded vtag) (wr_value r)) (visible base (wm_key m))"
    using that decode_key_Ok [OF that(1)] by (auto simp: row_fits_def inv decoded_def)
  show ?thesis
  proof (cases "wm_state m")
    case MDeletion
    with assms(2) have vis: "visible base (wm_key m)" by (simp add: mutation_matters_def)
    from r MDeletion have "r = \<lparr>wr_key = p_encoded p (wm_key m), wr_value = None, wr_role = Deletion\<rparr>"
      by (simp add: writer_row_of_def)
    with key [OF base [OF vis]] vis MDeletion show ?thesis by (simp add: row_key_def inv)
  next
    case (MReplacement bytes)
    from r MReplacement obtain v where v: "value_decode vtag bytes = Ok v" by (simp add: writer_row_of_def split: sum.splits)
    have full: "validate_complete_writer_row vtag p (wm_key m) bytes = Ok ()"
      using r by (simp add: writer_row_of_def MReplacement v decoded_encodes_back [OF v] split: sum.splits)
    then have r': "r = \<lparr>wr_key = p_encoded p (wm_key m), wr_value = Some bytes,
                       wr_role = (if visible base (wm_key m) then Replacement else Data)\<rparr>"
      using r by (simp add: writer_row_of_def MReplacement v decoded_encodes_back [OF v])
    obtain k' where "decode_key vtag p (p_encoded p (wm_key m)) = Ok k'" using complete_row_key [OF full] by blast
    with decode_key_Ok [OF this] have "decode_key vtag p (p_encoded p (wm_key m)) = Ok (wm_key m)" by (simp add: inv)
    with key v r' MReplacement show ?thesis by (simp add: row_key_def inv decoded_def role_matches_cases)
  qed
qed

lemma base_keys_decode:
  assumes f: "fold_rows vtag p (segment_versions segs) fold_new = Ok f" and p: "profile_ok p"
    and vis: "visible (fd_rows f) k"
  shows "decode_key vtag p (p_encoded p k) = Ok k"
proof -
  obtain row where "bm_get (fd_rows f) k = Some row" using vis by (auto simp: visible_def split: option.splits)
  with fold_newest [OF f, of k] obtain x where "x \<in> set (of_key vtag p k (concat (map segment_rows segs)))" by auto
  then have "version_key vtag p x = Some k" by (simp add: of_key_def)
  then obtain bytes where "decode_key vtag p bytes = Ok k"
    by (cases x) (auto simp: version_key.simps split: if_splits sum.splits)
  with decode_key_Ok [OF this] p show ?thesis by (simp add: profile_ok_def)
qed

lemma folded_rows_at:
  assumes "folded b ms fs" and "list_all2 (\<lambda>m r. row_key p r = wm_key m \<and>
      map_option (decoded vtag) (wr_value r) = mutation_value vtag (wm_state m)) fs rs"
  shows "run_mutations vtag ms (logical b) k =
    (case row_at p rs k of None \<Rightarrow> logical b k | Some r \<Rightarrow> map_option (decoded vtag) (wr_value r))"
proof (cases "row_at p rs k")
  case None
  then have "k \<notin> row_key p ` set rs" by (auto simp: row_at_def row_key_def find_None_iff)
  moreover have "map (row_key p) rs = map wm_key fs" using assms(2) by (induction rule: list_all2_induct) auto
  ultimately have notin: "k \<notin> wm_key ` set fs" by (metis list.set_map)
  show ?thesis
  proof (cases "last_mutation ms k")
    case (Some m)
    have "wm_key m = k" using last_mutation_key [OF Some] .
    with notin Some assms(1) have "\<not> mutation_matters (cb_rows b) m" by (auto simp: folded_def)
    with \<open>wm_key m = k\<close> Some None show ?thesis
      by (auto simp: run_mutations_last mutation_matters_def logical_def visible_value split: writer_mutation_state.splits)
  qed (simp add: run_mutations_last None)
next
  case (Some r)
  then have "r \<in> set rs" "row_key p r = k" by (auto simp: row_at_def row_key_def find_Some_iff)
  then obtain i where i: "i < length rs" "r = rs ! i" by (auto simp: in_set_conv_nth)
  have "fs ! i \<in> set fs" "wm_key (fs ! i) = k"
      "map_option (decoded vtag) (wr_value r) = mutation_value vtag (wm_state (fs ! i))"
    using list_all2_nthD2 [OF assms(2) i(1)] list_all2_lengthD [OF assms(2)] i \<open>row_key p r = k\<close> by auto
  with assms(1) Some show ?thesis by (auto simp: run_mutations_last folded_def)
qed

lemma prepare_Ok:
  assumes "prepare_writer_batch vtag p b i = Ok batch"
  obtains folded where "p_table_id p = cb_table_id b" "p_schema_fingerprint p = cb_schema_fingerprint b"
    "fold_writer_input b i = Ok folded" "writer_rows vtag p (cb_rows b) (wi_mutations folded) = Ok (wb_rows batch)"
    "wb_table_id batch = cb_table_id b" "wb_schema_fingerprint batch = cb_schema_fingerprint b"
    "wb_generation batch = cb_next_generation b"
  using assms by (auto simp: prepare_writer_batch_def split: if_splits sum.splits)

text \<open>What the rows of a prepared batch are, relative to the folded base and the mutations.\<close>

definition batch_fits :: "tag_registry \<Rightarrow> ('k::linorder) profile \<Rightarrow> 'k base_state \<Rightarrow> 'k writer_mutation list \<Rightarrow> writer_row list \<Rightarrow> bool" where
  "batch_fits vtag p b ms rs \<longleftrightarrow>
     list_all (row_fits vtag p (cb_rows b)) rs \<and> distinct (map (row_key p) rs)
     \<and> (\<forall>k. run_mutations vtag ms (logical b) k =
          (case row_at p rs k of None \<Rightarrow> logical b k | Some r \<Rightarrow> map_option (decoded vtag) (wr_value r)))"

lemma prepared_batch_fits:
  assumes "fold_compact_committed_base vtag p segs ng = Ok b" and "profile_ok p"
    and "prepare_writer_batch vtag p b i = Ok batch"
  shows "batch_fits vtag p b (wi_mutations i) (wb_rows batch)"
proof -
  obtain f where f: "fold_rows vtag p (segment_versions segs) fold_new = Ok f" "cb_rows b = fd_rows f"
    using assms(1) unfolding fold_base_Ok by auto
  obtain o' where o': "fold_writer_input b i = Ok o'"
      and rows: "writer_rows vtag p (cb_rows b) (wi_mutations o') = Ok (wb_rows batch)"
    using assms(3) by (rule prepare_Ok)
  have fd: "folded b (wi_mutations i) (wi_mutations o')" using o' by (rule fold_writer_input_folded)
  have base: "visible (cb_rows b) k \<Longrightarrow> decode_key vtag p (p_encoded p k) = Ok k" for k
    using base_keys_decode [OF f(1) assms(2)] f(2) by simp
  have all: "list_all2 (\<lambda>m r. row_fits vtag p (cb_rows b) r \<and> row_key p r = wm_key m
      \<and> map_option (decoded vtag) (wr_value r) = mutation_value vtag (wm_state m)) (wi_mutations o') (wb_rows batch)"
  proof (rule list.rel_mono_strong [OF writer_rows_all2 [OF rows]])
    fix m r
    assume "m \<in> set (wi_mutations o')" and "r \<in> set (wb_rows batch)" and r: "writer_row_of vtag p (cb_rows b) m = Ok r"
    with fd have "mutation_matters (cb_rows b) m" by (simp add: folded_def)
    from writer_row_fits [OF r this assms(2) base]
    show "row_fits vtag p (cb_rows b) r \<and> row_key p r = wm_key m
      \<and> map_option (decoded vtag) (wr_value r) = mutation_value vtag (wm_state m)" .
  qed
  have "list_all (row_fits vtag p (cb_rows b)) (wb_rows batch)"
    using all by (induction rule: list_all2_induct) auto
  moreover have "map (row_key p) (wb_rows batch) = map wm_key (wi_mutations o')"
    using all by (induction rule: list_all2_induct) auto
  then have "distinct (map (row_key p) (wb_rows batch))" using fd by (simp add: folded_def)
  moreover have "list_all2 (\<lambda>m r. row_key p r = wm_key m \<and>
      map_option (decoded vtag) (wr_value r) = mutation_value vtag (wm_state m)) (wi_mutations o') (wb_rows batch)"
    using all by (rule list_all2_mono) simp
  ultimately show ?thesis unfolding batch_fits_def using folded_rows_at [OF fd] by blast
qed

lemma batch_version_key:
  assumes "row_fits vtag p base r" and "g \<noteq> 0"
  shows "version_key vtag p (batch_version vtag g r) = Some (row_key p r)"
  using assms decoded_encodes_back [of vtag "wr_key r" "decoded vtag (wr_key r)"]
  by (simp add: batch_version_def version_key.simps row_fits_def row_key_def)

lemma reload_batch:
  assumes f: "fold_rows vtag p xs fold_new = Ok f" and g: "fd_greatest f < g"
    and fits: "list_all (row_fits vtag p (fd_rows f)) rs" and dist: "distinct (map (row_key p) rs)"
    and qs: "mset qs = mset rs"
  shows "\<exists>f'. fold_rows vtag p (map (batch_version vtag g) qs) f = Ok f'
    \<and> (\<forall>k. row_value (bm_get (fd_rows f') k) =
         (case row_at p rs k of None \<Rightarrow> row_value (bm_get (fd_rows f) k) | Some r \<Rightarrow> map_option (decoded vtag) (wr_value r)))"
proof -
  let ?ys = "map (batch_version vtag g) qs"
  have g0: "g \<noteq> 0" using g by (metis word_not_simps(1))
  have fit: "row_fits vtag p (fd_rows f) r" if "r \<in> set qs" for r
    using that fits mset_eq_setD [OF qs] by (simp add: list_all_iff)
  have of_k: "of_key vtag p k ?ys = map (batch_version vtag g) (case row_at p rs k of None \<Rightarrow> [] | Some r \<Rightarrow> [r])" for k
  proof -
    have "of_key vtag p k ?ys = map (batch_version vtag g) (filter (\<lambda>r. row_key p r = k) qs)"
      unfolding of_key_def filter_map comp_def
      using batch_version_key [OF fit g0] by (intro arg_cong [where f = "map _"] filter_cong) auto
    then show ?thesis using filter_row_key [OF qs dist] by simp
  qed
  have new: "g \<notin> seen_of f k" for k
  proof
    assume "g \<in> seen_of f k"
    with fold_rows_seen [OF f, of k] have "g \<in> fst ` set xs" by auto
    with fold_rows_greatest [OF f] have "g \<le> fd_greatest f" by simp
    with g show False by simp
  qed
  have lin: "lineage (seen_of f k) (bm_get (fd_rows f) k) (of_key vtag p k ?ys) =
      Some (case row_at p rs k of None \<Rightarrow> bm_get (fd_rows f) k | Some r \<Rightarrow> Some (version_row (batch_version vtag g r)))" for k
  proof (cases "row_at p rs k")
    case (Some r)
    then have "r \<in> set qs" "row_key p r = k"
      using mset_eq_setD [OF qs] by (auto simp: row_at_def row_key_def find_Some_iff)
    with fit [of r] new Some show ?thesis
      by (simp add: of_k batch_version_def row_fits_def row_key_def visible_get)
  qed (simp add: of_k)
  obtain f' where f': "fold_rows vtag p ?ys f = Ok f'"
    using fold_rows_succeeds [of ?ys vtag p f] batch_version_key [OF fit g0] lin by auto
  have "row_value (bm_get (fd_rows f') k) =
      (case row_at p rs k of None \<Rightarrow> row_value (bm_get (fd_rows f) k) | Some r \<Rightarrow> map_option (decoded vtag) (wr_value r))" for k
  proof -
    have "bm_get (fd_rows f') k =
        (case row_at p rs k of None \<Rightarrow> bm_get (fd_rows f) k | Some r \<Rightarrow> Some (version_row (batch_version vtag g r)))"
      using fold_rows_lineage [OF f', of k] lin [of k] by simp
    then show ?thesis by (simp add: batch_version_def version_row.simps split: option.splits)
  qed
  with f' show ?thesis by blast
qed

definition by_role :: "writer_row list \<Rightarrow> writer_row list" where
  "by_role rs = filter (\<lambda>r. wr_role r = Data) rs @ filter (\<lambda>r. wr_role r = Replacement) rs
     @ filter (\<lambda>r. wr_role r = Deletion) rs"

text \<open>Reading the segments of a batch behind the earlier segments, in the order of generations.\<close>

lemma fold_with_batch:
  assumes f: "fold_rows vtag p (segment_versions segs) fold_new = Ok f" and g: "fd_greatest f < wb_generation batch"
    and fits: "list_all (row_fits vtag p (fd_rows f)) (wb_rows batch)" "distinct (map (row_key p) (wb_rows batch))"
  shows "\<exists>f'. fold_rows vtag p (segment_versions (segs @ batch_segments vtag batch)) fold_new = Ok f'
    \<and> fd_greatest f' \<le> wb_generation batch
    \<and> (\<forall>k. row_value (bm_get (fd_rows f') k) = (case row_at p (wb_rows batch) k of
         None \<Rightarrow> row_value (bm_get (fd_rows f) k) | Some r \<Rightarrow> map_option (decoded vtag) (wr_value r)))"
proof -
  define ys where "ys = map (batch_version vtag (wb_generation batch)) (by_role (wb_rows batch))"
  obtain f1 where f1: "fold_rows vtag p ys f = Ok f1"
      "\<forall>k. row_value (bm_get (fd_rows f1) k) = (case row_at p (wb_rows batch) k of
         None \<Rightarrow> row_value (bm_get (fd_rows f) k) | Some r \<Rightarrow> map_option (decoded vtag) (wr_value r))"
    using reload_batch [OF f g fits, of "by_role (wb_rows batch)"] unfolding ys_def by_role_def by_role_mset by blast
  have both: "fold_rows vtag p (segment_versions segs @ ys) fold_new = Ok f1" using f f1 by (simp add: fold_rows_append)
  have old: "fst x \<le> fd_greatest f" if "x \<in> set (segment_versions segs)" for x
    using fold_rows_greatest [OF f] that by simp
  have gen: "fst y = wb_generation batch" if "y \<in> set ys" for y using that by (auto simp: ys_def batch_version_def)
  have "sorted (map fst ys)" by (rule sorted_iff_nth_mono [THEN iffD2]) (simp add: gen)
  then have sorted: "sorted (map fst (segment_versions segs @ ys))"
    using segment_versions_sorted [of segs] old g by (fastforce simp: sorted_append gen)
  have "mset (segment_versions segs @ ys) = mset (segment_versions (segs @ batch_segments vtag batch))"
    unfolding segment_versions_mset map_append concat_append mset_append ys_def by_role_def batch_versions by simp
  from fold_rows_same [OF both sorted segment_versions_sorted this]
  obtain f2 where f2: "fold_rows vtag p (segment_versions (segs @ batch_segments vtag batch)) fold_new = Ok f2"
      "fd_rows f2 = fd_rows f1" "fd_greatest f2 = fd_greatest f1" by blast
  have "fd_greatest f1 \<le> wb_generation batch" using fold_rows_greatest [OF f1(1)] g gen by auto
  with f1 f2 show ?thesis by auto
qed

lemma publication_reloads:
  assumes "profile_ok p" and "fold_compact_committed_base vtag p segs ng = Ok b"
    and "prepare_writer_batch vtag p b i = Ok batch" and "ng < later"
  shows "\<exists>applied reloaded.
    apply_writer_batch vtag p b batch = Ok applied
    \<and> fold_compact_committed_base vtag p (segs @ batch_segments vtag batch) later = Ok reloaded
    \<and> logical applied = run_mutations vtag (wi_mutations i) (logical b)
    \<and> has_same_logical_rows applied reloaded"
proof -
  obtain f where chk: "check_segments p segs = Ok ()" and f: "fold_rows vtag p (segment_versions segs) fold_new = Ok f"
      and ng: "ng \<noteq> 0" "fd_greatest f < ng"
      and b: "b = \<lparr>cb_table_id = p_table_id p, cb_schema_fingerprint = p_schema_fingerprint p,
                 cb_next_generation = ng, cb_rows = fd_rows f\<rparr>"
    using assms(2) unfolding fold_base_Ok by blast
  have wf: "bm_wf (fd_rows f)" using fold_rows_wf [OF f] by simp
  have rows: "cb_rows b = fd_rows f" by (simp add: b)
  have ids: "wb_table_id batch = p_table_id p" "wb_schema_fingerprint batch = p_schema_fingerprint p"
      "wb_generation batch = ng"
  proof -
    obtain folded where "wb_table_id batch = cb_table_id b" "wb_schema_fingerprint batch = cb_schema_fingerprint b"
        "wb_generation batch = cb_next_generation b"
      using assms(3) by (rule prepare_Ok)
    then show "wb_table_id batch = p_table_id p" "wb_schema_fingerprint batch = p_schema_fingerprint p"
        "wb_generation batch = ng"
      by (simp_all add: b)
  qed
  have "batch_fits vtag p b (wi_mutations i) (wb_rows batch)" using assms by (intro prepared_batch_fits)
  then have fits: "list_all (row_fits vtag p (fd_rows f)) (wb_rows batch)" "distinct (map (row_key p) (wb_rows batch))"
      and run: "run_mutations vtag (wi_mutations i) (logical b) k = (case row_at p (wb_rows batch) k of
          None \<Rightarrow> row_value (bm_get (fd_rows f) k) | Some r \<Rightarrow> map_option (decoded vtag) (wr_value r))" for k
    unfolding batch_fits_def logical_def rows by blast+
  obtain rows1 where rows1: "apply_batch_rows vtag p (fd_rows f) ng [] (wb_rows batch) (fd_rows f) = Ok rows1" "bm_wf rows1"
      "\<forall>k. row_value (bm_get rows1 k) = run_mutations vtag (wi_mutations i) (logical b) k"
    using apply_batch_rows_spec [OF fits _ wf, of "[]" ng] unfolding run by auto
  obtain f2 where f2: "fold_rows vtag p (segment_versions (segs @ batch_segments vtag batch)) fold_new = Ok f2"
      "fd_greatest f2 \<le> ng" "\<forall>k. row_value (bm_get (fd_rows f2) k) = run_mutations vtag (wi_mutations i) (logical b) k"
    using fold_with_batch [OF f _ fits] ng(2) unfolding run ids by blast
  let ?applied = "b\<lparr>cb_rows := rows1\<rparr>" and ?reloaded = "b\<lparr>cb_next_generation := later, cb_rows := fd_rows f2\<rparr>"
  have "check_segments p (segs @ batch_segments vtag batch) = Ok ()"
    using chk ids by (auto simp: check_segments_Ok batch_segments_def batch_segment_def)
  moreover have "later \<noteq> 0" using assms(4) by (metis word_not_simps(1))
  ultimately have "fold_compact_committed_base vtag p (segs @ batch_segments vtag batch) later = Ok ?reloaded"
    unfolding fold_base_Ok using f2(1,2) assms(4) b by auto
  moreover have "apply_writer_batch vtag p b batch = Ok ?applied"
    using rows1(1) ids b by (simp add: apply_writer_batch_def)
  moreover have run1: "logical ?applied = run_mutations vtag (wi_mutations i) (logical b)"
    using rows1(3) by (auto simp: logical_def fun_eq_iff)
  moreover have "logical ?reloaded = run_mutations vtag (wi_mutations i) (logical b)"
    using f2(3) by (auto simp: logical_def fun_eq_iff)
  then have "has_same_logical_rows ?applied ?reloaded"
    using run1 rows1(2) fold_rows_wf [OF f2(1)] by (simp add: same_logical_rows)
  ultimately show ?thesis by blast
qed

text \<open>
  Publishing a batch. A batch prepared against the base of committed segments can be applied in
  memory, and its segments, written next to the earlier ones, fold again under any later generation
  limit. Both ways the logical rows are those of running the mutations in their order on the rows of the base, so
  the two states have the same logical rows.
\<close>

theorem publication_reload:
  assumes "profile_ok p" and "fold_compact_committed_base vtag p segs ng = Ok b"
    and "prepare_writer_batch vtag p b i = Ok batch" and "ng < later"
  shows "\<exists>applied reloaded.
    apply_writer_batch vtag p b batch = Ok applied
    \<and> fold_compact_committed_base vtag p (segs @ batch_segments vtag batch) later = Ok reloaded
    \<and> logical applied = run_mutations vtag (wi_mutations i) (logical b)
    \<and> has_same_logical_rows applied reloaded"
  using assms by (rule publication_reloads)

text \<open>A batch on the example table: the deleted key comes back, one key goes, one deletion is moot.\<close>

definition w_bytes :: "int \<Rightarrow> u8 list" where
  "w_bytes n = (case encode_raw w_tags (w_row n) of Inl _ \<Rightarrow> [] | Inr bytes \<Rightarrow> bytes)"

definition w_mutation :: "u64 \<Rightarrow> u8 list \<Rightarrow> writer_mutation_state \<Rightarrow> u8 list writer_mutation" where
  "w_mutation n key st = \<lparr>wm_sequence = n, wm_mutation_id = [], wm_key = key, wm_state = st\<rparr>"

definition w_input :: "u8 list writer_input" where
  "w_input = \<lparr>wi_table_id = [1], wi_schema_fingerprint = [2], wi_candidate_generation = 3,
     wi_row_encoding_identity = CompactOvb1, wi_value_encoding_identity = Ovb1,
     wi_mutations = [w_mutation 1 [3] (MReplacement (w_bytes 3)), w_mutation 2 [7] MDeletion, w_mutation 4 [8] MDeletion],
     wi_candidate_digest = []\<rparr>"

definition w_batch :: writer_batch where
  "w_batch = \<lparr>wb_table_id = [1], wb_schema_fingerprint = [2], wb_generation = 3,
     wb_rows = [\<lparr>wr_key = [3], wr_value = Some (w_bytes 3), wr_role = Data\<rparr>,
       \<lparr>wr_key = [7], wr_value = None, wr_role = Deletion\<rparr>]\<rparr>"

theorem publication_reload_witness:
  "prepare_writer_batch w_tags w_profile w_base w_input = Ok w_batch
   \<and> (\<exists>applied reloaded.
        apply_writer_batch w_tags w_profile w_base w_batch = Ok applied
        \<and> fold_compact_committed_base w_tags w_profile (w_segments @ batch_segments w_tags w_batch) 4 = Ok reloaded
        \<and> logical applied = run_mutations w_tags (wi_mutations w_input) (logical w_base)
        \<and> has_same_logical_rows applied reloaded)"
proof -
  have ok: "profile_ok w_profile" by (simp add: profile_ok_def w_profile_def)
  have batch: "prepare_writer_batch w_tags w_profile w_base w_input = Ok w_batch" by code_simp
  from publication_reload [OF ok w_base_fold batch, of 4] batch show ?thesis by simp
qed

end
