(* ===== verification/Orna_Key_Index.thy ===== *)
theory Orna_Key_Index
  imports Orna_Compact_Laws
begin

text \<open>
  The logical key index and the committed base agree. The two are computed independently: the index
  keeps the greatest generation per key while it streams the entries in manifest order, under a budget; the base sorts the
  segments and replays every row.
\<close>

section \<open>The accumulator\<close>

type_synonym 'k entry_key = "u64 \<times> segment_role \<times> 'k"

fun add_all :: "('k::linorder) entry_key list \<Rightarrow> 'k key_accumulator \<Rightarrow> ('e logical_key_error, 'k key_accumulator) result" where
  "add_all [] a = Ok a"
| "add_all ((g, role, k) # xs) a = (case accumulator_add g role k a of Inl e \<Rightarrow> Err e | Inr a' \<Rightarrow> add_all xs a')"

lemma add_all_append:
  "add_all (xs @ ys) a = (case add_all xs a of Inl e \<Rightarrow> Err e | Inr a' \<Rightarrow> add_all ys a')"
proof (induction xs arbitrary: a)
  case (Cons x xs)
  then show ?case by (cases x) (auto split: sum.splits)
qed simp

definition holds_newest :: "'k entry_key list \<Rightarrow> ('k, logical_key_state) btree_map \<Rightarrow> bool" where
  "holds_newest ps keys \<longleftrightarrow>
     (\<forall>k. case bm_get keys k of
            None \<Rightarrow> k \<notin> (snd \<circ> snd) ` set ps
          | Some st \<Rightarrow> (ks_generation st, ks_role st, k) \<in> set ps
              \<and> (\<forall>x \<in> set ps. snd (snd x) = k \<longrightarrow> fst x \<le> ks_generation st))"

lemma holds_newest_mem: "holds_newest ps keys \<Longrightarrow> bm_get keys k = Some st \<Longrightarrow> (ks_generation st, ks_role st, k) \<in> set ps"
  unfolding holds_newest_def by (drule spec [of _ k]) simp

lemma holds_newest_Some:
  assumes "holds_newest ps keys" and "(g, role, k) \<in> set ps"
  obtains st where "bm_get keys k = Some st" and "(ks_generation st, ks_role st, k) \<in> set ps"
    and "\<forall>x \<in> set ps. snd (snd x) = k \<longrightarrow> fst x \<le> ks_generation st"
proof -
  have "k \<in> (snd \<circ> snd) ` set ps" using assms(2) by force
  with assms(1) [unfolded holds_newest_def, rule_format, of k] that show thesis by (auto split: option.splits)
qed

definition acc_ok :: "nat \<Rightarrow> ('k::linorder) entry_key list \<Rightarrow> 'k key_accumulator \<Rightarrow> bool" where
  "acc_ok budget ps a \<longleftrightarrow>
     ka_budget a = budget \<and> ka_observed a = length ps \<and> bm_wf (ka_keys a)
     \<and> set (ka_seen a) = (\<lambda>(g, role, k). (k, g)) ` set ps \<and> holds_newest ps (ka_keys a)"

lemma acc_ok_new: "acc_ok budget [] (accumulator_new budget)"
  by (simp add: acc_ok_def accumulator_new_def holds_newest_def)

lemma add_step:
  assumes ok: "acc_ok budget ps a" and room: "length ps < budget" and fresh: "(k, g) \<notin> (\<lambda>(g, role, k). (k, g)) ` set ps"
  shows "\<exists>a'. (accumulator_add g role k a :: ('e logical_key_error, _) result) = Ok a'
    \<and> acc_ok budget (ps @ [(g, role, k)]) a'"
proof -
  define a1 where "a1 = a\<lparr>ka_observed := ka_observed a + 1, ka_seen := bs_insert (k, g) (ka_seen a)\<rparr>"
  define a2 where "a2 = a1\<lparr>ka_keys := bm_insert k \<lparr>ks_generation = g, ks_role = role\<rparr> (ka_keys a)\<rparr>"
  have seen: "(k, g) \<notin> set (ka_seen a)" "ka_observed a \<noteq> ka_budget a" using ok room fresh by (auto simp: acc_ok_def)
  have newest: "case bm_get (ka_keys a) l of
            None \<Rightarrow> l \<notin> (snd \<circ> snd) ` set ps
          | Some st \<Rightarrow> (ks_generation st, ks_role st, l) \<in> set ps
              \<and> (\<forall>x \<in> set ps. snd (snd x) = l \<longrightarrow> fst x \<le> ks_generation st)" for l
    using ok unfolding acc_ok_def holds_newest_def by blast
  have keep: "acc_ok budget (ps @ [(g, role, k)]) x"
    if "x = a1 \<or> x = a2" and "holds_newest (ps @ [(g, role, k)]) (ka_keys x)" for x
    using ok that by (elim disjE) (simp_all add: acc_ok_def a1_def a2_def bm_wf_insert)
  have take_new: "holds_newest (ps @ [(g, role, k)]) (ka_keys a2)" if "\<forall>x \<in> set ps. snd (snd x) = k \<longrightarrow> fst x \<le> g"
    unfolding holds_newest_def
  proof
    fix l
    show "case bm_get (ka_keys a2) l of
            None \<Rightarrow> l \<notin> (snd \<circ> snd) ` set (ps @ [(g, role, k)])
          | Some st \<Rightarrow> (ks_generation st, ks_role st, l) \<in> set (ps @ [(g, role, k)])
              \<and> (\<forall>x \<in> set (ps @ [(g, role, k)]). snd (snd x) = l \<longrightarrow> fst x \<le> ks_generation st)"
      using newest [of l] that by (cases "l = k") (auto simp: a2_def bm_get_insert split: option.splits)
  qed
  show ?thesis
  proof (cases "bm_get (ka_keys a) k")
    case None
    then have "accumulator_add g role k a = Ok a2" using seen by (simp add: accumulator_add_def a1_def a2_def Let_def)
    moreover have "\<forall>x \<in> set ps. snd (snd x) = k \<longrightarrow> fst x \<le> g" using newest [of k] None by auto
    ultimately show ?thesis using keep take_new by blast
  next
    case (Some st)
    then have mem: "(ks_generation st, ks_role st, k) \<in> set ps"
        and greatest: "\<forall>x \<in> set ps. snd (snd x) = k \<longrightarrow> fst x \<le> ks_generation st"
      using newest [of k] by auto
    have "ks_generation st \<noteq> g" using mem fresh by force
    show ?thesis
    proof (cases "ks_generation st < g")
      case True
      then have "accumulator_add g role k a = Ok a2"
        using seen Some \<open>ks_generation st \<noteq> g\<close> by (simp add: accumulator_add_def a1_def a2_def Let_def)
      moreover have "\<forall>x \<in> set ps. snd (snd x) = k \<longrightarrow> fst x \<le> g" using greatest True by fastforce
      ultimately show ?thesis using keep take_new by blast
    next
      case False
      then have "accumulator_add g role k a = Ok a1"
        using seen Some \<open>ks_generation st \<noteq> g\<close> by (simp add: accumulator_add_def a1_def Let_def)
      moreover have "holds_newest (ps @ [(g, role, k)]) (ka_keys a1)"
        unfolding holds_newest_def
      proof
        fix l
        show "case bm_get (ka_keys a1) l of
                None \<Rightarrow> l \<notin> (snd \<circ> snd) ` set (ps @ [(g, role, k)])
              | Some st \<Rightarrow> (ks_generation st, ks_role st, l) \<in> set (ps @ [(g, role, k)])
                  \<and> (\<forall>x \<in> set (ps @ [(g, role, k)]). snd (snd x) = l \<longrightarrow> fst x \<le> ks_generation st)"
          using newest [of l] Some False by (cases "l = k") (auto simp: a1_def split: option.splits)
      qed
      ultimately show ?thesis using keep by blast
    qed
  qed
qed

lemma add_all_spec:
  assumes "acc_ok budget ps a" and "distinct (map (\<lambda>(g, role, k). (k, g)) (ps @ xs))" and "length ps \<le> budget"
  shows "if length (ps @ xs) \<le> budget
    then \<exists>a'. (add_all xs a :: ('e logical_key_error, _) result) = Ok a' \<and> acc_ok budget (ps @ xs) a'
    else (add_all xs a :: ('e logical_key_error, _) result) = Err (KeyBudgetExceeded budget)"
  using assms
proof (induction xs arbitrary: ps a)
  case (Cons x xs)
  obtain g role k where x: "x = (g, role, k)" by (cases x)
  show ?case
  proof (cases "length ps < budget")
    case True
    have "(k, g) \<notin> (\<lambda>(g, role, k). (k, g)) ` set ps" using Cons.prems(2) x by auto
    from add_step [OF Cons.prems(1) True this]
    obtain a' where a': "(accumulator_add g role k a :: ('e logical_key_error, _) result) = Ok a'"
        "acc_ok budget (ps @ [x]) a'" unfolding x by blast
    have app: "(ps @ [x]) @ xs = ps @ x # xs" by simp
    have "length (ps @ [x]) \<le> budget" using True by simp
    from Cons.IH [OF a'(2) _ this, unfolded app, OF Cons.prems(2)] show ?thesis
      using a'(1) by (cases "length (ps @ x # xs) \<le> budget") (simp_all add: x)
  next
    case False
    then have "(accumulator_add g role k a :: ('e logical_key_error, _) result) = Err (KeyBudgetExceeded budget)"
      using Cons.prems(1,3) by (simp add: accumulator_add_def acc_ok_def)
    with False x show ?thesis by simp
  qed
qed simp

section \<open>Streaming the entries\<close>

text \<open>The source presents a segment's keys for an entry: in the order of its rows, encoded.\<close>

definition presents ::
  "tag_registry \<Rightarrow> (manifest_entry \<Rightarrow> ('e, ('e, u8 list) result list) result) \<Rightarrow> manifest_entry \<Rightarrow> segment \<Rightarrow> bool" where
  "presents vtag source entry s \<longleftrightarrow>
     me_generation entry = sg_generation s \<and> me_role entry = sg_role s
     \<and> length (sg_rows s) < 2 ^ 64 \<and> me_row_count entry = of_nat (length (sg_rows s))
     \<and> (\<exists>keys. source entry = Ok (map Ok keys) \<and> list_all2 (\<lambda>row bytes. encode_raw vtag (fst row) = Ok bytes) (sg_rows s) keys)"

fun version_entry :: "tag_registry \<Rightarrow> 'k profile \<Rightarrow> version \<Rightarrow> 'k entry_key" where
  "version_entry vtag p x = (fst x, fst (snd x), the (version_key vtag p x))"

declare version_entry.simps [simp del]

lemma consume_keys_all:
  assumes "list_all2 (\<lambda>row bytes. encode_raw vtag (fst row) = Ok bytes) rows keys"
    and "\<forall>row \<in> set rows. version_key vtag p (g, role, fst row, snd row) \<noteq> None"
    and "observed + length rows < 2 ^ 64"
  shows "consume_keys vtag p g role (of_nat (observed + length rows)) (map Ok keys :: ('e, u8 list) result list) (of_nat observed) a =
    add_all (map (\<lambda>row. version_entry vtag p (g, role, fst row, snd row)) rows) a"
  using assms
proof (induction arbitrary: observed a rule: list_all2_induct)
  case (Cons row rows bytes keys)
  have small: "observed < 2 ^ 64 - 1" using Cons.prems(2) by simp
  have "(of_nat observed :: u64) \<noteq> - 1"
  proof
    assume "(of_nat observed :: u64) = - 1"
    then have "unat (of_nat observed :: u64) = unat (- 1 :: u64)" by simp
    moreover have "unat (of_nat observed :: u64) = observed" using small by (simp add: unsigned_of_nat take_bit_nat_eq_self)
    ultimately show False using small by (simp add: unsigned_minus_1_eq_mask mask_eq_exp_minus_1)
  qed
  moreover obtain k where "decode_key vtag p bytes = Ok k" "version_key vtag p (g, role, fst row, snd row) = Some k"
    using Cons.prems(1) Cons.hyps(1) by (cases row) (auto simp: version_key.simps split: if_splits sum.splits)
  moreover have "consume_keys vtag p g role (of_nat (observed + 1 + length rows))
      (map Ok keys :: ('e, u8 list) result list) (of_nat (observed + 1)) a' =
      add_all (map (\<lambda>row. version_entry vtag p (g, role, fst row, snd row)) rows) a'" for a'
    using Cons.prems by (intro Cons.IH) auto
  ultimately show ?case by (simp add: version_entry.simps add.commute add.left_commute split: sum.splits)
qed simp

lemma consume_entries_all:
  assumes "list_all2 (presents vtag (source :: manifest_entry \<Rightarrow> ('e, ('e, u8 list) result list) result)) entries segs"
    and "\<forall>x \<in> set (concat (map segment_rows segs)). version_key vtag p x \<noteq> None"
  shows "consume_entries vtag p source entries a = add_all (map (version_entry vtag p) (concat (map segment_rows segs))) a"
  using assms
proof (induction arbitrary: a rule: list_all2_induct)
  case (Cons entry entries s segs)
  from Cons.hyps(1) obtain keys where keys: "source entry = Ok (map Ok keys)"
      "list_all2 (\<lambda>row bytes. encode_raw vtag (fst row) = Ok bytes) (sg_rows s) keys"
      and entry: "me_generation entry = sg_generation s" "me_role entry = sg_role s"
        "me_row_count entry = of_nat (length (sg_rows s))" "length (sg_rows s) < 2 ^ 64"
    by (auto simp: presents_def)
  have rows: "segment_rows s = map (\<lambda>row. (sg_generation s, sg_role s, fst row, snd row)) (sg_rows s)"
    by (simp add: segment_rows_def case_prod_beta)
  have "\<forall>row \<in> set (sg_rows s). version_key vtag p (sg_generation s, sg_role s, fst row, snd row) \<noteq> None"
    using Cons.prems rows by simp
  from consume_keys_all [OF keys(2) this, of 0] entry(4)
  have "(consume_entry_keys vtag p (sg_generation s) (sg_role s) (me_row_count entry) (map Ok keys) a
        :: ('e logical_key_error, _) result) =
      add_all (map (version_entry vtag p) (segment_rows s)) a" for a
    by (simp add: consume_entry_keys_def entry(3) rows comp_def)
  moreover have "consume_entries vtag p source entries a =
      add_all (map (version_entry vtag p) (concat (map segment_rows segs))) a" for a
    using Cons.prems by (intro Cons.IH) simp
  ultimately show ?case using keys(1) entry(1,2) by (simp add: add_all_append split: sum.splits)
qed simp

section \<open>Agreement with the base\<close>

lemma lineage_roles: "lineage seen cur xs \<noteq> None \<Longrightarrow> x \<in> set xs \<Longrightarrow> fst (snd x) = Deletion \<longleftrightarrow> snd (snd (snd x)) = None"
proof (induction seen cur xs rule: lineage.induct)
  case (2 seen cur y xs)
  from "2.prems"(1) have here: "role_matches_lineage (fst (snd y)) (snd (snd (snd y))) (row_visible cur)"
      and rest: "lineage (insert (fst y) seen) (Some (version_row y)) xs \<noteq> None" "fst y \<notin> seen"
    by (auto split: if_splits)
  show ?case
  proof (cases "x = y")
    case True
    then show ?thesis
      using here by (cases "fst (snd y)"; cases "snd (snd (snd y))"; cases "row_visible cur") auto
  next
    case False
    then show ?thesis using "2.IH" here rest "2.prems"(2) by simp
  qed
qed simp

lemma distinct_the:
  "distinct (map (\<lambda>x. (f x, g x)) xs) \<Longrightarrow> \<forall>x \<in> set xs. f x \<noteq> None \<Longrightarrow> distinct (map (\<lambda>x. (the (f x), g x)) xs)"
proof (induction xs)
  case (Cons x xs)
  have "(the (f x), g x) \<noteq> (the (f y), g y)" if y: "y \<in> set xs" for y
  proof
    assume eq: "(the (f x), g x) = (the (f y), g y)"
    obtain u where "f x = Some u" using Cons.prems(2) by auto
    moreover obtain v where "f y = Some v" using Cons.prems(2) y by fastforce
    ultimately have "(f x, g x) = (f y, g y)" using eq by simp
    with y Cons.prems(1) show False by force
  qed
  with Cons show ?case by auto
qed simp

lemma entry_keys_distinct:
  assumes f: "fold_rows vtag p (segment_versions segs) fold_new = Ok f"
  shows "distinct (map (\<lambda>(g, role, k). (k, g)) (map (version_entry vtag p) (concat (map segment_rows segs))))"
proof -
  let ?key = "\<lambda>x. (version_key vtag p x, fst x)"
  have "distinct (map ?key xs)" if "\<And>k. distinct (map fst (of_key vtag p k xs))" and "\<forall>x \<in> set xs. version_key vtag p x \<noteq> None" for xs
    using that
  proof (induction xs)
    case (Cons x xs)
    obtain k where k: "version_key vtag p x = Some k" using Cons.prems(2) by auto
    have "distinct (map fst (of_key vtag p l xs))" for l
      using Cons.prems(1) [of l] by (auto simp: of_key_def split: if_splits)
    with Cons have "distinct (map ?key xs)" by simp
    moreover have "?key x \<notin> ?key ` set xs"
      using Cons.prems(1) [of k] k by (auto simp: of_key_def)
    ultimately show ?case by simp
  qed simp
  moreover have "distinct (map fst (of_key vtag p k (segment_versions segs)))" for k
    using lineage_distinct fold_rows_lineage [OF f, of k] by (metis option.distinct(1))
  ultimately have "distinct (map ?key (segment_versions segs))" using fold_rows_keys [OF f] by blast
  then have "distinct (map ?key (concat (map segment_rows segs)))"
    by (rule mset_eq_imp_distinct_iff [THEN iffD1, rotated]) (simp only: mset_map segment_versions_mset)
  moreover have "\<forall>x \<in> set (concat (map segment_rows segs)). version_key vtag p x \<noteq> None"
    using fold_rows_keys [OF f] mset_eq_setD [OF segment_versions_mset, of segs] by argo
  ultimately have "distinct (map (\<lambda>x. (the (version_key vtag p x), fst x)) (concat (map segment_rows segs)))"
    by (rule distinct_the)
  then show ?thesis unfolding map_map comp_def version_entry.simps prod.case .
qed

text \<open>The index keeps a key exactly when its row in the base is not a tombstone.\<close>

lemma index_keys_visible:
  assumes f: "fold_rows vtag p (segment_versions segs) fold_new = Ok f"
    and a: "acc_ok budget (map (version_entry vtag p) (concat (map segment_rows segs))) a"
  shows "accumulator_finish a = map fst (filter (\<lambda>(_, row). br_value row \<noteq> None) (fd_rows f))"
proof -
  let ?xs = "concat (map segment_rows segs)"
  have set: "set (segment_versions segs) = set ?xs" by (rule mset_eq_setD [OF segment_versions_mset])
  have wf: "bm_wf (ka_keys a)" "bm_wf (fd_rows f)" using a fold_rows_wf [OF f] by (simp_all add: acc_ok_def)
  have newest: "holds_newest (map (version_entry vtag p) ?xs) (ka_keys a)" using a by (simp add: acc_ok_def)
  have same: "(\<exists>st. bm_get (ka_keys a) k = Some st \<and> ks_role st \<noteq> Deletion)
      \<longleftrightarrow> (\<exists>row. bm_get (fd_rows f) k = Some row \<and> br_value row \<noteq> None)" for k
  proof -
    have roles: "fst (snd x) = Deletion \<longleftrightarrow> snd (snd (snd x)) = None" if "x \<in> set (of_key vtag p k ?xs)" for x
      using lineage_roles [of "{}" None "of_key vtag p k (segment_versions segs)" x] fold_rows_lineage [OF f, of k] that set
      by (simp add: of_key_def)
    have mem: "(g, role, k) \<in> set (map (version_entry vtag p) ?xs) \<longleftrightarrow>
        (\<exists>x \<in> set (of_key vtag p k ?xs). fst x = g \<and> fst (snd x) = role)" for g role
    proof -
      have some: "version_key vtag p x = Some (the (version_key vtag p x))" if "x \<in> set ?xs" for x
        using fold_rows_keys [OF f] that unfolding set by (metis option.exhaust_sel)
      show ?thesis
      proof
        assume "(g, role, k) \<in> set (map (version_entry vtag p) ?xs)"
        then have "(g, role, k) \<in> version_entry vtag p ` set ?xs" by (simp only: list.set_map)
        then obtain x where "x \<in> set ?xs" "(g, role, k) = version_entry vtag p x" by (rule imageE)
        then have "x \<in> set ?xs" "fst x = g" "fst (snd x) = role" "the (version_key vtag p x) = k"
          by (simp_all add: version_entry.simps)
        then show "\<exists>x \<in> set (of_key vtag p k ?xs). fst x = g \<and> fst (snd x) = role"
          using some [of x] by (intro bexI [of _ x]) (simp_all add: of_key_def)
      next
        assume "\<exists>x \<in> set (of_key vtag p k ?xs). fst x = g \<and> fst (snd x) = role"
        then obtain x where x: "x \<in> set ?xs" "version_key vtag p x = Some k" "fst x = g" "fst (snd x) = role"
          unfolding of_key_def set_filter by blast
        then have "version_entry vtag p x = (g, role, k)" by (simp add: version_entry.simps)
        with x(1) show "(g, role, k) \<in> set (map (version_entry vtag p) ?xs)" by (metis image_eqI list.set_map)
      qed
    qed
    show ?thesis
    proof (cases "bm_get (fd_rows f) k")
      case None
      then have "of_key vtag p k ?xs = []" using fold_newest [OF f, of k] by simp
      then have "(g, role, k) \<notin> set (map (version_entry vtag p) ?xs)" for g role using mem by simp
      then have "bm_get (ka_keys a) k = None"
        using newest holds_newest_mem by (metis not_Some_eq)
      with None show ?thesis by simp
    next
      case (Some row)
      with fold_newest [OF f, of k] obtain x where x: "x \<in> set (of_key vtag p k ?xs)" "row = version_row x"
          and last_one: "\<forall>y \<in> set (of_key vtag p k ?xs). y = x \<or> fst y < fst x" by auto
      have xk: "(fst x, fst (snd x), k) \<in> set (map (version_entry vtag p) ?xs)" using mem x(1) by blast
      from newest this obtain st where st: "bm_get (ka_keys a) k = Some st"
          "(ks_generation st, ks_role st, k) \<in> set (map (version_entry vtag p) ?xs)"
          "\<forall>e \<in> set (map (version_entry vtag p) ?xs). snd (snd e) = k \<longrightarrow> fst e \<le> ks_generation st"
        by (rule holds_newest_Some)
      from st(2) obtain y where y: "y \<in> set (of_key vtag p k ?xs)" "fst y = ks_generation st" "fst (snd y) = ks_role st"
        using mem by blast
      have "fst x \<le> fst y" using st(3) xk y(2) by fastforce
      with last_one y(1) have "y = x" by fastforce
      with roles [OF x(1)] y(3) st(1) Some x(2) show ?thesis
        by (cases x) (auto simp: version_row.simps)
    qed
  qed
  have "set (accumulator_finish a) = set (map fst (filter (\<lambda>(_, row). br_value row \<noteq> None) (fd_rows f)))"
  proof (rule set_eqI)
    fix k
    have "k \<in> set (accumulator_finish a) \<longleftrightarrow> (\<exists>st. (k, st) \<in> set (ka_keys a) \<and> ks_role st \<noteq> Deletion)"
      by (force simp: accumulator_finish_def)
    also have "\<dots> \<longleftrightarrow> (\<exists>row. (k, row) \<in> set (fd_rows f) \<and> br_value row \<noteq> None)"
      unfolding bm_get_mem [OF wf(1)] bm_get_mem [OF wf(2)] by (rule same)
    also have "\<dots> \<longleftrightarrow> k \<in> set (map fst (filter (\<lambda>(_, row). br_value row \<noteq> None) (fd_rows f)))" by force
    finally show "k \<in> set (accumulator_finish a)
        \<longleftrightarrow> k \<in> set (map fst (filter (\<lambda>(_, row). br_value row \<noteq> None) (fd_rows f)))" .
  qed
  moreover have "sorted_wrt (<) (accumulator_finish a)"
    and "sorted_wrt (<) (map fst (filter (\<lambda>(_, row). br_value row \<noteq> None) (fd_rows f)))"
    unfolding accumulator_finish_def using bm_wf_filter [OF wf(1)] bm_wf_filter [OF wf(2)] by (simp_all add: bm_wf_def)
  ultimately show ?thesis by (simp add: strict_sorted_equal)
qed

lemma visible_keys: "map fst (visible_rows b) = map fst (filter (\<lambda>(_, row). br_value row \<noteq> None) (cb_rows b))"
proof -
  have "map fst (List.map_filter (\<lambda>(k, row). map_option (Pair k) (br_value row)) m)
      = map fst (filter (\<lambda>(_, row). br_value row \<noteq> None) m)" for m :: "('k \<times> base_row) list"
    by (induction m) (auto simp: List.map_filter_simps split: option.splits)
  then show ?thesis by (simp add: visible_rows_def)
qed

text \<open>
  C25. The logical key index of a manifest whose entries present the keys of the segments of a committed
  base. Within the budget it succeeds, and holds exactly the keys of the base's visible rows, in their
  order; a manifest with more rows than the budget is refused with the budget as the limit. No other error is possible.
\<close>

theorem key_index_is_visible_keys:
  fixes source :: "manifest_entry \<Rightarrow> ('e, ('e, u8 list) result list) result"
  assumes "fold_compact_committed_base vtag p segs ng = Ok b"
    and "mf_table mf = p_table_id p" and "mf_schema mf = p_schema_fingerprint p"
    and "list_all2 (presents vtag source) (mf_entries mf) segs"
  shows "logical_key_index vtag p mf source budget =
    (if length (concat (map sg_rows segs)) \<le> budget
     then Ok \<lparr>xi_table_id = p_table_id p, xi_schema_fingerprint = p_schema_fingerprint p, xi_keys = map fst (visible_rows b)\<rparr>
     else Err (KeyBudgetExceeded budget))"
proof -
  obtain f where f: "fold_rows vtag p (segment_versions segs) fold_new = Ok f" "cb_rows b = fd_rows f"
    using assms(1) unfolding fold_base_Ok by auto
  define es where "es = map (version_entry vtag p) (concat (map segment_rows segs))"
  have rows: "length es = length (concat (map sg_rows segs))"
    by (simp add: es_def length_concat comp_def segment_rows_def)
  have "\<forall>x \<in> set (concat (map segment_rows segs)). version_key vtag p x \<noteq> None"
    using fold_rows_keys [OF f(1)] mset_eq_setD [OF segment_versions_mset, of segs] by argo
  from consume_entries_all [OF assms(4) this]
  have index: "logical_key_index vtag p mf source budget =
      (case (add_all es (accumulator_new budget) :: ('e logical_key_error, _) result) of Inl e \<Rightarrow> Err e
       | Inr a \<Rightarrow> Ok \<lparr>xi_table_id = p_table_id p, xi_schema_fingerprint = p_schema_fingerprint p, xi_keys = accumulator_finish a\<rparr>)"
    using assms(2,3) by (simp add: logical_key_index_def es_def)
  have "distinct (map (\<lambda>(g, role, k). (k, g)) ([] @ es))" using entry_keys_distinct [OF f(1)] by (simp add: es_def)
  from add_all_spec [OF acc_ok_new this, of budget, where 'e = 'e] show ?thesis
    unfolding index rows [symmetric] visible_keys f(2)
    using index_keys_visible [OF f(1), of budget] by (cases "length es \<le> budget") (auto simp: es_def)
qed

text \<open>The example table again: three rows, one visible key.\<close>

definition w_entry :: "u64 \<Rightarrow> segment_role \<Rightarrow> u64 \<Rightarrow> manifest_entry" where
  "w_entry g role n = \<lparr>me_segment_id = [], me_role = role, me_generation = g, me_schema = [2], me_encoder_version = [],
     me_relative_path = [], me_git_object_id = [], me_sha256 = [], me_min_key = [], me_max_key = [],
     me_min_event_time = None, me_max_event_time = None, me_row_count = n, me_compressed_bytes = 0, me_columns = [],
     me_row_group_index = False, me_bloom = False\<rparr>"

definition w_manifest :: manifest where
  "w_manifest = \<lparr>mf_table = [1], mf_schema = [2], mf_next_generation = 3, mf_entries = [w_entry 2 Deletion 1, w_entry 1 Data 2]\<rparr>"

definition w_source :: "manifest_entry \<Rightarrow> (unit, (unit, u8 list) result list) result" where
  "w_source entry = Ok (map Ok (if me_generation entry = 2 then [[3]] else [[7], [3]]))"

theorem key_index_is_visible_keys_witness:
  "logical_key_index w_tags w_profile w_manifest w_source 3 = Ok \<lparr>xi_table_id = [1], xi_schema_fingerprint = [2], xi_keys = [[7]]\<rparr>
   \<and> logical_key_index w_tags w_profile w_manifest w_source 2 = Err (KeyBudgetExceeded 2)"
proof -
  have keys: "encode_raw w_tags (RInt 3) = Ok [3]" "encode_raw w_tags (RInt 7) = Ok [7]" by code_simp+
  have ids: "mf_table w_manifest = p_table_id w_profile" "mf_schema w_manifest = p_schema_fingerprint w_profile"
    by (simp_all add: w_manifest_def w_profile_def)
  have "presents w_tags w_source (w_entry 2 Deletion 1) (w_segment 2 Deletion [(RInt 3, None)])"
    unfolding presents_def
    by (intro conjI exI [of _ "[[3]]"]) (simp_all add: w_entry_def w_segment_def w_source_def keys)
  moreover have "presents w_tags w_source (w_entry 1 Data 2) (w_segment 1 Data [(RInt 7, Some (w_row 7)), (RInt 3, Some (w_row 3))])"
    unfolding presents_def
    by (intro conjI exI [of _ "[[7], [3]]"]) (simp_all add: w_entry_def w_segment_def w_source_def keys)
  ultimately have "list_all2 (presents w_tags w_source) (mf_entries w_manifest) w_segments"
    by (simp add: w_manifest_def w_segments_def)
  note index = key_index_is_visible_keys [OF w_base_fold ids this]
  have "length (concat (map sg_rows w_segments)) = 3" by (simp add: w_segments_def w_segment_def)
  moreover have "map fst (visible_rows w_base) = [[7]]" by code_simp
  ultimately show ?thesis using index [of 3] index [of 2] by (simp add: w_profile_def)
qed

end
