(* ===== verification/Orna_Scan.thy ===== *)
theory Orna_Scan
  imports Orna_Compact_Laws
begin

text \<open>
  Compact scan planning: \<open>crates/orna-storage/src/scan_planner.rs\<close>.

  A key range is admitted by the table's profile (\<open>key_range_new\<close>). A plan selects the manifest
  shards and segments whose key bounds may meet the range and projects the required fields with
  the key fields (\<open>plan_compact_scan\<close>). A reader asks the same question of its row groups and pages
  (\<open>may_match_primary_key_scope\<close>).
\<close>

definition MANIFEST_SHARD_ENTRIES :: nat where
  "MANIFEST_SHARD_ENTRIES = 256"

datatype scan_plan_error = InvalidKeyBound | ReversedRange | EmptyRange | ScanWrongTable | ScanWrongSchema | InvalidManifestBounds

record 'k key_range =
  kr_lower :: "('k \<times> bool) option"
  kr_upper :: "('k \<times> bool) option"

definition key_range_unbounded :: "'k key_range" where
  "key_range_unbounded = \<lparr>kr_lower = None, kr_upper = None\<rparr>"

definition key_bound ::
  "tag_registry \<Rightarrow> 'k profile \<Rightarrow> (u8 list \<times> bool) option \<Rightarrow> (scan_plan_error, ('k \<times> bool) option) result" where
  "key_bound vtag p bnd =
     (case bnd of
        None \<Rightarrow> Ok None
      | Some (key, inclusive) \<Rightarrow> (case decode_key vtag p key of Inl _ \<Rightarrow> Err InvalidKeyBound | Inr k \<Rightarrow> Ok (Some (k, inclusive))))"

definition key_range_new ::
  "tag_registry \<Rightarrow> ('k::linorder) profile \<Rightarrow> (u8 list \<times> bool) option \<Rightarrow> (u8 list \<times> bool) option
     \<Rightarrow> (scan_plan_error, 'k key_range) result" where
  "key_range_new vtag p lower upper =
     (case key_bound vtag p lower of
        Inl e \<Rightarrow> Err e
      | Inr lo \<Rightarrow> (case key_bound vtag p upper of
          Inl e \<Rightarrow> Err e
        | Inr hi \<Rightarrow>
            (case (lo, hi) of
               (Some (l, l_inclusive), Some (u, u_inclusive)) \<Rightarrow>
                 if u < l then Err ReversedRange
                 else if l = u \<and> (\<not> l_inclusive \<or> \<not> u_inclusive) then Err EmptyRange
                 else Ok \<lparr>kr_lower = lo, kr_upper = hi\<rparr>
             | _ \<Rightarrow> Ok \<lparr>kr_lower = lo, kr_upper = hi\<rparr>)))"

definition key_bounds_overlap :: "('k::linorder) \<Rightarrow> 'k \<Rightarrow> 'k key_range \<Rightarrow> bool" where
  "key_bounds_overlap mn mx r =
     (let before_lower = (case kr_lower r of None \<Rightarrow> False
            | Some (l, inclusive) \<Rightarrow> if mx < l then True else if mx = l then \<not> inclusive else False);
          after_upper = (case kr_upper r of None \<Rightarrow> False
            | Some (u, inclusive) \<Rightarrow> if u < mn then True else if mn = u then \<not> inclusive else False)
      in \<not> before_lower \<and> \<not> after_upper)"

record 'k scan_plan =
  sp_table :: "u8 list"
  sp_schema :: "u8 list"
  sp_next_generation :: u64
  sp_selected_shards :: "u64 list"
  sp_pruned_shards :: "u64 list"
  sp_selected_segments :: "u8 list list"
  sp_pruned_segments :: "u8 list list"
  sp_projected_field_ids :: "u8 list list"
  sp_range :: "'k key_range"

definition may_match_primary_key_scope ::
  "tag_registry \<Rightarrow> ('k::linorder) profile \<Rightarrow> 'k scan_plan \<Rightarrow> u8 list option \<Rightarrow> u8 list option \<Rightarrow> bool" where
  "may_match_primary_key_scope vtag p plan min_key max_key =
     (if p_table_id p \<noteq> sp_table plan \<or> p_schema_fingerprint p \<noteq> sp_schema plan then True
      else (case (min_key, max_key) of
              (Some mn_key, Some mx_key) \<Rightarrow>
                (case (decode_key vtag p mn_key, decode_key vtag p mx_key) of
                   (Inr mn, Inr mx) \<Rightarrow> if mx < mn then True else key_bounds_overlap mn mx (sp_range plan)
                 | _ \<Rightarrow> True)
            | _ \<Rightarrow> True))"

fun decode_bounds ::
  "tag_registry \<Rightarrow> ('k::linorder) profile \<Rightarrow> manifest_entry list \<Rightarrow> (scan_plan_error, (manifest_entry \<times> 'k \<times> 'k) list) result" where
  "decode_bounds vtag p [] = Ok []"
| "decode_bounds vtag p (entry # entries) =
     (case (decode_key vtag p (me_min_key entry), decode_key vtag p (me_max_key entry)) of
        (Inr mn, Inr mx) \<Rightarrow>
          if mx < mn then Err InvalidManifestBounds
          else (case decode_bounds vtag p entries of Inl e \<Rightarrow> Err e | Inr rest \<Rightarrow> Ok ((entry, mn, mx) # rest))
      | _ \<Rightarrow> Err InvalidManifestBounds)"

text \<open>\<open>slice::chunks\<close>.\<close>

fun chunks_of :: "nat \<Rightarrow> 'a list \<Rightarrow> 'a list list" where
  "chunks_of n [] = []"
| "chunks_of n (x # xs) = (x # take (n - 1) xs) # chunks_of n (drop (n - 1) xs)"

definition shard_bounds :: "'k \<Rightarrow> 'k \<Rightarrow> ('e \<times> ('k::linorder) \<times> 'k) list \<Rightarrow> 'k \<times> 'k" where
  "shard_bounds first_min first_max rest =
     fold (\<lambda>(_, entry_min, entry_max) (mn, mx).
       (if entry_min < mn then entry_min else mn, if mx < entry_max then entry_max else mx)) rest (first_min, first_max)"

record shard_choice =
  sc_selected_shards :: "u64 list"
  sc_pruned_shards :: "u64 list"
  sc_selected_segments :: "u8 list list"
  sc_pruned_segments :: "u8 list list"

definition choose_segments :: "('k::linorder) key_range \<Rightarrow> (manifest_entry \<times> 'k \<times> 'k) list \<Rightarrow> shard_choice \<Rightarrow> shard_choice" where
  "choose_segments rng = fold (\<lambda>(entry, mn, mx) c.
     if key_bounds_overlap mn mx rng
     then c\<lparr>sc_selected_segments := sc_selected_segments c @ [me_segment_id entry]\<rparr>
     else c\<lparr>sc_pruned_segments := sc_pruned_segments c @ [me_segment_id entry]\<rparr>)"

fun choose_shards ::
  "('k::linorder) key_range \<Rightarrow> nat \<Rightarrow> (manifest_entry \<times> 'k \<times> 'k) list list \<Rightarrow> shard_choice
     \<Rightarrow> (scan_plan_error, shard_choice) result" where
  "choose_shards rng n [] c = Ok c"
| "choose_shards rng n (shard # shards) c =
     (case shard of
        [] \<Rightarrow> choose_shards rng (n + 1) shards c
      | (_, first_min, first_max) # rest \<Rightarrow>
          (let (shard_min, shard_max) = shard_bounds first_min first_max rest in
           if 18446744073709551616 \<le> int n then Err InvalidManifestBounds
           else
             let c' = (if key_bounds_overlap shard_min shard_max rng
                       then c\<lparr>sc_selected_shards := sc_selected_shards c @ [of_nat n]\<rparr>
                       else c\<lparr>sc_pruned_shards := sc_pruned_shards c @ [of_nat n]\<rparr>)
             in choose_shards rng (n + 1) shards (choose_segments rng shard c')))"

definition plan_compact_scan ::
  "tag_registry \<Rightarrow> ('k::linorder) profile \<Rightarrow> manifest \<Rightarrow> 'k key_range \<Rightarrow> u8 list list
     \<Rightarrow> (scan_plan_error, 'k scan_plan) result" where
  "plan_compact_scan vtag p mf rng required_field_ids =
     (if mf_table mf \<noteq> p_table_id p then Err ScanWrongTable
      else if mf_schema mf \<noteq> p_schema_fingerprint p then Err ScanWrongSchema
      else
        let projected = fold bs_insert (key_field_ids p) (bs_collect required_field_ids) in
        (case decode_bounds vtag p (mf_entries mf) of
           Inl e \<Rightarrow> Err e
         | Inr decoded_bounds \<Rightarrow>
             (case choose_shards rng 0 (chunks_of MANIFEST_SHARD_ENTRIES decoded_bounds)
                \<lparr>sc_selected_shards = [], sc_pruned_shards = [], sc_selected_segments = [], sc_pruned_segments = []\<rparr> of
                Inl e \<Rightarrow> Err e
              | Inr c \<Rightarrow>
                  Ok \<lparr>sp_table = mf_table mf, sp_schema = mf_schema mf, sp_next_generation = mf_next_generation mf,
                      sp_selected_shards = sc_selected_shards c, sp_pruned_shards = sc_pruned_shards c,
                      sp_selected_segments = sort (sc_selected_segments c), sp_pruned_segments = sort (sc_pruned_segments c),
                      sp_projected_field_ids = projected, sp_range = rng\<rparr>)))"

section \<open>What a plan selects\<close>

definition in_range :: "('k::linorder) key_range \<Rightarrow> 'k \<Rightarrow> bool" where
  "in_range r k \<longleftrightarrow>
     (case kr_lower r of None \<Rightarrow> True | Some (l, inclusive) \<Rightarrow> l < k \<or> inclusive \<and> l = k)
     \<and> (case kr_upper r of None \<Rightarrow> True | Some (u, inclusive) \<Rightarrow> k < u \<or> inclusive \<and> k = u)"

lemma overlap_if_in_range: "in_range r k \<Longrightarrow> mn \<le> k \<Longrightarrow> k \<le> mx \<Longrightarrow> key_bounds_overlap mn mx r"
  by (auto simp: in_range_def key_bounds_overlap_def Let_def split: option.splits if_splits)

lemma overlap_mono: "key_bounds_overlap mn mx r \<Longrightarrow> mn' \<le> mn \<Longrightarrow> mx \<le> mx' \<Longrightarrow> key_bounds_overlap mn' mx' r"
  by (auto simp: key_bounds_overlap_def Let_def split: option.splits if_splits)

lemma shard_bounds_cover:
  "fst (shard_bounds mn mx rest) \<le> mn \<and> mx \<le> snd (shard_bounds mn mx rest)
   \<and> (\<forall>(e, a, b) \<in> set rest. fst (shard_bounds mn mx rest) \<le> a \<and> b \<le> snd (shard_bounds mn mx rest))"
proof (induction rest arbitrary: mn mx)
  case (Cons x rest)
  obtain e a b where x: "x = (e, a, b)" by (cases x)
  have "(if a < mn then a else mn) = min mn a" "(if mx < b then b else mx) = max mx b"
    by (auto simp: min_def max_def)
  then have step: "shard_bounds mn mx (x # rest) = shard_bounds (min mn a) (max mx b) rest"
    by (simp add: shard_bounds_def x)
  show ?case using Cons.IH [of "min mn a" "max mx b"] unfolding step by (auto simp: x)
qed (simp add: shard_bounds_def)

lemma choose_segments_spec:
  "choose_segments rng shard c = c
     \<lparr>sc_selected_segments := sc_selected_segments c
        @ map (me_segment_id \<circ> fst) (filter (\<lambda>(e, mn, mx). key_bounds_overlap mn mx rng) shard),
      sc_pruned_segments := sc_pruned_segments c
        @ map (me_segment_id \<circ> fst) (filter (\<lambda>(e, mn, mx). \<not> key_bounds_overlap mn mx rng) shard)\<rparr>"
proof (induction shard arbitrary: c)
  case (Cons x shard)
  obtain e mn mx where x: "x = (e, mn, mx)" by (cases x)
  have "choose_segments rng (x # shard) c = choose_segments rng shard
      (if key_bounds_overlap mn mx rng
       then c\<lparr>sc_selected_segments := sc_selected_segments c @ [me_segment_id e]\<rparr>
       else c\<lparr>sc_pruned_segments := sc_pruned_segments c @ [me_segment_id e]\<rparr>)"
    by (simp add: choose_segments_def x)
  then show ?case by (simp add: Cons.IH x)
qed (simp add: choose_segments_def)

fun shard_overlaps :: "('k::linorder) key_range \<Rightarrow> (manifest_entry \<times> 'k \<times> 'k) list \<Rightarrow> bool" where
  "shard_overlaps rng [] = False"
| "shard_overlaps rng ((_, mn, mx) # rest) =
     key_bounds_overlap (fst (shard_bounds mn mx rest)) (snd (shard_bounds mn mx rest)) rng"

lemma shard_overlaps_if:
  assumes "(e, mn, mx) \<in> set shard" and "key_bounds_overlap mn mx rng"
  shows "shard_overlaps rng shard"
proof (cases shard)
  case (Cons x rest)
  obtain e' a b where x: "x = (e', a, b)" by (cases x)
  show ?thesis
    using shard_bounds_cover [of a b rest] assms overlap_mono [OF assms(2)] unfolding Cons x by fastforce
qed (use assms in simp)

lemma choose_shards_Ok:
  assumes "choose_shards rng n shards c = Ok c'" and "[] \<notin> set shards"
  shows "sc_selected_segments c' = sc_selected_segments c
      @ map (me_segment_id \<circ> fst) (filter (\<lambda>(e, mn, mx). key_bounds_overlap mn mx rng) (concat shards))
    \<and> sc_pruned_segments c' = sc_pruned_segments c
      @ map (me_segment_id \<circ> fst) (filter (\<lambda>(e, mn, mx). \<not> key_bounds_overlap mn mx rng) (concat shards))
    \<and> sc_selected_shards c' = sc_selected_shards c
      @ map (of_nat \<circ> fst) (filter (shard_overlaps rng \<circ> snd) (enumerate n shards))
    \<and> sc_pruned_shards c' = sc_pruned_shards c
      @ map (of_nat \<circ> fst) (filter (Not \<circ> shard_overlaps rng \<circ> snd) (enumerate n shards))"
  using assms
proof (induction shards arbitrary: n c)
  case (Cons shard shards)
  obtain e mn mx rest where shard: "shard = (e, mn, mx) # rest"
    using Cons.prems(2) by (cases shard) auto
  define c1 where "c1 = (if shard_overlaps rng shard
    then c\<lparr>sc_selected_shards := sc_selected_shards c @ [of_nat n]\<rparr>
    else c\<lparr>sc_pruned_shards := sc_pruned_shards c @ [of_nat n]\<rparr>)"
  have "choose_shards rng (Suc n) shards (choose_segments rng shard c1) = Ok c'"
    using Cons.prems(1) by (simp add: shard c1_def Let_def case_prod_beta split: if_splits)
  from Cons.IH [OF this] Cons.prems(2) show ?case by (simp add: choose_segments_spec c1_def)
qed simp

lemma concat_chunks [simp]: "concat (chunks_of n xs) = xs"
  by (induction n xs rule: chunks_of.induct) simp_all

lemma chunks_nonempty: "[] \<notin> set (chunks_of n xs)"
  by (induction n xs rule: chunks_of.induct) simp_all

lemma chunks_nth:
  "0 < n \<Longrightarrow> i < length xs \<Longrightarrow> i div n < length (chunks_of n xs) \<and> xs ! i \<in> set (chunks_of n xs ! (i div n))"
proof (induction n xs arbitrary: i rule: chunks_of.induct)
  case (2 n x xs)
  show ?case
  proof (cases "i < n")
    case True
    have "(x # take (n - 1) xs) = take n (x # xs)" using \<open>0 < n\<close> by (cases n) simp_all
    with True "2.prems" show ?thesis by (simp add: in_set_conv_nth) (metis length_Cons length_take min_less_iff_conj nth_take)
  next
    case False
    have "drop (n - 1) xs = drop n (x # xs)" using \<open>0 < n\<close> by (cases n) simp_all
    then have tail: "(x # xs) ! i = drop (n - 1) xs ! (i - n)" "i - n < length (drop (n - 1) xs)"
      using False "2.prems" by (simp_all only: nth_drop length_drop) auto
    from "2.IH" [OF "2.prems"(1) tail(2)] False "2.prems"(1) show ?thesis
      by (simp add: tail(1) le_div_geq)
  qed
qed simp

lemma decode_bounds_Ok:
  "decode_bounds vtag p entries = Ok bounds \<Longrightarrow> map fst bounds = entries
   \<and> (\<forall>(e, mn, mx) \<in> set bounds. decode_key vtag p (me_min_key e) = Ok mn \<and> decode_key vtag p (me_max_key e) = Ok mx \<and> mn \<le> mx)"
  by (induction entries arbitrary: bounds) (fastforce split: sum.splits if_splits)+

lemma bs_extend_set: "set (fold bs_insert xs s) = set xs \<union> set s" "bs_wf s \<Longrightarrow> bs_wf (fold bs_insert xs s)"
  by (induction xs arbitrary: s) (auto simp: bs_wf_insert)

definition entry_overlaps :: "tag_registry \<Rightarrow> ('k::linorder) profile \<Rightarrow> 'k key_range \<Rightarrow> manifest_entry \<Rightarrow> bool" where
  "entry_overlaps vtag p rng e \<longleftrightarrow>
     (case (decode_key vtag p (me_min_key e), decode_key vtag p (me_max_key e)) of
        (Inr mn, Inr mx) \<Rightarrow> key_bounds_overlap mn mx rng | _ \<Rightarrow> False)"

lemma plan_shape:
  assumes "plan_compact_scan vtag p mf rng required = Ok pl"
  shows "sp_selected_segments pl = sort (map me_segment_id (filter (entry_overlaps vtag p rng) (mf_entries mf)))
    \<and> sp_pruned_segments pl = sort (map me_segment_id (filter (Not \<circ> entry_overlaps vtag p rng) (mf_entries mf)))
    \<and> (\<forall>i < length (mf_entries mf). entry_overlaps vtag p rng (mf_entries mf ! i)
         \<longrightarrow> of_nat (i div MANIFEST_SHARD_ENTRIES) \<in> set (sp_selected_shards pl))
    \<and> sp_projected_field_ids pl = fold bs_insert (key_field_ids p) (bs_collect required)"
proof -
  let ?empty = "\<lparr>sc_selected_shards = [], sc_pruned_shards = [], sc_selected_segments = [], sc_pruned_segments = []\<rparr>"
  obtain bounds c where bounds: "decode_bounds vtag p (mf_entries mf) = Ok bounds"
      and c: "choose_shards rng 0 (chunks_of MANIFEST_SHARD_ENTRIES bounds) ?empty = Ok c"
      and pl: "sp_selected_segments pl = sort (sc_selected_segments c)" "sp_pruned_segments pl = sort (sc_pruned_segments c)"
        "sp_selected_shards pl = sc_selected_shards c"
        "sp_projected_field_ids pl = fold bs_insert (key_field_ids p) (bs_collect required)"
    using assms by (auto simp: plan_compact_scan_def Let_def split: if_splits sum.splits)
  note shape = choose_shards_Ok [OF c chunks_nonempty]
  have entries: "map fst bounds = mf_entries mf"
      and dec: "\<And>e mn mx. (e, mn, mx) \<in> set bounds \<Longrightarrow>
        decode_key vtag p (me_min_key e) = Ok mn \<and> decode_key vtag p (me_max_key e) = Ok mx"
    using decode_bounds_Ok [OF bounds] by blast+
  have over: "entry_overlaps vtag p rng e = key_bounds_overlap mn mx rng" if "(e, mn, mx) \<in> set bounds" for e mn mx
    using dec [OF that] by (simp add: entry_overlaps_def)
  have "filter (\<lambda>(e, mn, mx). key_bounds_overlap mn mx rng) bounds = filter (entry_overlaps vtag p rng \<circ> fst) bounds"
    and "filter (\<lambda>(e, mn, mx). \<not> key_bounds_overlap mn mx rng) bounds = filter ((Not \<circ> entry_overlaps vtag p rng) \<circ> fst) bounds"
    by (auto intro!: filter_cong simp: over)
  with shape have segs: "sc_selected_segments c = map me_segment_id (filter (entry_overlaps vtag p rng) (mf_entries mf))"
      "sc_pruned_segments c = map me_segment_id (filter (Not \<circ> entry_overlaps vtag p rng) (mf_entries mf))"
    by (simp_all add: entries [symmetric] filter_map comp_def)
  have "of_nat (i div MANIFEST_SHARD_ENTRIES) \<in> set (sp_selected_shards pl)"
    if i: "i < length (mf_entries mf)" and ov: "entry_overlaps vtag p rng (mf_entries mf ! i)" for i
  proof -
    let ?shards = "chunks_of MANIFEST_SHARD_ENTRIES bounds" and ?n = "i div MANIFEST_SHARD_ENTRIES"
    obtain e mn mx where x: "bounds ! i = (e, mn, mx)" by (cases "bounds ! i")
    have len: "i < length bounds" using i entries [symmetric] by simp
    then have "(e, mn, mx) \<in> set bounds" using x by (metis nth_mem)
    moreover have "mf_entries mf ! i = e" using entries [symmetric] len x by simp
    ultimately have "key_bounds_overlap mn mx rng" using ov over by simp
    moreover have n: "?n < length ?shards" and "(e, mn, mx) \<in> set (?shards ! ?n)"
      using chunks_nth [of MANIFEST_SHARD_ENTRIES i bounds] len x by (simp_all add: MANIFEST_SHARD_ENTRIES_def)
    ultimately have "shard_overlaps rng (?shards ! ?n)" using shard_overlaps_if by blast
    moreover have "(?n, ?shards ! ?n) \<in> set (enumerate 0 ?shards)" using n by (simp add: in_set_enumerate_eq)
    ultimately show ?thesis using shape pl(3) by force
  qed
  with pl segs show ?thesis by simp
qed

text \<open>
  A scan plan prunes nothing that can matter. Every manifest entry is either selected or pruned; an
  entry whose key bounds contain a key of the range is selected, and so is its shard. The projection is the
  requested fields and all key fields, in strictly ascending order.
\<close>

theorem scan_plan_is_sound:
  assumes "plan_compact_scan vtag p mf rng required = Ok pl"
  shows "mset (sp_selected_segments pl) + mset (sp_pruned_segments pl) = mset (map me_segment_id (mf_entries mf))
    \<and> (\<forall>i < length (mf_entries mf). \<forall>k mn mx. in_range rng k
         \<and> decode_key vtag p (me_min_key (mf_entries mf ! i)) = Ok mn
         \<and> decode_key vtag p (me_max_key (mf_entries mf ! i)) = Ok mx \<and> mn \<le> k \<and> k \<le> mx \<longrightarrow>
           me_segment_id (mf_entries mf ! i) \<in> set (sp_selected_segments pl)
           \<and> of_nat (i div 256) \<in> set (sp_selected_shards pl))
    \<and> set (sp_projected_field_ids pl) = set required \<union> set (key_field_ids p)
    \<and> sorted_wrt (<) (sp_projected_field_ids pl)"
proof -
  note shape = plan_shape [OF assms]
  have over: "entry_overlaps vtag p rng e"
    if "in_range rng k" "decode_key vtag p (me_min_key e) = Ok mn" "decode_key vtag p (me_max_key e) = Ok mx" "mn \<le> k" "k \<le> mx"
    for e k mn mx
    using that overlap_if_in_range by (auto simp: entry_overlaps_def)
  have "mset (sp_selected_segments pl) + mset (sp_pruned_segments pl) = mset (map me_segment_id (mf_entries mf))"
    using shape by (simp add: comp_def) (metis image_mset_union mset_filter multiset_partition)
  moreover have "me_segment_id (mf_entries mf ! i) \<in> set (sp_selected_segments pl)
      \<and> of_nat (i div 256) \<in> set (sp_selected_shards pl)"
    if i: "i < length (mf_entries mf)" and ov: "entry_overlaps vtag p rng (mf_entries mf ! i)" for i
    using shape i ov nth_mem [OF i] by (auto simp: MANIFEST_SHARD_ENTRIES_def)
  moreover have "set (sp_projected_field_ids pl) = set required \<union> set (key_field_ids p)"
    using shape by (auto simp: bs_extend_set(1))
  moreover have "sorted_wrt (<) (sp_projected_field_ids pl)"
    using shape bs_extend_set(2) [OF bs_wf_collect] by (simp add: bs_wf_def)
  ultimately show ?thesis using over by blast
qed

section \<open>Folding only what was selected\<close>

text \<open>A fold over segments that agree on the keys of \<open>P\<close> and hold no others.\<close>

lemma fold_restrict:
  assumes base: "fold_compact_committed_base vtag p segs ng = Ok b"
    and chk: "check_segments p part = Ok ()"
    and sub: "set (concat (map segment_rows part)) \<subseteq> set (concat (map segment_rows segs))"
    and same: "\<And>k. of_key vtag p k (concat (map segment_rows part)) =
      (if P k then of_key vtag p k (concat (map segment_rows segs)) else [])"
  shows "fold_compact_committed_base vtag p part ng = Ok (b\<lparr>cb_rows := filter (\<lambda>(k, _). P k) (cb_rows b)\<rparr>)"
proof -
  obtain f where f: "fold_rows vtag p (segment_versions segs) fold_new = Ok f"
      and ng: "ng \<noteq> 0" "fd_greatest f < ng"
      and b: "b = \<lparr>cb_table_id = p_table_id p, cb_schema_fingerprint = p_schema_fingerprint p,
                 cb_next_generation = ng, cb_rows = fd_rows f\<rparr>"
    using base unfolding fold_base_Ok by blast
  have lin: "lineage {} None (of_key vtag p k (segment_versions segs)) = Some (bm_get (fd_rows f) k)" for k
    using fold_rows_lineage [OF f, of k] by simp
  have of_mset: "mset (of_key vtag p k (segment_versions xs)) = mset (of_key vtag p k (concat (map segment_rows xs)))" for k xs
    using segment_versions_mset [of xs] by (simp add: of_key_def)
  have versions: "of_key vtag p k (segment_versions part) = (if P k then of_key vtag p k (segment_versions segs) else [])" for k
  proof (cases "P k")
    case True
    have "of_key vtag p k (segment_versions segs) = of_key vtag p k (segment_versions part)"
    proof (rule same_versions)
      show "mset (of_key vtag p k (segment_versions segs)) = mset (of_key vtag p k (segment_versions part))"
        unfolding of_mset same using True by simp
      show "distinct (map fst (of_key vtag p k (segment_versions segs)))"
        using lineage_distinct lin [of k] by (metis option.distinct(1))
    qed (intro of_key_sorted segment_versions_sorted)+
    with True show ?thesis by simp
  next
    case False
    have "mset (of_key vtag p k (segment_versions part)) = {#}" unfolding of_mset same using False by simp
    with False show ?thesis by simp
  qed
  have part: "set (segment_versions part) \<subseteq> set (segment_versions segs)"
    using sub mset_eq_setD [OF segment_versions_mset, of part] mset_eq_setD [OF segment_versions_mset, of segs] by simp
  have "\<forall>x \<in> set (segment_versions part). version_key vtag p x \<noteq> None" using fold_rows_keys [OF f] part by blast
  moreover have lin': "lineage {} None (of_key vtag p k (segment_versions part)) = Some (if P k then bm_get (fd_rows f) k else None)" for k
    unfolding versions using lin by simp
  ultimately obtain f' where f': "fold_rows vtag p (segment_versions part) fold_new = Ok f'"
    using fold_rows_succeeds [of "segment_versions part" vtag p fold_new] by auto
  have "bm_get (fd_rows f') k = (if P k then bm_get (fd_rows f) k else None)" for k
    using fold_rows_lineage [OF f', of k] lin' [of k] by simp
  then have "fd_rows f' = filter (\<lambda>(k, _). P k) (fd_rows f)"
    using fold_rows_wf [OF f] fold_rows_wf [OF f']
    by (intro bm_ext) (auto simp: bm_wf_filter bm_get_filter fun_eq_iff split: option.splits)
  moreover have "fd_greatest f' \<le> fd_greatest f"
    unfolding fold_rows_greatest [OF f] fold_rows_greatest [OF f'] by (rule Max_mono) (use part in auto)
  ultimately show ?thesis unfolding fold_base_Ok using chk f' ng b by auto
qed

text \<open>What a reader of the plan folds: the rows in the range, of the segments whose entries are selected.\<close>

definition key_in_range :: "tag_registry \<Rightarrow> ('k::linorder) profile \<Rightarrow> 'k key_range \<Rightarrow> segment \<Rightarrow> raw \<times> raw option \<Rightarrow> bool" where
  "key_in_range vtag p rng s row \<longleftrightarrow>
     (case version_key vtag p (sg_generation s, sg_role s, row) of None \<Rightarrow> False | Some k \<Rightarrow> in_range rng k)"

definition selected_rows ::
  "tag_registry \<Rightarrow> ('k::linorder) profile \<Rightarrow> 'k scan_plan \<Rightarrow> manifest_entry list \<Rightarrow> segment list \<Rightarrow> segment list" where
  "selected_rows vtag p pl entries segs =
     map (\<lambda>(_, s). s\<lparr>sg_rows := filter (key_in_range vtag p (sp_range pl) s) (sg_rows s)\<rparr>)
       (filter (\<lambda>(e, _). me_segment_id e \<in> set (sp_selected_segments pl)) (zip entries segs))"

text \<open>The bounds of a manifest entry enclose the keys of its segment.\<close>

definition bounds_rows :: "tag_registry \<Rightarrow> ('k::linorder) profile \<Rightarrow> manifest_entry \<Rightarrow> segment \<Rightarrow> bool" where
  "bounds_rows vtag p e s \<longleftrightarrow>
     (\<forall>mn mx. decode_key vtag p (me_min_key e) = Ok mn \<and> decode_key vtag p (me_max_key e) = Ok mx \<longrightarrow>
        (\<forall>x \<in> set (segment_rows s). \<forall>k. version_key vtag p x = Some k \<longrightarrow> mn \<le> k \<and> k \<le> mx))"

lemma of_key_concat: "of_key vtag p k (concat xss) = concat (map (of_key vtag p k) xss)"
  by (induction xss) (simp_all add: of_key_def)

lemma of_key_in_range:
  "of_key vtag p k (filter (\<lambda>x. \<exists>l. version_key vtag p x = Some l \<and> in_range rng l) xs) =
     (if in_range rng k then of_key vtag p k xs else [])"
  by (induction xs) (auto simp: of_key_def)

lemma key_in_range_rows:
  "segment_rows (s\<lparr>sg_rows := filter (key_in_range vtag p rng s) (sg_rows s)\<rparr>) =
     filter (\<lambda>x. \<exists>l. version_key vtag p x = Some l \<and> in_range rng l) (segment_rows s)"
proof -
  have "segment_rows (s\<lparr>sg_rows := filter (key_in_range vtag p rng s) rows\<rparr>) =
     filter (\<lambda>x. \<exists>l. version_key vtag p x = Some l \<and> in_range rng l) (segment_rows (s\<lparr>sg_rows := rows\<rparr>))" for rows
    by (induction rows) (auto simp: segment_rows_def key_in_range_def split: option.splits)
  from this [of "sg_rows s"] show ?thesis by simp
qed

lemma plan_decodes:
  assumes "plan_compact_scan vtag p mf rng required = Ok pl" and "e \<in> set (mf_entries mf)"
  shows "\<exists>mn mx. decode_key vtag p (me_min_key e) = Ok mn \<and> decode_key vtag p (me_max_key e) = Ok mx"
proof -
  obtain bounds where bounds: "decode_bounds vtag p (mf_entries mf) = Ok bounds"
    using assms(1) by (auto simp: plan_compact_scan_def Let_def split: if_splits sum.splits)
  from decode_bounds_Ok [OF bounds] have "e \<in> fst ` set bounds" using assms(2) by (metis list.set_map)
  then obtain mn mx where "(e, mn, mx) \<in> set bounds" by auto
  with decode_bounds_Ok [OF bounds] show ?thesis by blast
qed

lemma plan_selects:
  assumes "plan_compact_scan vtag p mf rng required = Ok pl" and "e \<in> set (mf_entries mf)"
    and "decode_key vtag p (me_min_key e) = Ok mn" and "decode_key vtag p (me_max_key e) = Ok mx"
    and "in_range rng k" and "mn \<le> k \<and> k \<le> mx"
  shows "me_segment_id e \<in> set (sp_selected_segments pl)"
proof -
  have "entry_overlaps vtag p rng e" using assms(3-) overlap_if_in_range by (auto simp: entry_overlaps_def)
  with plan_shape [OF assms(1)] assms(2) show ?thesis by simp
qed

text \<open>
  C23. Reading a range through a plan. If the key bounds of the manifest entries enclose the keys of their
  segments, folding only the rows in the range from only the selected segments succeeds, and yields
  exactly the part of the committed base that lies in the range.
\<close>

theorem pruned_scan_is_complete:
  assumes base: "fold_compact_committed_base vtag p segs ng = Ok b"
    and plan: "plan_compact_scan vtag p mf rng required = Ok pl"
    and bounds: "list_all2 (bounds_rows vtag p) (mf_entries mf) segs"
  shows "fold_compact_committed_base vtag p (selected_rows vtag p pl (mf_entries mf) segs) ng =
    Ok (b\<lparr>cb_rows := filter (\<lambda>(k, _). in_range rng k) (cb_rows b)\<rparr>)"
proof (rule fold_restrict [OF base])
  let ?sel = "\<lambda>e. me_segment_id e \<in> set (sp_selected_segments pl)"
  let ?keep = "\<lambda>x. \<exists>l. version_key vtag p x = Some l \<and> in_range rng l"
  have rng: "sp_range pl = rng" using plan by (auto simp: plan_compact_scan_def Let_def split: if_splits sum.splits)
  have len: "length (mf_entries mf) = length segs" using bounds by (rule list_all2_lengthD)
  have part: "map segment_rows (selected_rows vtag p pl (mf_entries mf) segs) =
      map (\<lambda>(_, s). filter ?keep (segment_rows s)) (filter (\<lambda>(e, _). ?sel e) (zip (mf_entries mf) segs))"
    by (simp add: selected_rows_def rng key_in_range_rows case_prod_beta)
  have seg_mem: "s \<in> set segs" if "(e, s) \<in> set (zip (mf_entries mf) segs)" for e s using that by (rule set_zip_rightD)
  obtain f where chk: "check_segments p segs = Ok ()" using base unfolding fold_base_Ok by blast
  then show "check_segments p (selected_rows vtag p pl (mf_entries mf) segs) = Ok ()"
    using seg_mem by (fastforce simp: check_segments_Ok selected_rows_def)
  show "set (concat (map segment_rows (selected_rows vtag p pl (mf_entries mf) segs))) \<subseteq> set (concat (map segment_rows segs))"
    unfolding part using seg_mem by fastforce
  fix k
  have empty: "of_key vtag p k (segment_rows s) = []"
    if es: "(e, s) \<in> set (zip (mf_entries mf) segs)" and pruned: "\<not> ?sel e" and k: "in_range rng k" for e s
  proof -
    obtain i where i: "i < length (mf_entries mf)" "mf_entries mf ! i = e" "segs ! i = s"
      using es by (auto simp: set_zip)
    obtain mn mx where dec: "decode_key vtag p (me_min_key e) = Ok mn" "decode_key vtag p (me_max_key e) = Ok mx"
      using plan_decodes [OF plan] i by (metis nth_mem)
    have "bounds_rows vtag p e s" using list_all2_nthD [OF bounds i(1)] i by simp
    then have "mn \<le> k \<and> k \<le> mx" if "x \<in> set (segment_rows s)" "version_key vtag p x = Some k" for x
      using that dec unfolding bounds_rows_def by blast
    moreover have "\<not> (mn \<le> k \<and> k \<le> mx)"
      using plan_selects [OF plan _ dec k] i pruned nth_mem [OF i(1)] by blast
    ultimately show ?thesis by (auto simp: of_key_def filter_empty_conv)
  qed
  have "concat (map (of_key vtag p k) (map (\<lambda>(_, s). filter ?keep (segment_rows s)) (filter (\<lambda>(e, _). ?sel e) zs))) =
      (if in_range rng k then concat (map (of_key vtag p k) (map (segment_rows \<circ> snd) zs)) else [])"
    if "\<forall>(e, s) \<in> set zs. \<not> ?sel e \<and> in_range rng k \<longrightarrow> of_key vtag p k (segment_rows s) = []" for zs
    using that by (induction zs) (auto simp: of_key_in_range)
  note zipped = this [of "zip (mf_entries mf) segs"]
  have "map (segment_rows \<circ> snd) (zip (mf_entries mf) segs) = map segment_rows segs" using len by (simp flip: map_map)
  then show "of_key vtag p k (concat (map segment_rows (selected_rows vtag p pl (mf_entries mf) segs))) =
      (if in_range rng k then of_key vtag p k (concat (map segment_rows segs)) else [])"
    unfolding of_key_concat part using zipped empty by fastforce
qed

text \<open>On the example table: the entries' bounds, a range that prunes one segment.\<close>

definition w_bounded :: "u8 list \<Rightarrow> u64 \<Rightarrow> u8 list \<Rightarrow> u8 list \<Rightarrow> manifest_entry" where
  "w_bounded ident g mn mx = \<lparr>me_segment_id = ident, me_role = Data, me_generation = g, me_schema = [2], me_encoder_version = [],
     me_relative_path = [], me_git_object_id = [], me_sha256 = [], me_min_key = mn, me_max_key = mx,
     me_min_event_time = None, me_max_event_time = None, me_row_count = 1, me_compressed_bytes = 0, me_columns = [],
     me_row_group_index = False, me_bloom = False\<rparr>"

definition w_scanned :: manifest where
  "w_scanned = \<lparr>mf_table = [1], mf_schema = [2], mf_next_generation = 3,
     mf_entries = [w_bounded [12] 2 [3] [3], w_bounded [11] 1 [3] [7]]\<rparr>"

definition w_range :: "u8 list key_range" where
  "w_range = \<lparr>kr_lower = Some ([3], False), kr_upper = None\<rparr>"

definition w_plan :: "u8 list scan_plan" where
  "w_plan = \<lparr>sp_table = [1], sp_schema = [2], sp_next_generation = 3, sp_selected_shards = [0], sp_pruned_shards = [],
     sp_selected_segments = [[11]], sp_pruned_segments = [[12]], sp_projected_field_ids = [w_id], sp_range = w_range\<rparr>"

lemma w_planned: "plan_compact_scan w_tags w_profile w_scanned w_range [] = Ok w_plan"
  by code_simp

theorem scan_plan_is_sound_witness:
  "plan_compact_scan w_tags w_profile w_scanned w_range [] = Ok w_plan
   \<and> mset (sp_selected_segments w_plan) + mset (sp_pruned_segments w_plan) = mset [[12], [11]]"
  using scan_plan_is_sound [OF w_planned] w_planned by (simp add: w_scanned_def w_bounded_def)

lemma w_bounds: "list_all2 (bounds_rows w_tags w_profile) (mf_entries w_scanned) w_segments"
proof -
  have keys: "version_key w_tags w_profile (2, Deletion, RInt 3, None) = Some [3]"
      "version_key w_tags w_profile (1, Data, RInt 7, Some (w_row 7)) = Some [7]"
      "version_key w_tags w_profile (1, Data, RInt 3, Some (w_row 3)) = Some [3]"
      "decode_key w_tags w_profile [3] = Ok [3]" "decode_key w_tags w_profile [7] = Ok [7]"
    by code_simp+
  show ?thesis
    by (auto simp: w_scanned_def w_segments_def w_bounded_def w_segment_def bounds_rows_def segment_rows_def keys)
qed

theorem pruned_scan_is_complete_witness:
  "fold_compact_committed_base w_tags w_profile (selected_rows w_tags w_profile w_plan (mf_entries w_scanned) w_segments) 3 =
     Ok (w_base\<lparr>cb_rows := [([7], \<lparr>br_key = RInt 7, br_value = Some (w_row 7), br_generation = 1, br_role = Data\<rparr>)]\<rparr>)"
proof -
  have "filter (\<lambda>(k, _). in_range w_range k) (cb_rows w_base) =
      [([7], \<lparr>br_key = RInt 7, br_value = Some (w_row 7), br_generation = 1, br_role = Data\<rparr>)]" by code_simp
  with pruned_scan_is_complete [OF w_base_fold w_planned w_bounds] show ?thesis by simp
qed

end
