(* ===== verification/Orna_Lowering.thy ===== *)
theory Orna_Lowering
  imports Orna_Publication Orna_Value_Laws
begin

text \<open>
  Lowering a publication freeze to compact writer input: \<open>lower_publication_freeze\<close> of
  \<open>crates/orna-storage/src/compact.rs\<close>, on the freeze of \<open>crates/orna-runtime/src/lib.rs\<close>.

  The freeze is checked mutation by mutation, then its digest is recomputed over a byte string that
  spells out the generation and every mutation. SHA-256 is the argument \<open>sha256\<close>.
\<close>

section \<open>Freezes\<close>

datatype publication_mutation_state = Replaced "u8 list" | Deleted

record equivalence_witness =
  ew_key_digest :: "u8 list"
  ew_value_digest :: "u8 list option"
  ew_candidate_digest :: "u8 list"

record freeze_mutation =
  fm_table_id :: "u8 list"
  fm_sequence :: u64
  fm_mutation_id :: "u8 list"
  fm_table :: string
  fm_logical_key :: "u8 list"
  fm_state :: publication_mutation_state
  fm_schema_fingerprint :: "u8 list"
  fm_row_encoding_identity :: publication_row_encoding
  fm_value_encoding_identity :: publication_value_encoding
  fm_candidate_generation :: u64
  fm_equivalence_witness :: equivalence_witness

record freeze_checkpoint =
  ck_generation :: u64
  ck_digest :: "u8 list"
  ck_mutation_sequence :: u64

record publication_freeze =
  fz_intent_id :: "u8 list"
  fz_checkpoint :: freeze_checkpoint
  fz_candidate_digest :: "u8 list"
  fz_mutations :: "freeze_mutation list"

section \<open>Lowering\<close>

datatype lowering_error =
    EmptyMutations | EmptyTable | WrongTable | WrongSchema | WrongRowEncoding | WrongValueEncoding | StaleGeneration
  | GenerationMismatch | SequenceOutOfOrder | DuplicateMutationId | LoweredDuplicateKey | InvalidKey compact_key_error
  | KeyWitnessMismatch | ValueWitnessMismatch | CandidateWitnessMismatch | CandidateDigestMismatch

definition candidate_prefix :: "u64 \<Rightarrow> u8 list" where
  "candidate_prefix generation = byte_string ''ORNA-COMPACT-CANDIDATE-1'' @ [0] @ to_be_bytes 8 (uint generation)"

text \<open>State, its byte and the value bytes of one mutation, after its value witness was compared.\<close>

definition lower_state ::
  "(u8 list \<Rightarrow> u8 list) \<Rightarrow> freeze_mutation \<Rightarrow> (lowering_error, writer_mutation_state \<times> u8 \<times> u8 list) result" where
  "lower_state sha256 m =
     (case fm_state m of
        Replaced v \<Rightarrow>
          if ew_value_digest (fm_equivalence_witness m) \<noteq> Some (sha256 v) then Err ValueWitnessMismatch
          else Ok (MReplacement v, 1, v)
      | Deleted \<Rightarrow>
          if ew_value_digest (fm_equivalence_witness m) \<noteq> None then Err ValueWitnessMismatch
          else Ok (MDeletion, 2, []))"

definition length_bytes :: "u8 list \<Rightarrow> (lowering_error, u8 list) result" where
  "length_bytes bs = (if int (length bs) < 18446744073709551616 then Ok (to_be_bytes 8 (int (length bs)))
                      else Err CandidateDigestMismatch)"

text \<open>The checks of one mutation before its key is decoded.\<close>

definition admit_mutation ::
  "'k profile \<Rightarrow> u64 \<Rightarrow> u64 \<Rightarrow> string option \<Rightarrow> u64 \<Rightarrow> u8 list btree_set \<Rightarrow> freeze_mutation \<Rightarrow> (lowering_error, unit) result" where
  "admit_mutation p generation sequence_limit table_name previous ids m =
     (if fm_table m = [] then Err EmptyTable
      else if table_name \<noteq> None \<and> table_name \<noteq> Some (fm_table m) then Err WrongTable
      else if fm_table_id m \<noteq> p_table_id p then Err WrongTable
      else if fm_schema_fingerprint m \<noteq> p_schema_fingerprint p then Err WrongSchema
      else if fm_row_encoding_identity m \<noteq> CompactOvb1 then Err WrongRowEncoding
      else if fm_value_encoding_identity m \<noteq> Ovb1 then Err WrongValueEncoding
      else if fm_candidate_generation m \<noteq> generation then Err GenerationMismatch
      else if fm_sequence m = 0 \<or> fm_sequence m \<le> previous \<or> sequence_limit < fm_sequence m then Err SequenceOutOfOrder
      else if bs_contains ids (fm_mutation_id m) then Err DuplicateMutationId
      else Ok ())"

text \<open>One turn of the loop: the lowered mutation and the bytes it adds to the candidate.\<close>

definition lower_mutation ::
  "(u8 list \<Rightarrow> u8 list) \<Rightarrow> tag_registry \<Rightarrow> 'k profile \<Rightarrow> freeze_mutation \<Rightarrow> (lowering_error, 'k writer_mutation \<times> u8 list) result" where
  "lower_mutation sha256 vtag p m =
     (case decode_key vtag p (fm_logical_key m) of
        Inl e \<Rightarrow> Err (InvalidKey e)
      | Inr key \<Rightarrow>
          if ew_key_digest (fm_equivalence_witness m) \<noteq> sha256 (fm_logical_key m) then Err KeyWitnessMismatch
          else (case lower_state sha256 m of
                  Inl e \<Rightarrow> Err e
                | Inr (st, state_byte, v) \<Rightarrow> (case length_bytes (fm_logical_key m) of
                    Inl e \<Rightarrow> Err e
                  | Inr key_length \<Rightarrow> (case length_bytes v of
                      Inl e \<Rightarrow> Err e
                    | Inr value_length \<Rightarrow>
                        Ok (\<lparr>wm_sequence = fm_sequence m, wm_mutation_id = fm_mutation_id m, wm_key = key, wm_state = st\<rparr>,
                            to_be_bytes 8 (uint (fm_sequence m)) @ key_length @ fm_logical_key m @ [state_byte]
                            @ value_length @ v)))))"

fun lower_mutations ::
  "(u8 list \<Rightarrow> u8 list) \<Rightarrow> tag_registry \<Rightarrow> 'k profile \<Rightarrow> u64 \<Rightarrow> u64 \<Rightarrow> string option \<Rightarrow> u64 \<Rightarrow> u8 list btree_set
     \<Rightarrow> freeze_mutation list \<Rightarrow> (lowering_error, 'k writer_mutation list \<times> u8 list) result" where
  "lower_mutations sha256 vtag p generation sequence_limit table_name previous ids [] = Ok ([], [])"
| "lower_mutations sha256 vtag p generation sequence_limit table_name previous ids (m # ms) =
     (case admit_mutation p generation sequence_limit table_name previous ids m of
        Inl e \<Rightarrow> Err e
      | Inr _ \<Rightarrow> (case lower_mutation sha256 vtag p m of
          Inl e \<Rightarrow> Err e
        | Inr (lowered, bytes) \<Rightarrow>
            (case lower_mutations sha256 vtag p generation sequence_limit (Some (fm_table m)) (fm_sequence m)
                    (bs_insert (fm_mutation_id m) ids) ms of
               Inl e \<Rightarrow> Err e
             | Inr (lowereds, tail) \<Rightarrow> Ok (lowered # lowereds, bytes @ tail))))"

definition lower_publication_freeze ::
  "(u8 list \<Rightarrow> u8 list) \<Rightarrow> tag_registry \<Rightarrow> 'k profile \<Rightarrow> publication_freeze \<Rightarrow> (lowering_error, 'k writer_input) result" where
  "lower_publication_freeze sha256 vtag p freeze =
     (case fz_mutations freeze of
        [] \<Rightarrow> Err EmptyMutations
      | first # _ \<Rightarrow>
          let generation = fm_candidate_generation first in
          if generation = 0 \<or> generation \<noteq> ck_generation (fz_checkpoint freeze) then Err StaleGeneration
          else (case lower_mutations sha256 vtag p generation (ck_mutation_sequence (fz_checkpoint freeze)) None 0 []
                       (fz_mutations freeze) of
                  Inl e \<Rightarrow> Err e
                | Inr (lowered, bytes) \<Rightarrow>
                    if list_ex (\<lambda>m. ew_candidate_digest (fm_equivalence_witness m) \<noteq> fz_candidate_digest freeze) (fz_mutations freeze)
                    then Err CandidateWitnessMismatch
                    else if sha256 (candidate_prefix generation @ bytes) \<noteq> fz_candidate_digest freeze
                    then Err CandidateDigestMismatch
                    else Ok \<lparr>wi_table_id = p_table_id p, wi_schema_fingerprint = p_schema_fingerprint p,
                             wi_candidate_generation = generation, wi_row_encoding_identity = CompactOvb1,
                             wi_value_encoding_identity = Ovb1, wi_mutations = lowered,
                             wi_candidate_digest = sha256 (candidate_prefix generation @ bytes)\<rparr>))"

section \<open>What the digest binds\<close>

definition state_wire :: "publication_mutation_state \<Rightarrow> u8 list" where
  "state_wire st = (case st of Replaced v \<Rightarrow> 1 # to_be_bytes 8 (int (length v)) @ v | Deleted \<Rightarrow> 2 # to_be_bytes 8 0)"

definition wire :: "u64 \<times> u8 list \<times> publication_mutation_state \<Rightarrow> u8 list" where
  "wire c = (case c of (n, key, st) \<Rightarrow>
     to_be_bytes 8 (uint n) @ to_be_bytes 8 (int (length key)) @ key @ state_wire st)"

definition content :: "freeze_mutation \<Rightarrow> u64 \<times> u8 list \<times> publication_mutation_state" where
  "content m = (fm_sequence m, fm_logical_key m, fm_state m)"

definition candidate_bytes :: "publication_freeze \<Rightarrow> u8 list" where
  "candidate_bytes freeze =
     candidate_prefix (ck_generation (fz_checkpoint freeze)) @ concat (map (wire \<circ> content) (fz_mutations freeze))"

fun short_state :: "publication_mutation_state \<Rightarrow> bool" where
  "short_state (Replaced v) \<longleftrightarrow> int (length v) < 2 ^ 64"
| "short_state Deleted \<longleftrightarrow> True"

definition short :: "u64 \<times> u8 list \<times> publication_mutation_state \<Rightarrow> bool" where
  "short c \<longleftrightarrow> int (length (fst (snd c))) < 2 ^ 64 \<and> short_state (snd (snd c))"

lemma be_inj: "to_be_bytes 8 a = to_be_bytes 8 b \<longleftrightarrow> a = b" if "0 \<le> a" "a < 2 ^ 64" "0 \<le> b" "b < 2 ^ 64"
proof
  have "(2 :: int) ^ 64 = 256 ^ 8" by simp
  then have "from_be_bytes (to_be_bytes 8 a) = a" "from_be_bytes (to_be_bytes 8 b) = b"
    using that by (metis from_to_be_bytes)+
  then show "a = b" if "to_be_bytes 8 a = to_be_bytes 8 b" using that by metis
qed simp

lemma be_inj_word: "to_be_bytes 8 (uint (a :: u64)) = to_be_bytes 8 (uint b) \<longleftrightarrow> a = b"
  using be_inj [of "uint a" "uint b"] by (simp add: word_uint_eq_iff uint_lt2p [where 'a = 64, simplified])

lemma state_wire_prefix:
  assumes "state_wire a @ xs = state_wire b @ ys" and "short_state a" and "short_state b"
  shows "a = b \<and> xs = ys"
proof (cases a; cases b)
  fix v w assume v: "a = Replaced v" "b = Replaced w"
  with assms have "to_be_bytes 8 (int (length v)) @ v @ xs = to_be_bytes 8 (int (length w)) @ w @ ys"
    by (simp add: state_wire_def del: to_be_bytes_Suc)
  then have len: "to_be_bytes 8 (int (length v)) = to_be_bytes 8 (int (length w))" and tail: "v @ xs = w @ ys"
    by (simp_all add: append_eq_append_conv del: to_be_bytes_Suc)
  have "length v = length w" using len assms(2,3) v be_inj [of "int (length v)" "int (length w)"] by simp
  with tail v show ?thesis by (simp add: append_eq_append_conv)
qed (use assms in \<open>simp_all add: state_wire_def append_eq_append_conv del: to_be_bytes_Suc\<close>)

lemma wire_prefix:
  assumes "wire a @ xs = wire b @ ys" and "short a" and "short b"
  shows "a = b \<and> xs = ys"
proof -
  obtain n k st n' k' st' where a: "a = (n, k, st)" and b: "b = (n', k', st')" by (cases a; cases b) auto
  have "to_be_bytes 8 (uint n) @ to_be_bytes 8 (int (length k)) @ k @ state_wire st @ xs =
      to_be_bytes 8 (uint n') @ to_be_bytes 8 (int (length k')) @ k' @ state_wire st' @ ys"
    using assms(1) by (simp add: wire_def a b)
  then have n: "to_be_bytes 8 (uint n) = to_be_bytes 8 (uint n')"
      and k: "to_be_bytes 8 (int (length k)) = to_be_bytes 8 (int (length k'))"
      and tail: "k @ state_wire st @ xs = k' @ state_wire st' @ ys"
    by (simp_all add: append_eq_append_conv del: to_be_bytes_Suc)
  have "n = n'" using n by (simp only: be_inj_word)
  moreover have "length k = length k'"
    using k assms(2,3) be_inj [of "int (length k)" "int (length k')"] by (simp add: short_def a b)
  then have "k = k'" "state_wire st @ xs = state_wire st' @ ys" using tail by (simp_all add: append_eq_append_conv)
  ultimately show ?thesis
    using state_wire_prefix [of st xs st' ys] assms(2,3) by (simp add: a b short_def)
qed

lemma wire_nonempty: "wire c \<noteq> []"
proof -
  have "8 \<le> length (wire c)" by (simp add: wire_def case_prod_beta del: to_be_bytes_Suc)
  then show ?thesis by auto
qed

lemma wires_inj:
  "concat (map wire as) = concat (map wire bs) \<Longrightarrow> list_all short as \<Longrightarrow> list_all short bs \<Longrightarrow> as = bs"
proof (induction as arbitrary: bs)
  case Nil
  then show ?case by (cases bs) (auto simp: wire_nonempty)
next
  case (Cons a as)
  then obtain b bs' where bs: "bs = b # bs'" by (cases bs) (auto simp: wire_nonempty)
  with Cons.prems wire_prefix [of a "concat (map wire as)" b "concat (map wire bs')"] Cons.IH [of bs'] show ?case by simp
qed

section \<open>What a lowered freeze is\<close>

definition lowered_mutation :: "'k profile \<Rightarrow> freeze_mutation \<Rightarrow> 'k writer_mutation" where
  "lowered_mutation p m = \<lparr>wm_sequence = fm_sequence m, wm_mutation_id = fm_mutation_id m,
     wm_key = p_identity p (fm_logical_key m),
     wm_state = (case fm_state m of Replaced v \<Rightarrow> MReplacement v | Deleted \<Rightarrow> MDeletion)\<rparr>"

lemma lower_mutation_Ok:
  assumes "lower_mutation sha256 vtag p m = Ok (lowered, bytes)"
  shows "lowered = lowered_mutation p m \<and> bytes = wire (content m) \<and> short (content m)"
proof -
  obtain key where key: "decode_key vtag p (fm_logical_key m) = Ok key"
    using assms by (auto simp: lower_mutation_def split: sum.splits)
  have "key = p_identity p (fm_logical_key m)" using decode_key_Ok [OF key] by simp
  with assms key show ?thesis
    by (auto simp: lower_mutation_def lower_state_def length_bytes_def lowered_mutation_def wire_def state_wire_def
        content_def short_def simp del: to_be_bytes_Suc
        split: if_splits publication_mutation_state.splits)
qed

lemma lower_mutations_Ok:
  "lower_mutations sha256 vtag p generation lim name previous ids ms = Ok (ls, bytes) \<Longrightarrow>
   ls = map (lowered_mutation p) ms \<and> bytes = concat (map (wire \<circ> content) ms) \<and> list_all (short \<circ> content) ms
   \<and> sorted_wrt (<) (previous # map fm_sequence ms)"
proof (induction sha256 vtag p generation lim name previous ids ms arbitrary: ls bytes rule: lower_mutations.induct)
  case (2 sha256 vtag p generation lim name previous ids m ms)
  obtain l b ls' bs' where admit: "admit_mutation p generation lim name previous ids m = Ok ()"
      and one: "lower_mutation sha256 vtag p m = Ok (l, b)"
      and more: "lower_mutations sha256 vtag p generation lim (Some (fm_table m)) (fm_sequence m) (bs_insert (fm_mutation_id m) ids) ms
        = Ok (ls', bs')"
      and out: "ls = l # ls'" "bytes = b @ bs'"
    using "2.prems" by (auto split: sum.splits prod.splits)
  have "previous < fm_sequence m" using admit by (auto simp: admit_mutation_def split: if_splits)
  with "2.IH" [OF admit one _ more] lower_mutation_Ok [OF one] out show ?case by auto
qed simp

lemma lower_freeze_Ok:
  assumes "lower_publication_freeze sha256 vtag p freeze = Ok i"
  shows "wi_mutations i = map (lowered_mutation p) (fz_mutations freeze)
    \<and> wi_candidate_generation i = ck_generation (fz_checkpoint freeze)
    \<and> wi_table_id i = p_table_id p \<and> wi_schema_fingerprint i = p_schema_fingerprint p
    \<and> sha256 (candidate_bytes freeze) = fz_candidate_digest freeze
    \<and> list_all (short \<circ> content) (fz_mutations freeze)
    \<and> sorted_wrt (<) (0 # map fm_sequence (fz_mutations freeze))"
proof -
  obtain ls bytes where gen: "fm_candidate_generation (hd (fz_mutations freeze)) = ck_generation (fz_checkpoint freeze)"
      and loop: "lower_mutations sha256 vtag p (ck_generation (fz_checkpoint freeze)) (ck_mutation_sequence (fz_checkpoint freeze))
        None 0 [] (fz_mutations freeze) = Ok (ls, bytes)"
      and digest: "sha256 (candidate_prefix (ck_generation (fz_checkpoint freeze)) @ bytes) = fz_candidate_digest freeze"
      and i: "wi_mutations i = ls" "wi_candidate_generation i = ck_generation (fz_checkpoint freeze)"
        "wi_table_id i = p_table_id p" "wi_schema_fingerprint i = p_schema_fingerprint p"
    using assms by (auto simp: lower_publication_freeze_def Let_def split: list.splits if_splits sum.splits prod.splits)
  from lower_mutations_Ok [OF loop] digest i show ?thesis by (simp add: candidate_bytes_def)
qed

text \<open>
  C24. The digest of a freeze binds its generation and its mutations. If two freezes lower under one digest,
  and the hash does not collide on their two candidate strings, they have the same generation and
  the same mutations: sequence numbers, keys and values, in the same order. (Mutation identities are not covered.)
\<close>

theorem freeze_digest_binds:
  assumes "lower_publication_freeze sha256 vtag p f = Ok i" and "lower_publication_freeze sha256 vtag p g = Ok j"
    and "fz_candidate_digest f = fz_candidate_digest g"
    and "sha256 (candidate_bytes f) = sha256 (candidate_bytes g) \<longrightarrow> candidate_bytes f = candidate_bytes g"
  shows "wi_candidate_generation i = wi_candidate_generation j
    \<and> map (\<lambda>m. (wm_sequence m, wm_key m, wm_state m)) (wi_mutations i) =
      map (\<lambda>m. (wm_sequence m, wm_key m, wm_state m)) (wi_mutations j)"
proof -
  note f = lower_freeze_Ok [OF assms(1)] and g = lower_freeze_Ok [OF assms(2)]
  let ?gen = "\<lambda>x. ck_generation (fz_checkpoint x)"
  have "candidate_bytes f = candidate_bytes g" using f g assms(3,4) by simp
  then have gen: "to_be_bytes 8 (uint (?gen f)) = to_be_bytes 8 (uint (?gen g))"
      and wires: "concat (map wire (map content (fz_mutations f))) = concat (map wire (map content (fz_mutations g)))"
    by (simp_all add: candidate_bytes_def candidate_prefix_def append_eq_append_conv del: to_be_bytes_Suc)
  have "map content (fz_mutations f) = map content (fz_mutations g)"
    using f g by (intro wires_inj [OF wires]) (simp_all add: list_all_iff)
  then have "map (\<lambda>(n, key, st). (n, p_identity p key, case st of Replaced v \<Rightarrow> MReplacement v | Deleted \<Rightarrow> MDeletion))
        (map content (fz_mutations f)) =
      map (\<lambda>(n, key, st). (n, p_identity p key, case st of Replaced v \<Rightarrow> MReplacement v | Deleted \<Rightarrow> MDeletion))
        (map content (fz_mutations g))" by simp
  then have "map (\<lambda>m. (wm_sequence m, wm_key m, wm_state m)) (map (lowered_mutation p) (fz_mutations f)) =
      map (\<lambda>m. (wm_sequence m, wm_key m, wm_state m)) (map (lowered_mutation p) (fz_mutations g))"
    unfolding map_map comp_def content_def lowered_mutation_def writer_mutation.simps prod.case .
  moreover have "?gen f = ?gen g"
    using gen by (simp only: be_inj_word)
  ultimately show ?thesis using f g by simp
qed

lemma latest_sorted:
  "sorted_wrt (<) (previous # map wm_sequence ms) \<Longrightarrow> \<exists>l. latest_mutations previous latest ms = Ok l"
proof (induction previous latest ms rule: latest_mutations.induct)
  case (2 previous latest m ms)
  have "wm_sequence m \<noteq> 0" "\<not> wm_sequence m \<le> previous" using "2.prems" by (auto simp: not_le)
  with 2 show ?case by simp
qed simp

lemma distinct_keys_iff: "distinct_keys keys ks \<longleftrightarrow> distinct ks \<and> set ks \<inter> set keys = {}"
  by (induction keys ks rule: distinct_keys.induct) auto

lemma lowered_freeze_folds:
  assumes "lower_publication_freeze sha256 vtag p f = Ok i"
    and "cb_table_id b = p_table_id p" and "cb_schema_fingerprint b = p_schema_fingerprint p"
    and "ck_generation (fz_checkpoint f) = cb_next_generation b"
  shows "\<exists>o'. fold_writer_input b i = Ok o'"
proof -
  note f = lower_freeze_Ok [OF assms(1)]
  have "map wm_sequence (wi_mutations i) = map fm_sequence (fz_mutations f)"
    using f by (simp add: lowered_mutation_def)
  then have "sorted_wrt (<) (0 # map wm_sequence (wi_mutations i))" using f by argo
  then obtain l where l: "latest_mutations 0 [] (wi_mutations i) = Ok l"
    using latest_sorted by blast
  have "validate_writer_input_identity b x = Ok ()"
    if "wi_table_id x = wi_table_id i" "wi_schema_fingerprint x = wi_schema_fingerprint i"
      "wi_candidate_generation x = wi_candidate_generation i" for x :: "'a writer_input"
    using f assms(2-4) that by (simp add: validate_writer_input_identity_def)
  then show ?thesis
    using l latest_distinct [OF l, of "mutation_matters (cb_rows b)"]
    by (simp add: fold_writer_input_def Let_def validate_writer_input_def distinct_keys_iff)
qed

lemma stale_freeze:
  assumes "lower_publication_freeze sha256 vtag p f = Ok i"
    and "cb_table_id b = p_table_id p" and "cb_schema_fingerprint b = p_schema_fingerprint p"
    and "ck_generation (fz_checkpoint f) \<noteq> cb_next_generation b"
  shows "prepare_writer_batch vtag p b i = Err projection_error.StaleGeneration"
  using lower_freeze_Ok [OF assms(1)] assms(2-4)
  by (simp add: prepare_writer_batch_def fold_writer_input_def validate_writer_input_identity_def)

text \<open>
  C21. Runtime, freeze, writer and reader together. For a freeze that lowers with the profile of a committed base's
  table, \<open>prepare_writer_batch\<close> refuses another generation than the base's next one as stale. For the next
  generation it never refuses the order, the identities or the keys, and it gives a batch exactly when, for every
  key whose last frozen mutation is a replacement, that replacement is a complete row of the key
  (\<open>validate_complete_writer_row\<close>: it decodes, its key fields are those of the key, its fields are the schema's);
  an error is the one of such a row. When it gives a batch, the batch applies, its segments commit and
  fold again, and both give the rows of running the frozen mutations in order.
\<close>

theorem freeze_publishes:
  assumes "profile_ok p" and "fold_compact_committed_base vtag p segs ng = Ok b"
    and "lower_publication_freeze sha256 vtag p f = Ok i"
  shows "(if ck_generation (fz_checkpoint f) \<noteq> ng then prepare_writer_batch vtag p b i = Err projection_error.StaleGeneration
     else ((\<exists>batch. prepare_writer_batch vtag p b i = Ok batch)
             \<longleftrightarrow> final_rows_complete vtag p (map (lowered_mutation p) (fz_mutations f)))
       \<and> (\<forall>e. prepare_writer_batch vtag p b i = Err e \<longrightarrow>
            (\<exists>m bytes. last_mutation (map (lowered_mutation p) (fz_mutations f)) (wm_key m) = Some m
               \<and> wm_state m = MReplacement bytes \<and> validate_complete_writer_row vtag p (wm_key m) bytes = Err e)))
    \<and> (\<forall>batch later. prepare_writer_batch vtag p b i = Ok batch \<and> ng < later \<longrightarrow>
        (\<exists>applied reloaded. apply_writer_batch vtag p b batch = Ok applied
           \<and> fold_compact_committed_base vtag p (segs @ batch_segments vtag batch) later = Ok reloaded
           \<and> logical applied = run_mutations vtag (map (lowered_mutation p) (fz_mutations f)) (logical b)
           \<and> has_same_logical_rows applied reloaded))" (is "?decision \<and> _")
proof -
  have b: "cb_table_id b = p_table_id p" "cb_schema_fingerprint b = p_schema_fingerprint p" "cb_next_generation b = ng"
    using assms(2) unfolding fold_base_Ok by auto
  have ms: "wi_mutations i = map (lowered_mutation p) (fz_mutations f)" using lower_freeze_Ok [OF assms(3)] by blast
  note decides = prepare_decides [of b i _ p, OF _ b(1,2) [symmetric], unfolded ms]
  have ?decision
  proof (cases "ck_generation (fz_checkpoint f) = ng")
    case False
    with stale_freeze [OF assms(3) b(1,2)] b(3) show ?thesis by simp
  next
    case True
    then obtain o' where "fold_writer_input b i = Ok o'"
      using lowered_freeze_folds [OF assms(3) b(1,2)] b(3) by auto
    from decides [OF this] True show ?thesis by simp
  qed
  with publication_reloads [OF assms(1,2)] show ?thesis unfolding ms [symmetric] by blast
qed

section \<open>An example freeze\<close>

text \<open>On the example table, with the identity as the hash; the argument is the first mutation's identity.\<close>

definition w_frozen_content :: "(u64 \<times> u8 list \<times> publication_mutation_state) list" where
  "w_frozen_content = [(1, [3], Replaced (w_bytes 3)), (2, [7], Deleted)]"

definition w_frozen_digest :: "u8 list" where
  "w_frozen_digest = candidate_prefix 3 @ concat (map wire w_frozen_content)"

definition w_frozen :: "u8 list \<Rightarrow> u64 \<Rightarrow> u8 list \<Rightarrow> publication_mutation_state \<Rightarrow> freeze_mutation" where
  "w_frozen ident n key st = \<lparr>fm_table_id = [1], fm_sequence = n, fm_mutation_id = ident, fm_table = ''t'', fm_logical_key = key,
     fm_state = st, fm_schema_fingerprint = [2], fm_row_encoding_identity = CompactOvb1, fm_value_encoding_identity = Ovb1,
     fm_candidate_generation = 3, fm_equivalence_witness = \<lparr>ew_key_digest = key,
       ew_value_digest = (case st of Replaced v \<Rightarrow> Some v | Deleted \<Rightarrow> None), ew_candidate_digest = w_frozen_digest\<rparr>\<rparr>"

definition w_freeze :: "u8 list \<Rightarrow> publication_freeze" where
  "w_freeze ident = \<lparr>fz_intent_id = [], fz_checkpoint = \<lparr>ck_generation = 3, ck_digest = [], ck_mutation_sequence = 2\<rparr>,
     fz_candidate_digest = w_frozen_digest,
     fz_mutations = [w_frozen ident 1 [3] (Replaced (w_bytes 3)), w_frozen [8] 2 [7] Deleted]\<rparr>"

definition w_lowered :: "u8 list \<Rightarrow> u8 list writer_input" where
  "w_lowered ident = \<lparr>wi_table_id = [1], wi_schema_fingerprint = [2], wi_candidate_generation = 3,
     wi_row_encoding_identity = CompactOvb1, wi_value_encoding_identity = Ovb1,
     wi_mutations = [\<lparr>wm_sequence = 1, wm_mutation_id = ident, wm_key = [3], wm_state = MReplacement (w_bytes 3)\<rparr>,
       \<lparr>wm_sequence = 2, wm_mutation_id = [8], wm_key = [7], wm_state = MDeletion\<rparr>],
     wi_candidate_digest = w_frozen_digest\<rparr>"

lemma w_freeze_lowers:
  "lower_publication_freeze (\<lambda>b. b) w_tags w_profile (w_freeze [5]) = Ok (w_lowered [5])"
  "lower_publication_freeze (\<lambda>b. b) w_tags w_profile (w_freeze [6]) = Ok (w_lowered [6])"
  by code_simp+

theorem freeze_digest_binds_witness:
  "wi_mutations (w_lowered [5]) \<noteq> wi_mutations (w_lowered [6])
   \<and> map (\<lambda>m. (wm_sequence m, wm_key m, wm_state m)) (wi_mutations (w_lowered [5])) =
     map (\<lambda>m. (wm_sequence m, wm_key m, wm_state m)) (wi_mutations (w_lowered [6]))"
proof -
  have "fz_candidate_digest (w_freeze [5]) = fz_candidate_digest (w_freeze [6])" by (simp add: w_freeze_def)
  from freeze_digest_binds [OF w_freeze_lowers this] show ?thesis by (simp add: w_lowered_def)
qed

text \<open>The example freeze publishes; with the row of another key in the place of the first it lowers and is refused.\<close>

definition w_mismatched_digest :: "u8 list" where
  "w_mismatched_digest = candidate_prefix 3 @ wire (1, [3], Replaced (w_bytes 4))"

definition w_mismatched :: publication_freeze where
  "w_mismatched = \<lparr>fz_intent_id = [], fz_checkpoint = \<lparr>ck_generation = 3, ck_digest = [], ck_mutation_sequence = 1\<rparr>,
     fz_candidate_digest = w_mismatched_digest,
     fz_mutations = [(w_frozen [5] 1 [3] (Replaced (w_bytes 4)))
       \<lparr>fm_equivalence_witness := \<lparr>ew_key_digest = [3], ew_value_digest = Some (w_bytes 4),
          ew_candidate_digest = w_mismatched_digest\<rparr>\<rparr>]\<rparr>"

theorem freeze_publishes_witness:
  "final_rows_complete w_tags w_profile (map (lowered_mutation w_profile) (fz_mutations (w_freeze [5])))
   \<and> \<not> final_rows_complete w_tags w_profile (map (lowered_mutation w_profile) (fz_mutations w_mismatched))
   \<and> (\<exists>applied reloaded. apply_writer_batch w_tags w_profile w_base w_batch = Ok applied
        \<and> fold_compact_committed_base w_tags w_profile (w_segments @ batch_segments w_tags w_batch) 4 = Ok reloaded
        \<and> logical applied = run_mutations w_tags (map (lowered_mutation w_profile) (fz_mutations (w_freeze [5]))) (logical w_base)
        \<and> has_same_logical_rows applied reloaded)"
proof -
  have ok: "profile_ok w_profile" by (simp add: profile_ok_def w_profile_def)
  have batch: "prepare_writer_batch w_tags w_profile w_base (w_lowered [5]) = Ok w_batch" by code_simp
  obtain j where j: "lower_publication_freeze (\<lambda>b. b) w_tags w_profile w_mismatched = Ok j"
      "prepare_writer_batch w_tags w_profile w_base j = Err InvalidEvolutionKey"
  proof -
    have "(case lower_publication_freeze (\<lambda>b. b) w_tags w_profile w_mismatched of
        Inl _ \<Rightarrow> False | Inr j \<Rightarrow> prepare_writer_batch w_tags w_profile w_base j = Err InvalidEvolutionKey)"
      by code_simp
    then show thesis using that by (auto split: sum.splits)
  qed
  have gen: "ck_generation (fz_checkpoint (w_freeze [5])) = 3" "ck_generation (fz_checkpoint w_mismatched) = 3"
    by (simp_all add: w_freeze_def w_mismatched_def)
  note good = freeze_publishes [OF ok w_base_fold w_freeze_lowers(1)]
    and bad = freeze_publishes [OF ok w_base_fold j(1)]
  have "final_rows_complete w_tags w_profile (map (lowered_mutation w_profile) (fz_mutations (w_freeze [5])))"
    using good [THEN conjunct1] batch gen by auto
  moreover have "\<not> final_rows_complete w_tags w_profile (map (lowered_mutation w_profile) (fz_mutations w_mismatched))"
    using bad [THEN conjunct1] j(2) gen by auto
  ultimately show ?thesis using good [THEN conjunct2, rule_format, of w_batch 4] batch by simp
qed

end
