(* ===== verification/Orna_Rekey.thy ===== *)
theory Orna_Rekey
  imports Orna_Publication Orna_Evolution
begin

text \<open>
  Evolution plans on stored rows: \<open>apply_migration_plan_to_compact\<close> and
  \<open>HybridBaseState::apply_evolution_plan\<close> of \<open>crates/orna-storage/src/compact.rs\<close>.

  A re-key rewrites the key fields inside the row (\<open>rewrite_rekey_row_value\<close>). On a compact row it becomes a
  deletion and a replacement for the writer, on an editable row a move, which the path authority must
  approve; that authority is the argument \<open>approve\<close>, a state with one call.
\<close>

section \<open>Rewriting the key fields of a row\<close>

definition key_position :: "'k profile \<Rightarrow> u8 list \<Rightarrow> nat option" where
  "key_position p i = find (\<lambda>n. key_field_ids p ! n = i) [0..<length (key_field_ids p)]"

text \<open>
  The loop over the fields. \<open>decode_key_components\<close> gives one component per key field, so the indexing
  of the code stays in range; out of range it would panic, which is the error \<open>MissingBaseValue\<close> here.
\<close>

fun rewrite_fields ::
  "'k profile \<Rightarrow> raw list \<Rightarrow> raw list \<Rightarrow> u8 list btree_set \<Rightarrow> raw list \<Rightarrow> (projection_error, raw list \<times> u8 list btree_set) result" where
  "rewrite_fields p old new seen [] = Ok ([], seen)"
| "rewrite_fields p old new seen (f # fs) =
     (case f of
        RArray [field_id, field_value] \<Rightarrow>
          (case raw_uuid field_id of
             None \<Rightarrow> Err InvalidEvolutionValue
           | Some i \<Rightarrow>
               (case key_position p i of
                  None \<Rightarrow>
                    (case rewrite_fields p old new seen fs of
                       Inl e \<Rightarrow> Err e
                     | Inr (rest, seen') \<Rightarrow> Ok (RArray [field_id, field_value] # rest, seen'))
                | Some n \<Rightarrow>
                    if bs_contains seen i then Err InvalidEvolutionValue
                    else if length old \<le> n \<or> length new \<le> n then Err MissingBaseValue
                    else if field_value \<noteq> old ! n then Err InvalidEvolutionValue
                    else (case rewrite_fields p old new (bs_insert i seen) fs of
                            Inl e \<Rightarrow> Err e
                          | Inr (rest, seen') \<Rightarrow> Ok (RArray [field_id, new ! n] # rest, seen'))))
      | _ \<Rightarrow> Err InvalidEvolutionValue)"

definition rewrite_rekey_row_value ::
  "tag_registry \<Rightarrow> 'k profile \<Rightarrow> 'k \<Rightarrow> 'k \<Rightarrow> raw \<Rightarrow> (projection_error, raw) result" where
  "rewrite_rekey_row_value vtag p old_key new_key v =
     (case (decode_key_components vtag p old_key, decode_key_components vtag p new_key) of
        (Some old, Some new) \<Rightarrow>
          (case v of
             RTag n (RArray [row_type, RArray row]) \<Rightarrow>
               if n \<noteq> 60009 then Err InvalidEvolutionValue
               else (case rewrite_fields p old new [] row of
                       Inl e \<Rightarrow> Err e
                     | Inr (rewritten, seen) \<Rightarrow>
                         if length seen \<noteq> length (p_key_fields p) then Err InvalidEvolutionValue
                         else (case value_new vtag (RTag 60009 (RArray [row_type, RArray rewritten])) of
                                 Inl _ \<Rightarrow> Err InvalidEvolutionValue
                               | Inr w \<Rightarrow> Ok w))
           | _ \<Rightarrow> Err InvalidEvolutionValue)
      | _ \<Rightarrow> Err InvalidEvolutionKey)"

section \<open>Plans on a compact base\<close>

definition zero_id :: "u8 list" where
  "zero_id = replicate 16 0"

definition evolution_key :: "tag_registry \<Rightarrow> 'k profile \<Rightarrow> raw \<Rightarrow> (projection_error, 'k) result" where
  "evolution_key vtag p v =
     (case encode_raw vtag v of
        Inl _ \<Rightarrow> Err InvalidEvolutionKey
      | Inr bytes \<Rightarrow> (case decode_key vtag p bytes of Inl _ \<Rightarrow> Err InvalidEvolutionKey | Inr k \<Rightarrow> Ok k))"

text \<open>The row of one re-key of a compact base: its old and new identity and its rewritten bytes.\<close>

definition compact_rekey ::
  "tag_registry \<Rightarrow> ('k::linorder) profile \<Rightarrow> ('k, base_row) btree_map \<Rightarrow> 'k btree_set \<Rightarrow> raw \<Rightarrow> raw
     \<Rightarrow> (projection_error, 'k \<times> 'k \<times> u8 list) result" where
  "compact_rekey vtag p rows targets old_key new_key =
     (case evolution_key vtag p old_key of
        Inl e \<Rightarrow> Err e
      | Inr old \<Rightarrow> (case evolution_key vtag p new_key of
          Inl e \<Rightarrow> Err e
        | Inr new \<Rightarrow> (case bm_get rows old of
            None \<Rightarrow> Err MissingBaseKey
          | Some row \<Rightarrow> (case br_value row of
              None \<Rightarrow> Err MissingBaseValue
            | Some v \<Rightarrow>
                if old = new \<or> visible rows new \<or> bs_contains targets new then Err DuplicateEvolutionKey
                else (case rewrite_rekey_row_value vtag p old new v of
                        Inl e \<Rightarrow> Err e
                      | Inr rewritten \<Rightarrow> (case encode_raw vtag rewritten of
                          Inl _ \<Rightarrow> Err InvalidEvolutionValue
                        | Inr bytes \<Rightarrow> Ok (old, new, bytes)))))))"

definition rekey_mutations :: "u64 \<Rightarrow> u8 list \<Rightarrow> u8 list \<Rightarrow> 'k \<Rightarrow> 'k \<Rightarrow> u8 list \<Rightarrow> 'k writer_mutation list" where
  "rekey_mutations n deletion_id replacement_id old new bytes =
     [\<lparr>wm_sequence = n, wm_mutation_id = deletion_id, wm_key = old, wm_state = MDeletion\<rparr>,
      \<lparr>wm_sequence = n + 1, wm_mutation_id = replacement_id, wm_key = new, wm_state = MReplacement bytes\<rparr>]"

fun compact_operations ::
  "tag_registry \<Rightarrow> ('k::linorder) profile \<Rightarrow> ('k, base_row) btree_map \<Rightarrow> nat \<Rightarrow> u8 list btree_set \<Rightarrow> 'k btree_set
     \<Rightarrow> (migration_operation \<times> u8 list \<times> u8 list) list \<Rightarrow> (projection_error, 'k writer_mutation list) result" where
  "compact_operations vtag p rows index ids targets [] = Ok []"
| "compact_operations vtag p rows index ids targets ((operation, deletion_id, replacement_id) # rest) =
     (case operation of
        RekeyRow table old_key new_key \<Rightarrow>
          if table \<noteq> p_table_id p \<or> deletion_id = zero_id \<or> replacement_id = zero_id
             \<or> bs_contains ids deletion_id \<or> bs_contains (bs_insert deletion_id ids) replacement_id
          then Err WrongTable
          else (case compact_rekey vtag p rows targets old_key new_key of
                  Inl e \<Rightarrow> Err e
                | Inr (old, new, bytes) \<Rightarrow>
                    if 18446744073709551616 \<le> int index * 2 + 2 then Err EvolutionInputMismatch
                    else (case compact_operations vtag p rows (index + 1) (bs_insert replacement_id (bs_insert deletion_id ids))
                                 (bs_insert new targets) rest of
                            Inl e \<Rightarrow> Err e
                          | Inr ms \<Rightarrow> Ok (rekey_mutations (of_nat index * 2 + 1) deletion_id replacement_id old new bytes @ ms)))
      | _ \<Rightarrow> Err UnsupportedEvolutionOperation)"

fun id_pairs :: "u8 list list \<Rightarrow> (u8 list \<times> u8 list) list" where
  "id_pairs (a # b # ids) = (a, b) # id_pairs ids"
| "id_pairs _ = []"

definition evolution_input :: "'k profile \<Rightarrow> u64 \<Rightarrow> u8 list \<Rightarrow> 'k writer_mutation list \<Rightarrow> 'k writer_input" where
  "evolution_input p candidate_generation candidate_digest ms =
     \<lparr>wi_table_id = p_table_id p, wi_schema_fingerprint = p_schema_fingerprint p,
      wi_candidate_generation = candidate_generation, wi_row_encoding_identity = CompactOvb1,
      wi_value_encoding_identity = Ovb1, wi_mutations = ms, wi_candidate_digest = candidate_digest\<rparr>"

definition apply_migration_plan_to_compact ::
  "tag_registry \<Rightarrow> ('k::linorder) profile \<Rightarrow> 'k base_state \<Rightarrow> migration_operation list \<Rightarrow> u64 \<Rightarrow> u8 list list \<Rightarrow> u8 list
     \<Rightarrow> (projection_error, 'k writer_input) result" where
  "apply_migration_plan_to_compact vtag p b ops candidate_generation mutation_ids candidate_digest =
     (if length mutation_ids \<noteq> length ops * 2 \<or> candidate_generation = 0 then Err EvolutionInputMismatch
      else (case compact_operations vtag p (cb_rows b) 0 [] [] (zip ops (id_pairs mutation_ids)) of
              Inl e \<Rightarrow> Err e
            | Inr ms \<Rightarrow>
                let input = evolution_input p candidate_generation candidate_digest ms
                in (case consume_writer_input b input of Inl e \<Rightarrow> Err e | Inr _ \<Rightarrow> Ok input)))"

section \<open>Plans on a hybrid base\<close>

record hybrid_rekey =
  hr_old_key :: raw
  hr_new_key :: raw

record 'k editable_rekey =
  er_old_key :: 'k
  er_new_key :: 'k
  er_value :: raw

record 'k hybrid_evolution =
  he_compact_writer_input :: "'k writer_input option"
  he_editable_moves :: "'k editable_rekey list"
  he_logical_rekeys :: "hybrid_rekey list"
  he_schema_operations :: "migration_operation list"

fun compact_rekey_count ::
  "tag_registry \<Rightarrow> ('k::linorder) profile \<Rightarrow> ('k, base_row) btree_map \<Rightarrow> migration_operation list \<Rightarrow> (projection_error, nat) result" where
  "compact_rekey_count vtag p rows [] = Ok 0"
| "compact_rekey_count vtag p rows (operation # ops) =
     (case operation of
        RekeyRow _ old_key _ \<Rightarrow>
          (case evolution_key vtag p old_key of
             Inl e \<Rightarrow> Err e
           | Inr old \<Rightarrow> (case compact_rekey_count vtag p rows ops of
               Inl e \<Rightarrow> Err e
             | Inr n \<Rightarrow> Ok (if visible rows old then n + 1 else n)))
      | _ \<Rightarrow> compact_rekey_count vtag p rows ops)"

record 'k evolving =
  ev_schema_operations :: "migration_operation list"
  ev_logical_rekeys :: "hybrid_rekey list"
  ev_editable_moves :: "'k editable_rekey list"
  ev_mutations :: "'k writer_mutation list"
  ev_mutation_ids :: "u8 list btree_set"
  ev_targets :: "'k btree_set"
  ev_next_sequence :: u64
  ev_cursor :: "u8 list list"

definition evolving_new :: "u8 list list \<Rightarrow> 'k evolving" where
  "evolving_new ids = \<lparr>ev_schema_operations = [], ev_logical_rekeys = [], ev_editable_moves = [], ev_mutations = [],
     ev_mutation_ids = [], ev_targets = [], ev_next_sequence = 1, ev_cursor = ids\<rparr>"

definition operation_table :: "migration_operation \<Rightarrow> object_id option" where
  "operation_table operation =
     (case operation of
        DeleteTable _ \<Rightarrow> None | CreateTable _ \<Rightarrow> None
      | RenameTable t _ _ \<Rightarrow> Some t | DeleteField t _ \<Rightarrow> Some t | RenameField t _ _ _ \<Rightarrow> Some t
      | AddOptionalField t _ \<Rightarrow> Some t | AddRequiredFieldWithFallback t _ \<Rightarrow> Some t | RekeyRow t _ _ \<Rightarrow> Some t)"

text \<open>The source row of a re-key: in exactly one of the two representations.\<close>

definition hybrid_source :: "('k::linorder) hybrid_base \<Rightarrow> 'k \<Rightarrow> (projection_error, raw \<times> bool) result" where
  "hybrid_source h old =
     (case (row_value (bm_get (cb_rows (hb_compact h)) old), bm_get (hb_editable h) old) of
        (Some v, None) \<Rightarrow> Ok (v, True)
      | (None, Some v) \<Rightarrow> Ok (v, False)
      | (Some _, Some _) \<Rightarrow> Err DuplicateHybridKey
      | (None, None) \<Rightarrow> Err MissingHybridKey)"

text \<open>The physical mutations of one re-key of a compact row.\<close>

definition push_compact ::
  "tag_registry \<Rightarrow> 'k \<Rightarrow> 'k \<Rightarrow> raw \<Rightarrow> 'k evolving \<Rightarrow> (projection_error, 'k evolving) result" where
  "push_compact vtag old new rewritten st =
     (case ev_cursor st of
        deletion_id # replacement_id # cursor \<Rightarrow>
          if deletion_id = zero_id \<or> replacement_id = zero_id \<or> bs_contains (ev_mutation_ids st) deletion_id
             \<or> bs_contains (bs_insert deletion_id (ev_mutation_ids st)) replacement_id
          then Err EvolutionInputMismatch
          else if ev_next_sequence st = - 1 then Err EvolutionInputMismatch
          else (case encode_raw vtag rewritten of
                  Inl _ \<Rightarrow> Err InvalidEvolutionValue
                | Inr bytes \<Rightarrow>
                    if ev_next_sequence st + 1 = - 1 then Err EvolutionInputMismatch
                    else Ok (st\<lparr>ev_mutations := ev_mutations st
                                  @ rekey_mutations (ev_next_sequence st) deletion_id replacement_id old new bytes,
                                ev_mutation_ids := bs_insert replacement_id (bs_insert deletion_id (ev_mutation_ids st)),
                                ev_next_sequence := ev_next_sequence st + 2, ev_cursor := cursor\<rparr>))
      | _ \<Rightarrow> Err EvolutionInputMismatch)"

definition evolve_rekey ::
  "tag_registry \<Rightarrow> ('k::linorder) profile \<Rightarrow> 'k hybrid_base \<Rightarrow> ('k \<Rightarrow> 'k \<Rightarrow> 's \<Rightarrow> ('e, unit) result \<times> 's) \<Rightarrow> raw \<Rightarrow> raw
     \<Rightarrow> 'k evolving \<Rightarrow> 's \<Rightarrow> (projection_error, 'k evolving) result \<times> 's" where
  "evolve_rekey vtag p h approve old_key new_key st s =
     (case evolution_key vtag p old_key of
        Inl e \<Rightarrow> (Err e, s)
      | Inr old \<Rightarrow> (case evolution_key vtag p new_key of
          Inl e \<Rightarrow> (Err e, s)
        | Inr new \<Rightarrow>
            if old = new \<or> bm_contains (hb_editable h) new \<or> visible (cb_rows (hb_compact h)) new
               \<or> bs_contains (ev_targets st) new
            then (Err DuplicateEvolutionKey, s)
            else (case hybrid_source h old of
                    Inl e \<Rightarrow> (Err e, s)
                  | Inr (v, in_compact) \<Rightarrow> (case rewrite_rekey_row_value vtag p old new v of
                      Inl e \<Rightarrow> (Err e, s)
                    | Inr rewritten \<Rightarrow>
                        let st' = st\<lparr>ev_targets := bs_insert new (ev_targets st),
                              ev_logical_rekeys := ev_logical_rekeys st @ [\<lparr>hr_old_key = old_key, hr_new_key = new_key\<rparr>]\<rparr>
                        in if in_compact then (push_compact vtag old new rewritten st', s)
                           else (case approve old new s of
                                   (Inl _, s') \<Rightarrow> (Err InvalidEditablePlacement, s')
                                 | (Inr _, s') \<Rightarrow>
                                     (Ok (st'\<lparr>ev_editable_moves := ev_editable_moves st'
                                        @ [\<lparr>er_old_key = old, er_new_key = new, er_value = rewritten\<rparr>]\<rparr>), s'))))))"

definition evolve_operation ::
  "tag_registry \<Rightarrow> ('k::linorder) profile \<Rightarrow> 'k hybrid_base \<Rightarrow> ('k \<Rightarrow> 'k \<Rightarrow> 's \<Rightarrow> ('e, unit) result \<times> 's) \<Rightarrow> migration_operation
     \<Rightarrow> 'k evolving \<Rightarrow> 's \<Rightarrow> (projection_error, 'k evolving) result \<times> 's" where
  "evolve_operation vtag p h approve operation st s =
     (case operation of
        RekeyRow table old_key new_key \<Rightarrow>
          if table \<noteq> p_table_id p then (Err WrongTable, s) else evolve_rekey vtag p h approve old_key new_key st s
      | _ \<Rightarrow>
          (case operation_table operation of
             None \<Rightarrow> (Err UnsupportedEvolutionOperation, s)
           | Some table \<Rightarrow>
               if table \<noteq> p_table_id p then (Err WrongTable, s)
               else (Ok (st\<lparr>ev_schema_operations := ev_schema_operations st @ [operation]\<rparr>), s)))"

fun evolve_operations ::
  "tag_registry \<Rightarrow> ('k::linorder) profile \<Rightarrow> 'k hybrid_base \<Rightarrow> ('k \<Rightarrow> 'k \<Rightarrow> 's \<Rightarrow> ('e, unit) result \<times> 's) \<Rightarrow> migration_operation list
     \<Rightarrow> 'k evolving \<Rightarrow> 's \<Rightarrow> (projection_error, 'k evolving) result \<times> 's" where
  "evolve_operations vtag p h approve [] st s = (Ok st, s)"
| "evolve_operations vtag p h approve (operation # ops) st s =
     (case evolve_operation vtag p h approve operation st s of
        (Inl e, s') \<Rightarrow> (Err e, s')
      | (Inr st', s') \<Rightarrow> evolve_operations vtag p h approve ops st' s')"

definition apply_evolution_plan ::
  "tag_registry \<Rightarrow> ('k::linorder) profile \<Rightarrow> 'k hybrid_base \<Rightarrow> ('k \<Rightarrow> 'k \<Rightarrow> 's \<Rightarrow> ('e, unit) result \<times> 's) \<Rightarrow> migration_operation list
     \<Rightarrow> u64 \<Rightarrow> u8 list list \<Rightarrow> u8 list \<Rightarrow> 's \<Rightarrow> (projection_error, 'k hybrid_evolution) result \<times> 's" where
  "apply_evolution_plan vtag p h approve ops candidate_generation compact_mutation_ids candidate_digest s =
     (let b = hb_compact h in
      if p_table_id p \<noteq> cb_table_id b then (Err WrongTable, s)
      else if p_schema_fingerprint p \<noteq> cb_schema_fingerprint b then (Err WrongSchema, s)
      else if candidate_generation \<noteq> cb_next_generation b then (Err StaleGeneration, s)
      else (case compact_rekey_count vtag p (cb_rows b) ops of
              Inl e \<Rightarrow> (Err e, s)
            | Inr rekeys \<Rightarrow>
                if int (length compact_mutation_ids) \<noteq> min (int rekeys * 2) 18446744073709551615 then (Err EvolutionInputMismatch, s)
                else (case evolve_operations vtag p h approve ops (evolving_new compact_mutation_ids) s of
                        (Inl e, s') \<Rightarrow> (Err e, s')
                      | (Inr st, s') \<Rightarrow>
                          if ev_cursor st \<noteq> [] then (Err EvolutionInputMismatch, s')
                          else
                            let input = (if ev_mutations st = [] then None
                                  else Some (evolution_input p candidate_generation candidate_digest (ev_mutations st)))
                            in (case (case input of None \<Rightarrow> Ok () | Some i \<Rightarrow> consume_writer_input b i) of
                                  Inl e \<Rightarrow> (Err e, s')
                                | Inr _ \<Rightarrow>
                                    (Ok \<lparr>he_compact_writer_input = input, he_editable_moves = ev_editable_moves st,
                                        he_logical_rekeys = ev_logical_rekeys st,
                                        he_schema_operations = ev_schema_operations st\<rparr>, s')))))"

end
