(* ===== verification/Orna_Rekey_Laws.thy ===== *)
theory Orna_Rekey_Laws
  imports Orna_Rekey Orna_Evolution_Laws
begin

text \<open>
  Laws of re-keys on stored rows. The plan of an evolution names no source key twice, so the moves of a hybrid
  base can be read as one simultaneous move; \<open>shift\<close> is that move, on the compact rows and on the
  editable rows alike.
\<close>

section \<open>The rewritten row\<close>

definition rekeyed_field :: "'k profile \<Rightarrow> raw list \<Rightarrow> raw list \<Rightarrow> raw \<Rightarrow> raw \<Rightarrow> bool" where
  "rekeyed_field p old new f g \<longleftrightarrow>
     (\<exists>u a b i. f = RArray [u, a] \<and> g = RArray [u, b] \<and> raw_uuid u = Some i
        \<and> (case key_position p i of None \<Rightarrow> a = b | Some n \<Rightarrow> a = old ! n \<and> b = new ! n))"

text \<open>The new row has the fields of the old one; the key fields change from the old key to the new.\<close>

definition rekeyed_row :: "tag_registry \<Rightarrow> 'k profile \<Rightarrow> 'k \<Rightarrow> 'k \<Rightarrow> raw \<Rightarrow> raw \<Rightarrow> bool" where
  "rekeyed_row vtag p old_key new_key v w \<longleftrightarrow>
     (\<exists>old new row_type fs gs.
        decode_key_components vtag p old_key = Some old \<and> decode_key_components vtag p new_key = Some new
        \<and> v = RTag 60009 (RArray [row_type, RArray fs]) \<and> w = RTag 60009 (RArray [row_type, RArray gs])
        \<and> list_all2 (rekeyed_field p old new) fs gs)"

lemma rewrite_fields_step:
  assumes "rewrite_fields p old new seen (f # fs) = Ok (gs, seen')"
  obtains u a i g rest seen1 where "f = RArray [u, a]" and "raw_uuid u = Some i" and "gs = g # rest"
    and "rewrite_fields p old new seen1 fs = Ok (rest, seen')" and "rekeyed_field p old new f g"
proof -
  obtain u a where f: "f = RArray [u, a]" using assms by (auto split: raw.splits list.splits)
  obtain i where i: "raw_uuid u = Some i" using assms by (auto simp: f split: option.splits)
  show thesis
  proof (cases "key_position p i")
    case None
    with assms obtain rest where "rewrite_fields p old new seen fs = Ok (rest, seen')" "gs = RArray [u, a] # rest"
      by (auto simp: f i split: sum.splits)
    moreover have "rekeyed_field p old new f (RArray [u, a])" using None i by (simp add: rekeyed_field_def f)
    ultimately show thesis using that f i by blast
  next
    case (Some n)
    with assms obtain rest where "rewrite_fields p old new (bs_insert i seen) fs = Ok (rest, seen')"
        "gs = RArray [u, new ! n] # rest" "a = old ! n"
      by (auto simp: f i split: sum.splits if_splits)
    moreover have "rekeyed_field p old new f (RArray [u, new ! n])" if "a = old ! n"
      using Some i that by (simp add: rekeyed_field_def f)
    ultimately show thesis using that f i by blast
  qed
qed

lemma rewrite_fields_Ok:
  "rewrite_fields p old new seen fs = Ok (gs, seen') \<Longrightarrow> list_all2 (rekeyed_field p old new) fs gs"
proof (induction fs arbitrary: seen gs)
  case (Cons f fs)
  then show ?case by (elim rewrite_fields_step) simp
qed simp

lemma rewrite_Ok:
  assumes "rewrite_rekey_row_value vtag p old_key new_key v = Ok w"
  shows "rekeyed_row vtag p old_key new_key v w"
proof -
  obtain old new where dec: "decode_key_components vtag p old_key = Some old" "decode_key_components vtag p new_key = Some new"
    using assms by (cases "decode_key_components vtag p old_key"; cases "decode_key_components vtag p new_key")
      (simp_all add: rewrite_rekey_row_value_def)
  obtain n row_type fs where v: "v = RTag n (RArray [row_type, RArray fs])"
    using assms unfolding rewrite_rekey_row_value_def dec by (simp split: raw.splits list.splits)
  have n: "n = 60009" using assms by (simp add: rewrite_rekey_row_value_def dec v split: if_splits)
  obtain gs seen where g: "rewrite_fields p old new [] fs = Ok (gs, seen)"
    using assms by (cases "rewrite_fields p old new [] fs") (auto simp: rewrite_rekey_row_value_def dec v n)
  have "w = RTag 60009 (RArray [row_type, RArray gs])"
    using assms by (auto simp: rewrite_rekey_row_value_def dec v n g value_new_def split: if_splits sum.splits)
  with rewrite_fields_Ok [OF g] dec v n show ?thesis unfolding rekeyed_row_def by blast
qed

section \<open>Simultaneous moves\<close>

definition shift :: "('k \<times> 'k \<times> raw option) list \<Rightarrow> ('k \<Rightarrow> raw option) \<Rightarrow> 'k \<Rightarrow> raw option" where
  "shift ms = fold (\<lambda>(old, new, v) rows. rows(old := None, new := v)) ms"

lemma shift_simps [simp]:
  "shift [] rows = rows"
  "shift ((old, new, v) # ms) rows = shift ms (rows(old := None, new := v))"
  by (simp_all add: shift_def)

definition moved_rows :: "('k \<times> 'k \<times> raw option) list \<Rightarrow> ('k \<Rightarrow> raw option) \<Rightarrow> 'k \<Rightarrow> raw option" where
  "moved_rows ms rows k =
     (case map_of (map snd ms) k of Some v \<Rightarrow> v | None \<Rightarrow> if k \<in> fst ` set ms then None else rows k)"

lemma shift_moved:
  assumes "distinct (map fst ms)" and "distinct (map (fst \<circ> snd) ms)" and "fst ` set ms \<inter> (fst \<circ> snd) ` set ms = {}"
  shows "shift ms rows = moved_rows ms rows"
  using assms
proof (induction ms arbitrary: rows)
  case Nil
  then show ?case by (auto simp: moved_rows_def)
next
  case (Cons m ms)
  obtain old new v where m: "m = (old, new, v)" by (cases m)
  have "shift ms (rows(old := None, new := v)) = moved_rows ms (rows(old := None, new := v))"
    using Cons.prems by (intro Cons.IH) auto
  moreover have "new \<notin> fst ` set (map snd ms)" using Cons.prems(2) by (simp add: m image_comp)
  then have "map_of (map snd ms) new = None" by (simp only: map_of_eq_None_iff) simp
  moreover have "new \<notin> fst ` set ms" "old \<noteq> new" using Cons.prems(3) by (auto simp: m)
  moreover have "old \<notin> fst ` set ms" using Cons.prems(1) by (auto simp: m)
  moreover have "old \<notin> fst ` set (map snd ms)" using Cons.prems(3) by (auto simp: m image_comp)
  then have "map_of (map snd ms) old = None" by (simp only: map_of_eq_None_iff) simp
  ultimately show ?case by (auto simp: m moved_rows_def fun_eq_iff split: option.splits)
qed

fun apply_editable_moves :: "('k::linorder) editable_rekey list \<Rightarrow> ('k, raw) btree_map \<Rightarrow> ('k, raw) btree_map" where
  "apply_editable_moves [] e = e"
| "apply_editable_moves (m # ms) e =
     apply_editable_moves ms (bm_insert (er_new_key m) (er_value m) (bm_remove (er_old_key m) e))"

lemma editable_moves_shift:
  "bm_wf e \<Longrightarrow> bm_get (apply_editable_moves ms e) =
     shift (map (\<lambda>m. (er_old_key m, er_new_key m, Some (er_value m))) ms) (bm_get e)"
  by (induction ms arbitrary: e) (simp_all add: bm_wf_insert bm_wf_remove bm_get_insert bm_get_remove)

definition effects :: "'k writer_mutation list \<Rightarrow> ('k \<times> writer_mutation_state) list" where
  "effects ms = map (\<lambda>m. (wm_key m, wm_state m)) ms"

lemma run_effects:
  "run_mutations vtag ms rows = fold (\<lambda>(k, st) rows. rows(k := mutation_value vtag st)) (effects ms) rows"
  by (induction ms arbitrary: rows) (simp_all add: effects_def)

text \<open>A row as it reads back after it was written.\<close>

definition stored :: "tag_registry \<Rightarrow> raw \<Rightarrow> raw option" where
  "stored vtag w =
     (case encode_raw vtag w of
        Inl _ \<Rightarrow> None
      | Inr bytes \<Rightarrow> (case value_decode vtag bytes of Inl _ \<Rightarrow> None | Inr v \<Rightarrow> Some v))"

text \<open>A move of one row: its old and new key, the new row, and whether the row is compact.\<close>

type_synonym 'k row_move = "'k \<times> 'k \<times> raw \<times> bool"

definition compact_move :: "tag_registry \<Rightarrow> 'k row_move \<Rightarrow> ('k \<times> writer_mutation_state) list" where
  "compact_move vtag m = (case m of (old, new, w, _) \<Rightarrow>
     [(old, MDeletion), (new, MReplacement (case encode_raw vtag w of Inl _ \<Rightarrow> [] | Inr bytes \<Rightarrow> bytes))])"

definition as_shift :: "tag_registry \<Rightarrow> 'k row_move \<Rightarrow> 'k \<times> 'k \<times> raw option" where
  "as_shift vtag m = (case m of (old, new, w, c) \<Rightarrow> (old, new, if c then stored vtag w else Some w))"

definition is_compact :: "'k row_move \<Rightarrow> bool" where
  "is_compact m = snd (snd (snd m))"

lemma compact_moves_shift:
  assumes "\<forall>m \<in> set ms. is_compact m \<and> (\<exists>bytes. encode_raw vtag (fst (snd (snd m))) = Ok bytes)"
  shows "fold (\<lambda>(k, st) rows. rows(k := mutation_value vtag st)) (concat (map (compact_move vtag) ms)) rows =
    shift (map (as_shift vtag) ms) rows"
  using assms
  by (induction ms arbitrary: rows)
    (auto simp: compact_move_def as_shift_def is_compact_def stored_def split: prod.splits)

section \<open>Evolving a hybrid base\<close>

definition hybrid_rows :: "('k::linorder) hybrid_base \<Rightarrow> 'k \<Rightarrow> raw option" where
  "hybrid_rows h k = (case logical (hb_compact h) k of None \<Rightarrow> bm_get (hb_editable h) k | Some v \<Rightarrow> Some v)"

text \<open>The base after an evolution: the writer input applied to the compact rows, the moves to the editable ones.\<close>

definition evolved ::
  "tag_registry \<Rightarrow> ('k::linorder) profile \<Rightarrow> 'k hybrid_base \<Rightarrow> 'k hybrid_evolution \<Rightarrow> (projection_error, 'k hybrid_base) result" where
  "evolved vtag p h ev =
     (case (case he_compact_writer_input ev of
              None \<Rightarrow> Ok (hb_compact h)
            | Some i \<Rightarrow> apply_writer_input vtag p (hb_compact h) i) of
        Inl e \<Rightarrow> Err e
      | Inr b \<Rightarrow> Ok \<lparr>hb_compact = b, hb_editable = apply_editable_moves (he_editable_moves ev) (hb_editable h)\<rparr>)"

fun rekeys_of :: "migration_operation list \<Rightarrow> (object_id \<times> raw \<times> raw) list" where
  "rekeys_of [] = []"
| "rekeys_of (operation # ops) =
     (case operation of RekeyRow t old_key new_key \<Rightarrow> (t, old_key, new_key) # rekeys_of ops | _ \<Rightarrow> rekeys_of ops)"

text \<open>
  What one re-key moves: its old key names a row in exactly one representation, its new key names none, and
  the new row is the old one with the key fields changed.
\<close>

definition rekey_move ::
  "tag_registry \<Rightarrow> ('k::linorder) profile \<Rightarrow> 'k hybrid_base \<Rightarrow> object_id \<times> raw \<times> raw \<Rightarrow> 'k row_move \<Rightarrow> bool" where
  "rekey_move vtag p h rekey m = (case (rekey, m) of ((t, old_key, new_key), (old, new, w, c)) \<Rightarrow>
     t = p_table_id p \<and> evolution_key vtag p old_key = Ok old \<and> evolution_key vtag p new_key = Ok new
     \<and> logical (hb_compact h) new = None \<and> bm_get (hb_editable h) new = None
     \<and> (logical (hb_compact h) old = None \<longleftrightarrow> \<not> c) \<and> (bm_get (hb_editable h) old = None \<longleftrightarrow> c)
     \<and> (\<exists>v. hybrid_rows h old = Some v \<and> rekeyed_row vtag p old new v w)
     \<and> (c \<longrightarrow> (\<exists>bytes. encode_raw vtag w = Ok bytes)))"

definition moved_key :: "'k row_move \<Rightarrow> 'k" where
  "moved_key m = fst (snd m)"

definition editable_move :: "'k row_move \<Rightarrow> 'k editable_rekey" where
  "editable_move m = (case m of (old, new, w, c) \<Rightarrow> \<lparr>er_old_key = old, er_new_key = new, er_value = w\<rparr>)"

text \<open>What a run of operations has added: its moves, in their two representations.\<close>

definition has_moved :: "tag_registry \<Rightarrow> 'k evolving \<Rightarrow> 'k row_move list \<Rightarrow> 'k evolving \<Rightarrow> bool" where
  "has_moved vtag st R st' \<longleftrightarrow>
     effects (ev_mutations st') = effects (ev_mutations st) @ concat (map (compact_move vtag) (filter is_compact R))
     \<and> ev_editable_moves st' = ev_editable_moves st @ map editable_move (filter (\<lambda>m. \<not> is_compact m) R)
     \<and> distinct (map moved_key R) \<and> moved_key ` set R \<inter> set (ev_targets st) = {}
     \<and> set (ev_targets st') = set (ev_targets st) \<union> moved_key ` set R"

lemma push_compact_Ok:
  assumes "push_compact vtag old new w st = Ok st'"
  shows "effects (ev_mutations st') = effects (ev_mutations st) @ compact_move vtag (old, new, w, True)
    \<and> ev_editable_moves st' = ev_editable_moves st \<and> ev_targets st' = ev_targets st
    \<and> (\<exists>bytes. encode_raw vtag w = Ok bytes)"
  using assms
  by (auto simp: push_compact_def effects_def rekey_mutations_def compact_move_def split: list.splits if_splits sum.splits)

lemma hybrid_source_Ok:
  assumes "hybrid_source h old = Ok (v, c)"
  shows "hybrid_rows h old = Some v \<and> (logical (hb_compact h) old = None \<longleftrightarrow> \<not> c) \<and> (bm_get (hb_editable h) old = None \<longleftrightarrow> c)"
  using assms by (auto simp: hybrid_source_def hybrid_rows_def logical_def split: option.splits)

lemma evolve_rekey_Ok:
  assumes "evolve_rekey vtag p h approve old_key new_key st s = (Ok st', s')"
  shows "\<exists>m. rekey_move vtag p h (p_table_id p, old_key, new_key) m \<and> has_moved vtag st [m] st'"
proof -
  obtain old where old: "evolution_key vtag p old_key = Ok old"
    using assms by (cases "evolution_key vtag p old_key") (simp_all add: evolve_rekey_def)
  obtain new where new: "evolution_key vtag p new_key = Ok new"
    using assms by (cases "evolution_key vtag p new_key") (simp_all add: evolve_rekey_def old)
  let ?taken = "old = new \<or> bm_contains (hb_editable h) new \<or> visible (cb_rows (hb_compact h)) new \<or> bs_contains (ev_targets st) new"
  have free: "\<not> ?taken" using assms by (cases ?taken) (simp_all add: evolve_rekey_def old new)
  obtain v c where src: "hybrid_source h old = Ok (v, c)"
    using assms free by (cases "hybrid_source h old") (auto simp: evolve_rekey_def old new)
  obtain w where w: "rewrite_rekey_row_value vtag p old new v = Ok w"
    using assms free by (cases "rewrite_rekey_row_value vtag p old new v") (auto simp: evolve_rekey_def old new src)
  define st1 where "st1 = st\<lparr>ev_targets := bs_insert new (ev_targets st),
      ev_logical_rekeys := ev_logical_rekeys st @ [\<lparr>hr_old_key = old_key, hr_new_key = new_key\<rparr>]\<rparr>"
  have step: "(if c then (push_compact vtag old new w st1, s)
      else (case approve old new s of (Inl _, s') \<Rightarrow> (Err InvalidEditablePlacement, s')
        | (Inr _, s') \<Rightarrow> (Ok (st1\<lparr>ev_editable_moves := ev_editable_moves st1
            @ [\<lparr>er_old_key = old, er_new_key = new, er_value = w\<rparr>]\<rparr>), s'))) = (Ok st', s')"
    using assms free unfolding st1_def by (simp add: evolve_rekey_def old new src w Let_def)
  have moved: "has_moved vtag st [(old, new, w, c)] st' \<and> (c \<longrightarrow> (\<exists>bytes. encode_raw vtag w = Ok bytes))"
  proof (cases c)
    case True
    with step have "push_compact vtag old new w st1 = Ok st'" by simp
    from push_compact_Ok [OF this] True free show ?thesis
      by (auto simp: has_moved_def is_compact_def moved_key_def st1_def)
  next
    case False
    with step have "st' = st1\<lparr>ev_editable_moves := ev_editable_moves st1 @ [\<lparr>er_old_key = old, er_new_key = new, er_value = w\<rparr>]\<rparr>"
      by (auto split: prod.splits sum.splits)
    with False free show ?thesis by (simp add: has_moved_def is_compact_def moved_key_def editable_move_def st1_def)
  qed
  have "\<not> visible (cb_rows (hb_compact h)) new" "\<not> bm_contains (hb_editable h) new" using free by blast+
  then have "logical (hb_compact h) new = None" "bm_get (hb_editable h) new = None"
    unfolding logical_def visible_value bm_contains_get by blast+
  with moved old new hybrid_source_Ok [OF src] rewrite_Ok [OF w]
  have "rekey_move vtag p h (p_table_id p, old_key, new_key) (old, new, w, c)"
    unfolding rekey_move_def by simp
  with moved show ?thesis by blast
qed

lemma has_moved_trans:
  assumes "has_moved vtag st R st1" and "has_moved vtag st1 R' st2"
  shows "has_moved vtag st (R @ R') st2"
  using assms by (auto simp: has_moved_def)

lemma has_moved_refl: "ev_mutations st' = ev_mutations st \<Longrightarrow> ev_editable_moves st' = ev_editable_moves st \<Longrightarrow>
    ev_targets st' = ev_targets st \<Longrightarrow> has_moved vtag st [] st'"
  by (simp add: has_moved_def)

lemma evolve_operation_Ok:
  assumes "evolve_operation vtag p h approve operation st s = (Ok st', s')"
  shows "\<exists>R. list_all2 (rekey_move vtag p h) (rekeys_of [operation]) R \<and> has_moved vtag st R st'"
proof (cases "\<exists>t old_key new_key. operation = RekeyRow t old_key new_key")
  case True
  then obtain t old_key new_key where o: "operation = RekeyRow t old_key new_key" by blast
  with assms have t: "t = p_table_id p" and e: "evolve_rekey vtag p h approve old_key new_key st s = (Ok st', s')"
    by (simp_all add: evolve_operation_def split: if_splits)
  obtain m where "rekey_move vtag p h (t, old_key, new_key) m" "has_moved vtag st [m] st'"
    using evolve_rekey_Ok [OF e] t by blast
  then show ?thesis by (intro exI [of _ "[m]"]) (simp add: o)
next
  case False
  then have "rekeys_of [operation] = []" by (cases operation) auto
  moreover have "has_moved vtag st [] st'"
    using assms False
    by (cases operation) (auto simp: evolve_operation_def operation_table_def split: if_splits intro!: has_moved_refl)
  ultimately show ?thesis by auto
qed

lemma rekeys_of_Cons: "rekeys_of (operation # ops) = rekeys_of [operation] @ rekeys_of ops"
  by (cases operation) simp_all

lemma evolve_operations_Ok:
  "evolve_operations vtag p h approve ops st s = (Ok st', s') \<Longrightarrow>
   \<exists>R. list_all2 (rekey_move vtag p h) (rekeys_of ops) R \<and> has_moved vtag st R st'"
proof (induction ops arbitrary: st s)
  case Nil
  then show ?case by (auto intro!: has_moved_refl)
next
  case (Cons operation ops)
  obtain st1 s1 where 1: "evolve_operation vtag p h approve operation st s = (Ok st1, s1)"
      and rest: "evolve_operations vtag p h approve ops st1 s1 = (Ok st', s')"
    using Cons.prems by (auto split: prod.splits sum.splits)
  obtain R where R: "list_all2 (rekey_move vtag p h) (rekeys_of [operation]) R" "has_moved vtag st R st1"
    using evolve_operation_Ok [OF 1] by blast
  obtain R' where R': "list_all2 (rekey_move vtag p h) (rekeys_of ops) R'" "has_moved vtag st1 R' st'"
    using Cons.IH [OF rest] by blast
  from list_all2_appendI [OF R(1) R'(1)] has_moved_trans [OF R(2) R'(2)]
  show ?case by (subst rekeys_of_Cons) blast
qed

text \<open>The moves of a plan come from distinct rows, since the plan names no source key twice.\<close>

lemma rekeys_of_append: "rekeys_of (xs @ ys) = rekeys_of xs @ rekeys_of ys"
proof (induction xs)
  case (Cons x xs)
  then show ?case by (cases x) simp_all
qed simp

lemma rekeys_of_filter: "rekeys_of ops = rekeys_of (filter is_rekey ops)"
proof (induction ops)
  case (Cons x ops)
  then show ?case by (cases x) (simp_all add: is_rekey_def)
qed simp

lemma rekeys_of_mset: "mset xs = mset ys \<Longrightarrow> mset (rekeys_of xs) = mset (rekeys_of ys)"
proof (induction xs arbitrary: ys)
  case (Cons x xs)
  then have "x \<in> set ys" by (metis list.set_intros(1) mset_eq_setD)
  then obtain us vs where ys: "ys = us @ x # vs" by (meson split_list)
  with Cons.prems have "mset xs = mset (us @ vs)" by simp
  from Cons.IH [OF this] show ?case
    by (cases x) (simp_all add: ys rekeys_of_append)
qed simp

definition source_name :: "tag_registry \<Rightarrow> object_id \<times> raw \<times> raw \<Rightarrow> object_id \<times> string" where
  "source_name vtag rekey = (case rekey of (t, old_key, _) \<Rightarrow> (t, canonical_key vtag old_key))"

lemma plan_sources_distinct:
  assumes "plan vtag from_s to_s request = Ok ops"
  shows "distinct (map (source_name vtag) (rekeys_of ops))"
proof -
  let ?rks = "rq_rekeys request"
  have rk: "map (source_name vtag) (rekeys_of (map rekey_op rks)) = map (rekey_source vtag) rks" for rks
    by (induction rks) (simp_all add: rekey_op_def source_name_def rekey_source_def)
  obtain A where A: "\<forall>x \<in> set A. \<not> is_rekey x" "ops = sort_key (sort_key_of vtag) (A @ map rekey_op ?rks)"
  proof
    show "ops = sort_key (sort_key_of vtag)
        ((concat (map (\<lambda>x. pushes (plan_table (tables_by_id to_s) x)) (tables_by_id from_s))
          @ concat (map (create_table (tables_by_id from_s)) (tables_by_id to_s))) @ map rekey_op ?rks)"
      using plan_Ok(1) [OF assms] by (simp only: append_assoc)
    show "\<forall>x \<in> set (concat (map (\<lambda>x. pushes (plan_table (tables_by_id to_s) x)) (tables_by_id from_s))
          @ concat (map (create_table (tables_by_id from_s)) (tables_by_id to_s))). \<not> is_rekey x"
      using plan_parts(3,4) [OF assms] by (simp only: set_append ball_Un simp_thms)
  qed
  have "filter is_rekey A = []" using A(1) by (simp add: filter_empty_conv)
  then have none: "rekeys_of A = []" by (subst rekeys_of_filter) simp
  have "mset (rekeys_of ops) = mset (rekeys_of (A @ map rekey_op ?rks))" by (rule rekeys_of_mset) (simp add: A(2))
  then have "mset (map (source_name vtag) (rekeys_of ops)) = mset (map (rekey_source vtag) ?rks)"
    by (simp only: rekeys_of_append none append_Nil mset_map flip: rk)
  moreover have "distinct (map (rekey_source vtag) ?rks)"
    using validate_rekeys_Ok [OF plan_Ok(3) [OF assms]] unfolding rekeys_clear_def by blast
  ultimately show ?thesis by (metis mset_eq_imp_distinct_iff)
qed

lemma evolution_key_encodes:
  assumes "evolution_key vtag p v = Ok k" and "profile_ok p"
  shows "canonical_key vtag v = hex (p_encoded p k)"
proof -
  obtain bytes where bytes: "encode_raw vtag v = Ok bytes" "decode_key vtag p bytes = Ok k"
    using assms(1) by (auto simp: evolution_key_def split: sum.splits)
  with decode_key_Ok [OF bytes(2)] assms(2) show ?thesis by (simp add: canonical_key_def profile_ok_def)
qed

lemma moves_from_distinct:
  assumes "profile_ok p" and "distinct (map (source_name vtag) rekeys)" and "list_all2 (rekey_move vtag p h) rekeys R"
  shows "distinct (map fst R)"
proof -
  have "map (source_name vtag) rekeys = map (\<lambda>k. (p_table_id p, hex (p_encoded p k))) (map fst R)"
    using assms(3)
    by (induction rule: list_all2_induct)
      (auto simp: rekey_move_def source_name_def evolution_key_encodes [OF _ assms(1)] split: prod.splits)
  with assms(2) show ?thesis by (metis distinct_map)
qed

section \<open>The evolved rows\<close>

lemma apply_mutations_runs:
  "apply_mutations vtag p g ms rows = Ok rows' \<Longrightarrow> bm_wf rows \<Longrightarrow>
   bm_wf rows' \<and> (\<lambda>k. row_value (bm_get rows' k)) = run_mutations vtag ms (\<lambda>k. row_value (bm_get rows k))"
proof (induction ms arbitrary: rows)
  case (Cons m ms)
  obtain key where key: "value_decode vtag (p_encoded p (wm_key m)) = Ok key"
    using Cons.prems(1) by (auto split: sum.splits)
  define rows1 where "rows1 = (case wm_state m of MDeletion \<Rightarrow> bm_remove (wm_key m) rows
    | MReplacement bytes \<Rightarrow> bm_insert (wm_key m) \<lparr>br_key = key, br_value = Some (decoded vtag bytes),
        br_generation = g, br_role = Replacement\<rparr> rows)"
  have wf: "bm_wf rows1" using Cons.prems(2)
    by (simp add: rows1_def bm_wf_insert bm_wf_remove split: writer_mutation_state.splits)
  have step: "apply_mutations vtag p g ms rows1 = Ok rows'"
    and here: "row_value (bm_get rows1 k) =
      (if k = wm_key m then mutation_value vtag (wm_state m) else row_value (bm_get rows k))" for k
    using Cons.prems by (auto simp: key rows1_def decoded_def bm_get_insert bm_get_remove
        split: writer_mutation_state.splits sum.splits)
  have "(\<lambda>k. row_value (bm_get rows1 k)) =
      (\<lambda>k. row_value (bm_get rows k))(wm_key m := mutation_value vtag (wm_state m))"
    using here by (simp add: fun_eq_iff)
  with Cons.IH [OF step wf] show ?case by simp
qed simp

lemma moved_target:
  assumes "distinct (map (fst \<circ> snd) ms)" and "(old, k, v) \<in> set ms"
  shows "moved_rows ms rows k = v"
proof -
  have "(k, v) \<in> set (map snd ms)" using assms(2) by force
  with assms(1) have "map_of (map snd ms) k = Some v" by (intro map_of_is_SomeI) (simp_all add: comp_def)
  then show ?thesis by (simp add: moved_rows_def)
qed

lemma moved_elsewhere:
  assumes "k \<notin> (fst \<circ> snd) ` set ms"
  shows "moved_rows ms rows k = (if k \<in> fst ` set ms then None else rows k)"
proof -
  have "k \<notin> fst ` set (map snd ms)" using assms by (simp add: image_comp)
  then have "map_of (map snd ms) k = None" by (simp only: map_of_eq_None_iff) simp
  then show ?thesis by (simp add: moved_rows_def)
qed

text \<open>The moves of the two representations, run apart, are one simultaneous move of the hybrid rows.\<close>

lemma hybrid_moved:
  fixes C E :: "'k \<Rightarrow> raw option"
  defines "both \<equiv> \<lambda>C E k. case C k of None \<Rightarrow> E k | Some v \<Rightarrow> Some v"
  assumes sources: "distinct (map fst R)" and targets: "distinct (map moved_key R)"
    and free: "\<And>old new w c. (old, new, w, c) \<in> set R \<Longrightarrow> C new = None \<and> E new = None"
    and held: "\<And>old new w c. (old, new, w, c) \<in> set R \<Longrightarrow> (C old = None \<longleftrightarrow> \<not> c) \<and> (E old = None \<longleftrightarrow> c)"
  shows "both (shift (map (as_shift vtag) (filter is_compact R)) C)
      (shift (map (as_shift vtag) (filter (\<lambda>m. \<not> is_compact m) R)) E) k = moved_rows (map (as_shift vtag) R) (both C E) k"
proof -
  let ?s = "map (as_shift vtag)"
  have ends [simp]: "fst \<circ> as_shift vtag = fst" "fst \<circ> snd \<circ> as_shift vtag = moved_key"
    by (auto simp: fun_eq_iff as_shift_def moved_key_def)
  have disjoint: "fst ` set R \<inter> moved_key ` set R = {}"
    using free held by (fastforce simp: moved_key_def)
  have ends_of: "fst ` set (?s (filter P R)) = fst ` set (filter P R)"
      "(fst \<circ> snd) ` set (?s (filter P R)) = moved_key ` set (filter P R)" for P
    by (simp_all add: image_image as_shift_def moved_key_def case_prod_beta)
  have "fst ` set (filter P R) \<inter> moved_key ` set (filter P R) = {}" for P using disjoint by auto
  then have each: "shift (?s (filter P R)) X = moved_rows (?s (filter P R)) X" for P X
    using sources targets
    by (intro shift_moved) (simp_all only: ends_of map_map ends distinct_map_filter)
  have dist: "distinct (map (fst \<circ> snd) (?s (filter P R)))" for P
    using targets by (simp add: distinct_map_filter flip: comp_assoc)
  have not_to: "k \<notin> (fst \<circ> snd) ` set (?s (filter P R))" if "k \<notin> moved_key ` set (filter P R)" for P
    using that unfolding ends_of .
  have from_set: "fst ` set (?s (filter P R)) = fst ` set (filter P R)" for P
    by (simp add: image_comp)
  note elsewhere = moved_elsewhere [OF not_to, unfolded from_set]
  show ?thesis
  proof (cases "k \<in> moved_key ` set R")
    case True
    then obtain old w c where m: "(old, k, w, c) \<in> set R" by (auto simp: moved_key_def)
    have not_from: "k \<notin> fst ` set (filter P R)" for P using True disjoint by auto
    have only: "m' = (old, k, w, c)" if "m' \<in> set R" "moved_key m' = k" for m'
      using targets m that by (auto simp: distinct_map inj_on_def moved_key_def)
    have all: "moved_rows (?s R) (both C E) k = (if c then stored vtag w else Some w)"
      using moved_target [of "?s R" old k] dist [of "\<lambda>_. True"] m by (force simp: as_shift_def)
    show ?thesis
    proof (cases c)
      case True
      then have "k \<notin> moved_key ` set (filter (\<lambda>m. \<not> is_compact m) R)" using only by (fastforce simp: is_compact_def)
      from elsewhere [OF this] not_from free [OF m]
      have "shift (?s (filter (\<lambda>m. \<not> is_compact m) R)) E k = None" by (simp add: each)
      moreover have "shift (?s (filter is_compact R)) C k = stored vtag w"
        unfolding each using m True by (intro moved_target [OF dist, of old]) (force simp: as_shift_def is_compact_def)
      ultimately show ?thesis using all True by (simp add: both_def split: option.splits)
    next
      case False
      then have "k \<notin> moved_key ` set (filter is_compact R)" using only by (fastforce simp: is_compact_def)
      from elsewhere [OF this] not_from free [OF m]
      have "shift (?s (filter is_compact R)) C k = None" by (simp add: each)
      moreover have "shift (?s (filter (\<lambda>m. \<not> is_compact m) R)) E k = Some w"
        unfolding each using m False by (intro moved_target [OF dist, of old]) (force simp: as_shift_def is_compact_def)
      ultimately show ?thesis using all False by (simp add: both_def)
    qed
  next
    case False
    then have not: "k \<notin> moved_key ` set (filter P R)" for P by auto
    have sides: "shift (?s (filter is_compact R)) C k = (if k \<in> fst ` set (filter is_compact R) then None else C k)"
        "shift (?s (filter (\<lambda>m. \<not> is_compact m) R)) E k =
          (if k \<in> fst ` set (filter (\<lambda>m. \<not> is_compact m) R) then None else E k)"
      unfolding each using elsewhere [OF not] by blast+
    have all: "moved_rows (?s R) (both C E) k = (if k \<in> fst ` set R then None else both C E k)"
      using elsewhere [of "\<lambda>_. True"] not [of "\<lambda>_. True"] by simp
    show ?thesis
    proof (cases "k \<in> fst ` set R")
      case True
      then obtain new w c where m: "(k, new, w, c) \<in> set R" by auto
      then have "k \<in> fst ` set (filter (\<lambda>m. is_compact m = c) R)" by (force simp: is_compact_def)
      with held [OF m] sides have "shift (?s (filter is_compact R)) C k = None"
          "shift (?s (filter (\<lambda>m. \<not> is_compact m) R)) E k = None"
        by (cases c; simp)+
      with all True show ?thesis by (simp add: both_def)
    next
      case False
      then have "k \<notin> fst ` set (filter P R)" for P by auto
      with all sides False show ?thesis by (simp only: both_def if_False)
    qed
  qed
qed

lemma apply_evolution_plan_Ok:
  assumes "apply_evolution_plan vtag p h approve ops g ids digest s = (Ok ev, s')"
  obtains st where "evolve_operations vtag p h approve ops (evolving_new ids) s = (Ok st, s')"
    and "he_editable_moves ev = ev_editable_moves st"
    and "he_compact_writer_input ev =
      (if ev_mutations st = [] then None else Some (evolution_input p g digest (ev_mutations st)))"
  using assms by (auto simp: apply_evolution_plan_def Let_def split: if_splits sum.splits prod.splits)

lemma evolved_rows:
  assumes "evolved vtag p h ev = Ok h'" and "bm_wf (cb_rows (hb_compact h))" and "bm_wf (hb_editable h)"
    and "he_compact_writer_input ev = (if ms = [] then None else Some (evolution_input p g digest ms))"
  shows "logical (hb_compact h') = run_mutations vtag ms (logical (hb_compact h))"
    and "bm_get (hb_editable h') =
      shift (map (\<lambda>m. (er_old_key m, er_new_key m, Some (er_value m))) (he_editable_moves ev)) (bm_get (hb_editable h))"
proof -
  obtain b where b: "(if ms = [] then Ok (hb_compact h)
        else apply_writer_input vtag p (hb_compact h) (evolution_input p g digest ms)) = Ok b"
      and h': "h' = \<lparr>hb_compact = b, hb_editable = apply_editable_moves (he_editable_moves ev) (hb_editable h)\<rparr>"
    using assms(1) by (cases "ms = []") (auto simp: evolved_def assms(4) split: sum.splits)
  show "bm_get (hb_editable h') =
      shift (map (\<lambda>m. (er_old_key m, er_new_key m, Some (er_value m))) (he_editable_moves ev)) (bm_get (hb_editable h))"
    using editable_moves_shift [OF assms(3)] by (simp add: h')
  show "logical (hb_compact h') = run_mutations vtag ms (logical (hb_compact h))"
  proof (cases "ms = []")
    case True
    with b show ?thesis by (simp add: h')
  next
    case False
    with b obtain rows where rows: "apply_mutations vtag p g ms (cb_rows (hb_compact h)) = Ok rows"
        "b = (hb_compact h)\<lparr>cb_rows := rows\<rparr>"
      by (auto simp: apply_writer_input_def evolution_input_def split: sum.splits)
    with apply_mutations_runs [OF rows(1) assms(2)] show ?thesis by (simp add: h' logical_def [abs_def])
  qed
qed

text \<open>
  C22. Re-keys of an evolution plan. When a plan between two schemas is applied to a hybrid base, and the resulting writer
  input and editable moves are carried out, every re-key has moved one row: its old key named a
  row in exactly one of the two representations, its new key named none, and the row it names now is the old one with the
  key fields, and only those, changed. All the moves happen at once, so no re-key sees another's row, and
  every other row is as before.
\<close>

theorem hybrid_rekey_moves_rows:
  assumes "profile_ok p" and "bm_wf (cb_rows (hb_compact h))" and "bm_wf (hb_editable h)"
    and "plan vtag from_s to_s request = Ok ops"
    and "apply_evolution_plan vtag p h approve ops g ids digest s = (Ok ev, s')"
    and "evolved vtag p h ev = Ok h'"
  shows "\<exists>R. list_all2 (rekey_move vtag p h) (rekeys_of ops) R
    \<and> hybrid_rows h' = moved_rows (map (as_shift vtag) R) (hybrid_rows h)"
proof -
  obtain st where st: "evolve_operations vtag p h approve ops (evolving_new ids) s = (Ok st, s')"
      and moves: "he_editable_moves ev = ev_editable_moves st"
      and input: "he_compact_writer_input ev =
        (if ev_mutations st = [] then None else Some (evolution_input p g digest (ev_mutations st)))"
    using assms(5) by (rule apply_evolution_plan_Ok)
  obtain R where R: "list_all2 (rekey_move vtag p h) (rekeys_of ops) R" and has: "has_moved vtag (evolving_new ids) R st"
    using evolve_operations_Ok [OF st] by blast
  have each: "(case m of (old, new, w, c) \<Rightarrow> logical (hb_compact h) new = None \<and> bm_get (hb_editable h) new = None
      \<and> (logical (hb_compact h) old = None \<longleftrightarrow> \<not> c) \<and> (bm_get (hb_editable h) old = None \<longleftrightarrow> c)
      \<and> (c \<longrightarrow> (\<exists>bytes. encode_raw vtag w = Ok bytes)))" if "m \<in> set R" for m
    using R that by (induction rule: list_all2_induct) (auto simp: rekey_move_def)
  have empty: "logical (hb_compact h) new = None \<and> bm_get (hb_editable h) new = None"
    and full: "(logical (hb_compact h) old = None \<longleftrightarrow> \<not> c) \<and> (bm_get (hb_editable h) old = None \<longleftrightarrow> c)"
    if "(old, new, w, c) \<in> set R" for old new w c
    using each [OF that] by simp_all
  have encodes: "\<exists>bytes. encode_raw vtag w = Ok bytes" if "(old, new, w, True) \<in> set R" for old new w
    using each [OF that] by simp
  have compact: "logical (hb_compact h') = shift (map (as_shift vtag) (filter is_compact R)) (logical (hb_compact h))"
  proof -
    have added: "effects (ev_mutations st) = concat (map (compact_move vtag) (filter is_compact R))"
      using has by (simp add: has_moved_def evolving_new_def effects_def)
    have "\<forall>m \<in> set (filter is_compact R). is_compact m \<and> (\<exists>bytes. encode_raw vtag (fst (snd (snd m))) = Ok bytes)"
    proof
      fix m assume "m \<in> set (filter is_compact R)"
      then have "m \<in> set R" "is_compact m" by simp_all
      moreover obtain old new w c where "m = (old, new, w, c)" by (cases m)
      ultimately have m: "m = (old, new, w, True)" "(old, new, w, True) \<in> set R" by (simp_all add: is_compact_def)
      from encodes [OF m(2)] show "is_compact m \<and> (\<exists>bytes. encode_raw vtag (fst (snd (snd m))) = Ok bytes)"
        by (simp add: m(1) is_compact_def)
    qed
    then show ?thesis
      unfolding evolved_rows(1) [OF assms(6,2,3) input] run_effects added by (rule compact_moves_shift)
  qed
  have editable: "bm_get (hb_editable h') =
      shift (map (as_shift vtag) (filter (\<lambda>m. \<not> is_compact m) R)) (bm_get (hb_editable h))"
  proof -
    have "map (\<lambda>m. (er_old_key m, er_new_key m, Some (er_value m))) (he_editable_moves ev) =
        map (as_shift vtag) (filter (\<lambda>m. \<not> is_compact m) R)"
      using has by (auto simp: moves has_moved_def evolving_new_def editable_move_def as_shift_def is_compact_def)
    then show ?thesis unfolding evolved_rows(2) [OF assms(6,2,3) input] by simp
  qed
  have "distinct (map fst R)" using moves_from_distinct [OF assms(1) plan_sources_distinct [OF assms(4)] R] .
  moreover have "distinct (map moved_key R)" using has by (simp add: has_moved_def)
  ultimately have "hybrid_rows h' k = moved_rows (map (as_shift vtag) R) (hybrid_rows h) k" for k
    unfolding hybrid_rows_def [abs_def] compact editable using empty full by (intro hybrid_moved)
  with R show ?thesis by blast
qed

section \<open>Witness\<close>

text \<open>The example table, with one more row in its editable part; a compact and an editable row are re-keyed.\<close>

definition x_hybrid :: "u8 list hybrid_base" where
  "x_hybrid = \<lparr>hb_compact = w_base, hb_editable = [([9], w_row 9)]\<rparr>"

definition x_schema :: schema where
  "x_schema = \<lparr>s_version = V1_0, s_tables = [\<lparr>t_id = [1], t_name = ''T'', t_explicit_key = True, t_fields = []\<rparr>]\<rparr>"

definition x_request :: planning_request where
  "x_request = \<lparr>rq_fence = fence_V1, rq_rekeys =
     [\<lparr>rk_table = [1], rk_old_key = RInt 7, rk_new_key = RInt 5\<rparr>, \<lparr>rk_table = [1], rk_old_key = RInt 9, rk_new_key = RInt 3\<rparr>]\<rparr>"

definition x_plan :: "migration_operation list" where
  "x_plan = [RekeyRow [1] (RInt 7) (RInt 5), RekeyRow [1] (RInt 9) (RInt 3)]"

definition x_approve :: "u8 list \<Rightarrow> u8 list \<Rightarrow> nat \<Rightarrow> (unit, unit) result \<times> nat" where
  "x_approve old new n = (Ok (), n + 1)"

definition x_evolution :: "u8 list hybrid_evolution" where
  "x_evolution = \<lparr>he_compact_writer_input = Some (evolution_input w_profile 3 []
       (rekey_mutations 1 (replicate 16 1) (replicate 16 2) [7] [5] (w_bytes 5))),
     he_editable_moves = [\<lparr>er_old_key = [9], er_new_key = [3], er_value = w_row 3\<rparr>],
     he_logical_rekeys = [\<lparr>hr_old_key = RInt 7, hr_new_key = RInt 5\<rparr>, \<lparr>hr_old_key = RInt 9, hr_new_key = RInt 3\<rparr>],
     he_schema_operations = []\<rparr>"

definition x_evolved :: "u8 list hybrid_base" where
  "x_evolved = \<lparr>hb_compact = w_base\<lparr>cb_rows :=
       [([3], \<lparr>br_key = RInt 3, br_value = None, br_generation = 2, br_role = Deletion\<rparr>),
        ([5], \<lparr>br_key = RInt 5, br_value = Some (w_row 5), br_generation = 3, br_role = Replacement\<rparr>)]\<rparr>,
     hb_editable = [([3], w_row 3)]\<rparr>"

theorem hybrid_rekey_moves_rows_witness:
  "evolved w_tags w_profile x_hybrid x_evolution = Ok x_evolved
   \<and> (\<exists>R. list_all2 (rekey_move w_tags w_profile x_hybrid) (rekeys_of x_plan) R
        \<and> hybrid_rows x_evolved = moved_rows (map (as_shift w_tags) R) (hybrid_rows x_hybrid))"
proof -
  have ok: "profile_ok w_profile" by (simp add: profile_ok_def w_profile_def)
  have wf: "bm_wf (cb_rows (hb_compact x_hybrid))" "bm_wf (hb_editable x_hybrid)"
    by (simp_all add: x_hybrid_def w_base_def bm_wf_def)
  have planned: "plan w_tags x_schema x_schema x_request = Ok x_plan" by code_simp
  have applied: "apply_evolution_plan w_tags w_profile x_hybrid x_approve x_plan 3 [replicate 16 1, replicate 16 2] [] 0
      = (Ok x_evolution, 1)"
    by code_simp
  have carried: "evolved w_tags w_profile x_hybrid x_evolution = Ok x_evolved" by code_simp
  from hybrid_rekey_moves_rows [OF ok wf planned applied carried] carried show ?thesis by blast
qed

end
