(* ===== verification/Orna_Decimal.thy ===== *)
theory Orna_Decimal
  imports Complex_Main Orna_Text Orna_Value
begin

text \<open>
  Exact decimals: \<open>Decimal\<close> and \<open>compare_decimal_raw\<close> of \<open>crates/orna-value/src/lib.rs\<close>.

  A decimal is a coefficient times a power of ten, normalised so that ten does not divide the coefficient.
  Its meaning is the rational number \<open>decimal_value\<close>, against which arithmetic, comparison and the
  canonical text are specified. A \<open>BigInt\<close> is an integer, a \<open>str\<close> the string of its bytes.
\<close>

section \<open>Orderings\<close>

datatype ordering = Less | Equal | Greater

definition cmp :: "'a::linorder \<Rightarrow> 'a \<Rightarrow> ordering" where
  "cmp a b = (if a < b then Less else if a = b then Equal else Greater)"

definition then_order :: "ordering \<Rightarrow> ordering \<Rightarrow> ordering" where
  "then_order a b = (if a = Equal then b else a)"

fun reverse_order :: "ordering \<Rightarrow> ordering" where
  "reverse_order Less = Greater"
| "reverse_order Equal = Equal"
| "reverse_order Greater = Less"

section \<open>Decimals\<close>

record decimal =
  dc_coefficient :: int
  dc_exponent10 :: int

definition MAX_ABS_EXPONENT :: int where
  "MAX_ABS_EXPONENT = 1000000"

text \<open>The loop of \<open>normal_decimal\<close>, which runs on non-zero coefficients only.\<close>

function normal_from :: "int \<Rightarrow> int \<Rightarrow> int \<times> int" where
  "normal_from c e = (if c \<noteq> 0 \<and> c mod 10 = 0 then normal_from (c div 10) (e + 1) else (c, e))"
  by pat_completeness auto

termination
  by (relation "measure (\<lambda>(c, e). nat \<bar>c\<bar>)") (auto elim!: dvdE simp flip: dvd_eq_mod_eq_0)

declare normal_from.simps [simp del]

definition normal_decimal :: "int \<Rightarrow> int \<Rightarrow> int \<times> int" where
  "normal_decimal c e = (if c = 0 then (0, 0) else normal_from c e)"

definition decimal_new :: "int \<Rightarrow> int \<Rightarrow> decimal" where
  "decimal_new c e = (case normal_decimal c e of (c', e') \<Rightarrow> \<lparr>dc_coefficient = c', dc_exponent10 = e'\<rparr>)"

definition decimal_try_new :: "int \<Rightarrow> int \<Rightarrow> (ovb_error, decimal) result" where
  "decimal_try_new c e =
     (let d = decimal_new c e in if MAX_ABS_EXPONENT < \<bar>dc_exponent10 d\<bar> then Err DecimalLimit else Ok d)"

definition decimal_raw :: "decimal \<Rightarrow> raw" where
  "decimal_raw d = RTag 60000 (RArray [RInt (dc_coefficient d), RInt (dc_exponent10 d)])"

definition decimal_from_raw :: "raw \<Rightarrow> (ovb_error, decimal) result" where
  "decimal_from_raw raw =
     (case raw of
        RTag n inner \<Rightarrow>
          if n \<noteq> 60000 then Err InvalidTag
          else (case inner of
                  RArray [a, b] \<Rightarrow>
                    (case (a, b) of
                       (RInt c, RInt e) \<Rightarrow>
                         (case decimal_try_new c e of
                            Inl x \<Rightarrow> Err x
                          | Inr d \<Rightarrow> if decimal_raw d \<noteq> raw then Err NonCanonical else Ok d)
                     | _ \<Rightarrow> Err InvalidValue)
                | RArray _ \<Rightarrow> Err InvalidTag
                | _ \<Rightarrow> Err InvalidValue)
      | _ \<Rightarrow> Err InvalidTag)"

section \<open>Arithmetic\<close>

definition bounded_exponent :: "int \<Rightarrow> (ovb_error, nat) result" where
  "bounded_exponent n = (if n < 0 then Err DecimalLimit else if n \<le> MAX_ABS_EXPONENT then Ok (nat n) else Err DecimalLimit)"

definition pow10 :: "nat \<Rightarrow> int" where
  "pow10 n = 10 ^ n"

definition try_multiply :: "decimal \<Rightarrow> decimal \<Rightarrow> (ovb_error, decimal) result" where
  "try_multiply a b = decimal_try_new (dc_coefficient a * dc_coefficient b) (dc_exponent10 a + dc_exponent10 b)"

definition try_add_parts :: "decimal \<Rightarrow> int \<Rightarrow> int \<Rightarrow> (ovb_error, decimal) result" where
  "try_add_parts a other_coefficient other_exponent =
     (let e = (if dc_exponent10 a < other_exponent then dc_exponent10 a else other_exponent);
          shift_a = dc_exponent10 a - e;
          shift_b = other_exponent - e
      in if MAX_ABS_EXPONENT < shift_a \<or> MAX_ABS_EXPONENT < shift_b then Err DecimalLimit
         else (case bounded_exponent shift_a of
                 Inl x \<Rightarrow> Err x
               | Inr m \<Rightarrow> (case bounded_exponent shift_b of
                   Inl x \<Rightarrow> Err x
                 | Inr n \<Rightarrow> decimal_try_new (dc_coefficient a * pow10 m + other_coefficient * pow10 n) e)))"

definition try_add :: "decimal \<Rightarrow> decimal \<Rightarrow> (ovb_error, decimal) result" where
  "try_add a b = try_add_parts a (dc_coefficient b) (dc_exponent10 b)"

definition try_subtract :: "decimal \<Rightarrow> decimal \<Rightarrow> (ovb_error, decimal) result" where
  "try_subtract a b = try_add_parts a (- dc_coefficient b) (dc_exponent10 b)"

text \<open>The loops that count a prime factor, on a denominator that is not zero.\<close>

function strip_factor :: "int \<Rightarrow> int \<Rightarrow> nat \<Rightarrow> int \<times> nat" where
  "strip_factor p d n = (if 1 < p \<and> d \<noteq> 0 \<and> d mod p = 0 then strip_factor p (d div p) (n + 1) else (d, n))"
  by pat_completeness auto

termination
  by (relation "measure (\<lambda>(p, d, n). nat \<bar>d\<bar>)") (auto elim!: dvdE simp: abs_mult simp flip: dvd_eq_mod_eq_0)

declare strip_factor.simps [simp del]

definition divide_exact :: "decimal \<Rightarrow> decimal \<Rightarrow> (ovb_error, decimal) result" where
  "divide_exact a b =
     (if dc_coefficient b = 0 then Err DivisionByZero
      else if dc_coefficient a = 0 then Ok (decimal_new 0 0)
      else
        let g = gcd (dc_coefficient a) (dc_coefficient b);
            numerator = (if dc_coefficient b < 0 then - (dc_coefficient a div g) else dc_coefficient a div g);
            (odd_part, twos) = strip_factor 2 \<bar>dc_coefficient b div g\<bar> 0;
            (rest, fives) = strip_factor 5 odd_part 0
        in if rest \<noteq> 1 then Err NonFiniteDecimal
           else
             let scale = max twos fives
             in if MAX_ABS_EXPONENT < int scale then Err DecimalLimit
                else decimal_try_new (numerator * 2 ^ (scale - twos) * 5 ^ (scale - fives))
                       (dc_exponent10 a - dc_exponent10 b - int scale))"

section \<open>Canonical text\<close>

text \<open>\<open>Display\<close> of a \<open>BigInt\<close>.\<close>

definition show_int :: "int \<Rightarrow> string" where
  "show_int i = (if i < 0 then CHR ''-'' # show_int_digits (- i) else show_int_digits i)"

definition canonical_text :: "decimal \<Rightarrow> string" where
  "canonical_text d = show_int (dc_coefficient d) @ ''e'' @ show_int (dc_exponent10 d) @ ''.decimal''"

definition strip_end :: "string \<Rightarrow> string \<Rightarrow> string option" where
  "strip_end p s =
     (if length p \<le> length s \<and> drop (length s - length p) s = p then Some (take (length s - length p) s) else None)"

definition strip_sign :: "string \<Rightarrow> bool \<times> string" where
  "strip_sign s = (case strip_prefix ''-'' s of None \<Rightarrow> (False, s) | Some digits \<Rightarrow> (True, digits))"

definition coefficient_from_text :: "string \<Rightarrow> (ovb_error, int) result" where
  "coefficient_from_text s =
     (let (negative, digits) = strip_sign s in
      if digits = [] \<or> \<not> list_all is_ascii_digit digits then Err InvalidValue
      else if 1 < length digits \<and> hd digits = CHR ''0'' \<or> negative \<and> digits = ''0'' then Err NonCanonical
      else Ok (if negative then - digits_value digits else digits_value digits))"

definition exponent_from_text :: "string \<Rightarrow> (ovb_error, int) result" where
  "exponent_from_text s =
     (let (negative, digits) = strip_sign s in
      if digits = [] \<or> \<not> list_all is_ascii_digit digits then Err InvalidValue
      else if 1 < length digits \<and> hd digits = CHR ''0'' then Err NonCanonical
      else if 7 < length digits then Err DecimalLimit
      else if negative \<and> digits_value digits = 0 then Err NonCanonical
      else Ok (if negative then - digits_value digits else digits_value digits))"

definition from_canonical_text :: "string \<Rightarrow> (ovb_error, decimal) result" where
  "from_canonical_text t =
     (case strip_end ''.decimal'' t of
        None \<Rightarrow> Err InvalidValue
      | Some body \<Rightarrow> (case split_once ''e'' body of
          None \<Rightarrow> Err InvalidValue
        | Some (coefficient_text, exponent_text) \<Rightarrow>
            if coefficient_text = [] \<or> exponent_text = [] then Err InvalidValue
            else (case coefficient_from_text coefficient_text of
                    Inl x \<Rightarrow> Err x
                  | Inr c \<Rightarrow> (case exponent_from_text exponent_text of
                      Inl x \<Rightarrow> Err x
                    | Inr e \<Rightarrow> (case decimal_try_new c e of
                        Inl x \<Rightarrow> Err x
                      | Inr d \<Rightarrow> if canonical_text d \<noteq> t then Err NonCanonical else Ok d)))))"

section \<open>Comparison\<close>

text \<open>\<open>get(offset).copied().unwrap_or(b'0')\<close>.\<close>

definition digit_at :: "string \<Rightarrow> nat \<Rightarrow> char" where
  "digit_at s i = (if i < length s then s ! i else CHR ''0'')"

fun compare_digits :: "string \<Rightarrow> string \<Rightarrow> nat list \<Rightarrow> ordering" where
  "compare_digits left right [] = Equal"
| "compare_digits left right (i # is) =
     (case cmp (of_char (digit_at left i) :: nat) (of_char (digit_at right i)) of
        Equal \<Rightarrow> compare_digits left right is
      | order \<Rightarrow> order)"

definition compare_decimals :: "decimal \<Rightarrow> decimal \<Rightarrow> ordering" where
  "compare_decimals left right =
     (let lc = dc_coefficient left; rc = dc_coefficient right in
      if lc = 0 \<and> rc = 0 then Equal
      else if lc = 0 then (if rc < 0 then Greater else Less)
      else if rc = 0 then (if lc < 0 then Less else Greater)
      else if (lc < 0) \<noteq> (rc < 0) then (if lc < 0 then Less else Greater)
      else
        let left_digits = show_int_digits \<bar>lc\<bar>;
            right_digits = show_int_digits \<bar>rc\<bar>;
            left_position = dc_exponent10 left + int (length left_digits);
            right_position = dc_exponent10 right + int (length right_digits);
            order = cmp left_position right_position;
            order = (if order = Equal
              then compare_digits left_digits right_digits [0..<max (length left_digits) (length right_digits)] else order)
        in if lc < 0 then reverse_order order else order)"

definition compare_decimal_raw :: "raw \<Rightarrow> raw \<Rightarrow> (ovb_error, ordering) result" where
  "compare_decimal_raw left right =
     (case decimal_from_raw left of
        Inl x \<Rightarrow> Err x
      | Inr l \<Rightarrow> (case decimal_from_raw right of Inl x \<Rightarrow> Err x | Inr r \<Rightarrow> Ok (compare_decimals l r)))"

end
