(* ===== verification/Orna_Decimal_Laws.thy ===== *)
theory Orna_Decimal_Laws
  imports Orna_Decimal
begin

text \<open>
  Laws of exact decimals: a normalised decimal is determined by the rational number it stands for, so every
  operation can be specified by that number.
\<close>

section \<open>The number of a decimal\<close>

definition scaled :: "int \<Rightarrow> int \<Rightarrow> rat" where
  "scaled c e = of_int c * 10 powi e"

definition decimal_value :: "decimal \<Rightarrow> rat" where
  "decimal_value d = scaled (dc_coefficient d) (dc_exponent10 d)"

definition normal :: "decimal \<Rightarrow> bool" where
  "normal d \<longleftrightarrow> (if dc_coefficient d = 0 then dc_exponent10 d = 0 else dc_coefficient d mod 10 \<noteq> 0)"

definition decimal_ok :: "decimal \<Rightarrow> bool" where
  "decimal_ok d \<longleftrightarrow> normal d \<and> \<bar>dc_exponent10 d\<bar> \<le> MAX_ABS_EXPONENT"

lemma scaled_simps [simp]: "scaled 0 e = 0" "scaled (- c) e = - scaled c e"
  by (simp_all add: scaled_def)

lemma scaled_eq_0 [simp]: "scaled c e = 0 \<longleftrightarrow> c = 0"
  by (simp add: scaled_def)

lemma scaled_less_0 [simp]: "scaled c e < 0 \<longleftrightarrow> c < 0" "0 < scaled c e \<longleftrightarrow> 0 < c"
proof -
  have "0 < (10 :: rat) powi e" by (simp add: zero_less_power_int)
  moreover from this have "\<not> (10 :: rat) powi e < 0" by linarith
  ultimately show "scaled c e < 0 \<longleftrightarrow> c < 0" "0 < scaled c e \<longleftrightarrow> 0 < c"
    unfolding scaled_def by (simp_all add: mult_less_0_iff zero_less_mult_iff)
qed

lemma scaled_shift: "0 \<le> k \<Longrightarrow> scaled (c * 10 ^ nat k) e = scaled c (e + k)"
proof -
  assume "0 \<le> k"
  then have "(10 :: rat) ^ nat k = 10 powi k" by (simp add: power_int_def)
  then show ?thesis by (simp add: scaled_def power_int_add)
qed

lemma scaled_shift_nat: "scaled (c * 10 ^ m) e = scaled c (e + int m)"
  using scaled_shift [of "int m" c e] by simp

lemma scaled_mult: "scaled c e * scaled c' e' = scaled (c * c') (e + e')"
  by (simp add: scaled_def power_int_add)

lemma scaled_add: "scaled c e + scaled c' e = scaled (c + c') e"
  by (simp add: scaled_def algebra_simps)

lemma normal_unique:
  assumes "normal a" and "normal b" and "decimal_value a = decimal_value b"
  shows "a = b"
proof -
  have exps: "dc_exponent10 b \<le> dc_exponent10 a"
    if "normal a" "normal b" "decimal_value a = decimal_value b" "dc_coefficient b \<noteq> 0" for a b
  proof (rule ccontr)
    assume "\<not> ?thesis"
    define k where "k = dc_exponent10 b - dc_exponent10 a"
    with \<open>\<not> ?thesis\<close> have k: "0 < k" "dc_exponent10 b = dc_exponent10 a + k" by auto
    have "scaled (dc_coefficient a) (dc_exponent10 a) = scaled (dc_coefficient b * 10 ^ nat k) (dc_exponent10 a)"
      using that(3) k by (simp add: decimal_value_def scaled_shift)
    then have "dc_coefficient a = dc_coefficient b * 10 ^ nat k" by (simp add: scaled_def flip: of_int_mult of_int_power)
    moreover have "(10 :: int) dvd 10 ^ nat k" using k by (intro dvd_power) auto
    ultimately have "10 dvd dc_coefficient a" by simp
    moreover have "dc_coefficient a \<noteq> 0" using that(3,4) by (metis decimal_value_def scaled_eq_0)
    ultimately show False using that(1) by (auto simp: normal_def)
  qed
  show ?thesis
  proof (cases "dc_coefficient a = 0")
    case True
    with assms have "dc_coefficient b = 0" by (metis decimal_value_def scaled_eq_0)
    with True have "dc_exponent10 a = 0" "dc_exponent10 b = 0" "dc_coefficient b = 0"
      using assms(1,2) by (simp_all add: normal_def)
    with True show ?thesis by simp
  next
    case False
    moreover from this assms have "dc_coefficient b \<noteq> 0" by (metis decimal_value_def scaled_eq_0)
    ultimately have e: "dc_exponent10 a = dc_exponent10 b"
      using exps [OF assms] exps [OF assms(2,1) assms(3) [symmetric]] by (blast intro: order.antisym)
    have "scaled (dc_coefficient a) (dc_exponent10 b) = scaled (dc_coefficient b) (dc_exponent10 b)"
      using assms(3) by (simp only: decimal_value_def e)
    then have "dc_coefficient a = dc_coefficient b" by (simp add: scaled_def)
    with e show ?thesis by simp
  qed
qed

section \<open>Construction\<close>

lemma normal_from_spec:
  "c \<noteq> 0 \<Longrightarrow> (case normal_from c e of (c', e') \<Rightarrow> c' mod 10 \<noteq> 0 \<and> scaled c' e' = scaled c e)"
proof (induction c e rule: normal_from.induct)
  case (1 c e)
  show ?case
  proof (cases "c mod 10 = 0")
    case True
    then obtain q where q: "c = q * 10" by (metis dvdE mod_0_imp_dvd mult.commute)
    have "scaled q (e + 1) = scaled c e" using scaled_shift [of 1 q e] by (simp add: q)
    with 1 q True show ?thesis by (subst normal_from.simps) auto
  next
    case False
    with 1 show ?thesis by (subst normal_from.simps) simp
  qed
qed

lemma decimal_new_spec: "normal (decimal_new c e) \<and> decimal_value (decimal_new c e) = scaled c e"
  using normal_from_spec [of c e]
  by (auto simp: decimal_new_def normal_decimal_def normal_def decimal_value_def split: prod.splits)

lemma try_new_iff: "decimal_try_new c e = Ok d \<longleftrightarrow> decimal_ok d \<and> decimal_value d = scaled c e"
  using decimal_new_spec [of c e] normal_unique [of d "decimal_new c e"]
  by (auto simp: decimal_try_new_def Let_def decimal_ok_def)

lemma try_new_Err: "decimal_try_new c e = Err x \<Longrightarrow> x = DecimalLimit"
  by (auto simp: decimal_try_new_def Let_def split: if_splits)

lemma decimal_ok_new: "decimal_ok d \<Longrightarrow> decimal_try_new (dc_coefficient d) (dc_exponent10 d) = Ok d"
  by (simp add: try_new_iff decimal_value_def)

lemma from_raw_iff: "decimal_from_raw r = Ok d \<longleftrightarrow> decimal_ok d \<and> r = decimal_raw d"
proof
  assume r: "decimal_from_raw r = Ok d"
  then obtain n c e where shape: "r = RTag n (RArray [RInt c, RInt e])"
    by (simp add: decimal_from_raw_def split: raw.splits list.splits if_splits)
  with r have n: "n = 60000" by (simp add: decimal_from_raw_def split: if_splits)
  obtain d' where d': "decimal_try_new c e = Ok d'"
    using r by (cases "decimal_try_new c e") (simp_all add: decimal_from_raw_def shape n)
  with r have "decimal_raw d' = r" "d' = d"
    by (simp_all add: decimal_from_raw_def shape n split: if_splits)
  with d' show "decimal_ok d \<and> r = decimal_raw d" by (simp add: try_new_iff)
next
  assume "decimal_ok d \<and> r = decimal_raw d"
  then show "decimal_from_raw r = Ok d" by (simp add: decimal_from_raw_def decimal_raw_def decimal_ok_new)
qed

section \<open>Sums and products\<close>

lemma try_add_parts_iff:
  assumes "\<bar>dc_exponent10 a - e\<bar> \<le> MAX_ABS_EXPONENT"
  shows "try_add_parts a c e = decimal_try_new
    (dc_coefficient a * 10 ^ nat (dc_exponent10 a - min (dc_exponent10 a) e) + c * 10 ^ nat (e - min (dc_exponent10 a) e))
    (min (dc_exponent10 a) e)"
  using assms by (auto simp: try_add_parts_def Let_def bounded_exponent_def pow10_def min_def)

lemma try_add_parts_exact:
  "try_add_parts a c e = Ok d \<longleftrightarrow>
     \<bar>dc_exponent10 a - e\<bar> \<le> MAX_ABS_EXPONENT \<and> decimal_ok d \<and> decimal_value d = decimal_value a + scaled c e"
proof (cases "\<bar>dc_exponent10 a - e\<bar> \<le> MAX_ABS_EXPONENT")
  case True
  have "scaled (dc_coefficient a * 10 ^ nat (dc_exponent10 a - min (dc_exponent10 a) e)
        + c * 10 ^ nat (e - min (dc_exponent10 a) e)) (min (dc_exponent10 a) e) = decimal_value a + scaled c e"
    by (simp add: decimal_value_def scaled_shift flip: scaled_add)
  with True show ?thesis by (simp add: try_add_parts_iff try_new_iff)
next
  case False
  then have "try_add_parts a c e = Err DecimalLimit" by (auto simp: try_add_parts_def Let_def)
  with False show ?thesis by simp
qed

text \<open>
  C28. Addition, subtraction and multiplication of decimals are exact: each returns the one normalised decimal of
  the exact result, and refuses with the limit error, never with another, exactly when that decimal has an
  exponent out of bounds or, for sums, the exponents of the arguments lie further apart than the bound.
\<close>

theorem decimal_arithmetic_exact:
  "(try_multiply a b = Ok d \<longleftrightarrow> decimal_ok d \<and> decimal_value d = decimal_value a * decimal_value b)
   \<and> (try_add a b = Ok d \<longleftrightarrow> \<bar>dc_exponent10 a - dc_exponent10 b\<bar> \<le> MAX_ABS_EXPONENT
        \<and> decimal_ok d \<and> decimal_value d = decimal_value a + decimal_value b)
   \<and> (try_subtract a b = Ok d \<longleftrightarrow> \<bar>dc_exponent10 a - dc_exponent10 b\<bar> \<le> MAX_ABS_EXPONENT
        \<and> decimal_ok d \<and> decimal_value d = decimal_value a - decimal_value b)
   \<and> {try_multiply a b, try_add a b, try_subtract a b} \<subseteq> range Inr \<union> {Err DecimalLimit}"
proof -
  have err: "try_add_parts a c e \<in> range Inr \<union> {Err DecimalLimit}" for c e
    by (cases "try_add_parts a c e")
      (auto simp: try_add_parts_def Let_def bounded_exponent_def dest: try_new_Err split: if_splits sum.splits)
  have "try_multiply a b \<in> range Inr \<union> {Err DecimalLimit}"
    by (cases "try_multiply a b") (auto simp: try_multiply_def dest: try_new_Err)
  with err show ?thesis
    by (simp add: try_multiply_def try_add_def try_subtract_def try_new_iff try_add_parts_exact)
      (simp add: decimal_value_def scaled_mult)
qed

section \<open>Quotients\<close>

lemma strip_factor_spec:
  "1 < p \<Longrightarrow> 0 < d \<Longrightarrow> (case strip_factor p d n of (d', n') \<Rightarrow>
     n \<le> n' \<and> d = d' * p ^ (n' - n) \<and> 0 < d' \<and> \<not> p dvd d')"
proof (induction p d n rule: strip_factor.induct)
  case (1 p d n)
  show ?case
  proof (cases "d mod p = 0")
    case True
    with 1 obtain q where q: "d = q * p" by (metis dvdE mod_0_imp_dvd mult.commute)
    with 1 have "0 < q" by (simp add: zero_less_mult_iff)
    with 1 True q have IH: "case strip_factor p q (n + 1) of (d', n') \<Rightarrow>
        n + 1 \<le> n' \<and> q = d' * p ^ (n' - (n + 1)) \<and> 0 < d' \<and> \<not> p dvd d'" by simp
    have "p ^ (m - n) = p ^ (m - (n + 1)) * p" if "n + 1 \<le> m" for m
      using that by (metis Suc_diff_le Suc_eq_plus1 diff_Suc_Suc power_Suc2)
    with 1 True q IH show ?thesis by (subst strip_factor.simps) (auto split: prod.splits)
  next
    case False
    with 1 show ?thesis by (subst strip_factor.simps) (auto simp: dvd_eq_mod_eq_0)
  qed
qed

lemma scaled_eq_nat:
  assumes "scaled x e = scaled y f"
  obtains m n where "x * 10 ^ m = y * 10 ^ n"
proof -
  let ?l = "min e f"
  have "scaled (x * 10 ^ nat (e - ?l)) ?l = scaled (y * 10 ^ nat (f - ?l)) ?l"
    using assms by (simp add: scaled_shift)
  then have "x * 10 ^ nat (e - ?l) = y * 10 ^ nat (f - ?l)"
    unfolding scaled_def by (simp flip: of_int_mult of_int_power)
  then show thesis by (rule that)
qed

text \<open>The reduced fraction of a quotient, and the part of its denominator that is prime to ten.\<close>

lemma divide_parts:
  assumes "ca \<noteq> 0" and "cb \<noteq> (0 :: int)"
  defines "num \<equiv> if cb < 0 then - (ca div gcd ca cb) else ca div gcd ca cb"
    and "den \<equiv> \<bar>cb div gcd ca cb\<bar>"
  shows "0 < den" and "coprime num den" and "num * cb = ca * den"
proof -
  let ?g = "gcd ca cb"
  have g: "0 < ?g" "ca = ca div ?g * ?g" "cb = cb div ?g * ?g" using assms(1) by simp_all
  have quot: "cb div ?g \<noteq> 0"
  proof
    assume "cb div ?g = 0"
    with g(3) have "cb = 0 * ?g" by argo
    with assms(2) show False by simp
  qed
  then show "0 < den" by (simp add: den_def)
  have "coprime (ca div ?g) (cb div ?g)" using assms(2) by (simp add: div_gcd_coprime)
  then show "coprime num den" by (simp add: num_def den_def)
  have sign: "cb < 0 \<longleftrightarrow> cb div ?g < 0" using g by (metis mult_less_0_iff order.asym)
  have "ca div ?g * cb = ca * (cb div ?g)"
    by (metis (no_types, lifting) g(2,3) mult.assoc mult.commute)
  with sign quot show "num * cb = ca * den" by (auto simp: num_def den_def)
qed

lemma coprime_10:
  assumes "\<not> 2 dvd r" and "\<not> 5 dvd (r :: int)"
  shows "coprime r (10 ^ n)"
proof -
  have "r mod 5 \<in> {1, 2, 3, 4}" using assms(2) by (simp add: dvd_eq_mod_eq_0) presburger
  then have "gcd 5 (r mod 5) = 1" by (elim insertE emptyE) (simp_all add: gcd_non_0_int)
  then have "coprime r 5" by (simp add: coprime_iff_gcd_eq_1 gcd_red_int [of r 5])
  moreover have "coprime r 2" using assms(1) by simp
  ultimately have "coprime r (2 * 5)" by (simp only: coprime_mult_right_iff)
  then show ?thesis by simp
qed

lemma exact_needs_one:
  assumes fraction: "num * cb = ca * den" and "ca \<noteq> 0" and "coprime num den"
    and r: "r dvd den" "0 < r" "\<not> 2 dvd r" "\<not> 5 dvd (r :: int)"
    and quotient: "scaled c e * scaled cb eb = scaled ca ea"
  shows "r = 1"
proof -
  have "scaled (c * cb) (e + eb) = scaled ca ea" using quotient by (simp add: scaled_mult)
  then obtain m n where mn: "c * cb * 10 ^ m = ca * 10 ^ n" by (rule scaled_eq_nat)
  have "ca * (c * den * 10 ^ m) = c * 10 ^ m * (ca * den)" by (simp add: algebra_simps)
  also have "\<dots> = num * (c * cb * 10 ^ m)" unfolding fraction [symmetric] by (simp add: algebra_simps)
  finally have "ca * (c * den * 10 ^ m) = ca * (num * 10 ^ n)" unfolding mn by (simp add: algebra_simps)
  then have "c * den * 10 ^ m = num * 10 ^ n" using \<open>ca \<noteq> 0\<close> by simp
  with r(1) have "r dvd num * 10 ^ n" by (metis dvd_mult dvd_mult2)
  moreover have "coprime r num" using \<open>coprime num den\<close> r(1) by (metis coprime_commute coprime_divisors dvd_refl)
  ultimately have "r dvd 10 ^ n" by (simp add: coprime_dvd_mult_right_iff)
  with coprime_common_divisor [OF coprime_10 [OF r(3,4), of n] dvd_refl] have "is_unit r" by blast
  with r(2) show ?thesis by simp
qed

lemma quotient_value:
  assumes fraction: "num * cb = ca * den" and den: "den = 2 ^ twos * 5 ^ fives" and s: "twos \<le> s" "fives \<le> s"
  shows "scaled (num * 2 ^ (s - twos) * 5 ^ (s - fives)) (ea - eb - int s) * scaled cb eb = scaled ca ea"
proof -
  have "num * 2 ^ (s - twos) * 5 ^ (s - fives) * cb = ca * den * 2 ^ (s - twos) * 5 ^ (s - fives)"
    using fraction by (metis mult.assoc mult.commute)
  also have "\<dots> = ca * (2 ^ twos * 2 ^ (s - twos)) * (5 ^ fives * 5 ^ (s - fives))"
    by (simp add: den algebra_simps)
  also have "\<dots> = ca * 10 ^ s" using s by (simp flip: power_add power_mult_distrib)
  finally have "num * 2 ^ (s - twos) * 5 ^ (s - fives) * cb = ca * 10 ^ nat (int s)" by simp
  then show ?thesis using scaled_shift [of "int s" ca "ea - int s"] by (simp add: scaled_mult)
qed

lemma power_10_dvd:
  "2 ^ t * 5 ^ f dvd (10 ^ s :: int) \<longleftrightarrow> t \<le> s \<and> f \<le> s"
proof -
  have ten: "(10 :: int) ^ s = 2 ^ s * 5 ^ s" by (simp flip: power_mult_distrib)
  have "coprime ((2 :: int) ^ m) (5 ^ n)" for m n
    by (intro coprime_power_left_iff [THEN iffD2] coprime_power_right_iff [THEN iffD2] disjI1)
      (simp add: coprime_iff_gcd_eq_1 gcd_red_int [of 2 5] gcd_red_int [of 5 2])
  note co = this
  show ?thesis
  proof
    assume "2 ^ t * 5 ^ f dvd (10 ^ s :: int)"
    then have "(2 :: int) ^ t dvd 2 ^ s * 5 ^ s" "(5 :: int) ^ f dvd 5 ^ s * 2 ^ s"
      unfolding ten by (auto simp: mult.commute dest: dvd_mult_left dvd_mult_right)
    with co [of t s] co [of s f] have "(2 :: int) ^ t dvd 2 ^ s" "(5 :: int) ^ f dvd 5 ^ s"
      by (auto simp: coprime_dvd_mult_left_iff coprime_commute)
    then show "t \<le> s \<and> f \<le> s" by (simp add: dvd_power_iff)
  next
    assume "t \<le> s \<and> f \<le> s"
    then show "2 ^ t * 5 ^ f dvd (10 ^ s :: int)" unfolding ten by (intro mult_dvd_mono le_imp_power_dvd) simp_all
  qed
qed

text \<open>
  The division as its reduced denominator decides it: with a factor prime to ten there is no finite quotient, with too
  many twos or fives the scale is out of bounds, and otherwise the quotient is made a decimal.
\<close>

lemma divide_exact_cases:
  assumes a: "dc_coefficient a \<noteq> 0" and b: "dc_coefficient b \<noteq> 0"
  defines "den \<equiv> \<bar>dc_coefficient b div gcd (dc_coefficient a) (dc_coefficient b)\<bar>"
  obtains (nonfinite) "divide_exact a b = Err NonFiniteDecimal"
      "\<not> (\<exists>c e. scaled c e * decimal_value b = decimal_value a)" "\<not> (\<exists>s. den dvd 10 ^ s)"
  | (scale) c e where "divide_exact a b = Err DecimalLimit" "scaled c e * decimal_value b = decimal_value a"
      "\<not> (\<exists>s. int s \<le> MAX_ABS_EXPONENT \<and> den dvd 10 ^ s)"
  | (quotient) c e s where "divide_exact a b = decimal_try_new c e" "scaled c e * decimal_value b = decimal_value a"
      "int s \<le> MAX_ABS_EXPONENT" "den dvd 10 ^ s"
proof -
  let ?ca = "dc_coefficient a" and ?cb = "dc_coefficient b"
  define num where "num = (if ?cb < 0 then - (?ca div gcd ?ca ?cb) else ?ca div gcd ?ca ?cb)"
  note parts = divide_parts [OF a b, folded num_def den_def]
  obtain odd twos where two: "strip_factor 2 den 0 = (odd, twos)" by (cases "strip_factor 2 den 0")
  obtain r fives where five: "strip_factor 5 odd 0 = (r, fives)" by (cases "strip_factor 5 odd 0")
  have odd: "den = odd * 2 ^ twos" "0 < odd" "\<not> 2 dvd odd"
    using strip_factor_spec [of 2 den 0] parts(1) two by simp_all
  have r: "odd = r * 5 ^ fives" "0 < r" "\<not> 5 dvd r"
    using strip_factor_spec [of 5 odd 0] odd(2) five by simp_all
  have "\<not> 2 dvd r" using odd(3) r(1) by simp
  have "r dvd den" using odd(1) r(1) by simp
  have result: "divide_exact a b = (if r \<noteq> 1 then Err NonFiniteDecimal
      else if MAX_ABS_EXPONENT < int (max twos fives) then Err DecimalLimit
      else decimal_try_new (num * 2 ^ (max twos fives - twos) * 5 ^ (max twos fives - fives))
             (dc_exponent10 a - dc_exponent10 b - int (max twos fives)))"
    using a b by (simp add: divide_exact_def Let_def two [unfolded den_def] five num_def)
  show thesis
  proof (cases "r = 1")
    case False
    have none: "\<not> den dvd 10 ^ s" for s
    proof
      assume "den dvd 10 ^ s"
      with \<open>r dvd den\<close> have "r dvd 10 ^ s" by (rule dvd_trans)
      with coprime_common_divisor [OF coprime_10 [OF \<open>\<not> 2 dvd r\<close> r(3), of s] dvd_refl] have "is_unit r" by blast
      with r(2) False show False by simp
    qed
    show thesis
      by (rule nonfinite) (use False result none in \<open>simp_all add: decimal_value_def\<close>,
        use False exact_needs_one [OF parts(3) a parts(2) \<open>r dvd den\<close> r(2) \<open>\<not> 2 dvd r\<close> r(3)] in blast)
  next
    case True
    then have den: "den = 2 ^ twos * 5 ^ fives" using odd(1) r(1) by simp
    have quot: "scaled (num * 2 ^ (max twos fives - twos) * 5 ^ (max twos fives - fives))
        (dc_exponent10 a - dc_exponent10 b - int (max twos fives)) * decimal_value b = decimal_value a"
      unfolding decimal_value_def by (rule quotient_value [OF parts(3) den]) simp_all
    show thesis
    proof (cases "MAX_ABS_EXPONENT < int (max twos fives)")
      case big: True
      then have "\<not> (\<exists>s. int s \<le> MAX_ABS_EXPONENT \<and> den dvd 10 ^ s)" unfolding den power_10_dvd by auto
      with quot result True big show thesis by (intro scale) simp_all
    next
      case False
      then have "int (max twos fives) \<le> MAX_ABS_EXPONENT" "den dvd 10 ^ max twos fives"
        unfolding den power_10_dvd by simp_all
      with quot result True False show thesis by (intro quotient) simp_all
    qed
  qed
qed

lemma zero_decimal: "decimal_ok q \<and> decimal_value q = 0 \<longleftrightarrow> q = decimal_new 0 0"
proof -
  have "decimal_ok (decimal_new 0 0)" "decimal_value (decimal_new 0 0) = 0"
    using decimal_new_spec [of 0 0]
    by (simp_all add: decimal_ok_def MAX_ABS_EXPONENT_def) (simp add: decimal_new_def normal_decimal_def)
  then show ?thesis using normal_unique [of q "decimal_new 0 0"] by (auto simp: decimal_ok_def)
qed

lemma quotient_decimal:
  assumes "divide_exact a b = decimal_try_new c e" and "scaled c e * decimal_value b = decimal_value a"
    and "decimal_value b \<noteq> 0"
  shows "divide_exact a b = Ok d \<longleftrightarrow> decimal_ok d \<and> decimal_value d * decimal_value b = decimal_value a"
    and "(\<exists>q. divide_exact a b = Ok q) \<or> divide_exact a b = Err DecimalLimit"
proof -
  show ok: "divide_exact a b = Ok d \<longleftrightarrow> decimal_ok d \<and> decimal_value d * decimal_value b = decimal_value a" for d
    using assms(3) unfolding assms(1) try_new_iff assms(2) [symmetric] by simp
  show "(\<exists>q. divide_exact a b = Ok q) \<or> divide_exact a b = Err DecimalLimit"
    using try_new_Err [of c e] unfolding assms(1) by (cases "decimal_try_new c e") auto
qed

text \<open>
  C29. Division of decimals is exact, and each refusal has exactly its reason. The quotient is the one normalised
  decimal within the limits whose product with the divisor is the dividend. It is given exactly when it exists and the
  denominator of the reduced fraction of the coefficients divides some power of ten \<open>10^s\<close> with
  \<open>s \<le> MAX_ABS_EXPONENT\<close>. A division by zero is refused as such; \<open>NonFiniteDecimal\<close> is
  reported exactly when no finite decimal, of any size, is the quotient; and \<open>DecimalLimit\<close> exactly when a finite
  quotient exists but it, or the scale that its denominator needs, is out of the limits. There is no other error.
\<close>

theorem decimal_division_exact:
  "(divide_exact a b = Ok d \<longleftrightarrow>
      decimal_value b \<noteq> 0 \<and> decimal_ok d \<and> decimal_value d * decimal_value b = decimal_value a
      \<and> (\<exists>s. int s \<le> MAX_ABS_EXPONENT
             \<and> \<bar>dc_coefficient b div gcd (dc_coefficient a) (dc_coefficient b)\<bar> dvd 10 ^ s))
   \<and> (divide_exact a b = Err DivisionByZero \<longleftrightarrow> decimal_value b = 0)
   \<and> (divide_exact a b = Err NonFiniteDecimal \<longleftrightarrow>
      decimal_value b \<noteq> 0 \<and> (\<nexists>c e. scaled c e * decimal_value b = decimal_value a))
   \<and> (divide_exact a b = Err DecimalLimit \<longleftrightarrow>
      decimal_value b \<noteq> 0 \<and> (\<exists>c e. scaled c e * decimal_value b = decimal_value a)
      \<and> \<not> ((\<exists>q. decimal_ok q \<and> decimal_value q * decimal_value b = decimal_value a)
           \<and> (\<exists>s. int s \<le> MAX_ABS_EXPONENT
                  \<and> \<bar>dc_coefficient b div gcd (dc_coefficient a) (dc_coefficient b)\<bar> dvd 10 ^ s)))
   \<and> (\<exists>r. divide_exact a b = Ok r \<or> divide_exact a b \<in> {Err DivisionByZero, Err NonFiniteDecimal, Err DecimalLimit})"
proof -
  consider (zero) "dc_coefficient b = 0" | (null) "dc_coefficient b \<noteq> 0" "dc_coefficient a = 0"
    | (fraction) "dc_coefficient b \<noteq> 0" "dc_coefficient a \<noteq> 0" by blast
  then show ?thesis
  proof cases
    case zero
    then have "divide_exact a b = Err DivisionByZero" by (simp add: divide_exact_def)
    with zero show ?thesis by (simp add: decimal_value_def)
  next
    case null
    then have run: "divide_exact a b = Ok (decimal_new 0 0)" by (simp add: divide_exact_def)
    have zero_ok: "decimal_ok q \<and> decimal_value q = 0 \<longleftrightarrow> q = decimal_new 0 0" for q by (rule zero_decimal)
    have "\<bar>dc_coefficient b div gcd (dc_coefficient a) (dc_coefficient b)\<bar> dvd 10 ^ 0"
      using null by (simp add: abs_div)
    then have scale: "\<exists>s. int s \<le> MAX_ABS_EXPONENT \<and> \<bar>dc_coefficient b div gcd (dc_coefficient a) (dc_coefficient b)\<bar> dvd 10 ^ s"
      by (intro exI [of _ 0]) (simp add: MAX_ABS_EXPONENT_def)
    have "decimal_value b \<noteq> 0" "decimal_value a = 0" using null by (simp_all add: decimal_value_def)
    with run scale zero_ok scaled_simps(1) show ?thesis by (auto simp del: scaled_simps)
  next
    case fraction
    then have b: "decimal_value b \<noteq> 0" by (simp add: decimal_value_def)
    from fraction(2,1) show ?thesis
    proof (cases rule: divide_exact_cases)
      case nonfinite
      with b show ?thesis by (auto simp: decimal_value_def)
    next
      case (scale c e)
      with b show ?thesis by auto
    next
      case (quotient c e s)
      note ok = quotient_decimal [OF quotient(1,2) b]
      have exact: "\<exists>c e. scaled c e * decimal_value b = decimal_value a" using quotient(2) by blast
      have scale: "\<exists>s. int s \<le> MAX_ABS_EXPONENT \<and> \<bar>dc_coefficient b div gcd (dc_coefficient a) (dc_coefficient b)\<bar> dvd 10 ^ s"
        using quotient(3,4) by blast
      show ?thesis
      proof (cases "\<exists>q. divide_exact a b = Ok q")
        case True
        with ok(1) b exact scale show ?thesis by auto
      next
        case False
        with ok(2) have limit: "divide_exact a b = Err DecimalLimit" by blast
        with ok(1) b exact scale show ?thesis by auto
      qed
    qed
  qed
qed

section \<open>Decimal digits\<close>

lemma digits_value_Cons: "digits_value (c # s) = digit_value c * 10 ^ length s + digits_value s"
proof -
  have "foldl (\<lambda>acc c. 10 * acc + digit_value c) n s = n * 10 ^ length s + digits_value s" for n
    unfolding digits_value_def
  proof (induction s arbitrary: n rule: rev_induct)
    case (snoc c s)
    show ?case using snoc [of n] snoc [of 0] by (simp add: algebra_simps)
  qed simp
  from this [of "digit_value c"] show ?thesis by (simp add: digits_value_def)
qed

lemma digit_value_bounds: "is_ascii_digit c \<Longrightarrow> 0 \<le> digit_value c \<and> digit_value c \<le> 9"
  by (simp add: is_ascii_digit_def digit_value_def Let_def)

lemma digits_value_bounds:
  "list_all is_ascii_digit s \<Longrightarrow> 0 \<le> digits_value s \<and> digits_value s < 10 ^ length s"
proof (induction s)
  case (Cons c s)
  then have "0 \<le> digit_value c" "digit_value c \<le> 9" "0 \<le> digits_value s" "digits_value s < 10 ^ length s"
    using digit_value_bounds by simp_all
  moreover from this have "digit_value c * 10 ^ length s \<le> 9 * 10 ^ length s" by (simp add: mult_right_mono)
  moreover have "0 \<le> digit_value c * 10 ^ length s" using \<open>0 \<le> digit_value c\<close> by simp
  ultimately have "0 \<le> digits_value (c # s)" "digits_value (c # s) < 9 * 10 ^ length s + 10 ^ length s"
    unfolding digits_value_Cons by linarith+
  then show ?case by simp
qed (simp add: digits_value_def)

lemma show_digits: "0 \<le> n \<Longrightarrow> list_all is_ascii_digit (show_int_digits n)"
  using show_int_digits_facts [of n] by (auto simp: list_all_iff digit_char_facts)

lemma show_digits_head: "0 < n \<Longrightarrow> hd (show_int_digits n) \<noteq> CHR ''0''"
proof (induction n rule: show_int_digits.induct)
  case (1 n)
  show ?case
  proof (cases "n < 10")
    case True
    have "digit_value (digit_char (nat n)) = n" using True 1 by (simp add: digit_char_facts)
    moreover have "digit_value (CHR ''0'') = 0" by (simp add: digit_value_def)
    ultimately have "digit_char (nat n) \<noteq> CHR ''0''" using 1 by auto
    with True show ?thesis by (subst show_int_digits.simps) simp
  next
    case False
    with 1 have "hd (show_int_digits (n div 10)) \<noteq> CHR ''0''" "show_int_digits (n div 10) \<noteq> []"
      using show_int_digits_facts [of "n div 10"] by simp_all
    with False show ?thesis by (subst show_int_digits.simps) (simp add: hd_append)
  qed
qed

lemma show_digits_bounds:
  assumes "0 < n"
  shows "10 ^ (length (show_int_digits n) - 1) \<le> n" and "n < 10 ^ length (show_int_digits n)"
proof -
  note facts = show_int_digits_facts [of n]
  obtain c s where s: "show_int_digits n = c # s" using facts assms by (cases "show_int_digits n") auto
  have digits: "list_all is_ascii_digit (c # s)" using show_digits [of n] assms by (simp add: s)
  have val: "digits_value (c # s) = n" using facts assms by (simp add: s)
  show "n < 10 ^ length (show_int_digits n)" using digits_value_bounds [OF digits] val by (simp add: s)
  have "digit_value c \<noteq> 0"
  proof
    assume "digit_value c = 0"
    then have "of_char c = (of_char (CHR ''0'') :: nat)" by (simp add: digit_value_def)
    then have "c = CHR ''0''" by (simp only: of_char_eq_iff)
    with show_digits_head [OF assms] show False by (simp add: s)
  qed
  then have "1 \<le> digit_value c" using digit_value_bounds [of c] digits by simp
  then have "1 * 10 ^ length s \<le> digit_value c * 10 ^ length s" by (rule mult_right_mono) simp
  moreover have "0 \<le> digits_value s" using digits_value_bounds [of s] digits by simp
  ultimately have "10 ^ length s \<le> n" using val unfolding digits_value_Cons by linarith
  then show "10 ^ (length (show_int_digits n) - 1) \<le> n" by (simp add: s)
qed

section \<open>Canonical text\<close>

lemma sign_not_digit: "is_ascii_digit c \<Longrightarrow> c \<noteq> CHR ''-'' \<and> c \<noteq> CHR ''e''"
  by (auto simp: is_ascii_digit_def)

lemma show_int_parts:
  "strip_sign (show_int i) = (i < 0, show_int_digits \<bar>i\<bar>)"
  "show_int i \<noteq> []" "CHR ''e'' \<notin> set (show_int i)"
proof -
  have digits: "list_all is_ascii_digit (show_int_digits \<bar>i\<bar>)" "show_int_digits \<bar>i\<bar> \<noteq> []"
    using show_digits [of "\<bar>i\<bar>"] show_int_digits_facts [of "\<bar>i\<bar>"] by simp_all
  then obtain c s where s: "show_int_digits \<bar>i\<bar> = c # s" by (cases "show_int_digits \<bar>i\<bar>") simp_all
  with digits have "c \<noteq> CHR ''-''" using sign_not_digit by simp
  have i: "show_int i = (if i < 0 then CHR ''-'' # c # s else c # s)"
    using s by (cases "i < 0") (simp_all add: show_int_def abs_if)
  show "strip_sign (show_int i) = (i < 0, show_int_digits \<bar>i\<bar>)"
    unfolding i s strip_sign_def strip_prefix_def using \<open>c \<noteq> CHR ''-''\<close> by simp
  show "show_int i \<noteq> []" unfolding i by simp
  have "CHR ''e'' \<notin> set (show_int_digits \<bar>i\<bar>)"
    using digits(1) sign_not_digit [of "CHR ''e''"] unfolding list_all_iff by blast
  then show "CHR ''e'' \<notin> set (show_int i)" unfolding i s by simp
qed

lemma show_zero: "show_int_digits n = ''0'' \<longleftrightarrow> n = 0" if "0 \<le> n"
proof
  assume "show_int_digits n = ''0''"
  then have "digits_value ''0'' = n" using show_int_digits_facts [OF that] by simp
  then show "n = 0" by (simp add: digits_value_def digit_value_def)
next
  have "char_of (of_char (CHR ''0'') :: nat) = CHR ''0''" by (rule char_of_char)
  then show "n = 0 \<Longrightarrow> show_int_digits n = ''0''" by (simp add: show_int_digits.simps digit_char_def)
qed

lemma no_leading_zero: "0 \<le> n \<Longrightarrow> \<not> (1 < length (show_int_digits n) \<and> hd (show_int_digits n) = CHR ''0'')"
  using show_digits_head [of n] show_zero [of n] by (cases "n = 0") simp_all

lemma coefficient_of_show: "coefficient_from_text (show_int c) = Ok c"
  using show_int_parts [of c] show_digits [of "\<bar>c\<bar>"] show_int_digits_facts [of "\<bar>c\<bar>"] no_leading_zero [of "\<bar>c\<bar>"] show_zero [of "\<bar>c\<bar>"]
  by (auto simp: coefficient_from_text_def)

lemma exponent_of_show: "exponent_from_text (show_int e) = Ok e" if "\<bar>e\<bar> \<le> MAX_ABS_EXPONENT"
proof -
  have "length (show_int_digits \<bar>e\<bar>) \<le> 7"
  proof (rule ccontr)
    assume long: "\<not> ?thesis"
    then have "e \<noteq> 0" using show_zero [of 0] by auto
    then have "10 ^ (length (show_int_digits \<bar>e\<bar>) - 1) \<le> \<bar>e\<bar>" by (intro show_digits_bounds) simp
    moreover have "(10 :: int) ^ 7 \<le> 10 ^ (length (show_int_digits \<bar>e\<bar>) - 1)" using long by (intro power_increasing) auto
    ultimately show False using that by (simp add: MAX_ABS_EXPONENT_def)
  qed
  then show ?thesis
    using show_int_parts [of e] show_digits [of "\<bar>e\<bar>"] show_int_digits_facts [of "\<bar>e\<bar>"] no_leading_zero [of "\<bar>e\<bar>"]
    by (auto simp: exponent_from_text_def)
qed

lemma split_at_e: "CHR ''e'' \<notin> set a \<Longrightarrow> split_once ''e'' (a @ CHR ''e'' # b) = Some (a, b)"
  by (induction a) auto

text \<open>
  C30. The canonical text is a bijection. A text is read as a decimal exactly when it is that decimal's
  canonical spelling and the decimal is normalised and within the exponent bound, so no decimal has two spellings.
\<close>

theorem decimal_text_round_trip:
  "from_canonical_text t = Ok d \<longleftrightarrow> decimal_ok d \<and> t = canonical_text d"
proof
  assume t: "from_canonical_text t = Ok d"
  then obtain a b c e where "coefficient_from_text a = Ok c" "exponent_from_text b = Ok e"
      and new: "(case decimal_try_new c e of Inl x \<Rightarrow> Err x | Inr d \<Rightarrow> if canonical_text d \<noteq> t then Err NonCanonical else Ok d) = Ok d"
    unfolding from_canonical_text_def by (auto split: option.splits prod.splits if_splits sum.splits)
  then obtain d' where "decimal_try_new c e = Ok d'" by (cases "decimal_try_new c e") simp_all
  with new show "decimal_ok d \<and> t = canonical_text d" by (auto simp: try_new_iff split: if_splits)
next
  assume d: "decimal_ok d \<and> t = canonical_text d"
  let ?body = "show_int (dc_coefficient d) @ CHR ''e'' # show_int (dc_exponent10 d)"
  have t: "t = ?body @ ''.decimal''" using d by (simp add: canonical_text_def)
  have "strip_end ''.decimal'' t = Some ?body" unfolding t strip_end_def by simp
  with d show "from_canonical_text t = Ok d"
    using split_at_e [OF show_int_parts(3), of "dc_coefficient d" "show_int (dc_exponent10 d)"]
    by (simp add: from_canonical_text_def show_int_parts coefficient_of_show exponent_of_show decimal_ok_def decimal_ok_new)
qed

section \<open>Comparison\<close>

lemma cmp_simps:
  "cmp a b = Less \<longleftrightarrow> a < b" "cmp a b = Equal \<longleftrightarrow> a = b" "cmp a b = Greater \<longleftrightarrow> b < a"
  by (auto simp: cmp_def)

lemma cmp_refl [simp]: "cmp a a = Equal"
  by (simp add: cmp_def)

lemma cmp_rev: "reverse_order (cmp a b) = cmp b a"
  by (auto simp: cmp_def)

lemma cmp_mono: "(a < b \<longleftrightarrow> x < y) \<Longrightarrow> (a = b \<longleftrightarrow> x = y) \<Longrightarrow> cmp a b = cmp x y"
  by (simp add: cmp_def)

text \<open>The digits of \<open>s\<close> padded to \<open>n\<close> places.\<close>

definition padded :: "nat \<Rightarrow> string \<Rightarrow> string" where
  "padded n s = map (digit_at s) [0..<n]"

lemma digits_value_snoc: "digits_value (s @ [c]) = digits_value s * 10 + digit_value c"
  by (simp add: digits_value_def)

lemma padded_value: "length s \<le> n \<Longrightarrow> digits_value (padded n s) = digits_value s * 10 ^ (n - length s)"
proof (induction n)
  case (Suc n)
  show ?case
  proof (cases "length s \<le> n")
    case True
    have "digit_at s n = CHR ''0''" using True by (simp add: digit_at_def)
    moreover have "digit_value (CHR ''0'') = 0" by (simp add: digit_value_def)
    ultimately show ?thesis using Suc.IH [OF True] True by (simp add: padded_def digits_value_snoc Suc_diff_le)
  next
    case False
    then have "padded (Suc n) s = s" using Suc.prems
      by (intro nth_equalityI) (auto simp: padded_def digit_at_def simp del: upt_Suc)
    then show ?thesis using False Suc.prems by simp
  qed
qed (simp add: padded_def)

lemma padded_digits: "list_all is_ascii_digit s \<Longrightarrow> list_all is_ascii_digit (padded n s)"
  by (auto simp: padded_def digit_at_def list_all_iff) (simp add: is_ascii_digit_def)

fun lex_order :: "string \<Rightarrow> string \<Rightarrow> ordering" where
  "lex_order (a # as) (b # bs) = (case cmp (of_char a :: nat) (of_char b) of Equal \<Rightarrow> lex_order as bs | order \<Rightarrow> order)"
| "lex_order _ _ = Equal"

lemma compare_digits_lex: "compare_digits a b is = lex_order (map (digit_at a) is) (map (digit_at b) is)"
  by (induction "is") (auto split: ordering.splits)

lemma lex_order_value:
  "length a = length b \<Longrightarrow> list_all is_ascii_digit a \<Longrightarrow> list_all is_ascii_digit b \<Longrightarrow>
   lex_order a b = cmp (digits_value a) (digits_value b)"
proof (induction a b rule: list_induct2)
  case (Cons x xs y ys)
  have tails: "0 \<le> digits_value xs" "digits_value xs < 10 ^ length xs" "0 \<le> digits_value ys" "digits_value ys < 10 ^ length xs"
    using digits_value_bounds [of xs] digits_value_bounds [of ys] Cons.prems Cons.hyps by simp_all
  have gap: "v * k + m < w * k + n" if "v < w" "0 \<le> m" "m < k" "0 \<le> n" for v w k m n :: int
  proof -
    have "v * k + m < (v + 1) * k" using that by (simp add: algebra_simps)
    also have "\<dots> \<le> w * k" using that by (intro mult_right_mono) auto
    finally show ?thesis using that by simp
  qed
  show ?case
  proof (cases "digit_value x" "digit_value y" rule: linorder_cases)
    case less
    have "digits_value (x # xs) < digits_value (y # ys)"
      unfolding digits_value_Cons Cons.hyps using gap [OF less tails(1) _ tails(3)] tails Cons.hyps by simp
    moreover have "of_char x < (of_char y :: nat)" using less by (simp add: digit_value_def)
    ultimately show ?thesis by (simp add: cmp_def)
  next
    case equal
    then have "x = y" by (simp add: digit_value_def)
    with Cons show ?thesis by (simp add: digits_value_Cons cmp_def)
  next
    case greater
    have "digits_value (y # ys) < digits_value (x # xs)"
      unfolding digits_value_Cons Cons.hyps using gap [OF greater tails(3) _ tails(1)] tails Cons.hyps by simp
    moreover have "of_char y < (of_char x :: nat)" using greater by (simp add: digit_value_def)
    ultimately show ?thesis by (auto simp: cmp_def)
  qed
qed (simp add: digits_value_def)

lemma compare_digits_value:
  assumes "list_all is_ascii_digit a" and "list_all is_ascii_digit b"
  defines "n \<equiv> max (length a) (length b)"
  shows "compare_digits a b [0..<n] = cmp (digits_value a * 10 ^ (n - length a)) (digits_value b * 10 ^ (n - length b))"
proof -
  have "compare_digits a b [0..<n] = lex_order (padded n a) (padded n b)"
    by (simp only: compare_digits_lex padded_def)
  also have "\<dots> = cmp (digits_value (padded n a)) (digits_value (padded n b))"
    using assms by (intro lex_order_value padded_digits) (simp_all add: padded_def)
  finally show ?thesis by (simp add: padded_value n_def)
qed

lemma cmp_scale: "cmp (scaled x e) (scaled y e) = cmp x y"
proof (rule cmp_mono)
  show "scaled x e < scaled y e \<longleftrightarrow> x < y"
    using scaled_less_0(1) [of "x - y" e] by (simp add: scaled_def left_diff_distrib)
qed (simp add: scaled_def)

text \<open>The magnitude of a number with \<open>k\<close> digits and exponent \<open>e\<close> lies in the decade below \<open>e + k\<close>.\<close>

lemma position_bounds:
  assumes "0 < c"
  defines "k \<equiv> int (length (show_int_digits c))"
  shows "scaled 1 (e + k - 1) \<le> scaled c e" and "scaled c e < scaled 1 (e + k)"
proof -
  have pos: "0 < k" using show_int_digits_facts [of c] assms(1) by (simp add: k_def)
  have le: "scaled x e \<le> scaled y e \<longleftrightarrow> x \<le> y" for x y :: int
    using cmp_scale [of x e y] by (auto simp: cmp_def not_less split: if_splits)
  have lt: "scaled x e < scaled y e \<longleftrightarrow> x < y" for x y :: int
    using cmp_scale [of x e y] by (auto simp: cmp_def split: if_splits)
  have "nat (k - 1) = length (show_int_digits c) - 1" "nat k = length (show_int_digits c)" by (auto simp: k_def)
  then have "10 ^ nat (k - 1) \<le> c" "c < 10 ^ nat k" using show_digits_bounds [OF assms(1)] by simp_all
  moreover have "scaled (10 ^ nat (k - 1)) e = scaled 1 (e + k - 1)" "scaled (10 ^ nat k) e = scaled 1 (e + k)"
    using scaled_shift [of "k - 1" 1 e] scaled_shift [of k 1 e] pos by (simp_all add: algebra_simps)
  ultimately show "scaled 1 (e + k - 1) \<le> scaled c e" "scaled c e < scaled 1 (e + k)"
    using le [of "10 ^ nat (k - 1)" c] lt [of c "10 ^ nat k"] by simp_all
qed

lemma scaled_1_mono: "a \<le> b \<Longrightarrow> scaled 1 a \<le> scaled 1 b"
  by (simp add: scaled_def power_int_increasing)

text \<open>Comparing two positive numbers by position and digits.\<close>

lemma compare_positive:
  assumes "0 < c" and "0 < d"
  defines "l \<equiv> show_int_digits c" and "r \<equiv> show_int_digits d"
  shows "(let order = cmp (e + int (length l)) (f + int (length r)) in
      if order = Equal then compare_digits l r [0..<max (length l) (length r)] else order) = cmp (scaled c e) (scaled d f)"
proof (cases "e + int (length l)" "f + int (length r)" rule: linorder_cases)
  case less
  have "scaled c e < scaled 1 (e + int (length l))" using position_bounds(2) [OF assms(1)] by (simp add: l_def)
  also have "\<dots> \<le> scaled 1 (f + int (length r) - 1)" using less by (intro scaled_1_mono) simp
  also have "\<dots> \<le> scaled d f" using position_bounds(1) [OF assms(2)] by (simp add: r_def)
  finally show ?thesis using less by (simp add: cmp_def)
next
  case greater
  have "scaled d f < scaled 1 (f + int (length r))" using position_bounds(2) [OF assms(2)] by (simp add: r_def)
  also have "\<dots> \<le> scaled 1 (e + int (length l) - 1)" using greater by (intro scaled_1_mono) simp
  also have "\<dots> \<le> scaled c e" using position_bounds(1) [OF assms(1)] by (simp add: l_def)
  finally show ?thesis using greater by (simp add: cmp_def)
next
  case equal
  define n where "n = max (length l) (length r)"
  have "compare_digits l r [0..<n] = cmp (c * 10 ^ (n - length l)) (d * 10 ^ (n - length r))"
    using compare_digits_value [of l r] show_digits [of c] show_digits [of d] show_int_digits_facts [of c]
      show_int_digits_facts [of d] assms(1,2) by (simp add: n_def l_def r_def)
  also have "\<dots> = cmp (scaled (c * 10 ^ (n - length l)) (e + int (length l) - int n))
      (scaled (d * 10 ^ (n - length r)) (e + int (length l) - int n))"
    by (simp only: cmp_scale)
  also have "scaled (c * 10 ^ (n - length l)) (e + int (length l) - int n) = scaled c e"
    by (simp add: scaled_shift_nat n_def of_nat_diff)
  also have "scaled (d * 10 ^ (n - length r)) (e + int (length l) - int n) = scaled d f"
    using equal by (simp add: scaled_shift_nat n_def of_nat_diff)
  finally show ?thesis using equal by (simp add: n_def)
qed

lemma compare_decimal_values:
  assumes "decimal_ok a" and "decimal_ok b"
  shows "compare_decimal_raw (decimal_raw a) (decimal_raw b) = Ok (cmp (decimal_value a) (decimal_value b))"
proof -
  let ?a = "dc_coefficient a" and ?b = "dc_coefficient b"
  have "compare_decimals a b = cmp (decimal_value a) (decimal_value b)"
  proof -
    consider (mixed) "?a = 0 \<or> ?b = 0 \<or> (?a < 0) \<noteq> (?b < 0)" | (pos) "0 < ?a" "0 < ?b" | (neg) "?a < 0" "?b < 0"
      by linarith
    then show ?thesis
    proof cases
      case mixed
      have sign: "0 < dc_coefficient x \<Longrightarrow> 0 < decimal_value x" "dc_coefficient x < 0 \<Longrightarrow> decimal_value x < 0"
          "dc_coefficient x = 0 \<Longrightarrow> decimal_value x = 0" for x
        by (simp_all add: decimal_value_def)
      consider "?a = 0" "?b = 0" | "?a = 0" "?b < 0" | "?a = 0" "0 < ?b" | "?b = 0" "?a < 0" | "?b = 0" "0 < ?a"
        | "?a < 0" "0 < ?b" | "0 < ?a" "?b < 0" using mixed by linarith
      then show ?thesis
        by cases (use sign [of a] sign [of b] in \<open>simp_all add: compare_decimals_def Let_def cmp_def\<close>)
    next
      case pos
      then show ?thesis
        using compare_positive [OF pos, of "dc_exponent10 a" "dc_exponent10 b"]
        by (simp add: compare_decimals_def Let_def decimal_value_def)
    next
      case neg
      then have abs: "\<bar>?a\<bar> = - ?a" "\<bar>?b\<bar> = - ?b" "0 < - ?a" "0 < - ?b" by simp_all
      have "compare_decimals a b = reverse_order (cmp (scaled (- ?a) (dc_exponent10 a)) (scaled (- ?b) (dc_exponent10 b)))"
        using neg compare_positive [OF abs(3,4), of "dc_exponent10 a" "dc_exponent10 b"]
        by (simp add: compare_decimals_def Let_def abs(1,2))
      then show ?thesis by (simp add: decimal_value_def cmp_def)
    qed
  qed
  with assms show ?thesis by (simp add: compare_decimal_raw_def from_raw_iff [THEN iffD2])
qed

text \<open>
  C27. Comparison of decimals is comparison of numbers. Two canonical decimals compare as the rational numbers they
  stand for; the digit by digit comparison at aligned positions never disagrees with the exact values.
\<close>

theorem decimal_comparison_exact:
  assumes "decimal_ok a" and "decimal_ok b"
  shows "compare_decimal_raw (decimal_raw a) (decimal_raw b) = Ok (cmp (decimal_value a) (decimal_value b))"
  using assms by (rule compare_decimal_values)

theorem decimal_comparison_exact_witness:
  "compare_decimal_raw (decimal_raw \<lparr>dc_coefficient = 15, dc_exponent10 = - 1\<rparr>) (decimal_raw \<lparr>dc_coefficient = 2, dc_exponent10 = 0\<rparr>)
     = Ok (cmp (scaled 15 (- 1)) (scaled 2 0))"
proof -
  have "decimal_ok \<lparr>dc_coefficient = 15, dc_exponent10 = - 1\<rparr>" "decimal_ok \<lparr>dc_coefficient = 2, dc_exponent10 = 0\<rparr>"
    by (simp_all add: decimal_ok_def normal_def MAX_ABS_EXPONENT_def)
  from decimal_comparison_exact [OF this] show ?thesis by (simp add: decimal_value_def)
qed

end
