(* ===== verification/Orna_Key_Order.thy ===== *)
theory Orna_Key_Order
  imports Orna_Decimal_Laws Orna_Key
begin

text \<open>
  The order of primary keys: \<open>compare_primary_keys\<close> and the tag registry of \<open>crates/orna-value/src/lib.rs\<close>, and the
  order of \<open>CompactKeyIdentity\<close> in \<open>crates/orna-storage/src/compact.rs\<close>.

  A key is compared by its decoded value, and by its bytes where the values do not compare. The laws
  show that the keys of one profile with key fields always compare, so that on them the identity's order is total.
\<close>

section \<open>The tag registry\<close>

fun ov_array :: "raw \<Rightarrow> (ovb_error, raw list) result" where
  "ov_array (RArray a) = Ok a"
| "ov_array _ = Err InvalidValue"

fun ov_bytes :: "raw \<Rightarrow> (ovb_error, u8 list) result" where
  "ov_bytes (RBytes b) = Ok b"
| "ov_bytes _ = Err InvalidValue"

fun ov_text :: "raw \<Rightarrow> (ovb_error, u8 list) result" where
  "ov_text (RText s) = Ok s"
| "ov_text _ = Err InvalidValue"

fun ov_integer :: "raw \<Rightarrow> (ovb_error, int) result" where
  "ov_integer (RInt i) = Ok i"
| "ov_integer _ = Err InvalidValue"

definition int_u64 :: "raw \<Rightarrow> (ovb_error, u64) result" where
  "int_u64 v =
     (case ov_integer v of
        Inl e \<Rightarrow> Err e
      | Inr i \<Rightarrow> if i < 0 then Err InvalidValue else if i < 2 ^ 64 then Ok (word_of_int i) else Err InvalidValue)"

fun uuid_array :: "raw \<Rightarrow> (ovb_error, u8 list) result" where
  "uuid_array (RTag n v) =
     (if n \<noteq> 37 then Err InvalidValue
      else (case ov_bytes v of Inl e \<Rightarrow> Err e | Inr b \<Rightarrow> if length b \<noteq> 16 then Err InvalidValue else Ok b))"
| "uuid_array _ = Err InvalidValue"

definition byte_is_digit :: "u8 \<Rightarrow> bool" where
  "byte_is_digit b \<longleftrightarrow> 48 \<le> b \<and> b \<le> 57"

text \<open>\<open>parse\<close> on a run of ASCII digits.\<close>

definition parse_number :: "u8 list \<Rightarrow> int" where
  "parse_number s = foldl (\<lambda>n b. 10 * n + (uint b - 48)) 0 s"

definition month_days :: "int \<Rightarrow> int \<Rightarrow> int option" where
  "month_days y m =
     (if m \<in> {1, 3, 5, 7, 8, 10, 12} then Some 31
      else if m \<in> {4, 6, 9, 11} then Some 30
      else if m = 2 \<and> y mod 4 = 0 \<and> (y mod 100 \<noteq> 0 \<or> y mod 400 = 0) then Some 29
      else if m = 2 then Some 28 else None)"

definition validate_date :: "u8 list \<Rightarrow> (ovb_error, unit) result" where
  "validate_date b =
     (if length b \<noteq> 10 \<or> b ! 4 \<noteq> 45 \<or> b ! 7 \<noteq> 45
         \<or> \<not> list_all (\<lambda>i. i \<in> {4, 7} \<or> byte_is_digit (b ! i)) [0..<length b]
      then Err InvalidTag
      else
        let y = parse_number (take 4 b) in
        if \<not> (1 \<le> y \<and> y \<le> 9999) then Err InvalidTag
        else
          let d = parse_number (drop 8 b) in
          (case month_days y (parse_number (take 2 (drop 5 b))) of
             None \<Rightarrow> Err InvalidTag
           | Some mx \<Rightarrow> if d = 0 \<or> mx < d then Err InvalidTag else Ok ()))"

definition validate_local_date_time :: "u8 list \<Rightarrow> (ovb_error, unit) result" where
  "validate_local_date_time b =
     (if length b \<noteq> 29 \<or> b ! 10 \<noteq> 84 \<or> b ! 13 \<noteq> 58 \<or> b ! 16 \<noteq> 58 \<or> b ! 19 \<noteq> 46
         \<or> \<not> list_all (\<lambda>i. i \<in> {4, 7, 10, 13, 16, 19} \<or> byte_is_digit (b ! i)) [0..<length b]
      then Err InvalidTag
      else (case validate_date (take 10 b) of
              Inl e \<Rightarrow> Err e
            | Inr _ \<Rightarrow>
                if 23 < parse_number (take 2 (drop 11 b)) \<or> 59 < parse_number (take 2 (drop 14 b))
                   \<or> 59 < parse_number (take 2 (drop 17 b))
                then Err InvalidTag else Ok ()))"

fun is_tag :: "u64 \<Rightarrow> raw \<Rightarrow> bool" where
  "is_tag n (RTag m _) \<longleftrightarrow> m = n"
| "is_tag n _ \<longleftrightarrow> False"

lemma size_in_array: "x \<in> set xs \<Longrightarrow> size x < Suc (size_list size xs)"
  by (simp add: less_Suc_eq_le size_list_estimation')

function is_permitted_key :: "raw \<Rightarrow> bool" where
  "is_permitted_key raw =
     (case raw of
        RBool _ \<Rightarrow> True
      | RInt _ \<Rightarrow> True
      | RText _ \<Rightarrow> True
      | RTag n payload \<Rightarrow>
          if n \<in> {37, 60000, 60001, 60002} then True
          else if n = 60014 then payload = RArray []
          else if n = 60008 then
            (case payload of RArray [t, v, RNull] \<Rightarrow> is_ok (uuid_array t) \<and> is_ok (uuid_array v) | _ \<Rightarrow> False)
          else if n = 60015 then (case payload of RArray values \<Rightarrow> values \<noteq> [] \<and> list_all is_permitted_key values | _ \<Rightarrow> False)
          else if n = 60021 then
            (case payload of
               RArray [d, t, key] \<Rightarrow> is_ok (uuid_array d) \<and> is_ok (uuid_array t) \<and> is_permitted_key key
             | _ \<Rightarrow> False)
          else False
      | _ \<Rightarrow> False)"
  by pat_completeness auto

termination
  by (relation "measure size") (auto dest: size_in_array)

declare is_permitted_key.simps [simp del]

definition check :: "bool \<Rightarrow> (ovb_error, unit) result" where
  "check b = (if b then Ok () else Err InvalidTag)"

definition both :: "(ovb_error, 'a) result \<Rightarrow> (ovb_error, 'b) result \<Rightarrow> (ovb_error, unit) result" where
  "both a b = (case a of Inl e \<Rightarrow> Err e | Inr _ \<Rightarrow> (case b of Inl e \<Rightarrow> Err e | Inr _ \<Rightarrow> Ok ()))"

text \<open>An array of the given length.\<close>

definition array_of :: "nat \<Rightarrow> raw \<Rightarrow> (ovb_error, raw list) result" where
  "array_of n v = (case ov_array v of Inl e \<Rightarrow> Err e | Inr a \<Rightarrow> if length a \<noteq> n then Err InvalidTag else Ok a)"

definition validate_decimal_tag :: "raw \<Rightarrow> (ovb_error, unit) result" where
  "validate_decimal_tag v =
     (case array_of 2 v of
        Inl x \<Rightarrow> Err x
      | Inr a \<Rightarrow> (case ov_integer (a ! 0) of
          Inl x \<Rightarrow> Err x
        | Inr c \<Rightarrow> (case ov_integer (a ! 1) of
            Inl x \<Rightarrow> Err x
          | Inr e \<Rightarrow> (case decimal_try_new c e of
              Inl x \<Rightarrow> Err x
            | Inr d \<Rightarrow> if dc_coefficient d \<noteq> c \<or> dc_exponent10 d \<noteq> e then Err NonCanonical else Ok ()))))"

text \<open>Tags 60002 and 60005: whole units and nanoseconds.\<close>

definition validate_seconds_tag :: "raw \<Rightarrow> (ovb_error, unit) result" where
  "validate_seconds_tag v =
     (case ov_array v of
        Inl x \<Rightarrow> Err x
      | Inr [s, k] \<Rightarrow>
          if \<not> (case s of RInt _ \<Rightarrow> True | _ \<Rightarrow> False) then Err InvalidTag
          else (case int_u64 k of Inl x \<Rightarrow> Err x | Inr n \<Rightarrow> check (n < 1000000000))
      | Inr _ \<Rightarrow> Err InvalidTag)"

definition validate_enum_tag :: "raw \<Rightarrow> (ovb_error, unit) result" where
  "validate_enum_tag v =
     (case array_of 3 v of
        Inl x \<Rightarrow> Err x
      | Inr a \<Rightarrow> both (both (uuid_array (a ! 0)) (uuid_array (a ! 1))) (check (a ! 2 = RNull \<or> is_tag 60009 (a ! 2))))"

definition validate_reference_tag :: "raw \<Rightarrow> (ovb_error, unit) result" where
  "validate_reference_tag v =
     (case array_of 3 v of
        Inl x \<Rightarrow> Err x
      | Inr a \<Rightarrow> both (both (uuid_array (a ! 0)) (uuid_array (a ! 1))) (check (is_permitted_key (a ! 2))))"

definition UUID_SYSTEM_IDS :: "u8 list list" where
  "UUID_SYSTEM_IDS = map byte_string
     [''sys.DatabaseId'', ''sys.FileId'', ''sys.DefinitionId'', ''sys.ObjectId'', ''sys.RuntimeId'', ''sys.TransactionId'',
      ''sys.InvocationId'', ''sys.RunId'', ''sys.QueryId'', ''sys.SessionId'', ''sys.ClientId'', ''sys.TraceId'',
      ''sys.SpanId'', ''sys.SegmentId'', ''sys.BuildId'']"

definition validate_git_oid :: "raw \<Rightarrow> (ovb_error, unit) result" where
  "validate_git_oid v =
     (case array_of 2 v of
        Inl x \<Rightarrow> Err x
      | Inr git \<Rightarrow> (case ov_text (git ! 0) of
          Inl x \<Rightarrow> Err x
        | Inr name \<Rightarrow>
            if name \<notin> {byte_string ''sha1'', byte_string ''sha256''} then Err InvalidTag
            else (case ov_bytes (git ! 1) of
                    Inl x \<Rightarrow> Err x
                  | Inr b \<Rightarrow> check (length b = (if name = byte_string ''sha1'' then 20 else 32)))))"

definition validate_system_id :: "raw \<Rightarrow> (ovb_error, unit) result" where
  "validate_system_id v =
     (case array_of 2 v of
        Inl x \<Rightarrow> Err x
      | Inr a \<Rightarrow> (case ov_text (a ! 0) of
          Inl x \<Rightarrow> Err x
        | Inr name \<Rightarrow>
            if name \<in> set UUID_SYSTEM_IDS then both (uuid_array (a ! 1)) (check True)
            else if name \<in> set (map byte_string [''sys.RevisionId'', ''sys.SnapshotId'', ''sys.ConsumerIdentity'']) then
              (case ov_bytes (a ! 1) of Inl x \<Rightarrow> Err x | Inr b \<Rightarrow> check (length b = 32))
            else if name \<in> set (map byte_string [''sys.CheckpointVersion'', ''sys.FailureVersion'']) then
              (case ov_integer (a ! 1) of Inl x \<Rightarrow> Err x | Inr i \<Rightarrow> check (\<not> i < 0))
            else if name = byte_string ''sys.GitOid'' then validate_git_oid (a ! 1)
            else Err InvalidTag))"

fun split_bytes :: "u8 \<Rightarrow> u8 list \<Rightarrow> u8 list list" where
  "split_bytes c [] = [[]]"
| "split_bytes c (b # bs) =
     (if b = c then [] # split_bytes c bs
      else (case split_bytes c bs of [] \<Rightarrow> [[b]] | part # parts \<Rightarrow> (b # part) # parts))"

definition validate_path_tag :: "raw \<Rightarrow> (ovb_error, unit) result" where
  "validate_path_tag v =
     (case array_of 2 v of
        Inl x \<Rightarrow> Err x
      | Inr a \<Rightarrow> (case ov_text (a ! 0) of
          Inl x \<Rightarrow> Err x
        | Inr flavour \<Rightarrow> (case ov_text (a ! 1) of
            Inl x \<Rightarrow> Err x
          | Inr p \<Rightarrow>
              if flavour \<notin> set (map byte_string [''repo'', ''posix'', ''windows''])
                 \<or> flavour = byte_string ''repo''
                   \<and> (\<not> list_all (\<lambda>b. b < 128) p \<or> (p \<noteq> [] \<and> hd p = 47) \<or> 92 \<in> set p
                        \<or> list_ex (\<lambda>x. x = [] \<or> x = [46] \<or> x = [46, 46]) (split_bytes 47 p))
              then Err InvalidTag else Ok ())))"

text \<open>
  The arms of \<open>validate_tag\<close> for keys, times, quantities, bounds, system identities and paths. The arms for records,
  pinned references, diagnostics, presentations, errors, typed values and relations are \<open>other\<close>.
\<close>

definition validate_tag :: "tag_registry \<Rightarrow> tag_registry" where
  "validate_tag other n v =
     (if n = 37 then (case ov_bytes v of Inl e \<Rightarrow> Err e | Inr b \<Rightarrow> check (length b = 16))
      else if n = 60000 then validate_decimal_tag v
      else if n = 60001 then (case ov_text v of Inl e \<Rightarrow> Err e | Inr s \<Rightarrow> validate_date s)
      else if n = 60003 then (case ov_text v of Inl e \<Rightarrow> Err e | Inr s \<Rightarrow> validate_local_date_time s)
      else if n = 60004 then
        (case ov_text v of
           Inl e \<Rightarrow> Err e
         | Inr s \<Rightarrow> check (s \<noteq> [] \<and> list_all (\<lambda>b. 65 \<le> b \<and> b \<le> 90 \<or> 97 \<le> b \<and> b \<le> 122 \<or> byte_is_digit b
              \<or> b \<in> {95, 45, 43, 47}) s))
      else if n = 60002 \<or> n = 60005 then validate_seconds_tag v
      else if n = 60006 then
        (case array_of 2 v of
           Inl e \<Rightarrow> Err e
         | Inr a \<Rightarrow> both (check (case a ! 0 of RInt _ \<Rightarrow> True | RFloat _ \<Rightarrow> True | RTag m _ \<Rightarrow> m = 60000 | _ \<Rightarrow> False))
                      (uuid_array (a ! 1)))
      else if n = 60007 then
        (case array_of 2 v of Inl e \<Rightarrow> Err e | Inr a \<Rightarrow> both (check (is_tag 60000 (a ! 0))) (uuid_array (a ! 1)))
      else if n = 60008 then validate_enum_tag v
      else if n = 60013 then
        (case ov_array v of
           Inl e \<Rightarrow> Err e
         | Inr a \<Rightarrow> check (a = [RInt 0] \<or> (case a of [k, _] \<Rightarrow> k = RInt 1 | _ \<Rightarrow> False)))
      else if n = 60014 then (case ov_array v of Inl e \<Rightarrow> Err e | Inr a \<Rightarrow> check (a = []))
      else if n = 60015 then (case ov_array v of Inl e \<Rightarrow> Err e | Inr a \<Rightarrow> if a = [] then Err NonCanonical else Ok ())
      else if n = 60017 then (case int_u64 v of Inl e \<Rightarrow> Err e | Inr k \<Rightarrow> check (k < 86400000000000))
      else if n = 60018 then
        (case array_of 3 v of
           Inl e \<Rightarrow> Err e
         | Inr a \<Rightarrow>
             if \<not> is_tag 60002 (a ! 0) \<or> \<not> is_tag 60004 (a ! 1) then Err InvalidTag
             else (case ov_integer (a ! 2) of Inl e \<Rightarrow> Err e | Inr i \<Rightarrow> check (- 64800 \<le> i \<and> i \<le> 64800)))
      else if n = 60019 then
        (case array_of 3 v of
           Inl e \<Rightarrow> Err e
         | Inr a \<Rightarrow> check (is_tag 60013 (a ! 0) \<and> is_tag 60013 (a ! 1) \<and> (case a ! 2 of RBool _ \<Rightarrow> True | _ \<Rightarrow> False)))
      else if n = 60020 then
        (case array_of 2 v of Inl e \<Rightarrow> Err e | Inr a \<Rightarrow> both (uuid_array (a ! 0)) (check True))
      else if n = 60021 then validate_reference_tag v
      else if n = 60022 then
        (case array_of 4 v of
           Inl e \<Rightarrow> Err e
         | Inr a \<Rightarrow> both (check (a ! 3 = RBool False)) (both (uuid_array (a ! 0)) (uuid_array (a ! 1))))
      else if n = 60023 then validate_system_id v
      else if n = 60024 then validate_path_tag v
      else if n = 60025 then
        (case array_of 2 v of
           Inl e \<Rightarrow> Err e
         | Inr a \<Rightarrow> (case ov_text (a ! 0) of
             Inl e \<Rightarrow> Err e
           | Inr s \<Rightarrow>
               if s \<noteq> byte_string ''sha256'' then Err InvalidTag
               else (case ov_bytes (a ! 1) of Inl e \<Rightarrow> Err e | Inr b \<Rightarrow> check (length b = 32))))
      else other n v)"

section \<open>Comparing keys\<close>

text \<open>\<open>a.then(b)\<close>, both already evaluated.\<close>

definition both_orders :: "(ovb_error, ordering) result \<Rightarrow> (ovb_error, ordering) result \<Rightarrow> (ovb_error, ordering) result" where
  "both_orders a b =
     (case a of Inl e \<Rightarrow> Err e | Inr o1 \<Rightarrow> (case b of Inl e \<Rightarrow> Err e | Inr o2 \<Rightarrow> Ok (then_order o1 o2)))"

definition compare_uuids :: "raw \<Rightarrow> raw \<Rightarrow> (ovb_error, ordering) result" where
  "compare_uuids a b =
     (case uuid_array a of Inl e \<Rightarrow> Err e | Inr u \<Rightarrow> (case uuid_array b of Inl e \<Rightarrow> Err e | Inr w \<Rightarrow> Ok (cmp u w)))"

text \<open>
  The loops compare the zipped lists and then their lengths; after a common prefix that is the comparison of what is left.
\<close>

function (sequential)
  compare_key_component :: "raw \<Rightarrow> raw \<Rightarrow> (ovb_error, ordering) result" and
  compare_key_components :: "raw list \<Rightarrow> raw list \<Rightarrow> (ovb_error, ordering) result" and
  compare_raw_order :: "raw \<Rightarrow> raw \<Rightarrow> (ovb_error, ordering) result" and
  compare_raw_orders :: "raw list \<Rightarrow> raw list \<Rightarrow> (ovb_error, ordering) result" where
  "compare_key_component left right =
     (case (left, right) of
        (RBool a, RBool b) \<Rightarrow> Ok (cmp a b)
      | (RInt a, RInt b) \<Rightarrow> Ok (cmp a b)
      | (RText a, RText b) \<Rightarrow> Ok (cmp a b)
      | (RTag m x, RTag n y) \<Rightarrow>
          if m \<noteq> n then Err InvalidValue
          else if m = 37 then (case (x, y) of (RBytes a, RBytes b) \<Rightarrow> Ok (cmp a b) | _ \<Rightarrow> Err InvalidValue)
          else if m = 60000 then compare_decimal_raw left right
          else if m = 60001 then (case (x, y) of (RText a, RText b) \<Rightarrow> Ok (cmp a b) | _ \<Rightarrow> Err InvalidValue)
          else if m = 60002 then
            (case (x, y) of
               (RArray [RInt s, RInt k], RArray [RInt s', RInt k']) \<Rightarrow> Ok (then_order (cmp s s') (cmp k k'))
             | _ \<Rightarrow> Err InvalidValue)
          else if m = 60008 then
            (case (x, y) of
               (RArray [t, v, RNull], RArray [t', v', RNull]) \<Rightarrow> both_orders (compare_uuids t t') (compare_uuids v v')
             | _ \<Rightarrow> Err InvalidValue)
          else if m = 60010 then
            (case (x, y) of
               (RArray [d, t, k, s], RArray [d', t', k', s']) \<Rightarrow>
                 both_orders (both_orders (both_orders (compare_uuids d d') (compare_uuids t t')) (compare_key_component k k'))
                   (compare_raw_order s s')
             | _ \<Rightarrow> Err InvalidValue)
          else if m = 60014 then (case (x, y) of (RArray [], RArray []) \<Rightarrow> Ok Equal | _ \<Rightarrow> Err InvalidValue)
          else if m = 60015 then
            (case (x, y) of (RArray a, RArray b) \<Rightarrow> compare_key_components a b | _ \<Rightarrow> Err InvalidValue)
          else if m = 60021 then
            (case (x, y) of
               (RArray [d, t, k], RArray [d', t', k']) \<Rightarrow>
                 (case both_orders (compare_uuids d d') (compare_uuids t t') of
                    Inl e \<Rightarrow> Err e
                  | Inr order \<Rightarrow> if order \<noteq> Equal then Err InvalidValue else compare_key_component k k')
             | _ \<Rightarrow> Err InvalidValue)
          else Err InvalidValue
      | _ \<Rightarrow> Err InvalidValue)"
| "compare_key_components (a # left) (b # right) =
     (case compare_key_component a b of
        Inl e \<Rightarrow> Err e
      | Inr order \<Rightarrow> if order \<noteq> Equal then Ok order else compare_key_components left right)"
| "compare_key_components left right = Ok (cmp (length left) (length right))"
| "compare_raw_order left right =
     (case (left, right) of
        (RNull, RNull) \<Rightarrow> Ok Equal
      | (RBool a, RBool b) \<Rightarrow> Ok (cmp a b)
      | (RInt a, RInt b) \<Rightarrow> Ok (cmp a b)
      | (RBytes a, RBytes b) \<Rightarrow> Ok (cmp a b)
      | (RText a, RText b) \<Rightarrow> Ok (cmp a b)
      | (RArray a, RArray b) \<Rightarrow> compare_raw_orders a b
      | (RTag m x, RTag n y) \<Rightarrow>
          if m \<noteq> n then Err InvalidValue
          else if m = 60000 then compare_decimal_raw left right
          else if m = 60015 then
            (case (x, y) of (RArray a, RArray b) \<Rightarrow> compare_key_components a b | _ \<Rightarrow> Err InvalidValue)
          else compare_raw_order x y
      | _ \<Rightarrow> Err InvalidValue)"
| "compare_raw_orders (a # left) (b # right) =
     (case compare_raw_order a b of
        Inl e \<Rightarrow> Err e
      | Inr order \<Rightarrow> if order \<noteq> Equal then Ok order else compare_raw_orders left right)"
| "compare_raw_orders left right = Ok (cmp (length left) (length right))"
  by pat_completeness auto

termination
  by (relation "measure (\<lambda>x. case x of
      Inl (Inl (l, _)) \<Rightarrow> size l
    | Inl (Inr (l, _)) \<Rightarrow> size_list size l
    | Inr (Inl (l, _)) \<Rightarrow> size l
    | Inr (Inr (l, _)) \<Rightarrow> size_list size l)") auto

declare compare_key_component.simps [simp del] compare_raw_order.simps [simp del]

definition is_primary_key_component :: "raw \<Rightarrow> bool" where
  "is_primary_key_component raw =
     (case raw of
        RBool _ \<Rightarrow> True | RInt _ \<Rightarrow> True | RText _ \<Rightarrow> True
      | RTag n _ \<Rightarrow> n \<in> {37, 60000, 60001, 60002, 60008, 60010, 60015, 60021}
      | _ \<Rightarrow> False)"

definition primary_key_components :: "raw \<Rightarrow> (ovb_error, raw list) result" where
  "primary_key_components raw =
     (if is_tag 60015 raw then
        (case raw of
           RTag _ (RArray values) \<Rightarrow> if values = [] then Err InvalidValue else Ok values
         | _ \<Rightarrow> Err InvalidValue)
      else (case raw of
              RArray values \<Rightarrow> if values \<noteq> [] then Ok values else Err InvalidValue
            | _ \<Rightarrow> if is_primary_key_component raw then Ok [raw] else Err InvalidValue))"

fun compare_zipped :: "raw list \<Rightarrow> raw list \<Rightarrow> (ovb_error, ordering) result" where
  "compare_zipped (a # left) (b # right) =
     (case compare_key_component a b of
        Inl e \<Rightarrow> Err e
      | Inr order \<Rightarrow> if order \<noteq> Equal then Ok order else compare_zipped left right)"
| "compare_zipped _ _ = Ok Equal"

definition compare_primary_keys :: "raw \<Rightarrow> raw \<Rightarrow> (ovb_error, ordering) result" where
  "compare_primary_keys left right =
     (case primary_key_components left of
        Inl e \<Rightarrow> Err e
      | Inr l \<Rightarrow> (case primary_key_components right of
          Inl e \<Rightarrow> Err e
        | Inr r \<Rightarrow> if length l \<noteq> length r then Err InvalidValue else compare_zipped l r))"

text \<open>\<open>CompactKeyIdentity::cmp\<close>, on the encodings.\<close>

definition identity_cmp :: "tag_registry \<Rightarrow> u8 list \<Rightarrow> u8 list \<Rightarrow> ordering" where
  "identity_cmp vtag a b =
     (let logical = (case value_decode vtag a of
            Inl e \<Rightarrow> Err e
          | Inr l \<Rightarrow> (case value_decode vtag b of Inl e \<Rightarrow> Err e | Inr r \<Rightarrow> compare_primary_keys l r))
      in then_order (case logical of Inl _ \<Rightarrow> cmp a b | Inr order \<Rightarrow> order) (cmp a b))"

section \<open>Lawful comparisons\<close>

definition lawful :: "('a \<Rightarrow> 'a \<Rightarrow> ('e, ordering) result) \<Rightarrow> ('a \<Rightarrow> bool) \<Rightarrow> bool" where
  "lawful f P \<longleftrightarrow>
     (\<forall>a b. P a \<and> P b \<longrightarrow> (\<exists>c. f a b = Ok c \<and> (c = Equal \<longleftrightarrow> a = b) \<and> f b a = Ok (reverse_order c)))
     \<and> (\<forall>a b c. P a \<and> P b \<and> P c \<and> f a b = Ok Less \<and> f b c = Ok Less \<longrightarrow> f a c = Ok Less)"

lemma lawfulI:
  assumes "\<And>a b. P a \<Longrightarrow> P b \<Longrightarrow> \<exists>c. f a b = Ok c \<and> (c = Equal \<longleftrightarrow> a = b) \<and> f b a = Ok (reverse_order c)"
    and "\<And>a b c. P a \<Longrightarrow> P b \<Longrightarrow> P c \<Longrightarrow> f a b = Ok Less \<Longrightarrow> f b c = Ok Less \<Longrightarrow> f a c = Ok Less"
  shows "lawful f P"
  using assms unfolding lawful_def by blast

lemma lawful_cmp: "lawful (\<lambda>a b. Ok (cmp a b)) P"
proof (rule lawfulI)
  fix a b c :: 'a
  show "\<exists>c. (Ok (cmp a b) :: ('e, ordering) result) = Ok c \<and> (c = Equal \<longleftrightarrow> a = b)
      \<and> (Ok (cmp b a) :: ('e, ordering) result) = Ok (reverse_order c)"
    by (simp add: cmp_rev cmp_simps)
  show "(Ok (cmp a b) :: ('e, ordering) result) = Ok Less \<Longrightarrow> (Ok (cmp b c) :: ('e, ordering) result) = Ok Less \<Longrightarrow>
      (Ok (cmp a c) :: ('e, ordering) result) = Ok Less"
    by (simp add: cmp_simps)
qed

text \<open>A comparison by way of an injective reading \<open>h\<close>.\<close>

lemma lawful_via:
  assumes "lawful g Q" and "\<And>a b. P a \<Longrightarrow> P b \<Longrightarrow> f a b = g (h a) (h b)"
    and "\<And>a. P a \<Longrightarrow> Q (h a)" and "\<And>a b. P a \<Longrightarrow> P b \<Longrightarrow> h a = h b \<Longrightarrow> a = b"
  shows "lawful f P"
proof (rule lawfulI)
  fix a b assume P: "P a" "P b"
  then obtain c where "g (h a) (h b) = Ok c \<and> (c = Equal \<longleftrightarrow> h a = h b) \<and> g (h b) (h a) = Ok (reverse_order c)"
    using assms(1,3) unfolding lawful_def by meson
  then show "\<exists>c. f a b = Ok c \<and> (c = Equal \<longleftrightarrow> a = b) \<and> f b a = Ok (reverse_order c)"
    using assms(2) [OF P] assms(2) [OF P(2,1)] assms(4) [OF P] by auto
next
  fix a b c assume P: "P a" "P b" "P c" and less: "f a b = Ok Less" "f b c = Ok Less"
  have "g (h a) (h b) = Ok Less" "g (h b) (h c) = Ok Less" using less assms(2) P by simp_all
  then have "g (h a) (h c) = Ok Less" using assms(1,3) P unfolding lawful_def by meson
  then show "f a c = Ok Less" using assms(2) P by simp
qed

lemma lawful_subset: "lawful f Q \<Longrightarrow> (\<And>a. P a \<Longrightarrow> Q a) \<Longrightarrow> lawful f P"
  by (rule lawful_via [of f Q P f "\<lambda>a. a"]) auto

text \<open>Lists compared place by place.\<close>

lemma lawful_lists:
  assumes "list_all (\<lambda>P. lawful compare_key_component P) Ps"
  shows "lawful compare_key_components (list_all2 (\<lambda>P x. P x) Ps)"
  using assms
proof (induction Ps)
  case Nil
  then show ?case by (intro lawfulI) auto
next
  case (Cons P Ps)
  then have one: "lawful compare_key_component P" and rest: "lawful compare_key_components (list_all2 (\<lambda>P x. P x) Ps)"
    by simp_all
  have total: "\<exists>c. compare_key_component a b = Ok c \<and> (c = Equal \<longleftrightarrow> a = b) \<and> compare_key_component b a = Ok (reverse_order c)"
    if "P a" "P b" for a b
    using one that unfolding lawful_def by blast
  show ?case
  proof (rule lawfulI)
    fix as bs assume "list_all2 (\<lambda>P x. P x) (P # Ps) as" "list_all2 (\<lambda>P x. P x) (P # Ps) bs"
    then obtain a as' b bs' where s: "as = a # as'" "P a" "list_all2 (\<lambda>P x. P x) Ps as'"
        "bs = b # bs'" "P b" "list_all2 (\<lambda>P x. P x) Ps bs'" by (auto simp: list_all2_Cons1)
    obtain c where c: "compare_key_component a b = Ok c" "c = Equal \<longleftrightarrow> a = b" "compare_key_component b a = Ok (reverse_order c)"
      using total [OF s(2,5)] by blast
    obtain d where d: "compare_key_components as' bs' = Ok d" "d = Equal \<longleftrightarrow> as' = bs'"
        "compare_key_components bs' as' = Ok (reverse_order d)"
      using rest s(3,6) unfolding lawful_def by blast
    show "\<exists>c. compare_key_components as bs = Ok c \<and> (c = Equal \<longleftrightarrow> as = bs)
        \<and> compare_key_components bs as = Ok (reverse_order c)"
      using c d by (cases c) (auto simp: s)
  next
    fix as bs cs
    assume "list_all2 (\<lambda>P x. P x) (P # Ps) as" "list_all2 (\<lambda>P x. P x) (P # Ps) bs" "list_all2 (\<lambda>P x. P x) (P # Ps) cs"
      and less: "compare_key_components as bs = Ok Less" "compare_key_components bs cs = Ok Less"
    then obtain a as' b bs' c cs' where s: "as = a # as'" "P a" "list_all2 (\<lambda>P x. P x) Ps as'"
        "bs = b # bs'" "P b" "list_all2 (\<lambda>P x. P x) Ps bs'" "cs = c # cs'" "P c" "list_all2 (\<lambda>P x. P x) Ps cs'"
      by (auto simp: list_all2_Cons1)
    have first: "compare_key_component x y = Ok Less \<or> x = y \<and> compare_key_components xs ys = Ok Less"
      if "compare_key_components (x # xs) (y # ys) = Ok Less" "P x" "P y" for x y xs ys
      using total [OF that(2,3)] that(1) by (auto split: if_splits)
    have same: "compare_key_component x x = Ok Equal" if "P x" for x using total [OF that that] by auto
    have "compare_key_component a b = Ok Less \<Longrightarrow> compare_key_component b c = Ok Less \<Longrightarrow> compare_key_component a c = Ok Less"
      and "compare_key_components as' bs' = Ok Less \<Longrightarrow> compare_key_components bs' cs' = Ok Less \<Longrightarrow>
        compare_key_components as' cs' = Ok Less"
      using one rest s unfolding lawful_def by blast+
    with first [of a as' b bs'] first [of b bs' c cs'] less s(2,5,8) same [OF s(2)]
    show "compare_key_components as cs = Ok Less" by (auto simp: s(1,4,7))
  qed
qed

section \<open>Keys of one type\<close>

definition valid_raw :: "tag_registry \<Rightarrow> raw \<Rightarrow> bool" where
  "valid_raw vtag v \<longleftrightarrow> (\<exists>d u. validate_raw vtag v d = Ok u)"

lemma valid_Tag: "valid_raw vtag (RTag n x) \<Longrightarrow> vtag n x = Ok () \<and> valid_raw vtag x"
  by (auto simp: valid_raw_def validate_raw.simps split: if_splits sum.splits)

lemma valid_Array: "valid_raw vtag (RArray a) \<Longrightarrow> x \<in> set a \<Longrightarrow> valid_raw vtag x"
proof -
  have "validate_items vtag a d = Ok u \<Longrightarrow> \<forall>x \<in> set a. valid_raw vtag x" for d u
    by (induction a) (auto simp: valid_raw_def split: sum.splits)
  then show "valid_raw vtag (RArray a) \<Longrightarrow> x \<in> set a \<Longrightarrow> valid_raw vtag x"
    by (auto simp: valid_raw_def validate_raw.simps [of _ "RArray a"] split: if_splits)
qed

definition admitted :: "tag_registry \<Rightarrow> definitions \<Rightarrow> raw \<Rightarrow> raw \<Rightarrow> bool" where
  "admitted vtag defs ty v \<longleftrightarrow> validate_value defs ty v = Ok () \<and> valid_raw vtag v"

lemma raw_uuid_Some: "raw_uuid v = Some b \<longleftrightarrow> v = RTag 37 (RBytes b) \<and> length b = 16"
  by (cases v rule: raw_uuid.cases) auto

lemma compare_uuids_Ok: "length a = 16 \<Longrightarrow> length b = 16 \<Longrightarrow>
    compare_uuids (RTag 37 (RBytes a)) (RTag 37 (RBytes b)) = Ok (cmp a b)"
  by (simp add: compare_uuids_def)

lemma lawful_none: "(\<And>a. \<not> P a) \<Longrightarrow> lawful f P"
  by (simp add: lawful_def)

lemma lawful_single:
  assumes "\<And>a b. P a \<Longrightarrow> P b \<Longrightarrow> a = b \<and> f a b = Ok Equal"
  shows "lawful f P"
proof (rule lawfulI)
  fix a b assume "P a" "P b"
  with assms have "a = b" "f a b = Ok Equal" "f b a = Ok Equal" by blast+
  then show "\<exists>c. f a b = Ok c \<and> (c = Equal \<longleftrightarrow> a = b) \<and> f b a = Ok (reverse_order c)" by simp
next
  fix a b c assume "P a" "P b" "f a b = Ok Less"
  with assms have "f a b = Ok Equal" by blast
  with \<open>f a b = Ok Less\<close> show "f a c = Ok Less" by simp
qed

lemma lawful_pair: "lawful (\<lambda>(s, k) (s', k'). Ok (then_order (cmp s s') (cmp k k'))) P"
proof (rule lawfulI)
  fix a b :: "'a \<times> 'b"
  show "\<exists>c. (case a of (s, k) \<Rightarrow> \<lambda>(s', k'). Ok (then_order (cmp s s') (cmp k k'))) b = Ok c \<and> (c = Equal \<longleftrightarrow> a = b)
      \<and> (case b of (s, k) \<Rightarrow> \<lambda>(s', k'). Ok (then_order (cmp s s') (cmp k k'))) a = Ok (reverse_order c)"
    by (cases a; cases b) (auto simp: then_order_def cmp_def)
next
  fix a b c :: "'a \<times> 'b"
  have less: "then_order (cmp s s') (cmp k k') = Less \<longleftrightarrow> s < s' \<or> s = s' \<and> k < k'" for s s' :: 'a and k k' :: 'b
    by (simp add: then_order_def cmp_simps)
  assume "(case a of (s, k) \<Rightarrow> \<lambda>(s', k'). Ok (then_order (cmp s s') (cmp k k'))) b = Ok Less"
    and "(case b of (s, k) \<Rightarrow> \<lambda>(s', k'). Ok (then_order (cmp s s') (cmp k k'))) c = Ok Less"
  then show "(case a of (s, k) \<Rightarrow> \<lambda>(s', k'). Ok (then_order (cmp s s') (cmp k k'))) c = Ok Less"
    by (cases a; cases b; cases c) (auto simp: less)
qed

text \<open>Payloads of the scalar key tags, as the registry admits them.\<close>

lemma check_Ok: "check b = Ok u \<longleftrightarrow> b"
  by (simp add: check_def)

lemma tag_37: "validate_tag other 37 x = Ok () \<Longrightarrow> \<exists>b. x = RBytes b"
  by (cases x) (simp_all add: validate_tag_def)

lemma tag_60001: "validate_tag other 60001 x = Ok () \<Longrightarrow> \<exists>s. x = RText s"
  by (cases x) (simp_all add: validate_tag_def)

lemma tag_60002: "validate_tag other 60002 x = Ok () \<Longrightarrow> \<exists>s k. x = RArray [RInt s, RInt k]"
proof -
  assume "validate_tag other 60002 x = Ok ()"
  then have x: "validate_seconds_tag x = Ok ()" by (simp add: validate_tag_def)
  then obtain s k where sk: "x = RArray [s, k]"
    by (cases x) (auto simp: validate_seconds_tag_def split: list.splits)
  with x obtain i where "s = RInt i" by (cases s) (simp_all add: validate_seconds_tag_def)
  moreover from x sk this obtain j where "k = RInt j"
    by (cases k) (simp_all add: validate_seconds_tag_def int_u64_def)
  ultimately show ?thesis using sk by blast
qed

lemma array_of_Ok: "array_of n v = Ok a \<longleftrightarrow> v = RArray a \<and> length a = n"
  by (cases v) (auto simp: array_of_def)

lemma tag_60000: "validate_tag other 60000 x = Ok () \<Longrightarrow> \<exists>d. decimal_ok d \<and> RTag 60000 x = decimal_raw d"
proof -
  assume "validate_tag other 60000 x = Ok ()"
  then have x: "validate_decimal_tag x = Ok ()" by (simp add: validate_tag_def)
  then obtain a where a: "array_of 2 x = Ok a" by (auto simp: validate_decimal_tag_def split: sum.splits)
  then obtain u v where uv: "a = [u, v]" by (auto simp: array_of_Ok length_Suc_conv eval_nat_numeral)
  obtain c where c: "u = RInt c" using x a uv by (cases u) (simp_all add: validate_decimal_tag_def)
  obtain e where e: "v = RInt e" using x a uv c by (cases v) (simp_all add: validate_decimal_tag_def)
  obtain d where d: "decimal_try_new c e = Ok d"
    using x a uv c e by (cases "decimal_try_new c e") (simp_all add: validate_decimal_tag_def)
  with x a uv c e have "dc_coefficient d = c" "dc_exponent10 d = e"
    by (simp_all add: validate_decimal_tag_def split: if_splits)
  moreover have "x = RArray [RInt c, RInt e]" using a uv c e by (simp add: array_of_Ok)
  ultimately show ?thesis using d by (auto simp: try_new_iff decimal_raw_def)
qed

definition untagged :: "raw \<Rightarrow> raw" where
  "untagged v = (case v of RTag _ x \<Rightarrow> x)"

definition decimal_of :: "raw \<Rightarrow> rat" where
  "decimal_of v = (case untagged v of RArray [RInt c, RInt e] \<Rightarrow> scaled c e | _ \<Rightarrow> 0)"

definition seconds_of :: "raw \<Rightarrow> int \<times> int" where
  "seconds_of v = (case untagged v of RArray [RInt s, RInt k] \<Rightarrow> (s, k) | _ \<Rightarrow> (0, 0))"

lemmas compare_component = compare_key_component.simps

lemma lawful_scalars:
  fixes other :: tag_registry
  defines "V \<equiv> validate_tag other"
  shows "lawful compare_key_component (\<lambda>v. \<exists>b. v = RBool b)"
    and "lawful compare_key_component (\<lambda>v. \<exists>i. v = RInt i)"
    and "lawful compare_key_component (\<lambda>v. \<exists>s. v = RText s)"
    and "lawful compare_key_component (\<lambda>v. valid_raw V v \<and> (\<exists>x. v = RTag 37 x))"
    and "lawful compare_key_component (\<lambda>v. valid_raw V v \<and> (\<exists>x. v = RTag 60000 x))"
    and "lawful compare_key_component (\<lambda>v. valid_raw V v \<and> (\<exists>x. v = RTag 60001 x))"
    and "lawful compare_key_component (\<lambda>v. valid_raw V v \<and> (\<exists>x. v = RTag 60002 x))"
proof -
  note reg = valid_Tag [of V, unfolded V_def]
  show "lawful compare_key_component (\<lambda>v. \<exists>b. v = RBool b)"
    by (rule lawful_via [OF lawful_cmp [of "\<lambda>_. True"], where h = "\<lambda>v. case v of RBool b \<Rightarrow> b"])
      (auto simp: compare_component)
  show "lawful compare_key_component (\<lambda>v. \<exists>i. v = RInt i)"
    by (rule lawful_via [OF lawful_cmp [of "\<lambda>_. True"], where h = "\<lambda>v. case v of RInt b \<Rightarrow> b"])
      (auto simp: compare_component)
  show "lawful compare_key_component (\<lambda>v. \<exists>s. v = RText s)"
    by (rule lawful_via [OF lawful_cmp [of "\<lambda>_. True"], where h = "\<lambda>v. case v of RText b \<Rightarrow> b"])
      (auto simp: compare_component)
  show "lawful compare_key_component (\<lambda>v. valid_raw V v \<and> (\<exists>x. v = RTag 37 x))"
    by (rule lawful_via [OF lawful_cmp [of "\<lambda>_. True"], where h = "\<lambda>v. case untagged v of RBytes b \<Rightarrow> b"])
      (auto simp: compare_component untagged_def V_def dest!: reg tag_37)
  show "lawful compare_key_component (\<lambda>v. valid_raw V v \<and> (\<exists>x. v = RTag 60001 x))"
    by (rule lawful_via [OF lawful_cmp [of "\<lambda>_. True"], where h = "\<lambda>v. case untagged v of RText b \<Rightarrow> b"])
      (auto simp: compare_component untagged_def V_def dest!: reg tag_60001)
  show "lawful compare_key_component (\<lambda>v. valid_raw V v \<and> (\<exists>x. v = RTag 60002 x))"
    by (rule lawful_via [OF lawful_pair [of "\<lambda>_. True"], where h = seconds_of])
      (auto simp: compare_component untagged_def seconds_of_def V_def dest!: reg tag_60002)
  have dec: "\<exists>d. decimal_ok d \<and> v = decimal_raw d" if "valid_raw V v \<and> (\<exists>x. v = RTag 60000 x)" for v
    using that reg tag_60000 V_def by blast
  have num: "decimal_of (decimal_raw d) = decimal_value d" for d
    by (simp add: decimal_of_def untagged_def decimal_raw_def decimal_value_def)
  have raw: "compare_key_component (decimal_raw d) (decimal_raw d') = compare_decimal_raw (decimal_raw d) (decimal_raw d')" for d d'
    by (simp add: compare_component decimal_raw_def)
  show "lawful compare_key_component (\<lambda>v. valid_raw V v \<and> (\<exists>x. v = RTag 60000 x))"
  proof (rule lawful_via [OF lawful_cmp [of "\<lambda>_. True"], where h = decimal_of])
    fix v w assume v: "valid_raw V v \<and> (\<exists>x. v = RTag 60000 x)" and w: "valid_raw V w \<and> (\<exists>x. w = RTag 60000 x)"
    obtain d d' where d: "decimal_ok d" "v = decimal_raw d" "decimal_ok d'" "w = decimal_raw d'"
      using dec [OF v] dec [OF w] by blast
    then show "compare_key_component v w = Ok (cmp (decimal_of v) (decimal_of w))"
      by (simp only: raw num compare_decimal_values)
    show "v = w" if "decimal_of v = decimal_of w"
      using that d normal_unique [of d d'] by (simp add: num decimal_ok_def)
  qed simp
qed

section \<open>Every key type is ordered\<close>

lemma scalar_value_shape:
  assumes "scalar_value v name = Ok u"
  shows "(\<exists>b. v = RBool b) \<and> name = byte_string ''Bool'' \<or> (\<exists>i. v = RInt i) \<and> name = byte_string ''Int''
    \<or> (\<exists>s. v = RText s) \<and> name = byte_string ''Str''
    \<or> (\<exists>x. v = RTag 37 x) \<and> name = byte_string ''Uuid'' \<or> (\<exists>x. v = RTag 60000 x) \<and> name = byte_string ''Decimal''
    \<or> (\<exists>x. v = RTag 60001 x) \<and> name = byte_string ''Date'' \<or> (\<exists>x. v = RTag 60002 x) \<and> name = byte_string ''Instant''"
  using assms by (cases v) (simp_all add: scalar_value_def split: if_splits)

lemma lawful_scalar:
  "lawful compare_key_component (\<lambda>v. scalar_value v name = Ok () \<and> valid_raw (validate_tag other) v)"
proof -
  have names: "distinct (map byte_string [''Bool'', ''Int'', ''Str'', ''Uuid'', ''Decimal'', ''Date'', ''Instant''])"
    by (simp add: byte_string_def)
  consider "name = byte_string ''Bool''" | "name = byte_string ''Int''" | "name = byte_string ''Str''" | "name = byte_string ''Uuid''"
    | "name = byte_string ''Decimal''" | "name = byte_string ''Date''" | "name = byte_string ''Instant''"
    | (other) "name \<notin> set (map byte_string [''Bool'', ''Int'', ''Str'', ''Uuid'', ''Decimal'', ''Date'', ''Instant''])"
    by auto
  then show ?thesis
  proof cases
    case 1
    show ?thesis by (rule lawful_subset [OF lawful_scalars(1)]) (use 1 names in \<open>auto dest: scalar_value_shape\<close>)
  next
    case 2
    show ?thesis by (rule lawful_subset [OF lawful_scalars(2)]) (use 2 names in \<open>auto dest: scalar_value_shape\<close>)
  next
    case 3
    show ?thesis by (rule lawful_subset [OF lawful_scalars(3)]) (use 3 names in \<open>auto dest: scalar_value_shape\<close>)
  next
    case 4
    show ?thesis by (rule lawful_subset [OF lawful_scalars(4) [of other]]) (use 4 names in \<open>auto dest: scalar_value_shape\<close>)
  next
    case 5
    show ?thesis by (rule lawful_subset [OF lawful_scalars(5) [of other]]) (use 5 names in \<open>auto dest: scalar_value_shape\<close>)
  next
    case 6
    show ?thesis by (rule lawful_subset [OF lawful_scalars(6) [of other]]) (use 6 names in \<open>auto dest: scalar_value_shape\<close>)
  next
    case 7
    show ?thesis by (rule lawful_subset [OF lawful_scalars(7) [of other]]) (use 7 names in \<open>auto dest: scalar_value_shape\<close>)
  next
    case other
    show ?thesis by (rule lawful_none) (use other in \<open>auto dest: scalar_value_shape\<close>)
  qed
qed

lemma validate_values_all2:
  "length vs = length types \<Longrightarrow> validate_values defs types vs = Ok () \<Longrightarrow>
   list_all2 (\<lambda>ty v. validate_value defs ty v = Ok ()) types vs"
  by (induction types vs rule: list_induct2') (auto split: sum.splits)

definition tuple_of :: "tag_registry \<Rightarrow> definitions \<Rightarrow> raw list \<Rightarrow> raw list \<Rightarrow> bool" where
  "tuple_of vtag defs types tuple \<longleftrightarrow>
     length tuple = length types \<and> validate_values defs types tuple = Ok () \<and> (\<forall>v \<in> set tuple. valid_raw vtag v)"

lemma lawful_components:
  assumes "\<And>ty. ty \<in> set types \<Longrightarrow> lawful compare_key_component (admitted vtag defs ty)"
  shows "lawful compare_key_components (tuple_of vtag defs types)"
proof (rule lawful_subset [OF lawful_lists])
  show "list_all (\<lambda>P. lawful compare_key_component P) (map (admitted vtag defs) types)"
    using assms by (simp add: list_all_iff)
  fix tuple assume t: "tuple_of vtag defs types tuple"
  then have "list_all2 (\<lambda>ty v. validate_value defs ty v = Ok ()) types tuple"
    by (auto simp: tuple_of_def intro: validate_values_all2)
  with t show "list_all2 (\<lambda>P x. P x) (map (admitted vtag defs) types) tuple"
    by (auto simp: list_all2_conv_all_nth admitted_def tuple_of_def)
qed

lemma lawful_tuples:
  assumes "\<And>ty. ty \<in> set types \<Longrightarrow> lawful compare_key_component (admitted vtag defs ty)"
  shows "lawful compare_key_component (\<lambda>v. \<exists>tuple. v = RTag 60015 (RArray tuple) \<and> tuple_of vtag defs types tuple)"
  by (rule lawful_via [OF lawful_components [OF assms], where h = "\<lambda>v. case untagged v of RArray t \<Rightarrow> t"])
    (auto simp: compare_component untagged_def)

lemma tagged_array_Some: "tagged_array n v = Some a \<longleftrightarrow> v = RTag n (RArray a)"
  by (cases "(n, v)" rule: tagged_array.cases) auto

lemma valid_tuple: "valid_raw vtag (RTag n (RArray a)) \<Longrightarrow> \<forall>v \<in> set a. valid_raw vtag v"
  using valid_Tag valid_Array by blast

text \<open>A key of the given component types: no component, one, or a tuple.\<close>

lemma lawful_key:
  assumes "\<And>ty. ty \<in> set types \<Longrightarrow> lawful compare_key_component (admitted vtag defs ty)"
  shows "lawful compare_key_component (\<lambda>k. validate_key_components defs k types = Ok () \<and> valid_raw vtag k)"
proof -
  consider (none) "types = []" | (one) ty where "types = [ty]" | (more) "types \<noteq> []" "length types \<noteq> 1"
    by (cases types) (auto simp: length_Suc_conv)
  then show ?thesis
  proof cases
    case none
    show ?thesis
      by (rule lawful_single)
        (auto simp: none validate_key_components.simps tagged_array_Some compare_component split: if_splits)
  next
    case one
    have "lawful compare_key_component (admitted vtag defs ty)" using assms by (simp add: one)
    then show ?thesis
      by (rule lawful_subset) (simp add: one validate_key_components.simps admitted_def)
  next
    case more
    show ?thesis
    proof (rule lawful_subset [OF lawful_tuples [OF assms]])
      fix k assume k: "validate_key_components defs k types = Ok () \<and> valid_raw vtag k"
      then obtain tuple where "k = RTag 60015 (RArray tuple)" "length tuple = length types"
          "validate_values defs types tuple = Ok ()"
        using more by (auto simp: validate_key_components.simps tagged_array_Some split: option.splits if_splits)
      with k valid_tuple show "\<exists>tuple. k = RTag 60015 (RArray tuple) \<and> tuple_of vtag defs types tuple"
        unfolding tuple_of_def by blast
    qed
  qed
qed

lemma validate_enum_shape:
  assumes "validate_enum v type_id d = Ok u"
  shows "\<exists>i. length type_id = 16 \<and> length i = 16
    \<and> v = RTag 60008 (RArray [RTag 37 (RBytes type_id), RTag 37 (RBytes i), RNull])"
proof -
  obtain a where a: "tagged_array 60008 v = Some a" using assms by (auto simp: validate_enum_def split: option.splits)
  then obtain t i x where t: "a = [t, i, x]"
    using assms by (auto simp: validate_enum_def split: list.splits)
  obtain t' where t': "raw_uuid t = Some t'" using assms a t by (auto simp: validate_enum_def split: option.splits)
  have same: "t' = type_id" using assms a t t' by (simp add: validate_enum_def split: if_splits)
  obtain i' where i': "raw_uuid i = Some i'" using assms a t t' same by (auto simp: validate_enum_def split: option.splits)
  have "x = RNull" using assms a t t' same i'
    by (auto simp: validate_enum_def split: option.splits sum.splits if_splits)
  with a t t' same i' show ?thesis by (auto simp: tagged_array_Some raw_uuid_Some)
qed

lemma node_array_smaller: "raw_array ty = Some node \<Longrightarrow> node_array node i = Ok types \<Longrightarrow> t \<in> set types \<Longrightarrow> size t < size ty"
  using size_node_array [of node i types] size_in_array [of t types]
  by (cases ty) auto

lemma key_type_lawful: "lawful compare_key_component (admitted (validate_tag other) defs ty)"
proof (induction ty rule: measure_induct_rule [of size])
  case (less ty)
  let ?V = "validate_tag other" and ?P = "admitted (validate_tag other) defs ty"
  show ?case
  proof (cases "raw_array ty = None \<or> type_code ty = None")
    case True
    show ?thesis
      by (rule lawful_none) (use True in \<open>auto simp: admitted_def validate_value.simps split: option.splits\<close>)
  next
    case False
    then obtain node code where node: "raw_array ty = Some node" "type_code ty = Some code" by auto
    have smaller: "lawful compare_key_component (admitted ?V defs t)" if "node_array node i = Ok types" "t \<in> set types" for i types t
      using less.IH [OF node_array_smaller [OF node(1) that]] .
    consider (scalar) "code = 0" | (tuple) "code = 3" | (enum) "code = 5" | (reference) "code = 6"
      | (none) "code \<notin> {0, 3, 5, 6}" by auto
    then show ?thesis
    proof cases
      case scalar
      show ?thesis
      proof (cases "\<exists>name rest. drop 1 node = RText name # rest")
        case True
        then obtain name rest where name: "drop 1 node = RText name # rest" by blast
        show ?thesis
          by (rule lawful_subset [OF lawful_scalar [of name other]])
            (simp add: admitted_def validate_value.simps node scalar name [unfolded One_nat_def])
      next
        case False
        have "(case drop 1 node of RText name # _ \<Rightarrow> scalar_value v name | _ \<Rightarrow> Err InvalidProfile) = Err InvalidProfile" for v
          using False by (auto split: list.splits raw.splits)
        then show ?thesis
          by (intro lawful_none) (simp add: admitted_def validate_value.simps node scalar)
      qed
    next
      case tuple
      show ?thesis
      proof (cases "node_array node 1")
        case (Inr types)
        show ?thesis
          by (rule lawful_subset [OF lawful_tuples [OF smaller [OF Inr]]])
            (auto simp: admitted_def validate_value.simps node tuple Inr [unfolded One_nat_def] tagged_array_Some tuple_of_def valid_tuple
              split: option.splits if_splits)
      qed (auto intro!: lawful_none simp: admitted_def validate_value.simps node tuple)
    next
      case enum
      show ?thesis
      proof (cases "node_uuid node 1")
        case (Inr type_id)
        have shape: "\<exists>i. length type_id = 16 \<and> length i = 16
            \<and> v = RTag 60008 (RArray [RTag 37 (RBytes type_id), RTag 37 (RBytes i), RNull])" if "?P v" for v
          using that validate_enum_shape
          by (auto simp: admitted_def validate_value.simps node enum Inr [unfolded One_nat_def] split: option.splits if_splits)
        define variant where "variant = (\<lambda>v. case untagged v of RArray [_, RTag _ (RBytes i), _] \<Rightarrow> i | _ \<Rightarrow> [])"
        show ?thesis
        proof (rule lawful_via [OF lawful_cmp [of "\<lambda>_. True"], where h = variant])
          fix v w assume "?P v" "?P w"
          with shape obtain i j where "length type_id = 16" "length i = 16" "length j = 16"
              "v = RTag 60008 (RArray [RTag 37 (RBytes type_id), RTag 37 (RBytes i), RNull])"
              "w = RTag 60008 (RArray [RTag 37 (RBytes type_id), RTag 37 (RBytes j), RNull])"
            by meson
          then show "compare_key_component v w = Ok (cmp (variant v) (variant w))" "variant v = variant w \<Longrightarrow> v = w"
            by (simp_all add: compare_component compare_uuids_Ok both_orders_def then_order_def variant_def untagged_def)
        qed simp
      qed (auto intro!: lawful_none simp: admitted_def validate_value.simps node enum)
    next
      case reference
      show ?thesis
      proof (cases "node_array node 3")
        case (Inr types)
        have shape: "\<exists>d t k. node_uuid node 1 = Ok d \<and> node_uuid node 2 = Ok t \<and> length d = 16 \<and> length t = 16
            \<and> v = RTag 60021 (RArray [RTag 37 (RBytes d), RTag 37 (RBytes t), k])
            \<and> validate_key_components defs k types = Ok () \<and> valid_raw ?V k" if P: "?P v" for v
        proof -
          obtain a where a: "tagged_array 60021 v = Some a"
            using P by (auto simp: admitted_def validate_value.simps node reference split: option.splits)
          then obtain d t k where dtk: "a = [d, t, k]"
            using P by (auto simp: admitted_def validate_value.simps node reference split: list.splits)
          have "key_uuid_is d node 1 = Ok ()" "key_uuid_is t node 2 = Ok ()" "validate_key_components defs k types = Ok ()"
            using P a dtk by (auto simp: admitted_def validate_value.simps node reference Inr split: sum.splits)
          moreover have "v = RTag 60021 (RArray [d, t, k])" using a dtk by (simp add: tagged_array_Some)
          moreover from this have "valid_raw ?V k" using P valid_tuple [of ?V 60021 "[d, t, k]"] by (simp add: admitted_def)
          ultimately show ?thesis
            by (auto simp: key_uuid_is_def raw_uuid_Some split: option.splits sum.splits if_splits)
        qed
        show ?thesis
        proof (rule lawful_via [OF lawful_key [OF smaller [OF Inr]],
              where h = "\<lambda>v. case untagged v of RArray [_, _, k] \<Rightarrow> k | _ \<Rightarrow> RNull"])
          fix v assume "?P v"
          with shape show "validate_key_components defs (case untagged v of RArray [_, _, k] \<Rightarrow> k | _ \<Rightarrow> RNull) types = Ok ()
              \<and> valid_raw ?V (case untagged v of RArray [_, _, k] \<Rightarrow> k | _ \<Rightarrow> RNull)"
            by (fastforce simp: untagged_def)
        next
          fix v w assume "?P v" "?P w"
          from shape [OF \<open>?P v\<close>] shape [OF \<open>?P w\<close>] obtain d t k l where "length d = 16" "length t = 16"
              "v = RTag 60021 (RArray [RTag 37 (RBytes d), RTag 37 (RBytes t), k])"
              "w = RTag 60021 (RArray [RTag 37 (RBytes d), RTag 37 (RBytes t), l])" by auto
          then show "compare_key_component v w = compare_key_component
                (case untagged v of RArray [_, _, k] \<Rightarrow> k | _ \<Rightarrow> RNull) (case untagged w of RArray [_, _, k] \<Rightarrow> k | _ \<Rightarrow> RNull)"
              "(case untagged v of RArray [_, _, k] \<Rightarrow> k | _ \<Rightarrow> RNull) = (case untagged w of RArray [_, _, k] \<Rightarrow> k | _ \<Rightarrow> RNull)
                \<Longrightarrow> v = w"
            by (simp_all add: compare_component [of "RTag 60021 _"] compare_uuids_Ok both_orders_def then_order_def untagged_def)
        qed
      qed (rule lawful_none, auto simp: admitted_def validate_value.simps node reference split: option.splits list.splits sum.splits)
    next
      case none
      then show ?thesis by (intro lawful_none) (auto simp: admitted_def validate_value.simps node)
    qed
  qed
qed

end
