(* ===== verification/Orna_Key_Identity.thy ===== *)
theory Orna_Key_Identity
  imports Orna_Key_Order
begin

text \<open>
  The identities of one profile are totally ordered: \<open>CompactKeyIdentity::cmp\<close> in
  \<open>crates/orna-storage/src/compact.rs\<close> on the encodings that \<open>decode_key\<close> admits. Here the lawful comparisons of
  Orna_Key_Order meet the profile of Orna_Key. A table with key fields compares its keys by their decoded values; a
  table without has the one key \<open>Unit\<close>, which \<open>compare_primary_keys\<close> refuses, so that its
  identity compares by the encoding.
\<close>

section \<open>Admitted values\<close>

text \<open>What \<open>decode_key\<close> checks of a decoded value.\<close>

definition key_of_profile :: "tag_registry \<Rightarrow> 'k profile \<Rightarrow> raw \<Rightarrow> bool" where
  "key_of_profile vtag p v \<longleftrightarrow> valid_raw vtag v \<and>
     (case p_key_fields p of
        [] \<Rightarrow> v = RTag 60014 (RArray [])
      | [f] \<Rightarrow> validate_value (p_definitions p) (kf_ty f) v = Ok ()
      | fs \<Rightarrow> \<exists>tuple. v = RTag 60015 (RArray tuple) \<and> tuple_of vtag (p_definitions p) (map kf_ty fs) tuple)"

lemma decoded_is_valid: "value_decode vtag b = Ok v \<Longrightarrow> valid_raw vtag v"
  by (auto simp: value_decode_def valid_raw_def split: sum.splits prod.splits if_splits)

lemma decode_key_value:
  assumes "decode_key vtag p b = Ok k"
  shows "\<exists>v. value_decode vtag b = Ok v \<and> key_of_profile vtag p v"
proof -
  obtain v where v: "value_decode vtag b = Ok v" using decode_key_Ok [OF assms] by blast
  have valid: "valid_raw vtag v" using decoded_is_valid [OF v] .
  have "key_of_profile vtag p v"
  proof (cases "p_key_fields p")
    case Nil
    with assms valid show ?thesis
      by (auto simp: key_of_profile_def decode_key_def v tagged_array_Some split: if_splits sum.splits)
  next
    case fields: (Cons f fs)
    show ?thesis
    proof (cases fs)
      case Nil
      with fields assms valid show ?thesis by (auto simp: key_of_profile_def decode_key_def v split: sum.splits)
    next
      case (Cons g gs)
      obtain tuple where "tagged_array 60015 v = Some tuple" "length tuple = length (f # fs)"
          "validate_values (p_definitions p) (map kf_ty (f # fs)) tuple = Ok ()"
        using assms unfolding decode_key_def by (auto simp: v fields Cons split: option.splits if_splits sum.splits)
      with valid valid_tuple show ?thesis
        by (auto simp: key_of_profile_def tuple_of_def fields Cons tagged_array_Some)
    qed
  qed
  with v show ?thesis by blast
qed

lemma zipped_components:
  "length a = length b \<Longrightarrow> compare_zipped a b = compare_key_components a b"
  by (induction a b rule: list_induct2) (auto split: sum.splits)

lemma primary_tuple: "tuple \<noteq> [] \<Longrightarrow> primary_key_components (RTag 60015 (RArray tuple)) = Ok tuple"
  by (simp add: primary_key_components_def)

lemma primary_component: "\<not> is_tag 60015 v \<Longrightarrow> is_primary_key_component v \<Longrightarrow> primary_key_components v = Ok [v]"
  by (cases v) (simp_all add: primary_key_components_def is_primary_key_component_def)

lemma zipped_single: "compare_zipped [v] [w] = compare_key_component v w"
  by (auto split: sum.splits)

lemma tuples_compare:
  assumes "length a = length b" and "a \<noteq> []"
  shows "compare_primary_keys (RTag 60015 (RArray a)) (RTag 60015 (RArray b)) = compare_key_components a b"
proof -
  have "b \<noteq> []" using assms by auto
  with assms show ?thesis by (simp add: compare_primary_keys_def primary_tuple zipped_components)
qed

lemma tuple_not_empty: "valid_raw (validate_tag other) (RTag 60015 (RArray tuple)) \<Longrightarrow> tuple \<noteq> []"
  by (auto dest!: valid_Tag simp: validate_tag_def)

lemma key_value_component:
  assumes "validate_value defs ty v = Ok ()"
  shows "is_primary_key_component v"
proof -
  have "(\<exists>b. v = RBool b) \<or> (\<exists>i. v = RInt i) \<or> (\<exists>s. v = RText s)
      \<or> (\<exists>n x. v = RTag n x \<and> n \<in> {37, 60000, 60001, 60002, 60008, 60015, 60021})"
    using assms
    by (auto simp: validate_value.simps tagged_array_Some
        dest!: scalar_value_shape validate_enum_shape split: option.splits sum.splits if_splits list.splits raw.splits)
  then show ?thesis by (auto simp: is_primary_key_component_def)
qed

text \<open>Only a tuple type admits tuples, and then nothing else.\<close>

lemma tuple_type:
  assumes "validate_value defs ty v = Ok ()" and "is_tag 60015 v"
  shows "\<exists>n. \<forall>w. validate_value defs ty w = Ok () \<longrightarrow> (\<exists>tuple. w = RTag 60015 (RArray tuple) \<and> length tuple = n)"
proof -
  obtain node code where node: "raw_array ty = Some node" "type_code ty = Some code"
    using assms by (auto simp: validate_value.simps split: option.splits)
  have code: "code = 3"
  proof (rule ccontr)
    assume "code \<noteq> 3"
    with assms show False
      by (auto simp: validate_value.simps node tagged_array_Some
          dest!: scalar_value_shape validate_enum_shape split: option.splits sum.splits if_splits list.splits raw.splits)
  qed
  then obtain types where "node_array node 1 = Ok types"
    using assms by (auto simp: validate_value.simps node split: sum.splits)
  note types = this [unfolded One_nat_def]
  show ?thesis
    by (rule exI [of _ "length types"])
      (auto simp: validate_value.simps node code types tagged_array_Some split: option.splits if_splits)
qed

text \<open>A key of one field is compared as that field is, tuples included.\<close>

lemma single_key_compare:
  assumes v: "admitted (validate_tag other) defs ty v" and w: "admitted (validate_tag other) defs ty w"
  shows "compare_primary_keys v w = compare_key_component v w"
proof (cases "is_tag 60015 v \<or> is_tag 60015 w")
  case True
  then obtain n where tuple: "\<And>x. validate_value defs ty x = Ok () \<Longrightarrow>
      \<exists>tuple. x = RTag 60015 (RArray tuple) \<and> length tuple = n"
    using v w tuple_type unfolding admitted_def by meson
  then obtain a b where ab: "v = RTag 60015 (RArray a)" "w = RTag 60015 (RArray b)" "length a = length b"
    using v w unfolding admitted_def by metis
  then have "a \<noteq> []" using v tuple_not_empty by (auto simp: admitted_def)
  with ab show ?thesis by (simp add: tuples_compare compare_component)
next
  case False
  then have "primary_key_components v = Ok [v]" "primary_key_components w = Ok [w]"
    using v w key_value_component primary_component unfolding admitted_def by blast+
  then show ?thesis by (simp add: compare_primary_keys_def zipped_single del: compare_zipped.simps)
qed

section \<open>The order of a profile's keys\<close>

lemma lawful_profile:
  assumes "p_key_fields p \<noteq> []"
  shows "lawful compare_primary_keys (key_of_profile (validate_tag other) p)"
proof -
  let ?V = "validate_tag other"
  obtain f fs where fields: "p_key_fields p = f # fs" using assms by (cases "p_key_fields p") auto
  show ?thesis
  proof (cases fs)
    case Nil
    show ?thesis
      by (rule lawful_via [OF key_type_lawful [of other "p_definitions p" "kf_ty f"], where h = "\<lambda>v. v"])
        (auto simp: key_of_profile_def fields Nil admitted_def intro: single_key_compare)
  next
    case (Cons g gs)
    have shape: "\<exists>tuple. v = RTag 60015 (RArray tuple) \<and> tuple \<noteq> [] \<and> tuple_of ?V (p_definitions p) (map kf_ty (f # fs)) tuple"
      if "key_of_profile ?V p v" for v
      using that by (auto simp: key_of_profile_def fields Cons tuple_of_def)
    show ?thesis
    proof (rule lawful_via [OF lawful_components [OF key_type_lawful [of other "p_definitions p"], of "map kf_ty (f # fs)"],
          where h = "\<lambda>v. case untagged v of RArray t \<Rightarrow> t"])
      fix v w assume "key_of_profile ?V p v" "key_of_profile ?V p w"
      from shape [OF this(1)] shape [OF this(2)] obtain a b where "v = RTag 60015 (RArray a)" "a \<noteq> []"
          "w = RTag 60015 (RArray b)" "length a = length b" by (auto simp: tuple_of_def)
      then show "compare_primary_keys v w =
            compare_key_components (case untagged v of RArray t \<Rightarrow> t) (case untagged w of RArray t \<Rightarrow> t)"
          "(case untagged v of RArray t \<Rightarrow> t) = (case untagged w of RArray t \<Rightarrow> t) \<Longrightarrow> v = w"
        by (simp_all add: tuples_compare untagged_def)
    next
      fix v assume "key_of_profile ?V p v"
      with shape show "tuple_of ?V (p_definitions p) (map kf_ty (f # fs)) (case untagged v of RArray t \<Rightarrow> t)"
        by (fastforce simp: untagged_def)
    qed
  qed
qed

text \<open>Where there are key fields, the identity's order is the logical one and the bytes never decide.\<close>

lemma identity_is_logical:
  assumes "value_decode (validate_tag other) a = Ok v" and "value_decode (validate_tag other) b = Ok w"
    and "key_of_profile (validate_tag other) p v" and "key_of_profile (validate_tag other) p w" and "p_key_fields p \<noteq> []"
  shows "compare_primary_keys v w = Ok (identity_cmp (validate_tag other) a b)
    \<and> (identity_cmp (validate_tag other) a b = Equal \<longleftrightarrow> a = b)"
proof -
  obtain c where c: "compare_primary_keys v w = Ok c" "c = Equal \<longleftrightarrow> v = w"
    using lawful_profile [OF assms(5)] assms(3,4) unfolding lawful_def by blast
  have same: "v = w \<longleftrightarrow> a = b"
    using assms(1,2) decoded_encodes_back [OF assms(1)] decoded_encodes_back [OF assms(2)] by auto
  have "identity_cmp (validate_tag other) a b = c"
    using c same by (cases c) (auto simp: identity_cmp_def assms(1,2) then_order_def cmp_simps)
  with c same show ?thesis by simp
qed

text \<open>The \<open>Unit\<close> key is no primary key value.\<close>

lemma unit_not_comparable: "compare_primary_keys (RTag 60014 (RArray [])) v = Err InvalidValue"
  by (simp add: compare_primary_keys_def primary_key_components_def is_primary_key_component_def)

lemma identity_of_none:
  assumes "p_key_fields p = []" and "decode_key vtag p a = Ok k" and "decode_key vtag p b = Ok l"
  shows "a = b \<and> identity_cmp vtag a b = Equal \<and> value_decode vtag a = Ok (RTag 60014 (RArray []))"
proof -
  obtain v w where v: "value_decode vtag a = Ok v" "value_decode vtag b = Ok w" "v = RTag 60014 (RArray [])" "w = v"
    using decode_key_value [OF assms(2)] decode_key_value [OF assms(3)] by (auto simp: key_of_profile_def assms(1))
  then have "a = b" using decoded_encodes_back [OF v(1)] decoded_encodes_back [OF v(2)] by simp
  with v show ?thesis
    by (simp add: identity_cmp_def compare_primary_keys_def primary_key_components_def is_primary_key_component_def
        then_order_def cmp_simps)
qed

text \<open>
  C26. \<open>CompactKeyIdentity::cmp\<close> is a total order on the keys of one table. On the encodings that a table's profile
  admits, two identities are equal exactly when their bytes are, and the order is antisymmetric and transitive. Where
  the table has key fields, any two admitted keys decode and \<open>compare_primary_keys\<close> gives their order without an
  error, so the fallback to the bytes is not taken. A table without key fields admits one encoding only, that of the
  \<open>Unit\<close> value; there \<open>compare_primary_keys\<close> does fail, and the comparison of the bytes decides.
\<close>

theorem profile_keys_are_ordered:
  assumes "decode_key (validate_tag other) p a = Ok k" and "decode_key (validate_tag other) p b = Ok l"
    and "decode_key (validate_tag other) p c = Ok m"
  shows "(identity_cmp (validate_tag other) a b = Equal \<longleftrightarrow> a = b)
    \<and> identity_cmp (validate_tag other) b a = reverse_order (identity_cmp (validate_tag other) a b)
    \<and> \<not> (identity_cmp (validate_tag other) a b = Less \<and> identity_cmp (validate_tag other) b c = Less
         \<and> identity_cmp (validate_tag other) a c \<noteq> Less)
    \<and> (if p_key_fields p = []
       then a = b \<and> value_decode (validate_tag other) a = Ok (RTag 60014 (RArray []))
         \<and> compare_primary_keys (RTag 60014 (RArray [])) (RTag 60014 (RArray [])) = Err InvalidValue
       else \<exists>v w. value_decode (validate_tag other) a = Ok v \<and> value_decode (validate_tag other) b = Ok w
         \<and> compare_primary_keys v w = Ok (identity_cmp (validate_tag other) a b))"
proof (cases "p_key_fields p = []")
  case True
  have "a = b" "identity_cmp (validate_tag other) a b = Equal" "identity_cmp (validate_tag other) b a = Equal"
    using identity_of_none [OF True assms(1,2)] identity_of_none [OF True assms(2,1)] by simp_all
  with True identity_of_none [OF True assms(1,2)] show ?thesis by (simp add: unit_not_comparable)
next
  case False
  obtain u v w where d: "value_decode (validate_tag other) a = Ok u" "value_decode (validate_tag other) b = Ok v"
      "value_decode (validate_tag other) c = Ok w"
    and q: "key_of_profile (validate_tag other) p u" "key_of_profile (validate_tag other) p v"
      "key_of_profile (validate_tag other) p w"
    using decode_key_value [OF assms(1)] decode_key_value [OF assms(2)] decode_key_value [OF assms(3)] by blast
  note ab = identity_is_logical [OF d(1,2) q(1,2) False] and ba = identity_is_logical [OF d(2,1) q(2,1) False]
    and bc = identity_is_logical [OF d(2,3) q(2,3) False] and ac = identity_is_logical [OF d(1,3) q(1,3) False]
  have trans_ok: "x = y" if "f = Ok x" "f = Ok y" for f :: "(ovb_error, ordering) result" and x y using that by simp
  obtain o1 where "compare_primary_keys u v = Ok o1" "compare_primary_keys v u = Ok (reverse_order o1)"
    using lawful_profile [OF False, of other] q(1,2) unfolding lawful_def by blast
  with trans_ok [OF conjunct1 [OF ab]]
  have rev: "compare_primary_keys v u = Ok (reverse_order (identity_cmp (validate_tag other) a b))" by simp
  have trans: "compare_primary_keys u w = Ok Less"
    if "compare_primary_keys u v = Ok Less" "compare_primary_keys v w = Ok Less"
    using lawful_profile [OF False, of other] q that unfolding lawful_def by blast
  have "identity_cmp (validate_tag other) b a = reverse_order (identity_cmp (validate_tag other) a b)"
    using trans_ok [OF conjunct1 [OF ba] rev] .
  moreover have "identity_cmp (validate_tag other) a c = Less"
    if "identity_cmp (validate_tag other) a b = Less" "identity_cmp (validate_tag other) b c = Less"
    using trans_ok [OF conjunct1 [OF ac] trans] conjunct1 [OF ab] conjunct1 [OF bc] that by metis
  moreover have "\<exists>v w. value_decode (validate_tag other) a = Ok v \<and> value_decode (validate_tag other) b = Ok w
      \<and> compare_primary_keys v w = Ok (identity_cmp (validate_tag other) a b)"
    using d(1,2) conjunct1 [OF ab] by blast
  ultimately show ?thesis using conjunct2 [OF ab] False by (simp only: if_False) blast
qed

text \<open>Decimals: minus three is below three halves, and that below two.\<close>

definition w_decimals :: "u8 list profile" where
  "w_decimals = \<lparr>p_schema = RMap [(RInt 3, RArray [])], p_table_id = [1],
     p_key_fields = [\<lparr>kf_id = [1], kf_ty = RArray [RInt 0, RText (byte_string ''Decimal'')]\<rparr>], p_definitions = [],
     p_schema_fingerprint = [2], p_identity = (\<lambda>b. b), p_encoded = (\<lambda>k. k)\<rparr>"

lemma w_decimal_keys:
  fixes other :: tag_registry
  defines "V \<equiv> validate_tag other"
  shows "decode_key V w_decimals [217, 234, 96, 130, 34, 0] = Ok [217, 234, 96, 130, 34, 0]"
    and "decode_key V w_decimals [217, 234, 96, 130, 15, 32] = Ok [217, 234, 96, 130, 15, 32]"
    and "decode_key V w_decimals [217, 234, 96, 130, 2, 0] = Ok [217, 234, 96, 130, 2, 0]"
    and "identity_cmp V [217, 234, 96, 130, 34, 0] [217, 234, 96, 130, 15, 32] = Less"
    and "identity_cmp V [217, 234, 96, 130, 15, 32] [217, 234, 96, 130, 2, 0] = Less"
  unfolding V_def by code_simp+

theorem profile_keys_are_ordered_witness:
  "identity_cmp (validate_tag (\<lambda>_ _. Err InvalidTag)) [217, 234, 96, 130, 34, 0] [217, 234, 96, 130, 2, 0] = Less
   \<and> identity_cmp (validate_tag (\<lambda>_ _. Err InvalidTag)) [217, 234, 96, 130, 15, 32] [217, 234, 96, 130, 34, 0] = Greater"
proof -
  note keys = w_decimal_keys [of "\<lambda>_ _. Err InvalidTag"]
  from profile_keys_are_ordered [OF keys(1-3)] keys(4,5) show ?thesis by simp
qed

end
