(* ===== verification/Orna_Access.thy ===== *)
theory Orna_Access
  imports Orna_Value
begin

text \<open>
  Deny-by-default authorisation: \<open>crates/orna-core/src/security.rs\<close>, with the INSPECT privileges of
  \<open>inspect.rs\<close> and the identities of the sealed functions of \<open>system.rs\<close>.

  A snapshot holds functions, principals, role memberships and grants of one revision, all checked on construction.
  Sessions are bound to it, and every decision binds the session again before it looks at a grant.

  Identities are byte strings of length 16. The opaque session binding, a fresh random identity, and the hash of the
  snapshot digest are arguments.
\<close>

type_synonym ident = "u8 list"

definition empty_id :: ident where
  "empty_id = replicate 16 0"

section \<open>Principals, grants and targets\<close>

datatype principal_kind = User | Role | Service

datatype principal_status = Active | Disabled

record principal =
  pr_id :: ident
  pr_kind :: principal_kind
  pr_status :: principal_status

record role_membership =
  rm_role :: ident
  rm_member :: ident

text \<open>Grantee and function, ordered in this order.\<close>

type_synonym execute_grant = "ident \<times> ident"

record local_peer_credential =
  lp_uid :: u32
  lp_principal :: ident

datatype target_class = Application | VerifiedStandard

record function_target =
  ft_function :: ident
  ft_class :: target_class
  ft_standard_revision :: "ident option"
  ft_executable_revision :: "ident option"

definition application_target :: "ident \<Rightarrow> function_target" where
  "application_target f =
     \<lparr>ft_function = f, ft_class = Application, ft_standard_revision = None, ft_executable_revision = None\<rparr>"

definition verified_standard_target :: "ident \<Rightarrow> ident \<Rightarrow> ident \<Rightarrow> function_target" where
  "verified_standard_target f standard executable =
     \<lparr>ft_function = f, ft_class = VerifiedStandard, ft_standard_revision = Some standard,
      ft_executable_revision = Some executable\<rparr>"

record revision_pair =
  rp_source :: ident
  rp_catalogue :: ident

record invocation_target =
  it_function :: ident
  it_revision :: revision_pair
  it_class :: "target_class option"
  it_standard_revision :: "ident option"
  it_executable_revision :: "ident option"

definition invocation_target_new :: "ident \<Rightarrow> revision_pair \<Rightarrow> invocation_target" where
  "invocation_target_new f revision =
     \<lparr>it_function = f, it_revision = revision, it_class = None, it_standard_revision = None,
      it_executable_revision = None\<rparr>"

definition invocation_verified_standard :: "ident \<Rightarrow> revision_pair \<Rightarrow> ident \<Rightarrow> ident \<Rightarrow> invocation_target" where
  "invocation_verified_standard f revision standard executable =
     \<lparr>it_function = f, it_revision = revision, it_class = Some VerifiedStandard, it_standard_revision = Some standard,
      it_executable_revision = Some executable\<rparr>"

record authenticated_session =
  au_principal :: ident
  au_active_roles :: "ident list"
  au_binding :: ident

section \<open>Privileges\<close>

datatype inspect_privilege =
  OwnInvocation | SessionInvocations | AnyInvocation | Values | Source | SecurityDetails | RuntimeInternals

datatype inspect_classifier = CValues | CSource | CSecurityDetails | CRuntimeInternals

fun ladder_rank :: "inspect_privilege \<Rightarrow> nat option" where
  "ladder_rank OwnInvocation = Some 0"
| "ladder_rank SessionInvocations = Some 1"
| "ladder_rank AnyInvocation = Some 2"
| "ladder_rank _ = None"

fun classifier :: "inspect_privilege \<Rightarrow> inspect_classifier option" where
  "classifier Values = Some CValues"
| "classifier Source = Some CSource"
| "classifier SecurityDetails = Some CSecurityDetails"
| "classifier RuntimeInternals = Some CRuntimeInternals"
| "classifier _ = None"

datatype privilege_class = Execute | Inspect inspect_privilege | SecurityAdmin

fun privilege_class_discriminator :: "privilege_class \<Rightarrow> u8" where
  "privilege_class_discriminator Execute = 1"
| "privilege_class_discriminator (Inspect OwnInvocation) = 2"
| "privilege_class_discriminator (Inspect SessionInvocations) = 3"
| "privilege_class_discriminator (Inspect AnyInvocation) = 4"
| "privilege_class_discriminator (Inspect Values) = 5"
| "privilege_class_discriminator (Inspect Source) = 6"
| "privilege_class_discriminator (Inspect SecurityDetails) = 7"
| "privilege_class_discriminator (Inspect RuntimeInternals) = 8"
| "privilege_class_discriminator SecurityAdmin = 9"

lemma discriminator_inj: "privilege_class_discriminator a = privilege_class_discriminator b \<longleftrightarrow> a = b"
  by (cases a rule: privilege_class_discriminator.cases; cases b rule: privilege_class_discriminator.cases) simp_all

text \<open>The derived order of \<open>PrivilegeClass\<close> is that of the discriminators.\<close>

instantiation privilege_class :: linorder
begin

definition less_eq_privilege_class :: "privilege_class \<Rightarrow> privilege_class \<Rightarrow> bool" where
  "a \<le> b \<longleftrightarrow> privilege_class_discriminator a \<le> privilege_class_discriminator b"

definition less_privilege_class :: "privilege_class \<Rightarrow> privilege_class \<Rightarrow> bool" where
  "a < b \<longleftrightarrow> privilege_class_discriminator a < privilege_class_discriminator b"

instance
  by standard (auto simp: less_eq_privilege_class_def less_privilege_class_def discriminator_inj [symmetric])

end

text \<open>Grantee, class and object, ordered in this order.\<close>

type_synonym privilege_grant = "ident \<times> privilege_class \<times> ident option"

abbreviation pg_grantee :: "privilege_grant \<Rightarrow> ident" where
  "pg_grantee \<equiv> fst"

abbreviation pg_class :: "privilege_grant \<Rightarrow> privilege_class" where
  "pg_class g \<equiv> fst (snd g)"

abbreviation pg_object :: "privilege_grant \<Rightarrow> ident option" where
  "pg_object g \<equiv> snd (snd g)"

datatype privilege_grant_error = EmptyGrantee | EmptyObject | SecurityAdminObject

definition privilege_grant_new ::
  "ident \<Rightarrow> privilege_class \<Rightarrow> ident option \<Rightarrow> (privilege_grant_error, privilege_grant) result" where
  "privilege_grant_new grantee c object =
     (if grantee = empty_id then Err EmptyGrantee
      else if object = Some empty_id then Err EmptyObject
      else if c = SecurityAdmin \<and> object \<noteq> None then Err SecurityAdminObject
      else Ok (grantee, c, object))"

datatype inspect_epoch_scope = Own | Session | Foreign

datatype inspect_denial = MissingPrivilege | MissingEpoch | ObserverSuppressed

datatype inspect_decision = InspectAllowed inspect_epoch_scope inspect_privilege | InspectDenied inspect_denial

text \<open>\<open>max()\<close> of the ranks that are there.\<close>

definition max_rank :: "nat option list \<Rightarrow> nat option" where
  "max_rank ranks = (case List.map_filter (\<lambda>r. r) ranks of [] \<Rightarrow> None | r # rs \<Rightarrow> Some (fold max rs r))"

definition unwrap_or :: "'a \<Rightarrow> 'a option \<Rightarrow> 'a" where
  "unwrap_or d x = (case x of None \<Rightarrow> d | Some y \<Rightarrow> y)"

definition authorise_inspect ::
  "ident \<Rightarrow> inspect_privilege \<Rightarrow> ident option \<Rightarrow> inspect_privilege list \<Rightarrow> inspect_decision" where
  "authorise_inspect session_principal requested epoch_owner granted =
     (let (required_rung, scope) = (case epoch_owner of
            Some owner \<Rightarrow> if owner = session_principal then (0, Own) else (2, Foreign)
          | None \<Rightarrow> (1, Session))
      in case max_rank (map ladder_rank granted) of
           None \<Rightarrow> InspectDenied MissingPrivilege
         | Some granted_rung \<Rightarrow>
             let requested_rung = unwrap_or 0 (ladder_rank requested) in
             if granted_rung < required_rung \<or> granted_rung < requested_rung then InspectDenied MissingPrivilege
             else if (case classifier requested of
                        None \<Rightarrow> False
                      | Some c \<Rightarrow> \<not> list_ex (\<lambda>p. classifier p = Some c) granted)
             then InspectDenied MissingPrivilege
             else InspectAllowed scope requested)"

datatype privilege_decision = PrivilegeAllowed privilege_class | PrivilegeDenied privilege_class

text \<open>The classes granted as INSPECT privileges.\<close>

definition inspect_classes :: "privilege_class list \<Rightarrow> inspect_privilege list" where
  "inspect_classes granted = List.map_filter (\<lambda>c. case c of Inspect p \<Rightarrow> Some p | _ \<Rightarrow> None) granted"

definition authorise_privilege ::
  "ident \<Rightarrow> privilege_class \<Rightarrow> ident option \<Rightarrow> privilege_class list \<Rightarrow> privilege_decision" where
  "authorise_privilege session_or_principal requested object granted =
     (let covered = (case requested of
            Execute \<Rightarrow> requested \<in> set granted
          | SecurityAdmin \<Rightarrow> object = None \<and> requested \<in> set granted
          | Inspect p \<Rightarrow>
              let required_rung = unwrap_or 0 (ladder_rank p);
                  ladder_covered = (case max_rank (map ladder_rank (inspect_classes granted)) of
                    None \<Rightarrow> False | Some rung \<Rightarrow> required_rung \<le> rung);
                  classifier_covered = (case classifier p of
                    None \<Rightarrow> True
                  | Some c \<Rightarrow> list_ex (\<lambda>q. classifier q = Some c) (inspect_classes granted))
              in ladder_covered \<and> classifier_covered)
      in if covered then PrivilegeAllowed requested else PrivilegeDenied requested)"

end
