(* ===== verification/Orna_Grants.thy ===== *)
theory Orna_Grants
  imports Orna_Access
begin

text \<open>
  \<open>SecuritySnapshot\<close> of \<open>crates/orna-core/src/security.rs\<close>: the checks of its construction with the cycle search of the
  role graph, its digest, the binding of sessions and the decisions on executing functions.
\<close>

section \<open>The role graph\<close>

text \<open>The roles that contain a principal directly.\<close>

definition containing_roles :: "role_membership list \<Rightarrow> ident \<Rightarrow> ident list" where
  "containing_roles memberships m = map rm_role (filter (\<lambda>x. rm_member x = m) memberships)"

lemma containing_in: "set (containing_roles memberships m) \<subseteq> rm_role ` set memberships"
  by (auto simp: containing_roles_def)

text \<open>
  The depth-first search. Its state are the sets \<open>visiting\<close> and \<open>visited\<close>; \<open>visit_each\<close> is the loop over the
  containing roles. Every step down enters one more node of the graph into \<open>visiting\<close>, and a step along leaves it as it is.
\<close>

function (sequential)
  visit :: "role_membership list \<Rightarrow> ident \<Rightarrow> ident set \<times> ident set \<Rightarrow> bool \<times> ident set \<times> ident set" and
  visit_each :: "role_membership list \<Rightarrow> ident list \<Rightarrow> ident set \<times> ident set \<Rightarrow> bool \<times> ident set \<times> ident set" where
  "visit memberships role (visiting, visited) =
     (if role \<in> visited then (False, visiting, visited)
      else if role \<in> visiting then (True, visiting, visited)
      else (case visit_each memberships (containing_roles memberships role) (insert role visiting, visited) of
              (True, s) \<Rightarrow> (True, s)
            | (False, visiting', visited') \<Rightarrow> (False, visiting' - {role}, insert role visited')))"
| "visit_each memberships [] s = (False, s)"
| "visit_each memberships (r # rs) s =
     (case visit memberships r s of
        (True, s') \<Rightarrow> (True, s')
      | (False, s') \<Rightarrow> visit_each memberships rs s')"
  by pat_completeness auto

termination
proof (relation "measures [\<lambda>x. case x of
      Inl (ms, r, s) \<Rightarrow> card (insert r (rm_role ` set ms) - fst s)
    | Inr (ms, rs, s) \<Rightarrow> card (set rs \<union> rm_role ` set ms - fst s),
    \<lambda>x. case x of Inl _ \<Rightarrow> 0 | Inr (ms, rs, s) \<Rightarrow> Suc (length rs)]", goal_cases)
  case 1
  then show ?case by simp
next
  case (2 ms role visiting visited)
  have "card (set (containing_roles ms role) \<union> rm_role ` set ms - insert role visiting)
      < card (insert role (rm_role ` set ms) - visiting)"
    using 2 containing_in [of ms role] by (intro psubset_card_mono) auto
  then show ?case by simp
next
  case (3 ms r rs s)
  have "card (insert r (rm_role ` set ms) - fst s) \<le> card (set (r # rs) \<union> rm_role ` set ms - fst s)"
    by (intro card_mono) auto
  then show ?case by auto
next
  case (4 ms r rs s x s')
  have restores:
    "visit_visit_each_dom (Inl (ms, r, s)) \<Longrightarrow> fst (visit ms r s) \<or> fst (snd (visit ms r s)) = fst s"
    "visit_visit_each_dom (Inr (ms, rs, s)) \<Longrightarrow> fst (visit_each ms rs s) \<or> fst (snd (visit_each ms rs s)) = fst s"
    for ms r rs s
  proof (induction ms r s and ms rs s rule: visit_visit_each.pinduct)
    case (1 ms role visiting visited)
    then show ?case by (auto simp: visit.psimps split: prod.splits bool.splits)
  next
    case (2 ms s)
    then show ?case by (simp add: visit_each.psimps)
  next
    case (3 ms r rs s)
    then show ?case by (auto simp: visit_each.psimps split: prod.splits bool.splits)
  qed
  from 4 have "fst s' = fst s" using restores(1) [of ms r s] by (metis fst_conv snd_conv)
  then have "card (set rs \<union> rm_role ` set ms - fst s') \<le> card (set (r # rs) \<union> rm_role ` set ms - fst s)"
    by (intro card_mono) auto
  then show ?case by auto
qed

text \<open>\<open>any\<close> over the sorted roles is the same loop.\<close>

definition role_graph_has_cycle :: "role_membership list \<Rightarrow> (ident, principal) btree_map \<Rightarrow> bool" where
  "role_graph_has_cycle memberships principals =
     (let roles = sort (map pr_id (filter (\<lambda>p. pr_kind p = Role) (map snd principals)))
      in fst (visit_each memberships roles ({}, {})))"

section \<open>The digest\<close>

definition SECURITY_CONTEXT_DIGEST_DOMAIN :: "u8 list" where
  "SECURITY_CONTEXT_DIGEST_DOMAIN = byte_string ''ORNA-SECURITY-SNAPSHOT-DIGEST'' @ [0, 1]"

definition digest_field :: "u8 list \<Rightarrow> u8 list" where
  "digest_field v = to_be_bytes 8 (int (length v)) @ v"

definition digest_count :: "nat \<Rightarrow> u8 list" where
  "digest_count n = digest_field (to_be_bytes 8 (int n))"

definition digest_optional :: "ident option \<Rightarrow> u8 list" where
  "digest_optional x = (case x of Some v \<Rightarrow> digest_field [1] @ digest_field v | None \<Rightarrow> digest_field [0])"

fun principal_kind_discriminator :: "principal_kind \<Rightarrow> u8" where
  "principal_kind_discriminator User = 1"
| "principal_kind_discriminator Role = 2"
| "principal_kind_discriminator Service = 3"

fun principal_status_discriminator :: "principal_status \<Rightarrow> u8" where
  "principal_status_discriminator Active = 1"
| "principal_status_discriminator Disabled = 2"

fun target_class_discriminator :: "target_class \<Rightarrow> u8" where
  "target_class_discriminator Application = 1"
| "target_class_discriminator VerifiedStandard = 2"

text \<open>One labelled section: its label, the number of its entries, and the entries.\<close>

definition digest_section :: "string \<Rightarrow> ('a \<Rightarrow> u8 list) \<Rightarrow> 'a list \<Rightarrow> u8 list" where
  "digest_section label entry xs = digest_field (byte_string label) @ digest_count (length xs) @ concat (map entry xs)"

definition digest_target :: "function_target \<Rightarrow> u8 list" where
  "digest_target t = digest_field (ft_function t) @ digest_field [target_class_discriminator (ft_class t)]
     @ digest_optional (ft_standard_revision t) @ digest_optional (ft_executable_revision t)"

definition digest_principal :: "principal \<Rightarrow> u8 list" where
  "digest_principal p = digest_field (pr_id p) @ digest_field [principal_kind_discriminator (pr_kind p)]
     @ digest_field [principal_status_discriminator (pr_status p)]"

definition digest_membership :: "role_membership \<Rightarrow> u8 list" where
  "digest_membership m = digest_field (rm_member m) @ digest_field (rm_role m)"

definition digest_grant :: "execute_grant \<Rightarrow> u8 list" where
  "digest_grant g = digest_field (fst g) @ digest_field (snd g)"

definition digest_privilege :: "privilege_grant \<Rightarrow> u8 list" where
  "digest_privilege g = digest_field (pg_grantee g) @ digest_field [privilege_class_discriminator (pg_class g)]
     @ digest_optional (pg_object g)"

definition digest_peer :: "local_peer_credential \<Rightarrow> u8 list" where
  "digest_peer c = digest_field (to_be_bytes 4 (uint (lp_uid c))) @ digest_field (lp_principal c)"

definition security_snapshot_digest ::
  "(u8 list \<Rightarrow> u8 list) \<Rightarrow> revision_pair \<Rightarrow> (ident, function_target) btree_map \<Rightarrow> (ident, principal) btree_map \<Rightarrow>
   role_membership list \<Rightarrow> execute_grant btree_set \<Rightarrow> privilege_grant btree_set \<Rightarrow>
   (u32, local_peer_credential) btree_map \<Rightarrow> u8 list" where
  "security_snapshot_digest sha256 revision targets principals memberships grants privilege_grants peers =
     sha256 (SECURITY_CONTEXT_DIGEST_DOMAIN
       @ digest_field (byte_string ''revision'') @ digest_field (rp_source revision) @ digest_field (rp_catalogue revision)
       @ digest_section ''function_targets'' digest_target (map snd targets)
       @ digest_section ''principals'' digest_principal (map snd principals)
       @ digest_section ''memberships'' digest_membership memberships
       @ digest_section ''execute_grants'' digest_grant grants
       @ digest_section ''privilege_grants'' digest_privilege privilege_grants
       @ digest_section ''local_peer_credentials'' digest_peer (map snd peers))"

section \<open>Sealed functions\<close>

definition system_id :: "u8 \<Rightarrow> ident" where
  "system_id n = replicate 15 0 @ [n]"

definition SYSTEM_FUNCTION_IDS :: "ident list" where
  "SYSTEM_FUNCTION_IDS = map system_id
     [0x01, 0x02, 0x30, 0x03, 0x04, 0x05, 0x06, 0x07, 0x08, 0x09, 0x0a, 0x0b, 0x0c, 0x40, 0x41, 0x42, 0x43, 0x44, 0x45,
      0x46, 0x47, 0x48, 0x49, 0x4a, 0x4b, 0x4c, 0x4d]"

definition CATALOGUE_HEALTH_FUNCTION_ID :: ident where
  "CATALOGUE_HEALTH_FUNCTION_ID = system_id 1"

definition SYS_INVOKE_FUNCTION_ID :: ident where
  "SYS_INVOKE_FUNCTION_ID = system_id 2"

definition is_system_function :: "ident \<Rightarrow> bool" where
  "is_system_function f \<longleftrightarrow> f \<in> set SYSTEM_FUNCTION_IDS"

section \<open>Construction\<close>

datatype security_snapshot_error =
    EmptyPrincipal | DuplicatePrincipal | DuplicateFunction | DuplicateMembership | DuplicateExecuteGrant
  | UnknownMembershipMember | UnknownMembershipRole | MembershipTargetIsNotRole | SelfMembership | CyclicRoleMembership
  | UnknownGrantPrincipal | UnknownGrantFunction | DuplicateLocalPeerUid | DuplicateLocalPeerPrincipal
  | UnknownLocalPeerPrincipal | DuplicatePrivilegeGrant | UnknownPrivilegeGrantPrincipal | UnknownPrivilegeGrantObject

record security_snapshot =
  sn_revision :: revision_pair
  sn_function_targets :: "(ident, function_target) btree_map"
  sn_principals :: "(ident, principal) btree_map"
  sn_memberships :: "role_membership list"
  sn_grants :: "execute_grant btree_set"
  sn_privilege_grants :: "privilege_grant btree_set"
  sn_local_peers :: "(u32, local_peer_credential) btree_map"
  sn_digest :: "u8 list"

definition principal_try_new :: "ident \<Rightarrow> principal_kind \<Rightarrow> principal_status \<Rightarrow> (security_snapshot_error, principal) result" where
  "principal_try_new i kind status =
     (if i = empty_id then Err EmptyPrincipal else Ok \<lparr>pr_id = i, pr_kind = kind, pr_status = status\<rparr>)"

fun snapshot_functions :: "function_target list \<Rightarrow> (ident, function_target) btree_map \<Rightarrow>
    (security_snapshot_error, (ident, function_target) btree_map) result" where
  "snapshot_functions [] known = Ok known"
| "snapshot_functions (f # fs) known =
     (if bm_contains known (ft_function f) then Err DuplicateFunction
      else snapshot_functions fs (bm_insert (ft_function f) f known))"

fun snapshot_principals :: "principal list \<Rightarrow> (ident, principal) btree_map \<Rightarrow>
    (security_snapshot_error, (ident, principal) btree_map) result" where
  "snapshot_principals [] by_id = Ok by_id"
| "snapshot_principals (p # ps) by_id =
     (if pr_id p = empty_id then Err EmptyPrincipal
      else if bm_contains by_id (pr_id p) then Err DuplicatePrincipal
      else snapshot_principals ps (bm_insert (pr_id p) p by_id))"

text \<open>\<open>membership_set\<close> holds the memberships seen before, which are the ones validated before.\<close>

fun snapshot_memberships :: "(ident, principal) btree_map \<Rightarrow> role_membership list \<Rightarrow> role_membership list \<Rightarrow>
    (security_snapshot_error, role_membership list) result" where
  "snapshot_memberships principals [] validated = Ok validated"
| "snapshot_memberships principals (m # ms) validated =
     (if m \<in> set validated then Err DuplicateMembership
      else if \<not> bm_contains principals (rm_member m) then Err UnknownMembershipMember
      else (case bm_get principals (rm_role m) of
              None \<Rightarrow> Err UnknownMembershipRole
            | Some role \<Rightarrow>
                if pr_kind role \<noteq> Role then Err MembershipTargetIsNotRole
                else if rm_role m = rm_member m then Err SelfMembership
                else snapshot_memberships principals ms (validated @ [m])))"

fun snapshot_grants :: "(ident, principal) btree_map \<Rightarrow> (ident, function_target) btree_map \<Rightarrow> execute_grant list \<Rightarrow>
    execute_grant btree_set \<Rightarrow> (security_snapshot_error, execute_grant btree_set) result" where
  "snapshot_grants principals known [] validated = Ok validated"
| "snapshot_grants principals known (g # gs) validated =
     (if bs_contains validated g then Err DuplicateExecuteGrant
      else if \<not> bm_contains principals (fst g) then Err UnknownGrantPrincipal
      else if \<not> bm_contains known (snd g) then Err UnknownGrantFunction
      else snapshot_grants principals known gs (bs_insert g validated))"

fun snapshot_peers :: "(ident, principal) btree_map \<Rightarrow> local_peer_credential list \<Rightarrow>
    (u32, local_peer_credential) btree_map \<times> ident btree_set \<Rightarrow>
    (security_snapshot_error, (u32, local_peer_credential) btree_map) result" where
  "snapshot_peers principals [] (by_uid, seen) = Ok by_uid"
| "snapshot_peers principals (c # cs) (by_uid, seen) =
     (if bm_contains by_uid (lp_uid c) then Err DuplicateLocalPeerUid
      else if bs_contains seen (lp_principal c) then Err DuplicateLocalPeerPrincipal
      else if \<not> bm_contains principals (lp_principal c) then Err UnknownLocalPeerPrincipal
      else snapshot_peers principals cs (bm_insert (lp_uid c) c by_uid, bs_insert (lp_principal c) seen))"

fun snapshot_privileges :: "(ident, principal) btree_map \<Rightarrow> (ident, function_target) btree_map \<Rightarrow> privilege_grant list \<Rightarrow>
    privilege_grant btree_set \<Rightarrow> (security_snapshot_error, privilege_grant btree_set) result" where
  "snapshot_privileges principals known [] validated = Ok validated"
| "snapshot_privileges principals known (g # gs) validated =
     (if bs_contains validated g then Err DuplicatePrivilegeGrant
      else if \<not> bm_contains principals (pg_grantee g) then Err UnknownPrivilegeGrantPrincipal
      else if (case pg_object g of None \<Rightarrow> False | Some f \<Rightarrow> \<not> bm_contains known f \<and> \<not> is_system_function f)
      then Err UnknownPrivilegeGrantObject
      else snapshot_privileges principals known gs (bs_insert g validated))"

text \<open>\<open>new_with_function_targets_local_peer_credentials_and_privilege_grants\<close>.\<close>

definition snapshot_new ::
  "(u8 list \<Rightarrow> u8 list) \<Rightarrow> revision_pair \<Rightarrow> function_target list \<Rightarrow> principal list \<Rightarrow> role_membership list \<Rightarrow>
   execute_grant list \<Rightarrow> local_peer_credential list \<Rightarrow> privilege_grant list \<Rightarrow>
   (security_snapshot_error, security_snapshot) result" where
  "snapshot_new sha256 revision functions principals memberships grants peers privileges =
     (case snapshot_functions functions [] of
        Inl e \<Rightarrow> Err e
      | Inr known \<Rightarrow> (case snapshot_principals principals [] of
          Inl e \<Rightarrow> Err e
        | Inr by_id \<Rightarrow> (case snapshot_memberships by_id memberships [] of
            Inl e \<Rightarrow> Err e
          | Inr unsorted \<Rightarrow>
              let ms = sort_key (\<lambda>m. (rm_member m, rm_role m)) unsorted in
              if role_graph_has_cycle ms by_id then Err CyclicRoleMembership
              else (case snapshot_grants by_id known grants [] of
                      Inl e \<Rightarrow> Err e
                    | Inr gs \<Rightarrow> (case snapshot_peers by_id peers ([], []) of
                        Inl e \<Rightarrow> Err e
                      | Inr cs \<Rightarrow> (case snapshot_privileges by_id known privileges [] of
                          Inl e \<Rightarrow> Err e
                        | Inr ps \<Rightarrow>
                            Ok \<lparr>sn_revision = revision, sn_function_targets = known, sn_principals = by_id,
                                sn_memberships = ms, sn_grants = gs, sn_privilege_grants = ps, sn_local_peers = cs,
                                sn_digest = security_snapshot_digest sha256 revision known by_id ms gs ps cs\<rparr>))))))"

definition snapshot_application ::
  "(u8 list \<Rightarrow> u8 list) \<Rightarrow> revision_pair \<Rightarrow> ident list \<Rightarrow> principal list \<Rightarrow> role_membership list \<Rightarrow>
   execute_grant list \<Rightarrow> local_peer_credential list \<Rightarrow> (security_snapshot_error, security_snapshot) result" where
  "snapshot_application sha256 revision functions principals memberships grants peers =
     snapshot_new sha256 revision (map application_target functions) principals memberships grants peers []"

section \<open>Sessions\<close>

text \<open>
  The loop over the memberships of one popped principal. \<open>pending\<close> is a stack with its top first.
\<close>

fun push_roles :: "(ident, principal) btree_map \<Rightarrow> ident list \<Rightarrow> ident set \<times> ident list \<Rightarrow> ident set \<times> ident list" where
  "push_roles principals [] s = s"
| "push_roles principals (r # rs) (reached, pending) =
     push_roles principals rs
       (if (case bm_get principals r of None \<Rightarrow> False | Some role \<Rightarrow> pr_status role = Active) \<and> r \<notin> reached
        then (insert r reached, r # pending) else (reached, pending))"

lemma push_roles_step:
  "push_roles principals rs (reached, pending) = (reached', pending') \<Longrightarrow>
     reached \<subseteq> reached' \<and> reached' \<subseteq> reached \<union> set rs \<and> (reached' = reached \<longrightarrow> pending' = pending)"
proof (induction rs arbitrary: reached pending)
  case (Cons r rs)
  define s where "s = (if (case bm_get principals r of None \<Rightarrow> False | Some role \<Rightarrow> pr_status role = Active) \<and> r \<notin> reached
        then (insert r reached, r # pending) else (reached, pending))"
  have "push_roles principals rs (fst s, snd s) = (reached', pending')" using Cons.prems by (simp add: s_def)
  note IH = Cons.IH [OF this]
  show ?case
  proof (cases "s = (reached, pending)")
    case True
    with IH show ?thesis by auto
  next
    case False
    then have "s = (insert r reached, r # pending)" "r \<notin> reached" by (auto simp: s_def split: if_splits)
    with IH show ?thesis by auto
  qed
qed simp

function reach_loop :: "role_membership list \<Rightarrow> (ident, principal) btree_map \<Rightarrow> ident set \<Rightarrow> ident list \<Rightarrow> ident set" where
  "reach_loop memberships principals reached [] = reached"
| "reach_loop memberships principals reached (m # pending) =
     (case push_roles principals (containing_roles memberships m) (reached, pending) of
        (reached', pending') \<Rightarrow> reach_loop memberships principals reached' pending')"
  by pat_completeness auto

termination
proof (relation "measures [\<lambda>(ms, ps, reached, pending). card (rm_role ` set ms - reached), \<lambda>(ms, ps, reached, pending). length pending]",
    goal_cases)
  case 1
  then show ?case by simp
next
  case (2 ms ps reached m pending reached' pending')
  then have step: "push_roles ps (containing_roles ms m) (reached, pending) = (reached', pending')" by simp
  show ?case
  proof (cases "reached' = reached")
    case True
    then show ?thesis using push_roles_step [OF step] by simp
  next
    case False
    have grows: "reached \<subseteq> reached'" and new: "reached' \<subseteq> reached \<union> set (containing_roles ms m)"
      using push_roles_step [OF step] by (rule conjunct1, elim conjE)
    from grows False obtain x where x: "x \<in> reached'" "x \<notin> reached" by blast
    with new containing_in [of ms m] have "x \<in> rm_role ` set ms" by blast
    with x grows have "rm_role ` set ms - reached' \<subset> rm_role ` set ms - reached" by blast
    then have "card (rm_role ` set ms - reached') < card (rm_role ` set ms - reached)"
      by (intro psubset_card_mono) simp_all
    then show ?thesis by simp
  qed
qed

definition reachable_roles :: "security_snapshot \<Rightarrow> ident \<Rightarrow> ident set" where
  "reachable_roles s p = reach_loop (sn_memberships s) (sn_principals s) {} [p]"

datatype session_binding_error =
    UnknownSessionPrincipal | DisabledSessionPrincipal | RoleCannotAuthenticate | DuplicateActiveRole | UnknownActiveRole
  | DisabledActiveRole | ActivePrincipalIsNotRole | UnreachableActiveRole

fun check_active_roles :: "(ident, principal) btree_map \<Rightarrow> ident set \<Rightarrow> ident list \<Rightarrow> (session_binding_error, unit) result" where
  "check_active_roles principals reachable [] = Ok ()"
| "check_active_roles principals reachable (r # rs) =
     (case bm_get principals r of
        None \<Rightarrow> Err UnknownActiveRole
      | Some role \<Rightarrow>
          if pr_status role = Disabled then Err DisabledActiveRole
          else if pr_kind role \<noteq> Role then Err ActivePrincipalIsNotRole
          else if r \<notin> reachable then Err UnreachableActiveRole
          else check_active_roles principals reachable rs)"

definition bind_authenticated_session ::
  "ident \<Rightarrow> security_snapshot \<Rightarrow> ident \<Rightarrow> ident list \<Rightarrow> (session_binding_error, authenticated_session) result" where
  "bind_authenticated_session fresh s who unsorted_roles =
     (let active_roles = sort unsorted_roles in
      if list_ex (\<lambda>(a, b). a = b) (zip active_roles (drop 1 active_roles)) then Err DuplicateActiveRole
      else (case bm_get (sn_principals s) who of
              None \<Rightarrow> Err UnknownSessionPrincipal
            | Some p \<Rightarrow>
                if pr_status p = Disabled then Err DisabledSessionPrincipal
                else if pr_kind p = Role then Err RoleCannotAuthenticate
                else (case check_active_roles (sn_principals s) (reachable_roles s who) active_roles of
                        Inl e \<Rightarrow> Err e
                      | Inr _ \<Rightarrow> Ok \<lparr>au_principal = who, au_active_roles = active_roles, au_binding = fresh\<rparr>)))"

datatype local_peer_authentication_error = UnknownUid | InvalidPrincipal session_binding_error

definition authenticate_local_peer ::
  "ident \<Rightarrow> security_snapshot \<Rightarrow> u32 \<Rightarrow> (local_peer_authentication_error, authenticated_session) result" where
  "authenticate_local_peer fresh s uid =
     (case bm_get (sn_local_peers s) uid of
        None \<Rightarrow> Err UnknownUid
      | Some c \<Rightarrow> (case bind_authenticated_session fresh s (lp_principal c) [] of
          Inl e \<Rightarrow> Err (InvalidPrincipal e) | Inr session \<Rightarrow> Ok session))"

section \<open>Decisions\<close>

datatype execute_denial =
  InvalidSession | UnknownFunction | RevisionMismatch | MissingExecuteGrant | UnsupportedSecurityDefiner

record authorised_invocation =
  ai_session_principal :: ident
  ai_effective_principal :: ident
  ai_active_roles :: "ident list"
  ai_authorising_principal :: ident
  ai_target :: invocation_target
  ai_digest :: "u8 list"

datatype execute_decision = Allowed authorised_invocation | Denied execute_denial

text \<open>The binding made here is thrown away, so its fresh identity is immaterial.\<close>

definition validate_session_and_revision ::
  "security_snapshot \<Rightarrow> authenticated_session \<Rightarrow> invocation_target \<Rightarrow> (execute_denial, unit) result" where
  "validate_session_and_revision s session target =
     (case bind_authenticated_session empty_id s (au_principal session) (au_active_roles session) of
        Inl _ \<Rightarrow> Err InvalidSession
      | Inr _ \<Rightarrow> if it_revision target \<noteq> sn_revision s then Err RevisionMismatch else Ok ())"

definition allowed_invocation ::
  "security_snapshot \<Rightarrow> authenticated_session \<Rightarrow> invocation_target \<Rightarrow> ident \<Rightarrow> authorised_invocation" where
  "allowed_invocation s session target authorising =
     \<lparr>ai_session_principal = au_principal session, ai_effective_principal = au_principal session,
      ai_active_roles = au_active_roles session, ai_authorising_principal = authorising, ai_target = target,
      ai_digest = sn_digest s\<rparr>"

definition has_execute_grant :: "security_snapshot \<Rightarrow> ident \<Rightarrow> ident \<Rightarrow> bool" where
  "has_execute_grant s f grantee \<longleftrightarrow>
     bs_contains (sn_grants s) (grantee, f)
     \<or> list_ex (\<lambda>g. pg_grantee g = grantee \<and> pg_class g = Execute \<and> (pg_object g = None \<or> pg_object g = Some f))
         (sn_privilege_grants s)"

definition authorise_execute ::
  "security_snapshot \<Rightarrow> authenticated_session \<Rightarrow> invocation_target \<Rightarrow> execute_decision" where
  "authorise_execute s session target =
     (case validate_session_and_revision s session target of
        Inl reason \<Rightarrow> Denied reason
      | Inr _ \<Rightarrow> (case bm_get (sn_function_targets s) (it_function target) of
          None \<Rightarrow> Denied UnknownFunction
        | Some f \<Rightarrow>
            let c = unwrap_or Application (it_class target) in
            if ft_class f \<noteq> c then Denied UnknownFunction
            else if c = VerifiedStandard \<and> (ft_executable_revision f \<noteq> it_executable_revision target
                   \<or> ft_standard_revision f \<noteq> it_standard_revision target)
            then Denied UnknownFunction
            else if has_execute_grant s (it_function target) (au_principal session)
            then Allowed (allowed_invocation s session target (au_principal session))
            else (case filter (has_execute_grant s (it_function target)) (au_active_roles session) of
                    [] \<Rightarrow> Denied MissingExecuteGrant
                  | r # rs \<Rightarrow> Allowed (allowed_invocation s session target (fold min rs r)))))"

definition system_function_after_validation ::
  "security_snapshot \<Rightarrow> authenticated_session \<Rightarrow> invocation_target \<Rightarrow> execute_decision" where
  "system_function_after_validation s session target =
     (if it_class target \<noteq> None \<or> it_standard_revision target \<noteq> None \<or> it_executable_revision target \<noteq> None
      then Denied UnknownFunction
      else if \<not> is_system_function (it_function target) then Denied UnknownFunction
      else Allowed (allowed_invocation s session target (au_principal session)))"

definition authorise_system_function ::
  "security_snapshot \<Rightarrow> authenticated_session \<Rightarrow> invocation_target \<Rightarrow> execute_decision" where
  "authorise_system_function s session target =
     (case validate_session_and_revision s session target of
        Inl reason \<Rightarrow> Denied reason | Inr _ \<Rightarrow> system_function_after_validation s session target)"

definition authorise_sys_invoke_entry ::
  "security_snapshot \<Rightarrow> authenticated_session \<Rightarrow> invocation_target \<Rightarrow> execute_decision" where
  "authorise_sys_invoke_entry s session target =
     (if it_function target \<noteq> SYS_INVOKE_FUNCTION_ID then Denied UnknownFunction
      else authorise_system_function s session target)"

definition authorise_catalogue_health ::
  "security_snapshot \<Rightarrow> authenticated_session \<Rightarrow> invocation_target \<Rightarrow> execute_decision" where
  "authorise_catalogue_health s session target =
     (case validate_session_and_revision s session target of
        Inl reason \<Rightarrow> Denied reason
      | Inr _ \<Rightarrow>
          if it_function target \<noteq> CATALOGUE_HEALTH_FUNCTION_ID then Denied UnknownFunction
          else system_function_after_validation s session target)"

end
