(* ===== verification/Orna_Grants_Laws.thy ===== *)
theory Orna_Grants_Laws
  imports Orna_Grants "HOL-Library.Multiset" Orna_Value_Laws
begin

text \<open>
  Laws of \<open>SecuritySnapshot\<close>. The cycle search and the worklist of reachable roles are compared with the closure of the
  membership relation; the constructor's loops with the sets of their inputs, so that a snapshot does not depend on
  the order in which records are recovered; and the decisions with the records they rest on.
\<close>

section \<open>The cycle search\<close>

definition role_edges :: "role_membership list \<Rightarrow> (ident \<times> ident) set" where
  "role_edges memberships = (\<lambda>m. (rm_member m, rm_role m)) ` set memberships"

lemma containing_roles_edges: "set (containing_roles ms r) = role_edges ms `` {r}"
  by (force simp: containing_roles_def role_edges_def)

definition cycle_from :: "role_membership list \<Rightarrow> ident \<Rightarrow> bool" where
  "cycle_from ms r \<longleftrightarrow> (\<exists>x. (r, x) \<in> (role_edges ms)\<^sup>* \<and> (x, x) \<in> (role_edges ms)\<^sup>+)"

text \<open>What the search has left behind: closed under membership, and without a cycle.\<close>

definition explored :: "role_membership list \<Rightarrow> ident set \<Rightarrow> bool" where
  "explored ms visited \<longleftrightarrow> role_edges ms `` visited \<subseteq> visited \<and> (\<forall>x \<in> visited. (x, x) \<notin> (role_edges ms)\<^sup>+)"

lemma explored_closed: "explored ms visited \<Longrightarrow> r \<in> visited \<Longrightarrow> (r, x) \<in> (role_edges ms)\<^sup>* \<Longrightarrow> x \<in> visited"
proof -
  assume "explored ms visited" and "r \<in> visited" and "(r, x) \<in> (role_edges ms)\<^sup>*"
  from this(3,2,1) show "x \<in> visited" by (induction rule: rtrancl_induct) (auto simp: explored_def)
qed

lemma explored_no_cycle: "explored ms visited \<Longrightarrow> r \<in> visited \<Longrightarrow> \<not> cycle_from ms r"
  unfolding cycle_from_def using explored_closed unfolding explored_def by blast

lemma explored_insert:
  assumes "explored ms visited" and "r \<notin> visited" and "role_edges ms `` {r} \<subseteq> visited"
  shows "explored ms (insert r visited)"
proof -
  have "(r, r) \<notin> (role_edges ms)\<^sup>+"
  proof
    assume "(r, r) \<in> (role_edges ms)\<^sup>+"
    then obtain x where "(r, x) \<in> role_edges ms" "(x, r) \<in> (role_edges ms)\<^sup>*" by (meson tranclD)
    with assms explored_closed [OF assms(1), of x r] show False by blast
  qed
  with assms show ?thesis by (auto simp: explored_def)
qed

lemma cycle_from_step: "(r, x) \<in> role_edges ms \<Longrightarrow> cycle_from ms x \<Longrightarrow> cycle_from ms r"
  unfolding cycle_from_def by (meson converse_rtrancl_into_rtrancl)

definition search_post :: "role_membership list \<Rightarrow> ident set \<Rightarrow> ident set \<times> ident set \<Rightarrow> bool \<times> ident set \<times> ident set \<Rightarrow> bool" where
  "search_post ms roots s res \<longleftrightarrow>
     (if fst res then \<exists>r \<in> roots. cycle_from ms r
      else fst (snd res) = fst s \<and> fst s \<inter> snd (snd res) = {} \<and> explored ms (snd (snd res)) \<and> roots \<union> snd s \<subseteq> snd (snd res))"

text \<open>The nodes being visited form a path to the one visited next.\<close>

definition search_pre :: "role_membership list \<Rightarrow> ident set \<Rightarrow> ident set \<times> ident set \<Rightarrow> bool" where
  "search_pre ms roots s \<longleftrightarrow> explored ms (snd s) \<and> fst s \<inter> snd s = {} \<and> fst s \<times> roots \<subseteq> (role_edges ms)\<^sup>+"

lemma visit_spec:
  "search_pre ms {r} s \<Longrightarrow> search_post ms {r} s (visit ms r s)"
  "search_pre ms (set rs) s \<Longrightarrow> search_post ms (set rs) s (visit_each ms rs s)"
proof (induction ms r s and ms rs s rule: visit_visit_each.induct)
  case (1 ms r visiting visited)
  consider (old) "r \<in> visited" | (cycle) "r \<notin> visited" "r \<in> visiting" | (new) "r \<notin> visited" "r \<notin> visiting" by blast
  then show ?case
  proof cases
    case cycle
    then have "cycle_from ms r" using "1.prems" unfolding cycle_from_def search_pre_def by auto
    with cycle show ?thesis by (simp add: search_post_def)
  next
    case new
    have path: "insert r visiting \<times> set (containing_roles ms r) \<subseteq> (role_edges ms)\<^sup>+"
    proof
      fix e assume "e \<in> insert r visiting \<times> set (containing_roles ms r)"
      then obtain v x where e: "e = (v, x)" "v = r \<or> v \<in> visiting" "(r, x) \<in> role_edges ms"
        by (auto simp: containing_roles_edges)
      then show "e \<in> (role_edges ms)\<^sup>+" using "1.prems" by (auto simp: search_pre_def intro: trancl_into_trancl)
    qed
    have IH: "search_post ms (set (containing_roles ms r)) (insert r visiting, visited)
        (visit_each ms (containing_roles ms r) (insert r visiting, visited))"
      using "1.IH" [OF new] "1.prems" new path by (simp add: search_pre_def)
    obtain b visiting' visited' where v: "visit_each ms (containing_roles ms r) (insert r visiting, visited) = (b, visiting', visited')"
      by (metis surj_pair)
    show ?thesis
    proof (cases b)
      case True
      with IH v have "cycle_from ms r" by (auto simp: search_post_def containing_roles_edges intro: cycle_from_step)
      with v True new show ?thesis by (simp add: search_post_def)
    next
      case False
      with IH v have s: "visiting' = insert r visiting" "visiting' \<inter> visited' = {}" "explored ms visited'"
          "role_edges ms `` {r} \<subseteq> visited'" "visited \<subseteq> visited'" by (auto simp: search_post_def containing_roles_edges)
      then have "explored ms (insert r visited')" by (intro explored_insert) auto
      with s v False new show ?thesis by (auto simp: search_post_def)
    qed
  qed (use "1.prems" in \<open>simp add: search_pre_def search_post_def\<close>)
next
  case (2 ms s)
  then show ?case by (auto simp: search_pre_def search_post_def)
next
  case (3 ms r rs s)
  obtain b visiting visited where v: "visit ms r s = (b, visiting, visited)" by (metis surj_pair)
  have IH1: "search_post ms {r} s (b, visiting, visited)" using "3.IH"(1) "3.prems" v by (auto simp: search_pre_def)
  show ?case
  proof (cases b)
    case True
    with IH1 v show ?thesis by (simp add: search_post_def)
  next
    case False
    with IH1 have s: "visiting = fst s" "visiting \<inter> visited = {}" "explored ms visited" "insert r (snd s) \<subseteq> visited"
      by (simp_all add: search_post_def)
    then have "search_pre ms (set rs) (visiting, visited)" using "3.prems" by (auto simp: search_pre_def)
    then have "search_post ms (set rs) (visiting, visited) (visit_each ms rs (visiting, visited))"
      using "3.IH"(2) [of False "(visiting, visited)"] v False by simp
    with s show ?thesis by (auto simp: v False search_post_def split: if_splits)
  qed
qed

lemma cycle_search: "role_graph_has_cycle ms ps \<longleftrightarrow> (\<exists>k p. (k, p) \<in> set ps \<and> pr_kind p = Role \<and> cycle_from ms (pr_id p))"
proof -
  define roles where "roles = sort (map pr_id (filter (\<lambda>p. pr_kind p = Role) (map snd ps)))"
  have in_roles: "r \<in> set roles \<longleftrightarrow> (\<exists>k p. (k, p) \<in> set ps \<and> pr_kind p = Role \<and> r = pr_id p)" for r
    by (force simp: roles_def)
  obtain b visiting visited where v: "visit_each ms roles ({}, {}) = (b, visiting, visited)" by (metis surj_pair)
  have "search_post ms (set roles) ({}, {}) (visit_each ms roles ({}, {}))"
    by (rule visit_spec) (simp add: search_pre_def explored_def)
  then have "b \<longleftrightarrow> (\<exists>r \<in> set roles. cycle_from ms r)"
    using explored_no_cycle [of ms visited] by (cases b) (auto simp: v search_post_def)
  moreover have "role_graph_has_cycle ms ps = b" by (simp add: role_graph_has_cycle_def v flip: roles_def)
  moreover have "(\<exists>r \<in> set roles. cycle_from ms r) \<longleftrightarrow> (\<exists>k p. (k, p) \<in> set ps \<and> pr_kind p = Role \<and> cycle_from ms (pr_id p))"
    unfolding Bex_def in_roles by blast
  ultimately show ?thesis by blast
qed

section \<open>Reachable roles\<close>

definition is_active :: "(ident, principal) btree_map \<Rightarrow> ident \<Rightarrow> bool" where
  "is_active principals r \<longleftrightarrow> (\<exists>p. bm_get principals r = Some p \<and> pr_status p = Active)"

text \<open>Memberships in roles that are active.\<close>

definition active_edges :: "role_membership list \<Rightarrow> (ident, principal) btree_map \<Rightarrow> (ident \<times> ident) set" where
  "active_edges memberships principals = {(m, r). (m, r) \<in> role_edges memberships \<and> is_active principals r}"

lemma push_roles_sets:
  "push_roles ps rs (reached, pending) = (reached', pending') \<Longrightarrow>
     reached' = reached \<union> {r \<in> set rs. is_active ps r} \<and> set pending' = set pending \<union> (reached' - reached)"
proof (induction rs arbitrary: reached pending)
  case (Cons r rs)
  have act: "(case bm_get ps r of None \<Rightarrow> False | Some role \<Rightarrow> pr_status role = Active) \<longleftrightarrow> is_active ps r"
    by (auto simp: is_active_def split: option.splits)
  show ?case
  proof (cases "is_active ps r \<and> r \<notin> reached")
    case True
    with Cons.prems have "push_roles ps rs (insert r reached, r # pending) = (reached', pending')" by (simp add: act)
    from Cons.IH [OF this] True show ?thesis by auto
  next
    case False
    with Cons.prems have "push_roles ps rs (reached, pending) = (reached', pending')"
      by (simp only: push_roles.simps act if_False)
    from Cons.IH [OF this] False show ?thesis by auto
  qed
qed simp

lemma reach_loop_spec:
  assumes "reached \<subseteq> (active_edges ms ps)\<^sup>+ `` {p}" and "set pending \<subseteq> insert p reached"
    and "active_edges ms ps `` (insert p reached - set pending) \<subseteq> reached"
  shows "reach_loop ms ps reached pending = (active_edges ms ps)\<^sup>+ `` {p}"
  using assms
proof (induction ms ps reached pending rule: reach_loop.induct)
  case (1 ms ps reached)
  let ?E = "active_edges ms ps"
  have "x \<in> reached" if "(p, x) \<in> ?E\<^sup>+" for x
    using that
  proof (induction rule: trancl_induct)
    case (base y)
    then show ?case using "1.prems"(3) by auto
  next
    case (step y z)
    then show ?case using "1.prems"(3) by auto
  qed
  with "1.prems"(1) show ?case by auto
next
  case (2 ms ps reached m pending)
  let ?E = "active_edges ms ps"
  obtain reached' pending' where push: "push_roles ps (containing_roles ms m) (reached, pending) = (reached', pending')"
    by (metis surj_pair)
  have out: "{r \<in> set (containing_roles ms m). is_active ps r} = ?E `` {m}"
    by (auto simp: containing_roles_edges active_edges_def)
  have sets: "reached' = reached \<union> ?E `` {m}" "set pending' = set pending \<union> (reached' - reached)"
    using push_roles_sets [OF push] by (simp_all only: out)
  have "(p, m) \<in> ?E\<^sup>*" using "2.prems"(1,2) by (auto dest: trancl_into_rtrancl)
  then have "reached' \<subseteq> ?E\<^sup>+ `` {p}" using sets(1) "2.prems"(1) by (auto intro: rtrancl_into_trancl1)
  moreover have "set pending' \<subseteq> insert p reached'" using sets "2.prems"(2) by auto
  moreover have "?E `` (insert p reached' - set pending') \<subseteq> reached'"
  proof
    fix z assume "z \<in> ?E `` (insert p reached' - set pending')"
    then obtain y where y: "y \<in> insert p reached'" "y \<notin> set pending'" "(y, z) \<in> ?E" by auto
    then have "y \<in> insert p reached" "y \<notin> set pending" using sets by auto
    with y(3) "2.prems"(3) sets(1) show "z \<in> reached'" by (cases "y = m") auto
  qed
  ultimately show ?case using "2.IH" [OF push [symmetric]] by (simp add: push)
qed

lemma reachable_roles_closure: "reachable_roles s p = (active_edges (sn_memberships s) (sn_principals s))\<^sup>+ `` {p}"
  unfolding reachable_roles_def by (rule reach_loop_spec) auto

section \<open>Sessions\<close>

definition active_principal :: "(ident, principal) btree_map \<Rightarrow> (principal_kind \<Rightarrow> bool) \<Rightarrow> ident \<Rightarrow> bool" where
  "active_principal principals P i \<longleftrightarrow>
     (\<exists>p. bm_get principals i = Some p \<and> pr_status p = Active \<and> P (pr_kind p))"

text \<open>Who may bind a session with which roles.\<close>

definition may_bind :: "security_snapshot \<Rightarrow> ident \<Rightarrow> ident list \<Rightarrow> bool" where
  "may_bind s who roles \<longleftrightarrow> distinct roles \<and> active_principal (sn_principals s) (\<lambda>k. k \<noteq> Role) who
     \<and> set roles \<subseteq> {r. active_principal (sn_principals s) (\<lambda>k. k = Role) r}
         \<inter> (active_edges (sn_memberships s) (sn_principals s))\<^sup>+ `` {who}"

lemma adjacent_distinct: "sorted xs \<Longrightarrow> list_ex (\<lambda>(a, b). a = b) (zip xs (drop 1 xs)) \<longleftrightarrow> \<not> distinct (xs :: 'a::linorder list)"
proof (induction xs)
  case (Cons x xs)
  show ?case
  proof (cases xs)
    case (Cons y ys)
    with Cons.IH Cons.prems have "list_ex (\<lambda>(a, b). a = b) (zip xs (drop 1 xs)) \<longleftrightarrow> \<not> distinct xs" by simp
    moreover have "x \<in> set xs \<longleftrightarrow> x = y" using Cons.prems Cons by fastforce
    ultimately show ?thesis using Cons by auto
  qed simp
qed simp

lemma check_active_roles_Ok:
  "check_active_roles ps reachable rs = Ok u \<longleftrightarrow> set rs \<subseteq> {r. active_principal ps (\<lambda>k. k = Role) r} \<inter> reachable"
proof (induction rs)
  case (Cons r rs)
  have status: "pr_status p = Disabled \<longleftrightarrow> pr_status p \<noteq> Active" for p by (cases "pr_status p") auto
  show ?case
    using Cons by (cases "bm_get ps r") (auto simp: active_principal_def status)
qed simp

lemma bind_session_Ok:
  "bind_authenticated_session fresh s who roles = Ok session \<longleftrightarrow>
     may_bind s who roles \<and> session = \<lparr>au_principal = who, au_active_roles = sort roles, au_binding = fresh\<rparr>"
proof -
  have status: "pr_status p = Disabled \<longleftrightarrow> pr_status p \<noteq> Active" for p by (cases "pr_status p") auto
  have roles: "check_active_roles ps reachable (sort roles) = Ok u \<longleftrightarrow>
      set roles \<subseteq> {r. active_principal ps (\<lambda>k. k = Role) r} \<inter> reachable" for ps reachable u
    by (simp add: check_active_roles_Ok)
  show ?thesis
  proof (cases "distinct roles")
    case False
    then have "list_ex (\<lambda>(a, b). a = b) (zip (sort roles) (drop 1 (sort roles)))" by (simp only: adjacent_distinct sorted_sort) simp
    with False show ?thesis by (simp add: bind_authenticated_session_def Let_def may_bind_def)
  next
    case True
    then have adj: "\<not> list_ex (\<lambda>(a, b). a = b) (zip (sort roles) (drop 1 (sort roles)))"
      by (simp only: adjacent_distinct sorted_sort) simp
    show ?thesis
    proof (cases "bm_get (sn_principals s) who")
      case None
      with adj True show ?thesis by (simp add: bind_authenticated_session_def Let_def may_bind_def active_principal_def)
    next
      case (Some p)
      show ?thesis
      proof (cases "check_active_roles (sn_principals s) (reachable_roles s who) (sort roles)")
        case (Inl e)
        then have "\<not> set roles \<subseteq> {r. active_principal (sn_principals s) (\<lambda>k. k = Role) r} \<inter> reachable_roles s who"
          using roles [of "sn_principals s" "reachable_roles s who" "()"] by simp
        with adj Some Inl show ?thesis
          by (simp add: bind_authenticated_session_def Let_def may_bind_def reachable_roles_closure) blast
      next
        case (Inr u)
        then have "set roles \<subseteq> {r. active_principal (sn_principals s) (\<lambda>k. k = Role) r} \<inter> reachable_roles s who"
          using roles by blast
        with adj True Some Inr show ?thesis
          by (auto simp: bind_authenticated_session_def Let_def may_bind_def active_principal_def [of _ _ who] status
              reachable_roles_closure)
      qed
    qed
  qed
qed

section \<open>The loops of the constructor\<close>

text \<open>A map built from records by one of their fields.\<close>

definition indexes :: "('a \<Rightarrow> 'k::linorder) \<Rightarrow> 'a set \<Rightarrow> ('k, 'a) btree_map \<Rightarrow> bool" where
  "indexes f xs m \<longleftrightarrow> bm_wf m \<and> (\<forall>k x. bm_get m k = Some x \<longleftrightarrow> x \<in> xs \<and> f x = k)"

lemma indexes_unique: "indexes f xs m \<Longrightarrow> indexes f xs m' \<Longrightarrow> m = m'"
  unfolding indexes_def by (rule bm_ext) (auto simp: fun_eq_iff, metis option.exhaust)

lemma indexes_contains: "indexes f xs m \<Longrightarrow> bm_contains m k \<longleftrightarrow> k \<in> f ` xs"
  unfolding indexes_def bm_contains_get by (metis imageE imageI not_None_eq)

lemma indexes_values: "indexes f xs m \<Longrightarrow> snd ` set m = xs"
  unfolding indexes_def by (force simp: bm_get_mem [symmetric] dest: bm_get_mem)

lemma indexes_empty: "indexes f {} []"
  by (simp add: indexes_def)

lemma indexes_insert: "indexes f xs m \<Longrightarrow> f x \<notin> f ` xs \<Longrightarrow> indexes f (insert x xs) (bm_insert (f x) x m)"
proof -
  assume m: "indexes f xs m" and x: "f x \<notin> f ` xs"
  have "y \<in> xs \<Longrightarrow> f y \<noteq> f x" for y using x by (metis imageI)
  with m show ?thesis unfolding indexes_def by (auto simp: bm_get_insert intro: bm_wf_insert)
qed

lemma snapshot_functions_Ok:
  "indexes ft_function xs known \<Longrightarrow> snapshot_functions fs known = Ok m \<longleftrightarrow>
     distinct (map ft_function fs) \<and> ft_function ` xs \<inter> ft_function ` set fs = {} \<and> indexes ft_function (xs \<union> set fs) m"
proof (induction fs arbitrary: known xs)
  case Nil
  then show ?case by (auto intro: indexes_unique)
next
  case (Cons f fs)
  show ?case
  proof (cases "ft_function f \<in> ft_function ` xs")
    case True
    then show ?thesis using indexes_contains [OF Cons.prems] by auto
  next
    case False
    from Cons.IH [OF indexes_insert [OF Cons.prems False]] False
    show ?thesis by (auto simp: indexes_contains [OF Cons.prems])
  qed
qed

lemma snapshot_principals_Ok:
  "indexes pr_id xs by_id \<Longrightarrow> snapshot_principals ps by_id = Ok m \<longleftrightarrow>
     distinct (map pr_id ps) \<and> empty_id \<notin> pr_id ` set ps \<and> pr_id ` xs \<inter> pr_id ` set ps = {}
     \<and> indexes pr_id (xs \<union> set ps) m"
proof (induction ps arbitrary: by_id xs)
  case Nil
  then show ?case by (auto intro: indexes_unique)
next
  case (Cons p ps)
  show ?case
  proof (cases "pr_id p \<in> pr_id ` xs")
    case True
    then show ?thesis using indexes_contains [OF Cons.prems] by auto
  next
    case False
    from Cons.IH [OF indexes_insert [OF Cons.prems False]] False
    show ?thesis by (auto simp: indexes_contains [OF Cons.prems])
  qed
qed

definition membership_ok :: "(ident, principal) btree_map \<Rightarrow> role_membership \<Rightarrow> bool" where
  "membership_ok ps m \<longleftrightarrow> bm_contains ps (rm_member m) \<and> rm_role m \<noteq> rm_member m
     \<and> (\<exists>role. bm_get ps (rm_role m) = Some role \<and> pr_kind role = Role)"

lemma snapshot_memberships_Ok:
  "snapshot_memberships ps ms validated = Ok v \<longleftrightarrow>
     distinct ms \<and> set validated \<inter> set ms = {} \<and> list_all (membership_ok ps) ms \<and> v = validated @ ms"
proof (induction ms arbitrary: validated)
  case (Cons m ms)
  show ?case
  proof (cases "m \<notin> set validated \<and> membership_ok ps m")
    case True
    then have "snapshot_memberships ps (m # ms) validated = snapshot_memberships ps ms (validated @ [m])"
      by (auto simp: membership_ok_def)
    with Cons.IH [of "validated @ [m]"] True show ?thesis by auto
  next
    case False
    then show ?thesis by (auto simp: membership_ok_def split: option.splits)
  qed
qed auto

definition grant_ok :: "(ident, principal) btree_map \<Rightarrow> (ident, function_target) btree_map \<Rightarrow> execute_grant \<Rightarrow> bool" where
  "grant_ok ps known g \<longleftrightarrow> bm_contains ps (fst g) \<and> bm_contains known (snd g)"

lemma bs_unique: "bs_wf xs \<Longrightarrow> bs_wf ys \<Longrightarrow> set xs = set ys \<Longrightarrow> xs = ys"
  unfolding bs_wf_def by (rule sorted_distinct_set_unique) (auto simp: strict_sorted_iff)

lemma snapshot_grants_Ok:
  "bs_wf validated \<Longrightarrow> snapshot_grants ps known gs validated = Ok v \<longleftrightarrow>
     distinct gs \<and> set validated \<inter> set gs = {} \<and> list_all (grant_ok ps known) gs \<and> bs_wf v \<and> set v = set validated \<union> set gs"
proof (induction gs arbitrary: validated)
  case Nil
  then show ?case by (auto intro: bs_unique)
next
  case (Cons g gs)
  from Cons.IH [OF bs_wf_insert [OF Cons.prems, of g]] show ?case by (auto simp: grant_ok_def)
qed

definition privilege_ok :: "(ident, principal) btree_map \<Rightarrow> (ident, function_target) btree_map \<Rightarrow> privilege_grant \<Rightarrow> bool" where
  "privilege_ok ps known g \<longleftrightarrow> bm_contains ps (pg_grantee g)
     \<and> (case pg_object g of None \<Rightarrow> True | Some f \<Rightarrow> bm_contains known f \<or> is_system_function f)"

lemma snapshot_privileges_Ok:
  "bs_wf validated \<Longrightarrow> snapshot_privileges ps known gs validated = Ok v \<longleftrightarrow>
     distinct gs \<and> set validated \<inter> set gs = {} \<and> list_all (privilege_ok ps known) gs \<and> bs_wf v
     \<and> set v = set validated \<union> set gs"
proof (induction gs arbitrary: validated)
  case Nil
  then show ?case by (auto intro: bs_unique)
next
  case (Cons g gs)
  from Cons.IH [OF bs_wf_insert [OF Cons.prems, of g]] show ?case
    by (cases "pg_object g") (auto simp: privilege_ok_def)
qed

lemma snapshot_peers_Ok:
  "indexes lp_uid xs by_uid \<Longrightarrow> set seen = lp_principal ` xs \<Longrightarrow> snapshot_peers ps cs (by_uid, seen) = Ok m \<longleftrightarrow>
     distinct (map lp_uid cs) \<and> distinct (map lp_principal cs) \<and> lp_uid ` xs \<inter> lp_uid ` set cs = {}
     \<and> lp_principal ` xs \<inter> lp_principal ` set cs = {} \<and> list_all (\<lambda>c. bm_contains ps (lp_principal c)) cs
     \<and> indexes lp_uid (xs \<union> set cs) m"
proof (induction cs arbitrary: by_uid seen xs)
  case Nil
  then show ?case by (auto intro: indexes_unique)
next
  case (Cons c cs)
  show ?case
  proof (cases "lp_uid c \<in> lp_uid ` xs \<or> lp_principal c \<in> lp_principal ` xs")
    case True
    then show ?thesis using indexes_contains [OF Cons.prems(1)] Cons.prems(2) by auto
  next
    case False
    then have "indexes lp_uid (insert c xs) (bm_insert (lp_uid c) c by_uid)" using indexes_insert [OF Cons.prems(1)] by blast
    moreover have "set (bs_insert (lp_principal c) seen) = lp_principal ` insert c xs" using Cons.prems(2) by simp
    ultimately show ?thesis using Cons.IH False Cons.prems(2) by (auto simp: indexes_contains [OF Cons.prems(1)])
  qed
qed

end
