(* ===== verification/Orna_Snapshot_Laws.thy ===== *)
theory Orna_Snapshot_Laws
  imports Orna_Grants_Laws
begin

text \<open>
  What a security snapshot is, and what its decisions mean: the constructor decided as a whole, its independence of the
  order of the recovered records, the grants behind every allowed call, and the digest that stands for a snapshot.
\<close>

section \<open>The constructor\<close>

abbreviation membership_key :: "role_membership \<Rightarrow> ident \<times> ident" where
  "membership_key m \<equiv> (rm_member m, rm_role m)"

text \<open>The records \<open>fs\<close>, \<open>ps\<close>, \<open>ms\<close>, \<open>gs\<close>, \<open>cs\<close> and \<open>rs\<close> are accepted, and \<open>s\<close> is the snapshot they make.\<close>

definition makes ::
  "(u8 list \<Rightarrow> u8 list) \<Rightarrow> revision_pair \<Rightarrow> function_target list \<Rightarrow> principal list \<Rightarrow> role_membership list \<Rightarrow>
   execute_grant list \<Rightarrow> local_peer_credential list \<Rightarrow> privilege_grant list \<Rightarrow> security_snapshot \<Rightarrow> bool" where
  "makes sha256 revision fs ps ms gs cs rs s \<longleftrightarrow>
     distinct (map ft_function fs) \<and> indexes ft_function (set fs) (sn_function_targets s)
     \<and> distinct (map pr_id ps) \<and> empty_id \<notin> pr_id ` set ps \<and> indexes pr_id (set ps) (sn_principals s)
     \<and> distinct ms \<and> list_all (membership_ok (sn_principals s)) ms \<and> sn_memberships s = sort_key membership_key ms
     \<and> \<not> role_graph_has_cycle (sn_memberships s) (sn_principals s)
     \<and> distinct gs \<and> list_all (grant_ok (sn_principals s) (sn_function_targets s)) gs
     \<and> bs_wf (sn_grants s) \<and> set (sn_grants s) = set gs
     \<and> distinct (map lp_uid cs) \<and> distinct (map lp_principal cs)
     \<and> list_all (\<lambda>c. bm_contains (sn_principals s) (lp_principal c)) cs \<and> indexes lp_uid (set cs) (sn_local_peers s)
     \<and> distinct rs \<and> list_all (privilege_ok (sn_principals s) (sn_function_targets s)) rs
     \<and> bs_wf (sn_privilege_grants s) \<and> set (sn_privilege_grants s) = set rs
     \<and> sn_revision s = revision
     \<and> sn_digest s = security_snapshot_digest sha256 revision (sn_function_targets s) (sn_principals s) (sn_memberships s)
         (sn_grants s) (sn_privilege_grants s) (sn_local_peers s)"

lemmas loops_Ok = snapshot_functions_Ok [OF indexes_empty] snapshot_principals_Ok [OF indexes_empty]
  snapshot_memberships_Ok [of _ _ "[]"] snapshot_grants_Ok [OF bs_wf_Nil] snapshot_privileges_Ok [OF bs_wf_Nil]
  snapshot_peers_Ok [OF indexes_empty, of "[]"]

lemma snapshot_new_makes:
  assumes "snapshot_new sha256 revision fs ps ms gs cs rs = Ok s"
  shows "makes sha256 revision fs ps ms gs cs rs s"
proof -
  obtain known where known: "snapshot_functions fs [] = Ok known"
    using assms by (cases "snapshot_functions fs []") (simp_all add: snapshot_new_def)
  obtain by_id where by_id: "snapshot_principals ps [] = Ok by_id"
    using assms by (cases "snapshot_principals ps []") (simp_all add: snapshot_new_def known)
  obtain us where us: "snapshot_memberships by_id ms [] = Ok us"
    using assms by (cases "snapshot_memberships by_id ms []") (simp_all add: snapshot_new_def known by_id)
  have acyclic: "\<not> role_graph_has_cycle (sort_key membership_key us) by_id"
    using assms by (auto simp: snapshot_new_def known by_id us Let_def)
  obtain grants where grants: "snapshot_grants by_id known gs [] = Ok grants"
    using assms acyclic by (cases "snapshot_grants by_id known gs []") (simp_all add: snapshot_new_def known by_id us Let_def)
  obtain peers where peers: "snapshot_peers by_id cs ([], []) = Ok peers"
    using assms acyclic
    by (cases "snapshot_peers by_id cs ([], [])") (simp_all add: snapshot_new_def known by_id us Let_def grants)
  obtain privileges where privileges: "snapshot_privileges by_id known rs [] = Ok privileges"
    using assms acyclic
    by (cases "snapshot_privileges by_id known rs []") (simp_all add: snapshot_new_def known by_id us Let_def grants peers)
  have s: "s = \<lparr>sn_revision = revision, sn_function_targets = known, sn_principals = by_id,
      sn_memberships = sort_key membership_key us, sn_grants = grants, sn_privilege_grants = privileges,
      sn_local_peers = peers, sn_digest = security_snapshot_digest sha256 revision known by_id
        (sort_key membership_key us) grants privileges peers\<rparr>"
    using assms acyclic by (simp add: snapshot_new_def known by_id us Let_def grants peers privileges)
  show ?thesis
    using known by_id us acyclic grants peers privileges by (simp add: makes_def s loops_Ok)
qed

lemma makes_snapshot_new:
  assumes "makes sha256 revision fs ps ms gs cs rs s"
  shows "snapshot_new sha256 revision fs ps ms gs cs rs = Ok s"
proof -
  note m = assms [unfolded makes_def]
  have "snapshot_functions fs [] = Ok (sn_function_targets s)" "snapshot_principals ps [] = Ok (sn_principals s)"
    "snapshot_memberships (sn_principals s) ms [] = Ok ms"
    "snapshot_grants (sn_principals s) (sn_function_targets s) gs [] = Ok (sn_grants s)"
    "snapshot_peers (sn_principals s) cs ([], []) = Ok (sn_local_peers s)"
    "snapshot_privileges (sn_principals s) (sn_function_targets s) rs [] = Ok (sn_privilege_grants s)"
    using m by (simp_all add: loops_Ok)
  moreover have sorted: "sn_memberships s = sort_key membership_key ms" using m by blast
  moreover have "\<not> role_graph_has_cycle (sort_key membership_key ms) (sn_principals s)"
    using m unfolding sorted by blast
  moreover have "sn_revision s = revision" "sn_digest s = security_snapshot_digest sha256 revision (sn_function_targets s)
      (sn_principals s) (sn_memberships s) (sn_grants s) (sn_privilege_grants s) (sn_local_peers s)" using m by blast+
  ultimately show ?thesis by (simp add: snapshot_new_def Let_def)
qed

lemma sort_key_canonical:
  assumes "mset xs = mset ys" and "inj f"
  shows "sort_key f xs = sort_key f ys"
proof -
  have "map f (sort_key f xs) = sort (map f ys)" if "mset xs = mset ys" for xs ys :: "'a list" and f :: "'a \<Rightarrow> 'b::linorder"
    by (rule properties_for_sort [symmetric]) (use that in simp_all)
  from this [OF assms(1), of f] this [of ys ys f] have "map f (sort_key f xs) = map f (sort_key f ys)" by simp
  with assms(2) show ?thesis by (simp add: inj_map_eq_map)
qed

lemma membership_key_inj: "inj membership_key"
  by (auto simp: inj_def)

lemma distinct_map_mset: "mset xs = mset ys \<Longrightarrow> distinct (map f xs) \<longleftrightarrow> distinct (map f ys)"
  by (rule mset_eq_imp_distinct_iff) simp

lemma makes_permuted:
  assumes "mset fs = mset fs'" and "mset ps = mset ps'" and "mset ms = mset ms'" and "mset gs = mset gs'"
    and "mset cs = mset cs'" and "mset rs = mset rs'" and "makes sha256 revision fs ps ms gs cs rs s"
  shows "makes sha256 revision fs' ps' ms' gs' cs' rs' s"
proof -
  have sets: "set fs' = set fs" "set ps' = set ps" "set ms' = set ms" "set gs' = set gs" "set cs' = set cs" "set rs' = set rs"
    using assms(1-6) by (metis set_mset_mset)+
  have dist: "distinct (map ft_function fs') \<longleftrightarrow> distinct (map ft_function fs)" "distinct (map pr_id ps') \<longleftrightarrow> distinct (map pr_id ps)"
    "distinct ms' \<longleftrightarrow> distinct ms" "distinct gs' \<longleftrightarrow> distinct gs" "distinct (map lp_uid cs') \<longleftrightarrow> distinct (map lp_uid cs)"
    "distinct (map lp_principal cs') \<longleftrightarrow> distinct (map lp_principal cs)" "distinct rs' \<longleftrightarrow> distinct rs"
    using assms(1-6) by (metis distinct_map_mset mset_eq_imp_distinct_iff)+
  have sorted: "sort_key membership_key ms' = sort_key membership_key ms"
    by (rule sort_key_canonical [OF _ membership_key_inj]) (simp add: assms(3))
  from assms(7) show ?thesis unfolding makes_def list_all_iff sets dist sorted .
qed

text \<open>Every cycle of memberships runs through roles of the snapshot, from which the search starts.\<close>

lemma no_cycle_acyclic:
  assumes "makes sha256 revision fs ps ms gs cs rs s"
  shows "acyclic (role_edges (sn_memberships s))"
proof -
  note m = assms [unfolded makes_def]
  have "(x, x) \<notin> (role_edges (sn_memberships s))\<^sup>+" for x
  proof
    assume c: "(x, x) \<in> (role_edges (sn_memberships s))\<^sup>+"
    then obtain y where "(y, x) \<in> role_edges (sn_memberships s)" by (meson tranclD2)
    then obtain e where e: "e \<in> set ms" "rm_role e = x" using m by (auto simp: role_edges_def)
    then obtain role where role: "bm_get (sn_principals s) x = Some role" "pr_kind role = Role"
      using m by (auto simp: list_all_iff membership_ok_def)
    then have "(x, role) \<in> set (sn_principals s)" "pr_id role = x"
      using m by (auto simp: indexes_def bm_get_mem)
    with c role(2) have "role_graph_has_cycle (sn_memberships s) (sn_principals s)"
      unfolding cycle_search cycle_from_def by blast
    with m show False by blast
  qed
  then show ?thesis by (simp add: acyclic_def)
qed

text \<open>
  C14. Recovering a security snapshot does not depend on the order in which its records come: permuted records give the
  same snapshot, digest included, or are refused alike. In every snapshot the memberships are acyclic.
\<close>

theorem snapshot_is_canonical:
  assumes "mset fs = mset fs'" and "mset ps = mset ps'" and "mset ms = mset ms'" and "mset gs = mset gs'"
    and "mset cs = mset cs'" and "mset rs = mset rs'"
  shows "(snapshot_new sha256 revision fs ps ms gs cs rs = Ok s) = (snapshot_new sha256 revision fs' ps' ms' gs' cs' rs' = Ok s)
    \<and> (snapshot_new sha256 revision fs ps ms gs cs rs = Ok s \<longrightarrow> acyclic (role_edges (sn_memberships s)))"
  using makes_permuted [OF assms] makes_permuted [OF assms [symmetric]] no_cycle_acyclic
    makes_snapshot_new snapshot_new_makes by metis

text \<open>
  C15. The depth-first search answers whether a membership cycle can be reached from a role of the snapshot.
\<close>

theorem role_cycle_search_exact:
  "role_graph_has_cycle ms ps \<longleftrightarrow>
     (\<exists>k p x. (k, p) \<in> set ps \<and> pr_kind p = Role \<and> (pr_id p, x) \<in> (role_edges ms)\<^sup>* \<and> (x, x) \<in> (role_edges ms)\<^sup>+)"
  unfolding cycle_search cycle_from_def by blast

text \<open>
  C16. A session is bound exactly for an active principal that is not a role, with distinct active roles each of which the
  principal reaches through memberships in active roles. A local peer gets the session of its principal without roles.
\<close>

theorem session_binding_exact:
  "(bind_authenticated_session fresh s who roles = Ok session) =
     (distinct roles
      \<and> (\<exists>p. bm_get (sn_principals s) who = Some p \<and> pr_status p = Active \<and> pr_kind p \<noteq> Role)
      \<and> set roles \<subseteq> {r. \<exists>p. bm_get (sn_principals s) r = Some p \<and> pr_status p = Active \<and> pr_kind p = Role}
          \<inter> (active_edges (sn_memberships s) (sn_principals s))\<^sup>+ `` {who}
      \<and> session = \<lparr>au_principal = who, au_active_roles = sort roles, au_binding = fresh\<rparr>)
   \<and> (authenticate_local_peer fresh s uid = Ok session) =
     (\<exists>c. bm_get (sn_local_peers s) uid = Some c \<and> bind_authenticated_session fresh s (lp_principal c) [] = Ok session)"
proof -
  have "(authenticate_local_peer fresh s uid = Ok session) =
     (\<exists>c. bm_get (sn_local_peers s) uid = Some c \<and> bind_authenticated_session fresh s (lp_principal c) [] = Ok session)"
    by (auto simp: authenticate_local_peer_def split: option.splits sum.splits)
  then show ?thesis unfolding bind_session_Ok may_bind_def active_principal_def by blast
qed

section \<open>Decisions\<close>

text \<open>The records give \<open>f\<close> to \<open>grantee\<close>, by a function grant or by an EXECUTE privilege.\<close>

definition granted_by :: "execute_grant list \<Rightarrow> privilege_grant list \<Rightarrow> ident \<Rightarrow> ident \<Rightarrow> bool" where
  "granted_by gs rs f grantee \<longleftrightarrow>
     (grantee, f) \<in> set gs \<or> (grantee, Execute, None) \<in> set rs \<or> (grantee, Execute, Some f) \<in> set rs"

text \<open>The target names a listed function in its class, and a standard function with its pins.\<close>

definition pinned_by :: "function_target list \<Rightarrow> invocation_target \<Rightarrow> bool" where
  "pinned_by fs target \<longleftrightarrow> (\<exists>f \<in> set fs. ft_function f = it_function target
     \<and> ft_class f = unwrap_or Application (it_class target)
     \<and> (ft_class f = Application \<or> ft_executable_revision f = it_executable_revision target
          \<and> ft_standard_revision f = it_standard_revision target))"

lemma granted: "makes sha256 revision fs ps ms gs cs rs s \<Longrightarrow> has_execute_grant s f g \<longleftrightarrow> granted_by gs rs f g"
proof -
  assume "makes sha256 revision fs ps ms gs cs rs s"
  then have sets: "set (sn_grants s) = set gs" "set (sn_privilege_grants s) = set rs" unfolding makes_def by blast+
  show ?thesis unfolding has_execute_grant_def granted_by_def list_ex_iff bs_contains_iff sets by force
qed

lemma pinned:
  assumes "makes sha256 revision fs ps ms gs cs rs s"
  shows "(\<exists>f. bm_get (sn_function_targets s) (it_function target) = Some f
      \<and> ft_class f = unwrap_or Application (it_class target)
      \<and> (ft_class f = Application \<or> ft_executable_revision f = it_executable_revision target
          \<and> ft_standard_revision f = it_standard_revision target)) \<longleftrightarrow> pinned_by fs target"
proof -
  have "bm_get (sn_function_targets s) k = Some f \<longleftrightarrow> f \<in> set fs \<and> ft_function f = k" for k f
    using assms unfolding makes_def indexes_def by blast
  then show ?thesis by (auto simp: pinned_by_def)
qed

lemma fold_min: "fold min rs (r :: 'a::linorder) = Min (set (r # rs))"
  by (rule Min.set_eq_fold [symmetric])

lemma validated: "validate_session_and_revision s session target = Ok u \<longleftrightarrow>
    may_bind s (au_principal session) (au_active_roles session) \<and> it_revision target = sn_revision s"
proof (cases "bind_authenticated_session empty_id s (au_principal session) (au_active_roles session)")
  case (Inl e)
  then have "\<not> may_bind s (au_principal session) (au_active_roles session)"
    using bind_session_Ok [of empty_id s "au_principal session" "au_active_roles session"] by auto
  with Inl show ?thesis by (simp add: validate_session_and_revision_def)
next
  case (Inr b)
  then have "may_bind s (au_principal session) (au_active_roles session)" by (simp add: bind_session_Ok)
  with Inr show ?thesis by (simp add: validate_session_and_revision_def)
qed

text \<open>The grantee a decision names: the session's principal, else the least active role with a grant.\<close>

definition authorising :: "(ident \<Rightarrow> bool) \<Rightarrow> authenticated_session \<Rightarrow> ident \<Rightarrow> bool" where
  "authorising granted session g \<longleftrightarrow> granted g
     \<and> (g = au_principal session
        \<or> \<not> granted (au_principal session) \<and> g = Min {r \<in> set (au_active_roles session). granted r}
          \<and> g \<in> set (au_active_roles session))"

lemma authorise_execute_Allowed:
  "authorise_execute s session target = Allowed a \<longleftrightarrow>
     validate_session_and_revision s session target = Ok ()
     \<and> (\<exists>f. bm_get (sn_function_targets s) (it_function target) = Some f
        \<and> ft_class f = unwrap_or Application (it_class target)
        \<and> (ft_class f = Application \<or> ft_executable_revision f = it_executable_revision target
            \<and> ft_standard_revision f = it_standard_revision target))
     \<and> (\<exists>g. authorising (has_execute_grant s (it_function target)) session g \<and> a = allowed_invocation s session target g)"
proof (cases "validate_session_and_revision s session target")
  case (Inl e)
  then show ?thesis by (simp add: authorise_execute_def)
next
  case v: (Inr u)
  let ?granted = "has_execute_grant s (it_function target)"
  show ?thesis
  proof (cases "bm_get (sn_function_targets s) (it_function target)")
    case None
    with v show ?thesis by (simp add: authorise_execute_def)
  next
    case (Some f)
    have c: "ft_class f = VerifiedStandard \<longleftrightarrow> ft_class f \<noteq> Application" by (cases "ft_class f") simp_all
    show ?thesis
    proof (cases "ft_class f = unwrap_or Application (it_class target) \<and> (ft_class f = Application
          \<or> ft_executable_revision f = it_executable_revision target \<and> ft_standard_revision f = it_standard_revision target)")
      case False
      with v Some c show ?thesis by (auto simp: authorise_execute_def Let_def)
    next
      case True
      have pick: "authorise_execute s session target =
          (if ?granted (au_principal session) then Allowed (allowed_invocation s session target (au_principal session))
           else (case filter ?granted (au_active_roles session) of [] \<Rightarrow> Denied MissingExecuteGrant
             | r # rs \<Rightarrow> Allowed (allowed_invocation s session target (fold min rs r))))"
        using v Some True c by (auto simp: authorise_execute_def Let_def)
      show ?thesis
      proof (cases "?granted (au_principal session)")
        case direct: True
        with v Some True pick show ?thesis by (auto simp: authorising_def)
      next
        case indirect: False
        have chosen: "authorising ?granted session g \<longleftrightarrow>
            (\<exists>r rs. filter ?granted (au_active_roles session) = r # rs \<and> g = fold min rs r)" for g
        proof (cases "filter ?granted (au_active_roles session)")
          case Nil
          then show ?thesis using indirect by (auto simp: authorising_def filter_empty_conv)
        next
          case (Cons r rs)
          then have set: "{r \<in> set (au_active_roles session). ?granted r} = set (r # rs)" by (metis set_filter)
          have "fold min rs r \<in> {r \<in> set (au_active_roles session). ?granted r}"
            unfolding fold_min set by (rule Min_in) simp_all
          then have "?granted (fold min rs r)" "fold min rs r \<in> set (au_active_roles session)" by blast+
          moreover have "Min {r \<in> set (au_active_roles session). ?granted r} = fold min rs r" by (simp only: set fold_min)
          ultimately show ?thesis using indirect unfolding authorising_def Cons by auto
        qed
        have "authorise_execute s session target = Allowed a \<longleftrightarrow>
            (\<exists>g. authorising ?granted session g \<and> a = allowed_invocation s session target g)"
        proof (cases "filter ?granted (au_active_roles session)")
          case Nil
          then have "\<not> authorising ?granted session g" for g using chosen by simp
          moreover have "authorise_execute s session target = Denied MissingExecuteGrant" using pick indirect Nil by simp
          ultimately show ?thesis by simp
        next
          case (Cons r rs)
          then have "authorising ?granted session g \<longleftrightarrow> g = fold min rs r" for g using chosen by simp
          moreover have "authorise_execute s session target = Allowed (allowed_invocation s session target (fold min rs r))"
            using pick indirect Cons by simp
          ultimately show ?thesis by auto
        qed
        with v Some True show ?thesis by auto
      qed
    qed
  qed
qed

text \<open>What the records say of a session: who may act, and in which roles.\<close>

definition listed :: "principal list \<Rightarrow> (principal_kind \<Rightarrow> bool) \<Rightarrow> ident set" where
  "listed ps P = {pr_id p |p. p \<in> set ps \<and> pr_status p = Active \<and> P (pr_kind p)}"

definition role_steps :: "principal list \<Rightarrow> role_membership list \<Rightarrow> (ident \<times> ident) set" where
  "role_steps ps ms = {(rm_member m, rm_role m) |m. m \<in> set ms \<and> rm_role m \<in> listed ps (\<lambda>_. True)}"

lemma records_of_session:
  assumes "makes sha256 revision fs ps ms gs cs rs s"
  shows "may_bind s who roles \<longleftrightarrow> distinct roles \<and> who \<in> listed ps (\<lambda>k. k \<noteq> Role)
    \<and> set roles \<subseteq> listed ps (\<lambda>k. k = Role) \<inter> (role_steps ps ms)\<^sup>+ `` {who}"
proof -
  have get: "bm_get (sn_principals s) k = Some p \<longleftrightarrow> p \<in> set ps \<and> pr_id p = k" for k p
    using assms unfolding makes_def indexes_def by blast
  have members: "set (sn_memberships s) = set ms" using assms by (simp add: makes_def)
  have "active_principal (sn_principals s) P i \<longleftrightarrow> i \<in> listed ps P" for P i
    by (auto simp: active_principal_def listed_def get)
  moreover have "active_edges (sn_memberships s) (sn_principals s) = role_steps ps ms"
    unfolding active_edges_def role_edges_def role_steps_def listed_def is_active_def get members by force
  ultimately show ?thesis by (simp add: may_bind_def)
qed

text \<open>
  C13. Deny by default. A call is allowed exactly when the recovered records say so: the revision is the active one, the
  session's principal is active and reaches its active roles, the target is a listed function of its class with its exact
  pins, and a record grants it to the principal or to an active role. The evidence names that principal, else the least
  such role.
\<close>

theorem execute_is_deny_by_default:
  assumes "snapshot_new sha256 revision fs ps ms gs cs rs = Ok s"
  shows "(authorise_execute s session target = Allowed a) =
    (it_revision target = revision \<and> distinct (au_active_roles session)
     \<and> au_principal session \<in> listed ps (\<lambda>k. k \<noteq> Role)
     \<and> set (au_active_roles session) \<subseteq> listed ps (\<lambda>k. k = Role) \<inter> (role_steps ps ms)\<^sup>+ `` {au_principal session}
     \<and> pinned_by fs target
     \<and> (\<exists>g. authorising (granted_by gs rs (it_function target)) session g
          \<and> a = \<lparr>ai_session_principal = au_principal session, ai_effective_principal = au_principal session,
                 ai_active_roles = au_active_roles session, ai_authorising_principal = g, ai_target = target,
                 ai_digest = sn_digest s\<rparr>))"
proof -
  note m = snapshot_new_makes [OF assms]
  have "sn_revision s = revision" using m unfolding makes_def by blast
  moreover have "has_execute_grant s (it_function target) = granted_by gs rs (it_function target)"
    using granted [OF m] by blast
  ultimately show ?thesis
    unfolding authorise_execute_Allowed validated records_of_session [OF m] pinned [OF m] allowed_invocation_def by auto
qed

section \<open>Instances\<close>

text \<open>A user in a role, which is contained in another; the outer role has the grant.\<close>

definition w_ident :: "u8 \<Rightarrow> ident" where
  "w_ident n = replicate 15 9 @ [n]"

definition w_revision :: revision_pair where
  "w_revision = \<lparr>rp_source = w_ident 1, rp_catalogue = w_ident 2\<rparr>"

definition w_principals :: "principal list" where
  "w_principals = [\<lparr>pr_id = w_ident 3, pr_kind = User, pr_status = Active\<rparr>, \<lparr>pr_id = w_ident 4, pr_kind = Role, pr_status = Active\<rparr>,
     \<lparr>pr_id = w_ident 5, pr_kind = Role, pr_status = Active\<rparr>]"

definition w_memberships :: "role_membership list" where
  "w_memberships = [\<lparr>rm_role = w_ident 5, rm_member = w_ident 4\<rparr>, \<lparr>rm_role = w_ident 4, rm_member = w_ident 3\<rparr>]"

definition w_snapshot :: "role_membership list \<Rightarrow> (security_snapshot_error, security_snapshot) result" where
  "w_snapshot ms = snapshot_new (\<lambda>_. []) w_revision [application_target (w_ident 6)] w_principals ms [(w_ident 5, w_ident 6)]
     [\<lparr>lp_uid = 7, lp_principal = w_ident 3\<rparr>] [(w_ident 4, SecurityAdmin, None)]"

definition w_session :: authenticated_session where
  "w_session = \<lparr>au_principal = w_ident 3, au_active_roles = [w_ident 5], au_binding = w_ident 8\<rparr>"

lemma w_snapshot_evaluated:
  "case w_snapshot w_memberships of
     Inl _ \<Rightarrow> False
   | Inr s \<Rightarrow> (case authorise_execute s w_session (invocation_target_new (w_ident 6) w_revision) of
       Allowed a \<Rightarrow> ai_authorising_principal a = w_ident 5 | Denied _ \<Rightarrow> False)"
  by code_simp

theorem snapshot_is_canonical_witness:
  "\<exists>s. w_snapshot w_memberships = Ok s \<and> w_snapshot (rev w_memberships) = Ok s \<and> acyclic (role_edges (sn_memberships s))"
proof -
  obtain s where s: "w_snapshot w_memberships = Ok s"
    using w_snapshot_evaluated by (cases "w_snapshot w_memberships") simp_all
  have "mset w_memberships = mset (rev w_memberships)" by simp
  from snapshot_is_canonical [OF refl refl this refl refl refl] s show ?thesis unfolding w_snapshot_def by blast
qed

theorem execute_is_deny_by_default_witness:
  "w_ident 5 \<in> (role_steps w_principals w_memberships)\<^sup>+ `` {w_ident 3}
   \<and> pinned_by [application_target (w_ident 6)] (invocation_target_new (w_ident 6) w_revision)"
proof -
  obtain s where s: "w_snapshot w_memberships = Ok s"
    using w_snapshot_evaluated by (cases "w_snapshot w_memberships") simp_all
  then obtain a where "authorise_execute s w_session (invocation_target_new (w_ident 6) w_revision) = Allowed a"
    using w_snapshot_evaluated by (cases "authorise_execute s w_session (invocation_target_new (w_ident 6) w_revision)") simp_all
  with execute_is_deny_by_default [OF s [unfolded w_snapshot_def]] show ?thesis by (simp add: w_session_def)
qed

end
