(* ===== verification/Orna_Snapshot_Digest.thy ===== *)
theory Orna_Snapshot_Digest
  imports Orna_Snapshot_Laws Orna_Lowering
begin

text \<open>
  The digest of a security snapshot stands for the snapshot: what \<open>security_snapshot_digest\<close> hashes can be read back,
  field by field and section by section. And the ladder of INSPECT privileges.
\<close>

section \<open>Fields\<close>

definition short_bytes :: "u8 list \<Rightarrow> bool" where
  "short_bytes b \<longleftrightarrow> length b < 2 ^ 64"

lemma short_id: "length b = 16 \<Longrightarrow> short_bytes b"
  by (simp add: short_bytes_def)

lemma short_one: "short_bytes [b]"
  by (simp add: short_bytes_def)

lemma short_be: "w \<le> 8 \<Longrightarrow> short_bytes (to_be_bytes w n)"
  by (simp add: short_bytes_def)

lemma field_cancel:
  assumes "short_bytes a" and "short_bytes b"
  shows "digest_field a @ r = digest_field b @ r' \<longleftrightarrow> a = b \<and> r = r'"
proof
  assume "digest_field a @ r = digest_field b @ r'"
  then have eq: "to_be_bytes 8 (int (length a)) @ a @ r = to_be_bytes 8 (int (length b)) @ b @ r'" by (simp add: digest_field_def)
  then have len: "to_be_bytes 8 (int (length a)) = to_be_bytes 8 (int (length b))" and tail: "a @ r = b @ r'"
    by (simp_all add: append_eq_append_conv del: to_be_bytes_Suc)
  have "length a = length b" using len assms be_inj [of "int (length a)" "int (length b)"] by (simp add: short_bytes_def)
  with tail show "a = b \<and> r = r'" by (simp add: append_eq_append_conv)
qed simp

lemma count_cancel:
  assumes "m < 2 ^ 64" and "n < 2 ^ 64"
  shows "digest_count m @ r = digest_count n @ r' \<longleftrightarrow> m = n \<and> r = r'"
  using assms be_inj [of "int m" "int n"]
  by (simp add: digest_count_def field_cancel short_be del: to_be_bytes_Suc)

definition short_option :: "ident option \<Rightarrow> bool" where
  "short_option x \<longleftrightarrow> (case x of None \<Rightarrow> True | Some v \<Rightarrow> length v = 16)"

lemma optional_cancel:
  "short_option x \<Longrightarrow> short_option y \<Longrightarrow> digest_optional x @ r = digest_optional y @ r' \<longleftrightarrow> x = y \<and> r = r'"
  by (cases x; cases y) (simp_all add: digest_optional_def short_option_def field_cancel short_one short_id)

section \<open>Sections\<close>

text \<open>Codes whose words, followed by anything, can be told apart.\<close>

definition prefix_code :: "('a \<Rightarrow> bool) \<Rightarrow> ('a \<Rightarrow> u8 list) \<Rightarrow> bool" where
  "prefix_code P e \<longleftrightarrow> (\<forall>x y r r'. P x \<and> P y \<and> e x @ r = e y @ r' \<longrightarrow> x = y \<and> r = r')"

lemma codes_cancel:
  "prefix_code P e \<Longrightarrow> length xs = length ys \<Longrightarrow> list_all P xs \<Longrightarrow> list_all P ys \<Longrightarrow>
   concat (map e xs) @ r = concat (map e ys) @ r' \<Longrightarrow> xs = ys \<and> r = r'"
proof (induction xs ys rule: list_induct2')
  case (4 x xs y ys)
  have "e x @ concat (map e xs) @ r = e y @ concat (map e ys) @ r'" using "4.prems"(5) by simp
  then have "x = y" "concat (map e xs) @ r = concat (map e ys) @ r'"
    using "4.prems"(1,3,4) unfolding prefix_code_def by auto
  with "4.IH" "4.prems" show ?case by simp
qed simp_all

lemma section_cancel:
  assumes "prefix_code P e" and "list_all P xs" and "list_all P ys" and "length xs < 2 ^ 64" and "length ys < 2 ^ 64"
    and "length label < 2 ^ 64" and "digest_section label e xs @ r = digest_section label e ys @ r'"
  shows "xs = ys \<and> r = r'"
proof -
  have "short_bytes (byte_string label)" using assms(6) by (simp add: short_bytes_def byte_string_def)
  then have "digest_count (length xs) @ concat (map e xs) @ r = digest_count (length ys) @ concat (map e ys) @ r'"
    using assms(7) by (simp add: digest_section_def field_cancel)
  then have "length xs = length ys \<and> concat (map e xs) @ r = concat (map e ys) @ r'"
    using count_cancel [OF assms(4,5)] by blast
  with codes_cancel assms(1-3) show ?thesis by blast
qed

lemma kind_discriminator_inj: "principal_kind_discriminator a = principal_kind_discriminator b \<longleftrightarrow> a = b"
  by (cases a; cases b) simp_all

lemma status_discriminator_inj: "principal_status_discriminator a = principal_status_discriminator b \<longleftrightarrow> a = b"
  by (cases a; cases b) simp_all

lemma class_discriminator_inj: "target_class_discriminator a = target_class_discriminator b \<longleftrightarrow> a = b"
  by (cases a; cases b) simp_all

lemmas cancel = field_cancel optional_cancel short_id short_one short_be kind_discriminator_inj status_discriminator_inj
  class_discriminator_inj discriminator_inj

definition short_target :: "function_target \<Rightarrow> bool" where
  "short_target t \<longleftrightarrow> length (ft_function t) = 16 \<and> short_option (ft_standard_revision t) \<and> short_option (ft_executable_revision t)"

lemma target_code: "prefix_code short_target digest_target"
  unfolding prefix_code_def short_target_def digest_target_def
  by (intro allI impI, elim conjE) (simp add: cancel function_target.equality)

lemma principal_code: "prefix_code (\<lambda>p. length (pr_id p) = 16) digest_principal"
  unfolding prefix_code_def digest_principal_def
  by (intro allI impI, elim conjE) (simp add: cancel principal.equality)

definition short_membership :: "role_membership \<Rightarrow> bool" where
  "short_membership m \<longleftrightarrow> length (rm_member m) = 16 \<and> length (rm_role m) = 16"

lemma membership_code: "prefix_code short_membership digest_membership"
  unfolding prefix_code_def short_membership_def digest_membership_def
  by (intro allI impI, elim conjE) (simp add: cancel role_membership.equality)

definition short_grant :: "execute_grant \<Rightarrow> bool" where
  "short_grant g \<longleftrightarrow> length (fst g) = 16 \<and> length (snd g) = 16"

lemma grant_code: "prefix_code short_grant digest_grant"
  unfolding prefix_code_def short_grant_def digest_grant_def
  by (intro allI impI, elim conjE) (simp add: cancel prod_eq_iff)

definition short_privilege :: "privilege_grant \<Rightarrow> bool" where
  "short_privilege g \<longleftrightarrow> length (pg_grantee g) = 16 \<and> short_option (pg_object g)"

lemma privilege_code: "prefix_code short_privilege digest_privilege"
  unfolding prefix_code_def short_privilege_def digest_privilege_def
  by (intro allI impI, elim conjE) (simp add: cancel prod_eq_iff)

lemma peer_code: "prefix_code (\<lambda>c. length (lp_principal c) = 16) digest_peer"
proof -
  have uid: "to_be_bytes 4 (uint a) = to_be_bytes 4 (uint b) \<longleftrightarrow> a = b" for a b :: u32
  proof
    assume "to_be_bytes 4 (uint a) = to_be_bytes 4 (uint b)"
    moreover have "from_be_bytes (to_be_bytes 4 (uint x)) = uint x" for x :: u32
      using uint_lt2p [of x] by (intro from_to_be_bytes) simp_all
    ultimately show "a = b" by (metis word_uint_eq_iff)
  qed simp
  show ?thesis unfolding prefix_code_def digest_peer_def
    by (intro allI impI, elim conjE) (simp add: cancel uid local_peer_credential.equality del: to_be_bytes_Suc)
qed

section \<open>Snapshots\<close>

text \<open>What is hashed.\<close>

definition snapshot_content :: "security_snapshot \<Rightarrow> u8 list" where
  "snapshot_content s = security_snapshot_digest (\<lambda>b. b) (sn_revision s) (sn_function_targets s) (sn_principals s)
     (sn_memberships s) (sn_grants s) (sn_privilege_grants s) (sn_local_peers s)"

lemma digest_content: "makes sha256 revision fs ps ms gs cs rs s \<Longrightarrow> sn_digest s = sha256 (snapshot_content s)"
  unfolding makes_def by (simp add: snapshot_content_def security_snapshot_digest_def)

text \<open>Identities have sixteen bytes, and there are fewer than \<open>2 ^ 64\<close> records of each kind.\<close>

definition in_memory :: "security_snapshot \<Rightarrow> bool" where
  "in_memory s \<longleftrightarrow> length (rp_source (sn_revision s)) = 16 \<and> length (rp_catalogue (sn_revision s)) = 16
     \<and> list_all short_target (map snd (sn_function_targets s)) \<and> length (sn_function_targets s) < 2 ^ 64
     \<and> list_all (\<lambda>p. length (pr_id p) = 16) (map snd (sn_principals s)) \<and> length (sn_principals s) < 2 ^ 64
     \<and> list_all short_membership (sn_memberships s) \<and> length (sn_memberships s) < 2 ^ 64
     \<and> list_all short_grant (sn_grants s) \<and> length (sn_grants s) < 2 ^ 64
     \<and> list_all short_privilege (sn_privilege_grants s) \<and> length (sn_privilege_grants s) < 2 ^ 64
     \<and> list_all (\<lambda>c. length (lp_principal c) = 16) (map snd (sn_local_peers s)) \<and> length (sn_local_peers s) < 2 ^ 64"

lemma content_sections:
  assumes "snapshot_content s = snapshot_content t" and s: "in_memory s" and t: "in_memory t"
  shows "sn_revision s = sn_revision t" "map snd (sn_function_targets s) = map snd (sn_function_targets t)"
    "map snd (sn_principals s) = map snd (sn_principals t)" "sn_memberships s = sn_memberships t"
    "sn_grants s = sn_grants t" "sn_privilege_grants s = sn_privilege_grants t"
    "map snd (sn_local_peers s) = map snd (sn_local_peers t)"
proof -
  define peers where "peers = (\<lambda>x :: security_snapshot. digest_section ''local_peer_credentials'' digest_peer (map snd (sn_local_peers x)))"
  define privileges where "privileges = (\<lambda>x :: security_snapshot. digest_section ''privilege_grants'' digest_privilege (sn_privilege_grants x) @ peers x)"
  define grants where "grants = (\<lambda>x :: security_snapshot. digest_section ''execute_grants'' digest_grant (sn_grants x) @ privileges x)"
  define members where "members = (\<lambda>x :: security_snapshot. digest_section ''memberships'' digest_membership (sn_memberships x) @ grants x)"
  define persons where "persons = (\<lambda>x :: security_snapshot. digest_section ''principals'' digest_principal (map snd (sn_principals x)) @ members x)"
  define targets where "targets = (\<lambda>x :: security_snapshot. digest_section ''function_targets'' digest_target (map snd (sn_function_targets x)) @ persons x)"
  note tails = peers_def privileges_def grants_def members_def persons_def targets_def
  have "digest_field (rp_source (sn_revision s)) @ digest_field (rp_catalogue (sn_revision s)) @ targets s =
      digest_field (rp_source (sn_revision t)) @ digest_field (rp_catalogue (sn_revision t)) @ targets t"
    using assms(1) by (simp add: snapshot_content_def security_snapshot_digest_def tails)
  then have "rp_source (sn_revision s) = rp_source (sn_revision t) \<and> rp_catalogue (sn_revision s) = rp_catalogue (sn_revision t)
      \<and> targets s = targets t"
    using s t by (simp only: in_memory_def field_cancel short_id)
  then have c: "targets s = targets t" and "sn_revision s = sn_revision t" by (simp_all add: revision_pair.equality)
  from this(2) show "sn_revision s = sn_revision t" .
  have c: "map snd (sn_function_targets s) = map snd (sn_function_targets t) \<and> persons s = persons t"
    by (rule section_cancel [OF target_code _ _ _ _ _ c [unfolded targets_def]]) (use s t in \<open>simp_all add: in_memory_def\<close>)
  then show "map snd (sn_function_targets s) = map snd (sn_function_targets t)" by (rule conjunct1)
  have c: "map snd (sn_principals s) = map snd (sn_principals t) \<and> members s = members t"
    by (rule section_cancel [OF principal_code _ _ _ _ _ conjunct2 [OF c, unfolded persons_def]])
      (use s t in \<open>simp_all add: in_memory_def\<close>)
  then show "map snd (sn_principals s) = map snd (sn_principals t)" by (rule conjunct1)
  have c: "sn_memberships s = sn_memberships t \<and> grants s = grants t"
    by (rule section_cancel [OF membership_code _ _ _ _ _ conjunct2 [OF c, unfolded members_def]])
      (use s t in \<open>simp_all add: in_memory_def\<close>)
  then show "sn_memberships s = sn_memberships t" by (rule conjunct1)
  have c: "sn_grants s = sn_grants t \<and> privileges s = privileges t"
    by (rule section_cancel [OF grant_code _ _ _ _ _ conjunct2 [OF c, unfolded grants_def]])
      (use s t in \<open>simp_all add: in_memory_def\<close>)
  then show "sn_grants s = sn_grants t" by (rule conjunct1)
  have c: "sn_privilege_grants s = sn_privilege_grants t \<and> peers s = peers t"
    by (rule section_cancel [OF privilege_code _ _ _ _ _ conjunct2 [OF c, unfolded privileges_def]])
      (use s t in \<open>simp_all add: in_memory_def\<close>)
  then show "sn_privilege_grants s = sn_privilege_grants t" by (rule conjunct1)
  have "peers s @ [] = peers t @ []" using c by simp
  then show "map snd (sn_local_peers s) = map snd (sn_local_peers t)"
    by (intro conjunct1 [OF section_cancel [OF peer_code, of _ _ "''local_peer_credentials''" "[]" "[]"]])
      (use s t in \<open>simp_all add: in_memory_def peers_def\<close>)
qed

lemma indexes_map: "indexes f xs m \<Longrightarrow> m = map (\<lambda>x. (f x, x)) (map snd m)"
proof -
  assume m: "indexes f xs m"
  have "(k, x) \<in> set m \<Longrightarrow> k = f x" for k x using m by (simp add: indexes_def bm_get_mem)
  then have "map (\<lambda>x. (f x, x)) (map snd m) = map (\<lambda>e. e) m" unfolding map_map by (intro map_cong) auto
  then show ?thesis by simp
qed

lemma indexes_eq:
  assumes "indexes f xs m" and "indexes f ys n" and "map snd m = map snd n"
  shows "m = n"
proof -
  have "m = map (\<lambda>x. (f x, x)) (map snd m)" by (rule indexes_map [OF assms(1)])
  also have "\<dots> = map (\<lambda>x. (f x, x)) (map snd n)" by (simp only: assms(3))
  also have "\<dots> = n" by (rule indexes_map [OF assms(2), symmetric])
  finally show ?thesis .
qed

text \<open>
  C17. The digest of a security snapshot stands for the snapshot: two validated snapshots with one digest are equal in
  every part, unless the hash collides on their two contents.
\<close>

theorem snapshot_digest_binds:
  assumes "snapshot_new sha256 revision fs ps ms gs cs rs = Ok s"
    and "snapshot_new sha256 revision' fs' ps' ms' gs' cs' rs' = Ok t"
    and "in_memory s" and "in_memory t" and "sn_digest s = sn_digest t"
    and "sha256 (snapshot_content s) = sha256 (snapshot_content t) \<longrightarrow> snapshot_content s = snapshot_content t"
  shows "s = t"
proof -
  note m = snapshot_new_makes [OF assms(1)] and n = snapshot_new_makes [OF assms(2)]
  have "snapshot_content s = snapshot_content t" using assms(5,6) digest_content [OF m] digest_content [OF n] by simp
  note parts = content_sections [OF this assms(3,4)]
  have "indexes ft_function (set fs) (sn_function_targets s)" "indexes ft_function (set fs') (sn_function_targets t)"
    using m n unfolding makes_def by blast+
  then have "sn_function_targets s = sn_function_targets t" using parts(2) by (rule indexes_eq)
  moreover have "indexes pr_id (set ps) (sn_principals s)" "indexes pr_id (set ps') (sn_principals t)"
    using m n unfolding makes_def by blast+
  then have "sn_principals s = sn_principals t" using parts(3) by (rule indexes_eq)
  moreover have "indexes lp_uid (set cs) (sn_local_peers s)" "indexes lp_uid (set cs') (sn_local_peers t)"
    using m n unfolding makes_def by blast+
  then have "sn_local_peers s = sn_local_peers t" using parts(7) by (rule indexes_eq)
  ultimately show ?thesis using parts assms(5) by (intro security_snapshot.equality) simp_all
qed

section \<open>INSPECT privileges\<close>

text \<open>The rung an epoch and a request need.\<close>

definition needed_rung :: "ident \<Rightarrow> ident option \<Rightarrow> inspect_privilege \<Rightarrow> nat" where
  "needed_rung who epoch_owner requested =
     max (case epoch_owner of None \<Rightarrow> 1 | Some o1 \<Rightarrow> if o1 = who then 0 else 2) (unwrap_or 0 (ladder_rank requested))"

lemma max_rank_Some: "(\<exists>r. max_rank ranks = Some r \<and> n \<le> r) \<longleftrightarrow> (\<exists>r. Some r \<in> set ranks \<and> n \<le> r)"
proof -
  have set: "set (List.map_filter (\<lambda>r. r) ranks) = {r. Some r \<in> set ranks}" by (force simp: map_filter_def)
  show ?thesis
  proof (cases "List.map_filter (\<lambda>r. r) ranks")
    case Nil
    with set show ?thesis by (auto simp: max_rank_def)
  next
    case (Cons r rs)
    then have "max_rank ranks = Some (Max (set (List.map_filter (\<lambda>r. r) ranks)))"
      by (simp only: max_rank_def list.case Max.set_eq_fold)
    moreover have "set (List.map_filter (\<lambda>r. r) ranks) \<noteq> {}" using Cons by simp
    moreover have "finite {r. Some r \<in> set ranks}" unfolding set [symmetric] by simp
    ultimately show ?thesis using Max_ge_iff [of "set (List.map_filter (\<lambda>r. r) ranks)" n] unfolding set by auto
  qed
qed

lemma has_classifier: "list_ex (\<lambda>q. classifier q = Some c) qs \<longleftrightarrow> Some c \<in> classifier ` set qs"
  by (induction qs) auto

text \<open>
  The INSPECT ladder. An epoch may be inspected exactly when some granted rung reaches the epoch's scope and the
  request, and a requested classifier is itself granted; then every larger grant allows it too. A class-wide decision is
  the one on the principal's own epochs, and administration is never granted for one object.
\<close>

theorem inspect_ladder_exact:
  "(authorise_inspect who requested epoch_owner granted = InspectAllowed scope p) =
     (p = requested
      \<and> scope = (case epoch_owner of None \<Rightarrow> Session | Some o1 \<Rightarrow> if o1 = who then Own else Foreign)
      \<and> (\<exists>r. Some r \<in> ladder_rank ` set granted \<and> needed_rung who epoch_owner requested \<le> r)
      \<and> (classifier requested = None \<or> classifier requested \<in> classifier ` set granted))
   \<and> (authorise_privilege who (Inspect requested) object classes = PrivilegeAllowed (Inspect requested)) =
     (authorise_inspect who requested (Some who) (inspect_classes classes) = InspectAllowed Own requested)
   \<and> (authorise_privilege who SecurityAdmin object classes = PrivilegeAllowed SecurityAdmin) =
     (object = None \<and> SecurityAdmin \<in> set classes)"
proof -
  have inspect: "(authorise_inspect who requested epoch_owner granted = InspectAllowed scope p) =
     (p = requested
      \<and> scope = (case epoch_owner of None \<Rightarrow> Session | Some o1 \<Rightarrow> if o1 = who then Own else Foreign)
      \<and> (\<exists>r. max_rank (map ladder_rank granted) = Some r \<and> needed_rung who epoch_owner requested \<le> r)
      \<and> (classifier requested = None \<or> classifier requested \<in> classifier ` set granted))" for epoch_owner granted scope p
    by (cases epoch_owner; cases "max_rank (map ladder_rank granted)"; cases "classifier requested")
      (auto simp: authorise_inspect_def Let_def needed_rung_def has_classifier)
  have "(authorise_privilege who (Inspect requested) object classes = PrivilegeAllowed (Inspect requested)) =
     (authorise_inspect who requested (Some who) (inspect_classes classes) = InspectAllowed Own requested)"
    unfolding inspect
    by (cases "max_rank (map ladder_rank (inspect_classes classes))"; cases "classifier requested")
      (auto simp: authorise_privilege_def Let_def needed_rung_def has_classifier)
  then show ?thesis unfolding inspect max_rank_Some by (simp add: authorise_privilege_def)
qed

section \<open>Instances of the digest\<close>

lemma w_ident_not_empty: "w_ident n \<noteq> empty_id"
proof
  assume "w_ident n = empty_id"
  then have "hd (w_ident n) = hd empty_id" by simp
  then show False by (simp add: w_ident_def empty_id_def)
qed

definition w_user :: principal where
  "w_user = \<lparr>pr_id = w_ident 3, pr_kind = User, pr_status = Active\<rparr>"

definition w_single :: security_snapshot where
  "w_single = \<lparr>sn_revision = w_revision, sn_function_targets = [], sn_principals = [(w_ident 3, w_user)],
     sn_memberships = [], sn_grants = [],
     sn_privilege_grants = [(w_ident 3, Execute, None), (w_ident 3, SecurityAdmin, None)], sn_local_peers = [],
     sn_digest = security_snapshot_digest (\<lambda>b. b) w_revision [] [(w_ident 3, w_user)]
       [] [] [(w_ident 3, Execute, None), (w_ident 3, SecurityAdmin, None)] []\<rparr>"

lemma w_single_new:
  "snapshot_new (\<lambda>b. b) w_revision [] [w_user] [] [] [] [(w_ident 3, Execute, None), (w_ident 3, SecurityAdmin, None)] = Ok w_single"
  "snapshot_new (\<lambda>b. b) w_revision [] [w_user] [] [] [] [(w_ident 3, SecurityAdmin, None), (w_ident 3, Execute, None)] = Ok w_single"
  by (simp_all add: snapshot_new_def w_single_def w_user_def role_graph_has_cycle_def bm_contains_def w_ident_not_empty
      bm_get_def less_privilege_class_def)

theorem snapshot_digest_binds_witness:
  "snapshot_new (\<lambda>b. b) w_revision [] [w_user] [] [] [] [(w_ident 3, Execute, None), (w_ident 3, SecurityAdmin, None)] =
   snapshot_new (\<lambda>b. b) w_revision [] [w_user] [] [] [] [(w_ident 3, SecurityAdmin, None), (w_ident 3, Execute, None)]"
proof -
  have mem: "in_memory w_single"
    by (simp add: in_memory_def w_single_def w_revision_def w_user_def w_ident_def short_privilege_def short_option_def)
  obtain s where s: "snapshot_new (\<lambda>b. b) w_revision [] [w_user] [] [] []
      [(w_ident 3, Execute, None), (w_ident 3, SecurityAdmin, None)] = Ok s" "in_memory s" "sn_digest s = sn_digest w_single"
    using w_single_new(1) mem by blast
  obtain t where t: "snapshot_new (\<lambda>b. b) w_revision [] [w_user] [] [] []
      [(w_ident 3, SecurityAdmin, None), (w_ident 3, Execute, None)] = Ok t" "in_memory t" "sn_digest t = sn_digest w_single"
    using w_single_new(2) mem by blast
  have "s = t" by (rule snapshot_digest_binds [OF s(1) t(1) s(2) t(2)]) (simp_all add: s(3) t(3))
  with s(1) t(1) show ?thesis by simp
qed

end
