(* ===== verification/Orna_Audit.thy ===== *)
theory Orna_Audit
  imports Orna_Grants Orna_Text
begin

text \<open>
  Protected audit decisions: \<open>SecurityAuditDecision\<close> of \<open>crates/orna-core/src/security.rs\<close>. A decision is recorded
  without its arguments, and the checked constructors refuse evidence that does not fit.
\<close>

section \<open>Decisions\<close>

datatype security_audit_kind = Authentication | KExecute | Capability | UserState | KInspect | KSecurityAdmin | SourceApply

datatype user_state_operation = Load | Write

datatype security_admin_operation =
  CreatePrincipal | DisablePrincipal | CreateRole | GrantRole | RevokeRole | GrantPrivilege | RevokePrivilege

datatype security_audit_outcome = OutcomeAllowed | OutcomeDenied

datatype security_audit_denial =
    DeniedAuthentication local_peer_authentication_error
  | DeniedExecute execute_denial
  | DeniedCapability string
  | DeniedInspect inspect_denial
  | DeniedSecurityAdmin privilege_class

datatype security_audit_decision =
    AuthenticationAllowed ident
  | AuthenticationDenied "ident option" local_peer_authentication_error
  | ExecuteAllowed ident ident ident invocation_target
  | ExecuteDenied ident invocation_target execute_denial
  | CapabilityAllowed ident invocation_target string
  | CapabilityDenied ident invocation_target string
  | UserStateAllowed ident user_state_operation ident u64
  | AuditInspectAllowed ident inspect_privilege inspect_epoch_scope "ident option"
  | AuditInspectDenied ident "ident option" inspect_denial
  | SecurityAdminAllowed ident security_admin_operation ident
  | SecurityAdminDenied ident security_admin_operation ident privilege_class
  | SourceApplyAllowed ident revision_pair

datatype security_audit_decision_error =
  AuthenticationPrincipalShape | CapabilityNameShape | InspectDecisionShape | SecurityAdminDecisionShape

section \<open>Capability names\<close>

fun split_dots :: "string \<Rightarrow> string list" where
  "split_dots [] = [[]]"
| "split_dots (c # cs) =
     (if c = CHR ''.'' then [] # split_dots cs
      else (case split_dots cs of [] \<Rightarrow> [[c]] | part # parts \<Rightarrow> (c # part) # parts))"

definition is_ascii_lowercase :: "char \<Rightarrow> bool" where
  "is_ascii_lowercase c \<longleftrightarrow> 97 \<le> (of_char c :: nat) \<and> (of_char c :: nat) \<le> 122"

definition capability_segment :: "string \<Rightarrow> bool" where
  "capability_segment s =
     (case s of
        [] \<Rightarrow> False
      | first # rest \<Rightarrow> is_ascii_lowercase first
          \<and> list_all (\<lambda>c. is_ascii_lowercase c \<or> is_ascii_digit c \<or> c = CHR ''_'') rest)"

text \<open>The loop counts the segments it has accepted.\<close>

fun capability_segments :: "string list \<Rightarrow> nat \<Rightarrow> (security_audit_decision_error, nat) result" where
  "capability_segments [] n = Ok n"
| "capability_segments (s # ss) n =
     (if capability_segment s then capability_segments ss (Suc n) else Err CapabilityNameShape)"

definition validate_capability_name :: "string \<Rightarrow> (security_audit_decision_error, unit) result" where
  "validate_capability_name name =
     (case capability_segments (split_dots name) 0 of
        Inl e \<Rightarrow> Err e
      | Inr n \<Rightarrow> if n < 2 then Err CapabilityNameShape else Ok ())"

section \<open>Constructors\<close>

definition authentication_allowed :: "authenticated_session \<Rightarrow> security_audit_decision" where
  "authentication_allowed session = AuthenticationAllowed (au_principal session)"

definition authentication_denied ::
  "ident option \<Rightarrow> local_peer_authentication_error \<Rightarrow> (security_audit_decision_error, security_audit_decision) result" where
  "authentication_denied session_principal reason =
     (case (session_principal, reason) of
        (None, UnknownUid) \<Rightarrow> Ok (AuthenticationDenied session_principal reason)
      | (Some _, InvalidPrincipal _) \<Rightarrow> Ok (AuthenticationDenied session_principal reason)
      | _ \<Rightarrow> Err AuthenticationPrincipalShape)"

definition execute_allowed :: "authorised_invocation \<Rightarrow> security_audit_decision" where
  "execute_allowed a =
     ExecuteAllowed (ai_session_principal a) (ai_effective_principal a) (ai_authorising_principal a) (ai_target a)"

definition execute_denied ::
  "authenticated_session \<Rightarrow> invocation_target \<Rightarrow> execute_denial \<Rightarrow> security_audit_decision" where
  "execute_denied session target reason = ExecuteDenied (au_principal session) target reason"

definition recover_capability_allowed ::
  "ident \<Rightarrow> invocation_target \<Rightarrow> string \<Rightarrow> (security_audit_decision_error, security_audit_decision) result" where
  "recover_capability_allowed session_principal target capability =
     (case validate_capability_name capability of
        Inl e \<Rightarrow> Err e | Inr _ \<Rightarrow> Ok (CapabilityAllowed session_principal target capability))"

definition capability_allowed ::
  "authenticated_session \<Rightarrow> invocation_target \<Rightarrow> string \<Rightarrow> (security_audit_decision_error, security_audit_decision) result" where
  "capability_allowed session target capability = recover_capability_allowed (au_principal session) target capability"

definition recover_capability_denied ::
  "ident \<Rightarrow> invocation_target \<Rightarrow> string \<Rightarrow> (security_audit_decision_error, security_audit_decision) result" where
  "recover_capability_denied session_principal target capability =
     (case validate_capability_name capability of
        Inl e \<Rightarrow> Err e | Inr _ \<Rightarrow> Ok (CapabilityDenied session_principal target capability))"

definition capability_denied ::
  "authenticated_session \<Rightarrow> invocation_target \<Rightarrow> string \<Rightarrow> (security_audit_decision_error, security_audit_decision) result" where
  "capability_denied session target capability = recover_capability_denied (au_principal session) target capability"

definition user_state_allowed ::
  "authenticated_session \<Rightarrow> user_state_operation \<Rightarrow> ident \<Rightarrow> u64 \<Rightarrow> security_audit_decision" where
  "user_state_allowed session operation root_function cell_count =
     UserStateAllowed (au_principal session) operation root_function cell_count"

definition inspect_allowed ::
  "authenticated_session \<Rightarrow> inspect_decision \<Rightarrow> ident option \<Rightarrow> (security_audit_decision_error, security_audit_decision) result" where
  "inspect_allowed session decision epoch_owner =
     (case decision of
        InspectAllowed scope requested \<Rightarrow> Ok (AuditInspectAllowed (au_principal session) requested scope epoch_owner)
      | InspectDenied _ \<Rightarrow> Err InspectDecisionShape)"

definition inspect_denied :: "authenticated_session \<Rightarrow> ident option \<Rightarrow> inspect_denial \<Rightarrow> security_audit_decision" where
  "inspect_denied session epoch_owner reason = AuditInspectDenied (au_principal session) epoch_owner reason"

definition security_admin_allowed ::
  "authenticated_session \<Rightarrow> privilege_decision \<Rightarrow> security_admin_operation \<Rightarrow> ident \<Rightarrow>
   (security_audit_decision_error, security_audit_decision) result" where
  "security_admin_allowed session decision operation target =
     (case decision of
        PrivilegeDenied _ \<Rightarrow> Err SecurityAdminDecisionShape
      | PrivilegeAllowed requested \<Rightarrow>
          if requested \<noteq> SecurityAdmin then Err SecurityAdminDecisionShape
          else Ok (SecurityAdminAllowed (au_principal session) operation target))"

definition security_admin_denied ::
  "authenticated_session \<Rightarrow> security_admin_operation \<Rightarrow> ident \<Rightarrow> privilege_class \<Rightarrow> security_audit_decision" where
  "security_admin_denied session operation target reason = SecurityAdminDenied (au_principal session) operation target reason"

definition source_apply_allowed :: "authenticated_session \<Rightarrow> revision_pair \<Rightarrow> security_audit_decision" where
  "source_apply_allowed session candidate = SourceApplyAllowed (au_principal session) candidate"

section \<open>What a decision records\<close>

fun audit_kind :: "security_audit_decision \<Rightarrow> security_audit_kind" where
  "audit_kind (AuthenticationAllowed _) = Authentication"
| "audit_kind (AuthenticationDenied _ _) = Authentication"
| "audit_kind (ExecuteAllowed _ _ _ _) = KExecute"
| "audit_kind (ExecuteDenied _ _ _) = KExecute"
| "audit_kind (CapabilityAllowed _ _ _) = Capability"
| "audit_kind (CapabilityDenied _ _ _) = Capability"
| "audit_kind (UserStateAllowed _ _ _ _) = UserState"
| "audit_kind (AuditInspectAllowed _ _ _ _) = KInspect"
| "audit_kind (AuditInspectDenied _ _ _) = KInspect"
| "audit_kind (SecurityAdminAllowed _ _ _) = KSecurityAdmin"
| "audit_kind (SecurityAdminDenied _ _ _ _) = KSecurityAdmin"
| "audit_kind (SourceApplyAllowed _ _) = SourceApply"

fun audit_outcome :: "security_audit_decision \<Rightarrow> security_audit_outcome" where
  "audit_outcome (AuthenticationAllowed _) = OutcomeAllowed"
| "audit_outcome (ExecuteAllowed _ _ _ _) = OutcomeAllowed"
| "audit_outcome (CapabilityAllowed _ _ _) = OutcomeAllowed"
| "audit_outcome (UserStateAllowed _ _ _ _) = OutcomeAllowed"
| "audit_outcome (AuditInspectAllowed _ _ _ _) = OutcomeAllowed"
| "audit_outcome (SecurityAdminAllowed _ _ _) = OutcomeAllowed"
| "audit_outcome (SourceApplyAllowed _ _) = OutcomeAllowed"
| "audit_outcome (AuthenticationDenied _ _) = OutcomeDenied"
| "audit_outcome (ExecuteDenied _ _ _) = OutcomeDenied"
| "audit_outcome (CapabilityDenied _ _ _) = OutcomeDenied"
| "audit_outcome (AuditInspectDenied _ _ _) = OutcomeDenied"
| "audit_outcome (SecurityAdminDenied _ _ _ _) = OutcomeDenied"

fun audit_session_principal :: "security_audit_decision \<Rightarrow> ident option" where
  "audit_session_principal (AuthenticationAllowed p) = Some p"
| "audit_session_principal (ExecuteAllowed p _ _ _) = Some p"
| "audit_session_principal (ExecuteDenied p _ _) = Some p"
| "audit_session_principal (CapabilityAllowed p _ _) = Some p"
| "audit_session_principal (CapabilityDenied p _ _) = Some p"
| "audit_session_principal (UserStateAllowed p _ _ _) = Some p"
| "audit_session_principal (AuditInspectAllowed p _ _ _) = Some p"
| "audit_session_principal (AuditInspectDenied p _ _) = Some p"
| "audit_session_principal (SecurityAdminAllowed p _ _) = Some p"
| "audit_session_principal (SecurityAdminDenied p _ _ _) = Some p"
| "audit_session_principal (SourceApplyAllowed p _) = Some p"
| "audit_session_principal (AuthenticationDenied p _) = p"

fun audit_authorising_principal :: "security_audit_decision \<Rightarrow> ident option" where
  "audit_authorising_principal (ExecuteAllowed _ _ g _) = Some g"
| "audit_authorising_principal _ = None"

fun audit_target :: "security_audit_decision \<Rightarrow> invocation_target option" where
  "audit_target (ExecuteAllowed _ _ _ t) = Some t"
| "audit_target (ExecuteDenied _ t _) = Some t"
| "audit_target (CapabilityAllowed _ t _) = Some t"
| "audit_target (CapabilityDenied _ t _) = Some t"
| "audit_target _ = None"

fun audit_capability_name :: "security_audit_decision \<Rightarrow> string option" where
  "audit_capability_name (CapabilityAllowed _ _ c) = Some c"
| "audit_capability_name (CapabilityDenied _ _ c) = Some c"
| "audit_capability_name _ = None"

fun audit_denial :: "security_audit_decision \<Rightarrow> security_audit_denial option" where
  "audit_denial (AuthenticationDenied _ r) = Some (DeniedAuthentication r)"
| "audit_denial (ExecuteDenied _ _ r) = Some (DeniedExecute r)"
| "audit_denial (CapabilityDenied _ _ c) = Some (DeniedCapability c)"
| "audit_denial (AuditInspectDenied _ _ r) = Some (DeniedInspect r)"
| "audit_denial (SecurityAdminDenied _ _ _ r) = Some (DeniedSecurityAdmin r)"
| "audit_denial _ = None"

section \<open>Laws\<close>

lemma capability_segments_Ok: "capability_segments ss n = Ok k \<longleftrightarrow> list_all capability_segment ss \<and> k = n + length ss"
  by (induction ss arbitrary: n) auto

lemma split_dots_not_empty [simp]: "split_dots s \<noteq> []"
  by (induction s) (auto split: list.splits)

lemma split_dots_parts: "set s \<subseteq> insert (CHR ''.'') (\<Union> (set ` set (split_dots s)))"
proof (induction s)
  case (Cons c cs)
  then show ?case by (cases "split_dots cs") auto
qed simp

lemma validate_capability_name_Ok:
  "validate_capability_name name = Ok u \<longleftrightarrow> list_all capability_segment (split_dots name) \<and> 2 \<le> length (split_dots name)"
proof (cases "capability_segments (split_dots name) 0")
  case (Inl e)
  then have "\<not> list_all capability_segment (split_dots name)"
    using capability_segments_Ok [of "split_dots name" 0 "length (split_dots name)"] by auto
  with Inl show ?thesis by (simp add: validate_capability_name_def)
next
  case (Inr n)
  with capability_segments_Ok [of "split_dots name" 0 n] show ?thesis by (auto simp: validate_capability_name_def)
qed

text \<open>The characters a recorded name can have: no path, no host, no argument form.\<close>

lemma validated_name_chars:
  assumes "validate_capability_name name = Ok u" and "c \<in> set name"
  shows "is_ascii_lowercase c \<or> is_ascii_digit c \<or> c = CHR ''_'' \<or> c = CHR ''.''"
proof -
  have "list_all capability_segment (split_dots name)" using assms(1) by (simp add: validate_capability_name_Ok)
  then have segment: "capability_segment part" if "part \<in> set (split_dots name)" for part
    using that by (simp add: list_all_iff)
  have "is_ascii_lowercase x \<or> is_ascii_digit x \<or> x = CHR ''_''" if "part \<in> set (split_dots name)" "x \<in> set part" for x part
    using segment [OF that(1)] that(2) by (cases part) (auto simp: capability_segment_def list_all_iff)
  with split_dots_parts [of name] assms(2) show ?thesis by blast
qed

text \<open>
  Recorded evidence fits its decision. A reason is recorded exactly for a denial; an allowed administration or
  inspection is recorded only from a decision that allowed it, a failed authentication with the principal exactly when one
  was mapped; and a capability is recorded by a qualified name of lowercase letters, digits, underscores and dots only.
\<close>

theorem audit_evidence_fits:
  "(audit_outcome d = OutcomeDenied) = (audit_denial d \<noteq> None)
   \<and> is_ok (security_admin_allowed session (authorise_privilege who c object granted) operation target) =
       (c = SecurityAdmin \<and> object = None \<and> SecurityAdmin \<in> set granted)
   \<and> (inspect_allowed session (authorise_inspect who requested owner privileges) owner = Ok e) =
       (\<exists>scope. authorise_inspect who requested owner privileges = InspectAllowed scope requested
          \<and> e = AuditInspectAllowed (au_principal session) requested scope owner)
   \<and> is_ok (authentication_denied mapped reason) = ((mapped = None) = (reason = UnknownUid))
   \<and> {name. is_ok (capability_allowed session called name) \<or> is_ok (capability_denied session called name)}
       \<subseteq> {name. 2 \<le> length (split_dots name)
            \<and> set name \<subseteq> {x. is_ascii_lowercase x \<or> is_ascii_digit x \<or> x = CHR ''_'' \<or> x = CHR ''.''}}"
proof -
  have "audit_outcome d = OutcomeDenied \<longleftrightarrow> audit_denial d \<noteq> None" by (cases d) simp_all
  moreover have "is_ok (security_admin_allowed session (authorise_privilege who c object granted) operation target) =
      (c = SecurityAdmin \<and> object = None \<and> SecurityAdmin \<in> set granted)"
    by (cases c) (simp_all add: security_admin_allowed_def authorise_privilege_def is_ok_def Let_def)
  moreover have "authorise_inspect who requested owner privileges = InspectAllowed scope p \<Longrightarrow> p = requested" for scope p
    by (auto simp: authorise_inspect_def Let_def split: option.splits if_splits)
  then have "(inspect_allowed session (authorise_inspect who requested owner privileges) owner = Ok e) =
      (\<exists>scope. authorise_inspect who requested owner privileges = InspectAllowed scope requested
         \<and> e = AuditInspectAllowed (au_principal session) requested scope owner)"
    by (cases "authorise_inspect who requested owner privileges") (auto simp: inspect_allowed_def)
  moreover have "is_ok (authentication_denied mapped reason) \<longleftrightarrow> (mapped = None \<longleftrightarrow> reason = UnknownUid)"
    by (cases mapped; cases reason) (simp_all add: authentication_denied_def is_ok_def)
  moreover have "validate_capability_name name = Ok ()"
    if "is_ok (capability_allowed session called name) \<or> is_ok (capability_denied session called name)" for name
    using that by (cases "validate_capability_name name")
      (simp_all add: capability_allowed_def recover_capability_allowed_def capability_denied_def recover_capability_denied_def is_ok_def)
  then have "{name. is_ok (capability_allowed session called name) \<or> is_ok (capability_denied session called name)}
       \<subseteq> {name. 2 \<le> length (split_dots name)
            \<and> set name \<subseteq> {x. is_ascii_lowercase x \<or> is_ascii_digit x \<or> x = CHR ''_'' \<or> x = CHR ''.''}}"
    using validated_name_chars validate_capability_name_Ok by blast
  ultimately show ?thesis by blast
qed

end
