(* ===== verification/Spec2Isabelle.thy ===== *)
theory Spec2Isabelle
  imports Orna_Relation Orna_Table Orna_Database Orna_Stream_Laws Orna_Security Orna_Media Orna_Value_Laws
    Orna_Evolution_Laws Orna_Merge_Schema Orna_Merge_Laws Orna_Serving_Laws Orna_Wave Orna_Path
    Orna_Publication Orna_Key_Index Orna_Scan Orna_Lowering Orna_Rekey_Laws
    Orna_Key_Identity Orna_Snapshot_Digest Orna_Audit
begin

text \<open>
  OrnaDB: the verification development.

  \<^bold>\<open>The program.\<close> OrnaDB is a database whose schemas, code and data live in a versioned repository. Its
  crates under \<open>src/crates\<close> divide the work as follows. \<open>orna-table\<close> holds the in-memory transaction
  primitives and the lazy relations the evaluator works on; \<open>orna-value\<close> defines the canonical binary
  form of every persisted value; \<open>orna-evolution\<close> plans schema migrations and merges two branches against
  their common base; \<open>orna-stream\<close> administers the checkpoints and failures of stream
  consumers; \<open>orna-security\<close> guards client sessions; \<open>orna-serving\<close> keeps the bounded page state those
  sessions watch; \<open>orna-cli\<close> serves media by byte range; \<open>orna-storage\<close> keeps the committed rows of a table in compact
  segments, and \<open>orna-core\<close> authorises the execution of functions. A runtime, a compiler front end and a repository layer surround them.

  The parts meet at values and identities. A merge compares row keys by their canonical encoding, and
  a migration compares canonical defaults: \<open>Orna_Evolution\<close> and \<open>Orna_Merge\<close> therefore import the codec.
  Compact storage identifies rows by encoded keys, takes the frozen mutations of the runtime, and carries out the
  re-keys of a migration plan: \<open>Orna_Lowering\<close> and \<open>Orna_Rekey\<close> compose it with the codec and the planner.
  A branch merge decides stream checkpoints by the generations the stream administration counts. A client
  session is admitted by the security boundary and then by the serving state, under the same rotation of
  its credential.

  \<^bold>\<open>Theories.\<close>

  \<^item> \<open>Orna_Prelude\<close>: results as sums, machine words, ordered maps and sets with their laws (collections
    \<open>bmap\<close> and \<open>wf_intros\<close>), and the locale \<open>stable_step\<close> for what no event can undo.
  \<^item> \<open>Orna_Text\<close>: the part of Rust's text library the components use.
  \<^item> \<open>Orna_Relation\<close>: \<open>Relation\<close> and \<open>CandidateScan\<close> of \<open>orna-table/src/lib.rs\<close>. Pull-based iterators are
    shown equal to closed forms: windows, joins, groups, candidate merges.
  \<^item> \<open>Orna_Txn\<close>: the abstract transaction and the interface \<open>txn_store\<close>, extended by \<open>txn_root\<close>. Isolation,
    all-or-nothing publication, referential integrity and statement recovery are proved once there.
  \<^item> \<open>Orna_Table\<close>, \<open>Orna_Database\<close>: \<open>TableRuntime\<close>/\<open>Activation\<close> and \<open>DatabaseRuntime\<close>/\<open>DatabaseActivation\<close>
    of \<open>orna-table/src/lib.rs\<close>, each interpreting both interfaces. Every closure refines the
    abstract transaction; no reachable runtime has a dangling required reference.
  \<^item> \<open>Orna_Stream\<close>, \<open>Orna_Stream_Laws\<close>: \<open>orna-stream/src/lib.rs\<close>. The sixteen commit intents of the
    in-memory backend, and the contract \<open>checkpoint_backend\<close>: a checkpoint moves only by a fenced
    commit, a spent lease is refused for ever, a failed ordered delivery blocks its stream, a refused
    intent changes nothing, and a running idle stream makes progress.
  \<^item> \<open>Orna_Security\<close>: \<open>orna-security/src/lib.rs\<close>. Origin parsing, admission, attachments, credential
    rotation and reconnect leases of a session; a closed session stays closed and refuses everything but another revocation
    or deletion.
  \<^item> \<open>Orna_Serving\<close>, \<open>Orna_Serving_Laws\<close>: \<open>orna-serving/src/lib.rs\<close>. Every method of \<open>Serving\<close>; the calls refine
    a step relation \<open>session_step\<close> labelled with the published revisions. The state stays within its
    limits, a resynchronisation skips nothing, a patch list is applied whole or not at all, requests and
    closed sessions only move forward.
  \<^item> \<open>Orna_Value\<close>, \<open>Orna_Value_Laws\<close>: the codec OVB-1 of \<open>orna-value/src/lib.rs\<close>, and its round trip with
    the exact limits at which an encoding is no longer readable.
  \<^item> \<open>Orna_Path\<close>: the row path codec of \<open>orna-value/src/lib.rs\<close>. Keys become file names and come back; every name is
    portable.
  \<^item> \<open>Orna_Evolution\<close>, \<open>Orna_Evolution_Laws\<close>: \<open>orna-evolution/src/lib.rs\<close>. An accepted plan reaches the target
    schema, keeps primary keys, and is executed only with approval.
  \<^item> \<open>Orna_Merge\<close>, \<open>Orna_Merge_Laws\<close>, \<open>Orna_Merge_Schema\<close>: \<open>orna-evolution/src/merge.rs\<close>. The locale
    \<open>three_way\<close> is the contract of a three-way choice; the merges of schemas, keyed rows and checkpoint
    snapshots decide every part by it, and never invent a deletion from missing history.
  \<^item> \<open>Orna_Wave\<close>: \<open>orna-serving/src/media_preview.rs\<close>. The WAVE parser returns on every input without a
    panic and accepts exactly the well-formed PCM files (\<open>riff_wave\<close>, \<open>riff_chunks\<close>, \<open>format_fits\<close>, \<open>wave_ok\<close>);
    image previews stay within their limits.
  \<^item> \<open>Orna_Media\<close>: \<open>orna-cli/src/media_range.rs\<close>. Range headers select the bytes the standard
    prescribes, and a reply asks the reader for exactly that span and serves it.
  \<^item> \<open>Orna_Key\<close>: key profiles, key admission and key indexes of \<open>orna-storage/src/compact.rs\<close>, on the manifest
    records of \<open>orna-repository/src/compact.rs\<close>. \<open>Orna_Key_Index\<close>: the budgeted streaming index holds exactly the
    keys of the rows the fold would give.
  \<^item> \<open>Orna_Compact\<close>, \<open>Orna_Compact_Laws\<close>: the fold of committed segments, the writer and the hybrid base. The
    fold is decided key by key (\<open>fold_rows_lineage\<close>), so segments may come in any order and the
    newest version of a key wins.
  \<^item> \<open>Orna_Publication\<close>: a prepared batch has the effect of its mutations in order, in memory and after the
    segments it commits are folded again. \<open>Orna_Lowering\<close>: \<open>lower_publication_freeze\<close>, from the freeze of
    \<open>orna-runtime/src/lib.rs\<close> to writer input; the freeze's digest binds its mutations, and a lowered freeze
    for the next generation gives a batch exactly when its last rows are complete, which is then published with its effect.
    \<open>batch_segments\<close>, the committed form of a batch, is a device of the specification: the modelled code leaves it to
    the storage engine.
  \<^item> \<open>Orna_Scan\<close>: \<open>orna-storage/src/scan_planner.rs\<close>. A plan prunes no segment and no shard that can hold a key of
    the range, and the fold of what it selects is the base restricted to the range.
  \<^item> \<open>Orna_Rekey\<close>, \<open>Orna_Rekey_Laws\<close>: \<open>apply_evolution_plan\<close> and \<open>apply_migration_plan_to_compact\<close>. The re-keys of a
    plan move rows of both representations at once, changing only their key fields (\<open>evolved\<close>, which carries the
    returned moves out, is a device of the specification).
  \<^item> \<open>Orna_Decimal\<close>, \<open>Orna_Decimal_Laws\<close>: the \<open>Decimal\<close> of \<open>orna-value/src/lib.rs\<close>. Sums, products and quotients are
    exact rational numbers in normal form, and each error has exactly its stated reason; a decimal has one spelling; comparing digit by
    digit is comparing the numbers.
  \<^item> \<open>Orna_Key_Order\<close>, \<open>Orna_Key_Identity\<close>: \<open>validate_tag\<close>, \<open>compare_primary_keys\<close> and the order of
    \<open>CompactKeyIdentity\<close>. Comparisons are put together from \<open>lawful\<close> ones, type by type, so keys of one profile are
    totally ordered: by their decoded values where the table has key fields, and by the bytes of the one \<open>Unit\<close> key where
    it has none.
  \<^item> \<open>Orna_Access\<close>, \<open>Orna_Grants\<close>, \<open>Orna_Audit\<close>: \<open>orna-core/src/security.rs\<close>, with the INSPECT privileges of
    \<open>inspect.rs\<close> and the sealed identities of \<open>system.rs\<close>. \<open>Orna_Grants_Laws\<close> compares the searches of the role graph with
    the closure of the memberships, \<open>Orna_Snapshot_Laws\<close> decides the constructor and the authorisation of calls by the
    recovered records, and \<open>Orna_Snapshot_Digest\<close> shows that the digest stands for the snapshot.

  \<^bold>\<open>Conventions.\<close> A \<open>Result\<close> is a sum, a \<open>&mut self\<close> method returns its result with the state it leaves
  behind, on the error paths too. \<open>u8\<close> to \<open>u64\<close> are words wherever the code computes with them; \<open>usize\<close> values
  that are only compared with lengths are natural numbers, and checked or saturating operations
  write their bound out. A panic is the value \<open>None\<close> where the code can reach one. A \<open>BTreeMap\<close> is its
  ascending sequence of entries. A Rust closure given to a transaction is an \<open>act_prog\<close>, any finite
  interaction with the API. Loops are structural recursion or have a termination proof (the nested search of the role graph by a measure
  that rests on what it returns); the window
  iterator is drained with the number of remaining items plus one as fuel, and its closed form shows
  that to be enough.

  \<^bold>\<open>Parameters.\<close> Code outside the modelled files enters as an argument: the tag registry \<open>vtag\<close> of
  the codec, which for the order of keys is \<open>validate_tag other\<close> with the arms listed there, the constant-time comparison \<open>ct\<close> of session credentials, the fresh identity of a session binding, the derived debug text \<open>dbg\<close>
  that orders merge conflicts, the reader of media bytes, the migration target, the hash \<open>sha256\<close>, the source of a manifest's
  keys, the authority over editable paths, and the payload types of
  assertions and protocol messages. A compact key is identified by the two functions \<open>p_identity\<close> and \<open>p_encoded\<close> of its profile,
  inverse to each other under \<open>profile_ok\<close>, over any linear order; the total order shown in
  \<open>Orna_Key_Identity\<close> is what that rests on. What is assumed of a parameter is a hypothesis of the property, and a
  witness instantiates it.

  \<^bold>\<open>Not modelled.\<close> The compiler front end (\<open>orna-syntax\<close>, \<open>orna-semantic\<close>), the evaluator and the runtime are
  larger than the modelled crates together and need a semantics of the language first; their
  asynchronous services have no sequential reading. Of \<open>orna-core\<close> only the execution authorisation is
  modelled. The repository, project and command line crates and the rest of the storage engine
  are file, process and socket input and output around the logic above. Of \<open>orna-value\<close> the
  typed codecs, blobs and the registry's arms for records, pinned references, diagnostics, presentations, errors, typed values
  and relations are not modelled, nor are digests. That a compact row
  reads back as it was written is stated as such (\<open>stored\<close>), with the codec's limits. \<open>orna-sys\<close> is mostly generated
  tables. The crates \<open>orna-lsp\<close>, \<open>orna-conformance\<close> and \<open>orna-traceability\<close> are tools. The standard
  library, the hash functions and the \<open>image\<close> crate are not verified.
\<close>

end
